(* ===== verification/Prelude.thy ===== *)
theory Prelude
  imports Main "HOL-Library.Word" "HOL-Library.Sublist" "HOL-Library.Char_ord" "HOL-Library.List_Lexorder"
begin

text \<open>
  Shared vocabulary of the development: the types that stand for the Rust types the code
  uses, Rust's slice operations on lists, the fold that models a loop which returns at its
  first failure, and the lemma collections the component theories extend.

  A Rust \<open>&str\<close> is the list of its UTF-8 bytes, so \<open>length\<close> is \<open>str::len\<close> and an index is
  a byte index.  A \<open>u8\<close> slice that is processed as raw bytes is a list of \<open>8 word\<close>.
  A \<open>usize\<close> that counts lines or bytes of a text in memory is a \<open>nat\<close>: it stays far below
  \<open>2 ^ 64\<close>, so saturating and plain addition agree; saturating subtraction is the
  subtraction of \<open>nat\<close>.
\<close>

type_synonym rstr = string
type_synonym byte = "8 word"
type_synonym u16 = "16 word"
type_synonym u32 = "32 word"
type_synonym u64 = "64 word"


named_theorems text_simps \<open>evaluation of the text scanning primitives\<close>
named_theorems suppression_simps \<open>evaluation of the edit and suppression stages\<close>
named_theorems frame_simps \<open>evaluation of the erasure coded frames\<close>
named_theorems solver_intros \<open>independence facts of the conflict solver\<close>

section \<open>Slices\<close>

text \<open>\<open>xs[a..b]\<close> for \<open>a \<le> b \<le> len\<close>.\<close>

definition slice :: "nat \<Rightarrow> nat \<Rightarrow> 'a list \<Rightarrow> 'a list" where
  "slice a b xs = take (b - a) (drop a xs)"

lemma length_slice [simp]: "length (slice a b xs) = min (b - a) (length xs - a)"
  by (simp add: slice_def)

lemma slice_0 [simp]: "slice 0 b xs = take b xs"
  by (simp add: slice_def)

lemma slice_self [simp]: "slice a a xs = []"
  by (simp add: slice_def)

lemma slice_nth: "i < b - a \<Longrightarrow> a + i < length xs \<Longrightarrow> slice a b xs ! i = xs ! (a + i)"
  by (simp add: slice_def)

lemma slice_append_drop: "a \<le> b \<Longrightarrow> slice a b xs @ drop b xs = drop a xs"
  by (metis append_take_drop_id drop_drop le_add_diff_inverse2 slice_def)

lemma take_slice_drop: "a \<le> b \<Longrightarrow> take a xs @ slice a b xs @ drop b xs = xs"
  by (simp add: slice_append_drop)

lemma slice_Suc_right:
  assumes "a \<le> b" and "b < length xs"
  shows "slice a (Suc b) xs = slice a b xs @ [xs ! b]"
  using assms by (simp add: slice_def Suc_diff_le take_Suc_conv_app_nth)

lemma take_Suc_slice: "a < length xs \<Longrightarrow> take (Suc a) xs = take a xs @ [xs ! a]"
  by (rule take_Suc_conv_app_nth)

text \<open>\<open>slice::get(i)\<close>: the element or nothing out of range.\<close>

definition nth_opt :: "'a list \<Rightarrow> nat \<Rightarrow> 'a option" where
  "nth_opt xs i = (if i < length xs then Some (xs ! i) else None)"

lemma nth_opt_simps [simp]:
  "nth_opt [] i = None"
  "nth_opt (x # xs) 0 = Some x"
  "nth_opt (x # xs) (Suc i) = nth_opt xs i"
  by (simp_all add: nth_opt_def)

text \<open>\<open>unwrap_or\<close>.\<close>

definition unwrap_or :: "'a option \<Rightarrow> 'a \<Rightarrow> 'a" where
  "unwrap_or x d = (case x of None \<Rightarrow> d | Some y \<Rightarrow> y)"

lemma unwrap_or_simps [simp]: "unwrap_or None d = d" "unwrap_or (Some x) d = x"
  by (simp_all add: unwrap_or_def)

section \<open>Loops that stop at the first failure\<close>

fun foldo :: "('a \<Rightarrow> 's \<Rightarrow> 's option) \<Rightarrow> 'a list \<Rightarrow> 's \<Rightarrow> 's option" where
  "foldo f [] s = Some s"
| "foldo f (x # xs) s = (case f x s of None \<Rightarrow> None | Some s' \<Rightarrow> foldo f xs s')"

lemma foldo_append:
  "foldo f (xs @ ys) s = (case foldo f xs s of None \<Rightarrow> None | Some s' \<Rightarrow> foldo f ys s')"
  by (induction xs arbitrary: s) (auto split: option.splits)

section \<open>Stable insertion into an order given by a comparison\<close>

text \<open>
  \<open>sort_by\<close> of Rust is stable.  \<open>le x y\<close> says that \<open>x\<close> may stay before \<open>y\<close>; an element
  moves left only past elements that must come after it.
\<close>

fun insert_by :: "('a \<Rightarrow> 'a \<Rightarrow> bool) \<Rightarrow> 'a \<Rightarrow> 'a list \<Rightarrow> 'a list" where
  "insert_by le x [] = [x]"
| "insert_by le x (y # ys) = (if le x y then x # y # ys else y # insert_by le x ys)"

definition sort_by :: "('a \<Rightarrow> 'a \<Rightarrow> bool) \<Rightarrow> 'a list \<Rightarrow> 'a list" where
  "sort_by le xs = foldr (insert_by le) xs []"

lemma sort_by_simps [simp]:
  "sort_by le [] = []"
  "sort_by le (x # xs) = insert_by le x (sort_by le xs)"
  by (simp_all add: sort_by_def)

lemma set_insert_by [simp]: "set (insert_by le x ys) = insert x (set ys)"
  by (induction ys) auto

lemma length_insert_by [simp]: "length (insert_by le x ys) = Suc (length ys)"
  by (induction ys) auto

lemma set_sort_by [simp]: "set (sort_by le xs) = set xs"
  by (induction xs) auto

lemma length_sort_by [simp]: "length (sort_by le xs) = length xs"
  by (induction xs) auto

lemma distinct_insert_by: "distinct (insert_by le x ys) \<longleftrightarrow> x \<notin> set ys \<and> distinct ys"
  by (induction ys) auto

lemma distinct_sort_by [simp]: "distinct (sort_by le xs) = distinct xs"
  by (induction xs) (auto simp: distinct_insert_by)

text \<open>A list that is already in order is left as it is.\<close>

lemma insert_by_sorted: "\<forall>y \<in> set ys. le x y \<Longrightarrow> insert_by le x ys = x # ys"
  by (cases ys) auto

lemma sort_by_id: "sorted_wrt le xs \<Longrightarrow> sort_by le xs = xs"
  by (induction xs) (auto simp: insert_by_sorted)

lemma sorted_insert_by:
  assumes "\<And>x y. le x y \<or> le y x" and "\<And>x y z. le x y \<Longrightarrow> le y z \<Longrightarrow> le x z"
    and "sorted_wrt le ys"
  shows "sorted_wrt le (insert_by le x ys)"
  using assms(3)
proof (induction ys)
  case (Cons y ys)
  show ?case
  proof (cases "le x y")
    case True
    with Cons.prems show ?thesis by (auto intro: assms(2))
  next
    case False
    with assms(1) have "le y x" by blast
    with False Cons show ?thesis by auto
  qed
qed simp

lemma sorted_sort_by:
  assumes "\<And>x y. le x y \<or> le y x" and "\<And>x y z. le x y \<Longrightarrow> le y z \<Longrightarrow> le x z"
  shows "sorted_wrt le (sort_by le xs)"
proof (induction xs)
  case (Cons a xs)
  with assms show ?case by (simp add: sorted_insert_by)
qed simp

section \<open>Binary search\<close>

text \<open>
  \<open>slice::binary_search_by\<close>: \<open>gt x\<close> says that \<open>x\<close> compares greater than the target,
  \<open>equal x\<close> that it compares equal.  The loop halves \<open>sz\<close> and keeps \<open>base\<close> at an element that
  is not greater.
\<close>

function bs_loop :: "('a \<Rightarrow> bool) \<Rightarrow> 'a list \<Rightarrow> nat \<Rightarrow> nat \<Rightarrow> nat" where
  "bs_loop gt xs sz base =
     (if sz > 1
      then let hf = sz div 2; mid = base + hf in
           bs_loop gt xs (sz - hf) (if gt (xs ! mid) then base else mid)
      else base)"
  by pat_completeness auto
termination
  by (relation "measure (\<lambda>(g, xs, sz, base). sz)") auto

declare bs_loop.simps [simp del]

definition binary_search_by :: "('a \<Rightarrow> bool) \<Rightarrow> ('a \<Rightarrow> bool) \<Rightarrow> 'a list \<Rightarrow> nat option" where
  "binary_search_by gt equal xs =
     (if xs = [] then None
      else let base = bs_loop gt xs (length xs) 0 in
           if equal (xs ! base) then Some base else None)"

lemma bs_loop_spec:
  assumes "0 < sz" "base + sz \<le> length xs" "base = 0 \<or> \<not> gt (xs ! base)"
    and "\<forall>i < length xs. base + sz \<le> i \<longrightarrow> gt (xs ! i)"
    and "sorted_wrt (\<lambda>x y. gt x \<longrightarrow> gt y) xs"
  shows "let b = bs_loop gt xs sz base in
     b < length xs \<and> (b = 0 \<or> \<not> gt (xs ! b)) \<and> (\<forall>i < length xs. b < i \<longrightarrow> gt (xs ! i))"
  using assms
proof (induction gt xs sz base rule: bs_loop.induct)
  case (1 gt xs sz base)
  show ?case
  proof (cases "sz > 1")
    case True
    define hf where "hf = sz div 2"
    have hf: "0 < hf" "hf < sz" "2 * hf \<le> sz" using True by (auto simp: hf_def)
    have mono: "gt (xs ! i) \<Longrightarrow> i \<le> j \<Longrightarrow> j < length xs \<Longrightarrow> gt (xs ! j)" for i j
      using "1.prems"(5) unfolding sorted_wrt_iff_nth_less by (metis le_neq_implies_less)
    have up: "\<forall>i < length xs. (if gt (xs ! (base + hf)) then base else base + hf) + (sz - hf) \<le> i
        \<longrightarrow> gt (xs ! i)"
      using "1.prems"(4) hf mono [of "base + hf"] by (auto split: if_splits)
    define base' where "base' = (if gt (xs ! (base + hf)) then base else base + hf)"
    have step: "bs_loop gt xs sz base = bs_loop gt xs (sz - hf) base'"
      using True by (subst bs_loop.simps) (simp add: Let_def base'_def hf_def)
    have "let b = bs_loop gt xs (sz - hf) base' in
       b < length xs \<and> (b = 0 \<or> \<not> gt (xs ! b)) \<and> (\<forall>i < length xs. b < i \<longrightarrow> gt (xs ! i))"
      unfolding base'_def
    proof (rule "1.IH" [OF True hf_def refl])
      show "0 < sz - hf" using hf by simp
      show "(if gt (xs ! (base + hf)) then base else base + hf) + (sz - hf) \<le> length xs"
        using hf "1.prems"(2) by auto
      show "(if gt (xs ! (base + hf)) then base else base + hf) = 0
          \<or> \<not> gt (xs ! (if gt (xs ! (base + hf)) then base else base + hf))"
        using "1.prems"(3) by simp
    qed (rule up, rule "1.prems"(5))
    then show ?thesis by (simp only: step)
  next
    case False
    with "1.prems" show ?thesis by (subst bs_loop.simps) (auto simp: Let_def)
  qed
qed

text \<open>
  On a list partitioned by the comparison, the search finds an equal element when there is one.
\<close>

lemma binary_search_by_iff:
  assumes "sorted_wrt (\<lambda>x y. (gt x \<longrightarrow> gt y) \<and> (equal x \<longrightarrow> equal y \<or> gt y)) xs"
    and "\<And>x. equal x \<Longrightarrow> \<not> gt x"
  shows "binary_search_by gt equal xs \<noteq> None \<longleftrightarrow> list_ex equal xs"
proof (cases "xs = []")
  case False
  define b where "b = bs_loop gt xs (length xs) 0"
  have "sorted_wrt (\<lambda>x y. gt x \<longrightarrow> gt y) xs"
    using assms(1) by (rule sorted_wrt_mono_rel [rotated]) blast
  then have b: "b < length xs" "b = 0 \<or> \<not> gt (xs ! b)" "\<forall>i < length xs. b < i \<longrightarrow> gt (xs ! i)"
    using bs_loop_spec [of "length xs" 0 xs gt] False by (auto simp: b_def Let_def)
  have "equal (xs ! b)" if "i < length xs" "equal (xs ! i)" for i
  proof -
    have "i \<le> b" using b(3) that assms(2) by (meson not_le)
    then consider "i = b" | "i < b" "b \<noteq> 0" by force
    then show ?thesis
    proof cases
      case 2
      then have "equal (xs ! b) \<or> gt (xs ! b)"
        using assms(1) that b(1) by (auto simp: sorted_wrt_iff_nth_less)
      with 2 b(2) show ?thesis by blast
    qed (use that in simp)
  qed
  with b(1) False show ?thesis
    by (auto simp: binary_search_by_def list_ex_length Let_def simp flip: b_def)
qed (simp add: binary_search_by_def)

section \<open>Ordered sets\<close>

text \<open>
  A \<open>BTreeSet<usize>\<close> is a set of \<open>nat\<close>.  Its iteration order is increasing, which is the
  list \<open>sorted_list_of_set\<close>; building one from an iterator is \<open>set\<close>.  A \<open>FxHashMap\<close> is a
  partial function; where the code iterates over one and the order can reach a result, the
  model carries the order as a list.
\<close>

definition clamp_nat :: "nat \<Rightarrow> nat \<Rightarrow> nat \<Rightarrow> nat" where
  "clamp_nat x low high = (if x < low then low else if high < x then high else x)"

section \<open>Maps in insertion order\<close>

text \<open>The entry of a key is updated in place, or appended with a default.\<close>

fun entry_update :: "'k \<Rightarrow> 'v \<Rightarrow> ('v \<Rightarrow> 'v) \<Rightarrow> ('k \<times> 'v) list \<Rightarrow> ('k \<times> 'v) list" where
  "entry_update k d f [] = [(k, f d)]"
| "entry_update k d f ((k', v) # entries) =
     (if k' = k then (k', f v) # entries else (k', v) # entry_update k d f entries)"

lemma keys_entry_update [simp]:
  "fst ` set (entry_update k d f entries) = insert k (fst ` set entries)"
  by (induction k d f entries rule: entry_update.induct) (simp_all add: insert_commute)

lemma distinct_entry_update [simp]:
  "distinct (map fst (entry_update k d f entries)) = distinct (map fst entries)"
  by (induction k d f entries rule: entry_update.induct) simp_all

lemma map_of_entry_update:
  "map_of (entry_update k d f entries) k'
     = (if k' = k then Some (f (unwrap_or (map_of entries k) d)) else map_of entries k')"
  by (induction k d f entries rule: entry_update.induct) auto

end
