(* ===== verification/Rust_Str.thy ===== *)
theory Rust_Str
  imports Prelude
begin

text \<open>
  The functions of Rust's \<open>str\<close>, \<open>u8\<close> and \<open>format!\<close> that the modelled code calls, on UTF-8
  byte strings: trimming of Unicode white space, ASCII case folding, splitting, joining,
  substring search and the decimal notation of integers, with the round trips the component
  theories need.  \<open>to_lowercase\<close> is modelled on ASCII letters only: on text whose non-ASCII
  letters have no other lower case form it is Rust's function.
\<close>

section \<open>Characters and case folding\<close>

definition is_ascii_uppercase :: "char \<Rightarrow> bool" where
  "is_ascii_uppercase c \<longleftrightarrow> CHR ''A'' \<le> c \<and> c \<le> CHR ''Z''"

definition is_ascii_alphabetic :: "char \<Rightarrow> bool" where
  "is_ascii_alphabetic c \<longleftrightarrow> is_ascii_uppercase c \<or> (CHR ''a'' \<le> c \<and> c \<le> CHR ''z'')"

definition is_ascii_digit :: "char \<Rightarrow> bool" where
  "is_ascii_digit c \<longleftrightarrow> CHR ''0'' \<le> c \<and> c \<le> CHR ''9''"

text \<open>The lower case of an ASCII letter sets bit 5.\<close>

definition to_ascii_lowercase_char :: "char \<Rightarrow> char" where
  "to_ascii_lowercase_char c =
     (if is_ascii_uppercase c
      then (case c of Char b0 b1 b2 b3 b4 b5 b6 b7 \<Rightarrow> Char b0 b1 b2 b3 b4 True b6 b7)
      else c)"

definition to_ascii_lowercase :: "rstr \<Rightarrow> rstr" where
  "to_ascii_lowercase s = map to_ascii_lowercase_char s"

definition eq_ignore_ascii_case :: "rstr \<Rightarrow> rstr \<Rightarrow> bool" where
  "eq_ignore_ascii_case a b \<longleftrightarrow> to_ascii_lowercase a = to_ascii_lowercase b"

abbreviation to_lowercase :: "rstr \<Rightarrow> rstr" where
  "to_lowercase \<equiv> to_ascii_lowercase"

lemma lower_not_upper: "\<not> is_ascii_uppercase (to_ascii_lowercase_char c)"
  by (cases c) (auto simp: to_ascii_lowercase_char_def is_ascii_uppercase_def)

lemma lower_char_idem [simp]:
  "to_ascii_lowercase_char (to_ascii_lowercase_char c) = to_ascii_lowercase_char c"
  using lower_not_upper [of c] by (simp add: to_ascii_lowercase_char_def)

lemma to_ascii_lowercase_idem [simp]:
  "to_ascii_lowercase (to_ascii_lowercase s) = to_ascii_lowercase s"
  by (simp add: to_ascii_lowercase_def)

lemma length_to_ascii_lowercase [simp]: "length (to_ascii_lowercase s) = length s"
  by (simp add: to_ascii_lowercase_def)

lemma to_ascii_lowercase_simps [simp]:
  "to_ascii_lowercase [] = []"
  "to_ascii_lowercase (c # s) = to_ascii_lowercase_char c # to_ascii_lowercase s"
  by (simp_all add: to_ascii_lowercase_def)

text \<open>A byte that is not a letter keeps its value and no letter is mapped onto it.\<close>

lemma lower_char_eq_iff:
  "\<not> is_ascii_alphabetic d \<Longrightarrow> to_ascii_lowercase_char c = d \<longleftrightarrow> c = d"
  by (cases c; cases d)
     (auto simp: to_ascii_lowercase_char_def is_ascii_alphabetic_def is_ascii_uppercase_def)

section \<open>Trimming\<close>

text \<open>
  The Unicode white space characters by their UTF-8 encodings: the ASCII ones and the two- and
  three-byte ones.  \<open>ws_prefix\<close> is the length of a white space character at the start of
  a string, 0 when there is none, \<open>ws_suffix\<close> the same at the start of a reversed string.
\<close>

definition ws1 :: "char \<Rightarrow> bool" where
  "ws1 a \<longleftrightarrow> a \<in> {CHR 0x20, CHR 0x09, CHR 0x0A, CHR 0x0B, CHR 0x0C, CHR 0x0D}"

definition ws2 :: "char \<Rightarrow> char \<Rightarrow> bool" where
  "ws2 a b \<longleftrightarrow> a = CHR 0xC2 \<and> b \<in> {CHR 0x85, CHR 0xA0}"

definition ws3 :: "char \<Rightarrow> char \<Rightarrow> char \<Rightarrow> bool" where
  "ws3 a b c \<longleftrightarrow>
     (a, b, c) = (CHR 0xE1, CHR 0x9A, CHR 0x80)
   \<or> (a, b) = (CHR 0xE2, CHR 0x80) \<and>
       c \<in> {CHR 0x80, CHR 0x81, CHR 0x82, CHR 0x83, CHR 0x84, CHR 0x85, CHR 0x86, CHR 0x87,
            CHR 0x88, CHR 0x89, CHR 0x8A, CHR 0xA8, CHR 0xA9, CHR 0xAF}
   \<or> (a, b, c) = (CHR 0xE2, CHR 0x81, CHR 0x9F)
   \<or> (a, b, c) = (CHR 0xE3, CHR 0x80, CHR 0x80)"

definition ws_prefix :: "rstr \<Rightarrow> nat" where
  "ws_prefix s =
     (case s of [] \<Rightarrow> 0
      | a # s1 \<Rightarrow> if ws1 a then 1 else
        (case s1 of [] \<Rightarrow> 0
         | b # s2 \<Rightarrow> if ws2 a b then 2 else
           (case s2 of [] \<Rightarrow> 0 | c # _ \<Rightarrow> if ws3 a b c then 3 else 0)))"

definition ws_suffix :: "rstr \<Rightarrow> nat" where
  "ws_suffix s =
     (case s of [] \<Rightarrow> 0
      | c # s1 \<Rightarrow> if ws1 c then 1 else
        (case s1 of [] \<Rightarrow> 0
         | b # s2 \<Rightarrow> if ws2 b c then 2 else
           (case s2 of [] \<Rightarrow> 0 | a # _ \<Rightarrow> if ws3 a b c then 3 else 0)))"

function strip_while :: "(rstr \<Rightarrow> nat) \<Rightarrow> rstr \<Rightarrow> rstr" where
  "strip_while p s = (if s = [] \<or> p s = 0 then s else strip_while p (drop (p s) s))"
  by pat_completeness auto
termination
  by (relation "measure (\<lambda>(p, s). length s)") auto

declare strip_while.simps [simp del]

lemma strip_while_stop: "p s = 0 \<Longrightarrow> strip_while p s = s"
  by (simp add: strip_while.simps [of p s])

lemma strip_while_Nil [simp]: "strip_while p [] = []"
  by (simp add: strip_while.simps)

definition trim_start :: "rstr \<Rightarrow> rstr" where
  "trim_start s = strip_while ws_prefix s"

definition trim_end :: "rstr \<Rightarrow> rstr" where
  "trim_end s = rev (strip_while ws_suffix (rev s))"

definition trim :: "rstr \<Rightarrow> rstr" where
  "trim s = trim_end (trim_start s)"

lemma strip_while_result: "strip_while p s = [] \<or> p (strip_while p s) = 0"
  by (induction p s rule: strip_while.induct) (subst (1 2) strip_while.simps, auto)

lemma strip_while_suffix: "suffix (strip_while p s) s"
proof (induction p s rule: strip_while.induct)
  case (1 p s)
  then show ?case
    by (subst strip_while.simps) (auto intro: suffix_order.trans suffix_drop)
qed

lemma strip_while_idem: "strip_while p (strip_while p s) = strip_while p s"
  using strip_while_result [of p s] by (auto intro: strip_while_stop)

lemma ws_prefix_prefix: "prefix t s \<Longrightarrow> ws_prefix s = 0 \<Longrightarrow> ws_prefix t = 0"
  by (auto simp: ws_prefix_def prefix_def split: list.splits if_splits)

lemma trim_start_idem [simp]: "trim_start (trim_start s) = trim_start s"
  by (simp add: trim_start_def strip_while_idem)

lemma trim_end_prefix: "prefix (trim_end s) s"
  using strip_while_suffix [of ws_suffix "rev s"]
  by (metis rev_rev_ident suffix_to_prefix trim_end_def)

lemma trim_end_idem [simp]: "trim_end (trim_end s) = trim_end s"
  by (simp add: trim_end_def strip_while_idem)

lemma trim_start_trim [simp]: "trim_start (trim s) = trim s"
proof -
  have "ws_prefix (trim_start s) = 0"
    using strip_while_result [of ws_prefix s] by (auto simp: trim_start_def ws_prefix_def)
  then have "ws_prefix (trim s) = 0"
    unfolding trim_def by (rule ws_prefix_prefix [OF trim_end_prefix])
  then show ?thesis by (simp add: trim_start_def strip_while_stop)
qed

lemma trim_idem [simp]: "trim (trim s) = trim s"
  by (subst (1) trim_def) (simp, simp add: trim_def)

lemma trim_Nil [simp]: "trim [] = []" "trim_start [] = []"
  by (simp_all add: trim_def trim_start_def trim_end_def)

text \<open>White space is never a letter, so trimming and case folding commute.\<close>

lemma ws_lower [simp]:
  "ws1 (to_ascii_lowercase_char a) = ws1 a"
  "ws2 (to_ascii_lowercase_char a) (to_ascii_lowercase_char b) = ws2 a b"
  "ws3 (to_ascii_lowercase_char a) (to_ascii_lowercase_char b) (to_ascii_lowercase_char c) = ws3 a b c"
  by (simp_all add: ws1_def ws2_def ws3_def lower_char_eq_iff is_ascii_alphabetic_def
      is_ascii_uppercase_def)

lemma ws_prefix_lower [simp]: "ws_prefix (to_ascii_lowercase s) = ws_prefix s"
  by (auto simp: ws_prefix_def to_ascii_lowercase_def split: list.splits)

lemma ws_suffix_lower [simp]: "ws_suffix (to_ascii_lowercase s) = ws_suffix s"
  by (auto simp: ws_suffix_def to_ascii_lowercase_def split: list.splits)

lemma strip_while_lower:
  assumes "\<And>s. p (to_ascii_lowercase s) = p s"
  shows "strip_while p (to_ascii_lowercase s) = to_ascii_lowercase (strip_while p s)"
proof (induction s rule: length_induct)
  case (1 s)
  show ?case
  proof (cases "s = [] \<or> p s = 0")
    case True
    then show ?thesis by (auto simp: strip_while_stop assms)
  next
    case False
    then have "length (drop (p s) s) < length s" by simp
    with 1 have "strip_while p (to_ascii_lowercase (drop (p s) s)) =
        to_ascii_lowercase (strip_while p (drop (p s) s))" by blast
    with False show ?thesis
      by (simp add: strip_while.simps [of p s] strip_while.simps [of p "to_ascii_lowercase s"]
          assms) (simp add: to_ascii_lowercase_def drop_map)
  qed
qed

lemma rev_lower: "rev (to_ascii_lowercase s) = to_ascii_lowercase (rev s)"
  by (simp add: to_ascii_lowercase_def rev_map)

lemma trim_lower: "trim (to_ascii_lowercase s) = to_ascii_lowercase (trim s)"
  by (simp add: trim_def trim_start_def trim_end_def strip_while_lower rev_lower)

section \<open>Searching, splitting, joining\<close>

definition starts_with :: "'a list \<Rightarrow> 'a list \<Rightarrow> bool" where
  "starts_with s p \<longleftrightarrow> take (length p) s = p"

definition strip_prefix :: "'a list \<Rightarrow> 'a list \<Rightarrow> 'a list option" where
  "strip_prefix s p = (if starts_with s p then Some (drop (length p) s) else None)"

definition ends_with :: "'a list \<Rightarrow> 'a list \<Rightarrow> bool" where
  "ends_with s p \<longleftrightarrow> starts_with (rev s) (rev p)"

lemma starts_with_append [simp]: "starts_with (p @ s) p"
  by (simp add: starts_with_def)

lemma starts_with_iff: "starts_with s p \<longleftrightarrow> (\<exists>t. s = p @ t)"
  by (metis append_take_drop_id starts_with_append starts_with_def)

lemma strip_prefix_append [simp]: "strip_prefix (p @ s) p = Some s"
  by (simp add: strip_prefix_def)

lemma strip_prefix_Some: "strip_prefix s p = Some t \<longleftrightarrow> s = p @ t"
  by (auto simp: strip_prefix_def starts_with_iff)

lemma ends_with_append [simp]: "ends_with (s @ p) p"
  by (simp add: ends_with_def)

lemma ends_with_iff: "ends_with s p \<longleftrightarrow> (\<exists>t. s = t @ p)"
  by (metis ends_with_append ends_with_def rev_append rev_rev_ident starts_with_iff)

text \<open>The first position of \<open>needle\<close> in \<open>hay\<close>, as \<open>str::find\<close> and \<open>memmem::find\<close> return it.\<close>

fun find_sub :: "'a list \<Rightarrow> 'a list \<Rightarrow> nat option" where
  "find_sub [] needle = (if needle = [] then Some 0 else None)"
| "find_sub (x # hay) needle =
     (if starts_with (x # hay) needle then Some 0 else map_option Suc (find_sub hay needle))"

lemma find_sub_Some:
  "find_sub hay needle = Some i \<Longrightarrow>
     starts_with (drop i hay) needle \<and> (\<forall>j < i. \<not> starts_with (drop j hay) needle)"
proof (induction hay needle arbitrary: i rule: find_sub.induct)
  case (1 needle)
  then show ?case by (auto simp: starts_with_def split: if_splits)
next
  case (2 x hay needle)
  then show ?case
    by (auto split: if_splits simp: less_Suc_eq_0_disj)
qed

lemma find_sub_None:
  "find_sub hay needle = None \<Longrightarrow> \<not> starts_with (drop i hay) needle"
proof (induction hay needle arbitrary: i rule: find_sub.induct)
  case (1 needle)
  then show ?case by (auto simp: starts_with_def split: if_splits)
next
  case (2 x hay needle)
  then show ?case by (cases i) (auto split: if_splits)
qed

lemma find_sub_le: "find_sub hay needle = Some i \<Longrightarrow> i + length needle \<le> length hay"
proof (induction hay needle arbitrary: i rule: find_sub.induct)
  case (2 x hay needle)
  then show ?case
    by (auto split: if_splits simp: starts_with_def) (metis length_Cons length_take min_def nat_le_linear)
qed (auto split: if_splits)

definition contains :: "'a list \<Rightarrow> 'a list \<Rightarrow> bool" where
  "contains hay needle \<longleftrightarrow> find_sub hay needle \<noteq> None"

text \<open>\<open>str::split\<close> on a character: at least one piece, the separators removed.\<close>

fun split_on :: "'a \<Rightarrow> 'a list \<Rightarrow> 'a list list" where
  "split_on c [] = [[]]"
| "split_on c (x # xs) =
     (if x = c then [] # split_on c xs
      else (case split_on c xs of [] \<Rightarrow> [[x]] | p # ps \<Rightarrow> (x # p) # ps))"

fun join :: "'a list \<Rightarrow> 'a list list \<Rightarrow> 'a list" where
  "join sep [] = []"
| "join sep [x] = x"
| "join sep (x # y # ys) = x @ sep @ join sep (y # ys)"

lemma split_on_nonempty [simp]: "split_on c xs \<noteq> []"
  by (induction xs) (auto split: list.splits)

lemma join_split_on: "join [c] (split_on c xs) = xs"
proof (induction xs)
  case (Cons x xs)
  show ?case
  proof (cases "split_on c xs")
    case (Cons p ps)
    with Cons.IH show ?thesis by (cases ps) auto
  qed simp
qed simp

lemma split_on_no_sep: "p \<in> set (split_on c xs) \<Longrightarrow> c \<notin> set p"
  by (induction xs arbitrary: p) (auto split: if_splits list.splits)

lemma split_on_append_sep:
  "c \<notin> set p \<Longrightarrow> split_on c (p @ c # xs) = p # split_on c xs"
  by (induction p) auto

lemma split_on_single: "c \<notin> set p \<Longrightarrow> split_on c p = [p]"
  by (induction p) auto

text \<open>\<open>str::lines\<close>: pieces ended by a line feed, without it and a carriage return before it.\<close>

fun lines_keep :: "rstr \<Rightarrow> rstr list" where
  "lines_keep [] = []"
| "lines_keep (c # s) =
     (if c = CHR 0x0A then [c] # lines_keep s
      else (case lines_keep s of [] \<Rightarrow> [[c]] | l # ls \<Rightarrow> (c # l) # ls))"

definition strip_line_end :: "rstr \<Rightarrow> rstr" where
  "strip_line_end l =
     (if ends_with l [CHR 0x0D, CHR 0x0A] then take (length l - 2) l
      else if ends_with l [CHR 0x0A] then take (length l - 1) l else l)"

definition str_lines :: "rstr \<Rightarrow> rstr list" where
  "str_lines s = map strip_line_end (lines_keep s)"

section \<open>Decimal numbers\<close>

definition digit_char :: "nat \<Rightarrow> char" where
  "digit_char d = char_of (48 + d)"

definition digit_val :: "char \<Rightarrow> nat" where
  "digit_val c = of_char c - 48"

fun nat_digits :: "nat \<Rightarrow> rstr" where
  "nat_digits n = (if n < 10 then [digit_char n] else nat_digits (n div 10) @ [digit_char (n mod 10)])"

declare nat_digits.simps [simp del]

text \<open>\<open>to_string\<close> of an unsigned and of a signed integer.\<close>

abbreviation nat_to_string :: "nat \<Rightarrow> rstr" where
  "nat_to_string \<equiv> nat_digits"

definition int_to_string :: "int \<Rightarrow> rstr" where
  "int_to_string i = (if i < 0 then CHR ''-'' # nat_digits (nat (- i)) else nat_digits (nat i))"

definition parse_digits :: "rstr \<Rightarrow> nat option" where
  "parse_digits s =
     (if s \<noteq> [] \<and> list_all is_ascii_digit s
      then Some (foldl (\<lambda>n c. 10 * n + digit_val c) 0 s) else None)"

text \<open>\<open>parse::<usize>\<close>: an optional plus sign, digits, no overflow of 64 bits.\<close>

definition parse_usize :: "rstr \<Rightarrow> nat option" where
  "parse_usize s =
     (case parse_digits (case s of c # t \<Rightarrow> if c = CHR ''+'' then t else s | [] \<Rightarrow> []) of
        None \<Rightarrow> None
      | Some n \<Rightarrow> if n < 2 ^ 64 then Some n else None)"

text \<open>\<open>parse::<i32>\<close>: an optional sign, digits, no overflow of 32 bits.\<close>

definition parse_i32 :: "rstr \<Rightarrow> int option" where
  "parse_i32 s =
     (case s of
        [] \<Rightarrow> None
      | c # t \<Rightarrow>
          if c = CHR ''-'' then
            (case parse_digits t of None \<Rightarrow> None
             | Some n \<Rightarrow> if n \<le> 2 ^ 31 then Some (- int n) else None)
          else
            (case parse_digits (if c = CHR ''+'' then t else s) of None \<Rightarrow> None
             | Some n \<Rightarrow> if n < 2 ^ 31 then Some (int n) else None))"

lemma digit_char_digit:
  assumes "d < 10"
  shows "is_ascii_digit (digit_char d)" and "digit_val (digit_char d) = d"
proof -
  from assms have "d \<in> {0, 1, 2, 3, 4, 5, 6, 7, 8, 9}" by auto
  then show "is_ascii_digit (digit_char d)" and "digit_val (digit_char d) = d"
    by (auto simp: is_ascii_digit_def digit_char_def digit_val_def less_eq_char_def
        simp del: less_eq_char_simp)
qed

lemma nat_digits_ascii: "c \<in> set (nat_digits n) \<Longrightarrow> is_ascii_digit c"
proof (induction n rule: nat_digits.induct)
  case (1 n)
  then show ?case
    by (subst (asm) (2) nat_digits.simps) (auto split: if_splits simp: digit_char_digit)
qed

lemma nat_digits_nonempty [simp]: "nat_digits n \<noteq> []"
  by (subst nat_digits.simps) simp

lemma parse_nat_digits: "parse_digits (nat_digits n) = Some n"
proof -
  have "foldl (\<lambda>n c. 10 * n + digit_val c) 0 (nat_digits n) = n"
  proof (induction n rule: nat_digits.induct)
    case (1 n)
    then show ?case
      by (subst nat_digits.simps) (auto simp: digit_char_digit)
  qed
  then show ?thesis by (auto simp: parse_digits_def list_all_iff nat_digits_ascii)
qed

lemma digit_not_sign: "is_ascii_digit c \<Longrightarrow> c \<noteq> CHR ''+'' \<and> c \<noteq> CHR ''-'' \<and> c \<noteq> CHR '':''"
  by (auto simp: is_ascii_digit_def)

lemma parse_usize_to_string:
  assumes "n < 2 ^ 64"
  shows "parse_usize (nat_to_string n) = Some n"
proof -
  obtain c t where ct: "nat_digits n = c # t"
    by (meson nat_digits_nonempty neq_Nil_conv)
  then have "is_ascii_digit c" using nat_digits_ascii [of c n] by simp
  with assms ct show ?thesis
    using parse_nat_digits [of n] digit_not_sign [of c] by (simp add: parse_usize_def)
qed

lemma parse_i32_to_string:
  assumes "- (2 ^ 31) \<le> i" and "i < 2 ^ 31"
  shows "parse_i32 (int_to_string i) = Some i"
proof (cases "i < 0")
  case True
  with assms show ?thesis
    by (simp add: parse_i32_def int_to_string_def parse_nat_digits nat_le_iff)
next
  case False
  obtain c t where ct: "nat_digits (nat i) = c # t"
    by (meson nat_digits_nonempty neq_Nil_conv)
  then have "is_ascii_digit c" using nat_digits_ascii [of c "nat i"] by simp
  with False assms ct show ?thesis
    using parse_nat_digits [of "nat i"] digit_not_sign [of c]
    by (simp add: parse_i32_def int_to_string_def nat_less_iff)
qed

text \<open>No printed number contains a separator.\<close>

lemma colon_not_in_number:
  "CHR '':'' \<notin> set (nat_to_string n)" "CHR '':'' \<notin> set (int_to_string i)"
  by (auto simp: int_to_string_def dest!: nat_digits_ascii digit_not_sign split: if_splits)

end
