(* ===== verification/Text_Scan.thy ===== *)
theory Text_Scan
  imports Rust_Str
begin

text \<open>
  \<^verbatim>\<open>src/src/parser/text_scan.rs\<close>: the scanner every policy and every pipeline stage uses on
  texts.  Lines and positions come first, then the byte comparisons, each with its SSE2 and
  its NEON code and the scalar fallback.  The lane operations of the two instruction sets are
  lists of 16 bytes; the pointer loops are loops over byte offsets.  \<open>non_code_ranges\<close>, a
  tree-sitter query, is not modelled.
\<close>

unbundle bit_operations_syntax

section \<open>Positions and lines\<close>

text \<open>\<open>memchr_iter\<close>: the positions of a byte, in increasing order.\<close>

definition memchr_iter :: "'a \<Rightarrow> 'a list \<Rightarrow> nat list" where
  "memchr_iter needle xs = filter (\<lambda>i. xs ! i = needle) [0..<length xs]"

abbreviation newline :: char where
  "newline \<equiv> CHR 0x0A"

definition line_starts :: "rstr \<Rightarrow> bool \<Rightarrow> nat list" where
  "line_starts s include_terminal_start =
     foldl (\<lambda>starts index.
         let next = index + 1 in
         if include_terminal_start \<or> next < length s then starts @ [next] else starts)
       [0] (memchr_iter newline s)"

definition split_lines_keepends :: "rstr \<Rightarrow> bool \<Rightarrow> rstr list" where
  "split_lines_keepends s empty_returns_single_empty_line =
     (if s = [] then (if empty_returns_single_empty_line then [[]] else [])
      else
        let (start, lines) =
              foldl (\<lambda>(start, lines) index. (index + 1, lines @ [slice start (index + 1) s]))
                (0, []) (memchr_iter newline s);
            lines = (if start < length s then lines @ [drop start s] else lines)
        in if lines = [] \<and> empty_returns_single_empty_line then lines @ [[]] else lines)"

definition split_lines_as_slices :: "rstr \<Rightarrow> bool \<Rightarrow> rstr list" where
  "split_lines_as_slices s keep_ends =
     (if s = [] then []
      else
        let (start, lines) =
              foldl (\<lambda>(start, lines) pos.
                  (pos + 1, lines @ [if keep_ends then slice start (pos + 1) s
                                     else slice start pos s]))
                (0, []) (memchr_iter newline s)
        in if start < length s then lines @ [drop start s] else lines)"

definition count_byte :: "'a list \<Rightarrow> 'a \<Rightarrow> nat" where
  "count_byte bytes needle = length (memchr_iter needle bytes)"

definition has_line_count_changed :: "rstr \<Rightarrow> rstr \<Rightarrow> bool" where
  "has_line_count_changed before after \<longleftrightarrow> count_byte before newline \<noteq> count_byte after newline"

definition find_subslice_from :: "'a list \<Rightarrow> 'a list \<Rightarrow> nat \<Rightarrow> nat option" where
  "find_subslice_from haystack needle from =
     (if needle = [] then Some (min from (length haystack))
      else if from \<ge> length haystack then None
      else map_option (\<lambda>pos. pos + from) (find_sub (drop from haystack) needle))"

definition contains_subslice :: "'a list \<Rightarrow> 'a list \<Rightarrow> bool" where
  "contains_subslice haystack needle \<longleftrightarrow> find_subslice_from haystack needle 0 \<noteq> None"

text \<open>\<open>SubsliceMatchIter\<close>: one \<open>next\<close>, and the iterator run to its end.\<close>

definition subslice_next :: "'a list \<Rightarrow> 'a list \<Rightarrow> nat \<Rightarrow> (nat \<times> nat) option" where
  "subslice_next haystack needle cursor =
     (if needle = [] then None
      else case find_subslice_from haystack needle cursor of
             None \<Rightarrow> None
           | Some index \<Rightarrow> Some (index, index + 1))"

lemma find_subslice_from_bounds:
  "find_subslice_from haystack needle from = Some i \<Longrightarrow> needle \<noteq> [] \<Longrightarrow>
     from \<le> i \<and> i + length needle \<le> length haystack"
  by (auto simp: find_subslice_from_def split: if_splits dest!: find_sub_le)

lemma subslice_next_progress:
  "subslice_next haystack needle cursor = Some (i, c) \<Longrightarrow> cursor < c \<and> cursor < length haystack"
  by (cases needle) (auto simp: subslice_next_def split: if_splits option.splits
      dest!: find_subslice_from_bounds)

function subslice_match_from :: "'a list \<Rightarrow> 'a list \<Rightarrow> nat \<Rightarrow> nat list" where
  "subslice_match_from haystack needle cursor =
     (case subslice_next haystack needle cursor of
        None \<Rightarrow> []
      | Some (index, cursor') \<Rightarrow> index # subslice_match_from haystack needle cursor')"
  by pat_completeness auto
termination
  by (relation "measure (\<lambda>(h, n, c). length h - c)") (auto dest!: subslice_next_progress)

declare subslice_match_from.simps [simp del]

definition subslice_match_indices :: "'a list \<Rightarrow> 'a list \<Rightarrow> nat list" where
  "subslice_match_indices haystack needle = subslice_match_from haystack needle 0"

definition is_identifier_byte :: "char \<Rightarrow> bool" where
  "is_identifier_byte b \<longleftrightarrow> is_ascii_alphabetic b \<or> is_ascii_digit b \<or> b = CHR ''_''"

section \<open>Lines of a text\<close>

text \<open>
  The split by positions is the recursive split \<open>lines_keep\<close>: the loop invariant is
  that the lines collected so far are the lines of the text before \<open>start\<close>.
\<close>

lemma memchr_iter_snoc:
  "memchr_iter c (xs @ [x]) = memchr_iter c xs @ (if x = c then [length xs] else [])"
  by (auto simp: memchr_iter_def nth_append intro!: filter_cong)

lemma memchr_iter_Nil [simp]: "memchr_iter c [] = []"
  by (simp add: memchr_iter_def)

lemma memchr_iter_less: "i \<in> set (memchr_iter c xs) \<Longrightarrow> i < length xs \<and> xs ! i = c"
  by (auto simp: memchr_iter_def)

lemma count_byte_count_list: "count_byte xs c = count_list xs c"
  unfolding count_byte_def
  by (induction xs rule: rev_induct) (auto simp: memchr_iter_snoc)

lemma lines_keep_concat [simp]: "concat (lines_keep s) = s"
  by (induction s) (auto split: list.splits)

lemma lines_keep_nonempty: "l \<in> set (lines_keep s) \<Longrightarrow> l \<noteq> []"
  by (induction s arbitrary: l) (auto split: if_splits list.splits)

lemma lines_keep_Nil_iff [simp]: "lines_keep s = [] \<longleftrightarrow> s = []"
  by (cases s) (auto split: list.splits)

text \<open>
  \<open>complete\<close> are the lines that end in a line feed, \<open>tail\<close> is what follows the last
  one.
\<close>

fun complete_lines :: "rstr \<Rightarrow> rstr list \<times> rstr" where
  "complete_lines [] = ([], [])"
| "complete_lines (c # s) =
     (if c = newline then (let (ls, t) = complete_lines s in ([c] # ls, t))
      else case complete_lines s of ([], t) \<Rightarrow> ([], c # t) | (l # ls, t) \<Rightarrow> ((c # l) # ls, t))"

lemma complete_lines_snoc:
  "complete_lines (s @ [c]) =
     (let (ls, t) = complete_lines s in
      if c = newline then (ls @ [t @ [c]], []) else (ls, t @ [c]))"
  by (induction s) (auto simp: Let_def split: prod.splits list.splits)

lemma lines_keep_complete:
  "lines_keep s = (let (ls, t) = complete_lines s in if t = [] then ls else ls @ [t])"
  by (induction s) (auto simp: Let_def split: prod.splits list.splits if_splits)

lemma complete_lines_concat: "complete_lines s = (ls, t) \<Longrightarrow> concat ls @ t = s"
  by (induction s arbitrary: ls t) (auto simp: Let_def split: prod.splits list.splits if_splits)

lemma split_loop:
  assumes "complete_lines s = (ls, t)"
  shows "foldl (\<lambda>(start, lines) pos.
             (pos + 1, lines @ [if keep then slice start (pos + 1) (s @ u) else slice start pos (s @ u)]))
           (0, []) (memchr_iter newline s)
       = (length (concat ls), if keep then ls else map butlast ls)"
  using assms
proof (induction s arbitrary: ls t u rule: rev_induct)
  case (snoc c s)
  obtain ls0 t0 where l0: "complete_lines s = (ls0, t0)" by force
  have s: "concat ls0 @ t0 = s" using l0 by (rule complete_lines_concat)
  have len: "length s = length (concat ls0) + length t0" by (simp flip: s)
  note IH = snoc.IH [OF l0, of "[c] @ u"]
  show ?case
  proof (cases "c = newline")
    case True
    have "slice (length (concat ls0)) (Suc (length s)) (s @ newline # u) = t0 @ [newline]"
      and "slice (length (concat ls0)) (length s) (s @ newline # u) = t0"
      by (simp_all add: slice_def flip: s)
    then show ?thesis
      using True IH snoc.prems l0 by (auto simp: memchr_iter_snoc complete_lines_snoc len)
  next
    case False
    then show ?thesis
      using IH snoc.prems l0 by (auto simp: memchr_iter_snoc complete_lines_snoc)
  qed
qed simp

lemma split_lines_as_slices_lines_keep [text_simps]:
  "split_lines_as_slices s True = lines_keep s"
proof -
  obtain ls t where lt: "complete_lines s = (ls, t)" by force
  have c: "concat ls @ t = s" using lt by (rule complete_lines_concat)
  have d: "drop (length (concat ls)) s = t" by (subst c [symmetric]) simp
  have "length (concat ls) < length s \<longleftrightarrow> t \<noteq> []" by (simp flip: c)
  with split_loop [OF lt, where keep = True and u = "[]"] d lt show ?thesis
    by (auto simp: split_lines_as_slices_def lines_keep_complete)
qed

lemma split_lines_keepends_lines_keep [text_simps]:
  "split_lines_keepends s e = (if s = [] \<and> e then [[]] else lines_keep s)"
proof -
  obtain ls t where lt: "complete_lines s = (ls, t)" by force
  have c: "concat ls @ t = s" using lt by (rule complete_lines_concat)
  have d: "drop (length (concat ls)) s = t" by (subst c [symmetric]) simp
  have l: "length (concat ls) < length s \<longleftrightarrow> t \<noteq> []" by (simp flip: c)
  have "lines_keep s = [] \<longleftrightarrow> s = []" by simp
  with split_loop [OF lt, where keep = True and u = "[]"] d l lt show ?thesis
    by (auto simp: split_lines_keepends_def lines_keep_complete Let_def)
qed

text \<open>Without line ends, every line but an unterminated last one loses its last byte.\<close>

lemma complete_lines_end:
  "complete_lines s = (ls, t) \<Longrightarrow>
     (\<forall>l \<in> set ls. \<exists>b. l = b @ [newline] \<and> newline \<notin> set b) \<and> newline \<notin> set t"
proof (induction s arbitrary: ls t)
  case (Cons c s)
  obtain ls0 t0 where l0: "complete_lines s = (ls0, t0)" by force
  note IH = Cons.IH [OF l0]
  show ?case
  proof (cases "c = newline")
    case True
    with Cons.prems l0 IH show ?thesis by auto
  next
    case False
    with Cons.prems l0 IH show ?thesis
      by (cases ls0) (auto simp: Cons_eq_append_conv)
  qed
qed simp

lemma lines_keep_append_newline:
  "ends_with s [newline] \<or> s = [] \<Longrightarrow> lines_keep (s @ t) = lines_keep s @ lines_keep t"
proof (induction s)
  case (Cons c s)
  then show ?case
    by (cases s) (auto simp: ends_with_iff Cons_eq_append_conv split: list.splits if_splits)
qed simp

lemma lines_keep_single:
  "newline \<notin> set b \<Longrightarrow> lines_keep (b @ [newline]) = [b @ [newline]]"
  "newline \<notin> set b \<Longrightarrow> lines_keep b = (if b = [] then [] else [b])"
  by (induction b) auto

section \<open>Byte comparisons: SSE2, NEON and scalar code\<close>

text \<open>The build selects one of three code paths by the target architecture.\<close>

datatype arch = X86_64 | Aarch64 | Other_arch

definition is_blank_byte :: "byte \<Rightarrow> bool" where
  "is_blank_byte b \<longleftrightarrow> b = 0x20 \<or> b = 0x09"

definition all_bytes_equal_scalar :: "byte list \<Rightarrow> byte \<Rightarrow> bool" where
  "all_bytes_equal_scalar bytes target \<longleftrightarrow> list_all (\<lambda>b. b = target) bytes"

definition leading_whitespace_byte_count_scalar :: "byte list \<Rightarrow> nat" where
  "leading_whitespace_byte_count_scalar bytes = length (takeWhile is_blank_byte bytes)"

text \<open>
  Lane operations.  A vector register is a list of 16 bytes, \<open>load\<close> reads it at an offset.
  \<open>cmpeq\<close> sets a lane to all ones where the operands agree.  \<open>movemask\<close> collects the top bits
  of the lanes, lane 0 in bit 0; \<open>vminvq\<close> is the least lane.
\<close>

definition load :: "byte list \<Rightarrow> nat \<Rightarrow> byte list" where
  "load bytes offset = slice offset (offset + 16) bytes"

definition set1 :: "byte \<Rightarrow> byte list" where
  "set1 b = replicate 16 b"

definition cmpeq :: "byte list \<Rightarrow> byte list \<Rightarrow> byte list" where
  "cmpeq a b = map2 (\<lambda>x y. if x = y then 0xFF else 0) a b"

definition vand :: "byte list \<Rightarrow> byte list \<Rightarrow> byte list" where
  "vand a b = map2 (AND) a b"

definition vor :: "byte list \<Rightarrow> byte list \<Rightarrow> byte list" where
  "vor a b = map2 (OR) a b"

definition movemask :: "byte list \<Rightarrow> u32" where
  "movemask v = horner_sum of_bool 2 (map (\<lambda>b. bit b 7) v)"

definition vminvq :: "byte list \<Rightarrow> byte" where
  "vminvq v = foldr min v 0xFF"

definition trailing_zeros :: "u32 \<Rightarrow> nat" where
  "trailing_zeros w = length (takeWhile (\<lambda>i. \<not> bit w i) [0..<32])"

text \<open>\<open>len & !63\<close> and \<open>len & !15\<close> clear the low bits.\<close>

definition clear_low :: "nat \<Rightarrow> nat \<Rightarrow> nat" where
  "clear_low k len = push_bit k (drop_bit k len)"

text \<open>
  \<open>while offset < end { if !ok { return false } offset += step }\<close>: the offset after the loop,
  or nothing when the function returned inside it.
\<close>

function chunk_loop :: "nat \<Rightarrow> (nat \<Rightarrow> bool) \<Rightarrow> nat \<Rightarrow> nat \<Rightarrow> nat option" where
  "chunk_loop step ok end_offset offset =
     (if offset < end_offset \<and> 0 < step
      then if ok offset then chunk_loop step ok end_offset (offset + step) else None
      else Some offset)"
  by pat_completeness auto
termination
  by (relation "measure (\<lambda>(step, ok, e, i). e - i)") auto

declare chunk_loop.simps [simp del]

definition all_bytes_equal_x86 :: "byte list \<Rightarrow> byte \<Rightarrow> bool" where
  "all_bytes_equal_x86 bytes target =
     (let len = length bytes in
      if len < 32 then all_bytes_equal_scalar bytes target
      else
        let target_vec = set1 target;
            chunk64 = (\<lambda>offset.
              let c0 = cmpeq (load bytes offset) target_vec;
                  c1 = cmpeq (load bytes (offset + 16)) target_vec;
                  c2 = cmpeq (load bytes (offset + 32)) target_vec;
                  c3 = cmpeq (load bytes (offset + 48)) target_vec;
                  merged = vand (vand c0 c1) (vand c2 c3)
              in movemask merged = 0xFFFF);
            chunk16 = (\<lambda>offset. movemask (cmpeq (load bytes offset) target_vec) = 0xFFFF)
        in case chunk_loop 64 chunk64 (clear_low 6 len) 0 of
             None \<Rightarrow> False
           | Some offset \<Rightarrow>
               (case chunk_loop 16 chunk16 (clear_low 4 len) offset of
                  None \<Rightarrow> False
                | Some offset \<Rightarrow> list_all (\<lambda>b. b = target) (drop offset bytes)))"

definition all_bytes_equal_neon :: "byte list \<Rightarrow> byte \<Rightarrow> bool" where
  "all_bytes_equal_neon bytes target =
     (let len = length bytes in
      if len < 32 then all_bytes_equal_scalar bytes target
      else
        let target_vec = set1 target;
            chunk64 = (\<lambda>ptr.
              let c0 = cmpeq (load bytes ptr) target_vec;
                  c1 = cmpeq (load bytes (ptr + 16)) target_vec;
                  c2 = cmpeq (load bytes (ptr + 32)) target_vec;
                  c3 = cmpeq (load bytes (ptr + 48)) target_vec;
                  merged = vand (vand c0 c1) (vand c2 c3)
              in vminvq merged = 0xFF);
            chunk16 = (\<lambda>ptr. vminvq (cmpeq (load bytes ptr) target_vec) = 0xFF);
            scalar = (\<lambda>ptr. bytes ! ptr = target)
        in case chunk_loop 64 chunk64 (clear_low 6 len) 0 of
             None \<Rightarrow> False
           | Some ptr \<Rightarrow>
               (case chunk_loop 16 chunk16 (clear_low 4 len) ptr of
                  None \<Rightarrow> False
                | Some ptr \<Rightarrow> chunk_loop 1 scalar len ptr \<noteq> None))"

definition slices_equal_x86 :: "byte list \<Rightarrow> byte list \<Rightarrow> bool" where
  "slices_equal_x86 a b =
     (let len = length a in
      if len < 32 then a = b
      else
        let chunk64 = (\<lambda>offset.
              let e0 = cmpeq (load a offset) (load b offset);
                  e1 = cmpeq (load a (offset + 16)) (load b (offset + 16));
                  e2 = cmpeq (load a (offset + 32)) (load b (offset + 32));
                  e3 = cmpeq (load a (offset + 48)) (load b (offset + 48));
                  merged = vand (vand e0 e1) (vand e2 e3)
              in movemask merged = 0xFFFF);
            chunk16 = (\<lambda>offset. movemask (cmpeq (load a offset) (load b offset)) = 0xFFFF)
        in case chunk_loop 64 chunk64 (clear_low 6 len) 0 of
             None \<Rightarrow> False
           | Some offset \<Rightarrow>
               (case chunk_loop 16 chunk16 (clear_low 4 len) offset of
                  None \<Rightarrow> False
                | Some offset \<Rightarrow> drop offset a = drop offset b))"

definition slices_equal_neon :: "byte list \<Rightarrow> byte list \<Rightarrow> bool" where
  "slices_equal_neon a b =
     (let len = length a in
      if len < 32 then a = b
      else
        let chunk64 = (\<lambda>offset.
              let e0 = cmpeq (load a offset) (load b offset);
                  e1 = cmpeq (load a (offset + 16)) (load b (offset + 16));
                  e2 = cmpeq (load a (offset + 32)) (load b (offset + 32));
                  e3 = cmpeq (load a (offset + 48)) (load b (offset + 48));
                  merged = vand (vand e0 e1) (vand e2 e3)
              in vminvq merged = 0xFF);
            chunk16 = (\<lambda>offset. vminvq (cmpeq (load a offset) (load b offset)) = 0xFF)
        in case chunk_loop 64 chunk64 (clear_low 6 len) 0 of
             None \<Rightarrow> False
           | Some offset \<Rightarrow>
               (case chunk_loop 16 chunk16 (clear_low 4 len) offset of
                  None \<Rightarrow> False
                | Some offset \<Rightarrow> drop offset a = drop offset b))"

text \<open>
  \<open>while offset + 16 <= len\<close>: either an early return with the position found in a chunk
  (\<open>Inl\<close>) or the offset at which the scalar tail goes on (\<open>Inr\<close>).
\<close>

function blank_chunk_loop :: "(nat \<Rightarrow> nat option) \<Rightarrow> nat \<Rightarrow> nat \<Rightarrow> nat + nat" where
  "blank_chunk_loop first_other len offset =
     (if offset + 16 \<le> len
      then case first_other offset of
             None \<Rightarrow> blank_chunk_loop first_other len (offset + 16)
           | Some i \<Rightarrow> Inl (offset + i)
      else Inr offset)"
  by pat_completeness auto
termination
  by (relation "measure (\<lambda>(f, len, i). len - i)") auto

declare blank_chunk_loop.simps [simp del]

function blank_tail :: "byte list \<Rightarrow> nat \<Rightarrow> nat" where
  "blank_tail bytes offset =
     (if offset < length bytes
      then if is_blank_byte (bytes ! offset) then blank_tail bytes (offset + 1) else offset
      else offset)"
  by pat_completeness auto
termination
  by (relation "measure (\<lambda>(bytes, i). length bytes - i)") auto

declare blank_tail.simps [simp del]

definition leading_whitespace_byte_count_x86 :: "byte list \<Rightarrow> nat" where
  "leading_whitespace_byte_count_x86 bytes =
     (let len = length bytes in
      if len < 32 then leading_whitespace_byte_count_scalar bytes
      else
        let first_other = (\<lambda>offset.
              let chunk = load bytes offset;
                  cmp = vor (cmpeq chunk (set1 0x20)) (cmpeq chunk (set1 0x09));
                  mask = movemask cmp
              in if mask = 0xFFFF then None else Some (trailing_zeros (NOT mask)))
        in case blank_chunk_loop first_other len 0 of
             Inl found \<Rightarrow> found
           | Inr offset \<Rightarrow> blank_tail bytes offset)"

definition leading_whitespace_byte_count_neon :: "byte list \<Rightarrow> nat" where
  "leading_whitespace_byte_count_neon bytes =
     (let len = length bytes in
      if len < 32 then leading_whitespace_byte_count_scalar bytes
      else
        let first_other = (\<lambda>offset.
              let chunk = load bytes offset;
                  cmp = vor (cmpeq chunk (set1 0x20)) (cmpeq chunk (set1 0x09))
              in if vminvq cmp = 0xFF then None
                 else Some (length (takeWhile (\<lambda>lane. lane \<noteq> 0) cmp)))
        in case blank_chunk_loop first_other len 0 of
             Inl found \<Rightarrow> found
           | Inr offset \<Rightarrow> blank_tail bytes offset)"

definition all_bytes_equal_on :: "arch \<Rightarrow> byte list \<Rightarrow> byte \<Rightarrow> bool" where
  "all_bytes_equal_on arch bytes target =
     (if bytes = [] then True
      else case arch of
             Aarch64 \<Rightarrow> all_bytes_equal_neon bytes target
           | X86_64 \<Rightarrow> all_bytes_equal_x86 bytes target
           | Other_arch \<Rightarrow> all_bytes_equal_scalar bytes target)"

definition leading_whitespace_byte_count_on :: "arch \<Rightarrow> byte list \<Rightarrow> nat" where
  "leading_whitespace_byte_count_on arch bytes =
     (case arch of
        Aarch64 \<Rightarrow> leading_whitespace_byte_count_neon bytes
      | X86_64 \<Rightarrow> leading_whitespace_byte_count_x86 bytes
      | Other_arch \<Rightarrow> leading_whitespace_byte_count_scalar bytes)"

definition slices_equal_on :: "arch \<Rightarrow> byte list \<Rightarrow> byte list \<Rightarrow> bool" where
  "slices_equal_on arch a b =
     (if length a \<noteq> length b then False
      else case arch of
             Aarch64 \<Rightarrow> slices_equal_neon a b
           | X86_64 \<Rightarrow> slices_equal_x86 a b
           | Other_arch \<Rightarrow> a = b)"

text \<open>\<open>str::as_bytes\<close>, and the architecture of the modelled build.\<close>

definition as_bytes :: "rstr \<Rightarrow> byte list" where
  "as_bytes s = map of_char s"

definition target_arch :: arch where
  "target_arch = X86_64"

definition all_bytes_equal :: "rstr \<Rightarrow> char \<Rightarrow> bool" where
  "all_bytes_equal s target = all_bytes_equal_on target_arch (as_bytes s) (of_char target)"

definition leading_whitespace_byte_count :: "rstr \<Rightarrow> nat" where
  "leading_whitespace_byte_count s = leading_whitespace_byte_count_on target_arch (as_bytes s)"

definition slices_equal :: "rstr \<Rightarrow> rstr \<Rightarrow> bool" where
  "slices_equal a b = slices_equal_on target_arch (as_bytes a) (as_bytes b)"

section \<open>Every code path computes the scalar result\<close>

text \<open>A comparison result is a vector of truth values, \<open>lane\<close> its bytes.\<close>

definition lane :: "bool \<Rightarrow> byte" where
  "lane p = (if p then 0xFF else 0)"

lemma cmpeq_lane: "cmpeq a b = map lane (map2 (=) a b)"
  by (simp add: cmpeq_def lane_def case_prod_unfold)

lemma lane_ops: "lane p AND lane q = lane (p \<and> q)" "lane p OR lane q = lane (p \<or> q)"
  by (simp_all add: lane_def)

lemma vand_lane: "vand (map lane p) (map lane q) = map lane (map2 (\<and>) p q)"
  by (simp add: vand_def zip_map_map lane_ops case_prod_unfold)

lemma vor_lane: "vor (map lane p) (map lane q) = map lane (map2 (\<or>) p q)"
  by (simp add: vor_def zip_map_map lane_ops case_prod_unfold)

lemma bit_lane [simp]: "bit (lane p) 7 = p"
  by (simp add: lane_def)

lemma lane_inject [simp]: "lane p = 0xFF \<longleftrightarrow> p" "lane p = 0 \<longleftrightarrow> \<not> p"
  by (simp_all add: lane_def)

lemma bit_movemask_lane: "bit (movemask (map lane p)) n \<longleftrightarrow> n < 32 \<and> n < length p \<and> p ! n"
  by (auto simp: movemask_def bit_horner_sum_bit_iff comp_def)

lemma movemask_lane:
  assumes "length p = 16"
  shows "movemask (map lane p) = 0xFFFF \<longleftrightarrow> list_all id p"
proof -
  have m: "(0xFFFF :: u32) = mask 16" by (simp add: mask_eq_exp_minus_1)
  have "movemask (map lane p) = mask 16 \<longleftrightarrow> (\<forall>n < 16. p ! n)"
  proof
    assume eq: "movemask (map lane p) = mask 16"
    have "p ! n" if "n < 16" for n
      using arg_cong [OF eq, of "\<lambda>w. bit w n"] that assms
      by (simp add: bit_movemask_lane bit_mask_iff)
    then show "\<forall>n < 16. p ! n" by blast
  next
    assume "\<forall>n < 16. p ! n"
    with assms show "movemask (map lane p) = mask 16"
      by (intro bit_word_eqI) (auto simp: bit_movemask_lane bit_mask_iff)
  qed
  then show ?thesis
    unfolding m using assms by (simp add: list_all_length)
qed

lemma top_byte: "0xFF \<le> x \<longleftrightarrow> x = 0xFF" for x :: byte
  using unsigned_less [of x, where ?'a = nat] by (auto simp: word_le_nat_alt word_unat_eq_iff)

lemma vminvq_lane: "vminvq (map lane p) = 0xFF \<longleftrightarrow> list_all id p"
proof (induction p)
  case (Cons q p)
  have "min (lane q) (vminvq (map lane p)) = 0xFF \<longleftrightarrow> q \<and> vminvq (map lane p) = 0xFF"
    by (auto simp: min_def lane_def top_byte)
  with Cons show ?case by (simp add: vminvq_def)
qed (simp add: vminvq_def)

lemma length_load: "offset + 16 \<le> length bytes \<Longrightarrow> length (load bytes offset) = 16"
  by (simp add: load_def)

lemma load_nth: "offset + 16 \<le> length bytes \<Longrightarrow> i < 16 \<Longrightarrow> load bytes offset ! i = bytes ! (offset + i)"
  by (simp add: load_def slice_nth)

lemma clear_low_eq: "clear_low k n = n div 2 ^ k * 2 ^ k"
  by (simp add: clear_low_def push_bit_eq_mult drop_bit_eq_div)

lemma clear_low_le: "clear_low k n \<le> n"
  by (simp add: clear_low_eq)

lemma clear_low_dvd: "j \<le> k \<Longrightarrow> 2 ^ j dvd clear_low k n"
  by (simp add: clear_low_eq le_imp_power_dvd)

lemma clear_low_mono: "clear_low 6 n \<le> clear_low 4 n"
proof -
  have "n div 64 * 64 = (n div 16) div 4 * 4 * 16" by (simp flip: div_mult2_eq)
  also have "\<dots> \<le> n div 16 * 16" by (intro mult_le_mono1) simp
  finally show ?thesis by (simp add: clear_low_eq)
qed

lemma chunk_loop_spec:
  assumes "0 < step" and "\<And>i. i + step \<le> e \<Longrightarrow> ok i \<longleftrightarrow> (\<forall>j \<in> {i ..< i + step}. good j)"
    and "step dvd e - i" and "i \<le> e"
  shows "chunk_loop step ok e i = (if \<forall>j \<in> {i ..< e}. good j then Some e else None)"
  using assms
proof (induction step ok e i rule: chunk_loop.induct)
  case (1 step ok e i)
  show ?case
  proof (cases "i < e")
    case True
    then obtain k where "e - i = step * Suc k"
      using "1.prems"(3) by (metis dvdE mult_0_right not0_implies_Suc zero_less_diff less_not_refl)
    with True have le: "i + step \<le> e" and "e - (i + step) = step * k" by auto
    then have d: "step dvd e - (i + step)" by simp
    have split: "{i ..< e} = {i ..< i + step} \<union> {i + step ..< e}"
      using le by auto
    have IH: "ok i \<Longrightarrow> chunk_loop step ok e (i + step) =
        (if \<forall>j \<in> {i + step ..< e}. good j then Some e else None)"
      using "1.IH" "1.prems" True le d by blast
    show ?thesis
      using True "1.prems"(1) "1.prems"(2) [OF le] IH
      by (subst chunk_loop.simps) (simp only: split ball_Un, simp)
  next
    case False
    with "1.prems"(4) show ?thesis by (subst chunk_loop.simps) simp
  qed
qed

text \<open>
  One lemma for the four 64/16/tail loops: when both chunk tests decide \<open>good\<close> on the bytes
  they load, the loops decide it on all bytes before the tail.
\<close>

lemma two_chunk_loops:
  assumes c64: "\<And>i. i + 64 \<le> n \<Longrightarrow> ok64 i \<longleftrightarrow> (\<forall>j \<in> {i ..< i + 64}. good j)"
    and c16: "\<And>i. i + 16 \<le> n \<Longrightarrow> ok16 i \<longleftrightarrow> (\<forall>j \<in> {i ..< i + 16}. good j)"
    and tail: "\<And>i. i \<le> n \<Longrightarrow> rest i \<longleftrightarrow> (\<forall>j \<in> {i ..< n}. good j)"
  shows "(case chunk_loop 64 ok64 (clear_low 6 n) 0 of None \<Rightarrow> False
          | Some i \<Rightarrow> (case chunk_loop 16 ok16 (clear_low 4 n) i of None \<Rightarrow> False
                       | Some i \<Rightarrow> rest i)) \<longleftrightarrow> (\<forall>j < n. good j)"
proof -
  let ?a = "clear_low 6 n" and ?b = "clear_low 4 n"
  have ab: "?a \<le> ?b" "?b \<le> n" by (simp_all add: clear_low_mono clear_low_le)
  have d: "64 dvd ?a - 0" "16 dvd ?b - ?a"
    using clear_low_dvd [of 6 6 n] clear_low_dvd [of 4 6 n] clear_low_dvd [of 4 4 n]
    by (auto intro: dvd_diff_nat)
  have s: "{..<n} = {0 ..< ?a} \<union> {?a ..< ?b} \<union> {?b ..< n}"
    using ab by auto
  have 1: "chunk_loop 64 ok64 ?a 0 = (if \<forall>j \<in> {0 ..< ?a}. good j then Some ?a else None)"
    by (rule chunk_loop_spec) (use c64 ab d in auto)
  have 2: "chunk_loop 16 ok16 ?b ?a = (if \<forall>j \<in> {?a ..< ?b}. good j then Some ?b else None)"
    by (rule chunk_loop_spec) (use c16 ab d in auto)
  have "(\<forall>j < n. good j) \<longleftrightarrow> (\<forall>j \<in> {..<n}. good j)" by auto
  then show ?thesis
    unfolding s using 1 2 tail [OF ab(2)] by (auto simp: ball_Un)
qed

lemma ball_four_chunks:
  "(\<forall>j \<in> {i ..< i + 64}. good j) \<longleftrightarrow>
     (\<forall>k < 16. good (i + k)) \<and> (\<forall>k < 16. good (i + 16 + k)) \<and>
     (\<forall>k < 16. good (i + 32 + k)) \<and> (\<forall>k < 16. good (i + 48 + k))" for i :: nat
proof -
  have c: "(\<forall>k < 16. good (a + k)) \<longleftrightarrow> (\<forall>j \<in> {a ..< a + 16}. good j)" for a
    by (auto simp: Ball_def) (metis add_diff_inverse_nat add_less_cancel_left not_less)
  have "{i ..< i + 64} = {i ..< i + 16} \<union> {i + 16 ..< i + 16 + 16} \<union> {i + 32 ..< i + 32 + 16}
      \<union> {i + 48 ..< i + 48 + 16}" by auto
  then show ?thesis by (simp only: c ball_Un) auto
qed


lemma chunk_cmp:
  assumes "i + 16 \<le> length a" and "length v = 16"
  shows "list_all id (map2 (=) (load a i) v) \<longleftrightarrow> (\<forall>k < 16. a ! (i + k) = v ! k)"
  using assms by (auto simp: list_all_length load_nth length_load)

lemma list_all_map2_conj:
  "length p = length q \<Longrightarrow> list_all id (map2 (\<and>) p q) \<longleftrightarrow> list_all id p \<and> list_all id q"
  by (induction p q rule: list_induct2) auto

text \<open>The 64-byte test merges four comparisons; both instruction sets read it off the lanes.\<close>

lemma merged_chunks:
  assumes "length p0 = 16" "length p1 = 16" "length p2 = 16" "length p3 = 16"
  shows "movemask (vand (vand (map lane p0) (map lane p1)) (vand (map lane p2) (map lane p3)))
           = 0xFFFF \<longleftrightarrow> list_all id p0 \<and> list_all id p1 \<and> list_all id p2 \<and> list_all id p3"
    and "vminvq (vand (vand (map lane p0) (map lane p1)) (vand (map lane p2) (map lane p3)))
           = 0xFF \<longleftrightarrow> list_all id p0 \<and> list_all id p1 \<and> list_all id p2 \<and> list_all id p3"
  using assms
  by (simp_all add: vand_lane movemask_lane vminvq_lane list_all_map2_conj del: map_map)

lemma length_map2_load:
  "i + 16 \<le> length a \<Longrightarrow> length v = 16 \<Longrightarrow> length (map2 f (load a i) v) = 16"
  by (simp add: length_load)

lemma set1_nth: "k < 16 \<Longrightarrow> set1 t ! k = t" and length_set1: "length (set1 t) = 16"
  by (simp_all add: set1_def)

lemmas simd_simps =
  cmpeq_lane merged_chunks movemask_lane vminvq_lane length_map2_load length_set1 length_load
  chunk_cmp set1_nth load_nth ball_four_chunks

lemma all_nth_tail: "i \<le> length xs \<Longrightarrow> list_all P (drop i xs) \<longleftrightarrow> (\<forall>j \<in> {i ..< length xs}. P (xs ! j))"
  by (auto simp: list_all_length) (metis add.commute le_add_diff_inverse2 less_diff_conv)

lemma ball_one_chunk: "(\<forall>j \<in> {i ..< i + 16}. good j) \<longleftrightarrow> (\<forall>k < 16. good (i + k))" for i :: nat
  by (auto simp: Ball_def) (metis add_diff_inverse_nat add_less_cancel_left not_less)

lemma all_bytes_equal_x86: "all_bytes_equal_x86 bytes t \<longleftrightarrow> list_all (\<lambda>b. b = t) bytes"
proof (cases "length bytes < 32")
  case True
  then show ?thesis by (simp add: all_bytes_equal_x86_def all_bytes_equal_scalar_def)
next
  case False
  then show ?thesis
    unfolding all_bytes_equal_x86_def Let_def if_not_P [OF False]
    by (subst two_chunk_loops [where good = "\<lambda>j. bytes ! j = t"])
      (simp_all add: simd_simps ball_one_chunk all_nth_tail list_all_length [of _ bytes] del: map_map)
qed

lemma scalar_loop: "(chunk_loop 1 good n i \<noteq> None) \<longleftrightarrow> (\<forall>j \<in> {i ..< n}. good j)" if "i \<le> n"
  using that by (subst chunk_loop_spec [where good = good]) auto

lemma all_bytes_equal_neon: "all_bytes_equal_neon bytes t \<longleftrightarrow> list_all (\<lambda>b. b = t) bytes"
proof (cases "length bytes < 32")
  case True
  then show ?thesis by (simp add: all_bytes_equal_neon_def all_bytes_equal_scalar_def)
next
  case False
  then show ?thesis
    unfolding all_bytes_equal_neon_def Let_def if_not_P [OF False]
    by (subst two_chunk_loops [where good = "\<lambda>j. bytes ! j = t"])
      (simp_all add: simd_simps ball_one_chunk scalar_loop list_all_length [of _ bytes]
        del: One_nat_def map_map not_None_eq)
qed

lemma drop_eq_nth:
  "length a = length b \<Longrightarrow> i \<le> length a \<Longrightarrow>
     drop i a = drop i b \<longleftrightarrow> (\<forall>j \<in> {i ..< length a}. a ! j = b ! j)"
  by (auto simp: list_eq_iff_nth_eq) (metis add.commute le_add_diff_inverse2 less_diff_conv)

lemma chunk_cmp2:
  assumes "i + 16 \<le> length a" and "length a = length b"
  shows "list_all id (map2 (=) (load a i) (load b i)) \<longleftrightarrow> (\<forall>k < 16. a ! (i + k) = b ! (i + k))"
  using assms by (simp add: chunk_cmp length_load load_nth)

lemma slices_equal_x86:
  assumes len: "length a = length b"
  shows "slices_equal_x86 a b \<longleftrightarrow> a = b"
proof (cases "length a < 32")
  case True
  then show ?thesis by (simp add: slices_equal_x86_def)
next
  case False
  show ?thesis
    unfolding slices_equal_x86_def Let_def if_not_P [OF False]
    by (subst two_chunk_loops [where good = "\<lambda>j. a ! j = b ! j"])
      (use len in \<open>simp_all add: simd_simps ball_one_chunk drop_eq_nth list_eq_iff_nth_eq [of a b]
        del: map_map\<close>)
qed

lemma slices_equal_neon:
  assumes len: "length a = length b"
  shows "slices_equal_neon a b \<longleftrightarrow> a = b"
proof (cases "length a < 32")
  case True
  then show ?thesis by (simp add: slices_equal_neon_def)
next
  case False
  show ?thesis
    unfolding slices_equal_neon_def Let_def if_not_P [OF False]
    by (subst two_chunk_loops [where good = "\<lambda>j. a ! j = b ! j"])
      (use len in \<open>simp_all add: simd_simps ball_one_chunk drop_eq_nth list_eq_iff_nth_eq [of a b]
        del: map_map\<close>)
qed

text \<open>The blank prefix: chunks of blanks are skipped, the first other byte ends the scan.\<close>

lemma takeWhile_length_eqI:
  assumes "\<forall>j < i. P (xs ! j)" and "i \<le> length xs" and "i < length xs \<Longrightarrow> \<not> P (xs ! i)"
  shows "length (takeWhile P xs) = i"
proof -
  have "takeWhile P xs = take i xs"
    by (rule takeWhile_eq_take_P_nth) (use assms in auto)
  with assms show ?thesis by simp
qed

lemma blank_tail_spec:
  assumes "\<forall>j < i. is_blank_byte (bytes ! j)" and "i \<le> length bytes"
  shows "blank_tail bytes i = length (takeWhile is_blank_byte bytes)"
  using assms
proof (induction bytes i rule: blank_tail.induct)
  case (1 bytes i)
  show ?case
  proof (cases "i < length bytes \<and> is_blank_byte (bytes ! i)")
    case True
    with 1 have "blank_tail bytes (i + 1) = length (takeWhile is_blank_byte bytes)"
      by (auto simp: less_Suc_eq)
    with True show ?thesis by (subst blank_tail.simps) simp
  next
    case False
    with "1.prems" have "length (takeWhile is_blank_byte bytes) = i"
      by (intro takeWhile_length_eqI) auto
    with False show ?thesis by (subst blank_tail.simps) auto
  qed
qed

definition finds_other :: "byte list \<Rightarrow> (nat \<Rightarrow> nat option) \<Rightarrow> bool" where
  "finds_other bytes f \<longleftrightarrow>
     (\<forall>i. i + 16 \<le> length bytes \<longrightarrow>
        (case f i of
           None \<Rightarrow> \<forall>k < 16. is_blank_byte (bytes ! (i + k))
         | Some n \<Rightarrow> n < 16 \<and> (\<forall>k < n. is_blank_byte (bytes ! (i + k)))
                     \<and> \<not> is_blank_byte (bytes ! (i + n))))"

lemma blank_chunk_loop_spec:
  assumes "finds_other bytes f" and "\<forall>j < i. is_blank_byte (bytes ! j)" and "i \<le> length bytes"
  shows "(case blank_chunk_loop f (length bytes) i of Inl n \<Rightarrow> n | Inr n \<Rightarrow> blank_tail bytes n)
           = length (takeWhile is_blank_byte bytes)"
  using assms
proof (induction f "length bytes" i rule: blank_chunk_loop.induct)
  case (1 f i)
  show ?case
  proof (cases "i + 16 \<le> length bytes")
    case False
    with "1.prems" show ?thesis
      by (subst blank_chunk_loop.simps) (simp add: blank_tail_spec)
  next
    case True
    have extend: "\<forall>j < i + n. is_blank_byte (bytes ! j)"
      if "\<forall>k < n. is_blank_byte (bytes ! (i + k))" for n
      using that "1.prems"(2) by (metis add_diff_inverse_nat nat_add_left_cancel_less)
    show ?thesis
    proof (cases "f i")
      case None
      then have "\<forall>j < i + 16. is_blank_byte (bytes ! j)"
        using extend "1.prems"(1) True by (auto simp: finds_other_def split: option.splits)
      with "1.hyps" [OF True None] "1.prems"(1) True None show ?thesis
        by (subst blank_chunk_loop.simps) simp
    next
      case (Some n)
      with "1.prems"(1) True have n: "n < 16" "\<forall>k < n. is_blank_byte (bytes ! (i + k))"
        "\<not> is_blank_byte (bytes ! (i + n))"
        by (auto simp: finds_other_def split: option.splits)
      then have "length (takeWhile is_blank_byte bytes) = i + n"
        using extend [OF n(2)] True by (intro takeWhile_length_eqI) auto
      with True Some show ?thesis by (subst blank_chunk_loop.simps) simp
    qed
  qed
qed

text \<open>The lane test for blanks, and the position of its first false lane.\<close>

definition blank_lanes :: "byte list \<Rightarrow> nat \<Rightarrow> bool list" where
  "blank_lanes bytes i = map is_blank_byte (load bytes i)"

lemma blank_lanes_cmp:
  assumes "i + 16 \<le> length bytes"
  shows "vor (cmpeq (load bytes i) (set1 0x20)) (cmpeq (load bytes i) (set1 0x09))
           = map lane (blank_lanes bytes i)"
  using assms
  by (auto simp: cmpeq_lane vor_lane blank_lanes_def list_eq_iff_nth_eq length_load length_set1
      set1_nth is_blank_byte_def simp del: map_map)

lemma blank_lanes_nth:
  assumes "i + 16 \<le> length bytes"
  shows "length (blank_lanes bytes i) = 16"
    and "k < 16 \<Longrightarrow> blank_lanes bytes i ! k = is_blank_byte (bytes ! (i + k))"
  using assms by (simp_all add: blank_lanes_def length_load load_nth)

lemma first_false:
  assumes "length p = n" and "\<not> list_all id p"
  shows "length (takeWhile id p) < n" and "\<not> p ! length (takeWhile id p)"
    and "k < length (takeWhile id p) \<Longrightarrow> p ! k"
proof -
  have "length (takeWhile id p) < length p \<and> \<not> p ! length (takeWhile id p)
      \<and> (\<forall>k < length (takeWhile id p). p ! k)"
    using assms(2) by (induction p) (auto simp: nth_Cons split: nat.split)
  with assms show "length (takeWhile id p) < n" and "\<not> p ! length (takeWhile id p)"
    and "k < length (takeWhile id p) \<Longrightarrow> p ! k"
    by auto
qed

lemma trailing_zeros_first_false:
  assumes "length p = 16" and "\<not> list_all id p"
  shows "trailing_zeros (NOT (movemask (map lane p))) = length (takeWhile id p)"
  unfolding trailing_zeros_def using first_false [OF assms] assms(1)
  by (intro takeWhile_length_eqI) (auto simp: bit_not_iff bit_movemask_lane)

lemma takeWhile_lanes: "length (takeWhile (\<lambda>l. l \<noteq> 0) (map lane p)) = length (takeWhile id p)"
  by (induction p) auto

lemma finds_other_blank_lanes:
  "finds_other bytes (\<lambda>i. if list_all id (blank_lanes bytes i) then None
      else Some (length (takeWhile id (blank_lanes bytes i))))"
  unfolding finds_other_def
proof (intro allI impI)
  fix i assume i: "i + 16 \<le> length bytes"
  note l = blank_lanes_nth [OF i]
  show "case if list_all id (blank_lanes bytes i) then None
      else Some (length (takeWhile id (blank_lanes bytes i))) of
      None \<Rightarrow> \<forall>k < 16. is_blank_byte (bytes ! (i + k))
    | Some n \<Rightarrow> n < 16 \<and> (\<forall>k < n. is_blank_byte (bytes ! (i + k)))
        \<and> \<not> is_blank_byte (bytes ! (i + n))"
  proof (cases "list_all id (blank_lanes bytes i)")
    case True
    then show ?thesis using l by (auto simp: list_all_length)
  next
    case False
    note f = first_false [OF l(1) False]
    then have "is_blank_byte (bytes ! (i + k))" if "k < length (takeWhile id (blank_lanes bytes i))"
      for k using l(2) [of k] that by auto
    with False f(1,2) l(2) show ?thesis by simp
  qed
qed

lemma finds_other_cong:
  assumes "finds_other bytes g" and "\<And>i. i + 16 \<le> length bytes \<Longrightarrow> f i = g i"
  shows "finds_other bytes f"
  using assms by (simp add: finds_other_def)

lemma leading_whitespace_x86:
  "leading_whitespace_byte_count_x86 bytes = length (takeWhile is_blank_byte bytes)"
proof (cases "length bytes < 32")
  case True
  then show ?thesis
    by (simp add: leading_whitespace_byte_count_x86_def leading_whitespace_byte_count_scalar_def)
next
  case False
  show ?thesis
    unfolding leading_whitespace_byte_count_x86_def Let_def if_not_P [OF False]
    by (rule blank_chunk_loop_spec)
      (auto intro!: finds_other_cong [OF finds_other_blank_lanes]
        simp: blank_lanes_cmp movemask_lane blank_lanes_nth trailing_zeros_first_false)
qed

lemma leading_whitespace_neon:
  "leading_whitespace_byte_count_neon bytes = length (takeWhile is_blank_byte bytes)"
proof (cases "length bytes < 32")
  case True
  then show ?thesis
    by (simp add: leading_whitespace_byte_count_neon_def leading_whitespace_byte_count_scalar_def)
next
  case False
  show ?thesis
    unfolding leading_whitespace_byte_count_neon_def Let_def if_not_P [OF False]
    by (rule blank_chunk_loop_spec)
      (auto intro!: finds_other_cong [OF finds_other_blank_lanes]
        simp: blank_lanes_cmp vminvq_lane takeWhile_lanes)
qed

lemma simd_paths_agree:
  "all_bytes_equal_on arch bytes target = all_bytes_equal_scalar bytes target"
  "leading_whitespace_byte_count_on arch bytes = leading_whitespace_byte_count_scalar bytes"
  "slices_equal_on arch a b = (a = b)"
proof -
  show "all_bytes_equal_on arch bytes target = all_bytes_equal_scalar bytes target"
    by (simp add: all_bytes_equal_on_def all_bytes_equal_scalar_def all_bytes_equal_neon
        all_bytes_equal_x86 split: arch.split)
  show "leading_whitespace_byte_count_on arch bytes = leading_whitespace_byte_count_scalar bytes"
    by (simp add: leading_whitespace_byte_count_on_def leading_whitespace_byte_count_scalar_def
        leading_whitespace_neon leading_whitespace_x86 split: arch.split)
  show "slices_equal_on arch a b = (a = b)"
    by (auto simp: slices_equal_on_def slices_equal_neon slices_equal_x86 split: arch.split)
qed

text \<open>The same facts on texts, for the components that call the scanner.\<close>

lemma unat_of_char: "unat (of_char c :: byte) = of_char c"
proof -
  have "unat (word_of_nat (of_char c) :: byte) = of_char c"
    by (simp add: unsigned_of_nat take_bit_eq_mod)
  then show ?thesis by (simp add: of_nat_of_char)
qed

lemma of_char_byte_inject [simp]: "(of_char c :: byte) = of_char d \<longleftrightarrow> c = d"
  by (metis unat_of_char of_char_eq_iff)

lemma slices_equal_eq [text_simps]: "slices_equal a b \<longleftrightarrow> a = b"
  by (simp add: slices_equal_def simd_paths_agree as_bytes_def inj_map_eq_map inj_def)

lemma all_bytes_equal_eq [text_simps]: "all_bytes_equal s c \<longleftrightarrow> list_all (\<lambda>d. d = c) s"
  by (simp add: all_bytes_equal_def simd_paths_agree all_bytes_equal_scalar_def as_bytes_def
      list_all_iff)

lemma leading_whitespace_eq [text_simps]:
  "leading_whitespace_byte_count s = length (takeWhile (\<lambda>c. c = CHR 0x20 \<or> c = CHR 0x09) s)"
proof -
  have "is_blank_byte (of_char c) \<longleftrightarrow> c = CHR 0x20 \<or> c = CHR 0x09" for c
  proof -
    have "(0x20 :: byte) = of_char (CHR 0x20)" and "(0x09 :: byte) = of_char (CHR 0x09)"
      by simp_all
    then show ?thesis by (simp only: is_blank_byte_def of_char_byte_inject)
  qed
  then show ?thesis
    by (simp add: leading_whitespace_byte_count_def simd_paths_agree as_bytes_def
        leading_whitespace_byte_count_scalar_def takeWhile_map comp_def)
qed

section \<open>Properties\<close>

lemma count_newlines:
  "complete_lines s = (ls, t) \<Longrightarrow> length ls = count_list s newline"
  by (induction s arbitrary: ls t) (auto split: prod.splits list.splits if_splits)

text \<open>
  \<^bold>\<open>C40\<close>. On every architecture the build supports, the vectorised scans compute what the
  byte loops compute, for every input: whole chunks, the remainder and the early exits agree
  with the scalar code.
\<close>

theorem simd_scans_agree:
  "all_bytes_equal_on arch bytes target = list_all (\<lambda>b. b = target) bytes
   \<and> leading_whitespace_byte_count_on arch bytes
       = length (takeWhile (\<lambda>b. b = 0x20 \<or> b = 0x09) bytes)
   \<and> slices_equal_on arch left right = (left = right)"
  by (simp add: simd_paths_agree all_bytes_equal_scalar_def leading_whitespace_byte_count_scalar_def
      is_blank_byte_def [abs_def])

text \<open>
  Splitting a text into lines loses nothing: the pieces put together are the text,
  the owning and the borrowing variant agree, and there are as many pieces as line feeds, plus
  one for an unterminated last line.
\<close>

theorem line_split_complete:
  "concat (split_lines_as_slices s True) = s
   \<and> split_lines_keepends s False = split_lines_as_slices s True
   \<and> length (split_lines_as_slices s True)
       = count_byte s newline + (if s = [] \<or> ends_with s [newline] then 0 else 1)"
proof -
  obtain ls t where c: "complete_lines s = (ls, t)" by force
  have t: "t = [] \<longleftrightarrow> s = [] \<or> ends_with s [newline]"
  proof (cases s rule: rev_cases)
    case (snoc s' x)
    with c show ?thesis
      by (auto simp: complete_lines_snoc ends_with_iff Let_def split: prod.splits if_splits)
  qed (use c in simp)
  have "length (lines_keep s) = count_list s newline + (if t = [] then 0 else 1)"
    using c count_newlines [OF c] by (simp add: lines_keep_complete)
  with t show ?thesis by (simp add: text_simps count_byte_count_list)
qed

end
