(* ===== verification/Identifiers.thy ===== *)
theory Identifiers
  imports Rust_Str
begin

text \<open>
  The typed identifiers and their serialised names: \<^verbatim>\<open>PolicyId\<close> of
  \<^verbatim>\<open>src/src/policy/id.rs\<close>, \<^verbatim>\<open>PolicyZone\<close> of \<^verbatim>\<open>src/src/policy/zone.rs\<close>,
  \<^verbatim>\<open>CandidateRiskTier\<close> of \<^verbatim>\<open>src/src/engine/edit_candidate.rs\<close>,
  \<^verbatim>\<open>RetryScopeStage\<close> of \<^verbatim>\<open>src/src/engine/run_options.rs\<close>,
  \<^verbatim>\<open>SemanticInvariantClause\<close> of \<^verbatim>\<open>src/src/engine/semantic_contract.rs\<close> and the retry
  strategies of \<^verbatim>\<open>src/src/model/retry_strategy.rs\<close>.  The contract the report and state files
  rely on, that a name written is the name read back, is the locale \<open>serialized_enum\<close>.
\<close>

section \<open>Serialised enumerations\<close>

text \<open>
  \<open>as_str\<close> is used by \<open>Serialize\<close>, \<open>from_serialized\<close> by \<open>Deserialize\<close>: reading trims the value
  and ignores the case of ASCII letters, and accepts nothing but the written names.
\<close>

locale serialized_enum =
  fixes as_str :: "'a \<Rightarrow> rstr"
    and from_serialized :: "rstr \<Rightarrow> 'a option"
  assumes written_is_read: "from_serialized (as_str x) = Some x"
    and read_is_normalized: "from_serialized v = from_serialized (to_ascii_lowercase (trim v))"
    and read_is_written: "from_serialized v = Some x \<Longrightarrow> as_str x = to_ascii_lowercase (trim v)"
begin

lemma as_str_inject: "as_str x = as_str y \<longleftrightarrow> x = y"
  by (metis option.inject written_is_read)

lemma from_serialized_iff: "from_serialized v = Some x \<longleftrightarrow> as_str x = to_ascii_lowercase (trim v)"
  by (metis read_is_normalized read_is_written written_is_read)

lemma from_serialized_padded:
  "trim w = v \<Longrightarrow> to_ascii_lowercase v = as_str x \<Longrightarrow> from_serialized w = Some x"
  by (simp add: from_serialized_iff)

end

text \<open>A name that is trimmed and in lower case is read as it stands.\<close>

lemma trim_clean:
  assumes "ws_prefix s = 0" and "ws_suffix (rev s) = 0"
  shows "trim s = s"
  using assms by (simp add: trim_def trim_start_def trim_end_def strip_while_stop)

lemmas read_simps =
  trim_clean ws_prefix_def ws_suffix_def ws1_def ws2_def ws3_def
  to_ascii_lowercase_char_def is_ascii_uppercase_def

section \<open>Policy identifiers\<close>

datatype policy_id =
    DashCommentNormalizer | SectionTitleNormalizer | CompactDeclarations | ClassLayout
    | LuaMacroSpacing | NamespaceEndComments | PragmaOnceSpacing | IncludeGuards
    | IncludeOrder | LogicalKeywordOperators | FunctionVoidParams
    | OperatorOverloadSpacing | ClangFormat | NamingConventions | SnakeCase
    | NumericLiteralSuffix | DeclarationAlignment | Unknown rstr

fun policy_as_str :: "policy_id \<Rightarrow> rstr" where
  "policy_as_str DashCommentNormalizer = ''dash_comment_normalizer''"
| "policy_as_str SectionTitleNormalizer = ''section_title_normalizer''"
| "policy_as_str CompactDeclarations = ''compact_declarations''"
| "policy_as_str ClassLayout = ''class_layout''"
| "policy_as_str LuaMacroSpacing = ''lua_macro_spacing''"
| "policy_as_str NamespaceEndComments = ''namespace_end_comments''"
| "policy_as_str PragmaOnceSpacing = ''pragma_once_spacing''"
| "policy_as_str IncludeGuards = ''include_guards''"
| "policy_as_str IncludeOrder = ''include_order''"
| "policy_as_str LogicalKeywordOperators = ''logical_keyword_operators''"
| "policy_as_str FunctionVoidParams = ''function_void_params''"
| "policy_as_str OperatorOverloadSpacing = ''operator_overload_spacing''"
| "policy_as_str ClangFormat = ''clang_format''"
| "policy_as_str NamingConventions = ''naming_conventions''"
| "policy_as_str SnakeCase = ''snake_case''"
| "policy_as_str NumericLiteralSuffix = ''numeric_literal_suffix''"
| "policy_as_str DeclarationAlignment = ''declaration_alignment''"
| "policy_as_str (Unknown value) = value"

definition policy_from_str_lossy :: "rstr \<Rightarrow> policy_id" where
  "policy_from_str_lossy value =
     (let trimmed = trim value in
      if eq_ignore_ascii_case trimmed ''dash_comment_normalizer'' then DashCommentNormalizer
      else if eq_ignore_ascii_case trimmed ''section_title_normalizer'' then SectionTitleNormalizer
      else if eq_ignore_ascii_case trimmed ''compact_declarations'' then CompactDeclarations
      else if eq_ignore_ascii_case trimmed ''class_layout'' then ClassLayout
      else if eq_ignore_ascii_case trimmed ''lua_macro_spacing'' then LuaMacroSpacing
      else if eq_ignore_ascii_case trimmed ''namespace_end_comments'' then NamespaceEndComments
      else if eq_ignore_ascii_case trimmed ''pragma_once_spacing'' then PragmaOnceSpacing
      else if eq_ignore_ascii_case trimmed ''include_guards'' then IncludeGuards
      else if eq_ignore_ascii_case trimmed ''include_order'' then IncludeOrder
      else if eq_ignore_ascii_case trimmed ''logical_keyword_operators'' then LogicalKeywordOperators
      else if eq_ignore_ascii_case trimmed ''function_void_params'' then FunctionVoidParams
      else if eq_ignore_ascii_case trimmed ''operator_overload_spacing'' then OperatorOverloadSpacing
      else if eq_ignore_ascii_case trimmed ''clang_format'' then ClangFormat
      else if eq_ignore_ascii_case trimmed ''naming_conventions'' then NamingConventions
      else if eq_ignore_ascii_case trimmed ''snake_case'' then SnakeCase
      else if eq_ignore_ascii_case trimmed ''numeric_literal_suffix'' then NumericLiteralSuffix
      else if eq_ignore_ascii_case trimmed ''declaration_alignment'' then DeclarationAlignment
      else Unknown (to_ascii_lowercase trimmed))"


definition policy_id_default :: policy_id where
  "policy_id_default = Unknown []"

definition policy_is_empty :: "policy_id \<Rightarrow> bool" where
  "policy_is_empty p = (case p of Unknown value \<Rightarrow> value = [] | _ \<Rightarrow> False)"

text \<open>The comparisons of a \<^verbatim>\<open>PolicyId\<close> with a string: by its name.\<close>

definition policy_eq_str :: "policy_id \<Rightarrow> rstr \<Rightarrow> bool" where
  "policy_eq_str p s \<longleftrightarrow> policy_as_str p = s"

text \<open>
  Reading a name depends on its normal form only, and the identifier read has that form as
  its name.
\<close>

lemma eq_ignore_case_normal:
  "to_ascii_lowercase n = n \<Longrightarrow> eq_ignore_ascii_case t n \<longleftrightarrow> to_ascii_lowercase t = n"
  by (simp add: eq_ignore_ascii_case_def)

lemma policy_as_str_from_str_lossy:
  "policy_as_str (policy_from_str_lossy s) = to_ascii_lowercase (trim s)"
  by (simp add: policy_from_str_lossy_def eq_ignore_case_normal to_ascii_lowercase_char_def
      is_ascii_uppercase_def Let_def)

lemma policy_from_str_lossy_normalized:
  "policy_from_str_lossy (to_ascii_lowercase (trim s)) = policy_from_str_lossy s"
  by (simp add: policy_from_str_lossy_def eq_ignore_ascii_case_def trim_lower Let_def)

text \<open>The identifiers that occur in a run: those some name is read as.\<close>

definition canonical_policy :: "policy_id \<Rightarrow> bool" where
  "canonical_policy p \<longleftrightarrow> policy_from_str_lossy (policy_as_str p) = p"

lemma canonical_from_str_lossy [simp]: "canonical_policy (policy_from_str_lossy s)"
  by (simp add: canonical_policy_def policy_as_str_from_str_lossy policy_from_str_lossy_normalized)

lemma canonical_inject:
  "canonical_policy p \<Longrightarrow> canonical_policy q \<Longrightarrow> policy_as_str p = policy_as_str q \<longleftrightarrow> p = q"
  by (metis canonical_policy_def)

lemma known_policies_canonical:
  "\<forall>v. p \<noteq> Unknown v \<Longrightarrow> canonical_policy p"
  by (cases p) (simp_all add: canonical_policy_def policy_from_str_lossy_def eq_ignore_ascii_case_def
      read_simps Let_def)

text \<open>The order \<open>derive(Ord)\<close> gives: by the declaration, unknown names last and by their bytes.\<close>

fun policy_rank :: "policy_id \<Rightarrow> nat" where
  "policy_rank DashCommentNormalizer = 0"
| "policy_rank SectionTitleNormalizer = 1"
| "policy_rank CompactDeclarations = 2"
| "policy_rank ClassLayout = 3"
| "policy_rank LuaMacroSpacing = 4"
| "policy_rank NamespaceEndComments = 5"
| "policy_rank PragmaOnceSpacing = 6"
| "policy_rank IncludeGuards = 7"
| "policy_rank IncludeOrder = 8"
| "policy_rank LogicalKeywordOperators = 9"
| "policy_rank FunctionVoidParams = 10"
| "policy_rank OperatorOverloadSpacing = 11"
| "policy_rank ClangFormat = 12"
| "policy_rank NamingConventions = 13"
| "policy_rank SnakeCase = 14"
| "policy_rank NumericLiteralSuffix = 15"
| "policy_rank DeclarationAlignment = 16"
| "policy_rank (Unknown value) = 17"

instantiation policy_id :: linorder
begin

definition less_eq_policy_id :: "policy_id \<Rightarrow> policy_id \<Rightarrow> bool" where
  "less_eq_policy_id p q \<longleftrightarrow>
     policy_rank p < policy_rank q \<or> policy_rank p = policy_rank q \<and> policy_as_str p \<le> policy_as_str q"

definition less_policy_id :: "policy_id \<Rightarrow> policy_id \<Rightarrow> bool" where
  "less_policy_id p q \<longleftrightarrow>
     policy_rank p < policy_rank q \<or> policy_rank p = policy_rank q \<and> policy_as_str p < policy_as_str q"

instance
proof
  have known: "policy_rank p < 17" if "\<forall>v. p \<noteq> Unknown v" for p
    using that by (cases p) simp_all
  fix p q r :: policy_id
  show "(p < q) = (p \<le> q \<and> \<not> q \<le> p)" and "p \<le> p"
    by (auto simp: less_eq_policy_id_def less_policy_id_def)
  show "p \<le> q \<Longrightarrow> q \<le> r \<Longrightarrow> p \<le> r"
    by (auto simp: less_eq_policy_id_def)
  show "p \<le> q \<or> q \<le> p"
    by (auto simp: less_eq_policy_id_def)
  show "p = q" if "p \<le> q" and "q \<le> p"
  proof -
    from that have r: "policy_rank p = policy_rank q" and n: "policy_as_str p = policy_as_str q"
      by (auto simp: less_eq_policy_id_def)
    show ?thesis
    proof (cases "\<exists>v. p = Unknown v")
      case True
      then obtain v where p: "p = Unknown v" ..
      with r known [of q] have "\<not> (\<forall>w. q \<noteq> Unknown w)" by auto
      with p n show ?thesis by auto
    next
      case False
      with r known [of p] have "\<forall>w. q \<noteq> Unknown w" by auto
      with False n show ?thesis
        using canonical_inject known_policies_canonical by blast
    qed
  qed
qed

end

section \<open>Retry strategies\<close>

datatype known_retry_strategy =
    GuidedForceCulprit | GuidedForceCulpritHoldConfidence | GuidedForceTopHoldConfidence
    | RepeatSemanticCulpritTopHoldConfidence | RepeatSemanticCulpritTopAggressive
    | RepeatSemanticTop2HoldConfidence | ParserUnavailableAggressiveConfidence
    | ParserUnavailableBlockCulprit | ParserUnavailableBlockCulpritHoldConfidence
    | CulpritOnly | CulpritOnlyAggressiveConfidence | CulpritPlusTop
    | CulpritOnlyHoldConfidence | TopOnly | ConfidenceOnlyAggressive
    | TopOnlyHoldConfidence | Top2HoldConfidence | Top3HoldConfidence
    | CulpritPlusTopHoldConfidence | GuidedHoldConfidenceOnly

fun known_retry_strategy_as_str :: "known_retry_strategy \<Rightarrow> rstr" where
  "known_retry_strategy_as_str GuidedForceCulprit = ''guided_force_culprit''"
| "known_retry_strategy_as_str GuidedForceCulpritHoldConfidence = ''guided_force_culprit_hold_confidence''"
| "known_retry_strategy_as_str GuidedForceTopHoldConfidence = ''guided_force_top_hold_confidence''"
| "known_retry_strategy_as_str RepeatSemanticCulpritTopHoldConfidence = ''repeat_semantic_culprit_top_hold_confidence''"
| "known_retry_strategy_as_str RepeatSemanticCulpritTopAggressive = ''repeat_semantic_culprit_top_aggressive''"
| "known_retry_strategy_as_str RepeatSemanticTop2HoldConfidence = ''repeat_semantic_top2_hold_confidence''"
| "known_retry_strategy_as_str ParserUnavailableAggressiveConfidence = ''parser_unavailable_aggressive_confidence''"
| "known_retry_strategy_as_str ParserUnavailableBlockCulprit = ''parser_unavailable_block_culprit''"
| "known_retry_strategy_as_str ParserUnavailableBlockCulpritHoldConfidence = ''parser_unavailable_block_culprit_hold_confidence''"
| "known_retry_strategy_as_str CulpritOnly = ''culprit_only''"
| "known_retry_strategy_as_str CulpritOnlyAggressiveConfidence = ''culprit_only_aggressive_confidence''"
| "known_retry_strategy_as_str CulpritPlusTop = ''culprit_plus_top''"
| "known_retry_strategy_as_str CulpritOnlyHoldConfidence = ''culprit_only_hold_confidence''"
| "known_retry_strategy_as_str TopOnly = ''top_only''"
| "known_retry_strategy_as_str ConfidenceOnlyAggressive = ''confidence_only_aggressive''"
| "known_retry_strategy_as_str TopOnlyHoldConfidence = ''top_only_hold_confidence''"
| "known_retry_strategy_as_str Top2HoldConfidence = ''top2_hold_confidence''"
| "known_retry_strategy_as_str Top3HoldConfidence = ''top3_hold_confidence''"
| "known_retry_strategy_as_str CulpritPlusTopHoldConfidence = ''culprit_plus_top_hold_confidence''"
| "known_retry_strategy_as_str GuidedHoldConfidenceOnly = ''guided_hold_confidence_only''"

definition known_retry_strategy_from_str :: "rstr \<Rightarrow> known_retry_strategy option" where
  "known_retry_strategy_from_str v =
     (let t = to_ascii_lowercase (trim v) in
      if t = ''guided_force_culprit'' then Some GuidedForceCulprit
      else if t = ''guided_force_culprit_hold_confidence'' then Some GuidedForceCulpritHoldConfidence
      else if t = ''guided_force_top_hold_confidence'' then Some GuidedForceTopHoldConfidence
      else if t = ''repeat_semantic_culprit_top_hold_confidence'' then Some RepeatSemanticCulpritTopHoldConfidence
      else if t = ''repeat_semantic_culprit_top_aggressive'' then Some RepeatSemanticCulpritTopAggressive
      else if t = ''repeat_semantic_top2_hold_confidence'' then Some RepeatSemanticTop2HoldConfidence
      else if t = ''parser_unavailable_aggressive_confidence'' then Some ParserUnavailableAggressiveConfidence
      else if t = ''parser_unavailable_block_culprit'' then Some ParserUnavailableBlockCulprit
      else if t = ''parser_unavailable_block_culprit_hold_confidence'' then Some ParserUnavailableBlockCulpritHoldConfidence
      else if t = ''culprit_only'' then Some CulpritOnly
      else if t = ''culprit_only_aggressive_confidence'' then Some CulpritOnlyAggressiveConfidence
      else if t = ''culprit_plus_top'' then Some CulpritPlusTop
      else if t = ''culprit_only_hold_confidence'' then Some CulpritOnlyHoldConfidence
      else if t = ''top_only'' then Some TopOnly
      else if t = ''confidence_only_aggressive'' then Some ConfidenceOnlyAggressive
      else if t = ''top_only_hold_confidence'' then Some TopOnlyHoldConfidence
      else if t = ''top2_hold_confidence'' then Some Top2HoldConfidence
      else if t = ''top3_hold_confidence'' then Some Top3HoldConfidence
      else if t = ''culprit_plus_top_hold_confidence'' then Some CulpritPlusTopHoldConfidence
      else if t = ''guided_hold_confidence_only'' then Some GuidedHoldConfidenceOnly
      else None)"


section \<open>Small enumerations\<close>

datatype policy_zone = Code | Preprocessor | Comments

fun zone_as_str :: "policy_zone \<Rightarrow> rstr" where
  "zone_as_str Code = ''code''"
| "zone_as_str Preprocessor = ''preprocessor''"
| "zone_as_str Comments = ''comments''"

definition zone_from_serialized :: "rstr \<Rightarrow> policy_zone option" where
  "zone_from_serialized v =
     (let t = to_ascii_lowercase (trim v) in
      if t = ''code'' then Some Code
      else if t = ''preprocessor'' then Some Preprocessor
      else if t = ''comments'' then Some Comments
      else None)"

datatype candidate_risk_tier = Low | Medium | High

fun precedence_score :: "candidate_risk_tier \<Rightarrow> nat" where
  "precedence_score Low = 3"
| "precedence_score Medium = 2"
| "precedence_score High = 1"

fun risk_as_str :: "candidate_risk_tier \<Rightarrow> rstr" where
  "risk_as_str Low = ''low''"
| "risk_as_str Medium = ''medium''"
| "risk_as_str High = ''high''"

definition risk_from_serialized :: "rstr \<Rightarrow> candidate_risk_tier option" where
  "risk_from_serialized v =
     (let t = to_ascii_lowercase (trim v) in
      if t = ''low'' then Some Low
      else if t = ''medium'' then Some Medium
      else if t = ''high'' then Some High
      else None)"

datatype retry_scope_stage = Full | CulpritRegion | NodeLocal | LineLocal

fun stage_as_str :: "retry_scope_stage \<Rightarrow> rstr" where
  "stage_as_str Full = ''full''"
| "stage_as_str CulpritRegion = ''culprit_region''"
| "stage_as_str NodeLocal = ''node_local''"
| "stage_as_str LineLocal = ''line_local''"

definition stage_from_serialized :: "rstr \<Rightarrow> retry_scope_stage option" where
  "stage_from_serialized v =
     (let t = to_ascii_lowercase (trim v) in
      if t = ''full'' then Some Full
      else if t = ''culprit_region'' then Some CulpritRegion
      else if t = ''node_local'' then Some NodeLocal
      else if t = ''line_local'' then Some LineLocal
      else None)"

datatype semantic_invariant_clause =
    ParserAvailability | ParseQuality | SymbolIdentity | ScopeIntegrity
    | UsageRoleConsistency | MacroRegionSafety | DeclarationReferenceIntegrity
    | EditSafety

fun clause_as_str :: "semantic_invariant_clause \<Rightarrow> rstr" where
  "clause_as_str ParserAvailability = ''parser_availability''"
| "clause_as_str ParseQuality = ''parse_quality''"
| "clause_as_str SymbolIdentity = ''symbol_identity''"
| "clause_as_str ScopeIntegrity = ''scope_integrity''"
| "clause_as_str UsageRoleConsistency = ''usage_role_consistency''"
| "clause_as_str MacroRegionSafety = ''macro_region_safety''"
| "clause_as_str DeclarationReferenceIntegrity = ''declaration_reference_integrity''"
| "clause_as_str EditSafety = ''edit_safety''"

definition clause_from_serialized :: "rstr \<Rightarrow> semantic_invariant_clause option" where
  "clause_from_serialized v =
     (let t = to_ascii_lowercase (trim v) in
      if t = ''parser_availability'' then Some ParserAvailability
      else if t = ''parse_quality'' then Some ParseQuality
      else if t = ''symbol_identity'' then Some SymbolIdentity
      else if t = ''scope_integrity'' then Some ScopeIntegrity
      else if t = ''usage_role_consistency'' then Some UsageRoleConsistency
      else if t = ''macro_region_safety'' then Some MacroRegionSafety
      else if t = ''declaration_reference_integrity'' then Some DeclarationReferenceIntegrity
      else if t = ''edit_safety'' then Some EditSafety
      else None)"


section \<open>Every enumeration keeps the contract\<close>

lemmas enum_defs =
  zone_from_serialized_def risk_from_serialized_def stage_from_serialized_def
  clause_from_serialized_def known_retry_strategy_from_str_def Let_def

interpretation zone: serialized_enum zone_as_str zone_from_serialized
proof
  show "zone_from_serialized (zone_as_str x) = Some x" for x
    by (cases x) (simp_all add: enum_defs read_simps)
qed (auto simp: enum_defs trim_lower split: if_splits)

interpretation risk: serialized_enum risk_as_str risk_from_serialized
proof
  show "risk_from_serialized (risk_as_str x) = Some x" for x
    by (cases x) (simp_all add: enum_defs read_simps)
qed (auto simp: enum_defs trim_lower split: if_splits)

interpretation stage: serialized_enum stage_as_str stage_from_serialized
proof
  show "stage_from_serialized (stage_as_str x) = Some x" for x
    by (cases x) (simp_all add: enum_defs read_simps)
qed (auto simp: enum_defs trim_lower split: if_splits)

interpretation clause: serialized_enum clause_as_str clause_from_serialized
proof
  show "clause_from_serialized (clause_as_str x) = Some x" for x
    by (cases x) (simp_all add: enum_defs read_simps)
qed (auto simp: enum_defs trim_lower split: if_splits)

interpretation strategy: serialized_enum known_retry_strategy_as_str known_retry_strategy_from_str
proof
  show "known_retry_strategy_from_str (known_retry_strategy_as_str x) = Some x" for x
    by (cases x) (simp_all add: enum_defs read_simps)
qed (auto simp: enum_defs trim_lower split: if_splits)

text \<open>
  \<open>RetryStrategyName\<close>: a known strategy or any other name in normal form, and the tags the
  retry optimiser reads off the name.
\<close>

datatype retry_strategy_name = Known known_retry_strategy | Custom rstr

datatype retry_strategy_tag = Culprit | Top | Aggressive | HoldConfidence

definition strategy_name_from_str_lossy :: "rstr \<Rightarrow> retry_strategy_name" where
  "strategy_name_from_str_lossy value =
     (case known_retry_strategy_from_str value of
        Some known \<Rightarrow> Known known
      | None \<Rightarrow> Custom (to_ascii_lowercase (trim value)))"

fun strategy_name_as_str :: "retry_strategy_name \<Rightarrow> rstr" where
  "strategy_name_as_str (Known known) = known_retry_strategy_as_str known"
| "strategy_name_as_str (Custom value) = value"

fun strategy_has_tag :: "retry_strategy_name \<Rightarrow> retry_strategy_tag \<Rightarrow> bool" where
  "strategy_has_tag n Culprit = contains (strategy_name_as_str n) ''culprit''"
| "strategy_has_tag n Top = contains (strategy_name_as_str n) ''top''"
| "strategy_has_tag n Aggressive = contains (strategy_name_as_str n) ''aggressive''"
| "strategy_has_tag n HoldConfidence = contains (strategy_name_as_str n) ''hold_confidence''"

lemma strategy_name_as_str_from_str:
  "strategy_name_as_str (strategy_name_from_str_lossy v) = to_ascii_lowercase (trim v)"
  by (simp add: strategy_name_from_str_lossy_def strategy.from_serialized_iff split: option.split)

lemma strategy_name_normalized:
  "strategy_name_from_str_lossy (to_ascii_lowercase (trim v)) = strategy_name_from_str_lossy v"
  by (simp add: strategy_name_from_str_lossy_def trim_lower
      split: option.split flip: strategy.read_is_normalized)


section \<open>Properties\<close>

text \<open>
  A policy name survives being written and read back: the identifier read from a name
  is the one read from its own printed name, the printed name is the trimmed lower case
  form, two names give the same identifier exactly when these forms agree, and every known
  identifier is read back from its name.
\<close>

theorem policy_id_roundtrip:
  "policy_from_str_lossy (policy_as_str (policy_from_str_lossy s)) = policy_from_str_lossy s
   \<and> policy_as_str (policy_from_str_lossy s) = to_ascii_lowercase (trim s)
   \<and> (policy_from_str_lossy s = policy_from_str_lossy t
        \<longleftrightarrow> to_ascii_lowercase (trim s) = to_ascii_lowercase (trim t))
   \<and> list_all (\<lambda>p. policy_from_str_lossy (policy_as_str p) = p)
       [DashCommentNormalizer, SectionTitleNormalizer, CompactDeclarations, ClassLayout,
        LuaMacroSpacing, NamespaceEndComments, PragmaOnceSpacing, IncludeGuards, IncludeOrder,
        LogicalKeywordOperators, FunctionVoidParams, OperatorOverloadSpacing, ClangFormat,
        NamingConventions, SnakeCase, NumericLiteralSuffix, DeclarationAlignment]"
proof (intro conjI)
  show "policy_from_str_lossy (policy_as_str (policy_from_str_lossy s)) = policy_from_str_lossy s"
    using canonical_from_str_lossy by (simp add: canonical_policy_def)
  show "policy_from_str_lossy s = policy_from_str_lossy t
      \<longleftrightarrow> to_ascii_lowercase (trim s) = to_ascii_lowercase (trim t)"
    by (metis policy_as_str_from_str_lossy policy_from_str_lossy_normalized)
qed (simp_all add: policy_as_str_from_str_lossy
    known_policies_canonical [unfolded canonical_policy_def] del: policy_as_str.simps)

text \<open>
  A retry strategy name survives being written and read back, known or custom, and its
  printed form is the trimmed lower case form of what was read.
\<close>

theorem retry_strategy_roundtrip:
  "strategy_name_from_str_lossy (strategy_name_as_str (strategy_name_from_str_lossy v))
     = strategy_name_from_str_lossy v
   \<and> strategy_name_as_str (strategy_name_from_str_lossy v) = to_ascii_lowercase (trim v)
   \<and> strategy_name_from_str_lossy (known_retry_strategy_as_str k) = Known k"
  by (simp add: strategy_name_as_str_from_str strategy_name_normalized)
    (simp add: strategy_name_from_str_lossy_def strategy.written_is_read)

end
