(* ===== verification/Model.thy ===== *)
theory Model
  imports Identifiers
begin

text \<open>
  The values the engine passes around, from \<^verbatim>\<open>src/src/model/\<close>: edits, violations and
  policy results, the run summary, the retry effort of a pass, the rename plans that travel
  inside warning strings, and the outcome a report derives for a policy.  The timing and
  confidence fields of the reports, floating point numbers that are only copied, are left out.
\<close>

section \<open>Edits, violations, policy results\<close>

record edit =
  e_policy :: policy_id
  e_line :: nat
  e_before :: rstr
  e_after :: rstr

record violation =
  v_policy :: policy_id
  v_message :: rstr
  v_line :: nat
  v_column :: "nat option"

record policy_result =
  pr_text :: rstr
  pr_changed :: bool
  pr_violations :: "violation list"
  pr_edits :: "edit list"
  pr_warnings :: "rstr list"

definition unchanged :: policy_result where
  "unchanged = \<lparr>pr_text = [], pr_changed = False, pr_violations = [], pr_edits = [], pr_warnings = []\<rparr>"

definition unchanged_with_warning :: "rstr \<Rightarrow> policy_result" where
  "unchanged_with_warning warning = unchanged\<lparr>pr_warnings := [warning]\<rparr>"

definition unchanged_with_warnings :: "rstr list \<Rightarrow> policy_result" where
  "unchanged_with_warnings warnings = unchanged\<lparr>pr_warnings := warnings\<rparr>"

text \<open>An edit that names a line and changes it; the others are ignored throughout the engine.\<close>

definition effective :: "edit \<Rightarrow> bool" where
  "effective e \<longleftrightarrow> 0 < e_line e \<and> e_before e \<noteq> e_after e"

section \<open>Run summary and retry effort\<close>

record run_summary =
  files_processed :: nat
  files_changed :: nat
  rs_violations :: nat
  rs_errors :: nat
  rs_warnings :: nat

definition run_summary_default :: run_summary where
  "run_summary_default =
     \<lparr>files_processed = 0, files_changed = 0, rs_violations = 0, rs_errors = 0, rs_warnings = 0\<rparr>"

definition merge_file :: "run_summary \<Rightarrow> bool \<Rightarrow> nat \<Rightarrow> bool \<Rightarrow> nat \<Rightarrow> run_summary" where
  "merge_file s changed violation_count has_error warning_count =
     \<lparr>files_processed = files_processed s + 1,
      files_changed = (if changed then files_changed s + 1 else files_changed s),
      rs_violations = rs_violations s + violation_count,
      rs_errors = (if has_error then rs_errors s + 1 else rs_errors s),
      rs_warnings = rs_warnings s + warning_count\<rparr>"

definition merge_files :: "(bool \<times> nat \<times> bool \<times> nat) list \<Rightarrow> run_summary \<Rightarrow> run_summary" where
  "merge_files fs s = fold (\<lambda>(c, v, e, w) s. merge_file s c v e w) fs s"

text \<open>The counts of a run are the counts of its files; no more files change or fail than are processed.\<close>

lemma merge_files_counts:
  "files_processed (merge_files fs s) = files_processed s + length fs"
  "files_changed (merge_files fs s) = files_changed s + length (filter fst fs)"
  "rs_violations (merge_files fs s) = rs_violations s + sum_list (map (\<lambda>(c, v, e, w). v) fs)"
  "rs_errors (merge_files fs s) = rs_errors s + length (filter (\<lambda>(c, v, e, w). e) fs)"
  by (induction fs arbitrary: s) (auto simp: merge_files_def merge_file_def)

record format_pass_metrics =
  retry_attempts :: u32
  post_edit_validations :: u32
  salvage_candidate_checks :: u32

text \<open>Saturating arithmetic of \<open>u64\<close>.\<close>

definition u64_max :: nat where
  "u64_max = 2 ^ 64 - 1"

definition saturating_mul_u64 :: "u64 \<Rightarrow> u64 \<Rightarrow> u64" where
  "saturating_mul_u64 a b =
     (if unat a * unat b \<le> u64_max then a * b else of_nat u64_max)"

definition saturating_add_u64 :: "u64 \<Rightarrow> u64 \<Rightarrow> u64" where
  "saturating_add_u64 a b =
     (if unat a + unat b \<le> u64_max then a + b else of_nat u64_max)"

definition retry_effort_units :: "format_pass_metrics \<Rightarrow> u64" where
  "retry_effort_units m =
     saturating_add_u64
       (saturating_add_u64 (saturating_mul_u64 (ucast (retry_attempts m)) 8)
         (saturating_mul_u64 (ucast (post_edit_validations m)) 4))
       (ucast (salvage_candidate_checks m))"

lemma unat_saturating_mul: "unat (saturating_mul_u64 a b) = min (unat a * unat b) u64_max"
  by (auto simp: saturating_mul_u64_def u64_max_def unat_word_ariths unsigned_of_nat min_def
      take_bit_eq_mod)

lemma unat_saturating_add: "unat (saturating_add_u64 a b) = min (unat a + unat b) u64_max"
  by (auto simp: saturating_add_u64_def u64_max_def unat_word_ariths unsigned_of_nat min_def
      take_bit_eq_mod)

lemma unat_ucast_u32: "unat (ucast (w :: u32) :: u64) = unat w"
proof -
  have "unat w < 2 ^ 32" using unsigned_less [of w, where ?'a = nat] by simp
  then show ?thesis by (simp add: unsigned_ucast_eq take_bit_eq_mod)
qed

section \<open>Rename plans in warning strings\<close>

record clang_decl_key =
  dk_path :: rstr
  dk_line :: nat
  dk_column :: nat
  dk_kind :: int

record semantic_rename_plan =
  rp_decl :: clang_decl_key
  rp_old_name :: rstr
  rp_new_name :: rstr

abbreviation colon :: char where
  "colon \<equiv> CHR '':''"

definition rename_plan_prefix :: rstr where
  "rename_plan_prefix = ''internal:semantic_rename_plan:''"

definition to_internal_warning :: "semantic_rename_plan \<Rightarrow> rstr" where
  "to_internal_warning p =
     rename_plan_prefix @ int_to_string (dk_kind (rp_decl p)) @ [colon]
       @ nat_to_string (dk_line (rp_decl p)) @ [colon]
       @ nat_to_string (dk_column (rp_decl p)) @ [colon]
       @ rp_old_name p @ [colon] @ rp_new_name p @ [colon] @ dk_path (rp_decl p)"

text \<open>\<open>splitn\<close>: at most \<open>n\<close> pieces, the last one with all that is left.\<close>

fun splitn :: "nat \<Rightarrow> char \<Rightarrow> rstr \<Rightarrow> rstr list" where
  "splitn 0 c s = []"
| "splitn (Suc 0) c s = [s]"
| "splitn (Suc (Suc n)) c s =
     (if c \<in> set s
      then takeWhile (\<lambda>d. d \<noteq> c) s # splitn (Suc n) c (tl (dropWhile (\<lambda>d. d \<noteq> c) s))
      else [s])"

definition from_internal_warning :: "rstr \<Rightarrow> semantic_rename_plan option" where
  "from_internal_warning value =
     (case strip_prefix value rename_plan_prefix of
        None \<Rightarrow> None
      | Some payload \<Rightarrow>
          (case splitn 6 colon payload of
             [kind, line, column, old_name, new_name, path] \<Rightarrow>
               (case (parse_i32 kind, parse_usize line, parse_usize column) of
                  (Some k, Some l, Some c) \<Rightarrow>
                    Some \<lparr>rp_decl = \<lparr>dk_path = path, dk_line = l, dk_column = c, dk_kind = k\<rparr>,
                          rp_old_name = old_name, rp_new_name = new_name\<rparr>
                | _ \<Rightarrow> None)
           | _ \<Rightarrow> None))"

lemma splitn_piece:
  assumes "c \<notin> set p"
  shows "splitn (Suc (Suc n)) c (p @ c # s) = p # splitn (Suc n) c s"
proof -
  have "takeWhile (\<lambda>d. d \<noteq> c) (p @ c # s) = p" and "dropWhile (\<lambda>d. d \<noteq> c) (p @ c # s) = c # s"
    using assms by (induction p) auto
  then show ?thesis by simp
qed

lemma splitn_six:
  assumes "c \<notin> set a" "c \<notin> set b" "c \<notin> set d" "c \<notin> set e" "c \<notin> set f"
  shows "splitn 6 c (a @ c # b @ c # d @ c # e @ c # f @ c # g) = [a, b, d, e, f, g]"
  using assms by (simp add: numeral_eq_Suc splitn_piece del: splitn.simps(3))

text \<open>
  A rename plan survives the trip through a warning string when its numbers fit
  their types and neither name contains a colon; the path may contain any.
\<close>

theorem rename_plan_roundtrip:
  assumes "- (2 ^ 31) \<le> dk_kind (rp_decl p)" and "dk_kind (rp_decl p) < 2 ^ 31"
    and "dk_line (rp_decl p) < 2 ^ 64" and "dk_column (rp_decl p) < 2 ^ 64"
    and "colon \<notin> set (rp_old_name p)" and "colon \<notin> set (rp_new_name p)"
  shows "from_internal_warning (to_internal_warning p) = Some p"
  using assms
  by (simp add: from_internal_warning_def to_internal_warning_def splitn_six colon_not_in_number
      parse_i32_to_string parse_usize_to_string)

theorem rename_plan_roundtrip_witness:
  "from_internal_warning (to_internal_warning
     \<lparr>rp_decl = \<lparr>dk_path = ''C:/a.hpp'', dk_line = 42, dk_column = 7, dk_kind = 8\<rparr>,
      rp_old_name = ''BadName'', rp_new_name = ''bad_name''\<rparr>)
   = Some \<lparr>rp_decl = \<lparr>dk_path = ''C:/a.hpp'', dk_line = 42, dk_column = 7, dk_kind = 8\<rparr>,
      rp_old_name = ''BadName'', rp_new_name = ''bad_name''\<rparr>"
  by (rule rename_plan_roundtrip) simp_all

text \<open>
  With a colon in a name the plan read back is another one: the rest of the name moves into
  the new name and the path.
\<close>

theorem rename_plan_colon_lost:
  "from_internal_warning (to_internal_warning
     \<lparr>rp_decl = \<lparr>dk_path = ''/a'', dk_line = 1, dk_column = 1, dk_kind = 8\<rparr>,
      rp_old_name = ''n::x'', rp_new_name = ''y''\<rparr>)
   = Some \<lparr>rp_decl = \<lparr>dk_path = ''x:y:/a'', dk_line = 1, dk_column = 1, dk_kind = 8\<rparr>,
      rp_old_name = ''n'', rp_new_name = []\<rparr>"
proof -
  have "to_internal_warning
     \<lparr>rp_decl = \<lparr>dk_path = ''/a'', dk_line = 1, dk_column = 1, dk_kind = 8\<rparr>,
      rp_old_name = ''n::x'', rp_new_name = ''y''\<rparr> =
    to_internal_warning
     \<lparr>rp_decl = \<lparr>dk_path = ''x:y:/a'', dk_line = 1, dk_column = 1, dk_kind = 8\<rparr>,
      rp_old_name = ''n'', rp_new_name = []\<rparr>"
    by (simp add: to_internal_warning_def)
  then show ?thesis
    using splitn_six [of colon "int_to_string 8" "nat_to_string 1" "nat_to_string 1" "''n''" "[]"
        "''x:y:/a''"]
    by (simp add: from_internal_warning_def to_internal_warning_def colon_not_in_number
        parse_i32_to_string parse_usize_to_string)
qed

section \<open>The outcome of a policy in a report\<close>

datatype policy_decision_outcome = Apply | ApplyPartial | Block

datatype policy_outcome = Applied | PartiallyApplied | Blocked | NoChange

definition derive_outcome ::
    "policy_decision_outcome option \<Rightarrow> 'e list \<Rightarrow> 'b list \<Rightarrow> policy_outcome" where
  "derive_outcome confidence_outcome edits blocked =
     (case confidence_outcome of
        Some Apply \<Rightarrow> Applied
      | Some ApplyPartial \<Rightarrow> PartiallyApplied
      | Some Block \<Rightarrow> Blocked
      | None \<Rightarrow>
          if edits = [] \<and> blocked = [] then NoChange
          else if edits = [] then Blocked
          else if blocked \<noteq> [] then PartiallyApplied
          else Applied)"

lemma derive_outcome_no_change:
  "derive_outcome c edits blocked = NoChange \<longleftrightarrow> c = None \<and> edits = [] \<and> blocked = []"
  by (auto simp: derive_outcome_def split: option.split policy_decision_outcome.split)

text \<open>
  The retry effort of a pass never saturates: it is the exact weighted sum of the
  three counters, whatever their 32-bit values.
\<close>

theorem retry_effort_exact:
  "unat (retry_effort_units m) =
     8 * unat (retry_attempts m) + 4 * unat (post_edit_validations m)
       + unat (salvage_candidate_checks m)"
proof -
  have "unat w < 2 ^ 32" for w :: u32
    using unsigned_less [of w, where ?'a = nat] by simp
  from this [of "retry_attempts m"] this [of "post_edit_validations m"]
    this [of "salvage_candidate_checks m"]
  show ?thesis
    by (simp add: retry_effort_units_def unat_saturating_add unat_saturating_mul unat_ucast_u32
        u64_max_def)
qed

end
