(* ===== verification/Edit_Utils.thy ===== *)
theory Edit_Utils
  imports Text_Scan Model
begin

text \<open>
  \<^verbatim>\<open>src/src/engine/pipeline/edit_utils.rs\<close>: the pipeline turns a changed text into line edits
  (\<open>synthesize_line_edits\<close>), applies line edits to a text strictly
  (\<open>apply_synthesized_edits\<close>) and leniently (\<open>apply_edits_lenient\<close>), and keeps the recorded
  edits in step with the text (\<open>normalize_edit_coverage\<close>, \<open>stabilize_output_text\<close>).
  The theory proves when applying the synthesised edits gives the changed text back, and
  shows by evaluation what happens beyond that.
\<close>

abbreviation quote_char :: char where
  "quote_char \<equiv> CHR 0x27"

abbreviation text_of :: "rstr list \<Rightarrow> rstr" where
  "text_of ls \<equiv> concat (map (\<lambda>l. l @ [newline]) ls)"

section \<open>Synthesised edits\<close>

function prefix_loop :: "rstr list \<Rightarrow> rstr list \<Rightarrow> nat \<Rightarrow> nat" where
  "prefix_loop before_lines after_lines pre =
     (if pre < min (length before_lines) (length after_lines)
         \<and> slices_equal (before_lines ! pre) (after_lines ! pre)
      then prefix_loop before_lines after_lines (pre + 1)
      else pre)"
  by pat_completeness auto
termination
  by (relation "measure (\<lambda>(b, a, i). length b - i)") auto

function tail_loop :: "rstr list \<Rightarrow> rstr list \<Rightarrow> nat \<Rightarrow> nat \<Rightarrow> nat \<Rightarrow> nat \<times> nat" where
  "tail_loop before_lines after_lines pre before_tail after_tail =
     (if pre < before_tail \<and> pre < after_tail
         \<and> slices_equal (before_lines ! (before_tail - 1)) (after_lines ! (after_tail - 1))
      then tail_loop before_lines after_lines pre (before_tail - 1) (after_tail - 1)
      else (before_tail, after_tail))"
  by pat_completeness auto
termination
  by (relation "measure (\<lambda>(b, a, p, i, j). i)") auto

declare prefix_loop.simps [simp del] tail_loop.simps [simp del]

definition edit_at :: "rstr \<Rightarrow> nat \<Rightarrow> rstr list \<Rightarrow> rstr list \<Rightarrow> nat \<Rightarrow> edit list" where
  "edit_at policy_name pre before_diff after_diff index =
     (let left = unwrap_or (nth_opt before_diff index) [];
          right = unwrap_or (nth_opt after_diff index) []
      in if left = right then []
         else [\<lparr>e_policy = policy_from_str_lossy policy_name, e_line = pre + index + 1,
                e_before = left, e_after = right\<rparr>])"

definition synthesize_line_edits :: "rstr \<Rightarrow> rstr \<Rightarrow> rstr \<Rightarrow> edit list" where
  "synthesize_line_edits before after policy_name =
     (let before_lines = split_lines_as_slices before True;
          after_lines = split_lines_as_slices after True;
          pre = prefix_loop before_lines after_lines 0;
          (before_tail, after_tail) =
            tail_loop before_lines after_lines pre (length before_lines) (length after_lines);
          before_diff = slice pre before_tail before_lines;
          after_diff = slice pre after_tail after_lines;
          max_lines = max (length before_diff) (length after_diff)
      in concat (map (edit_at policy_name pre before_diff after_diff) [0..<max_lines]))"

definition has_nonlocal_change :: "rstr \<Rightarrow> rstr \<Rightarrow> bool" where
  "has_nonlocal_change before_text after_text = has_line_count_changed before_text after_text"

definition edit_lines :: "edit list \<Rightarrow> nat set" where
  "edit_lines edits = set (map e_line (filter effective edits))"

definition line_hint :: "nat list \<Rightarrow> nat \<Rightarrow> nat \<Rightarrow> rstr" where
  "line_hint lines line_count max_lines =
     (let sample = map nat_to_string (take max_lines lines);
          sample = (if line_count > length sample
                    then sample @ [CHR ''+'' # nat_to_string (line_count - length sample)]
                    else sample)
      in join '','' sample)"

section \<open>Applying edits\<close>

text \<open>\<open>while src < idx\<close>: copy lines, nothing when they run out.\<close>

function copy_until :: "rstr list \<Rightarrow> nat \<Rightarrow> nat \<Rightarrow> rstr \<Rightarrow> (nat \<times> rstr) option" where
  "copy_until lines idx src result =
     (if src < idx
      then if src \<ge> length lines then None
           else copy_until lines idx (src + 1) (result @ lines ! src)
      else Some (src, result))"
  by pat_completeness auto
termination
  by (relation "measure (\<lambda>(lines, idx, src, result). idx - src)") auto

declare copy_until.simps [simp del]

definition is_insertion :: "edit \<Rightarrow> bool" where
  "is_insertion e \<longleftrightarrow> e_before e = [] \<and> e_after e \<noteq> []"

definition is_deletion :: "edit \<Rightarrow> bool" where
  "is_deletion e \<longleftrightarrow> e_before e \<noteq> [] \<and> e_after e = []"

definition apply_one :: "rstr list \<Rightarrow> edit \<Rightarrow> nat \<times> rstr \<Rightarrow> (nat \<times> rstr) option" where
  "apply_one lines e = (\<lambda>(src, result).
     let idx = e_line e - 1 in
     if idx < src then None
     else case copy_until lines idx src result of
            None \<Rightarrow> None
          | Some (src, result) \<Rightarrow>
              if is_insertion e then
                if idx > length lines then None else Some (src, result @ e_after e)
              else if src \<ge> length lines then None
              else if lines ! src \<noteq> e_before e then None
              else if is_deletion e then Some (src + 1, result)
              else Some (src + 1, result @ e_after e))"

definition apply_synthesized_edits :: "rstr \<Rightarrow> edit list \<Rightarrow> rstr option" where
  "apply_synthesized_edits before_text edits =
     (if edits = [] then Some before_text
      else
        let lines = split_lines_as_slices before_text True;
            ordered = sort_key e_line (filter (\<lambda>e. 0 < e_line e) edits)
        in case foldo (apply_one lines) ordered (0, []) of
             None \<Rightarrow> None
           | Some (src, result) \<Rightarrow> Some (result @ concat (drop src lines)))"

text \<open>
  The lenient variant skips what does not fit and shifts later lines by a signed offset
  (\<open>isize\<close>, here \<open>int\<close>).  \<open>while src < index && src < lines.len()\<close> copies up to the
  smaller bound.
\<close>

definition copy_upto :: "rstr list \<Rightarrow> nat \<Rightarrow> nat \<Rightarrow> rstr \<Rightarrow> nat \<times> rstr" where
  "copy_upto lines index src result =
     (let stop = max src (min index (length lines)) in
      (stop, result @ concat (slice src stop lines)))"

definition lenient_one :: "rstr list \<Rightarrow> edit \<Rightarrow> nat \<times> rstr \<times> int \<Rightarrow> nat \<times> rstr \<times> int" where
  "lenient_one lines e = (\<lambda>(src, result, offset).
     let base_index = int (e_line e - 1) + offset in
     if base_index < 0 then (src, result, offset)
     else
       let index = nat base_index in
       if is_insertion e then
         if index > length lines then (src, result, offset)
         else let (src, result) = copy_upto lines index src result
              in (src, result @ e_after e, offset + 1)
       else if index \<ge> length lines then (src, result, offset)
       else
         let (src, result) = copy_upto lines index src result in
         if is_deletion e then
           if src < length lines \<and> lines ! src = e_before e then (src + 1, result, offset - 1)
           else (src, result, offset)
         else if src < length lines \<and> lines ! src = e_before e
         then (src + 1, result @ e_after e, offset)
         else (src, result, offset))"

definition apply_edits_lenient :: "rstr \<Rightarrow> edit list \<Rightarrow> rstr option" where
  "apply_edits_lenient before_text edits =
     (if edits = [] then Some before_text
      else
        let lines = split_lines_as_slices before_text True;
            ordered = sort_key e_line (filter (\<lambda>e. 0 < e_line e) edits);
            (src, result, offset) = fold (lenient_one lines) ordered (0, [], 0)
        in Some (result @ concat (drop src lines)))"

section \<open>Keeping the edits in step with the text\<close>

definition stabilize_output_text ::
    "rstr \<Rightarrow> rstr \<Rightarrow> edit list \<Rightarrow> rstr list \<Rightarrow> rstr \<times> rstr list" where
  "stabilize_output_text input_text output_text edits warnings =
     (if edits = [] \<and> \<not> slices_equal output_text input_text
      then (input_text,
            warnings @ [''pipeline guard: reverted untracked text delta because no final edits survived''])
      else (output_text, warnings))"

definition normalize_edit_coverage :: "rstr \<Rightarrow> rstr \<Rightarrow> policy_result \<Rightarrow> policy_result" where
  "normalize_edit_coverage policy_name before_text result =
     (if \<not> pr_changed result \<and> pr_text result = [] then result
      else if slices_equal (pr_text result) before_text then
        (if pr_edits result \<noteq> []
         then result\<lparr>pr_edits := [],
                pr_warnings := pr_warnings result @
                  [''policy output guard: cleared stale edit records for '' @ [quote_char]
                     @ policy_name @ [quote_char]]\<rparr>
         else result)
      else if pr_edits result \<noteq> []
              \<and> apply_synthesized_edits before_text (pr_edits result) = Some (pr_text result)
      then result
      else
        let synthesized = synthesize_line_edits before_text (pr_text result) policy_name in
        if synthesized = [] then result
        else
          let declared_lines = edit_lines (pr_edits result);
              actual_lines = edit_lines synthesized
          in if pr_edits result = [] \<or> \<not> actual_lines \<subseteq> declared_lines
                \<or> card declared_lines \<noteq> card actual_lines
             then result\<lparr>pr_warnings := pr_warnings result @
                    [''policy output guard: normalized edit coverage for '' @ [quote_char]
                      @ policy_name @ [quote_char] @ '' (declared_lines=''
                      @ nat_to_string (card declared_lines) @ '', actual_lines=''
                      @ nat_to_string (card actual_lines) @ '')''],
                    pr_edits := synthesized\<rparr>
             else result)"

section \<open>The difference of two texts\<close>

lemma prefix_loop_spec:
  assumes "i \<le> length bl" "i \<le> length al" "take i bl = take i al"
  shows "prefix_loop bl al i \<le> length bl \<and> prefix_loop bl al i \<le> length al
    \<and> take (prefix_loop bl al i) bl = take (prefix_loop bl al i) al"
  using assms
proof (induction bl al i rule: prefix_loop.induct)
  case (1 bl al i)
  show ?case
  proof (cases "i < min (length bl) (length al) \<and> bl ! i = al ! i")
    case True
    then have "take (Suc i) bl = take (Suc i) al"
      using "1.prems"(3) by (simp add: take_Suc_slice)
    with "1.IH" True show ?thesis
      by (subst (1 2 3 4) prefix_loop.simps) (simp add: text_simps)
  next
    case False
    with "1.prems" show ?thesis
      by (subst (1 2 3 4) prefix_loop.simps) (auto simp: text_simps)
  qed
qed

lemma tail_loop_spec:
  assumes "tail_loop bl al p i j = (bt, at)" and "p \<le> i" "p \<le> j" "i \<le> length bl" "j \<le> length al"
    and "drop i bl = drop j al"
  shows "p \<le> bt \<and> bt \<le> length bl \<and> p \<le> at \<and> at \<le> length al \<and> drop bt bl = drop at al"
  using assms
proof (induction bl al p i j rule: tail_loop.induct)
  case (1 bl al p i j)
  show ?case
  proof (cases "p < i \<and> p < j \<and> bl ! (i - 1) = al ! (j - 1)")
    case True
    then have i: "i - 1 < length bl" "j - 1 < length al" using "1.prems" by auto
    have "drop (i - 1) bl = bl ! (i - 1) # drop i bl" "drop (j - 1) al = al ! (j - 1) # drop j al"
      using Cons_nth_drop_Suc [OF i(1)] Cons_nth_drop_Suc [OF i(2)] True by auto
    then have "drop (i - 1) bl = drop (j - 1) al" using True "1.prems"(6) by simp
    moreover have "tail_loop bl al p (i - 1) (j - 1) = (bt, at)"
      using "1.prems"(1) True by (subst (asm) tail_loop.simps) (simp add: text_simps)
    ultimately show ?thesis
      using "1.IH" True "1.prems" by (auto simp: text_simps)
  next
    case False
    then have "bt = i" "at = j"
      using "1.prems"(1) by (auto simp: text_simps tail_loop.simps [of bl al p i j] split: if_splits)
    with "1.prems" show ?thesis by simp
  qed
qed

text \<open>
  \<open>synthesize_line_edits\<close> compares the middle parts of the two line lists after a common
  prefix and suffix.
\<close>

lemma synthesize_decomposition:
  obtains P B A S where "lines_keep before = P @ B @ S" and "lines_keep after = P @ A @ S"
    and "synthesize_line_edits before after name =
           concat (map (edit_at name (length P) B A) [0..<max (length B) (length A)])"
proof -
  let ?bl = "lines_keep before" and ?al = "lines_keep after"
  define p where "p = prefix_loop ?bl ?al 0"
  obtain bt at where t: "tail_loop ?bl ?al p (length ?bl) (length ?al) = (bt, at)" by force
  have p: "p \<le> length ?bl" "p \<le> length ?al" "take p ?bl = take p ?al"
    using prefix_loop_spec [of 0 ?bl ?al] by (auto simp: p_def)
  have d: "p \<le> bt" "bt \<le> length ?bl" "p \<le> at" "at \<le> length ?al" "drop bt ?bl = drop at ?al"
    using tail_loop_spec [OF t] p by auto
  have "?bl = take p ?bl @ slice p bt ?bl @ drop bt ?bl"
    using take_slice_drop [OF d(1), of ?bl] by simp
  moreover have "?al = take p ?bl @ slice p at ?al @ drop bt ?bl"
    using take_slice_drop [OF d(3), of ?al] p(3) d(5) by simp
  moreover have "synthesize_line_edits before after name = concat (map
      (edit_at name (length (take p ?bl)) (slice p bt ?bl) (slice p at ?al))
      [0..<max (length (slice p bt ?bl)) (length (slice p at ?al))])"
    using t p(1) by (simp add: synthesize_line_edits_def text_simps Let_def flip: p_def)
  ultimately show ?thesis by (rule that)
qed

lemma lines_keep_inject: "lines_keep s = lines_keep t \<longleftrightarrow> s = t"
  by (metis lines_keep_concat)

lemma edit_at_less: "e \<in> set (edit_at name n B A i) \<Longrightarrow> e_line e = n + i + 1 \<and> effective e"
  by (auto simp: edit_at_def effective_def Let_def split: if_splits)

text \<open>No edit is synthesised exactly when the texts are equal.\<close>

lemma synthesize_empty_iff: "synthesize_line_edits before after name = [] \<longleftrightarrow> before = after"
proof -
  obtain P B A S where b: "lines_keep before = P @ B @ S" and a: "lines_keep after = P @ A @ S"
    and e: "synthesize_line_edits before after name =
           concat (map (edit_at name (length P) B A) [0..<max (length B) (length A)])"
    by (rule synthesize_decomposition [of before after name])
  have ne: "l \<noteq> []" if "l \<in> set B \<union> set A" for l
  proof -
    from that have "l \<in> set (lines_keep before) \<or> l \<in> set (lines_keep after)"
      unfolding a b by auto
    then show ?thesis using lines_keep_nonempty by blast
  qed
  have "synthesize_line_edits before after name = [] \<longleftrightarrow>
      (\<forall>i < max (length B) (length A). unwrap_or (nth_opt B i) [] = unwrap_or (nth_opt A i) [])"
    unfolding e by (fastforce simp: edit_at_def Let_def)
  also have "\<dots> \<longleftrightarrow> B = A"
  proof
    assume eq: "\<forall>i < max (length B) (length A). unwrap_or (nth_opt B i) [] = unwrap_or (nth_opt A i) []"
    have "\<not> length B < length A"
    proof
      assume l: "length B < length A"
      then have "A ! length B = []" using eq [rule_format, of "length B"] by (simp add: nth_opt_def)
      with ne [of "A ! length B"] l show False by (metis UnCI nth_mem)
    qed
    moreover have "\<not> length A < length B"
    proof
      assume l: "length A < length B"
      then have "B ! length A = []" using eq [rule_format, of "length A"] by (simp add: nth_opt_def)
      with ne [of "B ! length A"] l show False by (metis UnCI nth_mem)
    qed
    ultimately have len: "length B = length A" by simp
    with eq show "B = A" by (auto simp: list_eq_iff_nth_eq nth_opt_def)
  qed simp
  also have "\<dots> \<longleftrightarrow> before = after"
    using a b lines_keep_inject by (metis append_same_eq same_append_eq)
  finally show ?thesis .
qed

section \<open>Applying what was synthesised\<close>

lemma copy_until_Some:
  "src \<le> idx \<Longrightarrow> idx \<le> length lines \<Longrightarrow>
     copy_until lines idx src result = Some (idx, result @ concat (slice src idx lines))"
proof (induction lines idx src result rule: copy_until.induct)
  case (1 lines idx src result)
  show ?case
  proof (cases "src < idx")
    case True
    with 1 have "slice src idx lines = lines ! src # slice (Suc src) idx lines"
      by (auto simp: slice_def take_Cons' simp flip: Cons_nth_drop_Suc)
    with 1 True show ?thesis by (subst copy_until.simps) simp
  next
    case False
    with "1.prems" show ?thesis by (subst copy_until.simps) simp
  qed
qed

text \<open>
  One step of the strict application against the middle part \<open>B\<close> of the lines: whatever
  edit \<open>edit_at\<close> makes for position \<open>i\<close> of \<open>B\<close>, applying it extends the text produced so far
  by the line of \<open>A\<close> at \<open>i\<close>.
\<close>

definition apply_invariant :: "rstr list \<Rightarrow> nat \<Rightarrow> rstr \<Rightarrow> nat \<times> rstr \<Rightarrow> bool" where
  "apply_invariant lines pos made = (\<lambda>(src, result).
     src \<le> pos \<and> result @ concat (slice src pos lines) = made)"

lemma apply_one_line:
  assumes inv: "apply_invariant lines (n + i) made st"
    and lines: "n + i < length lines" "lines ! (n + i) = B ! i" "i < length B"
    and ne: "B ! i \<noteq> []" "i < length A \<Longrightarrow> A ! i \<noteq> []"
  shows "\<exists>st'. foldo (apply_one lines) (edit_at name n B A i) st = Some st'
    \<and> apply_invariant lines (Suc (n + i)) (made @ unwrap_or (nth_opt A i) []) st'"
proof -
  obtain src result where st: "st = (src, result)" by force
  with inv have src: "src \<le> n + i" and made: "result @ concat (slice src (n + i) lines) = made"
    by (auto simp: apply_invariant_def)
  have B: "nth_opt B i = Some (B ! i)" using lines by (simp add: nth_opt_def)
  define r where "r = unwrap_or (nth_opt A i) []"
  show ?thesis
  proof (cases "B ! i = r")
    case True
    then have "apply_invariant lines (Suc (n + i)) (made @ r) st"
      using src made lines by (auto simp: apply_invariant_def st slice_Suc_right)
    with True B show ?thesis by (auto simp: edit_at_def r_def)
  next
    case False
    have e: "edit_at name n B A i =
        [\<lparr>e_policy = policy_from_str_lossy name, e_line = n + i + 1, e_before = B ! i, e_after = r\<rparr>]"
      using False B by (simp add: edit_at_def r_def)
    have "apply_one lines (hd (edit_at name n B A i)) st = Some (Suc (n + i), made @ r)"
      using src made lines ne
      by (auto simp: e apply_one_def st copy_until_Some is_insertion_def is_deletion_def Let_def)
    then show ?thesis by (auto simp: e apply_invariant_def r_def)
  qed
qed

lemma apply_lines_upto:
  assumes lines: "lines = P @ B @ S" and ne: "\<forall>l \<in> set B \<union> set A. l \<noteq> []" and "i \<le> length B"
  shows "\<exists>st. foldo (apply_one lines) (concat (map (edit_at name (length P) B A) [0..<i])) (0, []) = Some st
    \<and> apply_invariant lines (length P + i) (concat (P @ take i A)) st"
  using \<open>i \<le> length B\<close>
proof (induction i)
  case 0
  then show ?case by (simp add: apply_invariant_def lines)
next
  case (Suc i)
  then obtain st where st: "foldo (apply_one lines)
        (concat (map (edit_at name (length P) B A) [0..<i])) (0, []) = Some st"
    and inv: "apply_invariant lines (length P + i) (concat (P @ take i A)) st"
    by auto
  have "\<exists>st'. foldo (apply_one lines) (edit_at name (length P) B A i) st = Some st'
    \<and> apply_invariant lines (Suc (length P + i))
        (concat (P @ take i A) @ unwrap_or (nth_opt A i) []) st'"
    by (rule apply_one_line [OF inv]) (use Suc.prems ne in \<open>auto simp: lines nth_append\<close>)
  moreover have "concat (P @ take i A) @ unwrap_or (nth_opt A i) [] = concat (P @ take (Suc i) A)"
    by (cases "i < length A") (auto simp: nth_opt_def take_Suc_conv_app_nth)
  ultimately show ?case using st by (auto simp: foldo_append)
qed

lemma sorted_synthesized:
  "sorted (map e_line (concat (map (edit_at name n B A) [0..<m])))"
proof (induction m)
  case (Suc m)
  have "e_line e \<le> n + m + 1" if "e \<in> set (concat (map (edit_at name n B A) [0..<m]))" for e
    using that by (auto dest!: edit_at_less)
  with Suc show ?case by (auto simp: sorted_append edit_at_def Let_def)
qed simp

lemma ordered_synthesized:
  "sort_key e_line (filter (\<lambda>e. 0 < e_line e) (concat (map (edit_at name n B A) [0..<m])))
     = concat (map (edit_at name n B A) [0..<m])"
proof -
  have "filter (\<lambda>e. 0 < e_line e) (concat (map (edit_at name n B A) [0..<m]))
      = concat (map (edit_at name n B A) [0..<m])"
    by (intro filter_True) (auto dest!: edit_at_less)
  then show ?thesis by (simp add: sort_key_id_if_sorted sorted_synthesized)
qed

lemma apply_synthesized_run:
  assumes "edits = concat (map (edit_at name n B A) [0..<m])"
    and "foldo (apply_one (lines_keep before)) edits (0, []) = Some (src, result)"
    and "result @ concat (drop src (lines_keep before)) = after"
  shows "apply_synthesized_edits before edits = Some after"
proof -
  have "sort_key e_line (filter (\<lambda>e. 0 < e_line e) edits) = edits"
    using assms(1) ordered_synthesized by simp
  moreover have "edits = [] \<Longrightarrow> before = after"
    using assms(2,3) by (simp add: lines_keep_concat)
  ultimately show ?thesis
    using assms(2,3) by (simp add: apply_synthesized_edits_def text_simps)
qed

text \<open>
  The round trip holds as long as the new text has at most one line more than the old one:
  then at most one of the synthesised edits is an insertion.
\<close>

lemma apply_synthesize:
  assumes "length (lines_keep after) \<le> length (lines_keep before) + 1"
  shows "apply_synthesized_edits before (synthesize_line_edits before after name) = Some after"
proof -
  obtain P B A S where b: "lines_keep before = P @ B @ S" and a: "lines_keep after = P @ A @ S"
    and e: "synthesize_line_edits before after name =
           concat (map (edit_at name (length P) B A) [0..<max (length B) (length A)])"
    by (rule synthesize_decomposition [of before after name])
  let ?lines = "lines_keep before" and ?n = "length P"
  have ne: "\<forall>l \<in> set B \<union> set A. l \<noteq> []"
  proof
    fix l assume "l \<in> set B \<union> set A"
    then have "l \<in> set (lines_keep before) \<or> l \<in> set (lines_keep after)"
      unfolding a b by auto
    then show "l \<noteq> []" using lines_keep_nonempty by blast
  qed
  obtain src result where st: "foldo (apply_one ?lines)
        (concat (map (edit_at name ?n B A) [0..<length B])) (0, []) = Some (src, result)"
    and src: "src \<le> ?n + length B"
    and made: "result @ concat (slice src (?n + length B) ?lines) = concat (P @ take (length B) A)"
    using apply_lines_upto [OF b ne order.refl] by (fastforce simp: apply_invariant_def)
  have finish: "concat (drop src ?lines) = concat (slice src (?n + length B) ?lines) @ concat S"
  proof -
    have "drop (?n + length B) ?lines = S" by (simp add: b)
    with slice_append_drop [OF src, of ?lines] show ?thesis by (metis concat_append)
  qed
  have after: "after = concat P @ concat A @ concat S"
    using a by (metis concat_append lines_keep_concat)
  have "length A \<le> length B + 1" using assms a b by simp
  then consider "length A \<le> length B" | "length A = Suc (length B)" by linarith
  then show ?thesis
  proof cases
    case 1
    then have "result @ concat (drop src ?lines) = after"
      using made finish after by simp
    with st 1 show ?thesis
      unfolding e by (intro apply_synthesized_run [OF refl]) (simp_all add: max_absorb1)
  next
    case 2
    let ?x = "A ! length B"
    have x: "?x \<noteq> []" and A: "take (length B) A @ [?x] = A"
      using ne 2 by (auto simp: take_Suc_conv_app_nth [symmetric])
    have "edit_at name ?n B A (length B) = [\<lparr>e_policy = policy_from_str_lossy name,
        e_line = ?n + length B + 1, e_before = [], e_after = ?x\<rparr>]"
      using x 2 by (simp add: edit_at_def nth_opt_def)
    then have "foldo (apply_one ?lines) (edit_at name ?n B A (length B)) (src, result)
        = Some (?n + length B, concat (P @ take (length B) A) @ ?x)"
      using src made x
      by (simp add: apply_one_def copy_until_Some b is_insertion_def Let_def flip: append_assoc)
    moreover have "drop (?n + length B) ?lines = S" by (simp add: b)
    moreover have "concat (P @ take (length B) A) @ ?x = concat P @ concat A"
      by (subst (2) A [symmetric]) simp
    ultimately have run: "foldo (apply_one ?lines)
        (concat (map (edit_at name ?n B A) [0..<Suc (length B)])) (0, [])
          = Some (?n + length B, concat P @ concat A)"
      using st by (simp add: foldo_append)
    have "(concat P @ concat A) @ concat (drop (?n + length B) ?lines) = after"
      by (simp add: b after)
    from apply_synthesized_run [OF refl run this] show ?thesis
      using 2 by (simp add: e max_absorb2 del: upt_Suc)
  qed
qed


section \<open>Lenient application\<close>

text \<open>
  On edits that keep the line count the lenient application follows the strict one: the
  offset stays 0 and both make the same steps.
\<close>

lemma lenient_one_follows:
  assumes "apply_one lines e (src, result) = Some (src', result')"
    and "\<not> is_insertion e" "\<not> is_deletion e"
  shows "lenient_one lines e (src, result, 0) = (src', result', 0)"
proof -
  have idx: "src \<le> e_line e - 1"
    using assms(1) by (auto simp: apply_one_def Let_def split: if_splits)
  have "e_line e - 1 \<le> length lines"
  proof (rule ccontr)
    assume far: "\<not> e_line e - 1 \<le> length lines"
    have "copy_until lines idx i r = None" if "length lines < idx" "i \<le> length lines" for idx i r
      using that
    proof (induction "length lines - i" arbitrary: i r)
      case 0
      then show ?case by (subst copy_until.simps) simp
    next
      case (Suc n)
      then show ?case by (subst copy_until.simps) simp
    qed
    moreover have "copy_until lines idx i r = None" if "length lines < i" "i < idx" for idx i r
      using that by (subst copy_until.simps) simp
    ultimately have "copy_until lines (e_line e - 1) src result = None \<or> src = e_line e - 1"
      using far idx by (metis linorder_not_le order_le_less)
    with assms far show False
      by (auto simp: apply_one_def Let_def copy_until.simps split: if_splits)
  qed
  with assms idx show ?thesis
    by (auto simp: apply_one_def lenient_one_def copy_until_Some copy_upto_def Let_def
        max_absorb2 min_absorb1 split: if_splits)
qed

lemma lenient_follows:
  assumes "foldo (apply_one lines) es (src, result) = Some (src', result')"
    and "\<forall>e \<in> set es. \<not> is_insertion e \<and> \<not> is_deletion e"
  shows "fold (lenient_one lines) es (src, result, 0) = (src', result', 0)"
  using assms
proof (induction es arbitrary: src result)
  case (Cons e es)
  then obtain s r where "apply_one lines e (src, result) = Some (s, r)"
    by (auto split: option.splits)
  with Cons show ?case by (auto simp: lenient_one_follows)
qed simp

text \<open>
  Policies record \<open>before\<close> without the line ending, while the lines compared here keep it: such
  an edit never matches.
\<close>

lemma lenient_unterminated:
  assumes "\<forall>l \<in> set lines. newline \<in> set l"
    and "\<forall>e \<in> set es. e_before e \<noteq> [] \<and> newline \<notin> set (e_before e)"
  shows "\<exists>n. fold (lenient_one lines) es (src, concat (take src lines), 0)
               = (n, concat (take n lines), 0)"
  using assms(2)
proof (induction es arbitrary: src)
  case (Cons e es)
  have no: "i < length lines \<Longrightarrow> lines ! i \<noteq> e_before e" for i
    using assms(1) Cons.prems by (metis list.set_intros(1) nth_mem)
  have "concat (take src lines) @ concat (slice src n lines) = concat (take n lines)" if "src \<le> n" for n
    using that by (metis concat_append le_add_diff_inverse slice_def take_add)
  then have "\<exists>n. lenient_one lines e (src, concat (take src lines), 0) = (n, concat (take n lines), 0)"
    using no [of "max src (e_line e - 1)"] Cons.prems
    by (cases "e_line e - 1 < length lines")
      (auto simp: lenient_one_def copy_upto_def is_insertion_def Let_def min_absorb1)
  with Cons show ?case by auto
qed simp

section \<open>Properties\<close>

text \<open>
  \<^bold>\<open>C38\<close>. Applying the synthesised edits to the old text gives the new text, whenever the new
  text has at most one line more than the old one (so for every rewriting that keeps or
  removes lines, in any mixture of replacements and deletions).
\<close>

theorem synthesize_roundtrip:
  assumes "length (split_lines_as_slices after True) \<le> length (split_lines_as_slices before True) + 1"
  shows "apply_synthesized_edits before (synthesize_line_edits before after policy_name) = Some after"
  using assms by (intro apply_synthesize) (simp add: text_simps)

theorem synthesize_roundtrip_witness:
  "apply_synthesized_edits ''ab'' (synthesize_line_edits ''ab'' ''c'' ''pragma_once'') = Some ''c''"
  by (rule synthesize_roundtrip) code_simp

text \<open>
  Beyond that bound the round trip fails on an ordinary rewriting: two lines inserted
  before the last one are numbered as if each insertion consumed a line of the old text, so
  the strict application puts the second one after the line that follows, and the lenient
  application drops it.
\<close>

theorem two_line_insertion_reordered:
  "let before = text_of [''a'', ''z'']; after = text_of [''a'', ''b'', ''c'', ''z''];
       edits = synthesize_line_edits before after ''p'' in
   map e_line edits = [2, 3]
   \<and> apply_synthesized_edits before edits = Some (text_of [''a'', ''b'', ''z'', ''c''])
   \<and> apply_edits_lenient before edits = Some (text_of [''a'', ''b'', ''z''])"
  by code_simp

text \<open>
  After \<open>normalize_edit_coverage\<close> the text is what the policy returned, and the
  recorded edits cover it: none for an unchanged text; for a changed one there are edits, and
  either applying them gives the text or they touch exactly the lines on which the two texts
  differ.
\<close>

theorem normalized_edits_cover:
  assumes "pr_changed result \<or> pr_text result \<noteq> []"
  shows "let r = normalize_edit_coverage policy_name before result in
     pr_text r = pr_text result \<and> pr_changed r = pr_changed result
     \<and> (if pr_text r = before then pr_edits r = []
        else pr_edits r \<noteq> []
          \<and> (apply_synthesized_edits before (pr_edits r) = Some (pr_text r)
             \<or> edit_lines (pr_edits r)
                 = edit_lines (synthesize_line_edits before (pr_text r) policy_name)))"
proof -
  let ?r = "normalize_edit_coverage policy_name before result"
  let ?syn = "synthesize_line_edits before (pr_text result) policy_name"
  have same: "edit_lines es = edit_lines fs"
    if "edit_lines fs \<subseteq> edit_lines es" "card (edit_lines es) = card (edit_lines fs)" for es fs
    using that by (metis card_subset_eq edit_lines_def finite_set)
  show ?thesis
  proof (cases "pr_text result = before")
    case True
    then show ?thesis
      using assms by (auto simp: normalize_edit_coverage_def text_simps Let_def)
  next
    case False
    then have "?syn \<noteq> []" by (metis synthesize_empty_iff)
    with False assms show ?thesis
      by (auto simp: normalize_edit_coverage_def text_simps Let_def dest: same)
  qed
qed

theorem normalized_edits_cover_witness:
  "let r = normalize_edit_coverage ''p'' ''a''
             \<lparr>pr_text = ''b'', pr_changed = True, pr_violations = [], pr_edits = [], pr_warnings = []\<rparr>
   in pr_edits r \<noteq> [] \<and> pr_text r = ''b''"
  using normalized_edits_cover
    [of "\<lparr>pr_text = ''b'', pr_changed = True, pr_violations = [], pr_edits = [], pr_warnings = []\<rparr>"
        "''p''" "''a''"]
  by (simp add: Let_def)

text \<open>
  On an old text whose lines are all terminated, edits recorded without their line
  ending leave the text as it is under the lenient application, which still reports success.
\<close>

theorem unterminated_edits_ignored:
  assumes "\<forall>l \<in> set (split_lines_as_slices before True). newline \<in> set l"
    and "\<forall>e \<in> set edits. e_before e \<noteq> [] \<and> newline \<notin> set (e_before e)"
  shows "apply_edits_lenient before edits = Some before"
proof -
  let ?es = "sort_key e_line (filter (\<lambda>e. 0 < e_line e) edits)"
  obtain n where "fold (lenient_one (lines_keep before)) ?es (0, [], 0)
      = (n, concat (take n (lines_keep before)), 0)"
    using lenient_unterminated [of "lines_keep before" ?es 0] assms by (auto simp: text_simps)
  then show ?thesis
    by (auto simp: apply_edits_lenient_def text_simps Let_def simp flip: concat_append)
qed

theorem unterminated_edits_ignored_witness:
  "apply_edits_lenient (text_of [''a''])
     [\<lparr>e_policy = policy_from_str_lossy ''p'', e_line = 1, e_before = ''a'', e_after = ''b''\<rparr>]
   = Some (text_of [''a''])"
  by (rule unterminated_edits_ignored) (simp_all add: text_simps)

end
