(* ===== verification/Catalog.thy ===== *)
theory Catalog
  imports Identifiers
begin

text \<open>
  \<^verbatim>\<open>src/src/engine/catalog.rs\<close>: what the pipeline knows about each policy, its
  capabilities, its convergence defaults and its behaviour, and the lookups by identifier and
  by name.  The hash map of the singleton is the list of entries it is built from; reaching
  the \<open>unreachable!\<close> arms of \<open>entry_for_known_policy\<close> is the value \<open>None\<close>.
\<close>

section \<open>Capabilities, convergence and behaviour\<close>

text \<open>\<open>ConvergenceRiskTier\<close> of \<^verbatim>\<open>src/src/engine/convergence.rs\<close>.\<close>

datatype convergence_risk_tier = Stabilizer | Balanced | Rewrite

definition zones_code_only :: "policy_zone list" where
  "zones_code_only = [Code]"

definition zones_code_and_preproc :: "policy_zone list" where
  "zones_code_and_preproc = [Code, Preprocessor]"

definition zones_all :: "policy_zone list" where
  "zones_all = [Code, Preprocessor, Comments]"

definition zones_comments_and_preproc :: "policy_zone list" where
  "zones_comments_and_preproc = [Comments, Preprocessor]"

record policy_capabilities =
  whitespace_safe :: bool
  structural_safe :: bool
  semantic_rewrite :: bool
  clang_invalidating :: bool
  macro_sensitive :: bool
  allowed_zones :: "policy_zone list"
  cap_risk_tier :: candidate_risk_tier

definition allows_zone :: "policy_capabilities \<Rightarrow> policy_zone \<Rightarrow> bool" where
  "allows_zone c zone \<longleftrightarrow> zone \<in> set (allowed_zones c)"

record policy_convergence_defaults =
  cd_domain :: rstr
  cd_priority :: nat
  cd_impact_radius :: nat
  cd_priority_weight_bp :: nat
  cd_risk_tier :: convergence_risk_tier

record policy_behavior =
  needs_exact_compdb :: bool
  keeps_nonlocal_batch :: bool
  advisory_on_retry :: bool
  hard_invariant :: bool
  bypasses_conflict :: bool
  execution_priority :: nat

record policy_convergence_template =
  ct_priority :: nat
  ct_impact_radius :: nat
  ct_priority_weight_bp :: nat
  ct_risk_tier :: convergence_risk_tier

definition convergence_template_default :: policy_convergence_template where
  "convergence_template_default =
     \<lparr>ct_priority = 700, ct_impact_radius = 0, ct_priority_weight_bp = 240, ct_risk_tier = Balanced\<rparr>"

definition policy_behavior_default :: policy_behavior where
  "policy_behavior_default =
     \<lparr>needs_exact_compdb = False, keeps_nonlocal_batch = False, advisory_on_retry = False,
      hard_invariant = False, bypasses_conflict = False, execution_priority = 80\<rparr>"

record policy_catalog_entry =
  ce_name :: rstr
  ce_capabilities :: policy_capabilities
  ce_convergence :: policy_convergence_template
  ce_behavior :: policy_behavior

section \<open>The entry of a known policy\<close>

definition caps :: "bool \<Rightarrow> bool \<Rightarrow> bool \<Rightarrow> bool \<Rightarrow> bool \<Rightarrow> policy_zone list \<Rightarrow> candidate_risk_tier
    \<Rightarrow> policy_capabilities" where
  "caps ws ss sr ci ms zones tier =
     \<lparr>whitespace_safe = ws, structural_safe = ss, semantic_rewrite = sr, clang_invalidating = ci,
      macro_sensitive = ms, allowed_zones = zones, cap_risk_tier = tier\<rparr>"

fun entry_capabilities :: "policy_id \<Rightarrow> policy_capabilities option" where
  "entry_capabilities DashCommentNormalizer =
     Some (caps True True False False False zones_comments_and_preproc Low)"
| "entry_capabilities SectionTitleNormalizer =
     Some (caps True True False False False zones_comments_and_preproc Low)"
| "entry_capabilities PragmaOnceSpacing =
     Some (caps False True False False True zones_code_and_preproc Medium)"
| "entry_capabilities IncludeOrder =
     Some (caps False True False False True zones_code_and_preproc Medium)"
| "entry_capabilities IncludeGuards =
     Some (caps False True False False True zones_code_and_preproc Medium)"
| "entry_capabilities LuaMacroSpacing =
     Some (caps False True False False True zones_code_and_preproc Medium)"
| "entry_capabilities ClangFormat =
     Some (caps False True False False True zones_all Medium)"
| "entry_capabilities ClassLayout =
     Some (caps False True False False True zones_code_only Medium)"
| "entry_capabilities NamespaceEndComments =
     Some (caps False True False False True zones_code_only Medium)"
| "entry_capabilities CompactDeclarations =
     Some (caps False True False False True zones_code_only Medium)"
| "entry_capabilities LogicalKeywordOperators =
     Some (caps False True False False True zones_code_only Medium)"
| "entry_capabilities NamingConventions =
     Some (caps False False True False True zones_code_only High)"
| "entry_capabilities SnakeCase =
     Some (caps False False True False True zones_code_only High)"
| "entry_capabilities OperatorOverloadSpacing =
     Some (caps False False True False True zones_code_only High)"
| "entry_capabilities FunctionVoidParams =
     Some (caps False False True True True zones_code_only High)"
| "entry_capabilities NumericLiteralSuffix =
     Some (caps False True False False True zones_code_only Medium)"
| "entry_capabilities DeclarationAlignment =
     Some (caps True True False False False zones_code_only Low)"
| "entry_capabilities (Unknown _) = None"

definition entry_convergence :: "policy_id \<Rightarrow> policy_convergence_template" where
  "entry_convergence p =
     \<lparr>ct_priority =
        (case p of ClangFormat \<Rightarrow> 1000 | DeclarationAlignment \<Rightarrow> 950
         | SectionTitleNormalizer \<Rightarrow> 930 | IncludeOrder \<Rightarrow> 900 | PragmaOnceSpacing \<Rightarrow> 860
         | _ \<Rightarrow> 700),
      ct_impact_radius =
        (case p of ClangFormat \<Rightarrow> 2 | IncludeOrder \<Rightarrow> 2 | SectionTitleNormalizer \<Rightarrow> 1 | _ \<Rightarrow> 0),
      ct_priority_weight_bp =
        (case p of NamingConventions \<Rightarrow> 420 | FunctionVoidParams \<Rightarrow> 300 | _ \<Rightarrow> 240),
      ct_risk_tier =
        (case p of ClangFormat \<Rightarrow> Stabilizer | IncludeOrder \<Rightarrow> Stabilizer
         | SectionTitleNormalizer \<Rightarrow> Stabilizer | PragmaOnceSpacing \<Rightarrow> Stabilizer
         | NamespaceEndComments \<Rightarrow> Stabilizer | DashCommentNormalizer \<Rightarrow> Stabilizer
         | DeclarationAlignment \<Rightarrow> Stabilizer
         | NamingConventions \<Rightarrow> Rewrite | SnakeCase \<Rightarrow> Rewrite | FunctionVoidParams \<Rightarrow> Rewrite
         | LogicalKeywordOperators \<Rightarrow> Rewrite
         | _ \<Rightarrow> Balanced)\<rparr>"

definition entry_behavior :: "policy_id \<Rightarrow> policy_behavior" where
  "entry_behavior p =
     \<lparr>needs_exact_compdb =
        p \<in> {ClangFormat, IncludeOrder, ClassLayout, CompactDeclarations, DashCommentNormalizer},
      keeps_nonlocal_batch = (p = ClangFormat),
      advisory_on_retry = (p = ClangFormat),
      hard_invariant = False,
      bypasses_conflict = p \<in> {NumericLiteralSuffix, ClangFormat, DeclarationAlignment},
      execution_priority =
        (case p of NamingConventions \<Rightarrow> 10
         | SnakeCase \<Rightarrow> 20 | FunctionVoidParams \<Rightarrow> 20 | LogicalKeywordOperators \<Rightarrow> 20
         | OperatorOverloadSpacing \<Rightarrow> 20
         | PragmaOnceSpacing \<Rightarrow> 40 | IncludeGuards \<Rightarrow> 40 | IncludeOrder \<Rightarrow> 40
         | LuaMacroSpacing \<Rightarrow> 40
         | CompactDeclarations \<Rightarrow> 60 | ClassLayout \<Rightarrow> 60 | NamespaceEndComments \<Rightarrow> 60
         | DashCommentNormalizer \<Rightarrow> 70 | SectionTitleNormalizer \<Rightarrow> 70
         | NumericLiteralSuffix \<Rightarrow> 80
         | DeclarationAlignment \<Rightarrow> 85
         | ClangFormat \<Rightarrow> 90
         | Unknown _ \<Rightarrow> 80)\<rparr>"

text \<open>The \<open>name\<close> match of the source: the serialised name, nothing for an unknown policy.\<close>

definition entry_for_known_policy :: "policy_id \<Rightarrow> policy_catalog_entry option" where
  "entry_for_known_policy p =
     (case p of
        Unknown _ \<Rightarrow> None
      | _ \<Rightarrow>
          (case entry_capabilities p of
             None \<Rightarrow> None
           | Some c \<Rightarrow>
               Some \<lparr>ce_name = policy_as_str p, ce_capabilities = c,
                     ce_convergence = entry_convergence p, ce_behavior = entry_behavior p\<rparr>))"

section \<open>The catalog and its lookups\<close>

record policy_catalog =
  known_policies :: "(policy_id \<times> policy_catalog_entry) list"
  default_capabilities :: policy_capabilities
  default_convergence :: policy_convergence_template
  default_behavior :: policy_behavior

definition known_policy_ids :: "policy_id list" where
  "known_policy_ids =
     [DashCommentNormalizer, SectionTitleNormalizer, CompactDeclarations, ClassLayout,
      LuaMacroSpacing, NamespaceEndComments, PragmaOnceSpacing, IncludeGuards, IncludeOrder,
      LogicalKeywordOperators, FunctionVoidParams, OperatorOverloadSpacing, ClangFormat,
      NamingConventions, SnakeCase, NumericLiteralSuffix, DeclarationAlignment]"

text \<open>\<open>build\<close>: \<open>None\<close> when some entry cannot be built.\<close>

definition build_catalog :: "policy_catalog option" where
  "build_catalog =
     (case foldo (\<lambda>pid known. map_option (\<lambda>e. (pid, e) # known) (entry_for_known_policy pid))
            known_policy_ids [] of
        None \<Rightarrow> None
      | Some known \<Rightarrow>
          Some \<lparr>known_policies = known,
                default_capabilities = caps False True False False True zones_code_only Medium,
                default_convergence = convergence_template_default,
                default_behavior = policy_behavior_default\<rparr>)"

text \<open>The singleton: the catalog that \<open>build\<close> makes.\<close>

definition policy_catalog :: policy_catalog where
  "policy_catalog = the build_catalog"

definition lookup_known :: "policy_catalog \<Rightarrow> policy_id \<Rightarrow> policy_catalog_entry option" where
  "lookup_known c pid = map_of (known_policies c) pid"

definition capabilities :: "policy_catalog \<Rightarrow> policy_id \<Rightarrow> policy_capabilities" where
  "capabilities c pid = unwrap_or (map_option ce_capabilities (lookup_known c pid)) (default_capabilities c)"

definition capabilities_by_name :: "policy_catalog \<Rightarrow> rstr \<Rightarrow> policy_capabilities" where
  "capabilities_by_name c name = capabilities c (policy_from_str_lossy name)"

definition convergence_defaults :: "policy_catalog \<Rightarrow> policy_id \<Rightarrow> policy_convergence_defaults" where
  "convergence_defaults c pid =
     (case lookup_known c pid of
        Some entry \<Rightarrow>
          \<lparr>cd_domain = ce_name entry,
           cd_priority = ct_priority (ce_convergence entry),
           cd_impact_radius = ct_impact_radius (ce_convergence entry),
           cd_priority_weight_bp = ct_priority_weight_bp (ce_convergence entry),
           cd_risk_tier = ct_risk_tier (ce_convergence entry)\<rparr>
      | None \<Rightarrow>
          \<lparr>cd_domain = policy_as_str pid,
           cd_priority = ct_priority (default_convergence c),
           cd_impact_radius = ct_impact_radius (default_convergence c),
           cd_priority_weight_bp = ct_priority_weight_bp (default_convergence c),
           cd_risk_tier = ct_risk_tier (default_convergence c)\<rparr>)"

definition convergence_by_name :: "policy_catalog \<Rightarrow> rstr \<Rightarrow> policy_convergence_defaults" where
  "convergence_by_name c name = convergence_defaults c (policy_from_str_lossy name)"

definition behavior :: "policy_catalog \<Rightarrow> policy_id \<Rightarrow> policy_behavior" where
  "behavior c pid = unwrap_or (map_option ce_behavior (lookup_known c pid)) (default_behavior c)"

definition behavior_by_name :: "policy_catalog \<Rightarrow> rstr \<Rightarrow> policy_behavior" where
  "behavior_by_name c name = behavior c (policy_from_str_lossy name)"

definition bypasses_line_conflict :: "policy_catalog \<Rightarrow> rstr \<Rightarrow> bool" where
  "bypasses_line_conflict c policy_name = bypasses_conflict (behavior_by_name c policy_name)"

definition is_semantic_rewrite :: "policy_catalog \<Rightarrow> rstr \<Rightarrow> bool" where
  "is_semantic_rewrite c policy_name = semantic_rewrite (capabilities_by_name c policy_name)"


section \<open>Properties of the catalog\<close>

lemma entry_for_known: "\<forall>v. p \<noteq> Unknown v \<Longrightarrow> \<exists>e. entry_for_known_policy p = Some e"
  by (cases p) (simp_all add: entry_for_known_policy_def)

text \<open>Building succeeds, so the singleton is the catalog of all entries.\<close>

lemma build_catalog_Some: "build_catalog = Some policy_catalog"
proof -
  have "build_catalog \<noteq> None"
    by (simp add: build_catalog_def known_policy_ids_def entry_for_known_policy_def)
  then show ?thesis by (auto simp: policy_catalog_def)
qed

lemma lookup_known_catalog: "lookup_known policy_catalog p = entry_for_known_policy p"
  by (cases p)
    (simp_all add: policy_catalog_def build_catalog_def known_policy_ids_def lookup_known_def
      entry_for_known_policy_def)

lemma catalog_defaults:
  "default_capabilities policy_catalog = caps False True False False True zones_code_only Medium"
  "default_convergence policy_catalog = convergence_template_default"
  "default_behavior policy_catalog = policy_behavior_default"
  by (simp_all add: policy_catalog_def build_catalog_def known_policy_ids_def
      entry_for_known_policy_def)

lemma capabilities_catalog:
  "capabilities policy_catalog p =
     unwrap_or (entry_capabilities p) (caps False True False False True zones_code_only Medium)"
  by (cases p) (simp_all add: capabilities_def lookup_known_catalog catalog_defaults
      entry_for_known_policy_def)

lemma behavior_catalog:
  "behavior policy_catalog p =
     (case p of Unknown _ \<Rightarrow> policy_behavior_default | _ \<Rightarrow> entry_behavior p)"
  by (cases p) (simp_all add: behavior_def lookup_known_catalog catalog_defaults
      entry_for_known_policy_def)

lemma convergence_defaults_catalog:
  "cd_priority (convergence_defaults policy_catalog p) =
     (case p of Unknown _ \<Rightarrow> 700 | _ \<Rightarrow> ct_priority (entry_convergence p))"
  "cd_domain (convergence_defaults policy_catalog p) = policy_as_str p"
  by (cases p; simp add: convergence_defaults_def lookup_known_catalog catalog_defaults
      entry_for_known_policy_def convergence_template_default_def)+

text \<open>
  The catalog is complete and keeps its classes apart: building it meets no
  unreachable arm, a policy that rewrites semantics is never structurally safe and carries
  the highest risk tier, only such a policy invalidates the clang parse, and every policy
  is allowed in some zone.
\<close>

theorem catalog_wellformed:
  "build_catalog = Some policy_catalog
   \<and> (semantic_rewrite (capabilities policy_catalog p) \<longleftrightarrow>
        \<not> structural_safe (capabilities policy_catalog p))
   \<and> (semantic_rewrite (capabilities policy_catalog p) \<longleftrightarrow>
        cap_risk_tier (capabilities policy_catalog p) = High)
   \<and> \<not> (clang_invalidating (capabilities policy_catalog p)
          \<and> \<not> semantic_rewrite (capabilities policy_catalog p))
   \<and> allowed_zones (capabilities policy_catalog p) \<noteq> []"
proof -
  have "allowed_zones (capabilities policy_catalog p) \<noteq> []"
    by (cases p) (simp_all add: capabilities_catalog caps_def zones_code_only_def
        zones_code_and_preproc_def zones_all_def zones_comments_and_preproc_def)
  moreover have "semantic_rewrite (capabilities policy_catalog p) \<longleftrightarrow>
        \<not> structural_safe (capabilities policy_catalog p)"
    by (cases p) (simp_all add: capabilities_catalog caps_def)
  moreover have "semantic_rewrite (capabilities policy_catalog p) \<longleftrightarrow>
        cap_risk_tier (capabilities policy_catalog p) = High"
    by (cases p) (simp_all add: capabilities_catalog caps_def)
  moreover have "\<not> (clang_invalidating (capabilities policy_catalog p)
          \<and> \<not> semantic_rewrite (capabilities policy_catalog p))"
    by (cases p) (simp_all add: capabilities_catalog caps_def)
  ultimately show ?thesis by (simp add: build_catalog_Some)
qed

text \<open>
  Execution order and conflict priority: \<^verbatim>\<open>naming_conventions\<close> runs strictly before and
  \<^verbatim>\<open>clang_format\<close> strictly after every other policy, and \<^verbatim>\<open>clang_format\<close> has the strictly
  greatest convergence priority, so it wins every contested line.
\<close>

theorem catalog_order:
  "(p = NamingConventions \<or>
      execution_priority (behavior policy_catalog NamingConventions)
        < execution_priority (behavior policy_catalog p))
   \<and> (p = ClangFormat \<or>
      execution_priority (behavior policy_catalog p)
        < execution_priority (behavior policy_catalog ClangFormat))
   \<and> (p = ClangFormat \<or>
      cd_priority (convergence_defaults policy_catalog p)
        < cd_priority (convergence_defaults policy_catalog ClangFormat))"
  by (cases p) (simp_all add: behavior_catalog convergence_defaults_catalog entry_behavior_def
      entry_convergence_def policy_behavior_default_def)

end
