(* ===== verification/Line_Suppression.thy ===== *)
theory Line_Suppression
  imports Edit_Utils Catalog
begin

text \<open>
  \<^verbatim>\<open>src/src/engine/pipeline/suppression.rs\<close>: taking a policy's changes back on a set of lines.
  \<open>suppress_lines_impl\<close> drops the edits and violations of the disabled lines and restores
  their text; \<open>apply_scope_filter\<close> does so for the lines outside the scope of a retry.
  A \<open>BTreeSet<usize>\<close> is a finite set of \<open>nat\<close>.
\<close>

section \<open>Suppressing lines\<close>

definition line_touched :: "rstr list \<Rightarrow> rstr list \<Rightarrow> nat \<Rightarrow> bool" where
  "line_touched before_lines after_lines line_no =
     (let index = line_no - 1; max_count = min (length before_lines) (length after_lines) in
      if index < max_count then \<not> slices_equal (before_lines ! index) (after_lines ! index)
      else if index < length before_lines then True
      else index < length after_lines)"

definition restore_lines :: "rstr list \<Rightarrow> nat set \<Rightarrow> rstr list \<Rightarrow> rstr list" where
  "restore_lines before_lines disabled_lines after_lines =
     fold (\<lambda>line_no after_lines.
       let index = line_no - 1 in
       if index < min (length before_lines) (length after_lines)
       then after_lines[index := before_lines ! index] else after_lines)
     (sorted_list_of_set disabled_lines) after_lines"

definition rollback_warning :: rstr where
  "rollback_warning = ''line suppression escalated to full rollback due non-local line edits''"

definition suppress_nonlocal ::
    "rstr \<Rightarrow> policy_result \<Rightarrow> nat set \<Rightarrow> violation list \<Rightarrow> edit list \<Rightarrow> policy_result" where
  "suppress_nonlocal before_text result disabled_lines kept_violations kept_edits =
     (let synthesized_policy = (case kept_edits of [] \<Rightarrow> ''line_suppression_guard''
                                | e # _ \<Rightarrow> policy_as_str (e_policy e));
          synthesized = synthesize_line_edits before_text (pr_text result) synthesized_policy;
          filtered = filter (\<lambda>e. e_line e \<notin> disabled_lines) synthesized;
          full_rollback = \<lparr>pr_text = before_text, pr_changed = False,
            pr_violations = kept_violations, pr_edits = [],
            pr_warnings = pr_warnings result @ [rollback_warning]\<rparr>
      in case (case apply_synthesized_edits before_text filtered of
                 Some t \<Rightarrow> Some t | None \<Rightarrow> apply_edits_lenient before_text filtered) of
           None \<Rightarrow> full_rollback
         | Some adjusted_text \<Rightarrow>
             let synthesized = synthesize_line_edits before_text adjusted_text synthesized_policy in
             if \<not> (\<exists>e \<in> set synthesized. e_line e \<in> disabled_lines)
             then \<lparr>pr_text = adjusted_text, pr_changed = True, pr_violations = kept_violations,
                    pr_edits = synthesized,
                    pr_warnings = pr_warnings result @
                      [''line suppression applied best-effort non-local rollback for ''
                        @ nat_to_string (card disabled_lines) @ '' blocked line(s)'']\<rparr>
             else full_rollback)"

definition suppress_lines_impl :: "rstr \<Rightarrow> policy_result \<Rightarrow> nat set \<Rightarrow> policy_result" where
  "suppress_lines_impl before_text result disabled_lines =
     (if disabled_lines = {} then result
      else
        let kept_violations = filter (\<lambda>v. v_line v \<notin> disabled_lines) (pr_violations result);
            kept_edits = filter (\<lambda>e. e_line e \<notin> disabled_lines) (pr_edits result);
            before_lines = split_lines_as_slices before_text True;
            after_lines = split_lines_as_slices (pr_text result) True
        in if \<not> (\<exists>line_no \<in> disabled_lines. line_touched before_lines after_lines line_no)
           then \<lparr>pr_text = pr_text result, pr_changed = True, pr_violations = kept_violations,
                  pr_edits = kept_edits, pr_warnings = pr_warnings result\<rparr>
           else if length before_lines \<noteq> length after_lines
           then suppress_nonlocal before_text result disabled_lines kept_violations kept_edits
           else if kept_edits = []
           then \<lparr>pr_text = before_text, pr_changed = False, pr_violations = kept_violations,
                  pr_edits = kept_edits, pr_warnings = pr_warnings result\<rparr>
           else \<lparr>pr_text = concat (restore_lines before_lines disabled_lines after_lines),
                  pr_changed = True, pr_violations = kept_violations, pr_edits = kept_edits,
                  pr_warnings = pr_warnings result\<rparr>)"

definition apply_line_suppression :: "rstr \<Rightarrow> policy_result \<Rightarrow> nat set \<Rightarrow> policy_result" where
  "apply_line_suppression before_text result disabled_lines =
     suppress_lines_impl before_text result disabled_lines"

definition suppress_structural :: "rstr \<Rightarrow> policy_result \<Rightarrow> nat set \<Rightarrow> policy_result" where
  "suppress_structural before_text result disabled_lines =
     suppress_lines_impl before_text result disabled_lines"

section \<open>The scope of a retry\<close>

record scope_filter_config =
  sf_policy_name :: rstr
  sf_scope_stage :: rstr
  sf_capability :: policy_capabilities

definition apply_scope_filter ::
    "rstr \<Rightarrow> policy_result \<Rightarrow> nat set option \<Rightarrow> scope_filter_config \<Rightarrow> policy_result" where
  "apply_scope_filter before_text result allowed config =
     (case allowed of
        None \<Rightarrow> result
      | Some allowed_lines \<Rightarrow>
          if allowed_lines = {} \<or> pr_edits result = [] then result
          else
            let blocked_lines = set (map e_line
                  (filter (\<lambda>e. effective e \<and> e_line e \<notin> allowed_lines) (pr_edits result)))
            in if blocked_lines = {} then result
               else
                 let dropped = nat_to_string (card blocked_lines);
                     tag = ''retry_scope('' @ sf_scope_stage config @ '')''
                 in if semantic_rewrite (sf_capability config)
                    then result\<lparr>pr_text := before_text, pr_edits := [],
                      pr_warnings := pr_warnings result @
                        [tag @ '' reverted semantic rewrite for '' @ [quote_char] @ sf_policy_name config
                         @ [quote_char] @ '' because '' @ dropped
                         @ '' out-of-scope line(s) were required'']\<rparr>
                    else
                      let filtered =
                        (if structural_safe (sf_capability config)
                         then suppress_structural before_text result blocked_lines
                         else apply_line_suppression before_text result blocked_lines)
                      in filtered\<lparr>pr_warnings := pr_warnings filtered @
                        [tag @ '' dropped '' @ dropped @ '' out-of-scope line(s) for ''
                         @ [quote_char] @ sf_policy_name config @ [quote_char]]\<rparr>)"

section \<open>Lists of lines\<close>

text \<open>
  The lists \<open>split_lines_as_slices\<close> makes: every line but the last is terminated, the last one
  may lack its terminator but is not empty.
\<close>

definition full_line :: "rstr \<Rightarrow> bool" where
  "full_line l \<longleftrightarrow> (\<exists>t. l = t @ [newline] \<and> newline \<notin> set t)"

definition part_line :: "rstr \<Rightarrow> bool" where
  "part_line l \<longleftrightarrow> l \<noteq> [] \<and> newline \<notin> set l"

definition line_list :: "rstr list \<Rightarrow> bool" where
  "line_list ls \<longleftrightarrow>
     (\<forall>i < length ls. full_line (ls ! i) \<or> (Suc i = length ls \<and> part_line (ls ! i)))"

lemma line_list_simps [simp]:
  "line_list []"
  "line_list (l # ls) \<longleftrightarrow> (full_line l \<or> ls = [] \<and> part_line l) \<and> line_list ls"
  by (auto simp: line_list_def nth_Cons less_Suc_eq_0_disj split: nat.splits)

lemma line_list_append_full:
  "\<forall>l \<in> set xs. full_line l \<Longrightarrow> line_list ys \<Longrightarrow> line_list (xs @ ys)"
  by (induction xs) auto

lemma line_list_lines_keep: "line_list (lines_keep s)"
proof -
  obtain ls t where c: "complete_lines s = (ls, t)" by force
  with complete_lines_end [OF c] line_list_append_full [of ls "[]"] line_list_append_full [of ls "[t]"]
  show ?thesis by (auto simp: lines_keep_complete full_line_def part_line_def)
qed

lemma lines_keep_line_list: "line_list ls \<Longrightarrow> lines_keep (concat ls) = ls"
proof (induction ls)
  case (Cons l ls)
  show ?case
  proof (cases "full_line l")
    case True
    with Cons show ?thesis
      by (auto simp: full_line_def lines_keep_append_newline lines_keep_single
          simp flip: append_assoc)
  next
    case False
    with Cons show ?thesis by (auto simp: part_line_def lines_keep_single)
  qed
qed simp

lemma line_list_mix:
  assumes "line_list xs" "line_list ys" "length zs = length xs" "length ys = length xs"
    and "\<forall>i < length zs. zs ! i \<in> {xs ! i, ys ! i}"
  shows "line_list zs"
  unfolding line_list_def
proof (intro allI impI)
  fix i assume "i < length zs"
  with assms show "full_line (zs ! i) \<or> (Suc i = length zs \<and> part_line (zs ! i))"
    unfolding line_list_def by (metis insertE singletonD)
qed

section \<open>Restoring lines\<close>

lemma restore_lines_spec:
  assumes "finite D"
  shows "length (restore_lines bl D al) = length al"
    and "i < length al \<Longrightarrow> restore_lines bl D al ! i =
           (if i < length bl \<and> (\<exists>n \<in> D. n - 1 = i) then bl ! i else al ! i)"
proof -
  let ?step = "\<lambda>line_no after_lines. let index = line_no - 1 in
       if index < min (length bl) (length after_lines)
       then after_lines[index := bl ! index] else after_lines"
  have *: "length (fold ?step ns al) = length al \<and>
      (\<forall>i < length al. fold ?step ns al ! i =
         (if i < length bl \<and> (\<exists>n \<in> set ns. n - 1 = i) then bl ! i else al ! i))" for ns
    by (induction ns arbitrary: al) (auto simp: Let_def nth_list_update)
  show "length (restore_lines bl D al) = length al"
    using * by (simp add: restore_lines_def)
  show "i < length al \<Longrightarrow> restore_lines bl D al ! i =
           (if i < length bl \<and> (\<exists>n \<in> D. n - 1 = i) then bl ! i else al ! i)"
    using * [of "sorted_list_of_set D"] assms by (simp add: restore_lines_def)
qed

lemma lines_keep_restored:
  assumes "finite D" "length (lines_keep a) = length (lines_keep b)"
  shows "lines_keep (concat (restore_lines (lines_keep b) D (lines_keep a)))
    = restore_lines (lines_keep b) D (lines_keep a)"
proof (rule lines_keep_line_list, rule line_list_mix)
  show "line_list (lines_keep a)" "line_list (lines_keep b)" by (rule line_list_lines_keep)+
qed (use assms in \<open>auto simp: restore_lines_spec\<close>)

section \<open>What suppression keeps\<close>

definition line_kept :: "rstr list \<Rightarrow> rstr list \<Rightarrow> nat \<Rightarrow> bool" where
  "line_kept old new n \<longleftrightarrow> old ! (n - 1) \<in> set new
     \<and> (length new = length old \<longrightarrow> new ! (n - 1) = old ! (n - 1))"

lemma line_kept_refl: "0 < n \<Longrightarrow> n \<le> length ls \<Longrightarrow> line_kept ls ls n"
  by (auto simp: line_kept_def)

lemma untouched_line_kept:
  "\<not> line_touched old new n \<Longrightarrow> 0 < n \<Longrightarrow> n \<le> length old \<Longrightarrow> line_kept old new n"
  by (auto simp: line_touched_def line_kept_def text_simps Let_def split: if_splits)

text \<open>A line of the old text without a synthesised edit is in the new text as it was.\<close>

lemma unedited_line_kept:
  assumes "\<forall>e \<in> set (synthesize_line_edits before after name). e_line e \<noteq> n"
    and "0 < n" "n \<le> length (lines_keep before)"
  shows "line_kept (lines_keep before) (lines_keep after) n"
proof -
  obtain P B A S where b: "lines_keep before = P @ B @ S" and a: "lines_keep after = P @ A @ S"
    and e: "synthesize_line_edits before after name =
           concat (map (edit_at name (length P) B A) [0..<max (length B) (length A)])"
    by (rule synthesize_decomposition [of before after name])
  show ?thesis
  proof (cases "length P \<le> n - 1 \<and> n - 1 < length P + length B")
    case True
    define i where "i = n - 1 - length P"
    have i: "i < length B" "n = length P + i + 1" using True assms(2) by (auto simp: i_def)
    have "B ! i \<noteq> []"
      using lines_keep_nonempty [of "B ! i" before] i by (auto simp: b)
    moreover have "\<forall>e \<in> set (edit_at name (length P) B A i). e_line e \<noteq> n"
      using assms(1) i by (auto simp: e)
    ultimately have "i < length A \<and> A ! i = B ! i"
      using i by (auto simp: edit_at_def nth_opt_def Let_def unwrap_or_def split: if_splits)
    with i show ?thesis by (auto simp: line_kept_def a b nth_append) (metis nth_mem)
  next
    case False
    with assms(2,3) show ?thesis by (auto simp: line_kept_def a b nth_append)
  qed
qed

lemma suppress_nonlocal_violations:
  "pr_violations (suppress_nonlocal before result D vs es) = vs"
  unfolding suppress_nonlocal_def Let_def by (simp split: option.split)

lemma suppress_nonlocal_cases:
  fixes before result D vs es
  defines "r \<equiv> suppress_nonlocal before result D vs es"
  shows "(pr_text r = before \<and> \<not> pr_changed r \<and> pr_edits r = [])
    \<or> (\<exists>name. pr_changed r \<and> pr_edits r = synthesize_line_edits before (pr_text r) name
         \<and> (\<forall>e \<in> set (pr_edits r). e_line e \<notin> D))"
  unfolding r_def suppress_nonlocal_def Let_def
  by (split option.split, intro conjI allI impI) (auto simp del: split_paired_Ex)

lemma suppress_cases:
  assumes "finite D" "D \<noteq> {}"
  obtains
    (untouched) "\<forall>n \<in> D. \<not> line_touched (lines_keep before) (lines_keep (pr_text result)) n"
      "pr_text (suppress_lines_impl before result D) = pr_text result"
      "pr_changed (suppress_lines_impl before result D)"
      "pr_edits (suppress_lines_impl before result D) = filter (\<lambda>e. e_line e \<notin> D) (pr_edits result)"
  | (rollback) "pr_text (suppress_lines_impl before result D) = before"
      "\<not> pr_changed (suppress_lines_impl before result D)"
      "pr_edits (suppress_lines_impl before result D) = []"
  | (nonlocal) name where "length (lines_keep before) \<noteq> length (lines_keep (pr_text result))"
      "pr_changed (suppress_lines_impl before result D)"
      "pr_edits (suppress_lines_impl before result D) =
         synthesize_line_edits before (pr_text (suppress_lines_impl before result D)) name"
      "\<forall>e \<in> set (pr_edits (suppress_lines_impl before result D)). e_line e \<notin> D"
  | (restored) "length (lines_keep (pr_text result)) = length (lines_keep before)"
      "pr_text (suppress_lines_impl before result D) =
         concat (restore_lines (lines_keep before) D (lines_keep (pr_text result)))"
      "pr_changed (suppress_lines_impl before result D)"
      "pr_edits (suppress_lines_impl before result D) = filter (\<lambda>e. e_line e \<notin> D) (pr_edits result)"
proof -
  let ?r = "suppress_lines_impl before result D"
  let ?kept = "filter (\<lambda>e. e_line e \<notin> D) (pr_edits result)"
  let ?bl = "lines_keep before" and ?al = "lines_keep (pr_text result)"
  consider "\<forall>n \<in> D. \<not> line_touched ?bl ?al n"
    | "\<exists>n \<in> D. line_touched ?bl ?al n" "length ?bl \<noteq> length ?al"
    | "\<exists>n \<in> D. line_touched ?bl ?al n" "length ?bl = length ?al" "?kept = []"
    | "\<exists>n \<in> D. line_touched ?bl ?al n" "length ?bl = length ?al" "?kept \<noteq> []"
    by blast
  then show ?thesis
  proof cases
    case 1
    with assms show ?thesis
      by (intro untouched) (simp_all add: suppress_lines_impl_def text_simps Let_def)
  next
    case 2
    with assms have r: "?r = suppress_nonlocal before result D
        (filter (\<lambda>v. v_line v \<notin> D) (pr_violations result)) ?kept"
      by (auto simp: suppress_lines_impl_def text_simps Let_def)
    from suppress_nonlocal_cases [of before result D _ ?kept, folded r] rollback nonlocal [OF 2(2)]
    show ?thesis unfolding r by blast
  next
    case 3
    with assms show ?thesis
      by (intro rollback) (auto simp: suppress_lines_impl_def text_simps Let_def)
  next
    case 4
    with assms show ?thesis
      by (intro restored) (auto simp: suppress_lines_impl_def text_simps Let_def)
  qed
qed

lemma suppressed_violations:
  "D \<noteq> {} \<Longrightarrow> pr_violations (suppress_lines_impl before result D)
     = filter (\<lambda>v. v_line v \<notin> D) (pr_violations result)"
  by (simp add: suppress_lines_impl_def suppress_nonlocal_violations Let_def)

section \<open>The contract of a suppressor\<close>

text \<open>
  The pipeline and the convergence controller each have an implementation of line suppression.
  What their callers rely on is the same: nothing is left on the lines, and an unchanged result
  is the old text.
\<close>

locale line_suppressor =
  fixes suppress :: "rstr \<Rightarrow> policy_result \<Rightarrow> nat set \<Rightarrow> policy_result"
  assumes edits_off: "finite D \<Longrightarrow> D \<noteq> {} \<Longrightarrow> e \<in> set (pr_edits (suppress before result D)) \<Longrightarrow> e_line e \<notin> D"
    and violations_off: "D \<noteq> {} \<Longrightarrow>
      pr_violations (suppress before result D) = filter (\<lambda>v. v_line v \<notin> D) (pr_violations result)"
    and unchanged_is_before: "finite D \<Longrightarrow> D \<noteq> {} \<Longrightarrow> \<not> pr_changed (suppress before result D) \<Longrightarrow>
      pr_text (suppress before result D) = before \<and> pr_edits (suppress before result D) = []"
begin

lemma edit_lines_off: "finite D \<Longrightarrow> D \<noteq> {} \<Longrightarrow> edit_lines (pr_edits (suppress before result D)) \<inter> D = {}"
  using edits_off by (auto simp: edit_lines_def)

lemma clean:
  "finite D \<Longrightarrow> D \<noteq> {} \<Longrightarrow>
     (\<forall>e \<in> set (pr_edits (suppress before result D)). e_line e \<notin> D)
     \<and> (\<forall>v \<in> set (pr_violations (suppress before result D)). v_line v \<notin> D)
     \<and> (\<not> pr_changed (suppress before result D) \<longrightarrow>
          pr_text (suppress before result D) = before \<and> pr_edits (suppress before result D) = [])"
  using edits_off violations_off unchanged_is_before by auto

end

interpretation pipeline_suppressor: line_suppressor suppress_lines_impl
proof
  fix D :: "nat set" and e before result
  assume D: "finite D" "D \<noteq> {}"
  show "e_line e \<notin> D" if "e \<in> set (pr_edits (suppress_lines_impl before result D))"
    using D by (rule suppress_cases [of _ before result]) (use that in simp_all)
  show "pr_text (suppress_lines_impl before result D) = before
      \<and> pr_edits (suppress_lines_impl before result D) = []"
    if "\<not> pr_changed (suppress_lines_impl before result D)"
    using D by (rule suppress_cases [of _ before result]) (use that in simp_all)
qed (rule suppressed_violations)

section \<open>Properties\<close>

text \<open>
  After suppression no edit and no violation is on a disabled line, on every path
  (local, non-local, rolled back); and a result marked unchanged has the old text and no edit.
\<close>

theorem suppression_clean:
  assumes "finite disabled_lines" "disabled_lines \<noteq> {}"
  shows "let r = suppress_lines_impl before result disabled_lines in
     (\<forall>e \<in> set (pr_edits r). e_line e \<notin> disabled_lines)
     \<and> (\<forall>v \<in> set (pr_violations r). v_line v \<notin> disabled_lines)
     \<and> (\<not> pr_changed r \<longrightarrow> pr_text r = before \<and> pr_edits r = [])"
  using pipeline_suppressor.clean [OF assms] by (simp add: Let_def)

theorem suppression_clean_witness:
  "{e \<in> set (pr_edits (suppress_lines_impl ''a'' unchanged {1})). e_line e \<in> {1}} = {}"
  using suppression_clean [of "{1}" "''a''" unchanged] by (auto simp: Let_def)

lemma suppression_keeps_line:
  assumes "finite disabled_lines" "line_no \<in> disabled_lines" "0 < line_no"
    and "line_no \<le> length (split_lines_as_slices before True)"
  shows "line_kept (split_lines_as_slices before True)
     (split_lines_as_slices (pr_text (suppress_lines_impl before result disabled_lines)) True) line_no"
proof -
  have ne: "disabled_lines \<noteq> {}" and n: "line_no \<le> length (lines_keep before)"
    using assms(2,4) by (auto simp: text_simps)
  from assms(1) ne show ?thesis
  proof (cases rule: suppress_cases [of _ before result])
    case untouched
    with assms n show ?thesis by (auto simp: text_simps intro: untouched_line_kept)
  next
    case rollback
    with assms n show ?thesis by (simp add: text_simps line_kept_refl)
  next
    case (nonlocal name)
    with assms have "\<forall>e \<in> set (synthesize_line_edits before
        (pr_text (suppress_lines_impl before result disabled_lines)) name). e_line e \<noteq> line_no"
      by auto
    from unedited_line_kept [OF this] assms n show ?thesis by (simp add: text_simps)
  next
    case restored
    let ?new = "restore_lines (lines_keep before) disabled_lines (lines_keep (pr_text result))"
    have "?new ! (line_no - 1) = lines_keep before ! (line_no - 1)" "length ?new = length (lines_keep before)"
      using restored(1) assms(1-3) n by (auto simp: restore_lines_spec)
    moreover from this have "?new ! (line_no - 1) \<in> set ?new"
      using assms(3) n by (intro nth_mem) simp
    ultimately have "line_kept (lines_keep before) ?new line_no"
      by (simp add: line_kept_def)
    with restored assms(1) show ?thesis by (simp add: text_simps lines_keep_restored)
  qed
qed

text \<open>
  \<^bold>\<open>C37\<close>. A disabled line is in the resulting text as it was in the old one, and at its old
  position whenever the two texts have equally many lines.
\<close>

theorem suppressed_lines_kept:
  assumes "finite disabled_lines" "line_no \<in> disabled_lines" "0 < line_no"
    and "line_no \<le> length (split_lines_as_slices before True)"
  shows "line_kept (split_lines_as_slices before True)
     (split_lines_as_slices (pr_text (suppress_lines_impl before result disabled_lines)) True) line_no"
  using assms by (rule suppression_keeps_line)

theorem suppressed_lines_kept_witness:
  "line_kept (split_lines_as_slices ''a'' True)
     (split_lines_as_slices (pr_text (suppress_lines_impl ''a'' unchanged {1})) True) 1"
  by (rule suppressed_lines_kept) (simp_all add: text_simps)

text \<open>
  On a rewriting that keeps the number of lines, the scope filter leaves only edits
  inside the scope: a semantic rewrite with one line outside it is taken back as a whole, any
  other result loses the lines outside.
\<close>

theorem scope_filter_in_scope:
  assumes "allowed_lines \<noteq> {}"
    and "length (split_lines_as_slices (pr_text result) True) = length (split_lines_as_slices before True)"
  shows "\<forall>e \<in> set (pr_edits (apply_scope_filter before result (Some allowed_lines) config)).
     effective e \<longrightarrow> e_line e \<in> allowed_lines"
proof -
  define blocked where "blocked = set (map e_line
      (filter (\<lambda>e. effective e \<and> e_line e \<notin> allowed_lines) (pr_edits result)))"
  have out: "e_line e \<in> blocked" if "e \<in> set (pr_edits result)" "effective e" "e_line e \<notin> allowed_lines" for e
    using that by (auto simp: blocked_def)
  have fin: "finite blocked" by (simp add: blocked_def)
  have same: "length (lines_keep before) = length (lines_keep (pr_text result))"
    using assms(2) by (simp add: text_simps)
  have "set (pr_edits (suppress_lines_impl before result blocked)) \<subseteq> {e \<in> set (pr_edits result). e_line e \<notin> blocked}"
    if "blocked \<noteq> {}"
    using fin that by (rule suppress_cases [of _ before result]) (use same in auto)
  then have sup: "e \<in> set (pr_edits (suppress_lines_impl before result blocked)) \<Longrightarrow> blocked \<noteq> {}
      \<Longrightarrow> effective e \<Longrightarrow> e_line e \<in> allowed_lines" for e
    using out by blast
  show ?thesis
  proof (cases "blocked = {} \<or> pr_edits result = []")
    case True
    with out assms(1) show ?thesis
      unfolding apply_scope_filter_def option.case Let_def blocked_def [symmetric] by auto
  next
    case False
    with sup assms(1) show ?thesis
      unfolding apply_scope_filter_def option.case Let_def blocked_def [symmetric]
      by (auto simp: suppress_structural_def apply_line_suppression_def)
  qed
qed

theorem scope_filter_in_scope_witness:
  "{e \<in> set (pr_edits (apply_scope_filter [] unchanged (Some {1})
      \<lparr>sf_policy_name = [], sf_scope_stage = [], sf_capability = capabilities_by_name policy_catalog []\<rparr>)).
     effective e \<and> e_line e \<notin> {1}} = {}"
  using scope_filter_in_scope [of "{1}" unchanged "[]"] by (simp add: text_simps unchanged_def)

end
