(* ===== verification/Directives.thy ===== *)
theory Directives
  imports Line_Suppression
begin

text \<open>
  \<^verbatim>\<open>src/src/engine/suppression.rs\<close>: the comments \<open>mjf:disable\<close>, \<open>mjf:enable\<close> and \<open>mjf:ignore\<close>
  in a source file and the lines they take away from a policy.  Lower-casing is the ASCII one
  (\<open>str::to_lowercase\<close> also maps other letters; policy names are ASCII).
\<close>

datatype suppression_action = Disable | Enable | Ignore

section \<open>Parsing\<close>

definition action_of :: "rstr \<Rightarrow> suppression_action option" where
  "action_of word =
     (if word = ''disable'' then Some Disable
      else if word = ''enable'' then Some Enable
      else if word = ''ignore'' then Some Ignore
      else None)"

definition parse_directive_tail :: "rstr \<Rightarrow> (suppression_action \<times> rstr list) option" where
  "parse_directive_tail tail =
     (let trimmed = trim_start tail in
      if trimmed = [] then None
      else
        let action_end = length (takeWhile is_ascii_alphabetic trimmed) in
        if action_end = 0 then None
        else case action_of (to_ascii_lowercase (take action_end trimmed)) of
               None \<Rightarrow> None
             | Some action \<Rightarrow>
                 let targets_raw = trim (drop action_end trimmed) in
                 if targets_raw = [] then Some (action, [])
                 else Some (action,
                        map to_lowercase
                          (filter (\<lambda>item. item \<noteq> []) (map trim (split_on CHR '','' targets_raw)))))"

definition marker :: rstr where
  "marker = ''mjf:''"

function directives_from :: "rstr \<Rightarrow> nat \<Rightarrow> (suppression_action \<times> rstr list) list" where
  "directives_from line cursor =
     (case find_sub (drop cursor line) marker of
        None \<Rightarrow> []
      | Some pos \<Rightarrow>
          let start = cursor + pos + length marker;
              item = (case parse_directive_tail (drop start line) of None \<Rightarrow> [] | Some d \<Rightarrow> [d])
          in if start \<ge> length line then item else item @ directives_from line start)"
  by pat_completeness auto
termination
  by (relation "measure (\<lambda>(line, cursor). length line - cursor)") (auto simp: marker_def)

declare directives_from.simps [simp del]

definition directives_in_line :: "rstr \<Rightarrow> (suppression_action \<times> rstr list) list" where
  "directives_in_line line = directives_from line 0"

section \<open>The disabled lines\<close>

definition apply_directive ::
    "rstr \<Rightarrow> nat \<Rightarrow> suppression_action \<times> rstr list \<Rightarrow> nat set \<times> bool \<Rightarrow> nat set \<times> bool" where
  "apply_directive policy line_no d = (\<lambda>(disabled, enabled_state).
     case d of (action, targets) \<Rightarrow>
       if targets = [] then (disabled, enabled_state)
       else if \<not> list_ex (\<lambda>item. item = ''*'' \<or> item = policy) targets then (disabled, enabled_state)
       else case action of
              Ignore \<Rightarrow> (insert line_no disabled, enabled_state)
            | Disable \<Rightarrow> (insert line_no disabled, True)
            | Enable \<Rightarrow> (disabled, False))"

definition scan_line :: "rstr \<Rightarrow> nat \<times> rstr \<Rightarrow> nat set \<times> bool \<Rightarrow> nat set \<times> bool" where
  "scan_line policy = (\<lambda>(index, line) (disabled, enabled_state).
     let line_no = index + 1;
         disabled = (if enabled_state then insert line_no disabled else disabled)
     in fold (apply_directive policy line_no) (directives_in_line line) (disabled, enabled_state))"

definition disabled_lines :: "rstr \<Rightarrow> rstr \<Rightarrow> nat set" where
  "disabled_lines txt policy_name =
     (let policy = to_lowercase (trim policy_name) in
      fst (fold (scan_line policy) (enumerate 0 (str_lines txt)) ({}, False)))"

section \<open>Lemmas\<close>

definition concerns :: "rstr \<Rightarrow> suppression_action \<times> rstr list \<Rightarrow> bool" where
  "concerns policy d \<longleftrightarrow> ''*'' \<in> set (snd d) \<or> policy \<in> set (snd d)"

definition line_actions :: "rstr \<Rightarrow> rstr \<Rightarrow> suppression_action list" where
  "line_actions policy line = map fst (filter (concerns policy) (directives_in_line line))"

text \<open>The state after a sequence of actions: disabled from the last \<open>Disable\<close> to the next \<open>Enable\<close>.\<close>

fun state_after :: "suppression_action list \<Rightarrow> bool \<Rightarrow> bool" where
  "state_after [] s = s"
| "state_after (Disable # as) s = state_after as True"
| "state_after (Enable # as) s = state_after as False"
| "state_after (Ignore # as) s = state_after as s"

lemma state_after_append: "state_after (as @ bs) s = state_after bs (state_after as s)"
  by (induction as s rule: state_after.induct) auto

lemma apply_directive_concerns:
  "apply_directive policy n d (D, s) =
     (if concerns policy d
      then (if fst d = Enable then D else insert n D, state_after [fst d] s)
      else (D, s))"
  by (cases d; cases "fst d")
    (auto simp: apply_directive_def concerns_def list_ex_iff split: suppression_action.splits)

lemma fold_directives:
  "fold (apply_directive policy n) ds (D, s) =
     (if \<exists>a \<in> set (map fst (filter (concerns policy) ds)). a \<noteq> Enable then insert n D else D,
      state_after (map fst (filter (concerns policy) ds)) s)"
proof (induction ds arbitrary: D s)
  case (Cons d ds)
  show ?case
    by (cases "fst d") (auto simp: apply_directive_concerns Cons.IH)
qed simp

definition disables_line :: "rstr \<Rightarrow> rstr list \<Rightarrow> nat \<Rightarrow> bool" where
  "disables_line policy lines i \<longleftrightarrow>
     state_after (concat (map (line_actions policy) (take i lines))) False
     \<or> Disable \<in> set (line_actions policy (lines ! i))
     \<or> Ignore \<in> set (line_actions policy (lines ! i))"

lemma scan_lines:
  "fold (scan_line policy) (enumerate 0 lines) ({}, False)
     = ({i + 1 | i. i < length lines \<and> disables_line policy lines i},
        state_after (concat (map (line_actions policy) lines)) False)"
proof (induction lines rule: rev_induct)
  case (snoc l ls)
  have e: "enumerate 0 (ls @ [l]) = enumerate 0 ls @ [(length ls, l)]"
    by (simp add: enumerate_append_eq)
  have old: "i < length ls \<Longrightarrow> disables_line policy (ls @ [l]) i = disables_line policy ls i" for i
    by (simp add: disables_line_def nth_append)
  have new: "disables_line policy (ls @ [l]) (length ls) \<longleftrightarrow>
      state_after (concat (map (line_actions policy) ls)) False
      \<or> (\<exists>a \<in> set (line_actions policy l). a \<noteq> Enable)"
    using suppression_action.exhaust by (auto simp: disables_line_def)
  have "{i + 1 | i. i < length (ls @ [l]) \<and> disables_line policy (ls @ [l]) i}
      = (if disables_line policy (ls @ [l]) (length ls) then {length ls + 1} else {})
        \<union> {i + 1 | i. i < length ls \<and> disables_line policy ls i}"
    using old by (auto simp: less_Suc_eq)
  then show ?case
    unfolding e fold_append comp_def snoc
    by (simp add: scan_line_def fold_directives state_after_append new flip: line_actions_def)
qed simp

section \<open>Names as they are written in directives\<close>

definition name_char :: "char \<Rightarrow> bool" where
  "name_char c \<longleftrightarrow> (CHR ''a'' \<le> c \<and> c \<le> CHR ''z'') \<or> is_ascii_digit c \<or> c = CHR ''_''"

definition plain_name :: "rstr \<Rightarrow> bool" where
  "plain_name s \<longleftrightarrow> s \<noteq> [] \<and> list_all name_char s"

lemma not_name_char:
  "ws1 c \<Longrightarrow> \<not> name_char c"
  "ws2 b c \<Longrightarrow> \<not> name_char b \<and> \<not> name_char c"
  "ws3 a b c \<Longrightarrow> \<not> name_char a \<and> \<not> name_char c"
  "\<not> name_char CHR '',''"
  by (auto simp: ws1_def ws2_def ws3_def name_char_def is_ascii_digit_def)

lemma upper_not_name_char:
  assumes "is_ascii_uppercase c"
  shows "\<not> name_char c"
proof -
  have "CHR ''Z'' < CHR ''a''" "CHR ''9'' < CHR ''A''" by simp_all
  with assms have "\<not> CHR ''a'' \<le> c" "\<not> c \<le> CHR ''9''"
    unfolding is_ascii_uppercase_def by (meson leD order.trans order.strict_trans2)+
  with assms show ?thesis by (auto simp: name_char_def is_ascii_digit_def is_ascii_uppercase_def)
qed

lemma name_char_facts:
  assumes "name_char c"
  shows "\<not> ws1 c" "\<not> ws2 b c" "\<not> ws2 c b" "\<not> ws3 a b c" "\<not> ws3 c a b" "c \<noteq> CHR '',''"
    "to_ascii_lowercase_char c = c"
proof -
  show "\<not> ws1 c" using assms not_name_char(1) by blast
  show "\<not> ws2 b c" "\<not> ws2 c b" using assms not_name_char(2) by metis+
  show "\<not> ws3 a b c" "\<not> ws3 c a b" using assms not_name_char(3) by metis+
  show "c \<noteq> CHR '',''" using assms not_name_char(4) by metis
  have "\<not> is_ascii_uppercase c" using assms upper_not_name_char by blast
  then show "to_ascii_lowercase_char c = c" unfolding to_ascii_lowercase_char_def by (rule if_not_P)
qed

lemma trim_plain:
  assumes "s \<noteq> []" "name_char (hd s)" "name_char (List.last s)"
  shows "trim s = s" "trim_start s = s"
proof -
  have "ws_prefix s = 0"
    using assms by (cases s) (auto simp: ws_prefix_def name_char_facts split: list.splits)
  moreover have "ws_suffix (rev s) = 0"
    using assms by (cases s rule: rev_cases)
      (auto simp: ws_suffix_def name_char_facts split: list.splits)
  ultimately show "trim s = s" "trim_start s = s"
    by (simp_all add: trim_def trim_start_def trim_end_def strip_while_stop)
qed

lemma plain_name_simps:
  assumes "plain_name s"
  shows "trim s = s" "to_ascii_lowercase s = s" "CHR '','' \<notin> set s" "s \<noteq> []"
    "name_char (hd s)" "name_char (List.last s)"
proof -
  have all: "s \<noteq> []" "\<And>c. c \<in> set s \<Longrightarrow> name_char c"
    using assms by (auto simp: plain_name_def list_all_iff)
  then show ne: "s \<noteq> []" and ends: "name_char (hd s)" "name_char (List.last s)" by simp_all
  show "trim s = s" using ne ends by (rule trim_plain(1))
  show "to_ascii_lowercase s = s"
    unfolding to_ascii_lowercase_def using all(2) name_char_facts(7) by (intro map_idI) blast
  show "CHR '','' \<notin> set s" using all(2) name_char_facts(6) by blast
qed

lemma join_plain:
  assumes "names \<noteq> []" "list_all plain_name names"
  shows "split_on CHR '','' (join '','' names) = names"
    and "join '','' names \<noteq> [] \<and> name_char (hd (join '','' names))
      \<and> name_char (List.last (join '','' names))"
proof -
  show "split_on CHR '','' (join '','' names) = names"
    using assms
    by (induction "'',''" names rule: join.induct)
      (simp_all add: split_on_single split_on_append_sep plain_name_simps)
  show "join '','' names \<noteq> [] \<and> name_char (hd (join '','' names))
      \<and> name_char (List.last (join '','' names))"
    using assms
    by (induction "'',''" names rule: join.induct) (auto simp: plain_name_simps)
qed

fun action_word :: "suppression_action \<Rightarrow> rstr" where
  "action_word Disable = ''disable''"
| "action_word Enable = ''enable''"
| "action_word Ignore = ''ignore''"

lemma trim_blank: "trim (CHR '' '' # s) = trim s"
  by (simp add: trim_def trim_start_def strip_while.simps [of ws_prefix "CHR '' '' # s"]
      ws_prefix_def ws1_def)

lemma parse_action:
  "trim_start (action_word a @ t) = action_word a @ t"
  "takeWhile is_ascii_alphabetic (action_word a @ CHR '' '' # t) = action_word a"
  "action_of (to_ascii_lowercase (action_word a)) = Some a"
  by (cases a; simp add: trim_start_def strip_while_stop ws_prefix_def ws1_def ws2_def ws3_def
        is_ascii_alphabetic_def action_of_def to_ascii_lowercase_def to_ascii_lowercase_char_def
        is_ascii_uppercase_def)+

section \<open>Properties\<close>

text \<open>
  \<^bold>\<open>C39\<close>. The disabled lines of a policy are exactly the lines inside a block opened by
  \<open>mjf:disable\<close> and not yet closed by \<open>mjf:enable\<close> at the start of the line, and the lines that
  themselves hold a \<open>mjf:disable\<close> or \<open>mjf:ignore\<close> for the policy or for \<open>*\<close>.
\<close>

theorem disabled_lines_spec:
  "disabled_lines txt policy_name =
     {i + 1 | i. i < length (str_lines txt)
        \<and> disables_line (to_lowercase (trim policy_name)) (str_lines txt) i}"
  by (simp add: disabled_lines_def scan_lines)

text \<open>
  A directive written out as its action and a comma separated list of policy names is
  parsed back to that action and those names.
\<close>

theorem directive_roundtrip:
  assumes "names \<noteq> []" "list_all plain_name names"
  shows "parse_directive_tail (CHR '' '' # action_word a @ CHR '' '' # join '','' names) = Some (a, names)"
proof -
  let ?list = "join '','' names"
  have start: "trim_start (CHR '' '' # s) = trim_start s" for s
    by (simp add: trim_start_def strip_while.simps [of ws_prefix "CHR '' '' # s"] ws_prefix_def ws1_def)
  have "trim ?list = ?list" "?list \<noteq> []"
    using join_plain(2) [OF assms] trim_plain by auto
  moreover have "map trim names = names" "filter (\<lambda>n. n \<noteq> []) names = names"
    "map to_ascii_lowercase names = names"
    using assms(2) by (auto simp: list_all_iff plain_name_simps intro!: map_idI filter_True)
  moreover have "action_word a \<noteq> []" by (cases a) auto
  ultimately show ?thesis
    using join_plain(1) [OF assms]
    by (simp add: parse_directive_tail_def start parse_action trim_blank)
qed

theorem directive_roundtrip_witness:
  "parse_directive_tail ('' disable '' @ ''naming_conventions,op_spacing'')
     = Some (Disable, [''naming_conventions'', ''op_spacing''])"
  using directive_roundtrip [of "[''naming_conventions'', ''op_spacing'']" Disable]
  by (simp add: plain_name_def name_char_def is_ascii_digit_def)

text \<open>
  A policy with nothing to do returns an empty text and no edits.  On a file whose
  first line carries a directive for it, the suppression stage reads that empty text as the
  deletion of every line: all lines but the first are deleted and recorded as edits.
\<close>

theorem unchanged_result_deletes_lines:
  "let before = text_of [''// mjf:ignore *'', ''int a;'', ''int b;''];
       r = apply_line_suppression before (unchanged_with_warning ''skipped'')
             (disabled_lines before ''dash_comment_normalizer'')
   in disabled_lines before ''dash_comment_normalizer'' = {1}
      \<and> pr_changed r \<and> pr_text r = text_of [''// mjf:ignore *'']
      \<and> map e_line (pr_edits r) = [2, 3]"
  by code_simp

end
