(* ===== verification/Convergence.thy ===== *)
theory Convergence
  imports Line_Suppression
begin

text \<open>
  \<^verbatim>\<open>src/src/engine/convergence.rs\<close>: the convergence controller, which decides between
  policies that edit the same line by their priority.  Its state is the claim on each line, the
  lines a policy has lost to a later one, and two counters.  Priorities are only compared, so
  the \<open>u16\<close> values are \<open>nat\<close>.
\<close>

section \<open>State\<close>

record convergence_profile =
  cp_domain :: rstr
  cp_priority :: nat
  cp_impact_radius :: nat
  cp_priority_weight_bp :: nat
  cp_risk_tier :: convergence_risk_tier

record line_claim =
  lc_policy :: rstr
  lc_priority :: nat

record convergence_controller =
  policy_profiles :: "rstr \<rightharpoonup> convergence_profile"
  claimed_lines :: "nat \<rightharpoonup> line_claim"
  suppressed_by_policy :: "rstr \<rightharpoonup> nat set"
  lines_claimed_count :: "rstr \<rightharpoonup> nat"
  lines_dropped_count :: "rstr \<rightharpoonup> nat"

definition controller_with_profiles :: "(rstr \<rightharpoonup> convergence_profile) \<Rightarrow> convergence_controller" where
  "controller_with_profiles profiles =
     \<lparr>policy_profiles = profiles, claimed_lines = Map.empty, suppressed_by_policy = Map.empty,
      lines_claimed_count = Map.empty, lines_dropped_count = Map.empty\<rparr>"

definition controller_new :: convergence_controller where
  "controller_new = controller_with_profiles Map.empty"

definition policy_profile :: "convergence_controller \<Rightarrow> rstr \<Rightarrow> convergence_profile" where
  "policy_profile c policy_name =
     (case policy_profiles c policy_name of
        Some p \<Rightarrow> p
      | None \<Rightarrow>
          let defaults = convergence_by_name policy_catalog policy_name in
          \<lparr>cp_domain = cd_domain defaults, cp_priority = cd_priority defaults,
           cp_impact_radius = cd_impact_radius defaults,
           cp_priority_weight_bp = cd_priority_weight_bp defaults,
           cp_risk_tier = cd_risk_tier defaults\<rparr>)"

definition default_priority_for :: "rstr \<Rightarrow> nat" where
  "default_priority_for policy_name = cd_priority (convergence_by_name policy_catalog policy_name)"

definition default_risk_tier_for :: "rstr \<Rightarrow> convergence_risk_tier" where
  "default_risk_tier_for policy_name = cd_risk_tier (convergence_by_name policy_catalog policy_name)"

definition default_impact_radius_for :: "rstr \<Rightarrow> nat" where
  "default_impact_radius_for policy_name =
     cd_impact_radius (convergence_by_name policy_catalog policy_name)"

definition default_priority_weight_bp_for :: "rstr \<Rightarrow> nat" where
  "default_priority_weight_bp_for policy_name =
     cd_priority_weight_bp (convergence_by_name policy_catalog policy_name)"

section \<open>Operations\<close>

text \<open>The controller's own suppression of dropped lines: by index, for every change.\<close>

definition convergence_line_suppression :: "rstr \<Rightarrow> policy_result \<Rightarrow> nat set \<Rightarrow> policy_result" where
  "convergence_line_suppression before_text result disabled_lines =
     (if disabled_lines = {} then result
      else
        let kept_violations = filter (\<lambda>v. v_line v \<notin> disabled_lines) (pr_violations result);
            kept_edits = filter (\<lambda>e. e_line e \<notin> disabled_lines) (pr_edits result)
        in if kept_edits = []
           then \<lparr>pr_text = before_text, pr_changed = False, pr_violations = kept_violations,
                  pr_edits = kept_edits, pr_warnings = pr_warnings result\<rparr>
           else
             let before_lines = split_lines_as_slices before_text True;
                 after_lines = split_lines_as_slices (pr_text result) True
             in \<lparr>pr_text = concat (restore_lines before_lines disabled_lines after_lines),
                  pr_changed = True, pr_violations = kept_violations, pr_edits = kept_edits,
                  pr_warnings = pr_warnings result\<rparr>)"

text \<open>\<open>*map.entry(key).or_default() += n\<close>.\<close>

definition bump :: "rstr \<Rightarrow> nat \<Rightarrow> (rstr \<rightharpoonup> nat) \<Rightarrow> (rstr \<rightharpoonup> nat)" where
  "bump key n m = m(key \<mapsto> unwrap_or (m key) 0 + n)"

definition contest_edit ::
    "(nat \<rightharpoonup> line_claim) \<Rightarrow> nat \<Rightarrow> edit \<Rightarrow> nat set \<times> (rstr \<rightharpoonup> nat set) \<Rightarrow> nat set \<times> (rstr \<rightharpoonup> nat set)" where
  "contest_edit claims current_priority e = (\<lambda>(dropped_lines, suppressed).
     if e_line e = 0 \<or> e_before e = e_after e then (dropped_lines, suppressed)
     else case claims (e_line e) of
            None \<Rightarrow> (dropped_lines, suppressed)
          | Some claim \<Rightarrow>
              if lc_priority claim \<ge> current_priority
              then (insert (e_line e) dropped_lines, suppressed)
              else (dropped_lines,
                    suppressed(lc_policy claim \<mapsto>
                      insert (e_line e) (unwrap_or (suppressed (lc_policy claim)) {}))))"

definition claim_edit ::
    "rstr \<Rightarrow> nat \<Rightarrow> edit \<Rightarrow> (nat \<rightharpoonup> line_claim) \<times> nat \<Rightarrow> (nat \<rightharpoonup> line_claim) \<times> nat" where
  "claim_edit policy_name current_priority e = (\<lambda>(claims, claimed_count).
     if e_line e = 0 \<or> e_before e = e_after e then (claims, claimed_count)
     else (claims(e_line e \<mapsto> \<lparr>lc_policy = policy_name, lc_priority = current_priority\<rparr>),
           claimed_count + 1))"

definition reconcile_policy_result ::
    "convergence_controller \<Rightarrow> rstr \<Rightarrow> rstr \<Rightarrow> policy_result
      \<Rightarrow> policy_result \<times> convergence_controller" where
  "reconcile_policy_result c policy_name before_text result =
     (if pr_edits result = [] then (result, c)
      else
        let current_priority = cp_priority (policy_profile c policy_name);
            (dropped_lines, suppressed) =
              fold (contest_edit (claimed_lines c) current_priority) (pr_edits result)
                ({}, suppressed_by_policy c);
            c = c\<lparr>suppressed_by_policy := suppressed\<rparr>;
            (result, c) =
              (if dropped_lines \<noteq> {}
               then
                 let r = convergence_line_suppression before_text result dropped_lines in
                 (r\<lparr>pr_warnings := pr_warnings r @
                     [''convergence_controller: dropped '' @ nat_to_string (card dropped_lines)
                       @ '' conflicting line edit(s) for '' @ [quote_char] @ policy_name @ [quote_char]
                       @ '' (superseded by higher-priority policy on same line)'']\<rparr>,
                  c\<lparr>lines_dropped_count := bump policy_name (card dropped_lines) (lines_dropped_count c)\<rparr>)
               else (result, c));
            (claims, claimed_count) =
              fold (claim_edit policy_name current_priority) (pr_edits result) (claimed_lines c, 0);
            c = c\<lparr>claimed_lines := claims\<rparr>;
            c = (if claimed_count > 0
                 then c\<lparr>lines_claimed_count := bump policy_name claimed_count (lines_claimed_count c)\<rparr>
                 else c)
        in (result, c))"

definition is_suppressed :: "convergence_controller \<Rightarrow> rstr \<Rightarrow> nat \<Rightarrow> bool" where
  "is_suppressed c policy_name line =
     (case suppressed_by_policy c policy_name of None \<Rightarrow> False | Some lines \<Rightarrow> line \<in> lines)"

record convergence_metrics =
  lines_claimed :: "rstr \<rightharpoonup> nat"
  lines_suppressed :: "rstr \<rightharpoonup> nat"
  lines_dropped :: "rstr \<rightharpoonup> nat"

record convergence_finalize_result =
  cf_edits :: "edit list"
  cf_violations :: "violation list"
  cf_warnings :: "rstr list"
  cf_metrics :: convergence_metrics

definition finalize_run ::
    "convergence_controller \<Rightarrow> edit list \<Rightarrow> violation list \<Rightarrow> rstr list \<Rightarrow> convergence_finalize_result" where
  "finalize_run c edits violations warnings =
     \<lparr>cf_edits = filter (\<lambda>e. \<not> is_suppressed c (policy_as_str (e_policy e)) (e_line e)) edits,
      cf_violations = filter (\<lambda>v. \<not> is_suppressed c (policy_as_str (v_policy v)) (v_line v)) violations,
      cf_warnings = warnings,
      cf_metrics =
        \<lparr>lines_claimed = lines_claimed_count c,
         lines_suppressed = (\<lambda>p. case suppressed_by_policy c p of
           None \<Rightarrow> None | Some lines \<Rightarrow> if lines = {} then None else Some (card lines)),
         lines_dropped = lines_dropped_count c\<rparr>\<rparr>"

section \<open>What one policy's turn does\<close>

definition priority_of :: "convergence_controller \<Rightarrow> rstr \<Rightarrow> nat" where
  "priority_of c policy_name = cp_priority (policy_profile c policy_name)"

definition outranked :: "convergence_controller \<Rightarrow> nat \<Rightarrow> nat \<Rightarrow> bool" where
  "outranked c prio n \<longleftrightarrow> (\<exists>claim. claimed_lines c n = Some claim \<and> prio \<le> lc_priority claim)"

definition edited_lines :: "edit list \<Rightarrow> nat set" where
  "edited_lines es = e_line ` {e \<in> set es. effective e}"

lemma edited_lines_simps [simp]:
  "edited_lines [] = {}"
  "edited_lines (e # es) = (if effective e then insert (e_line e) (edited_lines es) else edited_lines es)"
  "edited_lines (filter (\<lambda>e. e_line e \<notin> D) es) = edited_lines es - D"
  by (auto simp: edited_lines_def)

lemma contest_fold:
  "fold (contest_edit (claimed_lines c) prio) es (D, S) = (D', S') \<Longrightarrow>
     D' = D \<union> {n \<in> edited_lines es. outranked c prio n}
   \<and> (\<forall>q. unwrap_or (S' q) {} = unwrap_or (S q) {} \<union>
        {n \<in> edited_lines es. \<exists>claim. claimed_lines c n = Some claim
            \<and> lc_policy claim = q \<and> lc_priority claim < prio})"
proof (induction es arbitrary: D S)
  case (Cons e es)
  define st where "st = contest_edit (claimed_lines c) prio e (D, S)"
  obtain D1 S1 where st1: "st = (D1, S1)" by force
  from Cons.prems have "fold (contest_edit (claimed_lines c) prio) es (D1, S1) = (D', S')"
    by (simp add: st1 flip: st_def)
  note IH = Cons.IH [OF this]
  show ?case
  proof (cases "effective e")
    case False
    then have "st = (D, S)" by (auto simp: st_def contest_edit_def effective_def)
    with IH st1 False show ?thesis by simp
  next
    case True
    then have "\<not> (e_line e = 0 \<or> e_before e = e_after e)" by (simp add: effective_def)
    then have "st = (case claimed_lines c (e_line e) of
            None \<Rightarrow> (D, S)
          | Some claim \<Rightarrow>
              if prio \<le> lc_priority claim then (insert (e_line e) D, S)
              else (D, S(lc_policy claim \<mapsto> insert (e_line e) (unwrap_or (S (lc_policy claim)) {}))))"
      by (simp add: st_def contest_edit_def)
    with IH st1 True show ?thesis
      by (auto simp: outranked_def split: option.splits if_splits)
  qed
qed simp

lemma claim_fold:
  "fold (claim_edit p prio) es (claims, k) = (claims', k') \<Longrightarrow>
     claims' n = (if n \<in> edited_lines es then Some \<lparr>lc_policy = p, lc_priority = prio\<rparr> else claims n)"
proof (induction es arbitrary: claims k)
  case (Cons e es)
  show ?case
  proof (cases "effective e")
    case True
    then have "claim_edit p prio e (claims, k)
        = (claims(e_line e \<mapsto> \<lparr>lc_policy = p, lc_priority = prio\<rparr>), k + 1)"
      by (auto simp: claim_edit_def effective_def)
    with Cons True show ?thesis by auto
  next
    case False
    then have "claim_edit p prio e (claims, k) = (claims, k)"
      by (auto simp: claim_edit_def effective_def)
    with Cons False show ?thesis by auto
  qed
qed simp

lemma convergence_suppression_edits:
  "pr_edits (convergence_line_suppression before result D)
     = filter (\<lambda>e. e_line e \<notin> D) (pr_edits result)"
  by (simp add: convergence_line_suppression_def Let_def)

interpretation controller_suppressor: line_suppressor convergence_line_suppression
  by unfold_locales (auto simp: convergence_line_suppression_def Let_def split: if_splits)

lemma policy_profile_cong:
  "policy_profiles c = policy_profiles d \<Longrightarrow> policy_profile c = policy_profile d"
  by (simp add: policy_profile_def fun_eq_iff)

lemma is_suppressed_unwrap: "is_suppressed c q n \<longleftrightarrow> n \<in> unwrap_or (suppressed_by_policy c q) {}"
  by (simp add: is_suppressed_def unwrap_or_def split: option.split)

lemma reconcile_step:
  assumes "reconcile_policy_result c p before result = (r', c')"
  defines "prio \<equiv> priority_of c p"
  shows "pr_edits r' = filter (\<lambda>e. e_line e \<notin> {n \<in> edited_lines (pr_edits result). outranked c prio n})
           (pr_edits result)"
    and "policy_profiles c' = policy_profiles c"
    and "claimed_lines c' n = (if n \<in> edited_lines (pr_edits r')
           then Some \<lparr>lc_policy = p, lc_priority = prio\<rparr> else claimed_lines c n)"
    and "is_suppressed c' q n \<longleftrightarrow> is_suppressed c q n \<or>
           (n \<in> edited_lines (pr_edits result) \<and> (\<exists>claim. claimed_lines c n = Some claim
              \<and> lc_policy claim = q \<and> lc_priority claim < prio))"
proof -
  obtain D S where f: "fold (contest_edit (claimed_lines c) prio) (pr_edits result)
      ({}, suppressed_by_policy c) = (D, S)" by force
  note spec = contest_fold [OF f]
  define r where "r = (if D \<noteq> {} then convergence_line_suppression before result D else result)"
  have edits: "pr_edits r = filter (\<lambda>e. e_line e \<notin> D) (pr_edits result)"
    by (auto simp: r_def convergence_suppression_edits)
  obtain claims k where g: "fold (claim_edit p prio) (pr_edits r) (claimed_lines c, 0) = (claims, k)"
    by force
  have run: "pr_edits r' = pr_edits r \<and> policy_profiles c' = policy_profiles c
      \<and> claimed_lines c' = claims \<and> suppressed_by_policy c' = S"
  proof (cases "pr_edits result = []")
    case True
    with f g edits assms(1) show ?thesis by (auto simp: reconcile_policy_result_def)
  next
    case False
    with f g assms(1) show ?thesis
      by (auto simp: reconcile_policy_result_def r_def prio_def priority_of_def Let_def
          split: if_splits)
  qed
  show "pr_edits r' = filter (\<lambda>e. e_line e \<notin> {n \<in> edited_lines (pr_edits result). outranked c prio n})
           (pr_edits result)"
    using run edits spec by simp
  show "policy_profiles c' = policy_profiles c" using run by simp
  show "claimed_lines c' n = (if n \<in> edited_lines (pr_edits r')
           then Some \<lparr>lc_policy = p, lc_priority = prio\<rparr> else claimed_lines c n)"
    using run claim_fold [OF g] by simp
  show "is_suppressed c' q n \<longleftrightarrow> is_suppressed c q n \<or>
           (n \<in> edited_lines (pr_edits result) \<and> (\<exists>claim. claimed_lines c n = Some claim
              \<and> lc_policy claim = q \<and> lc_priority claim < prio))"
    using run spec by (auto simp: is_suppressed_unwrap)
qed

section \<open>A run: the policies in their order\<close>

abbreviation edit_owner :: "edit \<Rightarrow> rstr" where
  "edit_owner e \<equiv> policy_as_str (e_policy e)"

fun reconcile_all ::
    "convergence_controller \<Rightarrow> (rstr \<times> rstr \<times> policy_result) list
      \<Rightarrow> edit list \<times> convergence_controller" where
  "reconcile_all c [] = ([], c)"
| "reconcile_all c ((policy_name, before, result) # turns) =
     (let (r', c') = reconcile_policy_result c policy_name before result;
          (es, c'') = reconcile_all c' turns
      in (pr_edits r' @ es, c''))"

definition proposed_edits :: "(rstr \<times> rstr \<times> policy_result) list \<Rightarrow> edit set" where
  "proposed_edits turns = {e. \<exists>(p, b, r) \<in> set turns. e \<in> set (pr_edits r)}"

definition owned_turns :: "(rstr \<times> rstr \<times> policy_result) list \<Rightarrow> bool" where
  "owned_turns turns \<longleftrightarrow> (\<forall>(p, b, r) \<in> set turns. \<forall>e \<in> set (pr_edits r). edit_owner e = p)"

definition claims_invariant :: "convergence_controller \<Rightarrow> edit set \<Rightarrow> edit set \<Rightarrow> bool" where
  "claims_invariant c kept proposed \<longleftrightarrow>
     (\<forall>e \<in> kept. effective e \<longrightarrow> (\<exists>claim. claimed_lines c (e_line e) = Some claim
        \<and> (lc_policy claim = edit_owner e \<or> is_suppressed c (edit_owner e) (e_line e))))
   \<and> (\<forall>e \<in> proposed. effective e \<longrightarrow> (\<exists>claim. claimed_lines c (e_line e) = Some claim
        \<and> priority_of c (edit_owner e) \<le> lc_priority claim))
   \<and> (\<forall>n claim. claimed_lines c n = Some claim \<longrightarrow> lc_priority claim = priority_of c (lc_policy claim)
        \<and> (\<exists>e \<in> kept. effective e \<and> e_line e = n \<and> edit_owner e = lc_policy claim))
   \<and> (\<forall>q n. is_suppressed c q n \<longrightarrow>
        (\<exists>claim. claimed_lines c n = Some claim \<and> priority_of c q < lc_priority claim))"

lemma claims_invariant_new: "claims_invariant (controller_with_profiles ps) {} {}"
  by (simp add: claims_invariant_def controller_with_profiles_def is_suppressed_def)

lemma claims_invariant_step:
  assumes inv: "claims_invariant c kept proposed"
    and step: "reconcile_policy_result c p before result = (r', c')"
    and own: "\<forall>e \<in> set (pr_edits result). edit_owner e = p"
  shows "claims_invariant c' (kept \<union> set (pr_edits r')) (proposed \<union> set (pr_edits result))"
proof -
  note s = reconcile_step [OF step]
  have prio: "priority_of c' = priority_of c"
    using policy_profile_cong [OF s(2)] by (simp add: priority_of_def fun_eq_iff)
  have claimed': "claimed_lines c' n = Some \<lparr>lc_policy = p, lc_priority = priority_of c p\<rparr>"
    if "n \<in> edited_lines (pr_edits r')" for n using that s(3) by simp
  have untouched: "claimed_lines c' n = claimed_lines c n" if "n \<notin> edited_lines (pr_edits r')" for n
    using that s(3) by simp
  have kept_lines: "edited_lines (pr_edits r')
      = edited_lines (pr_edits result) - {n \<in> edited_lines (pr_edits result). outranked c (priority_of c p) n}"
    by (simp only: s(1) edited_lines_simps)
  have won: "\<not> outranked c (priority_of c p) n" if "n \<in> edited_lines (pr_edits r')" for n
    using that kept_lines by auto
  have lines: "n \<in> edited_lines (pr_edits result) \<Longrightarrow> n \<notin> edited_lines (pr_edits r')
      \<Longrightarrow> outranked c (priority_of c p) n" for n
    using kept_lines by auto
  have in_lines: "e \<in> set es \<Longrightarrow> effective e \<Longrightarrow> e_line e \<in> edited_lines es" for e es
    by (auto simp: edited_lines_def)
  have sub: "set (pr_edits r') \<subseteq> set (pr_edits result)" "edited_lines (pr_edits r') \<subseteq> edited_lines (pr_edits result)"
    using s(1) kept_lines by auto
  show ?thesis
    unfolding claims_invariant_def prio
  proof (intro conjI ballI allI impI)
    fix e assume e: "e \<in> kept \<union> set (pr_edits r')" "effective e"
    show "\<exists>claim. claimed_lines c' (e_line e) = Some claim
        \<and> (lc_policy claim = edit_owner e \<or> is_suppressed c' (edit_owner e) (e_line e))"
    proof (cases "e_line e \<in> edited_lines (pr_edits r')")
      case True
      have "is_suppressed c' (edit_owner e) (e_line e)" if "e \<in> kept" "edit_owner e \<noteq> p"
      proof -
        from inv that(1) e(2) obtain claim where cl: "claimed_lines c (e_line e) = Some claim"
            "lc_policy claim = edit_owner e \<or> is_suppressed c (edit_owner e) (e_line e)"
          unfolding claims_invariant_def by blast
        moreover have "lc_priority claim < priority_of c p"
          using won [OF True] cl(1) by (simp add: outranked_def)
        ultimately show ?thesis using s(4) True sub(2) by blast
      qed
      with claimed' [OF True] e(1) own sub show ?thesis by fastforce
    next
      case False
      with e in_lines have "e \<in> kept" by blast
      with inv e(2) untouched [OF False] s(4) show ?thesis
        unfolding claims_invariant_def by fastforce
    qed
  next
    fix e assume e: "e \<in> proposed \<union> set (pr_edits result)" "effective e"
    show "\<exists>claim. claimed_lines c' (e_line e) = Some claim
        \<and> priority_of c (edit_owner e) \<le> lc_priority claim"
    proof (cases "e_line e \<in> edited_lines (pr_edits r')")
      case True
      have "priority_of c (edit_owner e) \<le> priority_of c p"
      proof (cases "e \<in> proposed")
        case old: True
        with inv e(2) obtain claim where "claimed_lines c (e_line e) = Some claim"
            "priority_of c (edit_owner e) \<le> lc_priority claim"
          unfolding claims_invariant_def by blast
        with won [OF True] show ?thesis by (auto simp: outranked_def)
      next
        case False
        with e own show ?thesis by auto
      qed
      with claimed' [OF True] show ?thesis by simp
    next
      case False
      show ?thesis
      proof (cases "e \<in> proposed")
        case True
        with inv e(2) untouched [OF False] show ?thesis unfolding claims_invariant_def by simp
      next
        case new: False
        with e have "e \<in> set (pr_edits result)" by blast
        with lines [OF in_lines False] e(2) own untouched [OF False] show ?thesis
          by (auto simp: outranked_def)
      qed
    qed
  next
    fix n claim assume cl: "claimed_lines c' n = Some claim"
    show "lc_priority claim = priority_of c (lc_policy claim)"
      using cl inv s(3) [of n] unfolding claims_invariant_def by (auto split: if_splits)
    show "\<exists>e \<in> kept \<union> set (pr_edits r'). effective e \<and> e_line e = n \<and> edit_owner e = lc_policy claim"
    proof (cases "n \<in> edited_lines (pr_edits r')")
      case True
      then obtain e where "e \<in> set (pr_edits r')" "effective e" "e_line e = n"
        by (auto simp: edited_lines_def)
      with claimed' [OF True] cl own sub show ?thesis by fastforce
    next
      case False
      with cl untouched have "claimed_lines c n = Some claim" by simp
      with inv show ?thesis unfolding claims_invariant_def by blast
    qed
  next
    fix q n assume "is_suppressed c' q n"
    then consider "is_suppressed c q n"
      | claim where "n \<in> edited_lines (pr_edits result)" "claimed_lines c n = Some claim"
          "lc_policy claim = q" "lc_priority claim < priority_of c p"
      using s(4) by blast
    then show "\<exists>claim. claimed_lines c' n = Some claim \<and> priority_of c q < lc_priority claim"
    proof cases
      case 1
      with inv obtain claim where cl: "claimed_lines c n = Some claim" "priority_of c q < lc_priority claim"
        unfolding claims_invariant_def by blast
      show ?thesis
      proof (cases "n \<in> edited_lines (pr_edits r')")
        case True
        with won cl have "priority_of c q < priority_of c p" by (fastforce simp: outranked_def)
        with claimed' [OF True] show ?thesis by simp
      qed (use cl untouched in simp)
    next
      case 2
      then have "\<not> outranked c (priority_of c p) n" by (simp add: outranked_def)
      with 2(1) lines have "n \<in> edited_lines (pr_edits r')" by blast
      moreover have "priority_of c q = lc_priority claim"
        using inv 2 unfolding claims_invariant_def by metis
      ultimately show ?thesis using claimed' 2(4) by simp
    qed
  qed
qed

lemma claims_invariant_run:
  assumes "claims_invariant c kept proposed" "owned_turns turns" "reconcile_all c turns = (es, c')"
  shows "claims_invariant c' (kept \<union> set es) (proposed \<union> proposed_edits turns)
    \<and> priority_of c' = priority_of c"
  using assms
proof (induction turns arbitrary: c kept proposed es)
  case Nil
  then show ?case by (simp add: proposed_edits_def)
next
  case (Cons t turns)
  obtain p b r where t: "t = (p, b, r)" by (cases t)
  obtain r' c1 where step: "reconcile_policy_result c p b r = (r', c1)" by force
  obtain es' where rest: "reconcile_all c1 turns = (es', c')" and es: "es = pr_edits r' @ es'"
    using Cons.prems(3) by (auto simp: t step split: prod.splits)
  have own: "\<forall>e \<in> set (pr_edits r). edit_owner e = p" and owned: "owned_turns turns"
    using Cons.prems(2) by (auto simp: owned_turns_def t)
  have all: "proposed \<union> set (pr_edits r) \<union> proposed_edits turns = proposed \<union> proposed_edits (t # turns)"
    by (auto simp: proposed_edits_def t)
  have "priority_of c1 = priority_of c"
    using policy_profile_cong [OF reconcile_step(2) [OF step]] by (simp add: priority_of_def fun_eq_iff)
  with Cons.IH [OF claims_invariant_step [OF Cons.prems(1) step own] owned rest]
  show ?case by (simp add: es Un_assoc all [unfolded Un_assoc])
qed

lemma run_from_new:
  assumes "owned_turns turns" "reconcile_all (controller_with_profiles ps) turns = (es, c)"
  shows "claims_invariant c (set es) (proposed_edits turns)"
    and "priority_of c = priority_of (controller_with_profiles ps)"
  using claims_invariant_run [OF claims_invariant_new assms] by simp_all

lemma final_edits:
  "set (cf_edits (finalize_run c es vs ws)) = {e \<in> set es. \<not> is_suppressed c (edit_owner e) (e_line e)}"
  by (auto simp: finalize_run_def)

section \<open>The controller as an arbiter\<close>

text \<open>
  The contract the pipeline relies on, independent of the controller's state: the final edits
  are among the proposed ones, and on each line they come from a proposer of the highest
  priority.
\<close>

locale arbiter =
  fixes priority :: "rstr \<Rightarrow> nat"
    and decide :: "(rstr \<times> rstr \<times> policy_result) list \<Rightarrow> edit set"
  assumes top: "owned_turns turns \<Longrightarrow> e \<in> decide turns \<Longrightarrow> effective e \<Longrightarrow>
      e' \<in> proposed_edits turns \<Longrightarrow> effective e' \<Longrightarrow> e_line e' = e_line e \<Longrightarrow>
      priority (edit_owner e') \<le> priority (edit_owner e)"
    and unique: "owned_turns turns \<Longrightarrow> e \<in> decide turns \<Longrightarrow> effective e \<Longrightarrow>
      e' \<in> decide turns \<Longrightarrow> effective e' \<Longrightarrow> e_line e' = e_line e \<Longrightarrow> edit_owner e' = edit_owner e"
    and covered: "owned_turns turns \<Longrightarrow> e \<in> proposed_edits turns \<Longrightarrow> effective e \<Longrightarrow>
      \<exists>e' \<in> decide turns. effective e' \<and> e_line e' = e_line e"
begin

text \<open>A policy with the strictly highest priority on a line keeps the line.\<close>

lemma strict_top_wins:
  assumes "owned_turns turns" "e \<in> proposed_edits turns" "effective e"
    and "\<forall>e' \<in> proposed_edits turns. effective e' \<and> e_line e' = e_line e
           \<and> edit_owner e' \<noteq> edit_owner e \<longrightarrow> priority (edit_owner e') < priority (edit_owner e)"
    and "\<forall>e' \<in> decide turns. e' \<in> proposed_edits turns"
  shows "\<exists>e' \<in> decide turns. e_line e' = e_line e \<and> edit_owner e' = edit_owner e"
proof -
  obtain w where w: "w \<in> decide turns" "effective w" "e_line w = e_line e"
    using covered [OF assms(1-3)] by blast
  then have "priority (edit_owner e) \<le> priority (edit_owner w)"
    using top [OF assms(1), of w e] assms(2,3) by simp
  with assms(4,5) w show ?thesis by (metis leD)
qed

end

definition run_decision ::
    "(rstr \<rightharpoonup> convergence_profile) \<Rightarrow> (rstr \<times> rstr \<times> policy_result) list \<Rightarrow> edit set" where
  "run_decision ps turns =
     (let (es, c) = reconcile_all (controller_with_profiles ps) turns
      in set (cf_edits (finalize_run c es [] [])))"

interpretation controller: arbiter "priority_of (controller_with_profiles ps)" "run_decision ps" for ps
proof
  fix turns e e'
  assume own: "owned_turns turns"
  obtain es c where run: "reconcile_all (controller_with_profiles ps) turns = (es, c)" by force
  note inv = run_from_new [OF own run]
  have dec: "run_decision ps turns = {e \<in> set es. \<not> is_suppressed c (edit_owner e) (e_line e)}"
    by (simp add: run_decision_def run final_edits)
  have holder: "\<exists>claim. claimed_lines c (e_line e) = Some claim \<and> lc_policy claim = edit_owner e
      \<and> lc_priority claim = priority_of c (edit_owner e)"
    if "e \<in> run_decision ps turns" "effective e" for e
    using that inv(1) unfolding dec claims_invariant_def by (metis (no_types, lifting) mem_Collect_eq)
  show "priority_of (controller_with_profiles ps) (edit_owner e')
      \<le> priority_of (controller_with_profiles ps) (edit_owner e)"
    if "e \<in> run_decision ps turns" "effective e" "e' \<in> proposed_edits turns" "effective e'"
      "e_line e' = e_line e"
    using holder [OF that(1,2)] that(3-5) inv unfolding claims_invariant_def by force
  show "edit_owner e' = edit_owner e"
    if "e \<in> run_decision ps turns" "effective e" "e' \<in> run_decision ps turns" "effective e'"
      "e_line e' = e_line e"
    using holder [OF that(1,2)] holder [OF that(3,4)] that(5) by auto
  show "\<exists>e' \<in> run_decision ps turns. effective e' \<and> e_line e' = e_line e"
    if "e \<in> proposed_edits turns" "effective e"
  proof -
    from inv(1) that obtain claim where "claimed_lines c (e_line e) = Some claim"
      unfolding claims_invariant_def by blast
    with inv(1) obtain w where w: "w \<in> set es" "effective w" "e_line w = e_line e"
        "edit_owner w = lc_policy claim" "lc_priority claim = priority_of c (lc_policy claim)"
        "claimed_lines c (e_line e) = Some claim"
      unfolding claims_invariant_def by blast
    then have "\<not> is_suppressed c (edit_owner w) (e_line w)"
      using inv(1) unfolding claims_invariant_def by fastforce
    with w show ?thesis unfolding dec by blast
  qed
qed

section \<open>Properties\<close>

text \<open>
  \<^bold>\<open>C31\<close>. In the final report of a run, the edits of a line all come from one policy, and no
  policy that proposed an edit of that line has a higher priority.
\<close>

theorem highest_priority_wins:
  assumes "owned_turns turns"
    and "e \<in> run_decision profiles turns" "effective e"
  shows "(\<forall>e' \<in> run_decision profiles turns. effective e' \<and> e_line e' = e_line e \<longrightarrow> edit_owner e' = edit_owner e)
    \<and> (\<forall>e' \<in> proposed_edits turns. effective e' \<and> e_line e' = e_line e \<longrightarrow>
         priority_of (controller_with_profiles profiles) (edit_owner e')
           \<le> priority_of (controller_with_profiles profiles) (edit_owner e))"
  using controller.unique [OF assms] controller.top [OF assms] by blast

text \<open>
  No contested line is lost: every line for which some policy proposed an effective
  edit keeps one in the final report.
\<close>

theorem contested_line_kept:
  assumes "owned_turns turns" "e \<in> proposed_edits turns" "effective e"
  shows "\<exists>e' \<in> run_decision profiles turns. effective e' \<and> e_line e' = e_line e"
  using assms by (rule controller.covered)

definition sample_edit :: "rstr \<Rightarrow> rstr \<Rightarrow> rstr \<Rightarrow> edit" where
  "sample_edit policy before after =
     \<lparr>e_policy = policy_from_str_lossy policy, e_line = 1, e_before = before, e_after = after\<rparr>"

definition sample_turns :: "(rstr \<times> rstr \<times> policy_result) list" where
  "sample_turns =
     [(''naming_conventions'', ''a'',
        unchanged\<lparr>pr_text := ''b'', pr_changed := True, pr_edits := [sample_edit ''naming_conventions'' ''a'' ''b'']\<rparr>),
      (''clang_format'', ''b'',
        unchanged\<lparr>pr_text := ''c'', pr_changed := True, pr_edits := [sample_edit ''clang_format'' ''b'' ''c'']\<rparr>)]"

lemma sample_owned: "owned_turns sample_turns"
  by (simp add: owned_turns_def sample_turns_def sample_edit_def unchanged_def) code_simp

theorem highest_priority_wins_witness:
  "run_decision Map.empty sample_turns = {sample_edit ''clang_format'' ''b'' ''c''}
   \<and> priority_of controller_new (edit_owner (sample_edit ''naming_conventions'' ''a'' ''b''))
       \<le> priority_of controller_new (edit_owner (sample_edit ''clang_format'' ''b'' ''c''))"
proof -
  have d: "run_decision Map.empty sample_turns = {sample_edit ''clang_format'' ''b'' ''c''}"
    by code_simp
  let ?old = "sample_edit ''naming_conventions'' ''a'' ''b''"
  let ?new = "sample_edit ''clang_format'' ''b'' ''c''"
  have mem: "?old \<in> proposed_edits sample_turns" "?new \<in> run_decision Map.empty sample_turns"
  proof -
    show "?old \<in> proposed_edits sample_turns"
      by (simp add: proposed_edits_def sample_turns_def unchanged_def)
    show "?new \<in> run_decision Map.empty sample_turns" by (simp add: d)
  qed
  have eff: "effective ?old" "effective ?new" "e_line ?old = e_line ?new"
    by (simp_all add: effective_def sample_edit_def)
  have "priority_of (controller_with_profiles Map.empty) (edit_owner ?old)
      \<le> priority_of (controller_with_profiles Map.empty) (edit_owner ?new)"
    using highest_priority_wins [OF sample_owned mem(2) eff(2)] mem(1) eff by blast
  with d show ?thesis by (simp add: controller_new_def)
qed

theorem contested_line_kept_witness:
  "\<exists>e' \<in> run_decision Map.empty sample_turns. effective e' \<and> e_line e' = 1"
  using contested_line_kept [OF sample_owned, of "sample_edit ''clang_format'' ''b'' ''c''" Map.empty]
  by (simp add: proposed_edits_def sample_turns_def unchanged_def effective_def sample_edit_def)

text \<open>
  The controller restores dropped lines by their index in the old text, also when the
  policy has inserted lines: a line inserted at the top and a dropped edit further down leave
  one line of code doubled and another one gone.
\<close>

theorem nonlocal_drop_corrupts:
  "let before = text_of [''a'', ''b'', ''c''];
       result = unchanged\<lparr>pr_text := text_of [''x'', ''a'', ''B'', ''c''], pr_changed := True,
         pr_edits := [\<lparr>e_policy = policy_from_str_lossy ''p'', e_line = 1, e_before = [], e_after = ''x''\<rparr>,
                      \<lparr>e_policy = policy_from_str_lossy ''p'', e_line = 2, e_before = ''b'', e_after = ''B''\<rparr>]\<rparr>
   in pr_text (convergence_line_suppression before result {2}) = text_of [''x'', ''b'', ''B'', ''c'']"
  by code_simp

end
