(* ===== verification/Conflict_Model.thy ===== *)
theory Conflict_Model
  imports Catalog Complex_Main
begin

unbundle bit_operations_syntax

text \<open>
  The data of the conflict solver: edit candidates (\<^verbatim>\<open>src/src/engine/edit_candidate.rs\<close>), the
  specification table of the semantic contract (\<^verbatim>\<open>src/src/engine/semantic_contract.rs\<close>), the
  weights the certainty filter derives for the solver
  (\<^verbatim>\<open>src/src/engine/certainty_filter.rs\<close>), and the scoring and conflict relation of
  \<^verbatim>\<open>src/src/engine/conflict_solver.rs\<close>.

  An \<open>f64\<close> is a real number here: the arithmetic is exact, there is no NaN and \<open>total_cmp\<close>
  is the order of the reals.  Decimal constants are written as in the code.
\<close>

section \<open>Candidates\<close>

record edit_candidate =
  ec_policy :: rstr
  ec_line :: nat
  ec_confidence :: real
  ec_style_gain :: real
  ec_risk_tier :: candidate_risk_tier
  ec_impact_radius :: nat
  ec_symbol_footprint :: "u64 list"
  ec_range_footprint :: "(nat \<times> nat) list"
  ec_hard_constraints_touched :: u16
  ec_zone :: policy_zone
  ec_after_fingerprint :: u64

section \<open>The clauses of the semantic contract\<close>

definition all_clauses :: "semantic_invariant_clause list" where
  "all_clauses =
     [ParserAvailability, ParseQuality, SymbolIdentity, ScopeIntegrity, UsageRoleConsistency,
      MacroRegionSafety, DeclarationReferenceIntegrity, EditSafety]"

fun clause_bit :: "semantic_invariant_clause \<Rightarrow> u16" where
  "clause_bit ParserAvailability = push_bit 0 1"
| "clause_bit ParseQuality = push_bit 1 1"
| "clause_bit SymbolIdentity = push_bit 2 1"
| "clause_bit ScopeIntegrity = push_bit 3 1"
| "clause_bit UsageRoleConsistency = push_bit 4 1"
| "clause_bit MacroRegionSafety = push_bit 5 1"
| "clause_bit DeclarationReferenceIntegrity = push_bit 6 1"
| "clause_bit EditSafety = push_bit 7 1"

record semantic_invariant_spec =
  is_clause :: semantic_invariant_clause
  is_hard :: bool
  is_description :: rstr

definition invariant_specs :: "semantic_invariant_spec list" where
  "invariant_specs =
     [\<lparr>is_clause = ParserAvailability, is_hard = True,
       is_description = ''tree-sitter and clang parsers must both be available for semantic checks''\<rparr>,
      \<lparr>is_clause = ParseQuality, is_hard = True,
       is_description = ''tree parse-error ratio and clang diagnostics must stay within configured budgets''\<rparr>,
      \<lparr>is_clause = SymbolIdentity, is_hard = True,
       is_description = ''symbols must keep deterministic, stable identity without provenance drift''\<rparr>,
      \<lparr>is_clause = ScopeIntegrity, is_hard = True,
       is_description = ''scope topology must remain stable unless explicitly tolerated''\<rparr>,
      \<lparr>is_clause = UsageRoleConsistency, is_hard = True,
       is_description = ''reference usage roles must remain consistent with declaration kind identity''\<rparr>,
      \<lparr>is_clause = MacroRegionSafety, is_hard = False,
       is_description = ''macro/preprocessor edits are flagged for review unless explicitly protected by policy contract''\<rparr>,
      \<lparr>is_clause = DeclarationReferenceIntegrity, is_hard = True,
       is_description = ''declaration-reference connectivity for stable symbols must not regress beyond tolerance''\<rparr>,
      \<lparr>is_clause = EditSafety, is_hard = True,
       is_description = ''post-edit semantic readiness must not regress from baseline''\<rparr>]"

definition invariant_spec :: "semantic_invariant_clause \<Rightarrow> semantic_invariant_spec option" where
  "invariant_spec clause = find (\<lambda>item. is_clause item = clause) invariant_specs"

section \<open>The certainty filter as the solver sees it\<close>

record certainty_filter_state =
  cs_estimates :: "real list"
  cs_covariance :: "real list list"
  cs_adaptive_q :: "real list list"
  cs_adaptive_r :: "real list list"
  cs_legacy_adaptation_count :: nat
  cs_observation_count :: nat

definition clamp :: "real \<Rightarrow> real \<Rightarrow> real \<Rightarrow> real" where
  "clamp x low high = (if x < low then low else if high < x then high else x)"

definition variance :: "certainty_filter_state \<Rightarrow> nat \<Rightarrow> real" where
  "variance s d = cs_covariance s ! d ! d"

definition stabilizer_bonus :: "certainty_filter_state \<Rightarrow> nat \<Rightarrow> real" where
  "stabilizer_bonus s risk_tier_index =
     (let e0 = cs_estimates s ! 0 in
      if risk_tier_index = 0 then e0 * 0.11764705882352941
      else if risk_tier_index = 1 then e0 * 0.05882352941176471
      else 0)"

definition scope_bonus :: "certainty_filter_state \<Rightarrow> nat \<Rightarrow> real" where
  "scope_bonus s risk_tier_index =
     (let e2 = cs_estimates s ! 2 in if risk_tier_index = 0 then e2 * 0.16 else e2 * 0.08)"

definition risk_penalty :: "certainty_filter_state \<Rightarrow> nat \<Rightarrow> real" where
  "risk_penalty s risk_tier_index =
     (let complement = 1 - cs_estimates s ! 4 in
      if risk_tier_index = 2 then complement
      else if risk_tier_index = 1 then complement * 0.3333333333333333
      else 0)"

definition footprint_weights :: "certainty_filter_state \<Rightarrow> real \<times> real" where
  "footprint_weights s = (let v3 = variance s 3 in (v3 * 0.2, v3 * 0.1))"

definition component_threshold :: "certainty_filter_state \<Rightarrow> nat" where
  "component_threshold s = nat \<lfloor>clamp (cs_estimates s ! 3 * 32) 8 64\<rfloor>"

definition fuzzy_min_semantic :: "certainty_filter_state \<Rightarrow> nat" where
  "fuzzy_min_semantic s = nat \<lfloor>clamp (variance s 1 * 30) 1 8\<rfloor>"

definition certainty_default :: certainty_filter_state where
  "certainty_default =
     \<lparr>cs_estimates = [0.85, 0.50, 0.50, 0.50, 0.85],
      cs_covariance =
        [[0.05, 0, 0, 0, 0], [0, 0.10, 0, 0, 0], [0, 0, 0.10, 0, 0], [0, 0, 0, 0.10, 0], [0, 0, 0, 0, 0.05]],
      cs_adaptive_q =
        [[0.0001, 0, 0, 0, 0], [0, 0.0001, 0, 0, 0], [0, 0, 0.00005, 0, 0], [0, 0, 0, 0.00005, 0], [0, 0, 0, 0, 0.001]],
      cs_adaptive_r =
        [[0.002, 0, 0, 0, 0], [0, 0.002, 0, 0, 0], [0, 0, 0.003, 0, 0], [0, 0, 0, 0.005, 0], [0, 0, 0, 0, 0.02]],
      cs_legacy_adaptation_count = 0, cs_observation_count = 0\<rparr>"

section \<open>Utility and hard constraints\<close>

definition risk_tier_index :: "candidate_risk_tier \<Rightarrow> nat" where
  "risk_tier_index t = (case t of Low \<Rightarrow> 0 | Medium \<Rightarrow> 1 | High \<Rightarrow> 2)"

definition scope_narrowness :: "retry_scope_stage \<Rightarrow> real" where
  "scope_narrowness stage =
     (case stage of Full \<Rightarrow> 0 | CulpritRegion \<Rightarrow> 0.5 | NodeLocal \<Rightarrow> 1 | LineLocal \<Rightarrow> 1)"

definition utility_score ::
    "edit_candidate \<Rightarrow> retry_scope_stage \<Rightarrow> certainty_filter_state \<Rightarrow> real" where
  "utility_score candidate scope_stage adaptive =
     (let tier = risk_tier_index (ec_risk_tier candidate);
          stab = stabilizer_bonus adaptive tier;
          scope = scope_narrowness scope_stage * scope_bonus adaptive tier;
          risk = risk_penalty adaptive tier;
          (range_weight, symbol_weight) = footprint_weights adaptive;
          footprint_penalty =
            min (real (length (ec_range_footprint candidate)) * range_weight
                 + real (length (ec_symbol_footprint candidate)) * symbol_weight) 0.30;
          style_weight = 1;
          confidence_weight = 1
      in ec_style_gain candidate * style_weight + ec_confidence candidate * confidence_weight
           + stab + scope - risk - footprint_penalty)"

definition violates_hard_constraints :: "edit_candidate \<Rightarrow> bool" where
  "violates_hard_constraints candidate =
     list_ex (\<lambda>clause. case invariant_spec clause of None \<Rightarrow> True | Some spec \<Rightarrow> is_hard spec)
       (filter (\<lambda>clause. ec_hard_constraints_touched candidate AND clause_bit clause \<noteq> 0) all_clauses)"

section \<open>Conflicts\<close>

definition ranges_overlap :: "(nat \<times> nat) list \<Rightarrow> (nat \<times> nat) list \<Rightarrow> bool" where
  "ranges_overlap left right =
     (if left = [] \<or> right = [] then False
      else list_ex (\<lambda>(left_start, left_end).
             list_ex (\<lambda>(right_start, right_end). left_start \<le> right_end \<and> right_start \<le> left_end) right)
           left)"

definition symbols_overlap :: "u64 list \<Rightarrow> u64 list \<Rightarrow> bool" where
  "symbols_overlap left right =
     (if left = [] \<or> right = [] then False
      else let (small, large) = (if length left \<le> length right then (left, right) else (right, left))
           in list_ex (\<lambda>symbol.
                binary_search_by (\<lambda>x. symbol < x) (\<lambda>x. x = symbol) large \<noteq> None) small)"

definition abs_diff :: "nat \<Rightarrow> nat \<Rightarrow> nat" where
  "abs_diff a b = (if a \<le> b then b - a else a - b)"

definition conflicts :: "edit_candidate \<Rightarrow> edit_candidate \<Rightarrow> certainty_filter_state \<Rightarrow> bool" where
  "conflicts left right adaptive =
     (if ec_policy left = ec_policy right then ec_line left = ec_line right
      else if bypasses_line_conflict policy_catalog (ec_policy left)
              \<or> bypasses_line_conflict policy_catalog (ec_policy right) then False
      else if ec_line left = ec_line right then True
      else if ranges_overlap (ec_range_footprint left) (ec_range_footprint right) then True
      else
        let gap = abs_diff (ec_line left) (ec_line right);
            radius = max (ec_impact_radius left) (ec_impact_radius right);
            semantic_sensitive =
              is_semantic_rewrite policy_catalog (ec_policy left)
              \<or> is_semantic_rewrite policy_catalog (ec_policy right)
              \<or> ec_risk_tier left = High \<or> ec_risk_tier right = High;
            fuzzy_min = (if semantic_sensitive then fuzzy_min_semantic adaptive else 1)
        in if symbols_overlap (ec_symbol_footprint left) (ec_symbol_footprint right)
              \<and> gap \<le> max radius fuzzy_min then True
           else (ec_zone left = Preprocessor \<or> ec_zone right = Preprocessor)
                \<and> ec_after_fingerprint left \<noteq> ec_after_fingerprint right
                \<and> (ranges_overlap (ec_range_footprint left) (ec_range_footprint right) \<or> gap \<le> radius))"

section \<open>Lemmas\<close>

text \<open>On sorted footprints, as the proposer makes them, the search is membership.\<close>

lemma symbols_overlap_sorted:
  assumes "sorted_wrt (<) left" "sorted_wrt (<) right"
  shows "symbols_overlap left right \<longleftrightarrow> set left \<inter> set right \<noteq> {}"
proof -
  have s: "binary_search_by (\<lambda>x. y < x) (\<lambda>x. x = y) xs \<noteq> None \<longleftrightarrow> y \<in> set xs"
    if "sorted_wrt (<) xs" for xs :: "u64 list" and y
  proof -
    have "sorted_wrt (\<lambda>a b. (y < a \<longrightarrow> y < b) \<and> (a = y \<longrightarrow> b = y \<or> y < b)) xs"
      by (rule sorted_wrt_mono_rel [OF _ that]) auto
    from binary_search_by_iff [OF this] show ?thesis by (auto simp: list_ex_iff)
  qed
  show ?thesis
    using assms by (auto simp: symbols_overlap_def s list_ex_iff Let_def simp del: not_None_eq)
qed

lemma ranges_overlap_sym: "ranges_overlap a b \<longleftrightarrow> ranges_overlap b a"
  by (auto simp: ranges_overlap_def list_ex_iff)

lemma abs_diff_sym: "abs_diff a b = abs_diff b a"
  by (auto simp: abs_diff_def)

definition sorted_footprint :: "edit_candidate \<Rightarrow> bool" where
  "sorted_footprint c \<longleftrightarrow> sorted_wrt (<) (ec_symbol_footprint c)"

lemma conflicts_sym:
  assumes "sorted_footprint a" "sorted_footprint b"
  shows "conflicts a b s \<longleftrightarrow> conflicts b a s"
proof -
  have "symbols_overlap (ec_symbol_footprint a) (ec_symbol_footprint b)
      \<longleftrightarrow> symbols_overlap (ec_symbol_footprint b) (ec_symbol_footprint a)"
    using assms by (auto simp: sorted_footprint_def symbols_overlap_sorted)
  then show ?thesis
    using ranges_overlap_sym [of "ec_range_footprint a"] abs_diff_sym [of "ec_line a"]
    unfolding conflicts_def Let_def
    by (simp only: max.commute [of "ec_impact_radius a"] eq_commute [of "ec_line a"]
        eq_commute [of "ec_policy a"] disj_commute eq_commute [of "ec_after_fingerprint a"]) argo
qed

text \<open>Exactly a touched clause other than macro-region safety blocks a candidate.\<close>

lemma violates_hard_iff:
  "violates_hard_constraints c \<longleftrightarrow>
     (\<exists>clause. clause \<noteq> MacroRegionSafety \<and> ec_hard_constraints_touched c AND clause_bit clause \<noteq> 0)"
  (is "_ = ?rhs")
proof -
  have spec: "(case invariant_spec clause of None \<Rightarrow> True | Some spec \<Rightarrow> is_hard spec)
      \<longleftrightarrow> clause \<noteq> MacroRegionSafety" for clause
    by (cases clause) (simp_all add: invariant_spec_def invariant_specs_def)
  have all: "clause \<in> set all_clauses" for clause
    by (cases clause) (simp_all add: all_clauses_def)
  show ?thesis
    unfolding violates_hard_constraints_def spec using all by (auto simp: list_ex_iff)
qed

end
