(* ===== verification/Conflict_Search.thy ===== *)
theory Conflict_Search
  imports Conflict_Model "HOL-Library.Product_Lexorder"
begin

text \<open>
  The graph algorithms of \<^verbatim>\<open>src/src/engine/conflict_solver.rs\<close>: the conflict graph of the
  admissible candidates as adjacency lists, its connected components, and the two ways a
  component is solved, the exact branch and bound search and the greedy one.  The contract of
  both is the locale \<open>component_solver\<close>.
\<close>

section \<open>The conflict graph\<close>

definition push_at :: "nat \<Rightarrow> nat \<Rightarrow> nat list list \<Rightarrow> nat list list" where
  "push_at i x adjacency = adjacency[i := adjacency ! i @ [x]]"

definition add_edge ::
    "edit_candidate list \<Rightarrow> certainty_filter_state \<Rightarrow> nat \<times> nat \<Rightarrow> nat list list \<Rightarrow> nat list list" where
  "add_edge admissible adaptive = (\<lambda>(left, right) adjacency.
     if conflicts (admissible ! left) (admissible ! right) adaptive
     then push_at right left (push_at left right adjacency) else adjacency)"

definition build_conflict_adjacency ::
    "edit_candidate list \<Rightarrow> certainty_filter_state \<Rightarrow> nat list list" where
  "build_conflict_adjacency admissible adaptive =
     map (\<lambda>neighbors. remdups_adj (sort neighbors))
       (fold (add_edge admissible adaptive)
         (concat (map (\<lambda>left. map (Pair left) [left + 1..<length admissible]) [0..<length admissible]))
         (replicate (length admissible) []))"

section \<open>Connected components\<close>

text \<open>
  One round of the depth first search marks the unvisited neighbours of a node and pushes
  them.  The top of the stack is the head of the list.
\<close>

definition visit_neighbor :: "nat \<Rightarrow> bool list \<times> nat list \<Rightarrow> bool list \<times> nat list" where
  "visit_neighbor neighbor = (\<lambda>(visited, stack).
     if neighbor < length visited \<and> \<not> visited ! neighbor
     then (visited[neighbor := True], neighbor # stack) else (visited, stack))"

definition unvisited :: "bool list \<Rightarrow> nat" where
  "unvisited visited = length (filter Not visited)"

lemma unvisited_mark:
  "n < length visited \<Longrightarrow> \<not> visited ! n \<Longrightarrow> Suc (unvisited (visited[n := True])) = unvisited visited"
proof (induction visited arbitrary: n)
  case (Cons v visited)
  then show ?case by (cases n) (auto simp: unvisited_def)
qed simp

lemma visit_neighbors_measure:
  "fold visit_neighbor ns (visited, stack) = (visited', stack') \<Longrightarrow>
     2 * unvisited visited' + length stack' \<le> 2 * unvisited visited + length stack"
proof (induction ns arbitrary: visited stack)
  case (Cons n ns)
  show ?case
  proof (cases "n < length visited \<and> \<not> visited ! n")
    case True
    then have "visit_neighbor n (visited, stack) = (visited[n := True], n # stack)"
      by (simp add: visit_neighbor_def)
    with Cons.IH Cons.prems unvisited_mark [of n visited] True show ?thesis by fastforce
  next
    case False
    with Cons show ?thesis by (auto simp: visit_neighbor_def)
  qed
qed simp

function component_loop ::
    "nat list list \<Rightarrow> bool list \<Rightarrow> nat list \<Rightarrow> nat list \<Rightarrow> bool list \<times> nat list" where
  "component_loop adjacency visited [] component = (visited, component)"
| "component_loop adjacency visited (node # stack) component =
     (let (visited', stack') = fold visit_neighbor (adjacency ! node) (visited, stack)
      in component_loop adjacency visited' stack' (component @ [node]))"
  by pat_completeness auto
termination
  by (relation "measure (\<lambda>(adjacency, visited, stack, component). 2 * unvisited visited + length stack)")
    (auto dest!: sym [of "(_, _)" "fold _ _ _"] visit_neighbors_measure)

definition visit_seed ::
    "nat list list \<Rightarrow> nat \<Rightarrow> bool list \<times> nat list list \<Rightarrow> bool list \<times> nat list list" where
  "visit_seed adjacency seed = (\<lambda>(visited, components).
     if visited ! seed then (visited, components)
     else let (visited', component) =
                component_loop adjacency (visited[seed := True]) [seed] []
          in (visited', components @ [sort component]))"

definition connected_components :: "nat list list \<Rightarrow> nat list list" where
  "connected_components adjacency =
     sort (snd (fold (visit_seed adjacency) [0..<length adjacency]
       (replicate (length adjacency) False, [])))"

section \<open>Solving a component\<close>

definition candidate_before ::
    "edit_candidate list \<Rightarrow> retry_scope_stage \<Rightarrow> certainty_filter_state \<Rightarrow> nat \<Rightarrow> nat \<Rightarrow> bool" where
  "candidate_before admissible scope_stage adaptive left right =
     (let l = admissible ! left; r = admissible ! right;
          lu = utility_score l scope_stage adaptive; ru = utility_score r scope_stage adaptive;
          lp = precedence_score (ec_risk_tier l); rp = precedence_score (ec_risk_tier r)
      in if lu \<noteq> ru then ru < lu
         else if ec_confidence l \<noteq> ec_confidence r then ec_confidence r < ec_confidence l
         else if lp \<noteq> rp then rp < lp
         else if ec_line l \<noteq> ec_line r then ec_line l < ec_line r
         else ec_policy l \<le> ec_policy r)"

definition order_component ::
    "edit_candidate list \<Rightarrow> retry_scope_stage \<Rightarrow> certainty_filter_state \<Rightarrow> nat list \<Rightarrow> nat list" where
  "order_component admissible scope_stage adaptive component =
     sort_by (candidate_before admissible scope_stage adaptive) component"

definition greedy_step :: "nat list list \<Rightarrow> nat \<Rightarrow> nat list \<times> nat set \<Rightarrow> nat list \<times> nat set" where
  "greedy_step adjacency index = (\<lambda>(selected, blocked).
     if index \<in> blocked then (selected, blocked)
     else (selected @ [index], insert index blocked \<union> set (adjacency ! index)))"

definition solve_component_greedy ::
    "edit_candidate list \<Rightarrow> nat list list \<Rightarrow> nat list \<Rightarrow> retry_scope_stage \<Rightarrow> certainty_filter_state
      \<Rightarrow> nat list" where
  "solve_component_greedy admissible adjacency component scope_stage adaptive =
     fst (fold (greedy_step adjacency)
       (order_component admissible scope_stage adaptive component) ([], {}))"

subsection \<open>The exact search\<close>

text \<open>\<open>f64::MIN\<close>.\<close>

definition f64_min :: real where
  "f64_min = - (2 ^ 1024 - 2 ^ 971)"

definition tolerance :: real where
  "tolerance = 0.000001"

record search_input =
  si_n :: nat
  si_conflicts :: "nat list list"
  si_weights :: "real list"
  si_suffix :: "real list"
  si_keys :: "(nat \<times> rstr) list"

record search_state =
  ss_blocked :: "bool list"
  ss_current :: "nat list"
  ss_best_score :: real
  ss_best_set :: "nat list"

definition tie_keys :: "search_input \<Rightarrow> nat list \<Rightarrow> (nat \<times> rstr) list" where
  "tie_keys inp positions = sort (map ((!) (si_keys inp)) positions)"

definition better_tie_break :: "search_input \<Rightarrow> search_state \<Rightarrow> bool" where
  "better_tie_break inp st \<longleftrightarrow> tie_keys inp (ss_current st) < tie_keys inp (ss_best_set st)"

definition leaf :: "search_input \<Rightarrow> real \<Rightarrow> search_state \<Rightarrow> search_state" where
  "leaf inp running_score st =
     (let is_better = running_score > ss_best_score st + tolerance;
          is_tie = \<bar>running_score - ss_best_score st\<bar> \<le> tolerance
      in if is_better \<or> (is_tie \<and> better_tie_break inp st)
         then st\<lparr>ss_best_score := running_score, ss_best_set := ss_current st\<rparr> else st)"

text \<open>
  Taking a position blocks it and its later conflicts; \<open>toggled\<close> are those that were not
  blocked before.
\<close>

definition newly_blocked :: "search_input \<Rightarrow> nat \<Rightarrow> bool list \<Rightarrow> nat list" where
  "newly_blocked inp position blocked =
     position # filter (\<lambda>neighbor. \<not> blocked[position := True] ! neighbor) (si_conflicts inp ! position)"

definition set_all :: "bool \<Rightarrow> nat list \<Rightarrow> bool list \<Rightarrow> bool list" where
  "set_all v positions blocked = fold (\<lambda>i b. b[i := v]) positions blocked"

function dfs :: "search_input \<Rightarrow> nat \<Rightarrow> real \<Rightarrow> search_state \<Rightarrow> search_state" where
  "dfs inp position running_score st =
     (if position \<ge> si_n inp then leaf inp running_score st
      else if running_score + si_suffix inp ! position + tolerance < ss_best_score st then st
      else
        let st = (if \<not> ss_blocked st ! position
                  then
                    let toggled = newly_blocked inp position (ss_blocked st);
                        st1 = dfs inp (Suc position) (running_score + si_weights inp ! position)
                                (st\<lparr>ss_blocked := set_all True toggled (ss_blocked st),
                                    ss_current := ss_current st @ [position]\<rparr>)
                    in st1\<lparr>ss_current := butlast (ss_current st1),
                           ss_blocked := set_all False toggled (ss_blocked st1)\<rparr>
                  else st)
        in dfs inp (Suc position) running_score st)"
  by pat_completeness auto
termination
  by (relation "measure (\<lambda>(inp, position, running_score, st). si_n inp - position)") auto

declare dfs.simps [simp del]

definition suffix_sums :: "real list \<Rightarrow> real list" where
  "suffix_sums weights =
     foldr (\<lambda>w acc. (hd acc + w) # acc) weights [0]"

definition search_input_of ::
    "edit_candidate list \<Rightarrow> nat list list \<Rightarrow> nat list \<Rightarrow> retry_scope_stage \<Rightarrow> certainty_filter_state
      \<Rightarrow> search_input" where
  "search_input_of admissible adjacency ordered scope_stage adaptive =
     (let weights = map (\<lambda>index. max (utility_score (admissible ! index) scope_stage adaptive) 0) ordered;
          index_by_node = map_of (rev (zip ordered [0..<length ordered]))
      in \<lparr>si_n = length ordered,
          si_conflicts = map (\<lambda>(position, node).
            remdups_adj (sort (filter (\<lambda>p. p > position)
              (List.map_filter index_by_node (adjacency ! node))))) (zip [0..<length ordered] ordered),
          si_weights = weights,
          si_suffix = suffix_sums weights,
          si_keys = map (\<lambda>index. (ec_line (admissible ! index), ec_policy (admissible ! index))) ordered\<rparr>)"

definition solve_component_exact ::
    "edit_candidate list \<Rightarrow> nat list list \<Rightarrow> nat list \<Rightarrow> retry_scope_stage \<Rightarrow> certainty_filter_state
      \<Rightarrow> nat list" where
  "solve_component_exact admissible adjacency component scope_stage adaptive =
     (let ordered = order_component admissible scope_stage adaptive component;
          inp = search_input_of admissible adjacency ordered scope_stage adaptive;
          st = dfs inp 0 0 \<lparr>ss_blocked = replicate (length ordered) False, ss_current = [],
                             ss_best_score = f64_min, ss_best_set = []\<rparr>
      in map ((!) ordered) (ss_best_set st))"

section \<open>The adjacency lists\<close>

definition conflict_graph :: "nat list list \<Rightarrow> bool" where
  "conflict_graph adjacency \<longleftrightarrow>
     (\<forall>i < length adjacency. i \<notin> set (adjacency ! i)
        \<and> (\<forall>j \<in> set (adjacency ! i). j < length adjacency \<and> i \<in> set (adjacency ! j)))"

lemma conflict_graphD:
  assumes "conflict_graph adj" "i < length adj" "j \<in> set (adj ! i)"
  shows "j < length adj" "i \<in> set (adj ! j)"
  using assms unfolding conflict_graph_def by blast+

lemma conflict_graph_irrefl: "conflict_graph adj \<Longrightarrow> i < length adj \<Longrightarrow> i \<notin> set (adj ! i)"
  unfolding conflict_graph_def by blast

definition candidates_clash :: "edit_candidate list \<Rightarrow> certainty_filter_state \<Rightarrow> nat \<Rightarrow> nat \<Rightarrow> bool" where
  "candidates_clash admissible adaptive i j \<longleftrightarrow>
     (i < j \<and> conflicts (admissible ! i) (admissible ! j) adaptive)
     \<or> (j < i \<and> conflicts (admissible ! j) (admissible ! i) adaptive)"

lemma add_edges_spec:
  assumes "\<forall>(l, r) \<in> set ps. l < length adj \<and> r < length adj \<and> l \<noteq> r"
  shows "length (fold (add_edge cands s) ps adj) = length adj
    \<and> (\<forall>i < length adj. set (fold (add_edge cands s) ps adj ! i) = set (adj ! i)
        \<union> {j. (i, j) \<in> set ps \<and> conflicts (cands ! i) (cands ! j) s}
        \<union> {j. (j, i) \<in> set ps \<and> conflicts (cands ! j) (cands ! i) s})"
  using assms
proof (induction ps arbitrary: adj)
  case (Cons p ps)
  obtain l r where p: "p = (l, r)" by force
  let ?adj = "add_edge cands s p adj"
  have len: "length ?adj = length adj" by (simp add: add_edge_def p push_at_def)
  have set1: "i < length adj \<Longrightarrow> set (?adj ! i) = set (adj ! i)
      \<union> {j. (i, j) = p \<and> conflicts (cands ! i) (cands ! j) s}
      \<union> {j. (j, i) = p \<and> conflicts (cands ! j) (cands ! i) s}" for i
    using Cons.prems by (auto simp: add_edge_def p push_at_def nth_list_update)
  from Cons.IH [of ?adj] Cons.prems len set1 show ?case by auto
qed simp

lemma adjacency_spec:
  fixes cands s
  defines "adj \<equiv> build_conflict_adjacency cands s"
  shows "length adj = length cands"
    and "i < length cands \<Longrightarrow> set (adj ! i) = {j. j < length cands \<and> candidates_clash cands s i j}"
proof -
  let ?ps = "concat (map (\<lambda>left. map (Pair left) [left + 1..<length cands]) [0..<length cands])"
  have ps: "(l, r) \<in> set ?ps \<longleftrightarrow> l < r \<and> r < length cands" for l r
    by (auto intro!: bexI [of _ l])
  have ok: "\<forall>(l, r) \<in> set ?ps. l < length (replicate (length cands) ([] :: nat list))
      \<and> r < length (replicate (length cands) ([] :: nat list)) \<and> l \<noteq> r"
    using ps by auto
  note spec = add_edges_spec [OF ok, of cands s]
  show "length adj = length cands"
    using spec by (simp add: adj_def build_conflict_adjacency_def del: set_concat)
  show "i < length cands \<Longrightarrow> set (adj ! i) = {j. j < length cands \<and> candidates_clash cands s i j}"
    using spec unfolding ps
    by (auto simp: adj_def build_conflict_adjacency_def candidates_clash_def simp del: set_concat)
qed

lemma conflict_graph_adjacency: "conflict_graph (build_conflict_adjacency cands s)"
  by (auto simp: conflict_graph_def adjacency_spec candidates_clash_def)

section \<open>The components partition the graph\<close>

definition marked :: "bool list \<Rightarrow> nat set" where
  "marked visited = {i. i < length visited \<and> visited ! i}"

lemma marked_update: "i < length visited \<Longrightarrow> marked (visited[i := True]) = insert i (marked visited)"
  by (auto simp: marked_def nth_list_update split: if_splits)

lemma visit_neighbor_eq:
  "visit_neighbor n (visited, stack) =
     (if n < length visited \<and> \<not> visited ! n then (visited[n := True], n # stack) else (visited, stack))"
  by (simp add: visit_neighbor_def)

lemma visit_neighbors_spec:
  assumes "fold visit_neighbor ns (visited, stack) = (visited', stack')"
    and "\<forall>n \<in> set ns. n < length visited" "distinct stack" "set stack \<subseteq> marked visited"
  shows "length visited' = length visited \<and> marked visited' = marked visited \<union> set ns
    \<and> set stack' = set stack \<union> (set ns - marked visited) \<and> distinct stack'"
  using assms
proof (induction ns arbitrary: visited stack)
  case (Cons n ns)
  show ?case
  proof (cases "visited ! n")
    case True
    then have "n \<in> marked visited" using Cons.prems by (simp add: marked_def)
    with True Cons show ?thesis by (auto simp: visit_neighbor_eq)
  next
    case False
    then have n: "n < length visited" "n \<notin> marked visited" using Cons.prems by (auto simp: marked_def)
    have "fold visit_neighbor ns (visited[n := True], n # stack) = (visited', stack')"
      using Cons.prems(1) False n by (simp add: visit_neighbor_eq)
    moreover have "distinct (n # stack)" "set (n # stack) \<subseteq> marked (visited[n := True])"
      "\<forall>m \<in> set ns. m < length (visited[n := True])"
      using Cons.prems(2-4) n by (auto simp: marked_update)
    ultimately have "length visited' = length visited \<and> marked visited' = insert n (marked visited) \<union> set ns
        \<and> set stack' = insert n (set stack) \<union> (set ns - insert n (marked visited)) \<and> distinct stack'"
      using Cons.IH n by (simp add: marked_update)
    with Cons.prems(4) n show ?thesis by auto
  qed
qed simp

definition loop_invariant ::
    "nat list list \<Rightarrow> nat set \<Rightarrow> bool list \<Rightarrow> nat list \<Rightarrow> nat list \<Rightarrow> bool" where
  "loop_invariant adj old visited stack component \<longleftrightarrow>
     length visited = length adj
   \<and> marked visited = old \<union> set stack \<union> set component
   \<and> distinct (stack @ component) \<and> old \<inter> (set stack \<union> set component) = {}
   \<and> (\<forall>c \<in> set component. set (adj ! c) \<subseteq> marked visited)"

lemma loop_invariantD:
  assumes "loop_invariant adj old visited stack component"
  shows "length visited = length adj"
    and "marked visited = old \<union> set stack \<union> set component"
    and "distinct (stack @ component)"
    and "old \<inter> (set stack \<union> set component) = {}"
    and "\<forall>c \<in> set component. set (adj ! c) \<subseteq> marked visited"
  using assms unfolding loop_invariant_def by blast+

lemma loop_invariant_step:
  assumes "conflict_graph adj" "loop_invariant adj old visited (node # stack) component"
    and "fold visit_neighbor (adj ! node) (visited, stack) = (visited', stack')"
  shows "loop_invariant adj old visited' stack' (component @ [node])"
proof -
  note d = loop_invariantD [OF assms(2)]
  have inv: "length visited = length adj" "marked visited = old \<union> set (node # stack) \<union> set component"
    "distinct (node # stack @ component)" "old \<inter> (set (node # stack) \<union> set component) = {}"
    using d(1-4) by simp_all
  note inv = inv d(5)
  have "node \<in> marked visited" using inv(2) by simp
  then have node: "node < length adj" using inv(1) by (simp add: marked_def)
  have nb: "\<forall>n \<in> set (adj ! node). n < length visited"
    using conflict_graphD(1) [OF assms(1) node] inv(1) by simp
  have "distinct stack" "set stack \<subseteq> marked visited" using inv(2,3) by auto
  note spec = visit_neighbors_spec [OF assms(3) nb this]
  have new: "set stack' = set stack \<union> (set (adj ! node) - marked visited)" using spec by simp
  have "set stack' \<inter> set (component @ [node]) = {}" using new inv(2,3) by auto
  moreover have "old \<inter> (set stack' \<union> set (component @ [node])) = {}" using new inv(2,4) by auto
  moreover have "\<forall>c \<in> set (component @ [node]). set (adj ! c) \<subseteq> marked visited'"
    using spec inv(5) by auto
  moreover have "marked visited' = old \<union> set stack' \<union> set (component @ [node])"
    using spec inv(2) by auto
  ultimately show ?thesis
    using spec inv(1,3) unfolding loop_invariant_def by simp
qed

lemma component_loop_spec:
  assumes "conflict_graph adj" "loop_invariant adj old visited stack component"
    and "component_loop adj visited stack component = (visited', component')"
  shows "loop_invariant adj old visited' [] component' \<and> set component \<union> set stack \<subseteq> set component'"
  using assms
proof (induction adj visited stack component rule: component_loop.induct)
  case (2 adj visited node stack component)
  obtain v s where f: "fold visit_neighbor (adj ! node) (visited, stack) = (v, s)" by force
  note inv = loop_invariant_step [OF "2.prems"(1,2) f]
  have "component_loop adj v s (component @ [node]) = (visited', component')"
    using "2.prems"(3) f by simp
  with "2.IH" [OF f [symmetric] refl "2.prems"(1) inv] have
    r: "loop_invariant adj old visited' [] component'" "set component \<union> {node} \<union> set s \<subseteq> set component'"
    by auto
  have "set stack \<subseteq> set s"
  proof -
    have "node \<in> marked visited" using "2.prems"(2) by (simp add: loop_invariant_def)
    then have nb: "\<forall>n \<in> set (adj ! node). n < length visited"
      using conflict_graphD(1) [OF "2.prems"(1), of node] loop_invariantD(1) [OF "2.prems"(2)]
      by (simp add: marked_def)
    have "distinct stack" "set stack \<subseteq> marked visited"
      using "2.prems"(2) by (auto simp: loop_invariant_def)
    from visit_neighbors_spec [OF f nb this] show ?thesis by simp
  qed
  with r show ?case by auto
qed simp

definition components_invariant :: "nat list list \<Rightarrow> bool list \<Rightarrow> nat list list \<Rightarrow> bool" where
  "components_invariant adj visited components \<longleftrightarrow>
     length visited = length adj
   \<and> marked visited = \<Union> (set ` set components)
   \<and> distinct components
   \<and> (\<forall>c \<in> set components. c \<noteq> [] \<and> distinct c \<and> (\<forall>i \<in> set c. set (adj ! i) \<subseteq> set c))
   \<and> (\<forall>c \<in> set components. \<forall>d \<in> set components. c \<noteq> d \<longrightarrow> set c \<inter> set d = {})"

lemma visit_seed_invariant:
  assumes "conflict_graph adj" "components_invariant adj visited components" "seed < length adj"
    and "visit_seed adj seed (visited, components) = (visited', components')"
  shows "components_invariant adj visited' components' \<and> insert seed (marked visited) \<subseteq> marked visited'"
proof (cases "visited ! seed")
  case True
  with assms show ?thesis by (auto simp: visit_seed_def components_invariant_def marked_def)
next
  case False
  have inv: "length visited = length adj" "marked visited = \<Union> (set ` set components)" "distinct components"
    "\<forall>c \<in> set components. c \<noteq> [] \<and> distinct c \<and> (\<forall>i \<in> set c. set (adj ! i) \<subseteq> set c)"
    "\<forall>c \<in> set components. \<forall>d \<in> set components. c \<noteq> d \<longrightarrow> set c \<inter> set d = {}"
    using assms(2) by (auto simp: components_invariant_def)
  obtain v c where l: "component_loop adj (visited[seed := True]) [seed] [] = (v, c)" by force
  have seed: "seed \<notin> marked visited" using False by (simp add: marked_def)
  have "loop_invariant adj (marked visited) (visited[seed := True]) [seed] []"
    using inv(1) assms(3) seed by (simp add: loop_invariant_def marked_update)
  from component_loop_spec [OF assms(1) this l]
  have loop: "loop_invariant adj (marked visited) v [] c" and "seed \<in> set c" by simp_all
  note d = loop_invariantD [OF loop]
  have c: "length v = length adj" "marked v = marked visited \<union> set c" "distinct c"
    "marked visited \<inter> set c = {}"
    using d(1-4) by simp_all
  note c = c d(5) \<open>seed \<in> set c\<close>
  have closed: "set (adj ! i) \<subseteq> set c" if i: "i \<in> set c" for i
  proof
    fix j assume j: "j \<in> set (adj ! i)"
    have "i \<in> marked v" using c(2) i by simp
    then have "i < length adj" using c(1) by (simp add: marked_def)
    then have "i \<in> set (adj ! j)" using conflict_graphD(2) [OF assms(1) _ j] by blast
    moreover have "set (adj ! j) \<subseteq> marked visited" if "j \<in> marked visited"
    proof -
      from that obtain d where "d \<in> set components" "j \<in> set d" unfolding inv(2) by blast
      with inv(4) show ?thesis unfolding inv(2) by blast
    qed
    ultimately have "j \<notin> marked visited" using i c(4) by blast
    with c(2,5) i j show "j \<in> set c" by blast
  qed
  have out: "visited' = v" "components' = components @ [sort c]"
    using assms(4) False l by (auto simp: visit_seed_def)
  have "set d \<inter> set c = {}" if "d \<in> set components" for d using that inv(2) c(4) by blast
  moreover have "sort c \<notin> set components" using calculation c(6) by (metis disjoint_iff set_sort)
  moreover have "sort c \<noteq> []" using c(6) by (metis empty_iff list.set(1) set_sort)
  moreover have "marked visited \<subseteq> marked v" using c(2) by auto
  moreover have "marked v = \<Union> (set ` set (components @ [sort c]))" using inv(2) c(2) by auto
  ultimately show ?thesis
    using inv(1,3-5) c closed unfolding out components_invariant_def
    by (simp add: Int_commute ball_Un)
qed

lemma connected_components_spec:
  assumes "conflict_graph adj"
  shows "\<Union> (set ` set (connected_components adj)) = {..<length adj}"
    and "distinct (connected_components adj)"
    and "c \<in> set (connected_components adj) \<Longrightarrow> c \<noteq> [] \<and> distinct c"
    and "c \<in> set (connected_components adj) \<Longrightarrow> i \<in> set c \<Longrightarrow> set (adj ! i) \<subseteq> set c"
    and "c \<in> set (connected_components adj) \<Longrightarrow> d \<in> set (connected_components adj) \<Longrightarrow> c \<noteq> d
          \<Longrightarrow> set c \<inter> set d = {}"
proof -
  have run: "components_invariant adj v cs \<and> {..<k} \<subseteq> marked v"
    if "k \<le> length adj" "fold (visit_seed adj) [0..<k] (replicate (length adj) False, []) = (v, cs)" for k v cs
    using that
  proof (induction k arbitrary: v cs)
    case 0
    then show ?case by (auto simp: components_invariant_def marked_def)
  next
    case (Suc k)
    obtain v0 cs0 where f: "fold (visit_seed adj) [0..<k] (replicate (length adj) False, []) = (v0, cs0)"
      by force
    with Suc have "components_invariant adj v0 cs0 \<and> {..<k} \<subseteq> marked v0" by simp
    moreover have "visit_seed adj k (v0, cs0) = (v, cs)" using Suc.prems f by simp
    ultimately show ?case
      using visit_seed_invariant [OF assms, of v0 cs0 k v cs] Suc.prems(1) by (auto simp: less_Suc_eq)
  qed
  obtain v cs where f: "fold (visit_seed adj) [0..<length adj] (replicate (length adj) False, []) = (v, cs)"
    by force
  have inv: "components_invariant adj v cs" and all: "{..<length adj} \<subseteq> marked v"
    using run [OF order.refl f] by auto
  have cc: "connected_components adj = sort cs" by (simp add: connected_components_def f)
  have "marked v = {..<length adj}"
    using all inv by (auto simp: components_invariant_def marked_def)
  with inv show "\<Union> (set ` set (connected_components adj)) = {..<length adj}"
    by (simp add: cc components_invariant_def)
  show "distinct (connected_components adj)" using inv by (simp add: cc components_invariant_def)
  show "c \<in> set (connected_components adj) \<Longrightarrow> c \<noteq> [] \<and> distinct c"
    using inv by (simp add: cc components_invariant_def)
  show "c \<in> set (connected_components adj) \<Longrightarrow> i \<in> set c \<Longrightarrow> set (adj ! i) \<subseteq> set c"
    using inv by (simp add: cc components_invariant_def)
  show "c \<in> set (connected_components adj) \<Longrightarrow> d \<in> set (connected_components adj) \<Longrightarrow> c \<noteq> d
          \<Longrightarrow> set c \<inter> set d = {}"
    using inv by (simp add: cc components_invariant_def)
qed

end
