(* ===== verification/Conflict_Optimal.thy ===== *)
theory Conflict_Optimal
  imports Conflict_Search
begin

text \<open>
  What the component solvers of \<^verbatim>\<open>src/src/engine/conflict_solver.rs\<close> guarantee: both select
  candidates without a conflict among them (the locale \<open>component_solver\<close>), the greedy one
  cannot be extended, and the exact one has the greatest total weight whenever different totals
  are further apart than its comparison tolerance.
\<close>

section \<open>The contract\<close>

definition conflict_free :: "nat list list \<Rightarrow> nat set \<Rightarrow> bool" where
  "conflict_free adj S \<longleftrightarrow> (\<forall>i \<in> S. \<forall>j \<in> S. j \<notin> set (adj ! i))"

locale component_solver =
  fixes solve :: "nat list list \<Rightarrow> nat list \<Rightarrow> nat list"
  assumes chosen: "conflict_graph adj \<Longrightarrow> distinct component \<Longrightarrow> set component \<subseteq> {..<length adj} \<Longrightarrow>
      set (solve adj component) \<subseteq> set component"
    and distinct_chosen: "conflict_graph adj \<Longrightarrow> distinct component \<Longrightarrow>
      set component \<subseteq> {..<length adj} \<Longrightarrow> distinct (solve adj component)"
    and independent_chosen: "conflict_graph adj \<Longrightarrow> distinct component \<Longrightarrow>
      set component \<subseteq> {..<length adj} \<Longrightarrow>
      conflict_free adj (set (solve adj component))"
begin

text \<open>Solving the components one by one solves the graph.\<close>

lemma solve_components:
  assumes "conflict_graph adj"
  defines "picked \<equiv> concat (map (solve adj) (connected_components adj))"
  shows "set picked \<subseteq> {..<length adj}" and "distinct picked" and "conflict_free adj (set picked)"
proof -
  note cc = connected_components_spec [OF assms(1)]
  have sub: "set c \<subseteq> {..<length adj}" if "c \<in> set (connected_components adj)" for c
    using that cc(1) by blast
  have ch: "set (solve adj c) \<subseteq> set c" if "c \<in> set (connected_components adj)" for c
    using chosen [OF assms(1)] cc(3) [OF that] sub [OF that] by blast
  show "set picked \<subseteq> {..<length adj}"
    using sub ch by (fastforce simp: picked_def)
  have disj: "set (solve adj c) \<inter> set (solve adj d) = {}"
    if "c \<in> set (connected_components adj)" "d \<in> set (connected_components adj)" "c \<noteq> d" for c d
    using cc(5) [OF that] ch [OF that(1)] ch [OF that(2)] by blast
  have dist: "distinct (solve adj c)" if "c \<in> set (connected_components adj)" for c
    using distinct_chosen [OF assms(1)] cc(3) [OF that] sub [OF that] by blast
  have "distinct (concat (map (solve adj) cs))"
    if "distinct cs" "set cs \<subseteq> set (connected_components adj)" for cs
    using that
  proof (induction cs)
    case (Cons c cs)
    have "set (solve adj c) \<inter> set (solve adj d) = {}" if "d \<in> set cs" for d
      using Cons.prems that by (intro disj) auto
    then have "set (solve adj c) \<inter> set (concat (map (solve adj) cs)) = {}" by auto
    with Cons dist show ?case by auto
  qed simp
  then show "distinct picked" using cc(2) by (simp add: picked_def)
  show "conflict_free adj (set picked)"
    unfolding conflict_free_def
  proof (intro ballI)
    fix i j assume i: "i \<in> set picked" and j: "j \<in> set picked"
    then obtain c d where c: "c \<in> set (connected_components adj)" "i \<in> set (solve adj c)"
      and d: "d \<in> set (connected_components adj)" "j \<in> set (solve adj d)"
      by (auto simp: picked_def)
    show "j \<notin> set (adj ! i)"
    proof (cases "c = d")
      case True
      have "conflict_free adj (set (solve adj c))"
        using independent_chosen [OF assms(1)] cc(3) [OF c(1)] sub [OF c(1)] by blast
      with True c d show ?thesis by (simp add: conflict_free_def)
    next
      case False
      have "set (adj ! i) \<subseteq> set c" using cc(4) c ch by blast
      with cc(5) [OF c(1) d(1) False] d ch show ?thesis by blast
    qed
  qed
qed

end

section \<open>The greedy solver\<close>

lemma greedy_step_eq:
  "greedy_step adj x (sel, blk) =
     (if x \<in> blk then (sel, blk) else (sel @ [x], insert x blk \<union> set (adj ! x)))"
  by (simp add: greedy_step_def)

lemma greedy_spec:
  assumes "fold (greedy_step adj) xs (sel, blk) = (sel', blk')"
    and "set sel \<subseteq> blk" "distinct sel" "\<forall>i \<in> set sel. set (adj ! i) \<subseteq> blk"
    and "conflict_graph adj" "set sel \<union> set xs \<subseteq> {..<length adj}"
    and "conflict_free adj (set sel)"
    and "blk = (\<Union>i \<in> set sel. insert i (set (adj ! i)))"
  shows "set sel' \<subseteq> set sel \<union> set xs \<and> distinct sel' \<and> conflict_free adj (set sel')
    \<and> set sel \<subseteq> set sel' \<and> (\<forall>x \<in> set xs. x \<in> (\<Union>i \<in> set sel'. insert i (set (adj ! i))))"
  using assms
proof (induction xs arbitrary: sel blk)
  case Nil
  then show ?case by simp
next
  case (Cons x xs)
  show ?case
  proof (cases "x \<in> blk")
    case True
    then have f: "fold (greedy_step adj) xs (sel, blk) = (sel', blk')"
      using Cons.prems(1) by (simp add: greedy_step_eq)
    from Cons.IH [OF f] Cons.prems have
      "set sel' \<subseteq> set sel \<union> set xs" "distinct sel'" "conflict_free adj (set sel')" "set sel \<subseteq> set sel'"
      "\<forall>x \<in> set xs. x \<in> (\<Union>i \<in> set sel'. insert i (set (adj ! i)))" by simp_all
    moreover have "x \<in> (\<Union>i \<in> set sel'. insert i (set (adj ! i)))"
      using True Cons.prems(8) calculation(4) by blast
    ultimately show ?thesis by auto
  next
    case False
    let ?blk = "insert x blk \<union> set (adj ! x)"
    have f: "fold (greedy_step adj) xs (sel @ [x], ?blk) = (sel', blk')"
      using Cons.prems(1) False by (simp add: greedy_step_eq)
    have x: "x < length adj" using Cons.prems(6) by simp
    have "s \<notin> set (adj ! x)" if "s \<in> set sel" for s
      using conflict_graphD(2) [OF Cons.prems(5) x] Cons.prems(4) False that by blast
    then have ind: "conflict_free adj (set (sel @ [x]))"
      using Cons.prems(4,7) False conflict_graph_irrefl [OF Cons.prems(5) x]
      by (auto simp: conflict_free_def)
    have blk: "?blk = (\<Union>i \<in> set (sel @ [x]). insert i (set (adj ! i)))"
      using Cons.prems(8) by auto
    have dist: "distinct (sel @ [x])" using Cons.prems(2,3) False by auto
    from Cons.IH [OF f _ dist _ Cons.prems(5) _ ind blk] Cons.prems(2,4,6)
    show ?thesis by (auto simp: subset_eq)
  qed
qed

lemma set_order_component [simp]: "set (order_component cands stage s component) = set component"
  by (simp add: order_component_def)

lemma distinct_order_component [simp]:
  "distinct (order_component cands stage s component) = distinct component"
  by (simp add: order_component_def)

lemma greedy_component:
  fixes cands stage s
  assumes "conflict_graph adj" "set component \<subseteq> {..<length adj}"
  defines "chosen \<equiv> solve_component_greedy cands adj component stage s"
  shows "set chosen \<subseteq> set component" "distinct chosen" "conflict_free adj (set chosen)"
    "x \<in> set component \<Longrightarrow> x \<in> (\<Union>i \<in> set chosen. insert i (set (adj ! i)))"
proof -
  obtain blk where f: "fold (greedy_step adj) (order_component cands stage s component) ([], {}) = (chosen, blk)"
    by (cases "fold (greedy_step adj) (order_component cands stage s component) ([], {})")
      (simp add: chosen_def solve_component_greedy_def)
  have "set chosen \<subseteq> set component \<and> distinct chosen \<and> conflict_free adj (set chosen)
      \<and> (\<forall>x \<in> set component. x \<in> (\<Union>i \<in> set chosen. insert i (set (adj ! i))))"
    using greedy_spec [OF f] assms(1,2) by (simp add: conflict_free_def)
  then show "set chosen \<subseteq> set component" "distinct chosen" "conflict_free adj (set chosen)"
    "x \<in> set component \<Longrightarrow> x \<in> (\<Union>i \<in> set chosen. insert i (set (adj ! i)))" by blast+
qed

section \<open>The exact solver\<close>

definition compatible :: "search_input \<Rightarrow> nat set \<Rightarrow> bool" where
  "compatible inp S \<longleftrightarrow> (\<forall>p \<in> S. \<forall>q \<in> S. q \<notin> set (si_conflicts inp ! p))"

definition feasible :: "search_input \<Rightarrow> nat list \<Rightarrow> bool" where
  "feasible inp xs \<longleftrightarrow> sorted_wrt (<) xs \<and> set xs \<subseteq> {..<si_n inp} \<and> compatible inp (set xs)"

definition total_weight :: "search_input \<Rightarrow> nat set \<Rightarrow> real" where
  "total_weight inp S = (\<Sum>p \<in> S. si_weights inp ! p)"

definition input_ok :: "search_input \<Rightarrow> bool" where
  "input_ok inp \<longleftrightarrow> length (si_conflicts inp) = si_n inp \<and> length (si_weights inp) = si_n inp
     \<and> (\<forall>p < si_n inp. \<forall>q \<in> set (si_conflicts inp ! p). p < q \<and> q < si_n inp)
     \<and> (\<forall>p < si_n inp. 0 \<le> si_weights inp ! p)
     \<and> (\<forall>p < si_n inp. si_suffix inp ! p = total_weight inp {p..<si_n inp})"

lemma input_okD:
  "input_ok inp \<Longrightarrow> p < si_n inp \<Longrightarrow> q \<in> set (si_conflicts inp ! p) \<Longrightarrow> p < q \<and> q < si_n inp"
  unfolding input_ok_def by blast

lemma input_ok_weights:
  assumes "input_ok inp" "p < si_n inp"
  shows "0 \<le> si_weights inp ! p" "si_suffix inp ! p = total_weight inp {p..<si_n inp}"
  using assms unfolding input_ok_def by blast+

text \<open>The search leaves the blocked positions and the current set as it found them.\<close>

lemma set_all_nth:
  "length (set_all v is b) = length b"
  "j < length b \<Longrightarrow> set_all v is b ! j = (if j \<in> set is then v else b ! j)"
  by (induction "is" arbitrary: b) (auto simp: set_all_def nth_list_update)

lemma newly_blocked_not_blocked:
  assumes "input_ok inp" "position < si_n inp" "length b = si_n inp" "\<not> b ! position"
    and "q \<in> set (newly_blocked inp position b)"
  shows "q < length b \<and> \<not> b ! q"
proof (cases "q = position")
  case False
  then have "q \<in> set (si_conflicts inp ! position)" "\<not> b[position := True] ! q"
    using assms(5) by (auto simp: newly_blocked_def)
  with False input_okD [OF assms(1,2), of q] assms(3) show ?thesis by simp
qed (use assms in simp)

lemma set_all_undo:
  assumes "\<forall>q \<in> set qs. q < length b \<and> \<not> b ! q"
  shows "set_all False qs (set_all True qs b) = b"
  by (rule nth_equalityI) (use assms in \<open>auto simp: set_all_nth\<close>)

lemma dfs_frame:
  assumes "input_ok inp" "length (ss_blocked st) = si_n inp"
  shows "ss_blocked (dfs inp position running st) = ss_blocked st
    \<and> ss_current (dfs inp position running st) = ss_current st"
  using assms
proof (induction inp position running st rule: dfs.induct)
  case (1 inp position running st)
  let ?toggled = "newly_blocked inp position (ss_blocked st)"
  let ?in = "st\<lparr>ss_blocked := set_all True ?toggled (ss_blocked st), ss_current := ss_current st @ [position]\<rparr>"
  show ?case
  proof (cases "position < si_n inp \<and> \<not> running + si_suffix inp ! position + tolerance < ss_best_score st")
    case False
    then show ?thesis by (subst (1 2) dfs.simps) (auto simp: leaf_def Let_def)
  next
    case True
    show ?thesis
    proof (cases "ss_blocked st ! position")
      case blocked: True
      with True "1.IH"(2) "1.prems" show ?thesis by (subst (1 2) dfs.simps) (simp add: Let_def)
    next
      case free: False
      define st1 where "st1 = dfs inp (Suc position) (running + si_weights inp ! position) ?in"
      have "ss_blocked st1 = set_all True ?toggled (ss_blocked st) \<and> ss_current st1 = ss_current st @ [position]"
        using "1.IH"(1) True free "1.prems" by (simp add: st1_def set_all_nth)
      moreover have "set_all False ?toggled (set_all True ?toggled (ss_blocked st)) = ss_blocked st"
        using newly_blocked_not_blocked [OF "1.prems"(1) _ "1.prems"(2) free] True
        by (intro set_all_undo) blast
      ultimately have u: "st1\<lparr>ss_current := butlast (ss_current st1),
          ss_blocked := set_all False ?toggled (ss_blocked st1)\<rparr>
          = st1\<lparr>ss_current := ss_current st, ss_blocked := ss_blocked st\<rparr>" by simp
      show ?thesis
        using "1.IH"(2) True free "1.prems"
        by (subst (1 2) dfs.simps) (simp add: Let_def u flip: st1_def)
    qed
  qed
qed

text \<open>One step of the search as an equation over the restored state.\<close>

lemma dfs_branch:
  assumes "input_ok inp" "length (ss_blocked st) = si_n inp" "position < si_n inp"
    and "\<not> running + si_suffix inp ! position + tolerance < ss_best_score st" "\<not> ss_blocked st ! position"
  defines "toggled \<equiv> newly_blocked inp position (ss_blocked st)"
  defines "st1 \<equiv> dfs inp (Suc position) (running + si_weights inp ! position)
      (st\<lparr>ss_blocked := set_all True toggled (ss_blocked st), ss_current := ss_current st @ [position]\<rparr>)"
  shows "dfs inp position running st = dfs inp (Suc position) running
      (st\<lparr>ss_best_score := ss_best_score st1, ss_best_set := ss_best_set st1\<rparr>)"
proof -
  have f: "ss_blocked st1 = set_all True toggled (ss_blocked st)" "ss_current st1 = ss_current st @ [position]"
    using dfs_frame [OF assms(1)] assms(2) by (simp_all add: st1_def set_all_nth)
  have "set_all False toggled (set_all True toggled (ss_blocked st)) = ss_blocked st"
    using newly_blocked_not_blocked [OF assms(1,3,2,5)] unfolding toggled_def
    by (intro set_all_undo) blast
  then have "st1\<lparr>ss_current := butlast (ss_current st1), ss_blocked := set_all False toggled (ss_blocked st1)\<rparr>
      = st\<lparr>ss_best_score := ss_best_score st1, ss_best_set := ss_best_set st1\<rparr>"
    using f by simp
  then show ?thesis
    using assms(3-5) by (subst dfs.simps) (simp add: Let_def flip: toggled_def st1_def)
qed

lemma dfs_skip:
  assumes "position < si_n inp" "\<not> running + si_suffix inp ! position + tolerance < ss_best_score st"
    and "ss_blocked st ! position"
  shows "dfs inp position running st = dfs inp (Suc position) running st"
  using assms by (subst dfs.simps) (simp add: Let_def)

text \<open>
  What holds of every state the search reaches: the current set is feasible, its conflicts
  from here on are blocked, and the best set so far is feasible with its score.
\<close>

definition search_invariant :: "search_input \<Rightarrow> nat \<Rightarrow> real \<Rightarrow> search_state \<Rightarrow> bool" where
  "search_invariant inp position running st \<longleftrightarrow>
     length (ss_blocked st) = si_n inp \<and> position \<le> si_n inp
   \<and> feasible inp (ss_current st) \<and> set (ss_current st) \<subseteq> {..<position}
   \<and> running = total_weight inp (set (ss_current st))
   \<and> (\<forall>q. position \<le> q \<longrightarrow> q < si_n inp \<longrightarrow>
        (ss_blocked st ! q \<longleftrightarrow> (\<exists>p \<in> set (ss_current st). q \<in> set (si_conflicts inp ! p))))"

definition best_ok :: "search_input \<Rightarrow> search_state \<Rightarrow> bool" where
  "best_ok inp st \<longleftrightarrow> (ss_best_set st = [] \<and> ss_best_score st = f64_min)
     \<or> (feasible inp (ss_best_set st) \<and> ss_best_score st = total_weight inp (set (ss_best_set st)))"

lemma search_invariant_take:
  assumes ok: "input_ok inp" and inv: "search_invariant inp position running st"
    and pos: "position < si_n inp" "\<not> ss_blocked st ! position"
  shows "search_invariant inp (Suc position) (running + si_weights inp ! position)
     (st\<lparr>ss_blocked := set_all True (newly_blocked inp position (ss_blocked st)) (ss_blocked st),
         ss_current := ss_current st @ [position]\<rparr>)"
proof -
  let ?cur = "ss_current st"
  have i: "length (ss_blocked st) = si_n inp" "feasible inp ?cur" "set ?cur \<subseteq> {..<position}"
    "running = total_weight inp (set ?cur)"
    and blk: "\<And>q. position \<le> q \<Longrightarrow> q < si_n inp \<Longrightarrow>
        (ss_blocked st ! q \<longleftrightarrow> (\<exists>p \<in> set ?cur. q \<in> set (si_conflicts inp ! p)))"
    using inv by (auto simp: search_invariant_def)
  note later = input_okD [OF ok]
  have "\<forall>p \<in> set ?cur. position \<notin> set (si_conflicts inp ! p)" using blk [of position] pos by blast
  moreover have "q \<notin> set (si_conflicts inp ! position)" if "q \<le> position" for q
    using later [OF pos(1)] that by (meson leD)
  ultimately have "compatible inp (set (?cur @ [position]))"
    using i(2,3) unfolding feasible_def compatible_def by (simp add: subset_eq less_imp_le)
  then have feas: "feasible inp (?cur @ [position])"
    using i(2,3) pos(1) by (auto simp: feasible_def sorted_wrt_append)
  have tot: "total_weight inp (set (?cur @ [position])) = total_weight inp (set ?cur) + si_weights inp ! position"
  proof -
    have "position \<notin> set ?cur" using i(3) by auto
    then show ?thesis by (simp add: total_weight_def)
  qed
  have "set_all True (newly_blocked inp position (ss_blocked st)) (ss_blocked st) ! q
      \<longleftrightarrow> (\<exists>p \<in> set (?cur @ [position]). q \<in> set (si_conflicts inp ! p))"
    if "Suc position \<le> q" "q < si_n inp" for q
    using that blk [of q] i(1) pos(1)
    by (auto simp: set_all_nth newly_blocked_def nth_list_update)
  moreover have "set (?cur @ [position]) \<subseteq> {..<Suc position}" using i(3) by auto
  ultimately show ?thesis
    using i(1,4) feas tot pos(1) unfolding search_invariant_def by (simp add: set_all_nth(1))
qed

lemma search_invariant_leave:
  "search_invariant inp position running st \<Longrightarrow> position < si_n inp \<Longrightarrow>
     search_invariant inp (Suc position) running (st\<lparr>ss_best_score := x, ss_best_set := y\<rparr>)"
  by (auto simp: search_invariant_def)

lemma dfs_best_ok:
  assumes "input_ok inp" "search_invariant inp position running st" "best_ok inp st"
  shows "best_ok inp (dfs inp position running st)"
  using assms
proof (induction "si_n inp - position" arbitrary: position running st)
  case 0
  then have "position = si_n inp" by (simp add: search_invariant_def)
  with 0 show ?case
    by (subst dfs.simps) (auto simp: leaf_def best_ok_def search_invariant_def Let_def)
next
  case (Suc k)
  then have pos: "position < si_n inp" and k: "k = si_n inp - (Suc position)" by auto
  have len: "length (ss_blocked st) = si_n inp" using Suc.prems(2) by (simp add: search_invariant_def)
  show ?case
  proof (cases "running + si_suffix inp ! position + tolerance < ss_best_score st")
    case True
    with pos Suc.prems(3) show ?thesis by (subst dfs.simps) simp
  next
    case go: False
    show ?thesis
    proof (cases "ss_blocked st ! position")
      case True
      have "search_invariant inp (Suc position) running st"
        using search_invariant_leave [OF Suc.prems(2) pos, where x = "ss_best_score st" and y = "ss_best_set st"]
        by simp
      with Suc.hyps(1) [OF k Suc.prems(1)] Suc.prems(3) show ?thesis
        by (simp add: dfs_skip [OF pos go True])
    next
      case False
      define toggled where "toggled = newly_blocked inp position (ss_blocked st)"
      define st1 where "st1 = dfs inp (Suc position) (running + si_weights inp ! position)
        (st\<lparr>ss_blocked := set_all True toggled (ss_blocked st), ss_current := ss_current st @ [position]\<rparr>)"
      have "best_ok inp st1"
        unfolding st1_def toggled_def
        by (rule Suc.hyps(1) [OF k Suc.prems(1) search_invariant_take [OF Suc.prems(1,2) pos False]])
          (use Suc.prems(3) in \<open>simp add: best_ok_def\<close>)
      then have "best_ok inp (st\<lparr>ss_best_score := ss_best_score st1, ss_best_set := ss_best_set st1\<rparr>)"
        by (simp add: best_ok_def)
      from Suc.hyps(1) [OF k Suc.prems(1) search_invariant_leave [OF Suc.prems(2) pos] this]
      show ?thesis
        using dfs_branch [OF Suc.prems(1) len pos go False] by (simp add: st1_def toggled_def)
    qed
  qed
qed

subsection \<open>Optimality\<close>

text \<open>
  The search compares scores up to \<open>tolerance\<close>.  When different totals are further apart than
  that, it finds the greatest one.
\<close>

definition separated :: "search_input \<Rightarrow> bool" where
  "separated inp \<longleftrightarrow> (\<forall>xs ys. feasible inp xs \<longrightarrow> feasible inp ys \<longrightarrow>
     \<bar>total_weight inp (set xs) - total_weight inp (set ys)\<bar> \<le> tolerance \<longrightarrow> total_weight inp (set xs) = total_weight inp (set ys))"

lemma f64_min_below: "f64_min + tolerance < 0"
  by (simp add: f64_min_def tolerance_def)

lemma total_nonneg: "input_ok inp \<Longrightarrow> S \<subseteq> {..<si_n inp} \<Longrightarrow> 0 \<le> total_weight inp S"
  unfolding total_weight_def by (rule sum_nonneg) (auto intro: input_ok_weights)

lemma total_bound:
  assumes "input_ok inp" "position < si_n inp" "set E \<subseteq> {position..<si_n inp}"
  shows "total_weight inp (set E) \<le> si_suffix inp ! position"
proof -
  have "total_weight inp (set E) \<le> total_weight inp {position..<si_n inp}"
    unfolding total_weight_def by (rule sum_mono2) (use assms in \<open>auto intro: input_ok_weights\<close>)
  then show ?thesis by (simp add: input_ok_weights [OF assms(1,2)])
qed

definition extends :: "search_input \<Rightarrow> nat \<Rightarrow> search_state \<Rightarrow> nat list \<Rightarrow> bool" where
  "extends inp position st E \<longleftrightarrow> feasible inp (ss_current st @ E) \<and> (\<forall>e \<in> set E. position \<le> e)"

lemma total_extends:
  assumes "search_invariant inp position running st" "extends inp position st E"
  shows "total_weight inp (set (ss_current st @ E)) = running + total_weight inp (set E)"
    and "set E \<subseteq> {position..<si_n inp}"
proof -
  have "set (ss_current st) \<inter> set E = {}"
    using assms by (fastforce simp: search_invariant_def extends_def)
  with assms(1) show "total_weight inp (set (ss_current st @ E)) = running + total_weight inp (set E)"
    by (simp add: search_invariant_def total_weight_def sum.union_disjoint)
  show "set E \<subseteq> {position..<si_n inp}"
    using assms(2) by (auto simp: extends_def feasible_def)
qed

lemma extends_blocked:
  assumes "search_invariant inp position running st" "position < si_n inp" "ss_blocked st ! position"
    and "extends inp position st E"
  shows "extends inp (Suc position) st E"
proof -
  from assms(1-3) obtain p where "p \<in> set (ss_current st)" "position \<in> set (si_conflicts inp ! p)"
    by (auto simp: search_invariant_def)
  then have "position \<notin> set E"
    using assms(4) by (auto simp: extends_def feasible_def compatible_def)
  with assms(4) show ?thesis unfolding extends_def by (metis Suc_leI order_le_less)
qed

lemma extends_cases:
  assumes "extends inp position st E"
  obtains "extends inp (Suc position) st E" | E' where "E = position # E'" "\<forall>e \<in> set E'. Suc position \<le> e"
proof (cases E)
  case Nil
  with assms that(1) show ?thesis by (simp add: extends_def)
next
  case (Cons e E')
  have s: "\<forall>x \<in> set E'. e < x" "position \<le> e"
    using assms Cons by (auto simp: extends_def feasible_def sorted_wrt_append)
  show ?thesis
  proof (cases "e = position")
    case True
    with Cons s that(2) show ?thesis by (auto simp: Suc_le_eq)
  next
    case False
    with s have "\<forall>x \<in> set E. Suc position \<le> x" by (auto simp: Cons)
    with assms that(1) show ?thesis by (simp add: extends_def)
  qed
qed

lemma leaf_optimal:
  assumes "input_ok inp" "search_invariant inp (si_n inp) running st" "best_ok inp st" "separated inp"
  shows "ss_best_score st \<le> ss_best_score (leaf inp running st)"
    and "running \<le> ss_best_score (leaf inp running st)"
proof -
  have run: "running = total_weight inp (set (ss_current st))" "feasible inp (ss_current st)"
    using assms(2) by (auto simp: search_invariant_def)
  then have "0 \<le> running" using total_nonneg [OF assms(1)] by (simp add: feasible_def)
  from assms(3) consider "ss_best_score st = f64_min"
    | "feasible inp (ss_best_set st)" "ss_best_score st = total_weight inp (set (ss_best_set st))"
    by (auto simp: best_ok_def)
  then have "ss_best_score st \<le> ss_best_score (leaf inp running st)
      \<and> running \<le> ss_best_score (leaf inp running st)"
  proof cases
    case 1
    with f64_min_below \<open>0 \<le> running\<close> show ?thesis by (auto simp: leaf_def Let_def tolerance_def)
  next
    case 2
    have tie: "running = ss_best_score st" if "\<bar>running - ss_best_score st\<bar> \<le> tolerance"
      using that assms(4) 2 run unfolding separated_def by metis
    have "0 < tolerance" by (simp add: tolerance_def)
    moreover have "running \<le> ss_best_score st" if "\<not> ss_best_score st + tolerance < running"
      using tie that by (cases "running \<le> ss_best_score st") auto
    ultimately show ?thesis using tie by (auto simp: leaf_def Let_def)
  qed
  then show "ss_best_score st \<le> ss_best_score (leaf inp running st)"
    "running \<le> ss_best_score (leaf inp running st)" by simp_all
qed

lemma dfs_optimal:
  assumes "input_ok inp" "search_invariant inp position running st" "best_ok inp st" "separated inp"
  shows "ss_best_score st \<le> ss_best_score (dfs inp position running st)
    \<and> (\<forall>E. extends inp position st E \<longrightarrow>
         total_weight inp (set (ss_current st @ E)) \<le> ss_best_score (dfs inp position running st))"
  using assms
proof (induction "si_n inp - position" arbitrary: position running st)
  case 0
  then have pos: "position = si_n inp" by (simp add: search_invariant_def)
  have "total_weight inp (set (ss_current st @ E)) = running" if "extends inp position st E" for E
    using total_extends [OF "0.prems"(2) that] pos by (simp add: total_weight_def)
  moreover have "dfs inp position running st = leaf inp running st"
    using pos by (subst dfs.simps) simp
  ultimately show ?case
    using leaf_optimal [OF "0.prems"(1) "0.prems"(2) [unfolded pos] "0.prems"(3,4)] by simp
next
  case (Suc k)
  then have pos: "position < si_n inp" and k: "k = si_n inp - Suc position" by auto
  have len: "length (ss_blocked st) = si_n inp" using Suc.prems(2) by (simp add: search_invariant_def)
  show ?case
  proof (cases "running + si_suffix inp ! position + tolerance < ss_best_score st")
    case True
    then have d: "dfs inp position running st = st" using pos by (subst dfs.simps) simp
    have "total_weight inp (set (ss_current st @ E)) \<le> ss_best_score st" if "extends inp position st E" for E
      using total_extends [OF Suc.prems(2) that] total_bound [OF Suc.prems(1) pos] True
      by (fastforce simp: tolerance_def)
    then show ?thesis by (simp add: d)
  next
    case go: False
    show ?thesis
    proof (cases "ss_blocked st ! position")
      case True
      have inv: "search_invariant inp (Suc position) running st"
        using search_invariant_leave [OF Suc.prems(2) pos, where x = "ss_best_score st" and y = "ss_best_set st"]
        by simp
      show ?thesis
        using Suc.hyps(1) [OF k Suc.prems(1) inv Suc.prems(3,4)]
          extends_blocked [OF Suc.prems(2) pos True]
        by (simp add: dfs_skip [OF pos go True])
    next
      case False
      define toggled where "toggled = newly_blocked inp position (ss_blocked st)"
      define st0 where "st0 = st\<lparr>ss_blocked := set_all True toggled (ss_blocked st),
        ss_current := ss_current st @ [position]\<rparr>"
      define st1 where "st1 = dfs inp (Suc position) (running + si_weights inp ! position) st0"
      define st2 where "st2 = st\<lparr>ss_best_score := ss_best_score st1, ss_best_set := ss_best_set st1\<rparr>"
      have inv0: "search_invariant inp (Suc position) (running + si_weights inp ! position) st0"
        using search_invariant_take [OF Suc.prems(1,2) pos False] by (simp add: st0_def toggled_def)
      have ok0: "best_ok inp st0" using Suc.prems(3) by (simp add: best_ok_def st0_def)
      note first = Suc.hyps(1) [OF k Suc.prems(1) inv0 ok0 Suc.prems(4), folded st1_def]
      have ok2: "best_ok inp st2"
        using dfs_best_ok [OF Suc.prems(1) inv0 ok0] by (simp add: best_ok_def st2_def flip: st1_def)
      have inv2: "search_invariant inp (Suc position) running st2"
        unfolding st2_def by (rule search_invariant_leave [OF Suc.prems(2) pos])
      note second = Suc.hyps(1) [OF k Suc.prems(1) inv2 ok2 Suc.prems(4)]
      have d: "dfs inp position running st = dfs inp (Suc position) running st2"
        using dfs_branch [OF Suc.prems(1) len pos go False]
        by (simp add: st0_def st1_def st2_def toggled_def)
      have mono: "ss_best_score st1 \<le> ss_best_score (dfs inp position running st)"
        using second by (simp add: d st2_def)
      have "total_weight inp (set (ss_current st @ E)) \<le> ss_best_score (dfs inp position running st)"
        if E: "extends inp position st E" for E
      proof (cases rule: extends_cases [OF E])
        case 1
        with second show ?thesis by (simp add: d st2_def extends_def)
      next
        case (2 E')
        then have "extends inp (Suc position) st0 E'"
          using E by (simp add: extends_def st0_def)
        with first have "total_weight inp (set (ss_current st0 @ E')) \<le> ss_best_score st1" by blast
        with 2 mono show ?thesis by (simp add: st0_def)
      qed
      moreover have "ss_best_score st \<le> ss_best_score (dfs inp position running st)"
        using first mono by (simp add: st0_def)
      ultimately show ?thesis by blast
    qed
  qed
qed

text \<open>The whole search, from the empty set.\<close>

definition search_start :: "search_input \<Rightarrow> search_state" where
  "search_start inp =
     \<lparr>ss_blocked = replicate (si_n inp) False, ss_current = [], ss_best_score = f64_min, ss_best_set = []\<rparr>"

lemma search_start_ok: "search_invariant inp 0 0 (search_start inp)" "best_ok inp (search_start inp)"
  by (simp_all add: search_invariant_def search_start_def feasible_def compatible_def total_weight_def best_ok_def)

lemma search_feasible:
  assumes "input_ok inp"
  shows "feasible inp (ss_best_set (dfs inp 0 0 (search_start inp)))"
  using dfs_best_ok [OF assms search_start_ok] by (auto simp: best_ok_def feasible_def compatible_def)

lemma search_optimal:
  assumes "input_ok inp" "separated inp" "feasible inp xs"
  shows "total_weight inp (set xs) \<le> total_weight inp (set (ss_best_set (dfs inp 0 0 (search_start inp))))"
proof -
  let ?st = "dfs inp 0 0 (search_start inp)"
  have "extends inp 0 (search_start inp) xs"
    using assms(3) by (simp add: extends_def search_start_def)
  then have le: "total_weight inp (set xs) \<le> ss_best_score ?st"
    using dfs_optimal [OF assms(1) search_start_ok assms(2)] by (simp add: search_start_def)
  have "0 \<le> total_weight inp (set xs)" using total_nonneg [OF assms(1)] assms(3) by (simp add: feasible_def)
  with le have "ss_best_score ?st \<noteq> f64_min" using f64_min_below by (simp add: tolerance_def)
  with le dfs_best_ok [OF assms(1) search_start_ok] show ?thesis by (auto simp: best_ok_def)
qed

subsection \<open>From positions to candidates\<close>

lemma suffix_sums_Cons: "suffix_sums (w # ws) = (hd (suffix_sums ws) + w) # suffix_sums ws"
  by (simp add: suffix_sums_def)

lemma suffix_sums_nonempty [simp]: "suffix_sums ws \<noteq> []"
  by (cases ws) (simp_all add: suffix_sums_Cons suffix_sums_def)

lemma suffix_sums_nth: "p \<le> length ws \<Longrightarrow> suffix_sums ws ! p = (\<Sum>i \<in> {p..<length ws}. ws ! i)"
proof (induction ws arbitrary: p)
  case Nil
  then show ?case by (simp add: suffix_sums_def)
next
  case (Cons w ws)
  show ?case
  proof (cases p)
    case 0
    have "hd (suffix_sums ws) = (\<Sum>i \<in> {0..<length ws}. ws ! i)"
      using Cons.IH [of 0] by (simp add: hd_conv_nth)
    with 0 show ?thesis
      by (simp add: suffix_sums_Cons sum.atLeast0_lessThan_Suc_shift comp_def del: sum.op_ivl_Suc)
  next
    case (Suc q)
    with Cons show ?thesis
      by (simp add: suffix_sums_Cons sum.atLeast_Suc_lessThan_Suc_shift comp_def del: sum.op_ivl_Suc)
  qed
qed

definition node_weight ::
    "edit_candidate list \<Rightarrow> retry_scope_stage \<Rightarrow> certainty_filter_state \<Rightarrow> nat \<Rightarrow> real" where
  "node_weight cands stage s i = max (utility_score (cands ! i) stage s) 0"

lemma index_by_node:
  assumes "distinct ordered"
  shows "map_of (rev (zip ordered [0..<length ordered])) node = Some q
    \<longleftrightarrow> q < length ordered \<and> ordered ! q = node"
proof -
  have "map_of (rev (zip ordered [0..<length ordered])) node = Some q
      \<longleftrightarrow> (node, q) \<in> set (rev (zip ordered [0..<length ordered]))"
    by (rule map_of_eq_Some_iff) (use assms in \<open>simp add: rev_map [symmetric]\<close>)
  then show ?thesis by (auto simp: in_set_zip)
qed

lemma set_map_filter_iff: "y \<in> set (List.map_filter f xs) \<longleftrightarrow> (\<exists>x \<in> set xs. f x = Some y)"
  by (induction xs) (auto simp: List.map_filter_def)

lemma search_input_conflicts:
  assumes "distinct ordered" "p < length ordered"
  shows "q \<in> set (si_conflicts (search_input_of cands adj ordered stage s) ! p) \<longleftrightarrow>
     p < q \<and> q < length ordered \<and> ordered ! q \<in> set (adj ! (ordered ! p))"
  using assms(2)
  by (auto simp: search_input_of_def Let_def set_map_filter_iff index_by_node [OF assms(1)])

lemma search_input_fields:
  "si_n (search_input_of cands adj ordered stage s) = length ordered"
  "p < length ordered \<Longrightarrow>
     si_weights (search_input_of cands adj ordered stage s) ! p = node_weight cands stage s (ordered ! p)"
  by (simp_all add: search_input_of_def node_weight_def Let_def)

lemma search_input_ok:
  assumes "distinct ordered"
  shows "input_ok (search_input_of cands adj ordered stage s)"
proof -
  let ?inp = "search_input_of cands adj ordered stage s"
  have "si_suffix ?inp ! p = total_weight ?inp {p..<si_n ?inp}" if "p < length ordered" for p
    using that suffix_sums_nth [of p "si_weights ?inp"]
    by (simp add: total_weight_def search_input_of_def Let_def)
  then show ?thesis
    using search_input_conflicts [OF assms, of _ _ cands adj stage s]
    unfolding input_ok_def search_input_fields(1)
    by (simp add: search_input_fields(2) node_weight_def) (simp add: search_input_of_def Let_def)
qed

definition ordered_ok :: "nat list list \<Rightarrow> nat list \<Rightarrow> bool" where
  "ordered_ok adj ordered \<longleftrightarrow>
     conflict_graph adj \<and> distinct ordered \<and> set ordered \<subseteq> {..<length adj}"

lemma nodes_independent:
  assumes ok: "ordered_ok adj ordered" and feas: "feasible (search_input_of cands adj ordered stage s) xs"
  shows "conflict_free adj ((!) ordered ` set xs)"
  unfolding conflict_free_def
proof (intro ballI notI)
  have graph: "conflict_graph adj" and dist: "distinct ordered" and sub: "set ordered \<subseteq> {..<length adj}"
    using ok by (simp_all add: ordered_ok_def)
  fix i j assume "i \<in> (!) ordered ` set xs" "j \<in> (!) ordered ` set xs" and j: "j \<in> set (adj ! i)"
  then obtain p q where p: "p \<in> set xs" "i = ordered ! p" and q: "q \<in> set xs" "j = ordered ! q" by blast
  have pq: "p < length ordered" "q < length ordered"
    using feas p q by (auto simp: feasible_def search_input_fields)
  have i: "i < length adj" using p(2) sub nth_mem [OF pq(1)] by blast
  have "p \<noteq> q" using conflict_graph_irrefl [OF graph i] j p q by auto
  moreover have "i \<in> set (adj ! j)" using conflict_graphD(2) [OF graph i j] .
  ultimately have "q \<in> set (si_conflicts (search_input_of cands adj ordered stage s) ! p) \<or> p \<in> set (si_conflicts (search_input_of cands adj ordered stage s) ! q)"
    using search_input_conflicts [OF dist] pq p q j by (auto simp: linorder_neq_iff)
  with feas p q show False by (auto simp: feasible_def compatible_def)
qed

lemma total_nodes:
  assumes ok: "ordered_ok adj ordered" and xs: "set xs \<subseteq> {..<length ordered}"
  shows "total_weight (search_input_of cands adj ordered stage s) (set xs) = (\<Sum>i \<in> (!) ordered ` set xs. node_weight cands stage s i)"
proof -
  have "inj_on ((!) ordered) (set xs)"
    using xs ok by (auto simp: ordered_ok_def inj_on_def subset_iff nth_eq_iff_index_eq)
  moreover have "total_weight (search_input_of cands adj ordered stage s) (set xs) = (\<Sum>p \<in> set xs. node_weight cands stage s (ordered ! p))"
    unfolding total_weight_def by (rule sum.cong) (use xs in \<open>auto simp: search_input_fields\<close>)
  ultimately show ?thesis by (simp add: sum.reindex)
qed

lemma positions_of:
  assumes ok: "ordered_ok adj ordered" and S: "S \<subseteq> set ordered" "conflict_free adj S"
  obtains xs where "feasible (search_input_of cands adj ordered stage s) xs" "(!) ordered ` set xs = S"
proof
  have dist: "distinct ordered" using ok by (simp add: ordered_ok_def)
  let ?xs = "filter (\<lambda>p. ordered ! p \<in> S) [0..<length ordered]"
  show "(!) ordered ` set ?xs = S"
    using S(1) by (force simp: in_set_conv_nth)
  have "compatible (search_input_of cands adj ordered stage s) (set ?xs)"
    using S(2) search_input_conflicts [OF dist] by (auto simp: compatible_def conflict_free_def)
  then show "feasible (search_input_of cands adj ordered stage s) ?xs"
    by (auto simp: feasible_def search_input_fields sorted_wrt_filter)
qed

definition weight_of ::
    "edit_candidate list \<Rightarrow> retry_scope_stage \<Rightarrow> certainty_filter_state \<Rightarrow> nat set \<Rightarrow> real" where
  "weight_of cands stage s S = (\<Sum>i \<in> S. node_weight cands stage s i)"

text \<open>Different totals of conflict-free selections differ by more than the tolerance.\<close>

definition weights_separated ::
    "edit_candidate list \<Rightarrow> nat list list \<Rightarrow> nat list \<Rightarrow> retry_scope_stage \<Rightarrow> certainty_filter_state \<Rightarrow> bool" where
  "weights_separated cands adj component stage s \<longleftrightarrow>
     (\<forall>S T. S \<subseteq> set component \<longrightarrow> T \<subseteq> set component \<longrightarrow> conflict_free adj S \<longrightarrow> conflict_free adj T \<longrightarrow>
        \<bar>weight_of cands stage s S - weight_of cands stage s T\<bar> \<le> tolerance \<longrightarrow>
        weight_of cands stage s S = weight_of cands stage s T)"

lemma exact_component:
  fixes cands stage s
  assumes "conflict_graph adj" "distinct component" "set component \<subseteq> {..<length adj}"
  defines "chosen \<equiv> solve_component_exact cands adj component stage s"
  shows "set chosen \<subseteq> set component" "distinct chosen" "conflict_free adj (set chosen)"
    and "weights_separated cands adj component stage s \<Longrightarrow> S \<subseteq> set component \<Longrightarrow> conflict_free adj S
          \<Longrightarrow> weight_of cands stage s S \<le> weight_of cands stage s (set chosen)"
proof -
  define ordered where "ordered = order_component cands stage s component"
  have o: "distinct ordered" "set ordered = set component" using assms(2) by (simp_all add: ordered_def)
  have ok: "ordered_ok adj ordered" using assms o by (simp add: ordered_ok_def)
  define inp where "inp = search_input_of cands adj ordered stage s"
  note input = search_input_fields [where cands = cands and adj = adj and ordered = ordered and stage = stage and s = s,
      folded inp_def]
  define best where "best = ss_best_set (dfs inp 0 0 (search_start inp))"
  have chosen: "chosen = map ((!) ordered) best"
    by (simp add: chosen_def solve_component_exact_def best_def search_start_def input Let_def
        flip: ordered_def inp_def)
  have feas: "feasible inp best"
    unfolding best_def inp_def by (rule search_feasible [OF search_input_ok [OF o(1)]])
  then have best: "set best \<subseteq> {..<length ordered}" "distinct best"
    by (auto simp: feasible_def input strict_sorted_iff)
  show "set chosen \<subseteq> set component" using best(1) by (auto simp: chosen simp flip: o(2))
  show "distinct chosen"
    using best o(1) by (auto simp: chosen distinct_map inj_on_def subset_iff nth_eq_iff_index_eq)
  show "conflict_free adj (set chosen)" using nodes_independent [OF ok feas [unfolded inp_def]] by (simp add: chosen)
  show "weight_of cands stage s S \<le> weight_of cands stage s (set chosen)"
    if sep: "weights_separated cands adj component stage s" and S: "S \<subseteq> set component" "conflict_free adj S"
  proof -
    have w: "total_weight inp (set xs) = weight_of cands stage s ((!) ordered ` set xs)
        \<and> (!) ordered ` set xs \<subseteq> set component" if "feasible inp xs" for xs
      using that total_nodes [OF ok, where xs = xs and cands = cands and stage = stage and s = s]
      by (auto simp: feasible_def input weight_of_def simp flip: inp_def o(2))
    have "separated inp"
      using sep w nodes_independent [OF ok, where cands = cands and stage = stage and s = s, folded inp_def]
      unfolding separated_def weights_separated_def by metis
    moreover obtain xs where xs: "feasible inp xs" "(!) ordered ` set xs = S"
      using positions_of [OF ok, where S = S and cands = cands and stage = stage and s = s] S o(2) by (auto simp flip: inp_def)
    ultimately have "total_weight inp (set xs) \<le> total_weight inp (set best)"
      unfolding best_def inp_def by (intro search_optimal search_input_ok [OF o(1)])
    with w [OF xs(1)] w [OF feas] xs(2) show ?thesis by (simp add: chosen)
  qed
qed

section \<open>The contract holds\<close>

interpretation exact: component_solver
  "\<lambda>adj component. solve_component_exact cands adj component stage s" for cands stage s
  by unfold_locales (rule exact_component; assumption)+

interpretation greedy: component_solver
  "\<lambda>adj component. solve_component_greedy cands adj component stage s" for cands stage s
  by unfold_locales (rule greedy_component; assumption)+

end
