(* ===== verification/Conflict_Solver.thy ===== *)
theory Conflict_Solver
  imports Conflict_Optimal
begin

text \<open>
  \<^verbatim>\<open>src/src/engine/conflict_solver.rs\<close>, the solver itself: candidates are consolidated to one
  per line, blocked by hard constraints and by what was selected before, and the rest is solved
  component by component.
\<close>

section \<open>The solver\<close>

record conflict_result =
  cr_accepted :: "edit_candidate list"
  cr_dropped_lines :: "nat set"
  cr_hard_blocked_lines :: "nat set"

definition choose_new ::
    "edit_candidate \<Rightarrow> edit_candidate \<Rightarrow> retry_scope_stage \<Rightarrow> certainty_filter_state \<Rightarrow> bool" where
  "choose_new candidate existing scope_stage adaptive =
     (let candidate_utility = utility_score candidate scope_stage adaptive;
          existing_utility = utility_score existing scope_stage adaptive
      in candidate_utility > existing_utility + 0.000001
         \<or> \<bar>candidate_utility - existing_utility\<bar> \<le> 0.000001
             \<and> ec_confidence candidate > ec_confidence existing + 0.001
         \<or> \<bar>candidate_utility - existing_utility\<bar> \<le> 0.000001
             \<and> \<bar>ec_confidence candidate - ec_confidence existing\<bar> \<le> 0.001
             \<and> precedence_score (ec_risk_tier candidate) > precedence_score (ec_risk_tier existing))"

definition consolidate_one ::
    "retry_scope_stage \<Rightarrow> certainty_filter_state \<Rightarrow> edit_candidate
      \<Rightarrow> (nat \<rightharpoonup> edit_candidate) \<Rightarrow> (nat \<rightharpoonup> edit_candidate)" where
  "consolidate_one scope_stage adaptive candidate best_by_line =
     (case best_by_line (ec_line candidate) of
        None \<Rightarrow> best_by_line(ec_line candidate \<mapsto> candidate)
      | Some existing \<Rightarrow>
          if choose_new candidate existing scope_stage adaptive
          then best_by_line(ec_line candidate \<mapsto> candidate) else best_by_line)"

text \<open>
  The values of the map sorted by line and policy; a line is a key of the map, so the line
  alone decides.
\<close>

definition consolidate_by_line ::
    "edit_candidate list \<Rightarrow> retry_scope_stage \<Rightarrow> certainty_filter_state \<Rightarrow> edit_candidate list" where
  "consolidate_by_line incoming scope_stage adaptive =
     (let best_by_line = fold (consolidate_one scope_stage adaptive) incoming Map.empty
      in List.map_filter best_by_line (sort (remdups (map ec_line incoming))))"

definition solve_component ::
    "edit_candidate list \<Rightarrow> retry_scope_stage \<Rightarrow> certainty_filter_state
      \<Rightarrow> nat list list \<Rightarrow> nat list \<Rightarrow> nat list" where
  "solve_component admissible scope_stage adaptive adjacency component =
     (if length component \<le> component_threshold adaptive
      then solve_component_exact admissible adjacency component scope_stage adaptive
      else solve_component_greedy admissible adjacency component scope_stage adaptive)"

definition select_conflict_optimal ::
    "edit_candidate list \<Rightarrow> retry_scope_stage \<Rightarrow> certainty_filter_state \<Rightarrow> edit_candidate list" where
  "select_conflict_optimal admissible scope_stage adaptive =
     (if admissible = [] then []
      else
        let adjacency = build_conflict_adjacency admissible adaptive;
            components = connected_components adjacency;
            accepted_indexes =
              concat (map (solve_component admissible scope_stage adaptive adjacency) components)
        in List.map_filter (nth_opt admissible) (sort accepted_indexes))"

definition admit ::
    "edit_candidate list \<Rightarrow> certainty_filter_state \<Rightarrow> edit_candidate
      \<Rightarrow> edit_candidate list \<times> nat set \<times> nat set \<Rightarrow> edit_candidate list \<times> nat set \<times> nat set" where
  "admit already_selected adaptive candidate = (\<lambda>(admissible, dropped, hard).
     if violates_hard_constraints candidate
     then (admissible, insert (ec_line candidate) dropped, insert (ec_line candidate) hard)
     else if list_ex (\<lambda>existing. conflicts candidate existing adaptive) already_selected
     then (admissible, insert (ec_line candidate) dropped, hard)
     else (admissible @ [candidate], dropped, hard))"

definition solve ::
    "edit_candidate list \<Rightarrow> edit_candidate list \<Rightarrow> retry_scope_stage \<Rightarrow> certainty_filter_state
      \<Rightarrow> conflict_result" where
  "solve incoming already_selected scope_stage adaptive =
     (if incoming = [] then \<lparr>cr_accepted = [], cr_dropped_lines = {}, cr_hard_blocked_lines = {}\<rparr>
      else
        let consolidated = consolidate_by_line incoming scope_stage adaptive;
            (admissible, dropped_lines, hard_blocked_lines) =
              fold (admit already_selected adaptive) consolidated ([], {}, {});
            accepted = select_conflict_optimal admissible scope_stage adaptive;
            dropped_lines = fold (\<lambda>candidate dropped.
                if \<not> list_ex (\<lambda>w. ec_line w = ec_line candidate \<and> ec_policy w = ec_policy candidate) accepted
                then insert (ec_line candidate) dropped else dropped) admissible dropped_lines
        in \<lparr>cr_accepted = accepted, cr_dropped_lines = dropped_lines,
            cr_hard_blocked_lines = hard_blocked_lines\<rparr>)"

section \<open>Consolidation\<close>

lemma consolidate_fold:
  assumes "\<forall>l c. m l = Some c \<longrightarrow> ec_line c = l"
  shows "dom (fold (consolidate_one stage s) cs m) = dom m \<union> ec_line ` set cs
    \<and> (\<forall>l c. fold (consolidate_one stage s) cs m l = Some c \<longrightarrow>
          ec_line c = l \<and> (m l = Some c \<or> c \<in> set cs))"
  using assms
proof (induction cs arbitrary: m)
  case (Cons c cs)
  let ?m = "consolidate_one stage s c m"
  have step: "dom ?m = insert (ec_line c) (dom m)"
    "\<forall>l d. ?m l = Some d \<longrightarrow> ec_line d = l \<and> (m l = Some d \<or> d = c)"
    using Cons.prems(1) by (auto simp: consolidate_one_def split: option.splits if_splits)
  then have "\<forall>l d. ?m l = Some d \<longrightarrow> ec_line d = l" by blast
  from Cons.IH [OF this] step show ?case by simp blast
qed simp

lemma consolidate_spec:
  fixes incoming stage s
  defines "out \<equiv> consolidate_by_line incoming stage s"
  shows "set out \<subseteq> set incoming" and "ec_line ` set out = ec_line ` set incoming"
    and "distinct (map ec_line out)"
proof -
  define m where "m = fold (consolidate_one stage s) incoming Map.empty"
  have dom: "dom m = ec_line ` set incoming"
    and val: "\<And>l c. m l = Some c \<Longrightarrow> ec_line c = l \<and> c \<in> set incoming"
    using consolidate_fold [of Map.empty stage s incoming] by (auto simp: m_def)
  have out: "out = map (the \<circ> m) (sort (remdups (map ec_line incoming)))"
  proof -
    have "List.map_filter m ls = map (the \<circ> m) ls" if "set ls \<subseteq> dom m" for ls
      using that by (induction ls) (auto simp: List.map_filter_def)
    then show ?thesis by (simp add: out_def consolidate_by_line_def dom flip: m_def)
  qed
  have line: "l \<in> ec_line ` set incoming \<Longrightarrow> ec_line (the (m l)) = l \<and> the (m l) \<in> set incoming" for l
    using dom val by (metis domD option.sel)
  show "set out \<subseteq> set incoming" using line by (auto simp: out)
  have "map ec_line out = sort (remdups (map ec_line incoming))"
    using line by (auto simp: out intro!: map_idI)
  then show "distinct (map ec_line out)" "ec_line ` set out = ec_line ` set incoming"
    by (simp_all flip: set_map)
qed

section \<open>Selection\<close>

interpretation selected: component_solver "solve_component cands stage s" for cands stage s
proof
  fix adj component
  assume a: "conflict_graph adj" "distinct component" "set component \<subseteq> {..<length adj}"
  show "set (solve_component cands stage s adj component) \<subseteq> set component"
    using exact.chosen [OF a] greedy.chosen [OF a] by (simp add: solve_component_def)
  show "distinct (solve_component cands stage s adj component)"
    using exact.distinct_chosen [OF a] greedy.distinct_chosen [OF a] by (simp add: solve_component_def)
  show "conflict_free adj (set (solve_component cands stage s adj component))"
    using exact.independent_chosen [OF a] greedy.independent_chosen [OF a]
    by (simp add: solve_component_def)
qed

lemma select_spec:
  fixes cands stage s
  defines "out \<equiv> select_conflict_optimal cands stage s"
  shows "sorted_wrt (\<lambda>a b. \<not> conflicts a b s) out"
    and "\<exists>is. out = map ((!) cands) is \<and> sorted_wrt (<) is \<and> set is \<subseteq> {..<length cands}"
proof -
  define adj where "adj = build_conflict_adjacency cands s"
  define picked where "picked = concat (map (solve_component cands stage s adj) (connected_components adj))"
  have graph: "conflict_graph adj" by (simp add: adj_def conflict_graph_adjacency)
  note p = selected.solve_components [OF graph, of cands stage s, folded picked_def]
  have len: "length adj = length cands" by (simp add: adj_def adjacency_spec)
  define ids where "ids = sort picked"
  have ids: "sorted_wrt (<) ids" "set ids \<subseteq> {..<length cands}" "conflict_free adj (set ids)"
    using p by (simp_all add: ids_def strict_sorted_iff len)
  have "List.map_filter (nth_opt cands) xs = map ((!) cands) xs" if "set xs \<subseteq> {..<length cands}" for xs
    using that by (induction xs) (auto simp: List.map_filter_def nth_opt_def)
  then have pick: "List.map_filter (nth_opt cands) ids = map ((!) cands) ids" using ids(2) by blast
  have out: "out = map ((!) cands) ids"
  proof (cases "cands = []")
    case True
    with ids(2) have "ids = []" by simp
    with True show ?thesis by (simp add: out_def select_conflict_optimal_def)
  next
    case False
    then have "out = List.map_filter (nth_opt cands) ids"
      unfolding out_def select_conflict_optimal_def Let_def adj_def [symmetric] picked_def [symmetric]
        ids_def [symmetric] by simp
    with pick show ?thesis by simp
  qed
  with ids show "\<exists>is. out = map ((!) cands) is \<and> sorted_wrt (<) is \<and> set is \<subseteq> {..<length cands}"
    by blast
  have "\<not> conflicts (cands ! i) (cands ! j) s" if "i \<in> set ids" "j \<in> set ids" "i < j" for i j
  proof -
    have "j \<notin> set (adj ! i)" using ids(3) that by (simp add: conflict_free_def)
    moreover have "i < length cands" "j < length cands" using that ids(2) by auto
    ultimately show ?thesis using that(3) by (auto simp: adj_def adjacency_spec candidates_clash_def)
  qed
  with ids(1) show "sorted_wrt (\<lambda>a b. \<not> conflicts a b s) out"
    by (auto simp: out sorted_wrt_map elim!: sorted_wrt_mono_rel [rotated])
qed

lemma admit_fold:
  "fold (admit sel s) cs (adm, dr, hb) =
     (adm @ filter (\<lambda>c. \<not> violates_hard_constraints c \<and> \<not> list_ex (\<lambda>e. conflicts c e s) sel) cs,
      dr \<union> ec_line ` {c \<in> set cs. violates_hard_constraints c \<or> list_ex (\<lambda>e. conflicts c e s) sel},
      hb \<union> ec_line ` {c \<in> set cs. violates_hard_constraints c})"
  by (induction cs arbitrary: adm dr hb) (auto simp: admit_def)

lemma drop_fold:
  "fold (\<lambda>candidate dropped. if P candidate then insert (ec_line candidate) dropped else dropped) cs dr
     = dr \<union> ec_line ` {c \<in> set cs. P c}"
  by (induction cs arbitrary: dr) auto

lemma solve_unfold:
  fixes incoming sel stage s
  assumes "incoming \<noteq> []"
  defines "cons \<equiv> consolidate_by_line incoming stage s"
  defines "bad \<equiv> \<lambda>c. violates_hard_constraints c \<or> list_ex (\<lambda>e. conflicts c e s) sel"
  defines "out \<equiv> select_conflict_optimal (filter (\<lambda>c. \<not> bad c) cons) stage s"
  shows "solve incoming sel stage s =
    \<lparr>cr_accepted = out,
     cr_dropped_lines = ec_line ` {c \<in> set cons. bad c} \<union> ec_line ` {c \<in> set (filter (\<lambda>c. \<not> bad c) cons).
        \<not> list_ex (\<lambda>w. ec_line w = ec_line c \<and> ec_policy w = ec_policy c) out},
     cr_hard_blocked_lines = ec_line ` {c \<in> set cons. violates_hard_constraints c}\<rparr>"
  using assms(1) by (simp add: solve_def admit_fold drop_fold Let_def flip: cons_def) (simp add: bad_def out_def)

section \<open>Properties\<close>

lemma solver_accepts:
  "sorted_wrt (\<lambda>a b. \<not> conflicts a b adaptive) (cr_accepted (solve incoming already_selected stage adaptive))
   \<and> set (cr_accepted (solve incoming already_selected stage adaptive)) \<subseteq>
       {c \<in> set incoming. \<not> violates_hard_constraints c
          \<and> \<not> list_ex (\<lambda>existing. conflicts c existing adaptive) already_selected}"
proof (cases "incoming = []")
  case True
  then show ?thesis by (simp add: solve_def)
next
  case False
  define ok where "ok = filter (\<lambda>c. \<not> (violates_hard_constraints c
      \<or> list_ex (\<lambda>e. conflicts c e adaptive) already_selected)) (consolidate_by_line incoming stage adaptive)"
  have acc: "cr_accepted (solve incoming already_selected stage adaptive)
      = select_conflict_optimal ok stage adaptive"
    using solve_unfold [OF False] by (simp add: ok_def)
  obtain "is" where "select_conflict_optimal ok stage adaptive = map ((!) ok) is" "set is \<subseteq> {..<length ok}"
    using select_spec(2) by blast
  then have "set (select_conflict_optimal ok stage adaptive) \<subseteq> set ok" by auto
  moreover have "set ok \<subseteq> {c \<in> set incoming. \<not> violates_hard_constraints c
      \<and> \<not> list_ex (\<lambda>e. conflicts c e adaptive) already_selected}"
    using consolidate_spec(1) by (auto simp: ok_def)
  ultimately show ?thesis using select_spec(1) by (auto simp: acc)
qed

text \<open>
  \<^bold>\<open>C1\<close>. The accepted candidates are among the incoming ones, no two of them conflict, none
  conflicts with a candidate selected before, and none touches a hard constraint; the exact and
  the greedy solver, chosen by the size of a component, both keep this.
\<close>

theorem accepted_conflict_free:
  "sorted_wrt (\<lambda>a b. \<not> conflicts a b adaptive) (cr_accepted (solve incoming already_selected stage adaptive))
   \<and> set (cr_accepted (solve incoming already_selected stage adaptive)) \<subseteq>
       {c \<in> set incoming. \<not> violates_hard_constraints c
          \<and> \<not> list_ex (\<lambda>existing. conflicts c existing adaptive) already_selected}"
  by (rule solver_accepts)

text \<open>
  \<^bold>\<open>C13\<close>. Every incoming line is accounted for exactly once: it has one accepted candidate
  or it is dropped, never both; and the hard blocked lines are dropped ones.
\<close>

theorem lines_accounted:
  "let r = solve incoming already_selected stage adaptive in
   ec_line ` set incoming = ec_line ` set (cr_accepted r) \<union> cr_dropped_lines r
   \<and> ec_line ` set (cr_accepted r) \<inter> cr_dropped_lines r = {}
   \<and> distinct (map ec_line (cr_accepted r))
   \<and> cr_hard_blocked_lines r \<subseteq> cr_dropped_lines r"
proof (cases "incoming = []")
  case True
  then show ?thesis by (simp add: solve_def)
next
  case False
  define cons where "cons = consolidate_by_line incoming stage adaptive"
  define bad where "bad = (\<lambda>c. violates_hard_constraints c
      \<or> list_ex (\<lambda>e. conflicts c e adaptive) already_selected)"
  define ok where "ok = filter (\<lambda>c. \<not> bad c) cons"
  define acc where "acc = select_conflict_optimal ok stage adaptive"
  note c = consolidate_spec [of incoming stage adaptive, folded cons_def]
  have inj: "inj_on ec_line (set cons)" and dist: "distinct cons"
    using c(3) by (simp_all add: distinct_map)
  obtain "is" where acc_is: "acc = map ((!) ok) is" "sorted_wrt (<) is" "set is \<subseteq> {..<length ok}"
    using select_spec(2) [of ok stage adaptive] by (auto simp: acc_def)
  have sub: "set acc \<subseteq> set ok" using acc_is by auto
  have "distinct acc"
    using acc_is dist by (auto simp: strict_sorted_iff distinct_map inj_on_def subset_iff ok_def
        nth_eq_iff_index_eq)
  moreover have "inj_on ec_line (set acc)"
    using inj sub by (auto simp: ok_def intro: inj_on_subset)
  ultimately have d: "distinct (map ec_line acc)" by (simp add: distinct_map)
  have kept: "list_ex (\<lambda>w. ec_line w = ec_line x \<and> ec_policy w = ec_policy x) acc \<longleftrightarrow> x \<in> set acc"
    if "x \<in> set ok" for x
    using that sub inj by (auto simp: list_ex_iff ok_def inj_on_def)
  have r: "cr_accepted (solve incoming already_selected stage adaptive) = acc"
    "cr_dropped_lines (solve incoming already_selected stage adaptive)
       = ec_line ` {x \<in> set cons. bad x} \<union> ec_line ` (set ok - set acc)"
    "cr_hard_blocked_lines (solve incoming already_selected stage adaptive)
       = ec_line ` {x \<in> set cons. violates_hard_constraints x}"
    using solve_unfold [OF False, of already_selected stage adaptive] kept
    by (auto simp: cons_def bad_def ok_def acc_def)
  have split: "set cons = {x \<in> set cons. bad x} \<union> (set ok - set acc) \<union> set acc"
    using sub by (auto simp: ok_def)
  have "set acc \<inter> ({x \<in> set cons. bad x} \<union> (set ok - set acc)) = {}"
    using sub by (auto simp: ok_def)
  then have "ec_line ` set acc \<inter> ec_line ` ({x \<in> set cons. bad x} \<union> (set ok - set acc)) = {}"
    using inj_on_image_Int [OF inj, of "set acc" "{x \<in> set cons. bad x} \<union> (set ok - set acc)"] sub
    by (auto simp: ok_def)
  moreover have "ec_line ` set incoming = ec_line ` set acc \<union> ec_line ` ({x \<in> set cons. bad x} \<union> (set ok - set acc))"
    unfolding c(2) [symmetric] by (subst split) auto
  moreover have "{x \<in> set cons. violates_hard_constraints x} \<subseteq> {x \<in> set cons. bad x}" by (auto simp: bad_def)
  ultimately show ?thesis
    using d by (auto simp: r Let_def image_Un)
qed

text \<open>
  \<^bold>\<open>C2\<close>.  The exact search of a component selects members of the component, none of them twice and
  no two in conflict.  When the total utilities of different conflict-free selections differ by
  more than the tolerance of its comparisons (\<open>weights_separated\<close>), no conflict-free selection from
  the component has a greater total utility.
\<close>

theorem exact_search_optimal:
  fixes candidates adjacency component stage adaptive
  defines "selected \<equiv> solve_component_exact candidates adjacency component stage adaptive"
  assumes "conflict_graph adjacency" "distinct component" "set component \<subseteq> {..<length adjacency}"
  shows "set selected \<subseteq> set component \<and> distinct selected \<and> conflict_free adjacency (set selected)
     \<and> (weights_separated candidates adjacency component stage adaptive \<longrightarrow>
         (\<forall>S \<subseteq> set component. conflict_free adjacency S \<longrightarrow>
            weight_of candidates stage adaptive S \<le> weight_of candidates stage adaptive (set selected)))"
  using exact_component [OF assms(2-4)] unfolding selected_def by blast

text \<open>
  The greedy selection of a large component cannot be extended: every candidate of
  the component is selected or in conflict with a selected one.
\<close>

theorem greedy_maximal:
  assumes "conflict_graph adjacency" "set component \<subseteq> {..<length adjacency}" "x \<in> set component"
  shows "x \<in> (\<Union>i \<in> set (solve_component_greedy candidates adjacency component stage adaptive).
     insert i (set (adjacency ! i)))"
  using assms by (rule greedy_component(4))

definition sample_candidate :: "rstr \<Rightarrow> real \<Rightarrow> edit_candidate" where
  "sample_candidate policy gain =
     \<lparr>ec_policy = policy, ec_line = 7, ec_confidence = 1, ec_style_gain = gain, ec_risk_tier = Low,
      ec_impact_radius = 0, ec_symbol_footprint = [], ec_range_footprint = [],
      ec_hard_constraints_touched = 0, ec_zone = Code, ec_after_fingerprint = 0\<rparr>"

definition sample_filter :: certainty_filter_state where
  "sample_filter =
     \<lparr>cs_estimates = [0, 0, 0, 0, 1], cs_covariance = replicate 5 (replicate 5 0),
      cs_adaptive_q = replicate 5 (replicate 5 0), cs_adaptive_r = replicate 5 (replicate 5 0),
      cs_legacy_adaptation_count = 0, cs_observation_count = 0\<rparr>"

lemma sample_weight:
  "0 \<le> gain \<Longrightarrow> cands ! i = sample_candidate p gain \<Longrightarrow>
     node_weight cands Full sample_filter i = gain + 1"
  by (simp add: node_weight_def utility_score_def sample_candidate_def sample_filter_def
      stabilizer_bonus_def scope_narrowness_def risk_penalty_def risk_tier_index_def
      footprint_weights_def variance_def numeral_eq_Suc)

theorem greedy_maximal_witness:
  "1 \<in> (\<Union>i \<in> set (solve_component_greedy [sample_candidate ''a'' 1, sample_candidate ''b'' 2]
       [[1], [0]] [0, 1] Full sample_filter). insert i (set ([[1], [0]] ! i)))"
  by (rule greedy_maximal) (auto simp: conflict_graph_def less_Suc_eq)

lemma sample_subsets:
  assumes "S \<subseteq> set [0, 1 :: nat]" "conflict_free [[1], [0]] S"
  shows "S = {} \<or> S = {0} \<or> S = {1}"
proof -
  have "S \<in> Pow {0, 1}" using assms(1) by simp
  then have "S = {} \<or> S = {0} \<or> S = {1} \<or> S = {0, 1}" by auto
  with assms(2) show ?thesis by (auto simp: conflict_free_def)
qed

theorem exact_search_optimal_witness:
  "conflict_free [[1], [0]] (set (solve_component_exact [sample_candidate ''a'' 1, sample_candidate ''b'' 2]
       [[1], [0]] [0, 1] Full sample_filter))
   \<and> weight_of [sample_candidate ''a'' 1, sample_candidate ''b'' 2] Full sample_filter {1}
   \<le> weight_of [sample_candidate ''a'' 1, sample_candidate ''b'' 2] Full sample_filter
       (set (solve_component_exact [sample_candidate ''a'' 1, sample_candidate ''b'' 2]
          [[1], [0]] [0, 1] Full sample_filter))"
proof -
  let ?c = "[sample_candidate ''a'' 1, sample_candidate ''b'' 2]"
  have w: "weight_of ?c Full sample_filter {} = 0" "weight_of ?c Full sample_filter {0} = 2"
    "weight_of ?c Full sample_filter {Suc 0} = 3"
    by (simp_all add: weight_of_def sample_weight [where p = "''a''" and gain = 1]
        sample_weight [where p = "''b''" and gain = 2])
  have "weights_separated ?c [[1], [0]] [0, 1] Full sample_filter"
    unfolding weights_separated_def
  proof (intro allI impI)
    fix S T :: "nat set" assume S: "S \<subseteq> set [0, 1]" "conflict_free [[1], [0]] S"
      and T: "T \<subseteq> set [0, 1]" "conflict_free [[1], [0]] T"
      and near: "\<bar>weight_of ?c Full sample_filter S - weight_of ?c Full sample_filter T\<bar> \<le> tolerance"
    note sets = sample_subsets [OF S] sample_subsets [OF T]
    with near show "weight_of ?c Full sample_filter S = weight_of ?c Full sample_filter T"
      by (elim disjE) (simp_all add: w tolerance_def)
  qed
  moreover have "conflict_graph [[1], [0]]" by (auto simp: conflict_graph_def less_Suc_eq)
  moreover have "{1} \<subseteq> set [0, 1 :: nat]" "conflict_free [[1], [0]] {1}" by (simp_all add: conflict_free_def)
  ultimately show ?thesis
    using exact_search_optimal [of "[[1], [0]]" "[0, 1]" ?c Full sample_filter] by auto
qed

end
