(* ===== verification/Conflict_Detector.thy ===== *)
theory Conflict_Detector
  imports Model
begin

text \<open>
  \<^verbatim>\<open>src/src/engine/conflict_detector.rs\<close>: the detector that watches the edits of the policies
  in their order and reports a policy that undoes another's edit and lines touched by several
  policies, each once.
\<close>

section \<open>State and operations\<close>

record conflict_detector =
  det_enabled :: bool
  det_touch_threshold :: nat
  line_history :: "nat \<rightharpoonup> edit list"
  reported_reverts :: "(nat \<times> rstr \<times> rstr) set"
  reported_touches :: "(nat \<times> rstr) set"

definition detector_new :: "bool \<Rightarrow> nat \<Rightarrow> conflict_detector" where
  "detector_new enabled touch_threshold =
     \<lparr>det_enabled = enabled, det_touch_threshold = max touch_threshold 2,
      line_history = Map.empty, reported_reverts = {}, reported_touches = {}\<rparr>"

definition detector_violation :: "nat \<Rightarrow> rstr \<Rightarrow> violation" where
  "detector_violation line message =
     \<lparr>v_policy = policy_from_str_lossy ''policy_conflict_detector'', v_message = message,
      v_line = line, v_column = Some 1\<rparr>"

definition check_revert ::
    "rstr \<Rightarrow> edit \<Rightarrow> edit \<Rightarrow> conflict_detector \<Rightarrow> violation list \<times> conflict_detector" where
  "check_revert policy_name e previous d =
     (let key = (e_line e, policy_as_str (e_policy previous), policy_name) in
      if \<not> policy_eq_str (e_policy previous) policy_name
         \<and> e_after e = e_before previous \<and> e_before e = e_after previous
         \<and> key \<notin> reported_reverts d
      then ([detector_violation (e_line e)
               (''Line '' @ nat_to_string (e_line e) @ '': policy '' @ [CHR 0x27] @ policy_name
                @ [CHR 0x27] @ '' appears to revert policy '' @ [CHR 0x27]
                @ policy_as_str (e_policy previous) @ [CHR 0x27])],
            d\<lparr>reported_reverts := insert key (reported_reverts d)\<rparr>)
      else ([], d))"

definition touched_policies :: "rstr \<Rightarrow> edit list \<Rightarrow> rstr list" where
  "touched_policies policy_name history =
     remdups_adj (sort (map (\<lambda>item. policy_as_str (e_policy item)) history @ [policy_name]))"

definition check_touch ::
    "rstr \<Rightarrow> edit \<Rightarrow> edit list \<Rightarrow> conflict_detector \<Rightarrow> violation list \<times> conflict_detector" where
  "check_touch policy_name e history d =
     (let touched = touched_policies policy_name history;
          key = (e_line e, join ''|'' touched)
      in if length touched \<ge> det_touch_threshold d \<and> key \<notin> reported_touches d
         then ([detector_violation (e_line e)
                  (''Line '' @ nat_to_string (e_line e) @ '': touched by multiple policies (''
                   @ join '', '' touched @ ''), verify style rule compatibility'')],
               d\<lparr>reported_touches := insert key (reported_touches d)\<rparr>)
         else ([], d))"

definition observe_one ::
    "rstr \<Rightarrow> edit \<Rightarrow> violation list \<times> conflict_detector \<Rightarrow> violation list \<times> conflict_detector" where
  "observe_one policy_name e = (\<lambda>(violations, d).
     if e_line e = 0 then (violations, d)
     else
       let history = unwrap_or (line_history d (e_line e)) [];
           (reverts, d) = (if history = [] then ([], d) else check_revert policy_name e (List.last history) d);
           (touches, d) = (if history = [] then ([], d) else check_touch policy_name e history d)
       in (violations @ reverts @ touches,
           d\<lparr>line_history := (line_history d)(e_line e \<mapsto> history @ [e])\<rparr>))"

definition observe :: "conflict_detector \<Rightarrow> rstr \<Rightarrow> edit list \<Rightarrow> violation list \<times> conflict_detector" where
  "observe d policy_name edits =
     (if \<not> det_enabled d \<or> edits = [] then ([], d)
      else fold (observe_one policy_name) edits ([], d))"

fun observe_all :: "conflict_detector \<Rightarrow> (rstr \<times> edit list) list \<Rightarrow> violation list \<times> conflict_detector" where
  "observe_all d [] = ([], d)"
| "observe_all d ((policy_name, edits) # turns) =
     (let (vs, d') = observe d policy_name edits; (ws, d'') = observe_all d' turns in (vs @ ws, d''))"

section \<open>A line of one policy\<close>

definition line_of_one_policy :: "nat \<Rightarrow> rstr \<Rightarrow> conflict_detector \<Rightarrow> bool" where
  "line_of_one_policy n p d \<longleftrightarrow> 2 \<le> det_touch_threshold d
     \<and> (\<forall>e \<in> set (unwrap_or (line_history d n) []). policy_as_str (e_policy e) = p)"

lemma remdups_adj_const: "\<forall>x \<in> set xs. x = p \<Longrightarrow> length (remdups_adj xs) \<le> 1"
  by (induction xs rule: remdups_adj.induct) auto

lemma touched_one: "\<forall>e \<in> set history. policy_as_str (e_policy e) = p \<Longrightarrow> length (touched_policies p history) \<le> 1"
  unfolding touched_policies_def by (rule remdups_adj_const [of _ p]) auto

lemma check_revert_line:
  "check_revert q e prev d = (vs, d') \<Longrightarrow>
     line_history d' = line_history d \<and> det_touch_threshold d' = det_touch_threshold d
     \<and> (\<forall>v \<in> set vs. v_line v = e_line e) \<and> (policy_as_str (e_policy prev) = q \<longrightarrow> vs = [])"
  by (auto simp: check_revert_def detector_violation_def policy_eq_str_def Let_def split: if_splits)

lemma check_touch_line:
  "check_touch q e history d = (vs, d') \<Longrightarrow>
     line_history d' = line_history d \<and> det_touch_threshold d' = det_touch_threshold d
     \<and> (\<forall>v \<in> set vs. v_line v = e_line e)
     \<and> (length (touched_policies q history) < det_touch_threshold d \<longrightarrow> vs = [])"
  by (auto simp: check_touch_def detector_violation_def Let_def split: if_splits)

lemma observe_one_quiet:
  assumes step: "observe_one q e (vs, d) = (vs', d')" and inv: "line_of_one_policy n p d"
    and own: "e_line e = n \<Longrightarrow> q = p \<and> policy_as_str (e_policy e) = p"
  shows "line_of_one_policy n p d' \<and> (\<forall>v \<in> set vs'. v_line v = n \<longrightarrow> v \<in> set vs)"
proof (cases "e_line e = 0")
  case True
  with step inv show ?thesis by (simp add: observe_one_def)
next
  case False
  define history where "history = unwrap_or (line_history d (e_line e)) []"
  obtain rv d1 where r: "(if history = [] then ([], d) else check_revert q e (List.last history) d) = (rv, d1)"
    by force
  obtain tv d2 where t: "(if history = [] then ([], d1) else check_touch q e history d1) = (tv, d2)"
    by force
  have out: "vs' = vs @ rv @ tv" "d' = d2\<lparr>line_history := (line_history d2)(e_line e \<mapsto> history @ [e])\<rparr>"
    using step unfolding observe_one_def prod.case if_not_P [OF False] Let_def
      history_def [symmetric] r prod.case t by simp_all
  have frame: "line_history d2 = line_history d" "det_touch_threshold d2 = det_touch_threshold d"
    "det_touch_threshold d1 = det_touch_threshold d"
    using r t by (auto split: if_splits dest!: check_revert_line check_touch_line)
  have lines: "\<forall>v \<in> set (rv @ tv). v_line v = e_line e"
    using r t by (auto split: if_splits dest!: check_revert_line check_touch_line)
  show ?thesis
  proof (cases "e_line e = n")
    case True
    have h: "\<forall>x \<in> set history. policy_as_str (e_policy x) = p" and th: "2 \<le> det_touch_threshold d"
      using inv True by (auto simp: line_of_one_policy_def history_def)
    have "rv = []"
      using r h own True by (auto split: if_splits dest!: check_revert_line)
    moreover have "tv = []"
      using t touched_one [OF h] own True th frame(3)
      by (auto split: if_splits dest!: check_touch_line)
    ultimately show ?thesis
      using out frame h own True th by (auto simp: line_of_one_policy_def)
  next
    case False
    with out lines frame inv show ?thesis by (auto simp: line_of_one_policy_def)
  qed
qed

lemma observe_fold_quiet:
  assumes "fold (observe_one q) es (vs, d) = (vs', d')" "line_of_one_policy n p d"
    and "\<forall>e \<in> set es. e_line e = n \<longrightarrow> q = p \<and> policy_as_str (e_policy e) = p"
  shows "line_of_one_policy n p d' \<and> (\<forall>v \<in> set vs'. v_line v = n \<longrightarrow> v \<in> set vs)"
  using assms
proof (induction es arbitrary: vs d)
  case (Cons e es)
  obtain vs1 d1 where s: "observe_one q e (vs, d) = (vs1, d1)" by force
  from observe_one_quiet [OF s Cons.prems(2)] Cons.prems(3)
  have one: "line_of_one_policy n p d1" "\<forall>v \<in> set vs1. v_line v = n \<longrightarrow> v \<in> set vs" by auto
  have "fold (observe_one q) es (vs1, d1) = (vs', d')" using Cons.prems(1) s by simp
  from Cons.IH [OF this one(1)] Cons.prems(3) one(2) show ?case by auto
qed simp

lemma observe_all_quiet:
  assumes "line_of_one_policy n p d"
    and "\<forall>(q, es) \<in> set turns. \<forall>e \<in> set es. e_line e = n \<longrightarrow> q = p \<and> policy_as_str (e_policy e) = p"
  shows "\<forall>v \<in> set (fst (observe_all d turns)). v_line v \<noteq> n"
  using assms
proof (induction turns arbitrary: d)
  case (Cons t turns)
  obtain q es where t: "t = (q, es)" by force
  obtain vs d1 where o: "observe d q es = (vs, d1)" by force
  have "line_of_one_policy n p d1 \<and> (\<forall>v \<in> set vs. v_line v \<noteq> n)"
  proof (cases "\<not> det_enabled d \<or> es = []")
    case True
    with o Cons.prems(1) show ?thesis by (auto simp: observe_def)
  next
    case False
    then have "fold (observe_one q) es ([], d) = (vs, d1)" using o by (auto simp: observe_def)
    from observe_fold_quiet [OF this Cons.prems(1)] Cons.prems(2) show ?thesis by (auto simp: t)
  qed
  with Cons.IH [of d1] Cons.prems(2) show ?case by (auto simp: t o split: prod.splits)
qed simp

section \<open>Properties\<close>

text \<open>
  No false alarm: over a whole run, a line that only one policy edits never gets a
  violation, whatever the other lines go through and whatever threshold is configured.
\<close>

theorem single_policy_line_quiet:
  assumes "\<forall>(q, es) \<in> set turns. \<forall>e \<in> set es. e_line e = n \<longrightarrow> q = p \<and> policy_as_str (e_policy e) = p"
  shows "n \<notin> v_line ` set (fst (observe_all (detector_new enabled touch_threshold) turns))"
  using observe_all_quiet [OF _ assms, of "detector_new enabled touch_threshold"]
  by (auto simp: line_of_one_policy_def detector_new_def)

definition detector_edit :: "rstr \<Rightarrow> nat \<Rightarrow> rstr \<Rightarrow> rstr \<Rightarrow> edit" where
  "detector_edit policy line before after =
     \<lparr>e_policy = policy_from_str_lossy policy, e_line = line, e_before = before, e_after = after\<rparr>"

theorem single_policy_line_quiet_witness:
  "1 \<notin> v_line ` set (fst (observe_all (detector_new True 2)
     [(''p'', [detector_edit ''p'' 1 ''a'' ''b'', detector_edit ''p'' 1 ''b'' ''a'']),
      (''q'', [detector_edit ''q'' 2 ''x'' ''y''])]))"
  by (rule single_policy_line_quiet [where p = "''p''"])
    (simp add: detector_edit_def policy_as_str_from_str_lossy, code_simp)

text \<open>
  Every undoing is reported: when a policy's edit is the exact inverse of the last
  edit of that line by another policy, and this was not reported before, the line gets a
  violation.
\<close>

theorem revert_reported:
  assumes "det_enabled d" "0 < e_line e"
    and "line_history d (e_line e) = Some (history @ [previous])"
    and "policy_as_str (e_policy previous) \<noteq> policy_name"
    and "e_after e = e_before previous" "e_before e = e_after previous"
    and "(e_line e, policy_as_str (e_policy previous), policy_name) \<notin> reported_reverts d"
  shows "e_line e \<in> v_line ` set (fst (observe d policy_name [e]))"
  using assms
  by (auto simp: observe_def observe_one_def check_revert_def policy_eq_str_def detector_violation_def
      Let_def split: prod.splits)

theorem revert_reported_witness:
  "1 \<in> v_line ` set (fst (observe
     (snd (observe (detector_new True 3) ''p1'' [detector_edit ''p1'' 1 ''A'' ''B'']))
     ''p2'' [detector_edit ''p2'' 1 ''B'' ''A'']))"
proof -
  let ?d = "snd (observe (detector_new True 3) ''p1'' [detector_edit ''p1'' 1 ''A'' ''B''])"
  let ?e = "detector_edit ''p2'' 1 ''B'' ''A''"
  have d: "?d = (detector_new True 3)\<lparr>line_history := [1 \<mapsto> [detector_edit ''p1'' 1 ''A'' ''B'']]\<rparr>"
    by (simp add: observe_def observe_one_def detector_new_def detector_edit_def)
  have name: "policy_as_str (policy_from_str_lossy ''p1'') = ''p1''" by code_simp
  have "e_line ?e \<in> v_line ` set (fst (observe ?d ''p2'' [?e]))"
    unfolding d
    by (rule revert_reported [where history = "[]" and previous = "detector_edit ''p1'' 1 ''A'' ''B''"])
      (simp_all add: detector_edit_def detector_new_def name)
  then show ?thesis by (simp add: detector_edit_def)
qed

end
