(* ===== verification/Ecc_Model.thy ===== *)
theory Ecc_Model
  imports Prelude
begin

unbundle bit_operations_syntax

text \<open>
  What the two error-correcting formats share (\<^verbatim>\<open>src/src/files/codec.rs\<close> for state files,
  \<^verbatim>\<open>src/src/files/ecc_frame.rs\<close> for streams): errors as values, little-endian integers,
  chunks, and the interface of the Reed--Solomon crate.

  The crate \<^verbatim>\<open>reed_solomon_erasure\<close> is not part of the repository: it is the record
  \<open>reed_solomon\<close>, a parameter of every definition that uses it, and the property the code
  relies on is \<open>recovers\<close>: the parity shards extend the data shards and any erasure of at most
  as many shards as there are parity shards is undone.  The checksum
  (\<^verbatim>\<open>crc32fast\<close> behind \<^verbatim>\<open>src/src/files/crc.rs\<close>) is a parameter \<open>hash\<close>.
\<close>

section \<open>Results\<close>

datatype ecc_error =
    PayloadTooLarge nat nat
  | PayloadLenOverflow nat
  | CodecBuildFailed
  | EncodeFailed
  | ReconstructFailed
  | SerializeFailed
  | DeserializeFailed
  | LengthOverflow
  | CountOverflow nat
  | UnsupportedFormat
  | FrameTooShort nat
  | MissingField
  | InvalidMagic "byte list"
  | InvalidDataShards nat
  | InvalidParityShards nat
  | InvalidShardSize
  | LengthMismatch nat nat
  | Uncorrectable nat nat
  | MissingShard
  | ShardChecksumMismatch nat u32 u32
  | PayloadChecksumMismatch u32 u32
  | UnexpectedEof

fun and_then :: "'e + 'a \<Rightarrow> ('a \<Rightarrow> 'e + 'b) \<Rightarrow> 'e + 'b" where
  "and_then (Inl e) f = Inl e"
| "and_then (Inr x) f = f x"

definition ok_or :: "'e \<Rightarrow> 'a option \<Rightarrow> 'e + 'a" where
  "ok_or e r = (case r of None \<Rightarrow> Inl e | Some x \<Rightarrow> Inr x)"

lemma ok_or_simps [simp]: "ok_or e None = Inl e" "ok_or e (Some x) = Inr x"
  by (simp_all add: ok_or_def)

lemma and_then_Inr: "and_then r f = Inr y \<longleftrightarrow> (\<exists>x. r = Inr x \<and> f x = Inr y)"
  by (cases r) auto

fun try_map :: "('a \<Rightarrow> 'e + 'b) \<Rightarrow> 'a list \<Rightarrow> 'e + 'b list" where
  "try_map f [] = Inr []"
| "try_map f (x # xs) = and_then (f x) (\<lambda>y. and_then (try_map f xs) (\<lambda>ys. Inr (y # ys)))"

lemma try_map_Inr: "(\<And>x. x \<in> set xs \<Longrightarrow> f x = Inr (g x)) \<Longrightarrow> try_map f xs = Inr (map g xs)"
  by (induction xs) auto

lemma try_map_ok_or [simp]: "try_map (ok_or e) (map Some xs) = Inr xs"
  by (induction xs) auto

section \<open>Machine integers of the target\<close>

text \<open>A \<open>usize\<close> has 64 bits on the supported targets.\<close>

definition usize_checked :: "nat \<Rightarrow> nat option" where
  "usize_checked n = (if n < 2 ^ 64 then Some n else None)"

definition u32_try_from :: "nat \<Rightarrow> u32 option" where
  "u32_try_from n = (if n < 2 ^ 32 then Some (of_nat n) else None)"

definition u16_try_from :: "nat \<Rightarrow> u16 option" where
  "u16_try_from n = (if n < 2 ^ 16 then Some (of_nat n) else None)"

definition u16_to_le_bytes :: "u16 \<Rightarrow> byte list" where
  "u16_to_le_bytes w = [ucast w, ucast (drop_bit 8 w)]"

definition u32_to_le_bytes :: "u32 \<Rightarrow> byte list" where
  "u32_to_le_bytes w = [ucast w, ucast (drop_bit 8 w), ucast (drop_bit 16 w), ucast (drop_bit 24 w)]"

definition u16_from_le_bytes :: "byte list \<Rightarrow> u16" where
  "u16_from_le_bytes bs = ucast (bs ! 0) OR push_bit 8 (ucast (bs ! 1))"

definition u32_from_le_bytes :: "byte list \<Rightarrow> u32" where
  "u32_from_le_bytes bs =
     ucast (bs ! 0) OR push_bit 8 (ucast (bs ! 1)) OR push_bit 16 (ucast (bs ! 2))
       OR push_bit 24 (ucast (bs ! 3))"

lemma length_le_bytes [simp]:
  "length (u16_to_le_bytes w) = 2" "length (u32_to_le_bytes v) = 4"
  by (simp_all add: u16_to_le_bytes_def u32_to_le_bytes_def)

lemma u16_le_roundtrip [simp]: "u16_from_le_bytes (u16_to_le_bytes w) = w"
  by (rule bit_word_eqI)
    (auto simp: u16_from_le_bytes_def u16_to_le_bytes_def bit_simps)

lemma u32_le_roundtrip [simp]: "u32_from_le_bytes (u32_to_le_bytes w) = w"
proof (rule bit_word_eqI)
  fix n assume "n < LENGTH(32)"
  then have "n < 8 \<or> 8 \<le> n \<and> n < 16 \<or> 16 \<le> n \<and> n < 24 \<or> 24 \<le> n \<and> n < 32" by auto
  then show "bit (u32_from_le_bytes (u32_to_le_bytes w)) n = bit w n"
    by (auto simp: u32_from_le_bytes_def u32_to_le_bytes_def bit_simps)
qed

lemma u32_try_from_Some [simp]: "n < 4294967296 \<Longrightarrow> u32_try_from n = Some (of_nat n)"
  and u16_try_from_Some [simp]: "n < 65536 \<Longrightarrow> u16_try_from n = Some (of_nat n)"
  and usize_checked_Some [simp]: "n < 18446744073709551616 \<Longrightarrow> usize_checked n = Some n"
  by (simp_all add: u32_try_from_def u16_try_from_def usize_checked_def)

lemma unat_small_u32 [simp]: "n < 4294967296 \<Longrightarrow> unat (of_nat n :: u32) = n"
  and unat_small_u16 [simp]: "n < 65536 \<Longrightarrow> unat (of_nat n :: u16) = n"
  by (simp_all add: unat_of_nat)

definition div_ceil :: "nat \<Rightarrow> nat \<Rightarrow> nat" where
  "div_ceil a b = (a + b - 1) div b"

lemma div_ceil_upper: "0 < b \<Longrightarrow> a \<le> b * div_ceil a b"
proof -
  assume b: "0 < b"
  have "b * ((a + b - 1) div b) + (a + b - 1) mod b = a + b - 1" by (rule mult_div_mod_eq)
  moreover have "(a + b - 1) mod b < b" using b by simp
  ultimately show ?thesis unfolding div_ceil_def using b by linarith
qed

lemma div_ceil_mono: "a \<le> c \<Longrightarrow> div_ceil a b \<le> div_ceil c b"
  by (simp add: div_ceil_def div_le_mono)

lemma clamped_div_ceil:
  assumes "e \<le> 2 ^ (k + 5)" "17 \<le> k"
  shows "div_ceil e (clamp_nat (div_ceil e 4096) 2 32) \<le> 2 ^ k"
proof (cases "div_ceil e 4096 > 32")
  case True
  then have "clamp_nat (div_ceil e 4096) 2 32 = 32" by (simp add: clamp_nat_def)
  moreover have "div_ceil e 32 \<le> div_ceil (2 ^ k * 32) 32"
    using assms(1) by (intro div_ceil_mono) (simp add: power_add)
  moreover have "div_ceil (2 ^ k * 32) 32 = 2 ^ k" by (simp add: div_ceil_def)
  ultimately show ?thesis by simp
next
  case False
  define d where "d = clamp_nat (div_ceil e 4096) 2 32"
  have d: "2 \<le> d" "d \<le> 32" by (auto simp: d_def clamp_nat_def)
  from False have e: "e \<le> 4096 * 32" using div_ceil_upper [of 4096 e] by simp
  have "(e + d - 1) div d \<le> (e + 31) div d" using d by (intro div_le_mono) linarith
  also have "\<dots> \<le> (e + 31) div 2" using d by (intro div_le_mono2) auto
  finally have "div_ceil e (clamp_nat (div_ceil e 4096) 2 32) \<le> (e + 31) div 2"
    by (simp add: div_ceil_def d_def)
  also have "\<dots> \<le> 2 ^ 17" using e by simp
  also have "\<dots> \<le> (2::nat) ^ k" using assms(2) by (intro power_increasing) auto
  finally show ?thesis .
qed

section \<open>Chunks and shards\<close>

function chunks :: "nat \<Rightarrow> 'a list \<Rightarrow> 'a list list" where
  "chunks n xs = (if xs = [] \<or> n = 0 then [] else take n xs # chunks n (drop n xs))"
  by pat_completeness auto
termination by (relation "measure (\<lambda>(n, xs). length xs)") auto

declare chunks.simps [simp del]

lemma chunks_Nil [simp]: "chunks n [] = []"
  by (subst chunks.simps) simp

lemma chunks_step: "xs \<noteq> [] \<Longrightarrow> n \<noteq> 0 \<Longrightarrow> chunks n xs = take n xs # chunks n (drop n xs)"
  by (subst chunks.simps) simp

lemma chunks_multiple:
  assumes "0 < n" "length xs = k * n"
  shows "length (chunks n xs) = k \<and> (\<forall>c \<in> set (chunks n xs). length c = n) \<and> concat (chunks n xs) = xs"
  using assms
proof (induction k arbitrary: xs)
  case 0
  then show ?case by simp
next
  case (Suc k)
  have l: "length (drop n xs) = k * n" "n \<le> length xs" by (simp_all only: length_drop Suc.prems(2)) simp_all
  have ne: "xs \<noteq> []" "n \<noteq> 0" using Suc.prems(1) l(2) by (cases xs; simp)+
  have c: "chunks n xs = take n xs # chunks n (drop n xs)" by (rule chunks_step [OF ne])
  note ih = Suc.IH [OF Suc.prems(1) l(1)]
  have "length (take n xs) = n" using l(2) by simp
  moreover have "take n xs @ drop n xs = xs" by (rule append_take_drop_id)
  ultimately show ?case using ih unfolding c by (simp del: append_take_drop_id)
qed

lemma padded_chunks:
  fixes payload :: "byte list" and d sz
  defines "shards \<equiv> chunks sz (payload @ replicate (d * sz - length payload) 0)"
  assumes sz: "0 < sz" and d: "0 < d" and len: "length payload \<le> d * sz"
  shows "length shards = d" "\<forall>s \<in> set shards. length s = sz"
    "take (length payload) (concat shards) = payload" "length (hd shards) = sz"
proof -
  define padded where "padded = payload @ replicate (d * sz - length payload) 0"
  have "length padded = d * sz"
    unfolding padded_def length_append length_replicate using len by (rule le_add_diff_inverse)
  have c: "length shards = d \<and> (\<forall>c \<in> set shards. length c = sz) \<and> concat shards = padded"
    unfolding shards_def padded_def [symmetric] by (rule chunks_multiple [OF sz \<open>length padded = d * sz\<close>])
  then show "length shards = d" "\<forall>s \<in> set shards. length s = sz"
    "take (length payload) (concat shards) = payload" by (simp_all add: padded_def)
  have "shards \<noteq> []" using c d by force
  then show "length (hd shards) = sz" using c by simp
qed

lemma slice_concat:
  assumes "\<forall>s \<in> set ss. length s = n" "i < length ss"
  shows "slice (i * n) (i * n + n) (concat ss) = ss ! i"
  using assms
proof (induction ss arbitrary: i)
  case (Cons s ss)
  show ?case
  proof (cases i)
    case 0
    with Cons.prems show ?thesis by simp
  next
    case (Suc j)
    have "slice (n + j * n) (n + j * n + n) (s @ concat ss) = slice (j * n) (j * n + n) (concat ss)"
      using Cons.prems by (simp add: slice_def)
    with Suc Cons show ?thesis by simp
  qed
qed simp

lemma length_concat_shards: "\<forall>s \<in> set ss. length s = n \<Longrightarrow> length (concat ss) = length ss * n"
  by (induction ss) auto

section \<open>The Reed--Solomon interface\<close>

record 'c reed_solomon =
  rs_new :: "nat \<Rightarrow> nat \<Rightarrow> 'c option"
  rs_encode :: "'c \<Rightarrow> byte list list \<Rightarrow> byte list list option"
  rs_reconstruct :: "'c \<Rightarrow> byte list option list \<Rightarrow> byte list option list option"

definition erase :: "bool list \<Rightarrow> byte list list \<Rightarrow> byte list option list" where
  "erase keep shards = map2 (\<lambda>k s. if k then Some s else None) keep shards"

definition recovers :: "'c reed_solomon \<Rightarrow> nat \<Rightarrow> nat \<Rightarrow> byte list list \<Rightarrow> byte list list \<Rightarrow> bool" where
  "recovers rs d p data enc \<longleftrightarrow>
     (case rs_new rs d p of None \<Rightarrow> False
      | Some codec \<Rightarrow>
          rs_encode rs codec (data @ replicate p (replicate (length (hd data)) 0)) = Some enc
          \<and> length enc = d + p \<and> take d enc = data
          \<and> (\<forall>s \<in> set enc. length s = length (hd data))
          \<and> (\<forall>keep \<in> set (List.n_lists (d + p) [True, False]).
               length (filter Not keep) \<le> p
               \<longrightarrow> rs_reconstruct rs codec (erase keep enc) = Some (map Some enc)))"

lemma recovers_cases:
  assumes "recovers rs d p data enc"
  obtains codec where "rs_new rs d p = Some codec"
    "rs_encode rs codec (data @ replicate p (replicate (length (hd data)) 0)) = Some enc"
    "length enc = d + p" "take d enc = data" "\<forall>s \<in> set enc. length s = length (hd data)"
    "\<And>keep. length keep = d + p \<Longrightarrow> length (filter Not keep) \<le> p
       \<Longrightarrow> rs_reconstruct rs codec (erase keep enc) = Some (map Some enc)"
proof -
  have n: "keep \<in> set (List.n_lists n [True, False])" if "length keep = n" for keep n
    using that by (auto simp: set_n_lists)
  obtain codec where c: "rs_new rs d p = Some codec"
    using assms by (auto simp: recovers_def split: option.splits)
  show ?thesis
    using assms unfolding recovers_def c option.case
    by (elim conjE, intro that [OF c]) (use n in blast)+
qed

section \<open>Damage\<close>

text \<open>
  Received shards: each one is as sent, or differs and its checksum shows it.  \<open>check_shards\<close>
  is how both readers look at them.
\<close>

definition detectable :: "(byte list \<Rightarrow> u32) \<Rightarrow> byte list list \<Rightarrow> byte list list \<Rightarrow> bool" where
  "detectable hash sent received \<longleftrightarrow>
     list_all2 (\<lambda>s r. length r = length s \<and> (r = s \<or> hash r \<noteq> hash s)) sent received"

definition damaged_shards :: "byte list list \<Rightarrow> byte list list \<Rightarrow> nat" where
  "damaged_shards sent received = length (filter (\<lambda>(s, r). s \<noteq> r) (zip sent received))"

definition check_shards ::
    "(byte list \<Rightarrow> u32) \<Rightarrow> u32 list \<Rightarrow> byte list list \<Rightarrow> byte list option list" where
  "check_shards hash crcs shards = map2 (\<lambda>crc s. if hash s = crc then Some s else None) crcs shards"

definition missing :: "'a option list \<Rightarrow> nat" where
  "missing shards = length (filter (\<lambda>s. s = None) shards)"

lemma check_shards_detectable:
  assumes "detectable hash sent received"
  shows "check_shards hash (map hash sent) received = erase (map2 (=) sent received) sent"
    and "missing (check_shards hash (map hash sent) received) = damaged_shards sent received"
    and "length (filter Not (map2 (=) sent received)) = damaged_shards sent received"
    and "length received = length sent"
  using assms unfolding detectable_def
  by (induction rule: list_all2_induct)
    (auto simp: check_shards_def erase_def missing_def damaged_shards_def)

lemma undamaged:
  assumes "detectable hash sent received" "damaged_shards sent received = 0"
  shows "check_shards hash (map hash sent) received = map Some sent"
  using assms unfolding detectable_def
  by (induction rule: list_all2_induct)
    (auto simp: check_shards_def damaged_shards_def split: if_splits)

section \<open>A small codec\<close>

text \<open>
  For concrete inputs: the code with two data and two parity shards over the field with 256
  elements, where the parity shards are \<open>a + b\<close> and \<open>a + 2 b\<close>, and a polynomial checksum.
\<close>

definition xtime :: "byte \<Rightarrow> byte" where
  "xtime b = push_bit 1 b XOR (if bit b 7 then 0x1D else 0)"

definition find_byte :: "(byte \<Rightarrow> bool) \<Rightarrow> byte" where
  "find_byte P = (case List.find P (map of_nat [0..<256]) of Some b \<Rightarrow> b | None \<Rightarrow> 0)"

definition small_encode :: "byte list \<Rightarrow> byte list \<Rightarrow> byte list list" where
  "small_encode a b = [a, b, map2 (XOR) a b, map2 (\<lambda>x y. x XOR xtime y) a b]"

fun small_solve :: "byte list option list \<Rightarrow> (byte list \<times> byte list) option" where
  "small_solve [Some a, Some b, _, _] = Some (a, b)"
| "small_solve [Some a, None, Some p, _] = Some (a, map2 (XOR) a p)"
| "small_solve [None, Some b, Some p, _] = Some (map2 (XOR) b p, b)"
| "small_solve [Some a, None, None, Some q] =
     Some (a, map2 (\<lambda>x z. find_byte (\<lambda>y. xtime y = x XOR z)) a q)"
| "small_solve [None, Some b, None, Some q] = Some (map2 (\<lambda>y z. z XOR xtime y) b q, b)"
| "small_solve [None, None, Some p, Some q] =
     (let b = map2 (\<lambda>x z. find_byte (\<lambda>y. y XOR xtime y = x XOR z)) p q in Some (map2 (XOR) p b, b))"
| "small_solve _ = None"

definition small_rs :: "unit reed_solomon" where
  "small_rs =
     \<lparr>rs_new = (\<lambda>d p. if d = 2 \<and> p = 2 then Some () else None),
      rs_encode = (\<lambda>_ shards. case shards of [a, b, _, _] \<Rightarrow> Some (small_encode a b) | _ \<Rightarrow> None),
      rs_reconstruct = (\<lambda>_ shards. map_option (\<lambda>(a, b). map Some (small_encode a b)) (small_solve shards))\<rparr>"

definition small_hash :: "byte list \<Rightarrow> u32" where
  "small_hash data = fold (\<lambda>b h. 31 * h + ucast b) data 7"

end
