(* ===== verification/State_Codec.thy ===== *)
theory State_Codec
  imports Ecc_Model
begin

text \<open>
  \<^verbatim>\<open>src/src/files/codec.rs\<close>: the format of every persisted state file.  The value is serialised
  by \<^verbatim>\<open>postcard\<close> (the parameters \<open>to_allocvec\<close> and \<open>from_bytes\<close>), padded, cut into shards,
  extended by two parity shards, and written after a header with a checksum of the payload and
  one of each shard.
\<close>

section \<open>The layout\<close>

definition max_payload_bytes :: nat where
  "max_payload_bytes = 256 * 1024 * 1024"

definition ecc_target_shard_size :: nat where "ecc_target_shard_size = 4096"
definition ecc_min_data_shards :: nat where "ecc_min_data_shards = 2"
definition ecc_max_data_shards :: nat where "ecc_max_data_shards = 32"
definition ecc_parity_shards :: nat where "ecc_parity_shards = 2"

definition binary_magic :: "byte list" where
  "binary_magic = [0x4D, 0x4A, 0x46, 0x45, 0x43, 0x30, 0x30, 0x31]"

definition payload_len_offset :: nat where "payload_len_offset = length binary_magic"
definition data_shards_offset :: nat where "data_shards_offset = payload_len_offset + 4"
definition parity_shards_offset :: nat where "parity_shards_offset = data_shards_offset + 2"
definition shard_size_offset :: nat where "shard_size_offset = parity_shards_offset + 2"
definition payload_checksum_offset :: nat where "payload_checksum_offset = shard_size_offset + 4"
definition header_len :: nat where "header_len = payload_checksum_offset + 4"

lemmas offset_defs = payload_len_offset_def data_shards_offset_def parity_shards_offset_def
  shard_size_offset_def payload_checksum_offset_def header_len_def

lemmas ecc_const_defs = max_payload_bytes_def ecc_target_shard_size_def ecc_min_data_shards_def
  ecc_max_data_shards_def ecc_parity_shards_def

record ecc_layout =
  data_shards :: nat
  parity_shards :: nat
  shard_size :: nat

definition for_payload_len :: "nat \<Rightarrow> ecc_error + ecc_layout" where
  "for_payload_len payload_len =
     (if payload_len > max_payload_bytes then Inl (PayloadTooLarge payload_len max_payload_bytes)
      else
        let effective_payload = max payload_len 1;
            d = clamp_nat (div_ceil effective_payload ecc_target_shard_size)
                  ecc_min_data_shards ecc_max_data_shards
        in Inr \<lparr>data_shards = d, parity_shards = ecc_parity_shards,
                shard_size = max (div_ceil effective_payload d) 1\<rparr>)"

definition from_header :: "nat \<Rightarrow> nat \<Rightarrow> nat \<Rightarrow> ecc_error + ecc_layout" where
  "from_header d p sz =
     (if \<not> (ecc_min_data_shards \<le> d \<and> d \<le> ecc_max_data_shards) then Inl (InvalidDataShards d)
      else if p \<noteq> ecc_parity_shards then Inl (InvalidParityShards p)
      else if sz = 0 then Inl InvalidShardSize
      else Inr \<lparr>data_shards = d, parity_shards = p, shard_size = sz\<rparr>)"

definition total_shards :: "ecc_layout \<Rightarrow> nat" where
  "total_shards l = data_shards l + parity_shards l"

definition checksum_table_len :: "ecc_layout \<Rightarrow> ecc_error + nat" where
  "checksum_table_len l = ok_or LengthOverflow (usize_checked (total_shards l * 4))"

definition shards_len :: "ecc_layout \<Rightarrow> ecc_error + nat" where
  "shards_len l = ok_or LengthOverflow (usize_checked (total_shards l * shard_size l))"

definition encoded_len :: "ecc_layout \<Rightarrow> ecc_error + nat" where
  "encoded_len l =
     and_then (checksum_table_len l) (\<lambda>table.
     and_then (shards_len l) (\<lambda>shards.
     ok_or LengthOverflow
       (case usize_checked (header_len + table) of None \<Rightarrow> None
        | Some v \<Rightarrow> usize_checked (v + shards))))"

definition max_state_bytes :: nat where
  "max_state_bytes =
     (case and_then (for_payload_len max_payload_bytes) encoded_len of
        Inl _ \<Rightarrow> 2 ^ 64 - 1 | Inr n \<Rightarrow> n)"

section \<open>Encoding\<close>

definition protect_payload ::
    "'c reed_solomon \<Rightarrow> ecc_layout \<Rightarrow> byte list \<Rightarrow> ecc_error + byte list list" where
  "protect_payload rs l payload =
     (let padded = payload @ replicate (data_shards l * shard_size l - length payload) 0;
          shards = chunks (shard_size l) padded
                     @ replicate (parity_shards l) (replicate (shard_size l) 0)
      in and_then (ok_or CodecBuildFailed (rs_new rs (data_shards l) (parity_shards l))) (\<lambda>codec.
         ok_or EncodeFailed (rs_encode rs codec shards)))"

definition state_head ::
    "(byte list \<Rightarrow> u32) \<Rightarrow> u32 \<Rightarrow> u16 \<Rightarrow> u16 \<Rightarrow> u32 \<Rightarrow> u32 \<Rightarrow> byte list list \<Rightarrow> byte list" where
  "state_head hash payload_len d p sz payload_checksum shards =
     binary_magic @ u32_to_le_bytes payload_len @ u16_to_le_bytes d @ u16_to_le_bytes p
     @ u32_to_le_bytes sz @ u32_to_le_bytes payload_checksum
     @ concat (map (\<lambda>shard. u32_to_le_bytes (hash shard)) shards)"

definition encode_binary ::
    "('v \<Rightarrow> byte list option) \<Rightarrow> 'c reed_solomon \<Rightarrow> (byte list \<Rightarrow> u32) \<Rightarrow> 'v \<Rightarrow> ecc_error + byte list" where
  "encode_binary to_allocvec rs hash value =
     and_then (ok_or SerializeFailed (to_allocvec value)) (\<lambda>payload.
     and_then (for_payload_len (length payload)) (\<lambda>l.
     and_then (ok_or (PayloadLenOverflow (length payload)) (u32_try_from (length payload))) (\<lambda>payload_len.
     and_then (protect_payload rs l payload) (\<lambda>shards.
     and_then (encoded_len l) (\<lambda>_.
     and_then (ok_or (CountOverflow (data_shards l)) (u16_try_from (data_shards l))) (\<lambda>d.
     and_then (ok_or (CountOverflow (parity_shards l)) (u16_try_from (parity_shards l))) (\<lambda>p.
     and_then (ok_or (CountOverflow (shard_size l)) (u32_try_from (shard_size l))) (\<lambda>sz.
     Inr (state_head hash payload_len d p sz (hash payload) shards @ concat shards)))))))))"

section \<open>Decoding\<close>

definition read_u16 :: "byte list \<Rightarrow> nat \<Rightarrow> ecc_error + u16" where
  "read_u16 bytes offset =
     (if offset + 2 \<le> length bytes then Inr (u16_from_le_bytes (slice offset (offset + 2) bytes))
      else Inl MissingField)"

definition read_u32 :: "byte list \<Rightarrow> nat \<Rightarrow> ecc_error + u32" where
  "read_u32 bytes offset =
     (if offset + 4 \<le> length bytes then Inr (u32_from_le_bytes (slice offset (offset + 4) bytes))
      else Inl MissingField)"

definition recheck_shard ::
    "(byte list \<Rightarrow> u32) \<Rightarrow> byte list option list \<Rightarrow> nat \<times> u32 \<Rightarrow> ecc_error + byte list" where
  "recheck_shard hash shards = (\<lambda>(idx, expected).
     case nth_opt shards idx of
       Some (Some shard) \<Rightarrow>
         if hash shard \<noteq> expected then Inl (ShardChecksumMismatch idx expected (hash shard))
         else Inr shard
     | _ \<Rightarrow> Inl MissingShard)"

definition repair_payload ::
    "'c reed_solomon \<Rightarrow> (byte list \<Rightarrow> u32) \<Rightarrow> ecc_layout \<Rightarrow> u32 list \<Rightarrow> byte list option list
      \<Rightarrow> ecc_error + byte list" where
  "repair_payload rs hash l expected shards =
     (if missing shards > parity_shards l then Inl (Uncorrectable (missing shards) (parity_shards l))
      else
        and_then (ok_or CodecBuildFailed (rs_new rs (data_shards l) (parity_shards l))) (\<lambda>codec.
        and_then (ok_or ReconstructFailed (rs_reconstruct rs codec shards)) (\<lambda>shards.
        and_then (try_map (recheck_shard hash shards) (zip [0..<length expected] expected)) (\<lambda>rows.
        Inr (concat (take (data_shards l) rows))))))"

definition decode_binary ::
    "(byte list \<Rightarrow> 'v option) \<Rightarrow> 'c reed_solomon \<Rightarrow> (byte list \<Rightarrow> u32) \<Rightarrow> byte list \<Rightarrow> ecc_error + 'v" where
  "decode_binary from_bytes rs hash bytes =
     (if take (length binary_magic) bytes \<noteq> binary_magic then Inl UnsupportedFormat
      else if length bytes < header_len then Inl (FrameTooShort (length bytes))
      else
        and_then (read_u32 bytes payload_len_offset) (\<lambda>len.
        let payload_len = unat len in
        if payload_len > max_payload_bytes then Inl (PayloadTooLarge payload_len max_payload_bytes)
        else
        and_then (read_u16 bytes data_shards_offset) (\<lambda>d.
        and_then (read_u16 bytes parity_shards_offset) (\<lambda>p.
        and_then (read_u32 bytes shard_size_offset) (\<lambda>sz.
        and_then (read_u32 bytes payload_checksum_offset) (\<lambda>payload_checksum.
        and_then (from_header (unat d) (unat p) (unat sz)) (\<lambda>l.
        and_then (checksum_table_len l) (\<lambda>table.
        and_then (shards_len l) (\<lambda>shard_bytes.
        and_then (ok_or LengthOverflow
                   (case usize_checked (header_len + table) of None \<Rightarrow> None
                    | Some v \<Rightarrow> usize_checked (v + shard_bytes))) (\<lambda>expected_total_len.
        if length bytes \<noteq> expected_total_len then Inl (LengthMismatch expected_total_len (length bytes))
        else
        and_then (try_map (\<lambda>idx. read_u32 bytes (header_len + idx * 4)) [0..<total_shards l]) (\<lambda>expected.
        let shards = check_shards hash expected
              (map (\<lambda>idx. let start = header_len + table + idx * shard_size l
                          in slice start (start + shard_size l) bytes) [0..<total_shards l])
        in
        and_then (repair_payload rs hash l expected shards) (\<lambda>data.
        let payload = take payload_len data;
            checksum = hash payload
        in if checksum \<noteq> payload_checksum then Inl (PayloadChecksumMismatch payload_checksum checksum)
           else ok_or DeserializeFailed (from_bytes payload)))))))))))))"

text \<open>A file is the list of its bytes; reading one that does not exist is an error of its own.\<close>

definition read_decode_binary ::
    "(byte list \<Rightarrow> 'v option) \<Rightarrow> 'c reed_solomon \<Rightarrow> (byte list \<Rightarrow> u32) \<Rightarrow> byte list \<Rightarrow> ecc_error + 'v" where
  "read_decode_binary from_bytes rs hash file =
     (if length file > max_state_bytes then Inl (PayloadTooLarge (length file) max_state_bytes)
      else decode_binary from_bytes rs hash file)"

section \<open>The layout is bounded\<close>

lemma for_payload_len_Inr:
  assumes "for_payload_len n = Inr l"
  shows "n \<le> max_payload_bytes" "2 \<le> data_shards l" "data_shards l \<le> 32" "parity_shards l = 2"
    "1 \<le> shard_size l" "shard_size l \<le> 2 ^ 23" "n \<le> data_shards l * shard_size l"
proof -
  define e where "e = max n 1"
  define d where "d = clamp_nat (div_ceil e 4096) 2 32"
  have n: "n \<le> max_payload_bytes" using assms by (simp add: for_payload_len_def split: if_splits)
  have l: "l = \<lparr>data_shards = d, parity_shards = 2, shard_size = max (div_ceil e d) 1\<rparr>"
    using assms n by (simp add: for_payload_len_def e_def d_def Let_def ecc_const_defs)
  have d: "2 \<le> d" "d \<le> 32" by (auto simp: d_def clamp_nat_def)
  have e: "e \<le> 2 ^ 28" using n by (simp add: e_def max_payload_bytes_def)
  have "div_ceil e d \<le> 2 ^ 23" using clamped_div_ceil [of e 23] e by (simp add: d_def)
  then have s: "max (div_ceil e d) 1 \<le> 2 ^ 23" by simp
  have "e \<le> d * div_ceil e d" using d by (intro div_ceil_upper) simp
  then have "n \<le> d * max (div_ceil e d) 1"
    by (auto simp: e_def max_def intro: order_trans)
  with n d s l show "n \<le> max_payload_bytes" "2 \<le> data_shards l" "data_shards l \<le> 32"
    "parity_shards l = 2" "1 \<le> shard_size l" "shard_size l \<le> 2 ^ 23"
    "n \<le> data_shards l * shard_size l" by simp_all
qed

lemma encoded_len_of:
  assumes "data_shards l \<le> 32" "parity_shards l = 2" "shard_size l \<le> 2 ^ 32"
  shows "checksum_table_len l = Inr (total_shards l * 4)"
    "shards_len l = Inr (total_shards l * shard_size l)"
    "usize_checked (header_len + total_shards l * 4) = Some (header_len + total_shards l * 4)"
    "usize_checked (header_len + total_shards l * 4 + total_shards l * shard_size l)
       = Some (header_len + total_shards l * 4 + total_shards l * shard_size l)"
    "encoded_len l = Inr (header_len + total_shards l * 4 + total_shards l * shard_size l)"
proof -
  have t: "total_shards l \<le> 34" using assms by (simp add: total_shards_def)
  have "total_shards l * shard_size l \<le> 34 * 2 ^ 32" using t assms(3) by (rule mult_le_mono)
  then have s: "total_shards l * shard_size l < 2 ^ 40" by simp
  have h: "header_len = 24" by (simp add: offset_defs binary_magic_def)
  show a: "checksum_table_len l = Inr (total_shards l * 4)"
    "shards_len l = Inr (total_shards l * shard_size l)"
    "usize_checked (header_len + total_shards l * 4) = Some (header_len + total_shards l * 4)"
    "usize_checked (header_len + total_shards l * 4 + total_shards l * shard_size l)
       = Some (header_len + total_shards l * 4 + total_shards l * shard_size l)"
    using t s unfolding h by (simp_all add: checksum_table_len_def shards_len_def)
  then show "encoded_len l = Inr (header_len + total_shards l * 4 + total_shards l * shard_size l)"
    by (simp add: encoded_len_def del: usize_checked_Some)
qed

section \<open>Reading a written header\<close>

lemma slice_at: "length xs = n \<Longrightarrow> length ys = k \<Longrightarrow> slice n (n + k) (xs @ ys @ zs) = ys"
  by (simp add: slice_def)

lemma read_u32_at: "length xs = n \<Longrightarrow> read_u32 (xs @ u32_to_le_bytes w @ ys) n = Inr w"
  by (simp add: read_u32_def slice_at)

lemma read_u16_at: "length xs = n \<Longrightarrow> read_u16 (xs @ u16_to_le_bytes w @ ys) n = Inr w"
  using slice_at [of xs n "u16_to_le_bytes w" 2 ys] by (simp add: read_u16_def)

lemma read_head:
  fixes hash len d p sz crc sent rest
  defines "bytes \<equiv> state_head hash len d p sz crc sent @ rest"
  shows "take (length binary_magic) bytes = binary_magic"
    "length bytes = header_len + length sent * 4 + length rest"
    "read_u32 bytes payload_len_offset = Inr len"
    "read_u16 bytes data_shards_offset = Inr d"
    "read_u16 bytes parity_shards_offset = Inr p"
    "read_u32 bytes shard_size_offset = Inr sz"
    "read_u32 bytes payload_checksum_offset = Inr crc"
    "i < length sent \<Longrightarrow> read_u32 bytes (header_len + i * 4) = Inr (hash (sent ! i))"
proof -
  define table where "table = concat (map (\<lambda>s. u32_to_le_bytes (hash s)) sent)"
  have lt: "length table = length sent * 4"
    unfolding table_def by (subst length_concat_shards [where n = 4]) auto
  have b: "bytes = binary_magic @ u32_to_le_bytes len @ u16_to_le_bytes d @ u16_to_le_bytes p
      @ u32_to_le_bytes sz @ u32_to_le_bytes crc @ table @ rest"
    by (simp add: bytes_def state_head_def table_def)
  show "take (length binary_magic) bytes = binary_magic" by (simp add: b)
  show "length bytes = header_len + length sent * 4 + length rest"
    by (simp add: b lt offset_defs binary_magic_def)
  show "read_u32 bytes payload_len_offset = Inr len"
    unfolding b by (rule read_u32_at) (simp add: offset_defs)
  have "read_u16 ((binary_magic @ u32_to_le_bytes len) @ u16_to_le_bytes d @ u16_to_le_bytes p
      @ u32_to_le_bytes sz @ u32_to_le_bytes crc @ table @ rest) data_shards_offset = Inr d"
    by (rule read_u16_at) (simp add: offset_defs)
  then show "read_u16 bytes data_shards_offset = Inr d" unfolding b append_assoc .
  have "read_u16 ((binary_magic @ u32_to_le_bytes len @ u16_to_le_bytes d) @ u16_to_le_bytes p
      @ u32_to_le_bytes sz @ u32_to_le_bytes crc @ table @ rest) parity_shards_offset = Inr p"
    by (rule read_u16_at) (simp add: offset_defs)
  then show "read_u16 bytes parity_shards_offset = Inr p" unfolding b append_assoc .
  have "read_u32 ((binary_magic @ u32_to_le_bytes len @ u16_to_le_bytes d @ u16_to_le_bytes p)
      @ u32_to_le_bytes sz @ u32_to_le_bytes crc @ table @ rest) shard_size_offset = Inr sz"
    by (rule read_u32_at) (simp add: offset_defs)
  then show "read_u32 bytes shard_size_offset = Inr sz" unfolding b append_assoc .
  have "read_u32 ((binary_magic @ u32_to_le_bytes len @ u16_to_le_bytes d @ u16_to_le_bytes p
      @ u32_to_le_bytes sz) @ u32_to_le_bytes crc @ table @ rest) payload_checksum_offset = Inr crc"
    by (rule read_u32_at) (simp add: offset_defs)
  then show "read_u32 bytes payload_checksum_offset = Inr crc" unfolding b append_assoc .
  define pre where "pre = binary_magic @ u32_to_le_bytes len @ u16_to_le_bytes d @ u16_to_le_bytes p
      @ u32_to_le_bytes sz @ u32_to_le_bytes crc"
  have pre: "length pre = header_len" by (simp add: pre_def offset_defs)
  assume i: "i < length sent"
  have "slice (i * 4) (i * 4 + 4) table = u32_to_le_bytes (hash (sent ! i))"
    unfolding table_def by (subst slice_concat [where n = 4]) (use i in auto)
  moreover have "i * 4 + 4 \<le> length table" using i by (simp add: lt)
  moreover have "bytes = pre @ table @ rest" by (simp add: b pre_def)
  ultimately show "read_u32 bytes (header_len + i * 4) = Inr (hash (sent ! i))"
    using pre by (simp add: read_u32_def slice_def)
qed

section \<open>Decoding what was written\<close>

definition padded_shards :: "ecc_layout \<Rightarrow> byte list \<Rightarrow> byte list list" where
  "padded_shards l payload =
     chunks (shard_size l) (payload @ replicate (data_shards l * shard_size l - length payload) 0)"

definition check_payload ::
    "(byte list \<Rightarrow> 'v option) \<Rightarrow> (byte list \<Rightarrow> u32) \<Rightarrow> nat \<Rightarrow> u32 \<Rightarrow> byte list \<Rightarrow> ecc_error + 'v" where
  "check_payload from_bytes hash n crc data =
     (if hash (take n data) \<noteq> crc then Inl (PayloadChecksumMismatch crc (hash (take n data)))
      else ok_or DeserializeFailed (from_bytes (take n data)))"

definition small_layout :: "ecc_layout \<Rightarrow> bool" where
  "small_layout l \<longleftrightarrow> 2 \<le> data_shards l \<and> data_shards l \<le> 32 \<and> parity_shards l = 2
     \<and> 1 \<le> shard_size l \<and> shard_size l \<le> 2 ^ 23"

lemma decode_received:
  assumes l: "small_layout l" and n: "n \<le> max_payload_bytes"
    and sent: "length sent = total_shards l"
    and received: "length received = total_shards l" "\<forall>s \<in> set received. length s = shard_size l"
  shows "decode_binary from_bytes rs hash
      (state_head hash (of_nat n) (of_nat (data_shards l)) (of_nat (parity_shards l))
         (of_nat (shard_size l)) crc sent @ concat received)
    = and_then (repair_payload rs hash l (map hash sent) (check_shards hash (map hash sent) received))
        (check_payload from_bytes hash n crc)"
proof -
  define bytes where "bytes = state_head hash (of_nat n) (of_nat (data_shards l))
      (of_nat (parity_shards l)) (of_nat (shard_size l)) crc sent @ concat received"
  note lf = l [unfolded small_layout_def]
  note head = read_head [where hash = hash and len = "of_nat n" and d = "of_nat (data_shards l)"
      and p = "of_nat (parity_shards l)" and sz = "of_nat (shard_size l)" and crc = crc
      and sent = sent and rest = "concat received", folded bytes_def]
  have len: "length bytes = header_len + total_shards l * 4 + total_shards l * shard_size l"
    using head(2) length_concat_shards [OF received(2)] sent received(1) by simp
  have un: "unat (of_nat n :: u32) = n" "unat (of_nat (data_shards l) :: u16) = data_shards l"
    "unat (of_nat (parity_shards l) :: u16) = parity_shards l"
    "unat (of_nat (shard_size l) :: u32) = shard_size l"
    using n lf by (simp_all add: max_payload_bytes_def)
  have fh: "from_header (data_shards l) (parity_shards l) (shard_size l) = Inr l"
    using lf by (cases l) (simp add: from_header_def ecc_const_defs)
  have lens: "checksum_table_len l = Inr (total_shards l * 4)"
    "shards_len l = Inr (total_shards l * shard_size l)"
    "usize_checked (header_len + total_shards l * 4) = Some (header_len + total_shards l * 4)"
    "usize_checked (header_len + total_shards l * 4 + total_shards l * shard_size l)
       = Some (header_len + total_shards l * 4 + total_shards l * shard_size l)"
    by (rule encoded_len_of; use lf in simp)+
  have table: "try_map (\<lambda>idx. read_u32 bytes (header_len + idx * 4)) [0..<total_shards l]
      = Inr (map hash sent)"
  proof -
    have "try_map (\<lambda>idx. read_u32 bytes (header_len + idx * 4)) [0..<total_shards l]
        = Inr (map (\<lambda>idx. hash (sent ! idx)) [0..<total_shards l])"
      by (rule try_map_Inr) (use head(8) sent in simp)
    also have "map (\<lambda>idx. hash (sent ! idx)) [0..<total_shards l] = map hash sent"
      by (rule nth_equalityI) (simp_all add: sent)
    finally show ?thesis .
  qed
  have hl: "length (state_head hash (of_nat n) (of_nat (data_shards l)) (of_nat (parity_shards l))
      (of_nat (shard_size l)) crc sent) = header_len + total_shards l * 4"
    using head(2) sent by (simp add: bytes_def)
  have shards: "map (\<lambda>idx. slice (header_len + total_shards l * 4 + idx * shard_size l)
      (header_len + total_shards l * 4 + idx * shard_size l + shard_size l) bytes) [0..<total_shards l]
      = received"
  proof (rule nth_equalityI)
    fix i assume "i < length (map (\<lambda>idx. slice (header_len + total_shards l * 4 + idx * shard_size l)
      (header_len + total_shards l * 4 + idx * shard_size l + shard_size l) bytes) [0..<total_shards l])"
    then have i: "i < total_shards l" by simp
    have "slice (i * shard_size l) (i * shard_size l + shard_size l) (concat received) = received ! i"
      by (rule slice_concat [OF received(2)]) (simp add: received(1) i)
    then show "map (\<lambda>idx. slice (header_len + total_shards l * 4 + idx * shard_size l)
      (header_len + total_shards l * 4 + idx * shard_size l + shard_size l) bytes) [0..<total_shards l] ! i
      = received ! i"
      using i hl by (simp add: slice_def bytes_def)
  qed (simp add: received(1))
  have "\<not> length bytes < header_len" using len by simp
  then show ?thesis
    unfolding bytes_def [symmetric] decode_binary_def head(1,3-7) and_then.simps un Let_def fh lens
      option.case ok_or_simps table shards
    using n by (simp add: len check_payload_def [abs_def])
qed

lemma padded_shards:
  assumes "small_layout l" "length payload \<le> data_shards l * shard_size l"
  shows "length (padded_shards l payload) = data_shards l"
    "\<forall>s \<in> set (padded_shards l payload). length s = shard_size l"
    "take (length payload) (concat (padded_shards l payload)) = payload"
    "length (hd (padded_shards l payload)) = shard_size l"
  unfolding padded_shards_def
  by (rule padded_chunks; use assms in \<open>simp add: small_layout_def\<close>)+

lemma recheck_all:
  "try_map (recheck_shard hash (map Some sent)) (zip [0..<length sent] (map hash sent)) = Inr sent"
proof -
  have "try_map (recheck_shard hash (map Some sent)) (zip [0..<length sent] (map hash sent))
      = Inr (map (\<lambda>p. sent ! fst p) (zip [0..<length sent] (map hash sent)))"
    by (rule try_map_Inr) (auto simp: recheck_shard_def nth_opt_def set_zip)
  also have "map (\<lambda>p. sent ! fst p) (zip [0..<length sent] (map hash sent)) = sent"
    by (rule nth_equalityI) auto
  finally show ?thesis .
qed

lemma repair_recovers:
  assumes "recovers rs (data_shards l) (parity_shards l) data sent" "detectable hash sent received"
    and "damaged_shards sent received \<le> parity_shards l"
  shows "repair_payload rs hash l (map hash sent) (check_shards hash (map hash sent) received)
    = Inr (concat data)"
proof -
  from assms(1) obtain codec where c: "rs_new rs (data_shards l) (parity_shards l) = Some codec"
    and n: "length sent = data_shards l + parity_shards l" "take (data_shards l) sent = data"
    and r: "\<And>keep. length keep = data_shards l + parity_shards l
      \<Longrightarrow> length (filter Not keep) \<le> parity_shards l
      \<Longrightarrow> rs_reconstruct rs codec (erase keep sent) = Some (map Some sent)"
    by (rule recovers_cases) blast
  note d = check_shards_detectable [OF assms(2)]
  have "rs_reconstruct rs codec (check_shards hash (map hash sent) received) = Some (map Some sent)"
    unfolding d(1) by (rule r) (use d assms(3) n in simp_all)
  then show ?thesis
    using assms(3) n(2) unfolding repair_payload_def d(2) c by (simp add: recheck_all)
qed

lemma repair_uncorrectable:
  assumes "detectable hash sent received" "parity_shards l < damaged_shards sent received"
  shows "repair_payload rs hash l (map hash sent) (check_shards hash (map hash sent) received)
    = Inl (Uncorrectable (damaged_shards sent received) (parity_shards l))"
  using assms(2) unfolding repair_payload_def check_shards_detectable(2) [OF assms(1)] by simp

lemma encode_binary_of:
  assumes ser: "to_allocvec v = Some payload" and l: "for_payload_len (length payload) = Inr l"
    and rs: "recovers rs (data_shards l) (parity_shards l) (padded_shards l payload) sent"
  shows "encode_binary to_allocvec rs hash v =
    Inr (state_head hash (of_nat (length payload)) (of_nat (data_shards l)) (of_nat (parity_shards l))
           (of_nat (shard_size l)) (hash payload) sent @ concat sent)"
proof -
  note lf = for_payload_len_Inr [OF l]
  have sm: "small_layout l" using lf by (simp add: small_layout_def)
  from rs have p: "protect_payload rs l payload = Inr sent"
    by (rule recovers_cases)
      (simp add: protect_payload_def Let_def padded_shards_def [symmetric] padded_shards(4) [OF sm lf(7)])
  have tf: "u32_try_from (length payload) = Some (of_nat (length payload))"
    "u16_try_from (data_shards l) = Some (of_nat (data_shards l))"
    "u16_try_from (parity_shards l) = Some (of_nat (parity_shards l))"
    "u32_try_from (shard_size l) = Some (of_nat (shard_size l))"
    using lf by (simp_all add: max_payload_bytes_def)
  have e: "encoded_len l = Inr (header_len + total_shards l * 4 + total_shards l * shard_size l)"
    by (rule encoded_len_of(5)) (use lf in simp_all)
  show ?thesis unfolding encode_binary_def ser ok_or_simps and_then.simps l p tf e ..
qed

definition received_ok :: "ecc_layout \<Rightarrow> byte list list \<Rightarrow> bool" where
  "received_ok l received \<longleftrightarrow>
     length received = total_shards l \<and> (\<forall>s \<in> set received. length s = shard_size l)"

lemma received_ok_detectable:
  assumes "recovers rs (data_shards l) (parity_shards l) data sent" "detectable hash sent received"
    and "length (hd data) = shard_size l"
  shows "length sent = total_shards l" "received_ok l received"
proof -
  from assms(1) show sent: "length sent = total_shards l"
    by (rule recovers_cases) (simp add: total_shards_def)
  have "\<forall>s \<in> set sent. length s = shard_size l"
    using assms(1) by (rule recovers_cases) (simp add: assms(3))
  then show "received_ok l received"
    using assms(2) sent unfolding received_ok_def detectable_def list_all2_conv_all_nth
    by (metis in_set_conv_nth)
qed

lemma length_state_head: "length (state_head hash len d p sz crc sent) = header_len + length sent * 4"
  using read_head(2) [where rest = "[]"] by simp

lemma max_state_bytes_eq: "max_state_bytes = 285212832"
  by (simp add: max_state_bytes_def for_payload_len_def ecc_const_defs div_ceil_def clamp_nat_def
      encoded_len_def checksum_table_len_def shards_len_def total_shards_def offset_defs binary_magic_def)

lemma layout_bytes_bounded:
  assumes "for_payload_len n = Inr l"
  shows "header_len + total_shards l * 4 + total_shards l * shard_size l \<le> max_state_bytes"
    "n < header_len + total_shards l * 4 + total_shards l * shard_size l"
proof -
  note lf = for_payload_len_Inr [OF assms]
  have "total_shards l * shard_size l \<le> 34 * 2 ^ 23"
    by (rule mult_le_mono) (use lf in \<open>simp_all add: total_shards_def\<close>)
  then have ts: "total_shards l * shard_size l \<le> 285212672" by simp
  have ds: "data_shards l * shard_size l \<le> total_shards l * shard_size l"
    by (simp add: total_shards_def)
  have t: "total_shards l \<le> 34" using lf by (simp add: total_shards_def)
  have h: "header_len = 24" by (simp add: offset_defs binary_magic_def)
  show "header_len + total_shards l * 4 + total_shards l * shard_size l \<le> max_state_bytes"
    unfolding max_state_bytes_eq using ts t h by linarith
  show "n < header_len + total_shards l * 4 + total_shards l * shard_size l"
    using ds h lf(7) by linarith
qed

lemma state_recovered:
  assumes "to_allocvec v = Some payload" "from_bytes payload = Some v"
    and "for_payload_len (length payload) = Inr l"
    and "recovers rs (data_shards l) (parity_shards l) (padded_shards l payload) sent"
    and "detectable hash sent received" "damaged_shards sent received \<le> 2"
  shows "\<exists>head. encode_binary to_allocvec rs hash v = Inr (head @ concat sent)
    \<and> read_decode_binary from_bytes rs hash (head @ concat received) = Inr v"
proof -
  note lf = for_payload_len_Inr [OF assms(3)]
  have sm: "small_layout l" using lf by (simp add: small_layout_def)
  note pd = padded_shards [OF sm lf(7)]
  note ok = received_ok_detectable [OF assms(4,5) pd(4)]
  note dec = decode_received [OF sm lf(1) ok(1) ok(2) [unfolded received_ok_def, THEN conjunct1]
      ok(2) [unfolded received_ok_def, THEN conjunct2]]
  have "decode_binary from_bytes rs hash (state_head hash (of_nat (length payload))
      (of_nat (data_shards l)) (of_nat (parity_shards l)) (of_nat (shard_size l)) (hash payload) sent
      @ concat received) = Inr v"
    unfolding dec using assms(2,6) lf(4) repair_recovers [OF assms(4,5)] pd(3)
    by (simp add: check_payload_def)
  moreover have "length (state_head hash (of_nat (length payload))
      (of_nat (data_shards l)) (of_nat (parity_shards l)) (of_nat (shard_size l)) (hash payload) sent
      @ concat received) \<le> max_state_bytes"
    using layout_bytes_bounded [OF assms(3)] ok
    by (simp add: received_ok_def length_state_head length_concat_shards [where n = "shard_size l"])
  ultimately have "read_decode_binary from_bytes rs hash (state_head hash (of_nat (length payload))
      (of_nat (data_shards l)) (of_nat (parity_shards l)) (of_nat (shard_size l)) (hash payload) sent
      @ concat received) = Inr v"
    by (simp only: read_decode_binary_def not_less [symmetric] if_False)
  with encode_binary_of [where to_allocvec = to_allocvec, OF assms(1,3,4)] show ?thesis by blast
qed

section \<open>Properties\<close>

text \<open>
  \<^bold>\<open>C32\<close>.  A state file survives the damage of up to two shards: when the serialiser reads back
  what it wrote and the Reed--Solomon codec recovers this payload, then the file with at most
  two shards changed (and the change visible in the checksums) decodes to the value encoded.
\<close>

theorem state_survives_damage:
  assumes "to_allocvec v = Some payload" "from_bytes payload = Some v"
    and "for_payload_len (length payload) = Inr l"
    and "recovers rs (data_shards l) (parity_shards l) (padded_shards l payload) sent"
    and "detectable hash sent received" "damaged_shards sent received \<le> 2"
  shows "\<exists>head. encode_binary to_allocvec rs hash v = Inr (head @ concat sent)
    \<and> decode_binary from_bytes rs hash (head @ concat received) = Inr v"
  using state_recovered [where to_allocvec = to_allocvec and from_bytes = from_bytes, OF assms]
  by (auto simp: read_decode_binary_def split: if_splits)

text \<open>
  Three or more damaged shards are reported, with their number, and nothing is decoded.
\<close>

theorem state_damage_reported:
  assumes "to_allocvec v = Some payload"
    and "for_payload_len (length payload) = Inr l"
    and "recovers rs (data_shards l) (parity_shards l) (padded_shards l payload) sent"
    and "detectable hash sent received" "2 < damaged_shards sent received"
  shows "\<exists>head. encode_binary to_allocvec rs hash v = Inr (head @ concat sent)
    \<and> decode_binary from_bytes rs hash (head @ concat received)
        = Inl (Uncorrectable (damaged_shards sent received) 2)"
proof -
  note lf = for_payload_len_Inr [OF assms(2)]
  have sm: "small_layout l" using lf by (simp add: small_layout_def)
  note pd = padded_shards [OF sm lf(7)]
  note ok = received_ok_detectable [OF assms(3,4) pd(4)]
  note dec = decode_received [OF sm lf(1) ok(1) ok(2) [unfolded received_ok_def, THEN conjunct1]
      ok(2) [unfolded received_ok_def, THEN conjunct2]]
  have "decode_binary from_bytes rs hash (state_head hash (of_nat (length payload))
      (of_nat (data_shards l)) (of_nat (parity_shards l)) (of_nat (shard_size l)) (hash payload) sent
      @ concat received) = Inl (Uncorrectable (damaged_shards sent received) 2)"
    unfolding dec using assms(5) lf(4) repair_uncorrectable [OF assms(4), of l rs] by simp
  with encode_binary_of [where to_allocvec = to_allocvec, OF assms(1,2,3)] show ?thesis by blast
qed

text \<open>
  The reader never refuses a file the writer made for its size: every layout the
  encoder chooses has a length that fits a \<open>usize\<close> and is at most \<open>max_state_bytes\<close>, which is
  285,212,832 bytes.
\<close>

theorem encoded_len_bounded:
  "case and_then (for_payload_len n) encoded_len of
     Inl e \<Rightarrow> max_payload_bytes < n \<and> e = PayloadTooLarge n max_payload_bytes
   | Inr len \<Rightarrow> n \<le> max_payload_bytes \<and> n < len \<and> len \<le> max_state_bytes \<and> max_state_bytes = 285212832"
proof (cases "n \<le> max_payload_bytes")
  case True
  then obtain l where l: "for_payload_len n = Inr l" by (simp add: for_payload_len_def Let_def)
  note lf = for_payload_len_Inr [OF l]
  have e: "encoded_len l = Inr (header_len + total_shards l * 4 + total_shards l * shard_size l)"
    by (rule encoded_len_of(5)) (use lf in simp_all)
  show ?thesis
    unfolding l and_then.simps e sum.case
    using True layout_bytes_bounded [OF l] max_state_bytes_eq by simp
next
  case False
  then show ?thesis by (simp add: for_payload_len_def)
qed

section \<open>A concrete file\<close>

definition sample_sent :: "byte list list" where
  "sample_sent = [[5, 7], [9, 0], [12, 7], [23, 7]]"

definition sample_layout :: ecc_layout where
  "sample_layout = \<lparr>data_shards = 2, parity_shards = 2, shard_size = 2\<rparr>"

lemma sample_facts:
  "for_payload_len (length ([5, 7, 9] :: byte list)) = Inr sample_layout"
  "recovers small_rs (data_shards sample_layout) (parity_shards sample_layout)
     (padded_shards sample_layout [5, 7, 9]) sample_sent"
  "detectable small_hash sample_sent [[5, 7], [9, 1], [12, 7], [0, 7]]"
  "damaged_shards sample_sent [[5, 7], [9, 1], [12, 7], [0, 7]] = 2"
  "detectable small_hash sample_sent [[5, 7], [9, 1], [12, 8], [0, 7]]"
  "damaged_shards sample_sent [[5, 7], [9, 1], [12, 8], [0, 7]] = 3"
  by (simp add: for_payload_len_def sample_layout_def ecc_const_defs div_ceil_def clamp_nat_def) code_simp+

theorem state_survives_damage_witness:
  "\<exists>head. encode_binary Some small_rs small_hash [5, 7, 9] = Inr (head @ concat sample_sent)
    \<and> decode_binary Some small_rs small_hash (head @ concat [[5, 7], [9, 1], [12, 7], [0, 7]]) = Inr [5, 7, 9]"
  by (rule state_survives_damage [where to_allocvec = Some and from_bytes = Some, OF refl refl sample_facts(1-3)]) (simp add: sample_facts)

theorem state_damage_reported_witness:
  "\<exists>head. encode_binary Some small_rs small_hash [5, 7, 9] = Inr (head @ concat sample_sent)
    \<and> decode_binary Some small_rs small_hash (head @ concat [[5, 7], [9, 1], [12, 8], [0, 7]])
        = Inl (Uncorrectable (damaged_shards sample_sent [[5, 7], [9, 1], [12, 8], [0, 7]]) 2)"
  by (rule state_damage_reported [where to_allocvec = Some, OF refl sample_facts(1,2,5)]) (simp add: sample_facts)

end
