(* ===== verification/Rollout.thy ===== *)
theory Rollout
  imports State_Codec Conflict_Model Model
begin

text \<open>
  \<^verbatim>\<open>src/src/runtime/rollout_state.rs\<close> and \<^verbatim>\<open>src/src/config/rollout_profile.rs\<close>: the rollout state
  machine, which moves the accuracy gate between the adaptive, balanced and strict profile and
  arms its fail-closed mode, from observations that persist between runs.

  The clock is the argument \<open>now\<close>, and writing the state file is the argument \<open>persist\<close>, whose
  result the operations return.  An \<open>f64\<close> is a real number; an \<open>u64\<close> counter is a natural number
  that saturates at \<open>u64_max\<close>.
\<close>

section \<open>Profiles\<close>

datatype rollout_profile = Strict | Balanced | Adaptive

fun profile_from_str :: "rstr option \<Rightarrow> rollout_profile" where
  "profile_from_str None = Balanced"
| "profile_from_str (Some value) =
     (let v = to_ascii_lowercase (trim value) in
      if v = ''strict'' then Strict
      else if v = ''adaptive'' \<or> v = ''adoptive'' then Adaptive
      else if v = ''balanced'' then Balanced
      else Balanced)"

fun profile_as_str :: "rollout_profile \<Rightarrow> rstr" where
  "profile_as_str Strict = ''strict''"
| "profile_as_str Balanced = ''balanced''"
| "profile_as_str Adaptive = ''adaptive''"

definition parse_profile :: "rstr \<Rightarrow> rollout_profile option" where
  "parse_profile value =
     (let v = to_ascii_lowercase (trim value) in
      if v = ''strict'' then Some Strict
      else if v = ''balanced'' then Some Balanced
      else if v = ''adaptive'' then Some Adaptive
      else None)"

datatype observation_source = Benchmark | Gate

fun source_as_str :: "observation_source \<Rightarrow> rstr" where
  "source_as_str Benchmark = ''benchmark''"
| "source_as_str Gate = ''gate''"

definition source_from_str :: "rstr \<Rightarrow> observation_source option" where
  "source_from_str value =
     (let v = to_ascii_lowercase (trim value) in
      if v = ''benchmark'' then Some Benchmark else if v = ''gate'' then Some Gate else None)"

section \<open>The persisted state\<close>

record rollout_state =
  ro_schema_version :: nat
  ro_requested_profile :: rstr
  ro_effective_profile :: rstr
  ro_total_benchmark_runs :: nat
  ro_benchmark_passes :: nat
  ro_benchmark_failures :: nat
  ro_consecutive_passes :: nat
  ro_consecutive_failures :: nat
  ro_fail_closed_armed :: bool
  ro_promotions :: nat
  ro_demotions :: nat
  ro_last_precision :: real
  ro_last_recall :: real
  ro_last_match_ratio :: real
  ro_last_min_samples_met :: bool
  ro_last_observation_source :: rstr
  ro_last_observation_passed :: bool
  ro_last_updated_unix_ms :: nat

definition rollout_default :: rollout_state where
  "rollout_default =
     \<lparr>ro_schema_version = 0, ro_requested_profile = [], ro_effective_profile = [],
      ro_total_benchmark_runs = 0, ro_benchmark_passes = 0, ro_benchmark_failures = 0,
      ro_consecutive_passes = 0, ro_consecutive_failures = 0, ro_fail_closed_armed = False,
      ro_promotions = 0, ro_demotions = 0, ro_last_precision = 0, ro_last_recall = 0,
      ro_last_match_ratio = 0, ro_last_min_samples_met = False, ro_last_observation_source = [],
      ro_last_observation_passed = False, ro_last_updated_unix_ms = 0\<rparr>"

definition rollout_schema_version :: nat where
  "rollout_schema_version = 3"

definition saturating_inc :: "nat \<Rightarrow> nat" where
  "saturating_inc n = min (n + 1) u64_max"

record accuracy_observation =
  ob_passed :: bool
  ob_precision :: real
  ob_recall :: real
  ob_match_ratio :: real
  ob_min_samples_met :: bool
  ob_stable_passes_required :: nat

section \<open>Opening\<close>

text \<open>The file is \<open>None\<close> when the path does not exist.\<close>

definition fresh_state :: rollout_state where
  "fresh_state =
     rollout_default\<lparr>ro_schema_version := rollout_schema_version,
       ro_requested_profile := profile_as_str Balanced, ro_effective_profile := profile_as_str Balanced\<rparr>"

definition migrate_state :: "rollout_state \<Rightarrow> rollout_state" where
  "migrate_state state =
     (let state = (if ro_schema_version state > rollout_schema_version then fresh_state
                   else state\<lparr>ro_schema_version := rollout_schema_version\<rparr>);
          state = (if ro_requested_profile state = []
                   then state\<lparr>ro_requested_profile := profile_as_str Balanced\<rparr> else state);
          state = (if ro_effective_profile state = []
                   then state\<lparr>ro_effective_profile := ro_requested_profile state\<rparr> else state)
      in if ro_last_observation_source state = []
         then state\<lparr>ro_last_observation_source := source_as_str Benchmark\<rparr> else state)"

definition load_state ::
    "(byte list \<Rightarrow> rollout_state option) \<Rightarrow> 'c reed_solomon \<Rightarrow> (byte list \<Rightarrow> u32) \<Rightarrow> byte list option
      \<Rightarrow> ecc_error + rollout_state" where
  "load_state from_bytes rs hash file =
     (case file of
        None \<Rightarrow> Inr fresh_state
      | Some bytes \<Rightarrow>
          and_then (read_decode_binary from_bytes rs hash bytes) (\<lambda>state. Inr (migrate_state state)))"

text \<open>A file that cannot be loaded is set aside and the defaults are used.\<close>

definition open_state ::
    "(byte list \<Rightarrow> rollout_state option) \<Rightarrow> 'c reed_solomon \<Rightarrow> (byte list \<Rightarrow> u32) \<Rightarrow> byte list option
      \<Rightarrow> rollout_state" where
  "open_state from_bytes rs hash file =
     (case load_state from_bytes rs hash file of Inr state \<Rightarrow> state | Inl error \<Rightarrow> rollout_default)"

section \<open>Reading the state\<close>

definition effective_profile :: "rollout_state \<Rightarrow> rollout_profile \<Rightarrow> rollout_profile" where
  "effective_profile st requested =
     (if ro_requested_profile st \<noteq> profile_as_str requested then requested
      else unwrap_or (parse_profile (ro_effective_profile st)) requested)"

definition effective_fail_closed :: "rollout_state \<Rightarrow> rollout_profile \<Rightarrow> bool \<Rightarrow> bool \<Rightarrow> bool" where
  "effective_fail_closed st profile requested_fail_closed defer_until_stable =
     (if \<not> requested_fail_closed then False
      else if \<not> defer_until_stable then True
      else if ro_requested_profile st \<noteq> profile_as_str profile then False
      else if effective_profile st profile = Strict \<and> ro_consecutive_passes st > 0 then True
      else ro_fail_closed_armed st)"

record rollout_status =
  st_requested_profile :: rollout_profile
  st_effective_profile :: rollout_profile
  st_consecutive_passes :: nat
  st_consecutive_failures :: nat
  st_total_benchmark_runs :: nat
  st_fail_closed_armed :: bool
  st_promotions :: nat
  st_demotions :: nat
  st_benchmark_passes :: nat
  st_benchmark_failures :: nat
  st_last_precision :: real
  st_last_recall :: real
  st_last_match_ratio :: real
  st_last_min_samples_met :: bool
  st_last_observation_source :: observation_source
  st_last_observation_passed :: bool

definition rollout_status_of :: "rollout_state \<Rightarrow> rollout_profile \<Rightarrow> rollout_status" where
  "rollout_status_of st profile =
     \<lparr>st_requested_profile = profile,
      st_effective_profile = effective_profile st profile,
      st_consecutive_passes = ro_consecutive_passes st,
      st_consecutive_failures = ro_consecutive_failures st,
      st_total_benchmark_runs = ro_total_benchmark_runs st,
      st_fail_closed_armed = (ro_fail_closed_armed st \<and> ro_requested_profile st = profile_as_str profile),
      st_promotions = ro_promotions st,
      st_demotions = ro_demotions st,
      st_benchmark_passes = ro_benchmark_passes st,
      st_benchmark_failures = ro_benchmark_failures st,
      st_last_precision = clamp (ro_last_precision st) 0 1,
      st_last_recall = clamp (ro_last_recall st) 0 1,
      st_last_match_ratio = clamp (ro_last_match_ratio st) 0 1,
      st_last_min_samples_met = ro_last_min_samples_met st,
      st_last_observation_source = unwrap_or (source_from_str (ro_last_observation_source st)) Benchmark,
      st_last_observation_passed = ro_last_observation_passed st\<rparr>"

section \<open>Promotion and demotion\<close>

definition stable_pass_target :: "rollout_profile \<Rightarrow> nat \<Rightarrow> nat" where
  "stable_pass_target profile requested =
     (let base = max requested 1 in
      case profile of
        Strict \<Rightarrow> min base 2
      | Balanced \<Rightarrow> max base 2
      | Adaptive \<Rightarrow> max (min (base + 1) u64_max) 3)"

fun promotion_streak_required :: "rollout_profile \<Rightarrow> nat" where
  "promotion_streak_required Adaptive = 3"
| "promotion_streak_required Balanced = 5"
| "promotion_streak_required Strict = u64_max"

fun demotion_streak_required :: "rollout_profile \<Rightarrow> nat" where
  "demotion_streak_required Strict = 2"
| "demotion_streak_required Balanced = 3"
| "demotion_streak_required Adaptive = u64_max"

fun promote_target :: "rollout_profile \<Rightarrow> rollout_profile option" where
  "promote_target Adaptive = Some Balanced"
| "promote_target Balanced = Some Strict"
| "promote_target Strict = None"

fun demote_target :: "rollout_profile \<Rightarrow> rollout_profile option" where
  "demote_target Strict = Some Balanced"
| "demote_target Balanced = Some Adaptive"
| "demote_target Adaptive = None"

definition meets_profile_thresholds :: "rollout_profile \<Rightarrow> real \<Rightarrow> real \<Rightarrow> real \<Rightarrow> bool" where
  "meets_profile_thresholds profile precision recall match_ratio =
     (let precision = clamp precision 0 1; recall = clamp recall 0 1; match_ratio = clamp match_ratio 0 1 in
      case profile of
        Strict \<Rightarrow> precision \<ge> 0.98 \<and> recall \<ge> 0.94 \<and> match_ratio \<ge> 0.95
      | Balanced \<Rightarrow> precision \<ge> 0.94 \<and> recall \<ge> 0.78 \<and> match_ratio \<ge> 0.85
      | Adaptive \<Rightarrow> precision \<ge> 0.90 \<and> recall \<ge> 0.60 \<and> match_ratio \<ge> 0.72)"

definition promote_profile_if_eligible ::
    "rollout_profile \<Rightarrow> real \<Rightarrow> real \<Rightarrow> real \<Rightarrow> rollout_state \<Rightarrow> rollout_profile \<times> rollout_state" where
  "promote_profile_if_eligible active precision recall match_ratio st =
     (case promote_target active of
        None \<Rightarrow> (active, st)
      | Some target \<Rightarrow>
          if ro_consecutive_passes st < promotion_streak_required active then (active, st)
          else if \<not> meets_profile_thresholds target precision recall match_ratio then (active, st)
          else (target, st\<lparr>ro_promotions := saturating_inc (ro_promotions st), ro_consecutive_passes := 0,
                           ro_consecutive_failures := 0, ro_fail_closed_armed := False\<rparr>))"

definition demote_profile_if_unstable ::
    "rollout_profile \<Rightarrow> rollout_state \<Rightarrow> rollout_profile \<times> rollout_state" where
  "demote_profile_if_unstable active st =
     (case demote_target active of
        None \<Rightarrow> (active, st)
      | Some target \<Rightarrow>
          if ro_consecutive_failures st < demotion_streak_required active then (active, st)
          else (target, st\<lparr>ro_demotions := saturating_inc (ro_demotions st), ro_consecutive_passes := 0,
                           ro_consecutive_failures := 0, ro_fail_closed_armed := False\<rparr>))"

section \<open>Observing\<close>

definition note_observation ::
    "nat \<Rightarrow> rollout_profile \<Rightarrow> observation_source \<Rightarrow> accuracy_observation \<Rightarrow> rollout_state \<Rightarrow> rollout_state" where
  "note_observation now profile source ob st =
     (let st = (if ro_requested_profile st \<noteq> profile_as_str profile
                then st\<lparr>ro_requested_profile := profile_as_str profile,
                        ro_effective_profile := profile_as_str profile, ro_consecutive_passes := 0,
                        ro_consecutive_failures := 0, ro_fail_closed_armed := False\<rparr>
                else st)
      in st\<lparr>ro_schema_version := rollout_schema_version,
            ro_total_benchmark_runs := saturating_inc (ro_total_benchmark_runs st),
            ro_last_precision := clamp (ob_precision ob) 0 1,
            ro_last_recall := clamp (ob_recall ob) 0 1,
            ro_last_match_ratio := clamp (ob_match_ratio ob) 0 1,
            ro_last_min_samples_met := ob_min_samples_met ob,
            ro_last_observation_source := source_as_str source,
            ro_last_observation_passed := ob_passed ob,
            ro_last_updated_unix_ms := now\<rparr>)"

definition count_observation :: "bool \<Rightarrow> rollout_state \<Rightarrow> rollout_state" where
  "count_observation passed st =
     (if passed
      then st\<lparr>ro_benchmark_passes := saturating_inc (ro_benchmark_passes st),
              ro_consecutive_passes := saturating_inc (ro_consecutive_passes st),
              ro_consecutive_failures := 0\<rparr>
      else st\<lparr>ro_benchmark_failures := saturating_inc (ro_benchmark_failures st),
              ro_consecutive_failures := saturating_inc (ro_consecutive_failures st),
              ro_consecutive_passes := 0, ro_fail_closed_armed := False\<rparr>)"

definition observed_state ::
    "nat \<Rightarrow> rollout_profile \<Rightarrow> observation_source \<Rightarrow> accuracy_observation \<Rightarrow> rollout_state \<Rightarrow> rollout_state" where
  "observed_state now profile source ob st =
     (let st = note_observation now profile source ob st in
      if \<not> ob_min_samples_met ob then st\<lparr>ro_fail_closed_armed := False\<rparr>
      else
        let st = count_observation (ob_passed ob) st;
            active = effective_profile st profile;
            (transitioned, st) =
              (if ob_passed ob
               then promote_profile_if_eligible active (ob_precision ob) (ob_recall ob) (ob_match_ratio ob) st
               else demote_profile_if_unstable active st);
            st = st\<lparr>ro_effective_profile := profile_as_str transitioned\<rparr>;
            stable_target = stable_pass_target transitioned (ob_stable_passes_required ob)
        in st\<lparr>ro_fail_closed_armed := (ro_consecutive_passes st \<ge> stable_target
                 \<and> ro_requested_profile st = profile_as_str profile)\<rparr>)"

definition observe_signal ::
    "(rollout_state \<Rightarrow> ecc_error + unit) \<Rightarrow> nat \<Rightarrow> rollout_profile \<Rightarrow> observation_source
      \<Rightarrow> accuracy_observation \<Rightarrow> rollout_state \<Rightarrow> (ecc_error + unit) \<times> rollout_state" where
  "observe_signal persist now profile source ob st =
     (let st = observed_state now profile source ob st in (persist st, st))"

section \<open>The state machine\<close>

text \<open>
  The states a run can see: the one of a fresh start, the defaults after an unreadable file, the
  ones after an observation, and the ones of a later process that reads the file of an earlier
  one back.
\<close>

inductive rollout_reachable :: "rollout_state \<Rightarrow> bool" where
  fresh: "rollout_reachable fresh_state"
| unreadable: "rollout_reachable rollout_default"
| observe: "rollout_reachable st \<Longrightarrow> rollout_reachable (observed_state now profile source ob st)"
| restart: "rollout_reachable st \<Longrightarrow> rollout_reachable (migrate_state st)"

text \<open>Opening a file yields one of these, when an earlier reachable state was written there.\<close>

lemma open_reachable:
  assumes "\<And>bytes st. file = Some bytes \<Longrightarrow> read_decode_binary from_bytes rs hash bytes = Inr st
    \<Longrightarrow> rollout_reachable st"
  shows "rollout_reachable (open_state from_bytes rs hash file)"
proof (cases "file")
  case (Some bytes)
  with assms show ?thesis
    by (cases "read_decode_binary from_bytes rs hash bytes")
      (auto simp: open_state_def load_state_def intro: unreadable restart)
qed (simp add: open_state_def load_state_def fresh)

definition counters_ok :: "rollout_state \<Rightarrow> bool" where
  "counters_ok st \<longleftrightarrow>
     (ro_consecutive_passes st = 0 \<or> ro_consecutive_failures st = 0)
   \<and> ro_consecutive_passes st \<le> ro_benchmark_passes st
   \<and> ro_consecutive_failures st \<le> ro_benchmark_failures st
   \<and> ro_benchmark_passes st \<le> ro_total_benchmark_runs st
   \<and> ro_benchmark_failures st \<le> ro_total_benchmark_runs st
   \<and> ro_promotions st \<le> ro_benchmark_passes st
   \<and> ro_demotions st \<le> ro_benchmark_failures st
   \<and> ro_total_benchmark_runs st \<le> u64_max"

definition armed_ok :: "rollout_state \<Rightarrow> bool" where
  "armed_ok st \<longleftrightarrow>
     (ro_fail_closed_armed st \<longrightarrow>
        0 < ro_consecutive_passes st \<and> ro_last_min_samples_met st \<and> ro_last_observation_passed st)"

definition profiles_ok :: "rollout_state \<Rightarrow> bool" where
  "profiles_ok st \<longleftrightarrow>
     ro_requested_profile st = [] \<and> ro_effective_profile st = []
     \<or> (\<exists>p q. ro_requested_profile st = profile_as_str p \<and> ro_effective_profile st = profile_as_str q)"

definition rollout_invariant :: "rollout_state \<Rightarrow> bool" where
  "rollout_invariant st \<longleftrightarrow> counters_ok st \<and> armed_ok st \<and> profiles_ok st"

lemma profile_as_str_nonempty [simp]: "profile_as_str p \<noteq> []" "[] \<noteq> profile_as_str p"
  by (cases p; simp)+

lemma profile_as_str_inject [simp]: "profile_as_str p = profile_as_str q \<longleftrightarrow> p = q"
  by (cases p; cases q) simp_all

lemma parse_profile_names:
  "parse_profile ''strict'' = Some Strict" "parse_profile ''balanced'' = Some Balanced"
  "parse_profile ''adaptive'' = Some Adaptive"
  by code_simp+

lemma parse_profile_as_str [simp]: "parse_profile (profile_as_str p) = Some p"
  by (cases p) (simp_all add: parse_profile_names)

lemma saturating_inc_mono: "m \<le> n \<Longrightarrow> saturating_inc m \<le> saturating_inc n"
  by (simp add: saturating_inc_def)

lemma saturating_inc_le: "m \<le> n \<Longrightarrow> n \<le> u64_max \<Longrightarrow> m \<le> saturating_inc n"
  by (simp add: saturating_inc_def)

lemma saturating_inc_max [simp]: "saturating_inc n \<le> u64_max"
  by (simp add: saturating_inc_def)

lemma saturating_inc_pos [simp]: "0 < saturating_inc n"
  by (simp add: saturating_inc_def u64_max_def)

lemma stable_pass_target_pos [simp]: "0 < stable_pass_target p n"
  by (cases p) (simp_all add: stable_pass_target_def Let_def)

text \<open>What an observation leaves of the profile: the one asked for, and one level up or down.\<close>

fun level :: "rollout_profile \<Rightarrow> nat" where
  "level Adaptive = 0"
| "level Balanced = 1"
| "level Strict = 2"

lemma observed_requested [simp]:
  "ro_schema_version (observed_state now p source ob st) = rollout_schema_version"
  "ro_last_observation_source (observed_state now p source ob st) = source_as_str source"
  "ro_requested_profile (observed_state now p source ob st) = profile_as_str p"
  by (simp_all add: observed_state_def note_observation_def count_observation_def Let_def
      promote_profile_if_eligible_def demote_profile_if_unstable_def
      split: option.split prod.split)

lemmas observed_defs = observed_state_def note_observation_def count_observation_def
  promote_profile_if_eligible_def demote_profile_if_unstable_def

text \<open>After the observation is noted there is room for one more pass and one more failure.\<close>

definition has_room :: "rollout_state \<Rightarrow> bool" where
  "has_room st \<longleftrightarrow>
     saturating_inc (ro_benchmark_passes st) \<le> ro_total_benchmark_runs st
     \<and> saturating_inc (ro_benchmark_failures st) \<le> ro_total_benchmark_runs st"

lemma counters_note:
  "counters_ok st \<Longrightarrow> counters_ok (note_observation now p source ob st) \<and> has_room (note_observation now p source ob st)"
  by (auto simp: counters_ok_def has_room_def note_observation_def Let_def
      intro: saturating_inc_mono saturating_inc_le)

definition has_spare :: "bool \<Rightarrow> rollout_state \<Rightarrow> bool" where
  "has_spare passed st \<longleftrightarrow>
     (if passed then saturating_inc (ro_promotions st) \<le> ro_benchmark_passes st
      else saturating_inc (ro_demotions st) \<le> ro_benchmark_failures st)"

lemma counters_count:
  "counters_ok st \<Longrightarrow> has_room st
    \<Longrightarrow> counters_ok (count_observation passed st) \<and> has_spare passed (count_observation passed st)"
  by (auto simp: counters_ok_def has_room_def has_spare_def count_observation_def
      intro: saturating_inc_mono saturating_inc_le)

lemma counters_promote:
  "counters_ok st \<Longrightarrow> has_spare True st \<Longrightarrow> counters_ok (snd (promote_profile_if_eligible active x y z st))"
  by (auto simp: counters_ok_def has_spare_def promote_profile_if_eligible_def split: option.split)

lemma counters_demote:
  "counters_ok st \<Longrightarrow> has_spare False st \<Longrightarrow> counters_ok (snd (demote_profile_if_unstable active st))"
  by (auto simp: counters_ok_def has_spare_def demote_profile_if_unstable_def split: option.split)

lemma counters_cong:
  "counters_ok (st\<lparr>ro_effective_profile := a\<rparr>) = counters_ok st"
  "counters_ok (st\<lparr>ro_fail_closed_armed := b\<rparr>) = counters_ok st"
  by (simp_all add: counters_ok_def)

text \<open>The observed state in its three cases.\<close>

definition counted :: "nat \<Rightarrow> rollout_profile \<Rightarrow> observation_source \<Rightarrow> accuracy_observation \<Rightarrow> rollout_state \<Rightarrow> rollout_state" where
  "counted now p source ob st = count_observation (ob_passed ob) (note_observation now p source ob st)"

definition transitioned ::
    "nat \<Rightarrow> rollout_profile \<Rightarrow> observation_source \<Rightarrow> accuracy_observation \<Rightarrow> rollout_state
      \<Rightarrow> rollout_profile \<times> rollout_state" where
  "transitioned now p source ob st =
     (if ob_passed ob
      then promote_profile_if_eligible (effective_profile (counted now p source ob st) p)
             (ob_precision ob) (ob_recall ob) (ob_match_ratio ob) (counted now p source ob st)
      else demote_profile_if_unstable (effective_profile (counted now p source ob st) p)
             (counted now p source ob st))"

lemma observed_ignored:
  "\<not> ob_min_samples_met ob
    \<Longrightarrow> observed_state now p source ob st = (note_observation now p source ob st)\<lparr>ro_fail_closed_armed := False\<rparr>"
  by (simp add: observed_state_def Let_def)

lemma observed_counted:
  assumes "ob_min_samples_met ob" "transitioned now p source ob st = (t, s)"
  shows "observed_state now p source ob st =
    s\<lparr>ro_effective_profile := profile_as_str t,
      ro_fail_closed_armed := (ro_consecutive_passes s \<ge> stable_pass_target t (ob_stable_passes_required ob)
        \<and> ro_requested_profile s = profile_as_str p)\<rparr>"
  using assms by (simp add: observed_state_def Let_def transitioned_def counted_def split: if_splits)

lemma counters_observed:
  assumes "counters_ok st"
  shows "counters_ok (observed_state now p source ob st)"
proof (cases "ob_min_samples_met ob")
  case False
  with counters_note [OF assms] show ?thesis by (simp add: observed_ignored counters_cong)
next
  case True
  obtain t s where t: "transitioned now p source ob st = (t, s)" by force
  have c: "counters_ok (counted now p source ob st)" "has_spare (ob_passed ob) (counted now p source ob st)"
    using counters_note [OF assms] counters_count unfolding counted_def by blast+
  have "counters_ok s"
  proof (cases "ob_passed ob")
    case True
    have "counters_ok (snd (transitioned now p source ob st))"
      unfolding transitioned_def if_P [OF True] by (rule counters_promote) (use c True in simp_all)
    then show ?thesis by (simp add: t)
  next
    case False
    have "counters_ok (snd (transitioned now p source ob st))"
      unfolding transitioned_def if_not_P [OF False] by (rule counters_demote) (use c False in simp_all)
    then show ?thesis by (simp add: t)
  qed
  then show ?thesis by (simp add: observed_counted [OF True t] counters_cong)
qed

lemma transitioned_fields:
  assumes "transitioned now p source ob st = (t, s)"
  shows "ro_last_min_samples_met s = ob_min_samples_met ob" "ro_last_observation_passed s = ob_passed ob"
    "ro_requested_profile s = profile_as_str p"
    "\<not> ob_passed ob \<Longrightarrow> ro_consecutive_passes s = 0"
  using assms
  by (auto simp: transitioned_def counted_def note_observation_def count_observation_def Let_def
      promote_profile_if_eligible_def demote_profile_if_unstable_def split: if_splits option.splits)

lemma armed_observed: "armed_ok (observed_state now p source ob st)"
proof (cases "ob_min_samples_met ob")
  case True
  obtain t s where t: "transitioned now p source ob st = (t, s)" by force
  have "0 < ro_consecutive_passes s"
    if "stable_pass_target t (ob_stable_passes_required ob) \<le> ro_consecutive_passes s"
    using that stable_pass_target_pos [of t "ob_stable_passes_required ob"] by linarith
  with transitioned_fields [OF t] True show ?thesis
    by (cases "ob_passed ob") (auto simp: armed_ok_def observed_counted [OF True t])
qed (simp add: armed_ok_def observed_ignored)

lemma profiles_observed:
  assumes "profiles_ok st"
  shows "profiles_ok (observed_state now p source ob st)"
proof (cases "ob_min_samples_met ob")
  case True
  obtain t s where t: "transitioned now p source ob st = (t, s)" by force
  with transitioned_fields [OF t] show ?thesis
    by (auto simp: profiles_ok_def observed_counted [OF True t])
next
  case False
  with assms show ?thesis
    by (auto simp: profiles_ok_def observed_ignored note_observation_def Let_def)
qed

lemma balanced_name: "\<exists>p. ''balanced'' = profile_as_str p"
  by (rule exI [of _ Balanced]) simp

lemma invariant_opened: "rollout_invariant fresh_state" "rollout_invariant rollout_default"
  by (auto simp: fresh_state_def rollout_invariant_def rollout_default_def counters_ok_def
      armed_ok_def profiles_ok_def Let_def u64_max_def balanced_name)

lemma invariant_migrated: "rollout_invariant st \<Longrightarrow> rollout_invariant (migrate_state st)"
  by (auto simp: migrate_state_def fresh_state_def rollout_invariant_def rollout_default_def counters_ok_def
      armed_ok_def profiles_ok_def Let_def u64_max_def balanced_name)

lemma reachable_invariant: "rollout_reachable st \<Longrightarrow> rollout_invariant st"
proof (induction rule: rollout_reachable.induct)
  case (observe st now profile source ob)
  then show ?case
    by (simp add: rollout_invariant_def counters_observed armed_observed profiles_observed)
qed (simp_all add: invariant_opened invariant_migrated)

section \<open>The profile after an observation\<close>

lemma effective_observed_ignored:
  "\<not> ob_min_samples_met ob \<Longrightarrow> effective_profile (observed_state now p source ob st) p = effective_profile st p"
  by (simp add: observed_ignored effective_profile_def note_observation_def Let_def)

lemma effective_counted: "effective_profile (counted now p source ob st) p = effective_profile st p"
  by (simp add: counted_def effective_profile_def note_observation_def count_observation_def Let_def)

lemma effective_observed_counted:
  assumes "ob_min_samples_met ob"
  shows "effective_profile (observed_state now p source ob st) p = fst (transitioned now p source ob st)"
proof -
  obtain t s where t: "transitioned now p source ob st = (t, s)" by force
  show ?thesis
    by (simp add: observed_counted [OF assms t] t effective_profile_def transitioned_fields(3) [OF t])
qed

lemma promoted_level:
  "level (fst (promote_profile_if_eligible a x y z st)) \<in> {level a, level a + 1}"
  by (cases a) (auto simp: promote_profile_if_eligible_def)

lemma demoted_level:
  "level (fst (demote_profile_if_unstable a st)) \<in> {level a, level a - 1}"
  by (cases a) (auto simp: demote_profile_if_unstable_def)

text \<open>How many perfect observations are still needed for the strict profile.\<close>

definition perfect :: "accuracy_observation \<Rightarrow> bool" where
  "perfect ob \<longleftrightarrow> ob_passed ob \<and> ob_min_samples_met ob
     \<and> meets_profile_thresholds Strict (ob_precision ob) (ob_recall ob) (ob_match_ratio ob)"

definition streak :: "rollout_state \<Rightarrow> rollout_profile \<Rightarrow> nat" where
  "streak st p = (if ro_requested_profile st = profile_as_str p then ro_consecutive_passes st else 0)"

definition still_needed :: "rollout_state \<Rightarrow> rollout_profile \<Rightarrow> nat" where
  "still_needed st p =
     (case effective_profile st p of
        Strict \<Rightarrow> 0
      | Balanced \<Rightarrow> max (5 - streak st p) 1
      | Adaptive \<Rightarrow> max (3 - streak st p) 1 + 5)"

lemma perfect_balanced:
  "perfect ob \<Longrightarrow> meets_profile_thresholds Balanced (ob_precision ob) (ob_recall ob) (ob_match_ratio ob)"
  by (auto simp: perfect_def meets_profile_thresholds_def Let_def)

lemma counted_passes:
  "ob_passed ob \<Longrightarrow> ro_consecutive_passes (counted now p source ob st) = saturating_inc (streak st p)"
  by (auto simp: counted_def count_observation_def note_observation_def streak_def Let_def)

lemma still_needed_step:
  assumes "perfect ob"
  shows "still_needed (observed_state now p source ob st) p \<le> still_needed st p - 1"
proof -
  have ob: "ob_passed ob" "ob_min_samples_met ob" using assms by (simp_all add: perfect_def)
  obtain t s where t: "transitioned now p source ob st = (t, s)" by force
  have e: "effective_profile (observed_state now p source ob st) p = t"
    using effective_observed_counted [OF ob(2)] t by simp
  have k: "streak (observed_state now p source ob st) p = ro_consecutive_passes s"
    by (simp add: streak_def, simp add: observed_counted [OF ob(2) t])
  have pr: "promote_profile_if_eligible (effective_profile st p) (ob_precision ob) (ob_recall ob)
      (ob_match_ratio ob) (counted now p source ob st) = (t, s)"
    using t ob(1) by (simp add: transitioned_def effective_counted)
  note c = counted_passes [OF ob(1), of now p source st]
  show ?thesis
    using pr c assms perfect_balanced [OF assms]
    unfolding still_needed_def e k
    by (cases "effective_profile st p")
      (auto simp: promote_profile_if_eligible_def perfect_def saturating_inc_def u64_max_def split: if_splits)
qed

section \<open>Properties\<close>

definition observe_all :: "rollout_profile \<Rightarrow> (nat \<times> observation_source \<times> accuracy_observation) list \<Rightarrow> rollout_state \<Rightarrow> rollout_state" where
  "observe_all p = fold (\<lambda>(now, source, ob) st. observed_state now p source ob st)"

lemma still_needed_run:
  "list_all (\<lambda>(now, source, ob). perfect ob) run
    \<Longrightarrow> still_needed (observe_all p run st) p \<le> still_needed st p - length run"
proof (induction run arbitrary: st)
  case (Cons r run)
  obtain now source ob where r: "r = (now, source, ob)" by (cases r)
  from Cons have "still_needed (observe_all p run (observed_state now p source ob st)) p
      \<le> still_needed (observed_state now p source ob st) p - length run" by simp
  moreover have "still_needed (observed_state now p source ob st) p \<le> still_needed st p - 1"
    using Cons.prems r by (intro still_needed_step) simp
  ultimately show ?case by (simp add: observe_all_def r)
qed (simp add: observe_all_def)

text \<open>
  \<^bold>\<open>C35\<close>.  In every reachable rollout state the counters fit together: passes and failures in a
  row exclude each other and are at most their totals, promotions are at most the passes and
  demotions at most the failures, nothing exceeds the number of runs or a \<open>u64\<close>; the armed flag
  stands only after a counted pass; and the profile names are valid.
\<close>

theorem rollout_invariant_reachable:
  assumes "rollout_reachable st"
  shows "rollout_invariant st"
  by (rule reachable_invariant [OF assms])

text \<open>
  Deferred fail-closed mode is earned: it takes effect only for the profile that was
  observed, with at least one pass and no failure in a row.
\<close>

theorem deferred_fail_closed_earned:
  assumes "rollout_reachable st" "effective_fail_closed st p True True"
  shows "ro_requested_profile st = profile_as_str p
    \<and> 0 < ro_consecutive_passes st \<and> ro_consecutive_failures st = 0"
  using reachable_invariant [OF assms(1)] assms(2)
  by (auto simp: effective_fail_closed_def rollout_invariant_def armed_ok_def counters_ok_def split: if_splits)

text \<open>
  From any state, eight perfect observations of a profile make it strict.
\<close>

theorem strict_after_eight:
  assumes "list_all (\<lambda>(now, source, ob). perfect ob) run" "8 \<le> length run"
  shows "effective_profile (observe_all p run st) p = Strict"
proof -
  have "still_needed st p \<le> 8"
    by (auto simp: still_needed_def split: rollout_profile.split)
  with still_needed_run [OF assms(1), of p st] assms(2)
  have "still_needed (observe_all p run st) p = 0" by simp
  then show ?thesis by (auto simp: still_needed_def split: rollout_profile.splits)
qed

text \<open>
  One observation moves the profile by at most one level: up only on a pass, down only on
  a failure, and not at all without enough samples.
\<close>

theorem observation_moves_one_level:
  "let old = effective_profile st p; new = effective_profile (observed_state now p source ob st) p in
   (if ob_min_samples_met ob
    then if ob_passed ob then level new \<in> {level old, level old + 1}
         else level new \<in> {level old, level old - 1}
    else new = old)"
  using promoted_level demoted_level
  by (simp add: Let_def effective_observed_ignored effective_observed_counted transitioned_def effective_counted
      del: insert_iff)

text \<open>
  A later process finds the state an observation left: with the serialiser's and the
  codec's laws, opening the file it wrote, even with two shards damaged, gives that very state.
\<close>

theorem rollout_survives_restart:
  assumes "rollout_reachable st" "st' = observed_state now p source ob st"
    and "to_allocvec st' = Some payload" "from_bytes payload = Some st'"
    and "for_payload_len (length payload) = Inr l"
    and "recovers rs (data_shards l) (parity_shards l) (padded_shards l payload) sent"
    and "detectable hash sent received" "damaged_shards sent received \<le> 2"
  shows "\<exists>head. encode_binary to_allocvec rs hash st' = Inr (head @ concat sent)
    \<and> open_state from_bytes rs hash (Some (head @ concat received)) = st'"
proof -
  have "ro_schema_version st' = rollout_schema_version" "ro_last_observation_source st' \<noteq> []"
    by (cases source; simp add: assms(2))+
  moreover have "ro_requested_profile st' \<noteq> []" by (simp add: assms(2))
  moreover have "profiles_ok st'"
    using reachable_invariant [OF assms(1)] by (simp add: assms(2) rollout_invariant_def profiles_observed)
  ultimately have "migrate_state st' = st'"
    by (auto simp: migrate_state_def Let_def profiles_ok_def)
  with state_recovered [where to_allocvec = to_allocvec and from_bytes = from_bytes, OF assms(3-8)]
  show ?thesis by (auto simp: open_state_def load_state_def)
qed

definition sample_observation :: accuracy_observation where
  "sample_observation =
     \<lparr>ob_passed = True, ob_precision = 1, ob_recall = 1, ob_match_ratio = 1, ob_min_samples_met = True,
      ob_stable_passes_required = 1\<rparr>"

definition sample_twice :: rollout_state where
  "sample_twice = observed_state 2 Balanced Gate sample_observation
     (observed_state 1 Balanced Gate sample_observation fresh_state)"

lemma sample_reachable: "rollout_reachable sample_twice"
  unfolding sample_twice_def by (intro rollout_reachable.intros)

theorem rollout_invariant_reachable_witness: "rollout_invariant sample_twice"
  by (rule rollout_invariant_reachable [OF sample_reachable])

lemma sample_armed: "effective_fail_closed sample_twice Balanced True True"
  by (simp add: effective_fail_closed_def sample_twice_def observed_defs fresh_state_def rollout_default_def
      sample_observation_def Let_def effective_profile_def parse_profile_names saturating_inc_def u64_max_def
      stable_pass_target_def)

theorem deferred_fail_closed_earned_witness:
  "ro_requested_profile sample_twice = profile_as_str Balanced
    \<and> 0 < ro_consecutive_passes sample_twice \<and> ro_consecutive_failures sample_twice = 0"
  by (rule deferred_fail_closed_earned [OF sample_reachable sample_armed])

lemma sample_perfect: "perfect sample_observation"
  by (simp add: perfect_def sample_observation_def meets_profile_thresholds_def clamp_def)

theorem strict_after_eight_witness:
  "effective_profile (observe_all Adaptive (replicate 8 (0, Benchmark, sample_observation)) rollout_default) Adaptive
    = Strict"
  by (rule strict_after_eight) (simp_all add: sample_perfect list_all_iff)

theorem rollout_survives_restart_witness:
  "\<exists>head. encode_binary (\<lambda>_. Some [5, 7, 9]) small_rs small_hash sample_twice = Inr (head @ concat sample_sent)
    \<and> open_state (\<lambda>_. Some sample_twice) small_rs small_hash
        (Some (head @ concat [[5, 7], [9, 1], [12, 7], [0, 7]])) = sample_twice"
proof (rule rollout_survives_restart [where st = "observed_state 1 Balanced Gate sample_observation fresh_state"
      and st' = sample_twice and now = 2 and p = Balanced and source = Gate and ob = sample_observation
      and payload = "[5, 7, 9]" and l = sample_layout and received = "[[5, 7], [9, 1], [12, 7], [0, 7]]"])
  show "rollout_reachable (observed_state 1 Balanced Gate sample_observation fresh_state)"
    by (intro rollout_reachable.intros)
  show "sample_twice = observed_state 2 Balanced Gate sample_observation
      (observed_state 1 Balanced Gate sample_observation fresh_state)" by (rule sample_twice_def)
  show "damaged_shards sample_sent [[5, 7], [9, 1], [12, 7], [0, 7]] \<le> 2"
    unfolding sample_facts(4) by (rule order_refl)
qed (rule refl sample_facts)+

end
