(* ===== verification/Ecc_Frame.thy ===== *)
theory Ecc_Frame
  imports Ecc_Model
begin

text \<open>
  \<^verbatim>\<open>src/src/files/ecc_frame.rs\<close>: the frames in which worker processes, the reporter and the
  persistent translation units exchange bytes.  A writer is the list of bytes written so far,
  a reader the list of bytes left; a read that finds too few bytes takes all of them and fails
  with \<open>UnexpectedEof\<close>.  Other input and output errors are not modelled.
\<close>

section \<open>Writing\<close>

definition frame_magic :: "byte list" where
  "frame_magic = [0x4D, 0x4A, 0x52, 0x50]"

definition max_frame_payload :: nat where
  "max_frame_payload = 64 * 1024 * 1024"

definition frame_target_shard_size :: nat where "frame_target_shard_size = 4096"
definition frame_min_data_shards :: nat where "frame_min_data_shards = 2"
definition frame_max_data_shards :: nat where "frame_max_data_shards = 32"
definition frame_parity_shards :: nat where "frame_parity_shards = 2"

lemmas frame_const_defs = max_frame_payload_def frame_target_shard_size_def
  frame_min_data_shards_def frame_max_data_shards_def frame_parity_shards_def

record frame_layout =
  fl_data_shards :: nat
  fl_parity_shards :: nat
  fl_shard_size :: nat

definition for_payload :: "nat \<Rightarrow> ecc_error + frame_layout" where
  "for_payload payload_len =
     (if payload_len > max_frame_payload then Inl (PayloadTooLarge payload_len max_frame_payload)
      else
        let effective = max payload_len 1;
            d = clamp_nat (div_ceil effective frame_target_shard_size)
                  frame_min_data_shards frame_max_data_shards
        in Inr \<lparr>fl_data_shards = d, fl_parity_shards = frame_parity_shards,
                fl_shard_size = max (div_ceil effective d) 1\<rparr>)"

definition frame_shards :: "frame_layout \<Rightarrow> byte list \<Rightarrow> byte list list" where
  "frame_shards l payload =
     chunks (fl_shard_size l)
       (payload @ replicate (fl_data_shards l * fl_shard_size l - length payload) 0)"

definition write_frame ::
    "'c reed_solomon \<Rightarrow> (byte list \<Rightarrow> u32) \<Rightarrow> byte list \<Rightarrow> byte list \<Rightarrow> ecc_error + byte list" where
  "write_frame rs hash writer payload =
     and_then (for_payload (length payload)) (\<lambda>l.
     and_then (ok_or (PayloadLenOverflow (length payload)) (u32_try_from (length payload))) (\<lambda>payload_len.
     and_then (ok_or CodecBuildFailed (rs_new rs (fl_data_shards l) (fl_parity_shards l))) (\<lambda>codec.
     and_then (ok_or EncodeFailed (rs_encode rs codec
                (frame_shards l payload @ replicate (fl_parity_shards l) (replicate (fl_shard_size l) 0))))
       (\<lambda>shards.
     Inr (writer @ frame_magic @ u32_to_le_bytes payload_len @ u32_to_le_bytes (hash payload)
          @ u16_to_le_bytes (of_nat (fl_data_shards l)) @ u16_to_le_bytes (of_nat (fl_parity_shards l))
          @ u32_to_le_bytes (of_nat (fl_shard_size l))
          @ concat (map (\<lambda>shard. u32_to_le_bytes (hash shard)) shards)
          @ concat shards)))))"

section \<open>Reading\<close>

definition read_exact ::
    "nat \<Rightarrow> (byte list \<Rightarrow> byte list \<Rightarrow> (ecc_error + 'a) \<times> byte list) \<Rightarrow> byte list
      \<Rightarrow> (ecc_error + 'a) \<times> byte list" where
  "read_exact n k reader =
     (if n \<le> length reader then k (take n reader) (drop n reader) else (Inl UnexpectedEof, []))"

fun read_many ::
    "nat \<Rightarrow> nat \<Rightarrow> (byte list list \<Rightarrow> byte list \<Rightarrow> (ecc_error + 'a) \<times> byte list) \<Rightarrow> byte list
      \<Rightarrow> (ecc_error + 'a) \<times> byte list" where
  "read_many 0 n k reader = k [] reader"
| "read_many (Suc count) n k reader =
     read_exact n (\<lambda>buf reader. read_many count n (\<lambda>bufs reader. k (buf # bufs) reader) reader) reader"

definition assemble_payload ::
    "'c reed_solomon \<Rightarrow> (byte list \<Rightarrow> u32) \<Rightarrow> nat \<Rightarrow> nat \<Rightarrow> nat \<Rightarrow> u32 \<Rightarrow> byte list option list
      \<Rightarrow> ecc_error + byte list" where
  "assemble_payload rs hash payload_len d p payload_crc shards =
     (let corrupted = missing shards in
      if corrupted > p then Inl (Uncorrectable corrupted p)
      else
        and_then
          (if corrupted > 0
           then and_then (ok_or CodecBuildFailed (rs_new rs d p)) (\<lambda>codec.
                ok_or ReconstructFailed (rs_reconstruct rs codec shards))
           else Inr shards) (\<lambda>shards.
        and_then (try_map (ok_or MissingShard) (take d shards)) (\<lambda>rows.
        let payload = take payload_len (concat rows);
            actual_crc = hash payload
        in if actual_crc \<noteq> payload_crc then Inl (PayloadChecksumMismatch payload_crc actual_crc)
           else Inr payload)))"

definition read_frame ::
    "'c reed_solomon \<Rightarrow> (byte list \<Rightarrow> u32) \<Rightarrow> byte list \<Rightarrow> (ecc_error + byte list option) \<times> byte list" where
  "read_frame rs hash reader =
     (if length reader < 4 then (Inr None, [])
      else
        let magic = take 4 reader; reader = drop 4 reader in
        if magic \<noteq> frame_magic then (Inl (InvalidMagic magic), reader)
        else read_exact 4 (\<lambda>buf reader.
          let payload_len = unat (u32_from_le_bytes buf) in
          if payload_len > max_frame_payload
          then (Inl (PayloadTooLarge payload_len max_frame_payload), reader)
          else read_exact 4 (\<lambda>buf reader.
            let payload_crc = u32_from_le_bytes buf in
            read_exact 2 (\<lambda>buf reader.
            let d = unat (u16_from_le_bytes buf) in
            read_exact 2 (\<lambda>buf reader.
            let p = unat (u16_from_le_bytes buf) in
            read_exact 4 (\<lambda>buf reader.
            let sz = unat (u32_from_le_bytes buf) in
            if \<not> (frame_min_data_shards \<le> d \<and> d \<le> frame_max_data_shards)
            then (Inl (InvalidDataShards d), reader)
            else if p \<noteq> frame_parity_shards then (Inl (InvalidParityShards p), reader)
            else if sz = 0 then (Inl InvalidShardSize, reader)
            else
              read_many (d + p) 4 (\<lambda>crcs reader.
              read_many (d + p) sz (\<lambda>shards reader.
                (and_then (assemble_payload rs hash payload_len d p payload_crc
                            (check_shards hash (map u32_from_le_bytes crcs) shards))
                   (\<lambda>payload. Inr (Some payload)), reader)) reader) reader)
              reader) reader) reader) reader) reader)"

section \<open>The interface of a frame reader\<close>

text \<open>
  What the processes on both ends of a pipe rely on: a frame in front of other bytes is read
  back and exactly its bytes are consumed, the end of the stream is told from a frame, and every
  failed read makes progress.
\<close>

locale framing =
  fixes frame_of :: "'p \<Rightarrow> byte list \<Rightarrow> bool"
    and receive :: "byte list \<Rightarrow> ('e + 'p option) \<times> byte list"
  assumes receive_frame: "frame_of p bytes \<Longrightarrow> receive (bytes @ rest) = (Inr (Some p), rest)"
    and receive_end: "receive [] = (Inr None, [])"
    and progress: "receive bytes = (r, rest) \<Longrightarrow> r \<noteq> Inr None \<Longrightarrow> length rest < length bytes"

text \<open>The receiving loop: payloads are handed to \<open>parse\<close> until the end, failures are skipped.\<close>

fun receive_loop ::
    "(byte list \<Rightarrow> ('e + 'p option) \<times> byte list) \<Rightarrow> ('p \<Rightarrow> 'r option) \<Rightarrow> nat \<Rightarrow> byte list \<Rightarrow> 'r list option" where
  "receive_loop receive parse 0 reader = None"
| "receive_loop receive parse (Suc fuel) reader =
     (case receive reader of
        (Inr (Some payload), reader) \<Rightarrow>
          (case parse payload of
             Some record \<Rightarrow> map_option ((#) record) (receive_loop receive parse fuel reader)
           | None \<Rightarrow> receive_loop receive parse fuel reader)
      | (Inr None, reader) \<Rightarrow> Some []
      | (Inl err, reader) \<Rightarrow> receive_loop receive parse fuel reader)"

context framing
begin

lemma receive_loop_returns:
  "length bytes < fuel \<Longrightarrow> \<exists>rs. receive_loop receive parse fuel bytes = Some rs"
proof (induction fuel arbitrary: bytes)
  case (Suc fuel)
  obtain r rest where r: "receive bytes = (r, rest)" by force
  show ?case
  proof (cases "r = Inr None")
    case False
    from progress [OF r False] Suc.prems have "length rest < fuel" by simp
    from Suc.IH [OF this] show ?thesis
      by (auto simp: r split: sum.splits option.splits)
  qed (simp add: r)
qed simp

lemma receive_loop_frames:
  assumes "list_all2 frame_of payloads frames" "length frames < fuel"
  shows "receive_loop receive parse fuel (concat frames) = Some (List.map_filter parse payloads)"
  using assms
proof (induction arbitrary: fuel rule: list_all2_induct)
  case Nil
  then show ?case by (cases fuel) (simp_all add: receive_end map_filter_def)
next
  case (Cons p ps bytes frames)
  then obtain fuel' where f: "fuel = Suc fuel'" "length frames < fuel'" by (cases fuel) auto
  show ?case
    by (cases "parse p")
      (simp_all add: f(1) receive_frame [OF Cons.hyps(1)] Cons.IH [OF f(2)] map_filter_simps)
qed

lemma frame_not_empty: "\<not> frame_of p []"
  using receive_frame [of p "[]" "[]"] receive_end by auto

lemma receive_all_frames:
  assumes "list_all2 frame_of payloads frames"
  shows "receive_loop receive parse (Suc (length (concat frames))) (concat frames)
    = Some (List.map_filter parse payloads)"
proof (rule receive_loop_frames [OF assms])
  have "\<forall>f \<in> set frames. f \<noteq> []"
    using assms frame_not_empty by (metis in_set_conv_nth list_all2_conv_all_nth)
  then have "length frames \<le> length (concat frames)"
    by (induction frames) (auto simp: Suc_le_eq add_strict_increasing)
  then show "length frames < Suc (length (concat frames))" by simp
qed

end

section \<open>Reading what was written\<close>

lemma for_payload_Inr:
  assumes "for_payload n = Inr l"
  shows "n \<le> max_frame_payload" "2 \<le> fl_data_shards l" "fl_data_shards l \<le> 32"
    "fl_parity_shards l = 2" "1 \<le> fl_shard_size l" "fl_shard_size l \<le> 2 ^ 21"
    "n \<le> fl_data_shards l * fl_shard_size l"
proof -
  define e where "e = max n 1"
  define d where "d = clamp_nat (div_ceil e 4096) 2 32"
  have n: "n \<le> max_frame_payload" using assms by (simp add: for_payload_def split: if_splits)
  have l: "l = \<lparr>fl_data_shards = d, fl_parity_shards = 2, fl_shard_size = max (div_ceil e d) 1\<rparr>"
    using assms n by (simp add: for_payload_def e_def d_def Let_def frame_const_defs)
  have d: "2 \<le> d" "d \<le> 32" by (auto simp: d_def clamp_nat_def)
  have e: "e \<le> 2 ^ 26" using n by (simp add: e_def max_frame_payload_def)
  have s: "div_ceil e d \<le> 2 ^ 21" using clamped_div_ceil [of e 21] e by (simp add: d_def)
  have "e \<le> d * div_ceil e d" using d by (intro div_ceil_upper) simp
  then have "n \<le> d * max (div_ceil e d) 1"
    by (auto simp: e_def max_def intro: order_trans)
  with n d s l show "n \<le> max_frame_payload" "2 \<le> fl_data_shards l" "fl_data_shards l \<le> 32"
    "fl_parity_shards l = 2" "1 \<le> fl_shard_size l" "fl_shard_size l \<le> 2 ^ 21"
    "n \<le> fl_data_shards l * fl_shard_size l" by simp_all
qed

definition frame_head ::
    "(byte list \<Rightarrow> u32) \<Rightarrow> frame_layout \<Rightarrow> byte list \<Rightarrow> byte list list \<Rightarrow> byte list" where
  "frame_head hash l payload sent =
     frame_magic @ u32_to_le_bytes (of_nat (length payload)) @ u32_to_le_bytes (hash payload)
     @ u16_to_le_bytes (of_nat (fl_data_shards l)) @ u16_to_le_bytes (of_nat (fl_parity_shards l))
     @ u32_to_le_bytes (of_nat (fl_shard_size l))
     @ concat (map (\<lambda>shard. u32_to_le_bytes (hash shard)) sent)"

lemma frame_shards:
  assumes "for_payload (length payload) = Inr l"
  shows "length (frame_shards l payload) = fl_data_shards l"
    "\<forall>s \<in> set (frame_shards l payload). length s = fl_shard_size l"
    "take (length payload) (concat (frame_shards l payload)) = payload"
    "length (hd (frame_shards l payload)) = fl_shard_size l"
  unfolding frame_shards_def
  by (rule padded_chunks; use for_payload_Inr [OF assms] in simp)+

lemma write_frame_of:
  assumes l: "for_payload (length payload) = Inr l"
    and rs: "recovers rs (fl_data_shards l) (fl_parity_shards l) (frame_shards l payload) sent"
  shows "write_frame rs hash writer payload = Inr (writer @ frame_head hash l payload sent @ concat sent)"
proof -
  note lf = for_payload_Inr [OF l]
  from rs obtain codec where "rs_new rs (fl_data_shards l) (fl_parity_shards l) = Some codec"
    and "rs_encode rs codec (frame_shards l payload
           @ replicate (fl_parity_shards l) (replicate (fl_shard_size l) 0)) = Some sent"
    by (rule recovers_cases) (simp add: frame_shards(4) [OF l])
  moreover have "u32_try_from (length payload) = Some (of_nat (length payload))"
    using lf(1) by (simp add: max_frame_payload_def)
  ultimately show ?thesis unfolding write_frame_def l by (simp add: frame_head_def)
qed

lemma read_exact_at: "length xs = n \<Longrightarrow> read_exact n k (xs @ ys) = k xs ys"
  by (simp add: read_exact_def)

lemma read_many_at:
  "\<forall>s \<in> set ss. length s = n \<Longrightarrow> read_many (length ss) n k (concat ss @ rest) = k ss rest"
  by (induction ss arbitrary: k) (simp_all add: read_exact_at)

lemma read_frame_of:
  assumes l: "for_payload (length payload) = Inr l" and sent: "length sent = fl_data_shards l + 2"
    and received: "length received = length sent" "\<forall>s \<in> set received. length s = fl_shard_size l"
  shows "read_frame rs hash (frame_head hash l payload sent @ concat received @ rest) =
    (and_then (assemble_payload rs hash (length payload) (fl_data_shards l) 2 (hash payload)
       (check_shards hash (map hash sent) received)) (\<lambda>payload. Inr (Some payload)), rest)"
proof -
  note lf = for_payload_Inr [OF l]
  have un: "unat (of_nat (length payload) :: u32) = length payload"
    "unat (of_nat (fl_data_shards l) :: u16) = fl_data_shards l"
    "unat (of_nat (fl_parity_shards l) :: u16) = fl_parity_shards l"
    "unat (of_nat (fl_shard_size l) :: u32) = fl_shard_size l"
    using lf by (simp_all add: max_frame_payload_def)
  define table where "table = map (\<lambda>shard. u32_to_le_bytes (hash shard)) sent"
  have t: "fl_data_shards l + 2 = length table" "\<forall>s \<in> set table. length s = 4"
    using sent lf(4) by (auto simp: table_def)
  have crcs: "map u32_from_le_bytes table = map hash sent" by (simp add: table_def)
  have r: "length table = length received" using received(1) by (simp add: table_def)
  note table = read_many_at [OF t(2), unfolded r]
  have m: "length frame_magic = 4" by (simp add: frame_magic_def)
  have "length payload \<le> max_frame_payload" by (rule lf(1))
  then show ?thesis
    unfolding frame_head_def read_frame_def table_def [symmetric] append_assoc Let_def
    using lf(2-5) m
    by (simp del: read_many.simps add_2_eq_Suc add_2_eq_Suc' add: read_exact_at un t(1) table r read_many_at [OF received(2)] crcs
        frame_const_defs)
qed

lemma assemble_recovers:
  assumes rs: "recovers rs d p data sent" and det: "detectable hash sent received"
    and few: "damaged_shards sent received \<le> p"
  shows "assemble_payload rs hash n d p (hash (take n (concat data)))
      (check_shards hash (map hash sent) received) = Inr (take n (concat data))"
proof -
  note d = check_shards_detectable [OF det]
  from rs obtain codec where c: "rs_new rs d p = Some codec"
    and n: "length sent = d + p" "take d sent = data"
    and r: "\<And>keep. length keep = d + p \<Longrightarrow> length (filter Not keep) \<le> p
      \<Longrightarrow> rs_reconstruct rs codec (erase keep sent) = Some (map Some sent)"
    by (rule recovers_cases) blast
  have rec: "rs_reconstruct rs codec (check_shards hash (map hash sent) received) = Some (map Some sent)"
    unfolding d(1) by (rule r) (use d few n in simp_all)
  show ?thesis
    using few unfolding assemble_payload_def d(2) Let_def
    by (cases "damaged_shards sent received = 0") (simp_all add: undamaged [OF det] rec c take_map n(2))
qed

text \<open>
  A frame as it may arrive: written for the payload, then changed in at most two shards, each
  change visible in the shard's checksum.
\<close>

definition carries :: "'c reed_solomon \<Rightarrow> (byte list \<Rightarrow> u32) \<Rightarrow> byte list \<Rightarrow> byte list \<Rightarrow> bool" where
  "carries rs hash payload bytes \<longleftrightarrow>
     (\<exists>l sent received. for_payload (length payload) = Inr l
        \<and> recovers rs (fl_data_shards l) (fl_parity_shards l) (frame_shards l payload) sent
        \<and> detectable hash sent received \<and> damaged_shards sent received \<le> 2
        \<and> bytes = frame_head hash l payload sent @ concat received)"

lemma received_shards:
  assumes "for_payload (length payload) = Inr l"
    and "recovers rs (fl_data_shards l) (fl_parity_shards l) (frame_shards l payload) sent"
    and "detectable hash sent received"
  shows "length sent = fl_data_shards l + 2" "length received = length sent"
    "\<forall>s \<in> set received. length s = fl_shard_size l"
proof -
  show "length sent = fl_data_shards l + 2"
    using assms(2) by (rule recovers_cases) (simp add: for_payload_Inr(4) [OF assms(1)])
  have "\<forall>s \<in> set sent. length s = fl_shard_size l"
    using assms(2) by (rule recovers_cases) (simp add: frame_shards(4) [OF assms(1)])
  then show "length received = length sent" "\<forall>s \<in> set received. length s = fl_shard_size l"
    using assms(3) unfolding detectable_def list_all2_conv_all_nth by (metis in_set_conv_nth)+
qed

lemma read_carried:
  assumes "carries rs hash payload bytes"
  shows "read_frame rs hash (bytes @ rest) = (Inr (Some payload), rest)"
proof -
  obtain l sent received where l: "for_payload (length payload) = Inr l"
    and rs: "recovers rs (fl_data_shards l) (fl_parity_shards l) (frame_shards l payload) sent"
    and det: "detectable hash sent received" and few: "damaged_shards sent received \<le> 2"
    and b: "bytes = frame_head hash l payload sent @ concat received"
    using assms unfolding carries_def by blast
  have p: "fl_parity_shards l = 2" by (rule for_payload_Inr [OF l])
  note as = assemble_recovers [OF rs [unfolded p] det few, of "length payload",
      unfolded frame_shards(3) [OF l]]
  show ?thesis
    unfolding b append_assoc read_frame_of [OF l received_shards [OF l rs det]] as by simp
qed

lemma if_shrinks:
  assumes "c \<Longrightarrow> length (snd a) \<le> n" "\<not> c \<Longrightarrow> length (snd b) \<le> n"
  shows "length (snd (if c then a else b)) \<le> n"
  using assms by simp

lemma read_exact_shrinks:
  assumes "\<And>buf r. length (snd (k buf r)) \<le> length r"
  shows "length (snd (read_exact n k reader)) \<le> length reader"
  using order_trans [OF assms, of "drop n reader" "length reader"] by (simp add: read_exact_def)

lemma read_many_shrinks:
  assumes "\<And>bufs r. length (snd (k bufs r)) \<le> length r"
  shows "length (snd (read_many count n k reader)) \<le> length reader"
  using assms by (induction count arbitrary: k reader) (simp_all add: read_exact_shrinks)

lemma read_frame_progress:
  assumes "read_frame rs hash bytes = (r, rest)" "r \<noteq> Inr None"
  shows "length rest < length bytes"
proof -
  have four: "4 \<le> length bytes" using assms by (auto simp: read_frame_def split: if_splits)
  have "length (snd (read_frame rs hash bytes)) \<le> length (drop 4 bytes)"
    unfolding read_frame_def Let_def
    by (intro if_shrinks read_exact_shrinks read_many_shrinks) simp_all
  with assms(1) four show ?thesis by simp
qed

interpretation frames: framing "carries rs hash" "read_frame rs hash"
  for rs :: "'c reed_solomon" and hash
proof
  show "read_frame rs hash [] = (Inr None, [])" by (simp add: read_frame_def)
qed (fact read_carried read_frame_progress)+

text \<open>
  Frames in a row, each damaged in at most two shards, are read back to the payloads they
  were written for, one per frame, whatever follows them.
\<close>

theorem frame_survives_damage:
  assumes "carries rs hash payload bytes"
  shows "read_frame rs hash (bytes @ rest) = (Inr (Some payload), rest)"
  by (rule frames.receive_frame [OF assms])

definition sample_frame_shards :: "byte list list" where
  "sample_frame_shards = [[5, 7], [9, 0], [12, 7], [23, 7]]"

definition sample_frame_layout :: frame_layout where
  "sample_frame_layout = \<lparr>fl_data_shards = 2, fl_parity_shards = 2, fl_shard_size = 2\<rparr>"

lemma sample_carried:
  "for_payload (length ([5, 7, 9] :: byte list)) = Inr sample_frame_layout"
  "recovers small_rs (fl_data_shards sample_frame_layout) (fl_parity_shards sample_frame_layout)
     (frame_shards sample_frame_layout [5, 7, 9]) sample_frame_shards"
  "detectable small_hash sample_frame_shards [[5, 8], [9, 0], [12, 7], [1, 7]]"
  "damaged_shards sample_frame_shards [[5, 8], [9, 0], [12, 7], [1, 7]] = 2"
  by (simp add: for_payload_def sample_frame_layout_def frame_const_defs div_ceil_def clamp_nat_def)
    code_simp+

definition sample_frame :: "byte list" where
  "sample_frame = frame_head small_hash sample_frame_layout [5, 7, 9] sample_frame_shards
     @ concat [[5, 8], [9, 0], [12, 7], [1, 7]]"

lemma sample_frame_carries: "carries small_rs small_hash [5, 7, 9] sample_frame"
  unfolding carries_def sample_frame_def
  by (intro exI [of _ sample_frame_layout] exI [of _ sample_frame_shards]
      exI [of _ "[[5, 8], [9, 0], [12, 7], [1, 7]]"] conjI sample_carried(1-3) refl)
    (simp add: sample_carried(4))

theorem frame_survives_damage_witness:
  "read_frame small_rs small_hash (sample_frame @ [1]) = (Inr (Some [5, 7, 9]), [1])"
  by (rule frame_survives_damage [OF sample_frame_carries])

end
