(* ===== verification/Reporter.thy ===== *)
theory Reporter
  imports Ecc_Frame Model Complex_Main
begin

text \<open>
  \<^verbatim>\<open>src/src/runtime/reporter.rs\<close> and \<^verbatim>\<open>src/src/model/report_record.rs\<close>: how the result of a file
  becomes a report record, how records travel through frames to the reporter process, and the
  totals the reporter keeps.

  The serialiser (\<^verbatim>\<open>postcard\<close>) is a pair of parameters \<open>to_allocvec\<close>, \<open>from_bytes\<close>.  An \<open>f64\<close> is
  a real number, as in the conflict solver.
\<close>

section \<open>Traces and results\<close>

datatype policy_candidate_outcome =
  BlockedHardConstraint | BlockedZone | DroppedConflict | DroppedConvergence | Selected

fun candidate_outcome_as_str :: "policy_candidate_outcome \<Rightarrow> rstr" where
  "candidate_outcome_as_str BlockedHardConstraint = ''blocked_hard_constraint''"
| "candidate_outcome_as_str BlockedZone = ''blocked_zone''"
| "candidate_outcome_as_str DroppedConflict = ''dropped_conflict''"
| "candidate_outcome_as_str DroppedConvergence = ''dropped_convergence''"
| "candidate_outcome_as_str Selected = ''selected''"

record candidate_trace =
  ct_line :: nat
  ct_confidence :: real
  ct_style_gain :: real
  ct_utility :: real
  ct_risk_tier :: candidate_risk_tier
  ct_impact_radius :: nat
  ct_symbol_footprint_count :: nat
  ct_range_footprint_count :: nat
  ct_hard_constraints_touched :: "semantic_invariant_clause list"
  ct_zone :: policy_zone
  ct_outcome :: policy_candidate_outcome

record policy_execution_trace =
  pt_policy :: policy_id
  pt_parse_mode :: rstr
  pt_context_cluster :: u64
  pt_candidate_line_count :: nat
  pt_dropped_line_count :: nat
  pt_semantic_impact_radius :: nat
  pt_confidence_outcome :: "policy_decision_outcome option"
  pt_confidence_score :: "real option"
  pt_confidence_threshold :: "real option"
  pt_executor_scope :: retry_scope_stage
  pt_elapsed_ms :: real
  pt_parse_ms :: real
  pt_execute_ms :: real
  pt_checkpoint_ms :: real
  pt_candidate_trace :: "candidate_trace list"

text \<open>Of a file result, the fields the conversion reads.\<close>

record file_result =
  fr_path :: rstr
  fr_engine_ms :: real
  fr_total_ms :: real
  fr_boot_parse_ms :: real
  fr_changed :: bool
  fr_violations :: "violation list"
  fr_edits :: "edit list"
  fr_traces :: "policy_execution_trace list"
  fr_error :: "rstr option"
  fr_warnings :: "rstr list"

section \<open>Report records\<close>

record edit_report =
  er_line :: nat
  er_before :: rstr
  er_after :: rstr

record blocked_line_report =
  bl_line :: nat
  bl_reason :: rstr

record policy_report =
  py_policy :: rstr
  py_outcome :: policy_outcome
  py_reason :: "rstr option"
  py_elapsed_ms :: real
  py_parse_ms :: real
  py_execute_ms :: real
  py_checkpoint_ms :: real
  py_edits :: "edit_report list"
  py_blocked_lines :: "blocked_line_report list"
  py_confidence_score :: "real option"
  py_confidence_threshold :: "real option"
  py_parse_mode :: rstr
  py_candidate_count :: nat
  py_dropped_count :: nat
  py_semantic_impact_radius :: nat

record report_record =
  rr_path :: rstr
  rr_changed :: bool
  rr_error :: "rstr option"
  rr_warnings :: "rstr list"
  rr_elapsed_engine_ms :: real
  rr_elapsed_total_ms :: real
  rr_boot_parse_ms :: real
  rr_policies :: "policy_report list"

text \<open>\<open>format!("{:.2}")\<close>: the exact value, rounded half to even, with two digits.\<close>

definition round_half_even :: "real \<Rightarrow> int" where
  "round_half_even x =
     (let f = \<lfloor>x\<rfloor>; d = x - of_int f in
      if d < 1 / 2 then f else if 1 / 2 < d then f + 1 else if even f then f else f + 1)"

definition format_fixed2 :: "real \<Rightarrow> rstr" where
  "format_fixed2 x =
     (let n = nat (round_half_even (\<bar>x\<bar> * 100)) in
      (if x < 0 then ''-'' else []) @ nat_to_string (n div 100) @ ''.''
        @ nat_to_string (n mod 100 div 10) @ nat_to_string (n mod 10))"

definition derive_reason ::
    "policy_decision_outcome option \<Rightarrow> real option \<Rightarrow> real option \<Rightarrow> blocked_line_report list \<Rightarrow> rstr option" where
  "derive_reason confidence_outcome score threshold blocked =
     (if confidence_outcome = Some Block
      then Some (''blocked by confidence gate (score='' @ format_fixed2 (unwrap_or score 0)
                 @ '', threshold='' @ format_fixed2 (unwrap_or threshold 0) @ '')'')
      else case blocked of b # _ \<Rightarrow> Some (bl_reason b) | [] \<Rightarrow> None)"

definition policy_report_of :: "file_result \<Rightarrow> policy_execution_trace \<Rightarrow> policy_report" where
  "policy_report_of result trace =
     (let name = policy_as_str (pt_policy trace);
          edits = map (\<lambda>e. \<lparr>er_line = e_line e, er_before = e_before e, er_after = e_after e\<rparr>)
                    (filter (\<lambda>e. policy_as_str (e_policy e) = name) (fr_edits result));
          blocked_lines = map (\<lambda>ct. \<lparr>bl_line = ct_line ct,
                                     bl_reason = candidate_outcome_as_str (ct_outcome ct)\<rparr>)
                    (filter (\<lambda>ct. ct_outcome ct \<noteq> Selected) (pt_candidate_trace trace));
          violations_for_policy = map (\<lambda>v. \<lparr>bl_line = v_line v, bl_reason = v_message v\<rparr>)
                    (filter (\<lambda>v. policy_as_str (v_policy v) = name) (fr_violations result));
          all_blocked = blocked_lines @ violations_for_policy
      in \<lparr>py_policy = name,
          py_outcome = derive_outcome (pt_confidence_outcome trace) edits all_blocked,
          py_reason = derive_reason (pt_confidence_outcome trace) (pt_confidence_score trace)
                        (pt_confidence_threshold trace) all_blocked,
          py_elapsed_ms = pt_elapsed_ms trace,
          py_parse_ms = pt_parse_ms trace,
          py_execute_ms = pt_execute_ms trace,
          py_checkpoint_ms = pt_checkpoint_ms trace,
          py_edits = edits,
          py_blocked_lines = all_blocked,
          py_confidence_score = pt_confidence_score trace,
          py_confidence_threshold = pt_confidence_threshold trace,
          py_parse_mode = pt_parse_mode trace,
          py_candidate_count = pt_candidate_line_count trace,
          py_dropped_count = pt_dropped_line_count trace,
          py_semantic_impact_radius = pt_semantic_impact_radius trace\<rparr>)"

definition report_record_from :: "file_result \<Rightarrow> report_record" where
  "report_record_from result =
     \<lparr>rr_path = fr_path result, rr_changed = fr_changed result, rr_error = fr_error result,
      rr_warnings = fr_warnings result, rr_elapsed_engine_ms = fr_engine_ms result,
      rr_elapsed_total_ms = fr_total_ms result, rr_boot_parse_ms = fr_boot_parse_ms result,
      rr_policies = map (policy_report_of result) (fr_traces result)\<rparr>"

section \<open>The summary of the reporter\<close>

record policy_timing_agg =
  pa_total_ms :: real
  pa_max_ms :: real
  pa_count :: nat
  pa_parse_total_ms :: real
  pa_execute_total_ms :: real
  pa_checkpoint_total_ms :: real

definition policy_timing_default :: policy_timing_agg where
  "policy_timing_default =
     \<lparr>pa_total_ms = 0, pa_max_ms = 0, pa_count = 0, pa_parse_total_ms = 0, pa_execute_total_ms = 0,
      pa_checkpoint_total_ms = 0\<rparr>"

record report_summary =
  rs_files :: nat
  rs_changed :: nat
  rs_errors :: nat
  rs_warnings :: nat
  rs_violations :: nat
  rs_edits :: nat
  rs_blocked_policies :: nat
  rs_total_engine_ms :: real
  rs_max_engine_ms :: real
  rs_slowest_file :: rstr
  rs_total_boot_parse_ms :: real
  rs_max_boot_parse_ms :: real
  rs_policy_counts :: "rstr \<rightharpoonup> nat"
  rs_policy_timing :: "rstr \<rightharpoonup> policy_timing_agg"

definition report_summary_default :: report_summary where
  "report_summary_default =
     \<lparr>rs_files = 0, rs_changed = 0, rs_errors = 0, rs_warnings = 0, rs_violations = 0, rs_edits = 0,
      rs_blocked_policies = 0, rs_total_engine_ms = 0, rs_max_engine_ms = 0, rs_slowest_file = [],
      rs_total_boot_parse_ms = 0, rs_max_boot_parse_ms = 0, rs_policy_counts = Map.empty,
      rs_policy_timing = Map.empty\<rparr>"

definition update_policy :: "policy_report \<Rightarrow> report_summary \<Rightarrow> report_summary" where
  "update_policy policy s =
     (let edit_count = length (py_edits policy);
          s = s\<lparr>rs_edits := rs_edits s + edit_count\<rparr>;
          s = (if edit_count > 0
               then s\<lparr>rs_policy_counts := (rs_policy_counts s)
                        (py_policy policy \<mapsto> unwrap_or (rs_policy_counts s (py_policy policy)) 0 + edit_count)\<rparr>
               else s);
          s = (if py_outcome policy = Blocked
               then s\<lparr>rs_blocked_policies := rs_blocked_policies s + 1,
                      rs_violations := rs_violations s + length (py_blocked_lines policy)\<rparr>
               else s);
          agg = unwrap_or (rs_policy_timing s (py_policy policy)) policy_timing_default
      in s\<lparr>rs_policy_timing := (rs_policy_timing s)(py_policy policy \<mapsto>
             \<lparr>pa_total_ms = pa_total_ms agg + py_elapsed_ms policy,
              pa_max_ms = (if py_elapsed_ms policy > pa_max_ms agg then py_elapsed_ms policy else pa_max_ms agg),
              pa_count = pa_count agg + 1,
              pa_parse_total_ms = pa_parse_total_ms agg + py_parse_ms policy,
              pa_execute_total_ms = pa_execute_total_ms agg + py_execute_ms policy,
              pa_checkpoint_total_ms = pa_checkpoint_total_ms agg + py_checkpoint_ms policy\<rparr>)\<rparr>)"

definition update_summary :: "report_record \<Rightarrow> report_summary \<Rightarrow> report_summary" where
  "update_summary r s =
     (let slower = rr_elapsed_engine_ms r > rs_max_engine_ms s;
          s = s\<lparr>rs_files := rs_files s + 1,
                rs_changed := rs_changed s + (if rr_changed r then 1 else 0),
                rs_errors := rs_errors s + (if rr_error r \<noteq> None then 1 else 0),
                rs_warnings := rs_warnings s + length (rr_warnings r),
                rs_max_engine_ms := (if slower then rr_elapsed_engine_ms r else rs_max_engine_ms s),
                rs_slowest_file := (if slower then rr_path r else rs_slowest_file s),
                rs_total_engine_ms := rs_total_engine_ms s + rr_elapsed_engine_ms r,
                rs_total_boot_parse_ms := rs_total_boot_parse_ms s + rr_boot_parse_ms r,
                rs_max_boot_parse_ms :=
                  (if rr_boot_parse_ms r > rs_max_boot_parse_ms s then rr_boot_parse_ms r
                   else rs_max_boot_parse_ms s)\<rparr>
      in fold update_policy (rr_policies r) s)"

section \<open>Sending and receiving\<close>

text \<open>The sender thread: a record that cannot be serialised is skipped, a failed write ends the loop.\<close>

fun sender_loop ::
    "('r \<Rightarrow> byte list option) \<Rightarrow> 'c reed_solomon \<Rightarrow> (byte list \<Rightarrow> u32) \<Rightarrow> byte list \<Rightarrow> 'r list \<Rightarrow> byte list" where
  "sender_loop to_allocvec rs hash writer [] = writer"
| "sender_loop to_allocvec rs hash writer (record # records) =
     (case to_allocvec record of
        None \<Rightarrow> sender_loop to_allocvec rs hash writer records
      | Some payload \<Rightarrow>
          (case write_frame rs hash writer payload of
             Inl err \<Rightarrow> writer
           | Inr writer \<Rightarrow> sender_loop to_allocvec rs hash writer records))"

text \<open>The reporter process: the receiving loop with the totals; the report files are not modelled.\<close>

definition run_reporter ::
    "(byte list \<Rightarrow> report_record option) \<Rightarrow> 'c reed_solomon \<Rightarrow> (byte list \<Rightarrow> u32) \<Rightarrow> byte list
      \<Rightarrow> report_summary option" where
  "run_reporter from_bytes rs hash reader =
     map_option (\<lambda>records. fold update_summary records report_summary_default)
       (receive_loop (read_frame rs hash) from_bytes (Suc (length reader)) reader)"

section \<open>Lemmas\<close>

lemma update_policies_edits:
  "rs_edits (fold update_policy ps s) = rs_edits s + (\<Sum>p \<leftarrow> ps. length (py_edits p))"
  by (induction ps arbitrary: s) (simp_all add: update_policy_def Let_def)

lemma update_policies_blocked:
  "rs_blocked_policies (fold update_policy ps s)
     = rs_blocked_policies s + length (filter (\<lambda>p. py_outcome p = Blocked) ps)"
  "rs_violations (fold update_policy ps s)
     = rs_violations s + (\<Sum>p \<leftarrow> filter (\<lambda>p. py_outcome p = Blocked) ps. length (py_blocked_lines p))"
  by (induction ps arbitrary: s) (simp_all add: update_policy_def Let_def)

lemma update_policies_counts:
  "unwrap_or (rs_policy_counts (fold update_policy ps s) q) 0
     = unwrap_or (rs_policy_counts s q) 0 + (\<Sum>p \<leftarrow> filter (\<lambda>p. py_policy p = q) ps. length (py_edits p))"
  by (induction ps arbitrary: s) (simp_all add: update_policy_def Let_def)

definition runs_of :: "report_summary \<Rightarrow> rstr \<Rightarrow> nat" where
  "runs_of s q = (case rs_policy_timing s q of None \<Rightarrow> 0 | Some agg \<Rightarrow> pa_count agg)"

lemma update_policies_runs:
  "runs_of (fold update_policy ps s) q = runs_of s q + length (filter (\<lambda>p. py_policy p = q) ps)"
  by (induction ps arbitrary: s)
    (auto simp: update_policy_def Let_def runs_of_def policy_timing_default_def unwrap_or_def
      split: option.splits)

lemma update_policies_frame:
  "rs_files (fold update_policy ps s) = rs_files s"
  "rs_changed (fold update_policy ps s) = rs_changed s"
  "rs_errors (fold update_policy ps s) = rs_errors s"
  "rs_warnings (fold update_policy ps s) = rs_warnings s"
  "rs_max_engine_ms (fold update_policy ps s) = rs_max_engine_ms s"
  "rs_slowest_file (fold update_policy ps s) = rs_slowest_file s"
  "rs_total_engine_ms (fold update_policy ps s) = rs_total_engine_ms s"
  by (induction ps arbitrary: s) (simp_all add: update_policy_def Let_def)

lemmas update_summary_simps = update_summary_def update_policies_edits update_policies_blocked
  update_policies_counts update_policies_frame update_policies_runs

lemma update_summaries:
  "rs_files (fold update_summary rs s) = rs_files s + length rs"
  "rs_changed (fold update_summary rs s) = rs_changed s + length (filter rr_changed rs)"
  "rs_errors (fold update_summary rs s) = rs_errors s + length (filter (\<lambda>r. rr_error r \<noteq> None) rs)"
  "rs_edits (fold update_summary rs s)
     = rs_edits s + (\<Sum>p \<leftarrow> concat (map rr_policies rs). length (py_edits p))"
  "rs_blocked_policies (fold update_summary rs s)
     = rs_blocked_policies s + length (filter (\<lambda>p. py_outcome p = Blocked) (concat (map rr_policies rs)))"
  "unwrap_or (rs_policy_counts (fold update_summary rs s) q) 0
     = unwrap_or (rs_policy_counts s q) 0
       + (\<Sum>p \<leftarrow> filter (\<lambda>p. py_policy p = q) (concat (map rr_policies rs)). length (py_edits p))"
  "runs_of (fold update_summary rs s) q
     = runs_of s q + length (filter (\<lambda>p. py_policy p = q) (concat (map rr_policies rs)))"
  by (induction rs arbitrary: s)
    (simp_all add: update_summary_simps Let_def del: not_None_eq, simp_all add: runs_of_def)

definition edits_of :: "file_result \<Rightarrow> rstr \<Rightarrow> nat" where
  "edits_of result q = length (filter (\<lambda>e. policy_as_str (e_policy e) = q) (fr_edits result))"

definition traces_of :: "file_result \<Rightarrow> rstr \<Rightarrow> nat" where
  "traces_of result q = length (filter (\<lambda>t. policy_as_str (pt_policy t) = q) (fr_traces result))"

lemma policy_report_of_simps [simp]:
  "py_policy (policy_report_of result trace) = policy_as_str (pt_policy trace)"
  "length (py_edits (policy_report_of result trace)) = edits_of result (policy_as_str (pt_policy trace))"
  by (simp_all add: policy_report_of_def edits_of_def Let_def)

lemma sum_list_filter_const:
  "(\<Sum>x \<leftarrow> filter (\<lambda>x. f x = q) xs. g (f x)) = length (filter (\<lambda>x. f x = q) xs) * (g q :: nat)"
  by (induction xs) auto

lemma sum_list_double_count:
  "(\<Sum>x \<leftarrow> xs. length (filter (\<lambda>y. g y = f x) ys)) = (\<Sum>y \<leftarrow> ys. length (filter (\<lambda>x. f x = g y) xs))"
proof (induction xs)
  case (Cons x xs)
  have "(\<Sum>y \<leftarrow> ys. length (filter (\<lambda>x. f x = g y) (x # xs)))
      = (\<Sum>y \<leftarrow> ys. (if f x = g y then 1 else 0) + length (filter (\<lambda>x. f x = g y) xs))"
    by (rule arg_cong [where f = sum_list]) simp
  also have "\<dots> = (\<Sum>y \<leftarrow> ys. if f x = g y then 1 else 0) + (\<Sum>y \<leftarrow> ys. length (filter (\<lambda>x. f x = g y) xs))"
    by (simp add: sum_list_addf)
  also have "(\<Sum>y \<leftarrow> ys. if f x = g y then 1 else 0) = length (filter (\<lambda>y. g y = f x) ys)"
    by (induction ys) auto
  finally show ?case using Cons.IH by simp
qed simp

lemma record_edits_of:
  "(\<Sum>p \<leftarrow> filter (\<lambda>p. py_policy p = q) (rr_policies (report_record_from result)). length (py_edits p))
     = traces_of result q * edits_of result q"
  using sum_list_filter_const [where f = "\<lambda>t. policy_as_str (pt_policy t)" and g = "edits_of result" and q = q
      and xs = "fr_traces result"]
  by (simp add: report_record_from_def traces_of_def filter_map o_def)

lemma record_edits_all:
  "(\<Sum>p \<leftarrow> rr_policies (report_record_from result). length (py_edits p))
     = (\<Sum>e \<leftarrow> fr_edits result. traces_of result (policy_as_str (e_policy e)))"
  using sum_list_double_count [of "\<lambda>e. policy_as_str (e_policy e)" "\<lambda>t. policy_as_str (pt_policy t)"
      "fr_edits result" "fr_traces result", folded edits_of_def traces_of_def]
  by (simp add: report_record_from_def o_def)

lemma record_runs_of:
  "length (filter (\<lambda>p. py_policy p = q) (rr_policies (report_record_from result))) = traces_of result q"
  by (simp add: report_record_from_def traces_of_def filter_map o_def)

lemma sum_list_record:
  "(\<Sum>p \<leftarrow> concat (map rr_policies (map report_record_from results)). length (py_edits p))
     = (\<Sum>r \<leftarrow> results. \<Sum>e \<leftarrow> fr_edits r. traces_of r (policy_as_str (e_policy e)))"
  "(\<Sum>p \<leftarrow> filter (\<lambda>p. py_policy p = q) (concat (map rr_policies (map report_record_from results))).
       length (py_edits p)) = (\<Sum>r \<leftarrow> results. traces_of r q * edits_of r q)"
  "length (filter (\<lambda>p. py_policy p = q) (concat (map rr_policies (map report_record_from results))))
     = (\<Sum>r \<leftarrow> results. traces_of r q)"
  "length (filter rr_changed (map report_record_from results)) = length (filter fr_changed results)"
  "length (filter (\<lambda>r. rr_error r \<noteq> None) (map report_record_from results))
     = length (filter (\<lambda>r. fr_error r \<noteq> None) results)"
  by (induction results)
    (simp_all add: record_edits_of record_edits_all record_runs_of del: not_None_eq,
     simp_all add: report_record_from_def)

section \<open>Properties\<close>

text \<open>
  \<^bold>\<open>C34\<close>.  Whatever bytes arrive on its pipe, the reporter ends with a summary: every frame that
  cannot be read takes at least its magic number off the stream.
\<close>

theorem reporter_returns:
  "\<exists>s. run_reporter from_bytes rs hash bytes = Some s"
  using frames.receive_loop_returns [of bytes "Suc (length bytes)" rs hash from_bytes]
  by (auto simp: run_reporter_def)

lemma sender_loop_frames:
  assumes "list_all2 (\<lambda>r p. to_allocvec r = Some p) records payloads"
    and "list_all2 (\<lambda>p f. \<forall>writer. write_frame rs' hash writer p = Inr (writer @ f)) payloads frames"
  shows "sender_loop to_allocvec rs' hash writer records = writer @ concat frames"
  using assms
proof (induction records payloads arbitrary: frames writer rule: list_all2_induct)
  case (Cons r rs p ps)
  from Cons.prems obtain f fs where f: "frames = f # fs"
    and w: "write_frame rs' hash writer p = Inr (writer @ f)"
    and fs: "list_all2 (\<lambda>p f. \<forall>writer. write_frame rs' hash writer p = Inr (writer @ f)) ps fs"
    by (auto simp: list_all2_Cons1)
  from Cons.IH [OF fs] Cons.hyps(1) show ?case by (simp add: w f)
qed simp

text \<open>A payload the codec can protect, and the frame the writer makes of it.\<close>

definition protectable :: "'c reed_solomon \<Rightarrow> byte list \<Rightarrow> bool" where
  "protectable rs payload \<longleftrightarrow>
     (\<exists>l sent. for_payload (length payload) = Inr l
        \<and> recovers rs (fl_data_shards l) (fl_parity_shards l) (frame_shards l payload) sent)"

lemma protectable_frame:
  assumes "protectable rs payload"
  shows "\<exists>f. carries rs hash payload f \<and> (\<forall>writer. write_frame rs hash writer payload = Inr (writer @ f))"
proof -
  obtain l sent where l: "for_payload (length payload) = Inr l"
    and rs: "recovers rs (fl_data_shards l) (fl_parity_shards l) (frame_shards l payload) sent"
    using assms unfolding protectable_def by blast
  have "detectable hash sent sent" "damaged_shards sent sent = 0"
    by (simp_all add: detectable_def damaged_shards_def list_all2_same zip_same_conv_map)
  then have "carries rs hash payload (frame_head hash l payload sent @ concat sent)"
    unfolding carries_def using l rs by (metis zero_le)
  with write_frame_of [OF l rs] show ?thesis by blast
qed

lemma protectable_frames:
  assumes "\<forall>p \<in> set payloads. protectable rs p"
  shows "\<exists>frames. list_all2 (carries rs hash) payloads frames
    \<and> list_all2 (\<lambda>p f. \<forall>writer. write_frame rs hash writer p = Inr (writer @ f)) payloads frames"
  using assms
proof (induction payloads)
  case (Cons p ps)
  then obtain fs where "list_all2 (carries rs hash) ps fs"
    "list_all2 (\<lambda>p f. \<forall>writer. write_frame rs hash writer p = Inr (writer @ f)) ps fs" by auto
  moreover obtain f where "carries rs hash p f" "\<forall>writer. write_frame rs hash writer p = Inr (writer @ f)"
    using protectable_frame [of rs p hash] Cons.prems by auto
  ultimately show ?case by (intro exI [of _ "f # fs"]) simp
qed simp

text \<open>
  \<^bold>\<open>C33\<close>.  The reporter's summary is the one of exactly the records that were sent, in their order,
  over a pipe that keeps the bytes, and also over one that keeps the header of every frame and
  changes at most two of its shards, each so that its checksum shows it.  (A frame with more damage,
  or with a damaged header, is not read; its record is missing from the summary.)
\<close>

theorem reports_delivered:
  assumes "list_all2 (\<lambda>r p. to_allocvec r = Some p \<and> from_bytes p = Some r) records payloads"
    and "\<forall>p \<in> set payloads. protectable rs p"
    and "list_all2 (carries rs hash) payloads frames"
  shows "run_reporter from_bytes rs hash (sender_loop to_allocvec rs hash [] records)
      = Some (fold update_summary records report_summary_default)
    \<and> run_reporter from_bytes rs hash (concat frames)
      = Some (fold update_summary records report_summary_default)"
proof -
  have parsed: "List.map_filter from_bytes payloads = records"
    using assms(1) by (induction rule: list_all2_induct) (simp_all add: map_filter_simps)
  have ser: "list_all2 (\<lambda>r p. to_allocvec r = Some p) records payloads"
    using assms(1) by (rule list_all2_mono) simp
  have run: "run_reporter from_bytes rs hash (concat fs)
      = Some (fold update_summary records report_summary_default)"
    if "list_all2 (carries rs hash) payloads fs" for fs
    using frames.receive_all_frames [OF that, of from_bytes] by (simp add: run_reporter_def parsed)
  obtain fs where fs: "list_all2 (carries rs hash) payloads fs"
    "list_all2 (\<lambda>p f. \<forall>writer. write_frame rs hash writer p = Inr (writer @ f)) payloads fs"
    using protectable_frames [OF assms(2)] by blast
  show ?thesis
    using run [OF fs(1)] run [OF assms(3)] sender_loop_frames [OF ser fs(2), of "[]"] by simp
qed

text \<open>
  The totals of the reports of some results: one file per result; an edit is counted once
  for every trace of its policy in the result; a policy's edits are those of its results times
  its traces there; a policy's runs are its traces; and blocked policies are the reports with
  that outcome.
\<close>

theorem report_totals:
  "let s = fold update_summary (map report_record_from results) report_summary_default in
   rs_files s = length results
   \<and> rs_changed s = length (filter fr_changed results)
   \<and> rs_errors s = length (filter (\<lambda>r. fr_error r \<noteq> None) results)
   \<and> rs_edits s = (\<Sum>r \<leftarrow> results. \<Sum>e \<leftarrow> fr_edits r. traces_of r (policy_as_str (e_policy e)))
   \<and> unwrap_or (rs_policy_counts s q) 0 = (\<Sum>r \<leftarrow> results. traces_of r q * edits_of r q)
   \<and> runs_of s q = (\<Sum>r \<leftarrow> results. traces_of r q)"
  unfolding Let_def update_summaries sum_list_record
  by (simp add: report_summary_default_def runs_of_def)

definition sample_record :: report_record where
  "sample_record =
     \<lparr>rr_path = ''a.cpp'', rr_changed = True, rr_error = None, rr_warnings = [], rr_elapsed_engine_ms = 2,
      rr_elapsed_total_ms = 3, rr_boot_parse_ms = 1, rr_policies = []\<rparr>"

lemma sample_protectable: "protectable small_rs [5, 7, 9]"
  unfolding protectable_def using sample_carried(1,2) by blast

theorem reports_delivered_witness:
  "run_reporter (\<lambda>_. Some sample_record) small_rs small_hash
      (sender_loop (\<lambda>_. Some [5, 7, 9]) small_rs small_hash [] [sample_record])
      = Some (fold update_summary [sample_record] report_summary_default)
    \<and> run_reporter (\<lambda>_. Some sample_record) small_rs small_hash (concat [sample_frame])
      = Some (fold update_summary [sample_record] report_summary_default)"
  by (rule reports_delivered [where payloads = "[[5, 7, 9]]"])
    (simp_all add: sample_protectable sample_frame_carries)

end
