(* ===== verification/File_Unit.thy ===== *)
theory File_Unit
  imports Rust_Str
begin

text \<open>
  \<^verbatim>\<open>src/src/files/file_unit.rs\<close>: which files belong together.  A header and an implementation
  with the same name, in the same or in mirrored directories, form a pair.

  A path is the string of its components, separated by single slashes (as the finder produces
  them); the functions of \<^verbatim>\<open>std::path\<close> are defined on such strings.  What is on disk is the
  argument \<open>is_file\<close>.  A hash map that is filled and then iterated over is an association list in
  the order of the first insertions.
\<close>

section \<open>Paths\<close>

definition slash :: char where "slash = CHR 0x2F"
definition backslash :: char where "backslash = CHR 0x5C"

definition file_name :: "rstr \<Rightarrow> rstr option" where
  "file_name path =
     (let name = List.last (split_on slash path) in
      if name = [] \<or> name = ''..'' then None else Some name)"

definition parent :: "rstr \<Rightarrow> rstr option" where
  "parent path =
     (let segments = split_on slash path in
      if path = [] \<or> path = [slash] then None
      else if length segments = 1 then Some []
      else if butlast segments = [[]] then Some [slash]
      else Some (join [slash] (butlast segments)))"

text \<open>The part before the last dot and the part after it; a leading dot alone does not split.\<close>

definition rsplit_at_dot :: "rstr \<Rightarrow> rstr option \<times> rstr option" where
  "rsplit_at_dot name =
     (let pieces = split_on (CHR 0x2E) name in
      if length pieces = 1 \<or> butlast pieces = [[]] then (Some name, None)
      else (Some (join [CHR 0x2E] (butlast pieces)), Some (List.last pieces)))"

definition file_stem :: "rstr \<Rightarrow> rstr option" where
  "file_stem path = (case file_name path of None \<Rightarrow> None | Some name \<Rightarrow> fst (rsplit_at_dot name))"

definition extension :: "rstr \<Rightarrow> rstr option" where
  "extension path = (case file_name path of None \<Rightarrow> None | Some name \<Rightarrow> snd (rsplit_at_dot name))"

definition path_join :: "rstr \<Rightarrow> rstr \<Rightarrow> rstr" where
  "path_join dir name = (if dir = [] \<or> List.last dir = slash then dir @ name else dir @ [slash] @ name)"

section \<open>Roles\<close>

definition header_extensions :: "rstr list" where
  "header_extensions = [''h'', ''hh'', ''hpp'', ''hxx'', ''ipp'', ''inl'']"

definition implementation_extensions :: "rstr list" where
  "implementation_extensions = [''c'', ''cc'', ''cpp'', ''cxx'']"

definition header_dir_names :: "rstr list" where
  "header_dir_names = [''include'', ''inc'']"

definition source_dir_names :: "rstr list" where
  "source_dir_names = [''src'', ''source'']"

definition is_header_extension :: "rstr \<Rightarrow> bool" where
  "is_header_extension ext = list_ex (\<lambda>e. eq_ignore_ascii_case e ext) header_extensions"

definition is_implementation_extension :: "rstr \<Rightarrow> bool" where
  "is_implementation_extension ext = list_ex (\<lambda>e. eq_ignore_ascii_case e ext) implementation_extensions"

datatype file_role = HeaderRole | ImplementationRole

definition role_for_path :: "rstr \<Rightarrow> file_role option" where
  "role_for_path path =
     (case map_option to_ascii_lowercase (extension path) of
        None \<Rightarrow> None
      | Some ext \<Rightarrow>
          if ext \<in> set header_extensions then Some HeaderRole
          else if ext \<in> set implementation_extensions then Some ImplementationRole
          else None)"

section \<open>Keys\<close>

definition normalize_path :: "rstr \<Rightarrow> rstr" where
  "normalize_path path = map (\<lambda>c. if c = backslash then slash else c) path"

fun replace_first_unit :: "rstr list \<Rightarrow> rstr list" where
  "replace_first_unit [] = []"
| "replace_first_unit (segment # segments) =
     (if to_ascii_lowercase segment \<in> {''include'', ''inc'', ''src'', ''source''}
      then ''__unit__'' # segments else segment # replace_first_unit segments)"

definition canonical_parent_key :: "rstr \<Rightarrow> rstr" where
  "canonical_parent_key path =
     (let normalized = normalize_path path in
      if normalized = [] then normalized
      else join [slash] (replace_first_unit (split_on slash normalized)))"

definition unit_key :: "rstr \<Rightarrow> rstr" where
  "unit_key path =
     (let parent_key = unwrap_or (map_option canonical_parent_key (parent path)) [];
          stem = to_ascii_lowercase (unwrap_or (file_stem path) [])
      in if stem = [] then normalize_path path
         else if parent_key = [] then stem
         else parent_key @ [slash] @ stem)"

section \<open>Companions on disk\<close>

datatype file_unit_kind = Paired | HeaderOnly | ImplementationOnly

definition push_new :: "'a \<Rightarrow> 'a list \<Rightarrow> 'a list" where
  "push_new x xs = (if x \<in> set xs then xs else xs @ [x])"

definition dir_replacements :: "rstr \<Rightarrow> rstr list" where
  "dir_replacements segment =
     (let lower = to_ascii_lowercase segment in
      if list_ex (\<lambda>d. eq_ignore_ascii_case d lower) header_dir_names then source_dir_names
      else if list_ex (\<lambda>d. eq_ignore_ascii_case d lower) source_dir_names then header_dir_names
      else [])"

definition candidate_parent_dirs :: "rstr \<Rightarrow> rstr list" where
  "candidate_parent_dirs dir =
     (let parent_key = normalize_path dir in
      if parent_key = [] then [dir]
      else
        let segments = split_on slash parent_key in
        fold (\<lambda>index candidates.
            fold (\<lambda>replacement candidates.
                push_new (join [slash] (segments[index := replacement])) candidates)
              (dir_replacements (segments ! index)) candidates)
          [0..<length segments] [dir])"

definition paired_companion_paths_on_disk :: "(rstr \<Rightarrow> bool) \<Rightarrow> rstr \<Rightarrow> rstr list" where
  "paired_companion_paths_on_disk is_file path =
     (case file_stem path of
        None \<Rightarrow> []
      | Some stem \<Rightarrow>
          (case role_for_path path of
             None \<Rightarrow> []
           | Some role \<Rightarrow>
               let companion_exts = (case role of HeaderRole \<Rightarrow> implementation_extensions
                                                | ImplementationRole \<Rightarrow> header_extensions)
               in case parent path of
                    None \<Rightarrow> []
                  | Some dir \<Rightarrow>
                      fold (\<lambda>parent_dir results.
                          fold (\<lambda>ext results.
                              let candidate = path_join parent_dir (stem @ ''.'' @ ext) in
                              if is_file candidate then push_new candidate results else results)
                            companion_exts results)
                        (candidate_parent_dirs dir) []))"

definition classify_on_disk :: "(rstr \<Rightarrow> bool) \<Rightarrow> rstr \<Rightarrow> file_unit_kind" where
  "classify_on_disk is_file path =
     (case role_for_path path of
        Some HeaderRole \<Rightarrow> if paired_companion_paths_on_disk is_file path \<noteq> [] then Paired else HeaderOnly
      | Some ImplementationRole \<Rightarrow>
          if paired_companion_paths_on_disk is_file path \<noteq> [] then Paired else ImplementationOnly
      | None \<Rightarrow> ImplementationOnly)"

section \<open>The layout of a set of paths\<close>

record file_unit_accumulator =
  fa_paths :: "rstr list"
  fa_has_header :: bool
  fa_has_implementation :: bool

record file_unit_descriptor =
  fd_kind :: file_unit_kind
  fd_group_key :: rstr

type_synonym file_unit_layout = "rstr \<rightharpoonup> file_unit_descriptor"

definition add_path ::
    "rstr \<Rightarrow> (rstr \<times> file_unit_accumulator) list \<Rightarrow> (rstr \<times> file_unit_accumulator) list" where
  "add_path path groups =
     entry_update (unit_key path) \<lparr>fa_paths = [], fa_has_header = False, fa_has_implementation = False\<rparr>
       (\<lambda>entry.
          let entry = entry\<lparr>fa_paths := fa_paths entry @ [normalize_path path]\<rparr> in
          case role_for_path path of
            Some HeaderRole \<Rightarrow> entry\<lparr>fa_has_header := True\<rparr>
          | Some ImplementationRole \<Rightarrow> entry\<lparr>fa_has_implementation := True\<rparr>
          | None \<Rightarrow> entry\<lparr>fa_has_implementation := True\<rparr>)
       groups"

definition group_kind :: "file_unit_accumulator \<Rightarrow> file_unit_kind" where
  "group_kind acc =
     (if fa_has_header acc \<and> fa_has_implementation acc then Paired
      else if fa_has_header acc then HeaderOnly
      else ImplementationOnly)"

definition describe_group :: "rstr \<times> file_unit_accumulator \<Rightarrow> file_unit_layout \<Rightarrow> file_unit_layout" where
  "describe_group = (\<lambda>(key, acc) descriptors.
     fold (\<lambda>path_key descriptors.
         descriptors(path_key \<mapsto>
           \<lparr>fd_kind = group_kind acc,
            fd_group_key = (if group_kind acc = Paired then key else path_key)\<rparr>))
       (fa_paths acc) descriptors)"

definition layout_from_paths :: "rstr list \<Rightarrow> file_unit_layout" where
  "layout_from_paths paths = fold describe_group (fold add_path paths []) Map.empty"

definition kind_for_path :: "(rstr \<Rightarrow> bool) \<Rightarrow> file_unit_layout \<Rightarrow> rstr \<Rightarrow> file_unit_kind" where
  "kind_for_path is_file layout path =
     (case layout (normalize_path path) of
        Some descriptor \<Rightarrow> fd_kind descriptor | None \<Rightarrow> classify_on_disk is_file path)"

definition group_key_for_path :: "file_unit_layout \<Rightarrow> rstr \<Rightarrow> rstr" where
  "group_key_for_path layout path =
     (case layout (normalize_path path) of
        Some descriptor \<Rightarrow> fd_group_key descriptor | None \<Rightarrow> normalize_path path)"

section \<open>What the layout says\<close>

definition has_header_in :: "rstr list \<Rightarrow> rstr \<Rightarrow> bool" where
  "has_header_in paths key = list_ex (\<lambda>p. unit_key p = key \<and> role_for_path p = Some HeaderRole) paths"

definition has_implementation_in :: "rstr list \<Rightarrow> rstr \<Rightarrow> bool" where
  "has_implementation_in paths key = list_ex (\<lambda>p. unit_key p = key \<and> role_for_path p \<noteq> Some HeaderRole) paths"

definition unit_of :: "rstr list \<Rightarrow> rstr \<Rightarrow> file_unit_accumulator" where
  "unit_of paths key =
     \<lparr>fa_paths = map normalize_path (filter (\<lambda>p. unit_key p = key) paths),
      fa_has_header = has_header_in paths key, fa_has_implementation = has_implementation_in paths key\<rparr>"

lemma unit_of_none: "key \<notin> unit_key ` set paths
    \<Longrightarrow> unit_of paths key = \<lparr>fa_paths = [], fa_has_header = False, fa_has_implementation = False\<rparr>"
  by (auto simp: unit_of_def has_header_in_def has_implementation_in_def list_ex_iff filter_empty_conv)

definition empty_unit :: file_unit_accumulator where
  "empty_unit = \<lparr>fa_paths = [], fa_has_header = False, fa_has_implementation = False\<rparr>"

lemma unit_of_snoc:
  "unit_of (paths @ [p]) (unit_key p) =
     (let entry = unit_of paths (unit_key p); entry = entry\<lparr>fa_paths := fa_paths entry @ [normalize_path p]\<rparr> in
      case role_for_path p of
        Some HeaderRole \<Rightarrow> entry\<lparr>fa_has_header := True\<rparr>
      | Some ImplementationRole \<Rightarrow> entry\<lparr>fa_has_implementation := True\<rparr>
      | None \<Rightarrow> entry\<lparr>fa_has_implementation := True\<rparr>)"
  by (auto simp: unit_of_def has_header_in_def has_implementation_in_def Let_def
      split: file_role.split option.split)

lemma add_path_at:
  assumes "map_of groups (unit_key p) = None \<longrightarrow> unit_of paths (unit_key p) = empty_unit"
    and "\<And>acc. map_of groups (unit_key p) = Some acc \<Longrightarrow> acc = unit_of paths (unit_key p)"
  shows "map_of (add_path p groups) key =
    (if key = unit_key p then Some (unit_of (paths @ [p]) (unit_key p)) else map_of groups key)"
proof -
  have u: "unwrap_or (map_of groups (unit_key p)) empty_unit = unit_of paths (unit_key p)"
    using assms by (cases "map_of groups (unit_key p)") auto
  show ?thesis
    unfolding add_path_def map_of_entry_update unit_of_snoc Let_def empty_unit_def [symmetric] u ..
qed

lemma groups_spec:
  "distinct (map fst (fold add_path paths []))"
  "map_of (fold add_path paths []) key = (if key \<in> unit_key ` set paths then Some (unit_of paths key) else None)"
proof (induction paths arbitrary: key rule: rev_induct)
  case (snoc p paths)
  let ?G = "fold add_path paths []"
  have G: "map_of ?G key = (if key \<in> unit_key ` set paths then Some (unit_of paths key) else None)" for key
    by (rule snoc)
  note add = add_path_at [of ?G p paths]
  {
    case 1
    show ?case using snoc(1) by (simp add: add_path_def [of p])
  next
    case 2
    have "map_of (add_path p ?G) key =
      (if key = unit_key p then Some (unit_of (paths @ [p]) (unit_key p)) else map_of ?G key)"
      by (rule add) (auto simp: G unit_of_none empty_unit_def split: if_splits)
    moreover have "unit_of (paths @ [p]) key = unit_of paths key" if "key \<noteq> unit_key p"
      using that by (auto simp: unit_of_def has_header_in_def has_implementation_in_def)
    ultimately show ?case by (auto simp: G)
  }
qed simp_all

lemma describe_one:
  "fold (\<lambda>path_key m. m(path_key \<mapsto> D path_key)) paths m x = (if x \<in> set paths then Some (D x) else m x)"
  by (induction paths arbitrary: m) auto

lemma describe_group_at:
  "describe_group (key, acc) m x =
     (if x \<in> set (fa_paths acc)
      then Some \<lparr>fd_kind = group_kind acc, fd_group_key = (if group_kind acc = Paired then key else x)\<rparr>
      else m x)"
  by (simp add: describe_group_def describe_one [where D = "\<lambda>path_key.
        \<lparr>fd_kind = group_kind acc, fd_group_key = (if group_kind acc = Paired then key else path_key)\<rparr>"])

lemma describe_groups_at:
  assumes "\<forall>(k, a) \<in> set groups. x \<in> set (fa_paths a) \<longrightarrow> k = key" "distinct (map fst groups)"
    and "(key, acc) \<in> set groups" "x \<in> set (fa_paths acc)"
  shows "fold describe_group groups m x =
    Some \<lparr>fd_kind = group_kind acc, fd_group_key = (if group_kind acc = Paired then key else x)\<rparr>"
  using assms
proof (induction groups arbitrary: m rule: rev_induct)
  case (snoc g groups)
  obtain k a where g: "g = (k, a)" by force
  show ?case
  proof (cases "k = key")
    case True
    have "a = acc"
      using snoc.prems(2,3) g True by (auto simp: rev_image_eqI)
    with snoc.prems(4) True show ?thesis by (simp add: g describe_group_at)
  next
    case False
    with snoc.prems g have "x \<notin> set (fa_paths a)" "(key, acc) \<in> set groups" by auto
    with snoc show ?thesis by (simp add: g describe_group_at)
  qed
qed simp

lemma normalize_plain: "backslash \<notin> set p \<Longrightarrow> normalize_path p = p"
  unfolding normalize_path_def by (rule map_idI) auto

lemma layout_at:
  assumes "\<forall>q \<in> set paths. backslash \<notin> set q" "p \<in> set paths"
  shows "layout_from_paths paths p =
    Some \<lparr>fd_kind = group_kind (unit_of paths (unit_key p)),
          fd_group_key = (if group_kind (unit_of paths (unit_key p)) = Paired then unit_key p else p)\<rparr>"
  unfolding layout_from_paths_def
proof (rule describe_groups_at)
  have m: "(k, a) \<in> set (fold add_path paths []) \<longleftrightarrow> k \<in> unit_key ` set paths \<and> a = unit_of paths k" for k a
    using map_of_eq_Some_iff [OF groups_spec(1), of paths k a] by (auto simp: groups_spec(2) split: if_splits)
  have paths: "set (fa_paths (unit_of paths k)) = {q \<in> set paths. unit_key q = k}" for k
    using assms(1) by (auto simp: unit_of_def normalize_plain image_iff)
  show "\<forall>(k, a) \<in> set (fold add_path paths []). p \<in> set (fa_paths a) \<longrightarrow> k = unit_key p"
    by (auto simp: m paths)
  show "(unit_key p, unit_of paths (unit_key p)) \<in> set (fold add_path paths [])"
    using assms(2) by (simp add: m)
  show "p \<in> set (fa_paths (unit_of paths (unit_key p)))" using assms(2) by (simp add: paths)
qed (rule groups_spec)

text \<open>
  The layout pairs files as intended: a file of the run is paired exactly when the run
  has a header and an implementation with its unit key, and paired files share that key as their
  group; any other file is a group of its own.
\<close>

theorem layout_pairs_files:
  assumes "list_all (\<lambda>q. backslash \<notin> set q) paths" "p \<in> set paths"
  shows "kind_for_path is_file (layout_from_paths paths) p =
      (if has_header_in paths (unit_key p)
       then if has_implementation_in paths (unit_key p) then Paired else HeaderOnly
       else ImplementationOnly)
    \<and> group_key_for_path (layout_from_paths paths) p =
      (if has_header_in paths (unit_key p) \<and> has_implementation_in paths (unit_key p) then unit_key p else p)"
proof -
  have b: "\<forall>q \<in> set paths. backslash \<notin> set q" using assms(1) by (simp add: list_all_iff)
  with assms(2) have "normalize_path p = p" by (simp add: normalize_plain)
  then show ?thesis
    by (simp add: kind_for_path_def group_key_for_path_def layout_at [OF b assms(2)] group_kind_def unit_of_def)
qed

theorem layout_pairs_files_witness:
  "kind_for_path (\<lambda>_. False) (layout_from_paths [''include/Foo.hpp'', ''src/foo.cpp'', ''src/bar.cpp'']) ''src/foo.cpp''
     = (if has_header_in [''include/Foo.hpp'', ''src/foo.cpp'', ''src/bar.cpp''] (unit_key ''src/foo.cpp'')
        then if has_implementation_in [''include/Foo.hpp'', ''src/foo.cpp'', ''src/bar.cpp''] (unit_key ''src/foo.cpp'')
             then Paired else HeaderOnly
        else ImplementationOnly)
   \<and> group_key_for_path (layout_from_paths [''include/Foo.hpp'', ''src/foo.cpp'', ''src/bar.cpp'']) ''src/foo.cpp''
     = (if has_header_in [''include/Foo.hpp'', ''src/foo.cpp'', ''src/bar.cpp''] (unit_key ''src/foo.cpp'')
           \<and> has_implementation_in [''include/Foo.hpp'', ''src/foo.cpp'', ''src/bar.cpp''] (unit_key ''src/foo.cpp'')
        then unit_key ''src/foo.cpp'' else ''src/foo.cpp'')"
  by (rule layout_pairs_files) (simp_all add: backslash_def)

lemma sample_pair:
  "has_header_in [''include/Foo.hpp'', ''src/foo.cpp'', ''src/bar.cpp''] (unit_key ''src/foo.cpp'')"
  "has_implementation_in [''include/Foo.hpp'', ''src/foo.cpp'', ''src/bar.cpp''] (unit_key ''src/foo.cpp'')"
  "unit_key ''src/foo.cpp'' = ''__unit__/foo''"
  by code_simp+

end
