(* ===== verification/Ts_Tree.thy ===== *)
theory Ts_Tree
  imports Rust_Str Complex_Main
begin

text \<open>
  \<^verbatim>\<open>src/src/parser/ts_traversal.rs\<close>: walks over a syntax tree.

  A tree-sitter tree is a datatype here: a node has its kind, its extent, its flags, the field it
  has in its parent, and its children in order.  A cursor is a node with the stack of its
  ancestors, each with the siblings still to the right; that is what \<^verbatim>\<open>TreeCursor\<close> offers.  The
  loops of the code are functions over cursors and are shown to visit what a recursive traversal
  visits.  Queries that cannot be compiled are not modelled: a query for one node kind gives the
  nodes of that kind.
\<close>

section \<open>Trees and cursors\<close>

datatype ts_node =
  TsNode (nd_kind: nat) (nd_start_byte: nat) (nd_end_byte: nat) (nd_start_row: nat) (nd_end_row: nat)
    (nd_is_error: bool) (nd_is_missing: bool) (nd_is_named: bool) (nd_field: "nat option")
    (nd_children: "ts_node list")

text \<open>The nodes of a tree in the order of a depth-first walk.\<close>

fun preorder :: "ts_node \<Rightarrow> ts_node list" where
  "preorder (TsNode k s e r r' err miss named field children) =
     TsNode k s e r r' err miss named field children # concat (map preorder children)"

definition has_error :: "ts_node \<Rightarrow> bool" where
  "has_error node = list_ex (\<lambda>n. nd_is_error n \<or> nd_is_missing n) (preorder node)"

type_synonym ts_cursor = "ts_node \<times> (ts_node \<times> ts_node list) list"

definition walk :: "ts_node \<Rightarrow> ts_cursor" where
  "walk node = (node, [])"

definition goto_first_child :: "ts_cursor \<Rightarrow> ts_cursor option" where
  "goto_first_child = (\<lambda>(node, stack).
     case nd_children node of [] \<Rightarrow> None | child # siblings \<Rightarrow> Some (child, (node, siblings) # stack))"

definition goto_next_sibling :: "ts_cursor \<Rightarrow> ts_cursor option" where
  "goto_next_sibling = (\<lambda>(node, stack).
     case stack of
       (up, sibling # siblings) # rest \<Rightarrow> Some (sibling, (up, siblings) # rest)
     | _ \<Rightarrow> None)"

definition goto_parent :: "ts_cursor \<Rightarrow> ts_cursor option" where
  "goto_parent = (\<lambda>(node, stack). case stack of [] \<Rightarrow> None | (up, _) # rest \<Rightarrow> Some (up, rest))"

text \<open>The inner loop of every walk: up until there is a sibling to the right.\<close>

function climb :: "ts_cursor \<Rightarrow> ts_cursor option" where
  "climb c =
     (case goto_parent c of
        None \<Rightarrow> None
      | Some up \<Rightarrow> (case goto_next_sibling up of Some nxt \<Rightarrow> Some nxt | None \<Rightarrow> climb up))"
  by pat_completeness auto
termination
  by (relation "measure (\<lambda>c. length (snd c))") (auto simp: goto_parent_def split: list.splits)

declare climb.simps [simp del]

definition skip_subtree :: "ts_cursor \<Rightarrow> ts_cursor option" where
  "skip_subtree c = (case goto_next_sibling c of Some nxt \<Rightarrow> Some nxt | None \<Rightarrow> climb c)"

definition advance :: "ts_cursor \<Rightarrow> ts_cursor option" where
  "advance c = (case goto_first_child c of Some nxt \<Rightarrow> Some nxt | None \<Rightarrow> skip_subtree c)"

section \<open>What is left of a walk\<close>

text \<open>The trees a cursor has still to visit, its own first.\<close>

definition pending :: "ts_cursor \<Rightarrow> ts_node list" where
  "pending c = fst c # concat (map snd (snd c))"

definition left_over :: "ts_cursor option \<Rightarrow> ts_node list" where
  "left_over nxt = (case nxt of None \<Rightarrow> [] | Some c \<Rightarrow> pending c)"

lemma left_over_simps [simp]: "left_over None = []" "left_over (Some c) = pending c"
  by (simp_all add: left_over_def)

lemma left_over_climb: "left_over (climb c) = concat (map snd (tl (snd c)))"
proof (induction c rule: climb.induct)
  case (1 c)
  obtain node stack where c: "c = (node, stack)" by force
  show ?case
  proof (cases stack)
    case Nil
    then show ?thesis unfolding c by (subst climb.simps) (simp add: goto_parent_def)
  next
    case (Cons top rest)
    obtain up siblings where top: "top = (up, siblings)" by force
    have up: "goto_parent c = Some (up, rest)" by (simp add: c Cons top goto_parent_def)
    show ?thesis
    proof (cases "goto_next_sibling (up, rest)")
      case None
      with 1 up have "left_over (climb (up, rest)) = concat (map snd (tl rest))" by simp
      moreover have "concat (map snd rest) = concat (map snd (tl rest))"
        using None by (cases rest) (auto simp: goto_next_sibling_def split: list.splits)
      ultimately show ?thesis using None up Cons by (subst climb.simps) (simp add: c)
    next
      case (Some nxt)
      then have "left_over (climb c) = pending nxt" using up by (subst climb.simps) simp
      with Some show ?thesis by (auto simp: c Cons goto_next_sibling_def pending_def split: list.splits)
    qed
  qed
qed

lemma left_over_skip: "left_over (skip_subtree c) = tl (pending c)"
proof (cases "goto_next_sibling c")
  case None
  then have "concat (map snd (tl (snd c))) = concat (map snd (snd c))"
    by (cases c; cases "snd c") (auto simp: goto_next_sibling_def split: list.splits)
  with None show ?thesis by (simp add: skip_subtree_def left_over_climb pending_def)
next
  case (Some nxt)
  then show ?thesis
    by (cases c) (auto simp: skip_subtree_def goto_next_sibling_def pending_def split: list.splits)
qed

lemma left_over_advance: "left_over (advance c) = nd_children (fst c) @ tl (pending c)"
proof (cases "nd_children (fst c)")
  case Nil
  then show ?thesis
    by (cases c) (simp add: advance_def goto_first_child_def left_over_skip)
next
  case (Cons child siblings)
  then show ?thesis
    by (cases c) (simp add: advance_def goto_first_child_def pending_def)
qed

lemma pending_Cons: "pending c = fst c # tl (pending c)"
  by (simp add: pending_def)

fun node_count :: "ts_node \<Rightarrow> nat" where
  "node_count (TsNode k s e r r' err miss named field children) = Suc (sum_list (map node_count children))"

lemma node_count_eq: "node_count n = Suc (sum_list (map node_count (nd_children n)))"
  by (cases n) simp

definition work :: "ts_cursor \<Rightarrow> nat" where
  "work c = sum_list (map node_count (pending c))"

lemma work_left_over: "work c' = sum_list (map node_count (left_over (Some c')))"
  by (simp add: work_def)

lemma work_Cons: "work c = node_count (fst c) + sum_list (map node_count (tl (pending c)))"
  by (simp add: work_def pending_def)

lemma work_skip:
  assumes "skip_subtree c = Some c'"
  shows "work c' < work c"
proof -
  have "pending c' = tl (pending c)" using left_over_skip [of c] assms by simp
  then show ?thesis unfolding work_Cons [of c] by (simp add: work_def node_count_eq [of "fst c"])
qed

lemma work_advance:
  assumes "advance c = Some c'"
  shows "work c' < work c"
proof -
  have "pending c' = nd_children (fst c) @ tl (pending c)" using left_over_advance [of c] assms by simp
  then show ?thesis unfolding work_Cons [of c] by (simp add: work_def node_count_eq [of "fst c"])
qed

section \<open>The walks of the code\<close>

text \<open>The depth-first loop: every node of a kind in the list is processed.\<close>

function traverse_loop :: "nat list \<Rightarrow> (ts_node \<Rightarrow> 's \<Rightarrow> 's) \<Rightarrow> ts_cursor \<Rightarrow> 's \<Rightarrow> 's" where
  "traverse_loop fallback_ids process c s =
     (let s = (if nd_kind (fst c) \<in> set fallback_ids then process (fst c) s else s)
      in case advance c of None \<Rightarrow> s | Some nxt \<Rightarrow> traverse_loop fallback_ids process nxt s)"
  by pat_completeness auto
termination by (relation "measure (\<lambda>(ids, process, c, s). work c)") (auto dest: work_advance)

declare traverse_loop.simps [simp del]

definition traverse :: "ts_node \<Rightarrow> nat list \<Rightarrow> (ts_node \<Rightarrow> 's \<Rightarrow> 's) \<Rightarrow> 's \<Rightarrow> 's" where
  "traverse tree fallback_ids process s = traverse_loop fallback_ids process (walk tree) s"

function first_loop :: "nat list \<Rightarrow> nat list \<Rightarrow> ts_cursor \<Rightarrow> ts_node option" where
  "first_loop target_ids stop_ids c =
     (if nd_kind (fst c) \<in> set target_ids then Some (fst c)
      else case (if nd_kind (fst c) \<notin> set stop_ids then advance c else skip_subtree c) of
             None \<Rightarrow> None
           | Some nxt \<Rightarrow> first_loop target_ids stop_ids nxt)"
  by pat_completeness auto
termination
  by (relation "measure (\<lambda>(targets, stops, c). work c)") (auto dest: work_advance work_skip split: if_splits)

declare first_loop.simps [simp del]

definition first_descendant :: "ts_node \<Rightarrow> nat list \<Rightarrow> nat list \<Rightarrow> ts_node option" where
  "first_descendant node target_ids stop_ids = first_loop target_ids stop_ids (walk node)"

text \<open>The root is the node of the cursor without ancestors.\<close>

function first_below_loop :: "nat list \<Rightarrow> nat list \<Rightarrow> ts_cursor \<Rightarrow> ts_node option" where
  "first_below_loop target_ids stop_ids c =
     (let is_root = (snd c = []) in
      if \<not> is_root \<and> nd_kind (fst c) \<in> set target_ids then Some (fst c)
      else case (if \<not> is_root \<and> nd_kind (fst c) \<in> set stop_ids then skip_subtree c else advance c) of
             None \<Rightarrow> None
           | Some nxt \<Rightarrow> first_below_loop target_ids stop_ids nxt)"
  by pat_completeness auto
termination
  by (relation "measure (\<lambda>(targets, stops, c). work c)") (auto dest: work_advance work_skip split: if_splits)

declare first_below_loop.simps [simp del]

definition first_descendant_excluding_root :: "ts_node \<Rightarrow> nat list \<Rightarrow> nat list \<Rightarrow> ts_node option" where
  "first_descendant_excluding_root node target_ids stop_ids = first_below_loop target_ids stop_ids (walk node)"

function rightmost_loop :: "nat list \<Rightarrow> nat list \<Rightarrow> ts_cursor \<Rightarrow> ts_node option \<Rightarrow> ts_node option" where
  "rightmost_loop target_ids stop_ids c best =
     (let best_start = (case best of None \<Rightarrow> 0 | Some b \<Rightarrow> nd_start_byte b);
          best = (if nd_kind (fst c) \<in> set target_ids
                    \<and> (best = None \<or> nd_start_byte (fst c) \<ge> best_start)
                  then Some (fst c) else best)
      in case (if nd_kind (fst c) \<notin> set stop_ids then advance c else skip_subtree c) of
           None \<Rightarrow> best
         | Some nxt \<Rightarrow> rightmost_loop target_ids stop_ids nxt best)"
  by pat_completeness auto
termination
  by (relation "measure (\<lambda>(targets, stops, c, best). work c)")
    (auto dest: work_advance work_skip split: if_splits)

declare rightmost_loop.simps [simp del]

definition rightmost_descendant :: "ts_node \<Rightarrow> nat list \<Rightarrow> nat list \<Rightarrow> ts_node option" where
  "rightmost_descendant node target_ids stop_ids = rightmost_loop target_ids stop_ids (walk node) None"

definition first_child_by_kind :: "ts_node \<Rightarrow> nat \<Rightarrow> ts_node option" where
  "first_child_by_kind node kind_id = find (\<lambda>child. nd_kind child = kind_id) (filter nd_is_named (nd_children node))"

section \<open>Errors in a tree\<close>

record tree_error_stats =
  te_total_nodes :: nat
  te_error_nodes :: nat
  te_error_lines :: "nat set"

definition error_ratio :: "tree_error_stats \<Rightarrow> real" where
  "error_ratio stats =
     (if te_total_nodes stats = 0 then 0
      else min (max (real (te_error_nodes stats) / real (te_total_nodes stats)) 0) 1)"

definition sat_usize :: "nat \<Rightarrow> nat" where
  "sat_usize n = min n (2 ^ 64 - 1)"

function count_loop :: "ts_cursor \<Rightarrow> nat \<Rightarrow> nat" where
  "count_loop c count =
     (let count = sat_usize (count + 1)
      in case advance c of None \<Rightarrow> count | Some nxt \<Rightarrow> count_loop nxt count)"
  by pat_completeness auto
termination by (relation "measure (\<lambda>(c, count). work c)") (auto dest: work_advance)

declare count_loop.simps [simp del]

definition count_nodes :: "ts_node \<Rightarrow> nat" where
  "count_nodes tree = count_loop (walk tree) 0"

function missing_loop :: "ts_cursor \<Rightarrow> nat \<Rightarrow> nat set \<Rightarrow> nat \<times> nat set" where
  "missing_loop c error_nodes error_lines =
     (let (error_nodes, error_lines) =
            (if nd_is_missing (fst c)
             then (sat_usize (error_nodes + 1), insert (sat_usize (nd_start_row (fst c) + 1)) error_lines)
             else (error_nodes, error_lines))
      in case advance c of
           None \<Rightarrow> (error_nodes, error_lines)
         | Some nxt \<Rightarrow> missing_loop nxt error_nodes error_lines)"
  by pat_completeness auto
termination by (relation "measure (\<lambda>(c, nodes, lines). work c)") (auto dest: work_advance)

declare missing_loop.simps [simp del]

text \<open>The captures of the query \<^verbatim>\<open>(ERROR) @e\<close> are the error nodes.\<close>

definition tree_error_stats :: "ts_node \<Rightarrow> tree_error_stats" where
  "tree_error_stats tree =
     (let total_nodes = count_nodes tree in
      if \<not> has_error tree
      then \<lparr>te_total_nodes = total_nodes, te_error_nodes = 0, te_error_lines = {}\<rparr>
      else
        let (error_nodes, error_lines) =
              fold (\<lambda>node (nodes, lines).
                  (sat_usize (nodes + 1), insert (sat_usize (nd_start_row node + 1)) lines))
                (filter nd_is_error (preorder tree)) (0, {});
            (error_nodes, error_lines) = missing_loop (walk tree) error_nodes error_lines
        in \<lparr>te_total_nodes = total_nodes, te_error_nodes = error_nodes, te_error_lines = error_lines\<rparr>)"

section \<open>The name in a declarator\<close>

text \<open>
  Down the declarator fields to an identifier, or to an identifier among the named children where
  the chain ends.  The field and the identifier kinds are those of the generated grammar.
\<close>

definition child_by_field_id :: "ts_node \<Rightarrow> nat \<Rightarrow> ts_node option" where
  "child_by_field_id node field = find (\<lambda>child. nd_field child = Some field) (nd_children node)"

lemma child_smaller: "child_by_field_id node field = Some child \<Longrightarrow> node_count child < node_count node"
  by (auto simp: child_by_field_id_def find_Some_iff node_count_eq [of node]
      intro!: le_imp_less_Suc member_le_sum_list)

function declarator_loop :: "nat \<Rightarrow> (nat \<Rightarrow> bool) \<Rightarrow> ts_node \<Rightarrow> ts_node option" where
  "declarator_loop field_declarator is_identifier_like current =
     (if is_identifier_like (nd_kind current) then Some current
      else case child_by_field_id current field_declarator of
             Some child \<Rightarrow> declarator_loop field_declarator is_identifier_like child
           | None \<Rightarrow> find (\<lambda>child. is_identifier_like (nd_kind child)) (filter nd_is_named (nd_children current)))"
  by pat_completeness auto
termination
  by (relation "measure (\<lambda>(field, like, node). node_count node)") (auto dest: child_smaller)

declare declarator_loop.simps [simp del]

definition declarator_identifier :: "nat \<Rightarrow> (nat \<Rightarrow> bool) \<Rightarrow> ts_node \<Rightarrow> ts_node option" where
  "declarator_identifier field_declarator is_identifier_like decl_node =
     (case child_by_field_id decl_node field_declarator of
        None \<Rightarrow> None
      | Some child \<Rightarrow> declarator_loop field_declarator is_identifier_like child)"

section \<open>What the walks visit\<close>

text \<open>A walk that does not go below the nodes of some kinds.\<close>

fun open_preorder :: "nat list \<Rightarrow> ts_node \<Rightarrow> ts_node list" where
  "open_preorder stop_ids (TsNode k s e r r' err miss named field children) =
     TsNode k s e r r' err miss named field children
       # (if k \<in> set stop_ids then [] else concat (map (open_preorder stop_ids) children))"

lemma preorder_eq: "preorder n = n # concat (map preorder (nd_children n))"
  by (cases n) simp

lemma open_preorder_eq:
  "open_preorder stops n = n # (if nd_kind n \<in> set stops then [] else concat (map (open_preorder stops) (nd_children n)))"
  by (cases n) simp

lemma open_preorder_all: "open_preorder [] n = preorder n"
  by (induction n rule: preorder.induct) (simp cong: map_cong)

definition visits :: "nat list \<Rightarrow> ts_node list \<Rightarrow> ts_node list" where
  "visits stops trees = concat (map (open_preorder stops) trees)"

lemma visits_pending:
  "visits stops (pending c) = fst c # visits stops (left_over
     (if nd_kind (fst c) \<notin> set stops then advance c else skip_subtree c))"
proof -
  have "visits stops (pending c) = open_preorder stops (fst c) @ visits stops (tl (pending c))"
    by (simp add: visits_def pending_def)
  then show ?thesis
    by (simp add: left_over_advance left_over_skip open_preorder_eq [of stops "fst c"] visits_def)
qed

lemma visits_advance: "visits [] (pending c) = fst c # visits [] (left_over (advance c))"
  using visits_pending [of "[]" c] by simp

lemma visits_walk [simp]: "visits stops (pending (walk n)) = open_preorder stops n"
  by (simp add: visits_def walk_def pending_def)

lemma visits_Nil [simp]: "visits stops [] = []"
  by (simp add: visits_def)

lemma traverse_loop_visits:
  "traverse_loop ids process c s = fold process (filter (\<lambda>n. nd_kind n \<in> set ids) (visits [] (pending c))) s"
proof (induction ids process c s rule: traverse_loop.induct)
  case (1 ids process c s)
  show ?case
  proof (cases "advance c")
    case None
    then show ?thesis by (subst traverse_loop.simps) (simp add: visits_advance)
  next
    case (Some nxt)
    with 1 [OF refl Some] show ?thesis by (subst traverse_loop.simps) (simp add: visits_advance [of c] Let_def)
  qed
qed

lemma count_loop_visits: "count_loop c count = sat_usize (count + length (visits [] (pending c)))"
proof (induction c count rule: count_loop.induct)
  case (1 c count)
  show ?case
  proof (cases "advance c")
    case None
    then show ?thesis by (subst count_loop.simps) (simp add: visits_advance)
  next
    case (Some nxt)
    have "count_loop c count = count_loop nxt (sat_usize (count + 1))"
      using Some by (subst count_loop.simps) (simp add: Let_def)
    also have "\<dots> = sat_usize (count + 1 + length (visits [] (pending nxt)))"
      unfolding 1 [OF refl Some] by (simp add: sat_usize_def)
    also have "count + 1 + length (visits [] (pending nxt)) = count + length (visits [] (pending c))"
      using visits_advance [of c] Some by simp
    finally show ?thesis .
  qed
qed

lemma first_loop_visits:
  "first_loop targets stops c = find (\<lambda>n. nd_kind n \<in> set targets) (visits stops (pending c))"
proof (induction targets stops c rule: first_loop.induct)
  case (1 targets stops c)
  define nxt where "nxt = (if nd_kind (fst c) \<notin> set stops then advance c else skip_subtree c)"
  note step = visits_pending [of stops c, folded nxt_def]
  show ?case
  proof (cases "nd_kind (fst c) \<in> set targets")
    case True
    then show ?thesis by (subst first_loop.simps) (simp add: step)
  next
    case False
    show ?thesis
    proof (cases nxt)
      case None
      then show ?thesis using False step by (subst first_loop.simps) (simp add: nxt_def [symmetric])
    next
      case (Some c')
      with 1 [OF False] have "first_loop targets stops c' = find (\<lambda>n. nd_kind n \<in> set targets) (visits stops (pending c'))"
        by (simp add: nxt_def)
      then show ?thesis using False step Some by (subst first_loop.simps) (simp add: nxt_def [symmetric])
    qed
  qed
qed

definition later_start :: "nat list \<Rightarrow> ts_node \<Rightarrow> ts_node option \<Rightarrow> ts_node option" where
  "later_start targets n best =
     (if nd_kind n \<in> set targets \<and> (case best of None \<Rightarrow> True | Some b \<Rightarrow> nd_start_byte b \<le> nd_start_byte n)
      then Some n else best)"

lemma rightmost_loop_visits:
  "rightmost_loop targets stops c best = fold (later_start targets) (visits stops (pending c)) best"
proof (induction targets stops c best rule: rightmost_loop.induct)
  case (1 targets stops c best)
  define nxt where "nxt = (if nd_kind (fst c) \<notin> set stops then advance c else skip_subtree c)"
  note step = visits_pending [of stops c, folded nxt_def]
  have best': "(if nd_kind (fst c) \<in> set targets
        \<and> (best = None \<or> nd_start_byte (fst c) \<ge> (case best of None \<Rightarrow> 0 | Some b \<Rightarrow> nd_start_byte b))
      then Some (fst c) else best) = later_start targets (fst c) best"
    by (cases best; simp add: later_start_def)
  have unfold: "rightmost_loop targets stops c best =
      (case nxt of None \<Rightarrow> later_start targets (fst c) best
       | Some c' \<Rightarrow> rightmost_loop targets stops c' (later_start targets (fst c) best))"
    by (subst rightmost_loop.simps)
      (cases best; simp add: later_start_def nxt_def [symmetric] Let_def cong: option.case_cong)
  show ?case
  proof (cases nxt)
    case None
    then show ?thesis using step unfold by simp
  next
    case (Some c')
    have "rightmost_loop targets stops c' (later_start targets (fst c) best)
        = fold (later_start targets) (visits stops (pending c')) (later_start targets (fst c) best)"
      using 1 [OF refl refl, of c'] Some unfolding best' by (simp add: nxt_def [symmetric])
    then show ?thesis using step unfold Some by simp
  qed
qed

text \<open>Below the root the walk without the root is the plain one.\<close>

lemma climb_below: "climb c = Some c' \<Longrightarrow> snd c' \<noteq> []"
proof (induction c rule: climb.induct)
  case (1 c)
  show ?case
  proof (cases "goto_parent c")
    case None
    then show ?thesis using 1 by (subst (asm) climb.simps) simp
  next
    case (Some up)
    then have c': "(case goto_next_sibling up of Some nxt \<Rightarrow> Some nxt | None \<Rightarrow> climb up) = Some c'"
      using 1(2) by (subst (asm) climb.simps) simp
    show ?thesis
    proof (cases "goto_next_sibling up")
      case None
      with 1(1) [OF Some None] c' show ?thesis by simp
    next
      case (Some nxt)
      with c' show ?thesis by (auto simp: goto_next_sibling_def split: prod.splits list.splits)
    qed
  qed
qed

lemma skip_below: "skip_subtree c = Some c' \<Longrightarrow> snd c' \<noteq> []"
  by (auto simp: skip_subtree_def goto_next_sibling_def split: option.splits prod.splits list.splits dest: climb_below)

lemma advance_below: "advance c = Some c' \<Longrightarrow> snd c' \<noteq> []"
  by (auto simp: advance_def goto_first_child_def split: option.splits prod.splits list.splits dest: skip_below)

lemma first_below_loop_below: "snd c \<noteq> [] \<Longrightarrow> first_below_loop targets stops c = first_loop targets stops c"
proof (induction targets stops c rule: first_loop.induct)
  case (1 targets stops c)
  define nxt where "nxt = (if nd_kind (fst c) \<notin> set stops then advance c else skip_subtree c)"
  show ?case
  proof (cases "nd_kind (fst c) \<in> set targets")
    case True
    then show ?thesis using 1(2) by (subst first_loop.simps, subst first_below_loop.simps) simp
  next
    case False
    have flip: "(if nd_kind (fst c) \<in> set stops then skip_subtree c else advance c) = nxt"
      by (simp add: nxt_def)
    have below: "nxt = Some c' \<Longrightarrow> snd c' \<noteq> []" for c'
      by (auto simp: nxt_def split: if_splits dest: advance_below skip_below)
    show ?thesis
    proof (cases nxt)
      case None
      then show ?thesis using False 1(2)
        by (subst first_loop.simps, subst first_below_loop.simps) (simp add: nxt_def [symmetric] flip)
    next
      case (Some c')
      with 1(1) [OF False, of c'] below have "first_below_loop targets stops c' = first_loop targets stops c'"
        by (simp add: nxt_def)
      then show ?thesis using False 1(2) Some
        by (subst first_loop.simps, subst first_below_loop.simps) (simp add: nxt_def [symmetric] flip)
    qed
  qed
qed

lemma first_below_walk:
  "first_below_loop targets stops (walk n) = find (\<lambda>n. nd_kind n \<in> set targets) (visits stops (nd_children n))"
proof (cases "advance (walk n)")
  case None
  moreover have "left_over (advance (walk n)) = nd_children n"
    by (simp add: left_over_advance) (simp add: walk_def pending_def)
  ultimately show ?thesis by (subst first_below_loop.simps) (simp add: walk_def)
next
  case (Some c)
  have "left_over (advance (walk n)) = nd_children n"
    by (simp add: left_over_advance) (simp add: walk_def pending_def)
  with Some have "pending c = nd_children n" by simp
  moreover have "first_below_loop targets stops (walk n) = first_below_loop targets stops c"
    using Some by (subst first_below_loop.simps) (simp add: walk_def)
  ultimately show ?thesis using first_below_loop_below [OF advance_below [OF Some]] by (simp add: first_loop_visits)
qed

text \<open>
  \<^bold>\<open>C27\<close>.  The cursor loops are the recursive traversals: the fallback walk processes every node
  of the wanted kinds in document order, the searches find the first (or the last starting)
  matching node of the part of the tree that is not behind a stop node, the root included or not,
  and the node count is exact up to saturation.
\<close>

theorem walks_are_traversals:
  "traverse tree ids process s = fold process (filter (\<lambda>n. nd_kind n \<in> set ids) (preorder tree)) s
   \<and> count_nodes tree = sat_usize (length (preorder tree))
   \<and> first_descendant tree targets stops = find (\<lambda>n. nd_kind n \<in> set targets) (open_preorder stops tree)
   \<and> first_descendant_excluding_root tree targets stops
       = find (\<lambda>n. nd_kind n \<in> set targets) (concat (map (open_preorder stops) (nd_children tree)))
   \<and> rightmost_descendant tree targets stops = fold (later_start targets) (open_preorder stops tree) None"
  by (simp add: traverse_def traverse_loop_visits count_nodes_def count_loop_visits first_descendant_def
      first_loop_visits first_descendant_excluding_root_def first_below_walk visits_def [of stops "nd_children tree"]
      rightmost_descendant_def rightmost_loop_visits open_preorder_all)

definition error_row :: "ts_node \<Rightarrow> nat" where
  "error_row n = sat_usize (nd_start_row n + 1)"

lemma error_fold:
  "fold (\<lambda>node (nodes, lines). (sat_usize (nodes + 1), insert (sat_usize (nd_start_row node + 1)) lines)) ns (k, lines)
     = (if ns = [] then k else sat_usize (k + length ns), error_row ` set ns \<union> lines)"
  by (induction ns arbitrary: k lines) (auto simp: sat_usize_def error_row_def)

lemma missing_loop_visits:
  "missing_loop c k lines =
     (let ms = filter nd_is_missing (visits [] (pending c))
      in (if ms = [] then k else sat_usize (k + length ms), error_row ` set ms \<union> lines))"
proof (induction c k lines rule: missing_loop.induct)
  case (1 c k lines)
  show ?case
  proof (cases "advance c")
    case None
    then show ?thesis by (subst missing_loop.simps) (simp add: visits_advance error_row_def)
  next
    case (Some nxt)
    define kl where "kl = (if nd_is_missing (fst c)
        then (sat_usize (k + 1), insert (sat_usize (nd_start_row (fst c) + 1)) lines) else (k, lines))"
    have "missing_loop c k lines = missing_loop nxt (fst kl) (snd kl)"
      using Some by (subst missing_loop.simps) (simp add: kl_def [symmetric] case_prod_unfold)
    also have "\<dots> = (let ms = filter nd_is_missing (visits [] (pending nxt))
        in (if ms = [] then fst kl else sat_usize (fst kl + length ms), error_row ` set ms \<union> snd kl))"
      by (rule 1 [OF refl _ Some]) (simp add: kl_def)
    finally show ?thesis using visits_advance [of c] Some
      by (auto simp: kl_def Let_def sat_usize_def error_row_def filter_empty_conv)
  qed
qed

text \<open>
  The error statistics count the error nodes and the missing nodes of the tree (a
  saturating count), their lines are exactly the lines where these start, and the count is zero
  just when the tree has no error.
\<close>

theorem error_stats_exact:
  "let bad = filter nd_is_error (preorder tree) @ filter nd_is_missing (preorder tree) in
   te_error_nodes (tree_error_stats tree) = sat_usize (length bad)
   \<and> te_error_lines (tree_error_stats tree) = (\<lambda>n. sat_usize (nd_start_row n + 1)) ` set bad
   \<and> (te_error_nodes (tree_error_stats tree) = 0 \<longleftrightarrow> \<not> has_error tree)"
proof -
  define es where "es = filter nd_is_error (preorder tree)"
  define ms where "ms = filter nd_is_missing (preorder tree)"
  have bad: "has_error tree \<longleftrightarrow> es \<noteq> [] \<or> ms \<noteq> []"
    by (auto simp: has_error_def es_def ms_def list_ex_iff filter_empty_conv)
  have visits: "visits [] (pending (walk tree)) = preorder tree"
    by (simp add: open_preorder_all)
  have "te_error_nodes (tree_error_stats tree) = (if has_error tree then sat_usize (length es + length ms) else 0)
      \<and> te_error_lines (tree_error_stats tree) = (if has_error tree then error_row ` set es \<union> error_row ` set ms else {})"
    unfolding tree_error_stats_def es_def [symmetric] Let_def error_fold prod.case missing_loop_visits visits
      ms_def [symmetric]
    by (auto simp: bad sat_usize_def)
  moreover have "sat_usize n = 0 \<longleftrightarrow> n = 0" for n by (simp add: sat_usize_def min_def)
  ultimately show ?thesis using bad
    by (auto simp: es_def [symmetric] ms_def [symmetric] Let_def error_row_def image_Un)
qed

end
