(* ===== verification/File_Context.thy ===== *)
theory File_Context
  imports Ts_Tree Text_Scan Model "HOL-Library.Product_Lexorder"
begin

unbundle bit_operations_syntax

text \<open>
  What the parsers say about a file: \<^verbatim>\<open>src/src/parser/file_context.rs\<close>,
  \<^verbatim>\<open>src/src/parser/semantic_region.rs\<close>, and the result types of \<^verbatim>\<open>src/src/parser/clang_result.rs\<close>
  and \<^verbatim>\<open>src/src/parser/clang_types.rs\<close>.

  The node kinds of the generated grammar and the constants of libclang are the fields of the
  record \<open>cpp_grammar\<close>, the hasher of the crate \<^verbatim>\<open>rustc_hash\<close> those of \<open>fx_hasher\<close>; both are
  arguments.  A path is already canonical.  The map of reference offsets is a list in the order
  of its iteration.
\<close>

section \<open>What the grammar and the hasher provide\<close>

record cpp_grammar =
  sym_namespace_definition :: nat
  sym_class_specifier :: nat
  sym_struct_specifier :: nat
  sym_union_specifier :: nat
  sym_enum_specifier :: nat
  sym_function_definition :: nat
  sym_function_declarator :: nat
  sym_lambda_expression :: nat
  sym_preproc_if :: nat
  sym_preproc_ifdef :: nat
  sym_preproc_elif :: nat
  sym_preproc_else :: nat
  sym_preproc_def :: nat
  sym_preproc_function_def :: nat
  sym_template_declaration :: nat
  sym_attribute_declaration :: nat
  cursor_function_template :: int
  type_unexposed :: int
  storage_class_invalid :: int

definition is_preprocessor_scope :: "cpp_grammar \<Rightarrow> nat \<Rightarrow> bool" where
  "is_preprocessor_scope g node_kind_id \<longleftrightarrow>
     node_kind_id \<in> {sym_preproc_if g, sym_preproc_ifdef g, sym_preproc_elif g, sym_preproc_else g,
                     sym_preproc_def g, sym_preproc_function_def g}"

definition is_namespace_scope :: "cpp_grammar \<Rightarrow> nat \<Rightarrow> bool" where
  "is_namespace_scope g node_kind_id \<longleftrightarrow> node_kind_id = sym_namespace_definition g"

definition is_type_scope :: "cpp_grammar \<Rightarrow> nat \<Rightarrow> bool" where
  "is_type_scope g node_kind_id \<longleftrightarrow>
     node_kind_id \<in> {sym_class_specifier g, sym_struct_specifier g, sym_union_specifier g, sym_enum_specifier g}"

definition is_function_scope :: "cpp_grammar \<Rightarrow> nat \<Rightarrow> bool" where
  "is_function_scope g node_kind_id \<longleftrightarrow>
     node_kind_id \<in> {sym_function_definition g, sym_function_declarator g, sym_lambda_expression g}"

definition is_template_scope :: "cpp_grammar \<Rightarrow> nat \<Rightarrow> bool" where
  "is_template_scope g node_kind_id \<longleftrightarrow> node_kind_id = sym_template_declaration g"

type_synonym region_key = "rstr \<times> nat \<times> nat \<times> nat \<times> nat \<times> nat \<times> rstr \<times> bool"

record fx_hasher =
  fx_str :: "rstr \<Rightarrow> u64"
  fx_region :: "region_key \<Rightarrow> u64"
  fx_sizes :: "nat list \<Rightarrow> u64"

section \<open>Data\<close>

text \<open>How the compilation database knows a file (\<^verbatim>\<open>src/src/parser/manager.rs\<close>).\<close>

datatype semantic_compdb_context_kind =
  NoContext | Exact | PairedSourceHeuristic | HeaderConsensus | SourceConsensus

datatype semantic_id_provenance = Usr | SourceLocationId | DeclLocation

record semantic_declaration =
  sd_stable_id :: rstr
  sd_provenance :: semantic_id_provenance
  sd_name :: rstr
  sd_kind :: int
  sd_line :: nat
  sd_column :: nat
  sd_usr :: "rstr option"
  sd_scope_usr :: "rstr option"
  sd_canonical_type_kind :: int
  sd_is_definition :: bool
  sd_is_anonymous :: bool
  sd_lexical_parent_usr :: "rstr option"
  sd_pointee_type_kind :: "int option"
  sd_storage_class :: int
  sd_is_const_qualified :: bool
  sd_is_volatile_qualified :: bool
  sd_template_base_name :: "rstr option"
  sd_num_template_args :: int
  sd_type_spelling :: "rstr option"
  sd_semantic_parent_kind :: int

record semantic_reference =
  sr_stable_id :: rstr
  sr_provenance :: semantic_id_provenance
  sr_decl_path :: rstr
  sr_decl_kind :: int
  sr_offset :: nat
  sr_line :: nat
  sr_column :: nat

record semantic_scope =
  sc_node_kind_id :: nat
  sc_start_offset :: nat
  sc_end_offset :: nat
  sc_start_line :: nat
  sc_end_line :: nat

record source_location =
  sl_line :: nat
  sl_column :: nat

definition source_location_new :: "nat \<Rightarrow> nat \<Rightarrow> source_location" where
  "source_location_new line column = \<lparr>sl_line = max line 1, sl_column = max column 1\<rparr>"

record semantic_region =
  rg_id :: u64
  rg_kind_id :: nat
  rg_start_line :: nat
  rg_end_line :: nat
  rg_start_offset :: nat
  rg_end_offset :: nat
  rg_has_diagnostic_error :: bool

definition region_file :: nat where "region_file = 2 ^ 16 - 1"
definition region_declaration :: nat where "region_declaration = region_file - 1"
definition region_reference :: nat where "region_reference = region_file - 2"
definition region_diagnostic :: nat where "region_diagnostic = region_file - 3"

definition region_new ::
    "fx_hasher \<Rightarrow> rstr \<Rightarrow> nat \<Rightarrow> nat \<Rightarrow> nat \<Rightarrow> nat \<Rightarrow> nat \<Rightarrow> rstr option \<Rightarrow> bool \<Rightarrow> semantic_region" where
  "region_new fx canonical_path kind_id start_line end_line start_offset end_offset stable_id has_diagnostic_error =
     \<lparr>rg_id = fx_region fx (canonical_path, kind_id, start_line, end_line, start_offset, end_offset,
                            unwrap_or stable_id [], has_diagnostic_error),
      rg_kind_id = kind_id, rg_start_line = start_line, rg_end_line = end_line,
      rg_start_offset = start_offset, rg_end_offset = end_offset,
      rg_has_diagnostic_error = has_diagnostic_error\<rparr>"

definition contains_line :: "semantic_region \<Rightarrow> nat \<Rightarrow> bool" where
  "contains_line region line \<longleftrightarrow> line \<ge> rg_start_line region \<and> line \<le> rg_end_line region"

definition width_lines :: "semantic_region \<Rightarrow> nat" where
  "width_lines region = rg_end_line region - rg_start_line region + 1"

record clang_fix_it =
  fi_replacement :: rstr
  fi_start_line :: nat
  fi_start_column :: nat
  fi_end_line :: nat
  fi_end_column :: nat

record clang_diagnostic_entry =
  de_line :: nat
  de_column :: nat
  de_severity :: nat
  de_warning_option :: rstr
  de_fix_its :: "clang_fix_it list"

text \<open>Severities: ignored, note, warning, error, fatal.\<close>

definition cx_diagnostic_warning :: nat where "cx_diagnostic_warning = 2"
definition cx_diagnostic_error :: nat where "cx_diagnostic_error = 3"
definition cx_diagnostic_fatal :: nat where "cx_diagnostic_fatal = 4"

type_synonym diagnostic_counts = "nat list"

definition diagnostic_total :: "diagnostic_counts \<Rightarrow> nat" where
  "diagnostic_total counts = sum_list counts"

definition diagnostic_error_total :: "diagnostic_counts \<Rightarrow> nat" where
  "diagnostic_error_total counts = sat_usize (counts ! cx_diagnostic_error + counts ! cx_diagnostic_fatal)"

record clang_symbol_key =
  sk_name :: rstr
  sk_kind :: int
  sk_line :: nat

record clang_parse_result =
  cp_success :: bool
  cp_diagnostics :: "rstr list"
  cp_symbols :: "semantic_declaration list"
  cp_diagnostic_counts :: diagnostic_counts
  cp_diagnostic_entries :: "clang_diagnostic_entry list"
  cp_rename_offsets :: "clang_symbol_key \<rightharpoonup> nat list"
  cp_reference_offsets :: "(clang_decl_key \<times> nat list) list"

definition error_diagnostic_count :: "clang_parse_result \<Rightarrow> nat" where
  "error_diagnostic_count parse = diagnostic_error_total (cp_diagnostic_counts parse)"

definition is_error_severity :: "nat \<Rightarrow> bool" where
  "is_error_severity severity \<longleftrightarrow> severity = cx_diagnostic_error \<or> severity = cx_diagnostic_fatal"

definition error_diagnostic_lines :: "clang_parse_result \<Rightarrow> nat set" where
  "error_diagnostic_lines parse =
     set (map de_line (filter (\<lambda>entry. is_error_severity (de_severity entry) \<and> de_line entry > 0)
       (cp_diagnostic_entries parse)))"

record semantic_file_context =
  fcx_canonical_path :: rstr
  fcx_clang_success :: bool
  fcx_tree_has_error :: bool
  fcx_diagnostic_counts :: diagnostic_counts
  fcx_diagnostic_entries :: "clang_diagnostic_entry list"
  fcx_diagnostics :: "rstr list"
  fcx_declarations :: "semantic_declaration list"
  fcx_references :: "semantic_reference list"
  fcx_scopes :: "semantic_scope list"
  fcx_regions :: "semantic_region list"
  fcx_declarations_by_line :: "nat \<rightharpoonup> nat list"
  fcx_name_lines :: "rstr \<rightharpoonup> nat list"
  fcx_decl_index :: "rstr \<rightharpoonup> nat"
  fcx_ref_indices :: "rstr \<rightharpoonup> nat list"
  fcx_rename_offsets :: "clang_symbol_key \<rightharpoonup> nat list"
  fcx_reference_offsets :: "(clang_decl_key \<times> nat list) list"

section \<open>Positions in the text\<close>

text \<open>\<open>binary_search\<close> for a key: the index of an equal element, or where it would be inserted.\<close>

definition binary_search :: "'a::linorder \<Rightarrow> 'a list \<Rightarrow> nat + nat" where
  "binary_search key xs =
     (if xs = [] then Inl 0
      else let base = bs_loop (\<lambda>x. x > key) xs (length xs) 0 in
           if xs ! base = key then Inr base
           else Inl (if xs ! base < key then base + 1 else base))"

definition context_line_count :: "rstr \<Rightarrow> nat" where
  "context_line_count text = (if text = [] then 1 else count_byte text newline + 1)"

definition line_bounds_for_line :: "nat list \<Rightarrow> nat \<Rightarrow> nat \<Rightarrow> nat \<times> nat" where
  "line_bounds_for_line starts text_len line =
     (if line = 0 \<or> starts = [] then (0, text_len)
      else
        let index = min (line - 1) (length starts - 1);
            start = min (starts ! index) text_len;
            finish = (if index + 1 < length starts then min (starts ! (index + 1) - 1) text_len else text_len)
        in (start, max finish start))"

definition line_and_column_for_offset :: "nat list \<Rightarrow> nat \<Rightarrow> nat \<times> nat" where
  "line_and_column_for_offset starts offset =
     (let line_index = (case binary_search offset starts of Inr index \<Rightarrow> index | Inl index \<Rightarrow> index - 1);
          line = line_index + 1;
          line_start = unwrap_or (nth_opt starts line_index) 0;
          column = offset - line_start + 1
      in (line, column))"

definition is_char_boundary :: "rstr \<Rightarrow> nat \<Rightarrow> bool" where
  "is_char_boundary s i \<longleftrightarrow> i = length s \<or> i < length s \<and> \<not> (of_char (s ! i) \<ge> (0x80 :: nat) \<and> of_char (s ! i) < (0xC0 :: nat))"

definition is_ident_start :: "char \<Rightarrow> bool" where
  "is_ident_start ch \<longleftrightarrow> ch = CHR ''_'' \<or> is_ascii_alphabetic ch"

definition is_ident_part :: "char \<Rightarrow> bool" where
  "is_ident_part ch \<longleftrightarrow> ch = CHR ''_'' \<or> is_ascii_alphabetic ch \<or> is_ascii_digit ch"

text \<open>The scanning loops: up to \<open>line_end\<close> while the position is of some kind.\<close>

function skip_while :: "(nat \<Rightarrow> bool) \<Rightarrow> nat \<Rightarrow> nat \<Rightarrow> nat" where
  "skip_while p line_end cursor = (if cursor < line_end \<and> p cursor then skip_while p line_end (cursor + 1) else cursor)"
  by pat_completeness auto
termination by (relation "measure (\<lambda>(p, line_end, cursor). line_end - cursor)") auto

declare skip_while.simps [simp del]

definition identifier_at_location :: "rstr \<Rightarrow> nat list \<Rightarrow> nat \<Rightarrow> nat \<Rightarrow> rstr option" where
  "identifier_at_location text starts line column =
     (if line = 0 \<or> column = 0 \<or> line > length starts then None
      else
        let line_start = starts ! (line - 1);
            line_end = min (if line < length starts then starts ! line - 1 else length text) (length text)
        in if line_start \<ge> line_end then None
           else
             let cursor = skip_while (\<lambda>i. \<not> is_char_boundary text i) line_end (line_start + (column - 1));
                 cursor = skip_while (\<lambda>i. \<not> is_ident_start (text ! i)) line_end cursor
             in if cursor \<ge> line_end then None
                else let start = cursor;
                         cursor = skip_while (\<lambda>i. is_ident_part (text ! i)) line_end (cursor + 1)
                     in Some (slice start cursor text))"

section \<open>Identities of symbols\<close>

text \<open>\<open>{:016x}\<close>\<close>

definition hex_char :: "nat \<Rightarrow> char" where
  "hex_char d = (if d < 10 then char_of (48 + d) else char_of (87 + d))"

definition hex16 :: "u64 \<Rightarrow> rstr" where
  "hex16 w = map (\<lambda>i. hex_char (unat (drop_bit (4 * (15 - i)) w AND 15))) [0..<16]"

definition stable_id_for_decl ::
    "fx_hasher \<Rightarrow> rstr \<Rightarrow> rstr \<Rightarrow> int \<Rightarrow> nat \<Rightarrow> rstr option \<Rightarrow> rstr option \<Rightarrow> rstr \<times> semantic_id_provenance" where
  "stable_id_for_decl fx canonical_path name kind line usr scope_usr =
     (case usr of
        Some raw \<Rightarrow>
          if trim raw \<noteq> [] then (''usr:'' @ trim raw, Usr)
          else (''loc:'' @ hex16 (fx_str fx (canonical_path @ ''|'' @ int_to_string kind @ ''|''
                  @ unwrap_or scope_usr ''-'' @ ''|'' @ nat_to_string line @ ''|'' @ name)), SourceLocationId)
      | None \<Rightarrow> (''loc:'' @ hex16 (fx_str fx (canonical_path @ ''|'' @ int_to_string kind @ ''|''
                  @ unwrap_or scope_usr ''-'' @ ''|'' @ nat_to_string line @ ''|'' @ name)), SourceLocationId))"

definition stable_id_for_decl_key :: "fx_hasher \<Rightarrow> clang_decl_key \<Rightarrow> rstr \<Rightarrow> rstr \<times> semantic_id_provenance" where
  "stable_id_for_decl_key fx key name =
     (''decl:'' @ hex16 (fx_str fx (dk_path key @ ''|'' @ int_to_string (dk_kind key) @ ''|''
        @ nat_to_string (dk_line key) @ ''|'' @ name)), DeclLocation)"

section \<open>Building the context\<close>

definition scope_kinds :: "cpp_grammar \<Rightarrow> nat list" where
  "scope_kinds g =
     [sym_namespace_definition g, sym_class_specifier g, sym_struct_specifier g, sym_union_specifier g,
      sym_enum_specifier g, sym_function_definition g, sym_function_declarator g, sym_lambda_expression g,
      sym_preproc_if g, sym_preproc_ifdef g, sym_preproc_elif g, sym_preproc_else g, sym_preproc_def g,
      sym_preproc_function_def g, sym_template_declaration g, sym_attribute_declaration g]"

definition scope_of_node :: "ts_node \<Rightarrow> semantic_scope" where
  "scope_of_node node =
     \<lparr>sc_node_kind_id = nd_kind node, sc_start_offset = nd_start_byte node, sc_end_offset = nd_end_byte node,
      sc_start_line = nd_start_row node + 1, sc_end_line = nd_end_row node + 1\<rparr>"

definition scope_le :: "semantic_scope \<Rightarrow> semantic_scope \<Rightarrow> bool" where
  "scope_le left right \<longleftrightarrow>
     (sc_start_offset left, sc_end_offset left, sc_node_kind_id left)
       \<le> (sc_start_offset right, sc_end_offset right, sc_node_kind_id right)"

definition collect_scopes :: "cpp_grammar \<Rightarrow> ts_node \<Rightarrow> semantic_scope list" where
  "collect_scopes g tree =
     sort_by scope_le (map scope_of_node (filter (\<lambda>n. nd_kind n \<in> set (scope_kinds g)) (preorder tree)))"

text \<open>\<open>dedup_by\<close> drops an element that is the same as the one kept before it.\<close>

fun dedup_by :: "('a \<Rightarrow> 'a \<Rightarrow> bool) \<Rightarrow> 'a list \<Rightarrow> 'a list" where
  "dedup_by same (x # y # ys) = (if same x y then dedup_by same (x # ys) else x # dedup_by same (y # ys))"
| "dedup_by same xs = xs"

definition region_le :: "semantic_region \<Rightarrow> semantic_region \<Rightarrow> bool" where
  "region_le left right \<longleftrightarrow>
     (rg_start_offset left, rg_end_offset left, rg_kind_id left, rg_id left)
       \<le> (rg_start_offset right, rg_end_offset right, rg_kind_id right, rg_id right)"

definition same_region :: "semantic_region \<Rightarrow> semantic_region \<Rightarrow> bool" where
  "same_region left right \<longleftrightarrow>
     rg_kind_id left = rg_kind_id right \<and> rg_start_line left = rg_start_line right
     \<and> rg_end_line left = rg_end_line right \<and> rg_start_offset left = rg_start_offset right
     \<and> rg_end_offset left = rg_end_offset right
     \<and> rg_has_diagnostic_error left = rg_has_diagnostic_error right"

definition dedup_and_sort_regions :: "semantic_region list \<Rightarrow> semantic_region list" where
  "dedup_and_sort_regions regions = dedup_by same_region (sort_by region_le regions)"

definition build_regions :: "fx_hasher \<Rightarrow> rstr \<Rightarrow> semantic_file_context \<Rightarrow> semantic_region list" where
  "build_regions fx text context =
     (let starts = line_starts text False;
          total_lines = max (context_line_count text) 1;
          text_len = length text;
          path = fcx_canonical_path context;
          at_line = (\<lambda>kind line stable_id has_error.
             let (start_offset, end_offset) = line_bounds_for_line starts text_len line in
             region_new fx path kind (max line 1) (max line 1) start_offset end_offset stable_id has_error)
      in dedup_and_sort_regions
           (region_new fx path region_file 1 total_lines 0 text_len None False
            # map (\<lambda>scope. region_new fx path (sc_node_kind_id scope) (sc_start_line scope)
                  (max (sc_end_line scope) (sc_start_line scope)) (sc_start_offset scope)
                  (max (sc_end_offset scope) (sc_start_offset scope)) None False) (fcx_scopes context)
            @ map (\<lambda>d. at_line region_declaration (sd_line d) (Some (sd_stable_id d)) False) (fcx_declarations context)
            @ map (\<lambda>r. at_line region_reference (sr_line r) (Some (sr_stable_id r)) False) (fcx_references context)
            @ map (\<lambda>e. at_line region_diagnostic (de_line e) None (is_error_severity (de_severity e)))
                (filter (\<lambda>e. de_line e \<noteq> 0) (fcx_diagnostic_entries context))))"

definition with_stable_id :: "fx_hasher \<Rightarrow> rstr \<Rightarrow> semantic_declaration \<Rightarrow> semantic_declaration" where
  "with_stable_id fx canonical_path decl =
     (if sd_stable_id decl = []
      then let (id, prov) = stable_id_for_decl fx canonical_path (sd_name decl) (sd_kind decl) (sd_line decl)
                              (sd_usr decl) (sd_scope_usr decl)
           in decl\<lparr>sd_stable_id := id, sd_provenance := prov\<rparr>
      else decl)"

type_synonym declaration_ids = "clang_decl_key \<rightharpoonup> rstr \<times> semantic_id_provenance"

definition key_of_declaration :: "rstr \<Rightarrow> semantic_declaration \<Rightarrow> clang_decl_key" where
  "key_of_declaration canonical_path decl =
     \<lparr>dk_path = canonical_path, dk_line = sd_line decl, dk_column = sd_column decl, dk_kind = sd_kind decl\<rparr>"

definition synthesized_declaration ::
    "cpp_grammar \<Rightarrow> clang_decl_key \<Rightarrow> rstr \<Rightarrow> rstr \<Rightarrow> semantic_id_provenance \<Rightarrow> semantic_declaration" where
  "synthesized_declaration g key name stable_id provenance =
     \<lparr>sd_stable_id = stable_id, sd_provenance = provenance, sd_name = name, sd_kind = dk_kind key,
      sd_line = dk_line key, sd_column = dk_column key, sd_usr = None, sd_scope_usr = None,
      sd_canonical_type_kind = type_unexposed g, sd_is_definition = False, sd_is_anonymous = False,
      sd_lexical_parent_usr = None, sd_pointee_type_kind = None, sd_storage_class = storage_class_invalid g,
      sd_is_const_qualified = False, sd_is_volatile_qualified = False, sd_template_base_name = None,
      sd_num_template_args = 0, sd_type_spelling = None, sd_semantic_parent_kind = 0\<rparr>"

definition synthesize_for_key ::
    "fx_hasher \<Rightarrow> cpp_grammar \<Rightarrow> rstr \<Rightarrow> nat list \<Rightarrow> rstr \<Rightarrow> clang_decl_key
      \<Rightarrow> semantic_declaration list \<times> declaration_ids \<Rightarrow> semantic_declaration list \<times> declaration_ids" where
  "synthesize_for_key fx g text starts canonical_path key = (\<lambda>(declarations, ids).
     if dk_path key \<noteq> canonical_path \<or> ids key \<noteq> None \<or> dk_line key = 0 \<or> dk_column key = 0
     then (declarations, ids)
     else
       let name = unwrap_or (identifier_at_location text starts (dk_line key) (dk_column key))
                    (''decl_'' @ nat_to_string (dk_line key) @ ''_'' @ nat_to_string (dk_column key));
           (stable_id, provenance) = stable_id_for_decl_key fx key name
       in (declarations @ [synthesized_declaration g key name stable_id provenance],
           ids(key \<mapsto> (stable_id, provenance))))"

definition declaration_le :: "semantic_declaration \<Rightarrow> semantic_declaration \<Rightarrow> bool" where
  "declaration_le left right \<longleftrightarrow>
     (sd_line left, sd_column left, sd_name left) \<le> (sd_line right, sd_column right, sd_name right)"

definition references_of_key ::
    "fx_hasher \<Rightarrow> rstr \<Rightarrow> nat list \<Rightarrow> declaration_ids \<Rightarrow> clang_decl_key \<times> nat list \<Rightarrow> semantic_reference list" where
  "references_of_key fx text starts ids = (\<lambda>(key, offsets).
     let (stable_id, provenance) =
           (case ids key of
              Some found \<Rightarrow> found
            | None \<Rightarrow>
                stable_id_for_decl_key fx key
                  (unwrap_or (identifier_at_location text starts (dk_line key) (dk_column key))
                    (''ref_'' @ nat_to_string (dk_line key) @ ''_'' @ nat_to_string (dk_column key))))
     in map (\<lambda>offset.
          let (line, column) = line_and_column_for_offset starts offset in
          \<lparr>sr_stable_id = stable_id, sr_provenance = provenance, sr_decl_path = dk_path key,
           sr_decl_kind = dk_kind key, sr_offset = offset, sr_line = line, sr_column = column\<rparr>) offsets)"

definition reference_le :: "semantic_reference \<Rightarrow> semantic_reference \<Rightarrow> bool" where
  "reference_le left right \<longleftrightarrow> (sr_offset left, sr_stable_id left) \<le> (sr_offset right, sr_stable_id right)"

definition same_reference :: "semantic_reference \<Rightarrow> semantic_reference \<Rightarrow> bool" where
  "same_reference left right \<longleftrightarrow> sr_offset left = sr_offset right \<and> sr_stable_id left = sr_stable_id right"

text \<open>The indices: positions by line, lines by name, the first position and all positions by identity.\<close>

definition push_at :: "'k \<Rightarrow> 'v \<Rightarrow> ('k \<rightharpoonup> 'v list) \<Rightarrow> ('k \<rightharpoonup> 'v list)" where
  "push_at key value m = m(key \<mapsto> unwrap_or (m key) [] @ [value])"

definition index_declarations :: "semantic_file_context \<Rightarrow> semantic_file_context" where
  "index_declarations context =
     fold (\<lambda>(index, decl) context.
         context\<lparr>fcx_declarations_by_line := push_at (sd_line decl) index (fcx_declarations_by_line context),
                 fcx_name_lines := push_at (sd_name decl) (sd_line decl) (fcx_name_lines context),
                 fcx_decl_index :=
                   (if fcx_decl_index context (sd_stable_id decl) = None
                    then (fcx_decl_index context)(sd_stable_id decl \<mapsto> index) else fcx_decl_index context)\<rparr>)
       (enumerate 0 (fcx_declarations context)) context"

definition index_references :: "semantic_file_context \<Rightarrow> semantic_file_context" where
  "index_references context =
     fold (\<lambda>(index, reference) context.
         context\<lparr>fcx_ref_indices := push_at (sr_stable_id reference) index (fcx_ref_indices context)\<rparr>)
       (enumerate 0 (fcx_references context)) context"

definition build_scopes_and_regions ::
    "fx_hasher \<Rightarrow> cpp_grammar \<Rightarrow> rstr \<Rightarrow> rstr \<Rightarrow> clang_parse_result \<Rightarrow> semantic_file_context
      \<Rightarrow> semantic_file_context" where
  "build_scopes_and_regions fx g text canonical_path parse context =
     (let starts = line_starts text False;
          declarations = map (with_stable_id fx canonical_path) (cp_symbols parse);
          ids = fold (\<lambda>decl ids. ids(key_of_declaration canonical_path decl
                        \<mapsto> (sd_stable_id decl, sd_provenance decl))) declarations Map.empty;
          (declarations, ids) =
            (if cp_symbols parse = []
             then fold (synthesize_for_key fx g text starts canonical_path) (map fst (cp_reference_offsets parse))
                    (declarations, ids)
             else (declarations, ids));
          context = context\<lparr>fcx_declarations := sort_by declaration_le declarations\<rparr>;
          references = fcx_references context
                         @ concat (map (references_of_key fx text starts ids) (cp_reference_offsets parse));
          context = context\<lparr>fcx_references := dedup_by same_reference (sort_by reference_le references),
                            fcx_diagnostics := cp_diagnostics parse,
                            fcx_rename_offsets := cp_rename_offsets parse,
                            fcx_reference_offsets := cp_reference_offsets parse\<rparr>;
          context = index_references (index_declarations context)
      in context\<lparr>fcx_regions := build_regions fx text context\<rparr>)"

definition empty_context :: "rstr \<Rightarrow> semantic_file_context" where
  "empty_context canonical_path =
     \<lparr>fcx_canonical_path = canonical_path, fcx_clang_success = False, fcx_tree_has_error = False,
      fcx_diagnostic_counts = [0, 0, 0, 0, 0], fcx_diagnostic_entries = [], fcx_diagnostics = [],
      fcx_declarations = [], fcx_references = [], fcx_scopes = [], fcx_regions = [],
      fcx_declarations_by_line = Map.empty, fcx_name_lines = Map.empty, fcx_decl_index = Map.empty,
      fcx_ref_indices = Map.empty, fcx_rename_offsets = Map.empty, fcx_reference_offsets = []\<rparr>"

definition from_parses ::
    "fx_hasher \<Rightarrow> cpp_grammar \<Rightarrow> rstr \<Rightarrow> rstr \<Rightarrow> ts_node option \<Rightarrow> clang_parse_result option
      \<Rightarrow> semantic_file_context" where
  "from_parses fx g text canonical_path tree clang =
     (let context = (empty_context canonical_path)
            \<lparr>fcx_tree_has_error := (case tree of None \<Rightarrow> False | Some t \<Rightarrow> has_error t)\<rparr>;
          context = (case tree of None \<Rightarrow> context | Some t \<Rightarrow> context\<lparr>fcx_scopes := collect_scopes g t\<rparr>)
      in case clang of
           None \<Rightarrow> context\<lparr>fcx_regions := build_regions fx text context\<rparr>
         | Some parse \<Rightarrow>
             build_scopes_and_regions fx g text canonical_path parse
               (context\<lparr>fcx_clang_success := cp_success parse,
                        fcx_diagnostic_counts := cp_diagnostic_counts parse,
                        fcx_diagnostic_entries := cp_diagnostic_entries parse\<rparr>))"

section \<open>Queries\<close>

text \<open>\<open>min_by_key\<close> gives the first smallest element, \<open>max_by_key\<close> the last largest.\<close>

fun min_by_key :: "('a \<Rightarrow> 'k::linorder) \<Rightarrow> 'a list \<Rightarrow> 'a option" where
  "min_by_key key [] = None"
| "min_by_key key (x # xs) =
     (case min_by_key key xs of None \<Rightarrow> Some x | Some y \<Rightarrow> if key x \<le> key y then Some x else Some y)"

fun max_by_key :: "('a \<Rightarrow> 'k::linorder) \<Rightarrow> 'a list \<Rightarrow> 'a option" where
  "max_by_key key [] = None"
| "max_by_key key (x # xs) =
     (case max_by_key key xs of None \<Rightarrow> Some x | Some y \<Rightarrow> if key y < key x then Some x else Some y)"

definition allow_kind :: "int list \<Rightarrow> int \<Rightarrow> bool" where
  "allow_kind allowed_kinds kind \<longleftrightarrow> allowed_kinds = [] \<or> kind \<in> set allowed_kinds"

definition abs_diff_nat :: "nat \<Rightarrow> nat \<Rightarrow> nat" where
  "abs_diff_nat a b = (if a \<le> b then b - a else a - b)"

definition declaration_at_location ::
    "semantic_file_context \<Rightarrow> source_location \<Rightarrow> int list \<Rightarrow> semantic_declaration option" where
  "declaration_at_location context loc allowed_kinds =
     (case find (\<lambda>d. sd_line d = sl_line loc \<and> sd_column d = sl_column loc \<and> allow_kind allowed_kinds (sd_kind d))
             (fcx_declarations context) of
        Some exact \<Rightarrow> Some exact
      | None \<Rightarrow>
          min_by_key (\<lambda>d. abs_diff_nat (sd_column d) (sl_column loc))
            (filter (\<lambda>d. sd_line d = sl_line loc \<and> allow_kind allowed_kinds (sd_kind d)) (fcx_declarations context)))"

definition refs_by_id :: "semantic_file_context \<Rightarrow> rstr \<Rightarrow> semantic_reference list" where
  "refs_by_id context stable_id =
     (if fcx_ref_indices context \<noteq> Map.empty
      then (case fcx_ref_indices context stable_id of
              None \<Rightarrow> []
            | Some indices \<Rightarrow> List.map_filter (nth_opt (fcx_references context)) indices)
      else filter (\<lambda>r. sr_stable_id r = stable_id) (fcx_references context))"

definition scope_at_location :: "semantic_file_context \<Rightarrow> source_location \<Rightarrow> semantic_scope option" where
  "scope_at_location context loc =
     min_by_key (\<lambda>scope. (sc_end_line scope - sc_start_line scope, u64_max - sc_start_offset scope))
       (filter (\<lambda>scope. sl_line loc \<ge> sc_start_line scope \<and> sl_line loc \<le> sc_end_line scope) (fcx_scopes context))"

definition region_at_location :: "semantic_file_context \<Rightarrow> source_location \<Rightarrow> semantic_region option" where
  "region_at_location context loc =
     min_by_key (\<lambda>region. (width_lines region, rg_end_offset region - rg_start_offset region, rg_start_offset region))
       (filter (\<lambda>region. contains_line region (sl_line loc)) (fcx_regions context))"

definition declarations_on_line :: "semantic_file_context \<Rightarrow> nat \<Rightarrow> semantic_declaration list" where
  "declarations_on_line context line =
     (case fcx_declarations_by_line context line of
        None \<Rightarrow> []
      | Some indexes \<Rightarrow> List.map_filter (nth_opt (fcx_declarations context)) indexes)"

definition symbol_on_line :: "semantic_file_context \<Rightarrow> rstr \<Rightarrow> nat \<Rightarrow> int list \<Rightarrow> semantic_declaration option" where
  "symbol_on_line context name line allowed_kinds =
     find (\<lambda>d. sd_name d = name \<and> allow_kind allowed_kinds (sd_kind d)) (declarations_on_line context line)"

definition symbol_on_line_by_kinds :: "semantic_file_context \<Rightarrow> nat \<Rightarrow> int list \<Rightarrow> semantic_declaration option" where
  "symbol_on_line_by_kinds context line allowed_kinds =
     find (\<lambda>d. allow_kind allowed_kinds (sd_kind d)) (declarations_on_line context line)"

definition has_name_elsewhere :: "semantic_file_context \<Rightarrow> rstr \<Rightarrow> nat \<Rightarrow> bool" where
  "has_name_elsewhere context name except_line \<longleftrightarrow>
     (case fcx_name_lines context name of None \<Rightarrow> False | Some lines \<Rightarrow> list_ex (\<lambda>l. l \<noteq> except_line) lines)"

definition rename_offsets :: "semantic_file_context \<Rightarrow> rstr \<Rightarrow> nat \<Rightarrow> int list \<Rightarrow> nat list" where
  "rename_offsets context name line allowed_kinds =
     remdups_adj (sort (concat (map (\<lambda>decl.
         if sd_name decl \<noteq> name \<or> \<not> allow_kind allowed_kinds (sd_kind decl) then []
         else unwrap_or (fcx_rename_offsets context
                \<lparr>sk_name = sd_name decl, sk_kind = sd_kind decl, sk_line = sd_line decl\<rparr>) [])
       (declarations_on_line context line))))"

text \<open>
  The summary and its signature, the exclusive or of hashes of printed items.  Strings are printed
  with Rust's debug escapes, bytes above the ASCII range as they are.
\<close>

definition escape_char :: "char \<Rightarrow> rstr" where
  "escape_char c =
     (if c \<in> {CHR 0x22, CHR 0x5C} then [CHR 0x5C, c]
      else if c = CHR 0x0A then [CHR 0x5C, CHR ''n'']
      else if c = CHR 0x0D then [CHR 0x5C, CHR ''r'']
      else if c = CHR 0x09 then [CHR 0x5C, CHR ''t'']
      else if c = CHR 0x00 then [CHR 0x5C, CHR ''0'']
      else if of_char c < (32 :: nat) \<or> of_char c = (127 :: nat)
      then [CHR 0x5C] @ ''u{'' @ (if (16 :: nat) \<le> of_char c then [hex_char (of_char c div 16)] else [])
             @ [hex_char (of_char c mod 16)] @ ''}''
      else [c])"

definition debug_str :: "rstr \<Rightarrow> rstr" where
  "debug_str s = [CHR 0x22] @ concat (map escape_char s) @ [CHR 0x22]"

definition debug_opt :: "rstr option \<Rightarrow> rstr" where
  "debug_opt s = (case s of None \<Rightarrow> ''None'' | Some s \<Rightarrow> ''Some('' @ debug_str s @ '')'')"

fun debug_provenance :: "semantic_id_provenance \<Rightarrow> rstr" where
  "debug_provenance Usr = ''Usr''"
| "debug_provenance SourceLocationId = ''SourceLocation''"
| "debug_provenance DeclLocation = ''DeclLocation''"

definition print_bool :: "bool \<Rightarrow> rstr" where
  "print_bool b = (if b then ''true'' else ''false'')"

definition signed_scope :: "semantic_scope \<Rightarrow> rstr" where
  "signed_scope scope =
     join '':'' [nat_to_string (sc_node_kind_id scope), nat_to_string (sc_start_offset scope),
       nat_to_string (sc_end_offset scope), nat_to_string (sc_start_line scope), nat_to_string (sc_end_line scope)]"

definition signed_declaration :: "semantic_declaration \<Rightarrow> rstr" where
  "signed_declaration d =
     join '':'' [sd_stable_id d, int_to_string (sd_kind d), sd_name d, nat_to_string (sd_line d),
       nat_to_string (sd_column d), debug_opt (sd_usr d), debug_opt (sd_scope_usr d),
       debug_opt (sd_lexical_parent_usr d), print_bool (sd_is_definition d)]"

definition signed_reference :: "semantic_reference \<Rightarrow> rstr" where
  "signed_reference r =
     join '':'' [sr_stable_id r, debug_provenance (sr_provenance r), sr_decl_path r, int_to_string (sr_decl_kind r),
       nat_to_string (sr_offset r), nat_to_string (sr_line r), nat_to_string (sr_column r)]"

definition signed_diagnostic :: "clang_diagnostic_entry \<Rightarrow> rstr" where
  "signed_diagnostic e =
     join '':'' [nat_to_string (de_line e), nat_to_string (de_column e), nat_to_string (de_severity e)]"

definition signed_region :: "semantic_region \<Rightarrow> rstr" where
  "signed_region r =
     join '':'' [nat_to_string (unat (rg_id r)), nat_to_string (rg_kind_id r), nat_to_string (rg_start_line r),
       nat_to_string (rg_end_line r), nat_to_string (rg_start_offset r), print_bool (rg_has_diagnostic_error r)]"

definition xor_hashes :: "fx_hasher \<Rightarrow> rstr list \<Rightarrow> u64 \<Rightarrow> u64" where
  "xor_hashes fx items signature = fold (\<lambda>item signature. signature XOR fx_str fx item) items signature"

record semantic_summary =
  ss_declaration_count :: nat
  ss_reference_count :: nat
  ss_scope_count :: nat
  ss_region_count :: nat
  ss_preprocessor_scope_count :: nat
  ss_usr_backed_declaration_count :: nat
  ss_diagnostics_count :: nat
  ss_diagnostic_error_count :: nat
  ss_semantic_signature :: u64

definition summary :: "fx_hasher \<Rightarrow> cpp_grammar \<Rightarrow> semantic_file_context \<Rightarrow> semantic_summary" where
  "summary fx g context =
     (let counted = filter (\<lambda>d. sd_kind d \<noteq> cursor_function_template g) (fcx_declarations context);
          signature = fx_str fx (fcx_canonical_path context) XOR of_bool (fcx_clang_success context)
                        XOR push_bit 1 (of_bool (fcx_tree_has_error context));
          signature = xor_hashes fx (map signed_scope (fcx_scopes context)) signature;
          signature = xor_hashes fx (map signed_declaration counted) signature;
          signature = xor_hashes fx (map signed_reference (fcx_references context)) signature;
          signature = xor_hashes fx (map signed_diagnostic (fcx_diagnostic_entries context)) signature;
          signature = xor_hashes fx (map signed_region (fcx_regions context)) signature
      in
      \<lparr>ss_declaration_count = length counted,
       ss_reference_count = length (fcx_references context),
       ss_scope_count = length (fcx_scopes context),
       ss_region_count = length (fcx_regions context),
       ss_preprocessor_scope_count =
         length (filter (\<lambda>s. is_preprocessor_scope g (sc_node_kind_id s)) (fcx_scopes context)),
       ss_usr_backed_declaration_count =
         length (filter (\<lambda>d. sd_usr d \<noteq> None \<or> sd_provenance d = Usr) counted),
       ss_diagnostics_count = length (fcx_diagnostic_entries context),
       ss_diagnostic_error_count = diagnostic_error_total (fcx_diagnostic_counts context),
       ss_semantic_signature = signature\<rparr>)"

section \<open>The indices answer what a search would\<close>

definition positions :: "('a \<Rightarrow> 'k) \<Rightarrow> 'a list \<Rightarrow> 'k \<Rightarrow> nat list" where
  "positions f xs k = filter (\<lambda>i. f (xs ! i) = k) [0..<length xs]"

lemma positions_snoc: "positions f (xs @ [x]) k = positions f xs k @ (if f x = k then [length xs] else [])"
proof -
  have "filter (\<lambda>i. f ((xs @ [x]) ! i) = k) [0..<length xs] = filter (\<lambda>i. f (xs ! i) = k) [0..<length xs]"
    by (rule filter_cong) (auto simp: nth_append)
  then show ?thesis by (simp add: positions_def)
qed

lemma map_filter_nth: "list_all (\<lambda>i. i < length xs) is \<Longrightarrow> List.map_filter (nth_opt xs) is = map ((!) xs) is"
  by (induction "is") (auto simp: List.map_filter_def nth_opt_def)

lemma map_positions: "map ((!) xs) (positions f xs k) = filter (\<lambda>x. f x = k) xs"
proof (induction xs rule: rev_induct)
  case (snoc x xs)
  have "map ((!) (xs @ [x])) (positions f xs k) = map ((!) xs) (positions f xs k)"
    by (rule map_cong) (auto simp: positions_def nth_append)
  with snoc show ?case by (simp add: positions_snoc)
qed (simp add: positions_def)

lemma map_filter_positions: "List.map_filter (nth_opt xs) (positions f xs k) = filter (\<lambda>x. f x = k) xs"
proof -
  have "list_all (\<lambda>i. i < length xs) (positions f xs k)" by (auto simp: list_all_iff positions_def)
  from map_filter_nth [OF this] show ?thesis by (simp add: map_positions)
qed

lemma push_positions:
  "fold (\<lambda>(i, x) m. push_at (f x) i m) (enumerate 0 xs) Map.empty k
     = (if positions f xs k = [] then None else Some (positions f xs k))"
proof (induction xs arbitrary: k rule: rev_induct)
  case (snoc x xs)
  then show ?case by (simp add: enumerate_append_eq push_at_def positions_snoc)
qed (simp add: positions_def)

lemma push_values:
  "fold (\<lambda>(i, x) m. push_at (f x) (v x) m) (enumerate n xs) Map.empty k
     = (let vs = map v (filter (\<lambda>x. f x = k) xs) in if vs = [] then None else Some vs)"
proof (induction xs arbitrary: k rule: rev_induct)
  case (snoc x xs)
  then show ?case by (simp add: enumerate_append_eq push_at_def Let_def)
qed simp

lemma first_positions:
  "fold (\<lambda>(i, x) m. if m (f x) = None then m(f x \<mapsto> i) else m) (enumerate 0 xs) Map.empty k
     = (case positions f xs k of [] \<Rightarrow> None | i # _ \<Rightarrow> Some i)"
proof (induction xs arbitrary: k rule: rev_induct)
  case (snoc x xs)
  then show ?case by (auto simp: enumerate_append_eq positions_snoc split: list.splits)
qed (simp add: positions_def)

lemma index_declarations_fold:
  fixes c :: semantic_file_context
  defines "step \<equiv> (\<lambda>(index, decl) context.
         context\<lparr>fcx_declarations_by_line := push_at (sd_line decl) index (fcx_declarations_by_line context),
                 fcx_name_lines := push_at (sd_name decl) (sd_line decl) (fcx_name_lines context),
                 fcx_decl_index :=
                   (if fcx_decl_index context (sd_stable_id decl) = None
                    then (fcx_decl_index context)(sd_stable_id decl \<mapsto> index) else fcx_decl_index context)\<rparr>)"
  shows "fold step ps c = c\<lparr>
     fcx_declarations_by_line := fold (\<lambda>(i, d) m. push_at (sd_line d) i m) ps (fcx_declarations_by_line c),
     fcx_name_lines := fold (\<lambda>(i, d) m. push_at (sd_name d) (sd_line d) m) ps (fcx_name_lines c),
     fcx_decl_index := fold (\<lambda>(i, d) m. if m (sd_stable_id d) = None then m(sd_stable_id d \<mapsto> i) else m) ps (fcx_decl_index c)\<rparr>"
  by (induction ps arbitrary: c) (auto simp: step_def)

lemma index_references_fold:
  "fold (\<lambda>(index, reference) (context :: semantic_file_context).
         context\<lparr>fcx_ref_indices := push_at (sr_stable_id reference) index (fcx_ref_indices context)\<rparr>) ps c
     = c\<lparr>fcx_ref_indices := fold (\<lambda>(i, r) m. push_at (sr_stable_id r) i m) ps (fcx_ref_indices c)\<rparr>"
  by (induction ps arbitrary: c) auto

definition indexed :: "semantic_file_context \<Rightarrow> bool" where
  "indexed c \<longleftrightarrow>
     (\<forall>line. fcx_declarations_by_line c line =
        (let ps = positions sd_line (fcx_declarations c) line in if ps = [] then None else Some ps))
     \<and> (\<forall>name. fcx_name_lines c name =
        (let ls = map sd_line (filter (\<lambda>d. sd_name d = name) (fcx_declarations c)) in if ls = [] then None else Some ls))
     \<and> (\<forall>id. fcx_decl_index c id =
        (case positions sd_stable_id (fcx_declarations c) id of [] \<Rightarrow> None | i # _ \<Rightarrow> Some i))
     \<and> (\<forall>id. fcx_ref_indices c id =
        (let ps = positions sr_stable_id (fcx_references c) id in if ps = [] then None else Some ps))"

definition no_index :: "semantic_file_context \<Rightarrow> bool" where
  "no_index c \<longleftrightarrow> fcx_declarations_by_line c = Map.empty \<and> fcx_name_lines c = Map.empty
     \<and> fcx_decl_index c = Map.empty \<and> fcx_ref_indices c = Map.empty"

lemma indexed_index:
  assumes "no_index c"
  shows "indexed (index_references (index_declarations c))"
  using assms unfolding no_index_def indexed_def index_references_def index_declarations_def index_declarations_fold
    index_references_fold
  by (simp add: push_positions push_values first_positions)

lemma indexed_regions [simp]: "indexed (c\<lparr>fcx_regions := r\<rparr>) = indexed c"
  by (simp add: indexed_def)

lemma indexed_build: "no_index c \<Longrightarrow> indexed (build_scopes_and_regions fx g text path parse c)"
  by (auto simp: build_scopes_and_regions_def Let_def split: prod.split intro!: indexed_index)
    (simp_all add: no_index_def)

lemma indexed_from_parses: "indexed (from_parses fx g text path tree clang)"
proof (cases clang)
  case None
  then show ?thesis by (cases tree) (simp_all add: indexed_def from_parses_def empty_context_def positions_def)
next
  case (Some parse)
  then show ?thesis unfolding from_parses_def Let_def
    by (cases tree) (auto intro!: indexed_build simp: no_index_def empty_context_def)
qed

lemma indexed_refs: "indexed c \<Longrightarrow> refs_by_id c ident = filter (\<lambda>r. sr_stable_id r = ident) (fcx_references c)"
  using map_filter_positions [of "fcx_references c" sr_stable_id ident]
  by (auto simp: indexed_def refs_by_id_def Let_def List.map_filter_def split: if_splits)

lemma indexed_line: "indexed c \<Longrightarrow> declarations_on_line c line = filter (\<lambda>d. sd_line d = line) (fcx_declarations c)"
  using map_filter_positions [of "fcx_declarations c" sd_line line]
  by (auto simp: indexed_def declarations_on_line_def Let_def List.map_filter_def split: if_splits)

lemma find_filter: "find P (filter Q xs) = find (\<lambda>x. Q x \<and> P x) xs"
  by (induction xs) auto

text \<open>
  The hash indices of a context answer exactly what a linear search of its declarations
  and references would, in the same order; a missing key is an empty answer.
\<close>

theorem indices_are_searches:
  "let c = from_parses fx g text path tree clang in
   refs_by_id c ident = filter (\<lambda>r. sr_stable_id r = ident) (fcx_references c)
   \<and> symbol_on_line c name line kinds
       = find (\<lambda>d. sd_line d = line \<and> sd_name d = name \<and> allow_kind kinds (sd_kind d)) (fcx_declarations c)
   \<and> symbol_on_line_by_kinds c line kinds
       = find (\<lambda>d. sd_line d = line \<and> allow_kind kinds (sd_kind d)) (fcx_declarations c)
   \<and> (has_name_elsewhere c name line \<longleftrightarrow> list_ex (\<lambda>d. sd_name d = name \<and> sd_line d \<noteq> line) (fcx_declarations c))"
proof -
  define c where "c = from_parses fx g text path tree clang"
  have c: "indexed c" by (simp add: c_def indexed_from_parses)
  have "has_name_elsewhere c name line \<longleftrightarrow> list_ex (\<lambda>d. sd_name d = name \<and> sd_line d \<noteq> line) (fcx_declarations c)"
    using c by (auto simp: indexed_def has_name_elsewhere_def Let_def list_ex_iff filter_empty_conv split: if_splits)
  with c show ?thesis
    by (simp add: c_def [symmetric] indexed_refs indexed_line symbol_on_line_def symbol_on_line_by_kinds_def find_filter)
qed

section \<open>Positions are positions\<close>

lemma line_starts_eq:
  "line_starts s False = 0 # map Suc (filter (\<lambda>i. s ! i = newline \<and> Suc i < length s) [0..<length s])"
proof -
  have "foldl (\<lambda>starts index. let next = index + 1 in if False \<or> next < length s then starts @ [next] else starts) acc is
      = acc @ map Suc (filter (\<lambda>i. Suc i < length s) is)" for acc "is"
    by (induction "is" arbitrary: acc) auto
  then show ?thesis by (simp add: line_starts_def memchr_iter_def conj_commute)
qed

lemma sorted_line_starts: "sorted_wrt (<) (line_starts s False)"
proof -
  have "sorted_wrt (<) (filter (\<lambda>i. s ! i = newline \<and> Suc i < length s) [0..<length s])"
    by (rule sorted_wrt_filter) (simp add: sorted_wrt_upt)
  then show ?thesis by (simp add: line_starts_eq sorted_wrt_map)
qed

lemma binary_search_floor:
  assumes "sorted_wrt (<) xs" "xs \<noteq> []" "xs ! 0 \<le> key"
  defines "i \<equiv> (case binary_search key xs of Inr i \<Rightarrow> i | Inl i \<Rightarrow> i - 1)"
  shows "i < length xs" "xs ! i \<le> (key :: 'a :: linorder)" "\<And>j. i < j \<Longrightarrow> j < length xs \<Longrightarrow> key < xs ! j"
proof -
  define b where "b = bs_loop (\<lambda>x. x > key) xs (length xs) 0"
  have "sorted_wrt (\<lambda>x y. x > key \<longrightarrow> y > key) xs"
    using assms(1) by (rule sorted_wrt_mono_rel [rotated]) auto
  then have b: "b < length xs" "b = 0 \<or> \<not> xs ! b > key" "\<forall>i < length xs. b < i \<longrightarrow> xs ! i > key"
    using bs_loop_spec [of "length xs" 0 xs "\<lambda>x. x > key"] assms(2) by (auto simp: b_def Let_def)
  then have le: "xs ! b \<le> key" using assms(3) by auto
  have "i = b" using le assms(2) by (simp add: i_def binary_search_def Let_def flip: b_def)
  with b le show "i < length xs" "xs ! i \<le> key" "\<And>j. i < j \<Longrightarrow> j < length xs \<Longrightarrow> key < xs ! j" by auto
qed

lemma count_filter_upt: "count_byte (take n s) c = length (filter (\<lambda>i. s ! i = c) [0..<min n (length s)])"
  unfolding count_byte_def memchr_iter_def by (rule arg_cong [of _ _ length], rule filter_cong) (auto simp: min.commute)

lemma position_of_offset:
  assumes "offset < length s" and "line_and_column_for_offset (line_starts s False) offset = (line, column)"
  shows "line = 1 + count_byte (take offset s) newline" "1 \<le> column" "column \<le> offset + 1"
    "newline \<notin> set (slice (offset - (column - 1)) offset s)"
    "column = offset + 1 \<or> s ! (offset - column) = newline"
proof -
  define starts where "starts = line_starts s False"
  define b where "b = (case binary_search offset starts of Inr i \<Rightarrow> i | Inl i \<Rightarrow> i - 1)"
  have first: "starts ! 0 = 0" "starts \<noteq> []" by (simp_all add: starts_def line_starts_eq)
  have sorted: "sorted_wrt (<) starts" by (simp add: starts_def sorted_line_starts)
  have b: "b < length starts" "starts ! b \<le> offset" "\<And>j. b < j \<Longrightarrow> j < length starts \<Longrightarrow> offset < starts ! j"
    using binary_search_floor [OF sorted, of offset] first by (auto simp: b_def)
  have lc: "line = b + 1" "column = offset - starts ! b + 1"
    using assms(2) b(1) by (simp_all add: line_and_column_for_offset_def Let_def nth_opt_def flip: starts_def b_def)
  have mem: "x \<in> set starts \<longleftrightarrow> x = 0 \<or> (\<exists>i. x = Suc i \<and> Suc i < length s \<and> s ! i = newline)" for x
    by (auto simp: starts_def line_starts_eq)
  show "1 \<le> column" "column \<le> offset + 1" by (simp_all add: lc)
  have start: "offset - (column - 1) = starts ! b" using b(2) by (simp add: lc)
  show "newline \<notin> set (slice (offset - (column - 1)) offset s)"
  proof
    assume "newline \<in> set (slice (offset - (column - 1)) offset s)"
    then obtain k where k: "k < length (slice (starts ! b) offset s)" "slice (starts ! b) offset s ! k = newline"
      unfolding start by (auto simp: in_set_conv_nth)
    define i where "i = starts ! b + k"
    have i: "starts ! b \<le> i" "i < offset" "s ! i = newline" using k by (auto simp: i_def slice_nth)
    then have "Suc i \<in> set starts" using assms(1) by (auto simp: mem)
    then obtain j where j: "j < length starts" "starts ! j = Suc i" by (auto simp: in_set_conv_nth)
    have "b < j"
    proof (rule ccontr)
      assume "\<not> b < j"
      then have "starts ! j \<le> starts ! b" using sorted b(1)
        by (cases "j = b") (simp_all add: sorted_wrt_iff_nth_less less_imp_le)
      with i j show False by simp
    qed
    then show False using b(3) [of j] j i by simp
  qed
  show "column = offset + 1 \<or> s ! (offset - column) = newline"
  proof (cases "starts ! b")
    case (Suc i)
    have "starts ! b \<in> set starts" using b(1) by simp
    then have "s ! i = newline" by (simp add: mem Suc)
    moreover have "offset - column = i" using b(2) by (simp add: lc Suc)
    ultimately show ?thesis by simp
  qed (simp add: lc)
  have "Suc b = length (filter (\<lambda>x. x \<le> offset) starts)"
  proof -
    have "filter (\<lambda>x. x \<le> offset) starts = take (Suc b) starts"
    proof -
      have "filter (\<lambda>x. x \<le> offset) (take (Suc b) starts) = take (Suc b) starts"
      proof (rule filter_True, rule ballI)
        fix x assume "x \<in> set (take (Suc b) starts)"
        then obtain j where "j \<le> b" "x = starts ! j"
            using b(1) by (auto simp: in_set_conv_nth) (metis less_Suc_eq_le)
        then show "x \<le> offset" using sorted_wrt_nth_less [OF sorted, of j b] b(1,2) by (cases "j = b") auto
      qed
      moreover have "filter (\<lambda>x. x \<le> offset) (drop (Suc b) starts) = []"
        using b(3) by (auto simp: filter_empty_conv in_set_conv_nth not_le)
      ultimately show ?thesis by (metis append_Nil2 append_take_drop_id filter_append)
    qed
    then show ?thesis using b(1) by simp
  qed
  also have "\<dots> = Suc (length (filter (\<lambda>i. s ! i = newline) [0..<offset]))"
  proof -
    have "filter (\<lambda>x. x \<le> offset) starts
        = 0 # map Suc (filter (\<lambda>i. Suc i \<le> offset) (filter (\<lambda>i. s ! i = newline \<and> Suc i < length s) [0..<length s]))"
      by (simp add: starts_def line_starts_eq filter_map o_def)
    also have "[0..<length s] = [0..<offset] @ [offset..<length s]"
      using assms(1) by (metis le0 le_add_diff_inverse less_imp_le_nat upt_add_eq_append)
    also have "filter (\<lambda>i. Suc i \<le> offset) (filter (\<lambda>i. s ! i = newline \<and> Suc i < length s) ([0..<offset] @ [offset..<length s]))
        = filter (\<lambda>i. s ! i = newline) [0..<offset]"
      using assms(1) by (auto simp: filter_empty_conv intro!: filter_cong)
    finally show ?thesis by simp
  qed
  finally show "line = 1 + count_byte (take offset s) newline"
    using assms(1) by (simp add: lc count_filter_upt)
qed

text \<open>
  The line and column of a byte offset are right: the line is one more than the number
  of newlines before the offset, the column counts the bytes from the start of that line, and no
  newline lies between that start and the offset.
\<close>

theorem offset_position_exact:
  assumes "offset < length text"
  shows "case line_and_column_for_offset (line_starts text False) offset of (line, column) \<Rightarrow>
     line = 1 + count_byte (take offset text) newline
     \<and> 1 \<le> column \<and> column \<le> offset + 1
     \<and> newline \<notin> set (slice (offset - (column - 1)) offset text)
     \<and> (column = offset + 1 \<or> text ! (offset - column) = newline)"
proof -
  obtain line column where lc: "line_and_column_for_offset (line_starts text False) offset = (line, column)" by force
  show ?thesis unfolding lc prod.case using position_of_offset [OF assms lc] by blast
qed

definition sample_text :: rstr where
  "sample_text = ''ab'' @ [newline] @ ''cd'' @ [newline]"

theorem offset_position_exact_witness:
  "line_and_column_for_offset (line_starts sample_text False) 4 = (2, 2)
   \<and> (case line_and_column_for_offset (line_starts sample_text False) 4 of (line, column) \<Rightarrow>
     line = 1 + count_byte (take 4 sample_text) newline
     \<and> 1 \<le> column \<and> column \<le> 4 + 1
     \<and> newline \<notin> set (slice (4 - (column - 1)) 4 sample_text)
     \<and> (column = 4 + 1 \<or> sample_text ! (4 - column) = newline))"
proof
  show "line_and_column_for_offset (line_starts sample_text False) 4 = (2, 2)" by code_simp
qed (rule offset_position_exact, simp add: sample_text_def)

section \<open>The narrowest region\<close>

lemma min_by_key_spec:
  "min_by_key key xs = Some x \<Longrightarrow> x \<in> set xs \<and> (\<forall>y \<in> set xs. key x \<le> key y)"
  "min_by_key key xs = None \<longleftrightarrow> xs = []"
proof (induction xs arbitrary: x)
  case (Cons a xs)
  {
    case 1
    then show ?case using Cons.IH
      by (cases "min_by_key key xs") (auto split: if_splits dest: order_trans simp: not_le dest!: less_imp_le)
  next
    case 2
    show ?case by (auto split: option.splits)
  }
qed simp_all

lemma dedup_by_keeps:
  assumes refl: "\<And>x. same x x" and sym: "\<And>x y. same x y \<Longrightarrow> same y x"
    and trans: "\<And>x y z. same x y \<Longrightarrow> same y z \<Longrightarrow> same x z"
  shows "x \<in> set xs \<Longrightarrow> \<exists>y \<in> set (dedup_by same xs). same x y"
proof (induction xs arbitrary: x rule: length_induct)
  case (1 xs)
  show ?case
  proof (cases "(same, xs)" rule: dedup_by.cases)
    case (1 same' a b ys)
    then have xs: "xs = a # b # ys" by simp
    show ?thesis
    proof (cases "same a b")
      case True
      have below: "\<exists>y \<in> set (dedup_by same (a # ys)). same z y" if "z \<in> set (a # ys)" for z
        using "1.IH" that xs by auto
      then have *: "\<exists>y \<in> set (dedup_by same (a # ys)). same z y" if "z \<in> set xs" for z
      proof (cases "z = b")
        case z: True
        obtain y where "y \<in> set (dedup_by same (a # ys))" "same a y" using below [of a] by auto
        then show ?thesis using trans [OF sym [OF True]] z by blast
      qed (use that xs below in auto)
      show ?thesis using * [OF "1.prems"] True xs by simp
    next
      case False
      have "\<exists>y \<in> set (dedup_by same (b # ys)). same z y" if "z \<in> set (b # ys)" for z
        using "1.IH" that xs by auto
      then show ?thesis using "1.prems" False xs refl by auto
    qed
  qed (use "1.prems" refl in auto)
qed

lemma file_region_in:
  "\<exists>r \<in> set (build_regions fx text c). rg_start_line r = 1 \<and> rg_end_line r = max (context_line_count text) 1"
proof -
  obtain rest where rest: "build_regions fx text c = dedup_and_sort_regions
      (region_new fx (fcx_canonical_path c) region_file 1 (max (context_line_count text) 1) 0 (length text) None False # rest)"
    by (simp add: build_regions_def Let_def)
  let ?r = "region_new fx (fcx_canonical_path c) region_file 1 (max (context_line_count text) 1) 0 (length text) None False"
  have "\<exists>y \<in> set (build_regions fx text c). same_region ?r y"
    unfolding rest dedup_and_sort_regions_def
    by (rule dedup_by_keeps) (simp_all add: same_region_def)
  then show ?thesis by (auto simp: same_region_def region_new_def)
qed

lemma regions_from_parses:
  "\<exists>c. fcx_regions (from_parses fx g text path tree clang) = build_regions fx text c"
  by (cases clang; cases tree) (auto simp: from_parses_def build_scopes_and_regions_def Let_def split: prod.split)

text \<open>
  Every line of the file lies in a region, and the region found for a line is a narrowest
  one of those that contain it.
\<close>

theorem narrowest_region_found:
  assumes "1 \<le> line" "line \<le> context_line_count text"
  shows "\<exists>r. region_at_location (from_parses fx g text path tree clang) (source_location_new line column) = Some r
     \<and> contains_line r line
     \<and> list_all (\<lambda>r'. contains_line r' line \<longrightarrow> width_lines r \<le> width_lines r')
         (fcx_regions (from_parses fx g text path tree clang))"
proof -
  define c where "c = from_parses fx g text path tree clang"
  let ?rs = "filter (\<lambda>r. contains_line r line) (fcx_regions c)"
  let ?key = "\<lambda>r. (width_lines r, rg_end_offset r - rg_start_offset r, rg_start_offset r)"
  have at: "region_at_location c (source_location_new line column) = min_by_key ?key ?rs"
    using assms(1) by (simp add: region_at_location_def source_location_new_def max_def)
  obtain c' where "fcx_regions c = build_regions fx text c'" using regions_from_parses by (metis c_def)
  then obtain r where "r \<in> set (fcx_regions c)" "rg_start_line r = 1" "rg_end_line r = max (context_line_count text) 1"
    using file_region_in by metis
  with assms have "r \<in> set ?rs" by (simp add: contains_line_def)
  then have "?rs \<noteq> []" by (metis list.set(1) empty_iff)
  then obtain x where x: "min_by_key ?key ?rs = Some x" using min_by_key_spec(2) by (metis not_None_eq)
  from min_by_key_spec(1) [OF x] have "contains_line x line"
    "\<forall>y \<in> set ?rs. width_lines x \<le> width_lines y" by (auto simp: less_eq_prod_def)
  then show ?thesis using x by (auto simp: at list_all_iff c_def [symmetric])
qed

definition sample_hasher :: fx_hasher where
  "sample_hasher = \<lparr>fx_str = (\<lambda>s. of_nat (length s)), fx_region = (\<lambda>k. of_nat (fst (snd k))), fx_sizes = (\<lambda>ns. of_nat (sum_list ns))\<rparr>"

definition sample_grammar :: cpp_grammar where
  "sample_grammar =
     \<lparr>sym_namespace_definition = 1, sym_class_specifier = 2, sym_struct_specifier = 3, sym_union_specifier = 4,
      sym_enum_specifier = 5, sym_function_definition = 6, sym_function_declarator = 7, sym_lambda_expression = 8,
      sym_preproc_if = 9, sym_preproc_ifdef = 10, sym_preproc_elif = 11, sym_preproc_else = 12, sym_preproc_def = 13,
      sym_preproc_function_def = 14, sym_template_declaration = 15, sym_attribute_declaration = 16,
      cursor_function_template = 30, type_unexposed = 1, storage_class_invalid = 0\<rparr>"

theorem narrowest_region_found_witness:
  "\<exists>r. region_at_location (from_parses sample_hasher sample_grammar sample_text [] None None) (source_location_new 2 1) = Some r
     \<and> contains_line r 2
     \<and> list_all (\<lambda>r'. contains_line r' 2 \<longrightarrow> width_lines r \<le> width_lines r')
         (fcx_regions (from_parses sample_hasher sample_grammar sample_text [] None None))"
proof (rule narrowest_region_found)
  show "(2 :: nat) \<le> context_line_count sample_text" by code_simp
qed simp

end
