(* ===== verification/Scheduler.thy ===== *)
theory Scheduler
  imports File_Unit File_Context "HOL-Library.Multiset"
begin

text \<open>
  \<^verbatim>\<open>src/src/runtime/scheduler.rs\<close>: how the files of a run are costed, grouped into units, spread
  over lanes and cut into batches, and the history of measured costs.

  Machine integers are natural numbers with the saturation (or, for the plain sums of the code,
  the wrap-around) written out.  The file system is the record \<open>dispatch_fs\<close> and the parser
  manager's classification of a file the function \<open>compdb_kind\<close>; both are arguments.
  The telemetry of the batches (\<^verbatim>\<open>persist_batch_telemetry\<close>) is not modelled.
\<close>

section \<open>Constants and integers\<close>

definition static_cost_base :: nat where "static_cost_base = 200000"
definition static_cost_max_bytes :: nat where "static_cost_max_bytes = 4 * 1024 * 1024"
definition feature_sample_bytes :: nat where "feature_sample_bytes = 64 * 1024"
definition retry_penalty_ns_per_unit :: nat where "retry_penalty_ns_per_unit = 5000000"
definition history_min_samples :: nat where "history_min_samples = 3"
definition batch_max_units_default :: nat where "batch_max_units_default = 8"
definition batch_max_paths_default :: nat where "batch_max_paths_default = 16"
definition low_skew_threshold_bp :: nat where "low_skew_threshold_bp = 25000"
definition medium_skew_threshold_bp :: nat where "medium_skew_threshold_bp = 60000"

definition sat32 :: "nat \<Rightarrow> nat" where "sat32 n = min n (2 ^ 32 - 1)"
definition sat64 :: "nat \<Rightarrow> nat" where "sat64 n = min n u64_max"
definition sat128 :: "nat \<Rightarrow> nat" where "sat128 n = min n (2 ^ 128 - 1)"

section \<open>Cost model\<close>

datatype dispatch_mode = InProcess | WorkerProcess

datatype dispatch_unit_kind = PairedUnit | HeaderOnlyUnit | ImplementationOnlyUnit

datatype extension_class = HeaderLike | ImplementationLike | OtherExtension

fun unit_kind_from :: "file_unit_kind \<Rightarrow> dispatch_unit_kind" where
  "unit_kind_from Paired = PairedUnit"
| "unit_kind_from HeaderOnly = HeaderOnlyUnit"
| "unit_kind_from ImplementationOnly = ImplementationOnlyUnit"

fun dispatch_priority :: "dispatch_unit_kind \<Rightarrow> nat" where
  "dispatch_priority PairedUnit = 0"
| "dispatch_priority HeaderOnlyUnit = 1"
| "dispatch_priority ImplementationOnlyUnit = 2"

fun unit_multiplier_bp :: "dispatch_unit_kind \<Rightarrow> nat" where
  "unit_multiplier_bp PairedUnit = 13000"
| "unit_multiplier_bp HeaderOnlyUnit = 11500"
| "unit_multiplier_bp ImplementationOnlyUnit = 10000"

fun extension_multiplier_bp :: "extension_class \<Rightarrow> nat" where
  "extension_multiplier_bp HeaderLike = 11500"
| "extension_multiplier_bp ImplementationLike = 10000"
| "extension_multiplier_bp OtherExtension = 9500"

fun semantic_mult_bp :: "semantic_compdb_context_kind \<Rightarrow> nat" where
  "semantic_mult_bp NoContext = 8500"
| "semantic_mult_bp Exact = 10500"
| "semantic_mult_bp PairedSourceHeuristic = 12000"
| "semantic_mult_bp HeaderConsensus = 15500"
| "semantic_mult_bp SourceConsensus = 13500"

definition extension_class_for_path :: "rstr \<Rightarrow> extension_class" where
  "extension_class_for_path path =
     (let ext = unwrap_or (extension path) [] in
      if is_header_extension ext then HeaderLike
      else if is_implementation_extension ext then ImplementationLike
      else OtherExtension)"

record sample_analysis =
  sa_estimated_line_count :: nat
  sa_preprocessor_density_bp :: nat
  sa_comment_density_bp :: nat

text \<open>The counters over the lines of the sample: lines, preprocessor lines, comment lines, in a block.\<close>

definition analyze_line :: "rstr \<Rightarrow> nat \<times> nat \<times> nat \<times> bool \<Rightarrow> nat \<times> nat \<times> nat \<times> bool" where
  "analyze_line line = (\<lambda>(lines, preprocessor_lines, comment_lines, in_block_comment).
     let lines = sat64 (lines + 1);
         trimmed = trim_start line;
         preprocessor_lines = (if starts_with trimmed ''#'' then sat64 (preprocessor_lines + 1)
                               else preprocessor_lines);
         counts_as_comment = (in_block_comment \<or> starts_with trimmed ''//'');
         (counts_as_comment, in_block_comment) =
           (if starts_with trimmed ''/*''
            then (True, in_block_comment \<or> \<not> contains trimmed ''*/'')
            else (counts_as_comment, in_block_comment));
         (counts_as_comment, in_block_comment) =
           (if in_block_comment then (True, \<not> contains trimmed ''*/'')
            else (counts_as_comment, in_block_comment));
         comment_lines = (if counts_as_comment then sat64 (comment_lines + 1) else comment_lines)
     in (lines, preprocessor_lines, comment_lines, in_block_comment))"

definition analyze_sample :: "rstr \<Rightarrow> nat \<Rightarrow> sample_analysis" where
  "analyze_sample sample byte_len =
     (if sample = []
      then \<lparr>sa_estimated_line_count = (if byte_len > 0 then 1 else 0),
            sa_preprocessor_density_bp = 0, sa_comment_density_bp = 0\<rparr>
      else
        let (lines, preprocessor_lines, comment_lines, in_block) =
              fold analyze_line (str_lines sample) (0, 0, 0, False);
            sample_line_count = max lines 1;
            estimated_line_count =
              (if byte_len > length sample \<and> sample \<noteq> []
               then max (sat64 (sample_line_count * byte_len) div length sample) 1
               else sample_line_count)
        in \<lparr>sa_estimated_line_count = estimated_line_count,
            sa_preprocessor_density_bp = sat64 (preprocessor_lines * 10000) div sample_line_count,
            sa_comment_density_bp = sat64 (comment_lines * 10000) div sample_line_count\<rparr>)"

record feature_cache_entry =
  fe_byte_len :: nat
  fe_modified_unix_nanos :: nat
  fe_sample_len :: nat
  fe_estimated_line_count :: nat
  fe_preprocessor_density_bp :: nat
  fe_comment_density_bp :: nat
  fe_extension_class :: extension_class

record feature_cache =
  fc_path :: rstr
  fc_writable :: bool
  fc_dirty :: bool
  fc_entries :: "rstr \<rightharpoonup> feature_cache_entry"

text \<open>Metadata is the length and the time of the last change in nanoseconds, if known.\<close>

record dispatch_fs =
  fs_metadata :: "rstr \<Rightarrow> (nat \<times> nat option) option"
  fs_content :: "rstr \<Rightarrow> rstr option"
  fs_canonical :: "rstr \<Rightarrow> rstr option"
  fs_is_file :: "rstr \<Rightarrow> bool"

definition normalize_path_identity :: "dispatch_fs \<Rightarrow> rstr \<Rightarrow> rstr" where
  "normalize_path_identity fs path = normalize_path (unwrap_or (fs_canonical fs path) path)"

definition read_path_sample :: "dispatch_fs \<Rightarrow> rstr \<Rightarrow> nat \<Rightarrow> rstr" where
  "read_path_sample fs path max_bytes =
     (case fs_content fs path of None \<Rightarrow> [] | Some content \<Rightarrow> take max_bytes content)"

definition load_sampled_features ::
    "dispatch_fs \<Rightarrow> rstr \<Rightarrow> feature_cache \<Rightarrow> feature_cache_entry \<times> feature_cache" where
  "load_sampled_features fs path cache =
     (let path_identity = normalize_path_identity fs path;
          metadata = fs_metadata fs path;
          byte_len = unwrap_or (map_option (\<lambda>item. max (fst item) 1) metadata) 1;
          modified_unix_nanos =
            (case metadata of Some (_, Some nanos) \<Rightarrow> sat64 nanos | _ \<Rightarrow> 0);
          ext_class = extension_class_for_path path;
          sample = read_path_sample fs path feature_sample_bytes;
          analyzed = analyze_sample sample byte_len;
          fresh = \<lparr>fe_byte_len = byte_len, fe_modified_unix_nanos = modified_unix_nanos,
                   fe_sample_len = length sample,
                   fe_estimated_line_count = sa_estimated_line_count analyzed,
                   fe_preprocessor_density_bp = sa_preprocessor_density_bp analyzed,
                   fe_comment_density_bp = sa_comment_density_bp analyzed,
                   fe_extension_class = ext_class\<rparr>;
          hit = (case fc_entries cache path_identity of
                   Some entry \<Rightarrow>
                     if fe_byte_len entry = byte_len \<and> fe_modified_unix_nanos entry = modified_unix_nanos
                     then Some entry else None
                 | None \<Rightarrow> None)
      in case hit of
           Some entry \<Rightarrow> (entry, cache)
         | None \<Rightarrow>
             (fresh, if fc_writable cache
                     then cache\<lparr>fc_entries := (fc_entries cache)(path_identity \<mapsto> fresh), fc_dirty := True\<rparr>
                     else cache))"

record dispatch_features =
  df_byte_len :: nat
  df_sample_len :: nat
  df_estimated_line_count :: nat
  df_preprocessor_density_bp :: nat
  df_comment_density_bp :: nat
  df_extension_class :: extension_class
  df_semantic_context_kind :: semantic_compdb_context_kind
  df_unit_kind :: dispatch_unit_kind

definition features_from_path ::
    "dispatch_fs \<Rightarrow> (rstr \<Rightarrow> semantic_compdb_context_kind) \<Rightarrow> dispatch_unit_kind \<Rightarrow> rstr \<Rightarrow> feature_cache
      \<Rightarrow> dispatch_features \<times> feature_cache" where
  "features_from_path fs compdb_kind kind path cache =
     (let (sampled, cache) = load_sampled_features fs path cache in
      (\<lparr>df_byte_len = max (fe_byte_len sampled) 1, df_sample_len = fe_sample_len sampled,
        df_estimated_line_count = fe_estimated_line_count sampled,
        df_preprocessor_density_bp = fe_preprocessor_density_bp sampled,
        df_comment_density_bp = fe_comment_density_bp sampled,
        df_extension_class = fe_extension_class sampled,
        df_semantic_context_kind = compdb_kind path, df_unit_kind = kind\<rparr>, cache))"

definition static_cost :: "dispatch_features \<Rightarrow> nat" where
  "static_cost f =
     (let byte_term = sat64 (min (df_byte_len f) static_cost_max_bytes * 18);
          line_term = sat64 (df_estimated_line_count f * 2400);
          macro_term = sat64 (df_preprocessor_density_bp f * line_term) div 10000 div 2;
          comment_term = sat64 (df_comment_density_bp f * line_term) div 10000 div 6;
          base_cost = sat64 (sat64 (sat64 (sat64 (static_cost_base + byte_term) + line_term) + macro_term)
                        + comment_term);
          cost = sat128 (sat128 (sat128 (base_cost * unit_multiplier_bp (df_unit_kind f))
                    * extension_multiplier_bp (df_extension_class f))
                    * semantic_mult_bp (df_semantic_context_kind f)) div 10000 div 10000 div 10000
      in min (max cost 1) u64_max)"

section \<open>The history of measured costs\<close>

record dispatch_observation =
  do_path_identity :: rstr
  do_observed_size :: nat
  do_observed_lines :: nat
  do_elapsed_wall_ns :: nat
  do_total_wall_ns :: nat
  do_retry_effort_units :: nat
  do_retry_penalty_ns :: nat
  do_error :: bool

definition observation_from_processed_file ::
    "dispatch_fs \<Rightarrow> rstr \<Rightarrow> rstr option \<Rightarrow> nat \<Rightarrow> nat \<Rightarrow> nat \<Rightarrow> bool \<Rightarrow> dispatch_observation" where
  "observation_from_processed_file fs path original_text engine_nanos total_nanos effort had_error =
     (let (size, lines) =
            (case original_text of
               Some text \<Rightarrow> (length text, max (length (str_lines text)) 1)
             | None \<Rightarrow>
                 let size = unwrap_or (map_option fst (fs_metadata fs path)) 0 in
                 (size, if size = 0 then 0 else 1))
      in \<lparr>do_path_identity = normalize_path_identity fs path, do_observed_size = size,
          do_observed_lines = lines, do_elapsed_wall_ns = sat64 engine_nanos,
          do_total_wall_ns = sat64 total_nanos, do_retry_effort_units = effort,
          do_retry_penalty_ns = sat64 (effort * retry_penalty_ns_per_unit),
          do_error = had_error\<rparr>)"

record dispatch_history_entry =
  dh_samples :: nat
  dh_ewma_elapsed_ns :: nat
  dh_ewma_retry_penalty_ns :: nat
  dh_last_observed_size :: nat
  dh_last_observed_lines :: nat

type_synonym dispatch_history = "rstr \<rightharpoonup> dispatch_history_entry"

definition history_entry_default :: dispatch_history_entry where
  "history_entry_default =
     \<lparr>dh_samples = 0, dh_ewma_elapsed_ns = 0, dh_ewma_retry_penalty_ns = 0, dh_last_observed_size = 0,
      dh_last_observed_lines = 0\<rparr>"

definition ewma :: "nat \<Rightarrow> nat \<Rightarrow> nat" where
  "ewma current observed =
     (if current = 0 then observed
      else min (sat128 (sat128 (current * 7) + observed) div 8) u64_max)"

definition blended_cost :: "dispatch_history \<Rightarrow> rstr \<Rightarrow> nat \<Rightarrow> nat" where
  "blended_cost history path_identity cost =
     (case history path_identity of
        None \<Rightarrow> max cost 1
      | Some entry \<Rightarrow>
          if dh_samples entry < history_min_samples then max cost 1
          else
            let historical = max (sat64 (dh_ewma_elapsed_ns entry + dh_ewma_retry_penalty_ns entry)) 1;
                blended = sat128 (sat128 (historical * 70) + sat128 (cost * 30)) div 100;
                lower = max (sat128 (cost * 1) div 2) 1;
                upper = max (sat128 (cost * 3) div 1) lower
            in min (clamp_nat blended lower upper) u64_max)"

definition record_observation :: "dispatch_observation \<Rightarrow> dispatch_history \<Rightarrow> dispatch_history" where
  "record_observation ob history =
     (if do_error ob then history
      else
        let entry = unwrap_or (history (do_path_identity ob)) history_entry_default in
        history(do_path_identity ob \<mapsto>
          \<lparr>dh_samples = sat32 (dh_samples entry + 1),
           dh_ewma_elapsed_ns = ewma (dh_ewma_elapsed_ns entry) (do_elapsed_wall_ns ob),
           dh_ewma_retry_penalty_ns = ewma (dh_ewma_retry_penalty_ns entry) (do_retry_penalty_ns ob),
           dh_last_observed_size = do_observed_size ob,
           dh_last_observed_lines = do_observed_lines ob\<rparr>))"

definition record_observations :: "dispatch_observation list \<Rightarrow> dispatch_history \<Rightarrow> dispatch_history" where
  "record_observations observations history = fold record_observation observations history"

section \<open>The two caches on disk\<close>

text \<open>
  A snapshot is a version and the entries; its bytes come from the parameters \<open>to_allocvec\<close> and
  \<open>from_bytes\<close> (postcard).  Opening never fails: an absent, unreadable or foreign file is an
  empty cache.  Persisting gives the file to write, if any.
\<close>

datatype persist_error = SerializationFailed

record dispatch_history_store =
  hs_path :: rstr
  hs_entries :: dispatch_history

definition dispatch_history_version :: nat where "dispatch_history_version = 1"
definition dispatch_feature_cache_version :: nat where "dispatch_feature_cache_version = 1"
definition dispatch_history_file_name :: rstr where "dispatch_history_file_name = ''dispatch_cost_cache.bin''"
definition dispatch_feature_cache_file_name :: rstr where
  "dispatch_feature_cache_file_name = ''dispatch_feature_cache.bin''"

definition history_open ::
    "(rstr \<Rightarrow> byte list option) \<Rightarrow> (byte list \<Rightarrow> (nat \<times> dispatch_history) option) \<Rightarrow> rstr \<Rightarrow> dispatch_history_store" where
  "history_open file_at from_bytes run_journal_dir =
     (let path = path_join run_journal_dir dispatch_history_file_name;
          empty = \<lparr>hs_path = path, hs_entries = Map.empty\<rparr>
      in case file_at path of
           None \<Rightarrow> empty
         | Some bytes \<Rightarrow>
             (case from_bytes bytes of
                None \<Rightarrow> empty
              | Some (version, entries) \<Rightarrow>
                  if version \<noteq> dispatch_history_version then empty
                  else \<lparr>hs_path = path, hs_entries = entries\<rparr>))"

definition history_persist ::
    "(nat \<times> dispatch_history \<Rightarrow> byte list option) \<Rightarrow> dispatch_history_store
      \<Rightarrow> persist_error + (rstr \<times> byte list) option" where
  "history_persist to_allocvec store =
     (if hs_path store = [] then Inr None
      else case to_allocvec (dispatch_history_version, hs_entries store) of
             None \<Rightarrow> Inl SerializationFailed
           | Some bytes \<Rightarrow> Inr (Some (hs_path store, bytes)))"

definition feature_cache_open ::
    "(rstr \<Rightarrow> byte list option) \<Rightarrow> (byte list \<Rightarrow> (nat \<times> (rstr \<rightharpoonup> feature_cache_entry)) option) \<Rightarrow> rstr \<Rightarrow> bool
      \<Rightarrow> feature_cache" where
  "feature_cache_open file_at from_bytes run_journal_dir writable =
     (let path = path_join run_journal_dir dispatch_feature_cache_file_name;
          empty = \<lparr>fc_path = path, fc_writable = writable, fc_dirty = False, fc_entries = Map.empty\<rparr>
      in case file_at path of
           None \<Rightarrow> empty
         | Some bytes \<Rightarrow>
             (case from_bytes bytes of
                None \<Rightarrow> empty
              | Some (version, entries) \<Rightarrow>
                  if version \<noteq> dispatch_feature_cache_version then empty
                  else \<lparr>fc_path = path, fc_writable = writable, fc_dirty = False, fc_entries = entries\<rparr>))"

definition feature_cache_persist ::
    "(nat \<times> (rstr \<rightharpoonup> feature_cache_entry) \<Rightarrow> byte list option) \<Rightarrow> feature_cache
      \<Rightarrow> persist_error + (rstr \<times> byte list) option" where
  "feature_cache_persist to_allocvec cache =
     (if \<not> fc_writable cache \<or> \<not> fc_dirty cache \<or> fc_path cache = [] then Inr None
      else case to_allocvec (dispatch_feature_cache_version, fc_entries cache) of
             None \<Rightarrow> Inl SerializationFailed
           | Some bytes \<Rightarrow> Inr (Some (fc_path cache, bytes)))"

text \<open>What a run persists is what the next run opens.\<close>

lemma history_reopened:
  assumes "from_bytes bytes = Some (dispatch_history_version, hs_entries store)"
    and "to_allocvec (dispatch_history_version, hs_entries store) = Some bytes"
    and "hs_path store = path_join dir dispatch_history_file_name"
    and "history_persist to_allocvec store = Inr (Some (path, written))"
  shows "history_open [path \<mapsto> written] from_bytes dir = store"
  using assms by (auto simp: history_persist_def history_open_def split: if_splits)

text \<open>A cache that may not be written stays as it was opened.\<close>

lemma read_only_cache_unchanged:
  "\<not> fc_writable cache \<Longrightarrow> snd (load_sampled_features fs path cache) = cache"
  by (simp add: load_sampled_features_def Let_def split: option.split)

section \<open>Units, lanes and batches\<close>

record dispatch_batch =
  db_estimated_cost :: nat
  db_paths :: "rstr list"

record dispatch_estimate =
  de_static_cost :: nat
  de_estimated_cost :: nat

record dispatch_unit =
  du_group_key :: rstr
  du_kind :: dispatch_unit_kind
  du_estimate :: dispatch_estimate
  du_paths :: "rstr list"

record virtual_lane =
  vl_estimated_cost :: nat
  vl_units :: "dispatch_unit list"

record lease_sizing =
  ls_lane_count :: nat
  ls_target_queue_depth :: nat
  ls_target_batch_cost :: nat
  ls_batch_max_units :: nat
  ls_batch_max_paths :: nat
  ls_singleton_threshold :: nat

text \<open>Paths are compared component by component: the root, then \<open>.\<close>, then \<open>..\<close>, then the names.\<close>

definition path_components :: "rstr \<Rightarrow> (nat \<times> rstr) list" where
  "path_components path =
     (let segments = split_on slash path;
          names = filter (\<lambda>segment. segment \<noteq> [] \<and> segment \<noteq> ''.'') segments
      in (if starts_with path [slash] then [(1, [])]
          else if List.hd segments = ''.'' then [(2, [])] else [])
         @ map (\<lambda>name. if name = ''..'' then (3, []) else (4, name)) names)"

definition path_le :: "rstr \<Rightarrow> rstr \<Rightarrow> bool" where
  "path_le left right \<longleftrightarrow> path_components left \<le> path_components right"

definition group_paths :: "file_unit_layout \<Rightarrow> rstr list \<Rightarrow> (rstr \<times> rstr list) list" where
  "group_paths layout files =
     fold (\<lambda>path groups. entry_update (group_key_for_path layout path) [] (\<lambda>ps. ps @ [path]) groups) files []"

definition estimate_path ::
    "dispatch_fs \<Rightarrow> (rstr \<Rightarrow> semantic_compdb_context_kind) \<Rightarrow> dispatch_history \<Rightarrow> dispatch_unit_kind \<Rightarrow> rstr
      \<Rightarrow> dispatch_estimate list \<times> feature_cache \<Rightarrow> dispatch_estimate list \<times> feature_cache" where
  "estimate_path fs compdb_kind history kind path = (\<lambda>(estimates, cache).
     let (features, cache) = features_from_path fs compdb_kind kind path cache;
         cost = static_cost features;
         estimated_cost = blended_cost history (normalize_path_identity fs path) cost
     in (estimates @ [\<lparr>de_static_cost = cost, de_estimated_cost = estimated_cost\<rparr>], cache))"

text \<open>The plain sums of the code wrap around in a release build.\<close>

definition sum64 :: "nat list \<Rightarrow> nat" where
  "sum64 costs = sum_list costs mod 2 ^ 64"

definition build_unit ::
    "dispatch_fs \<Rightarrow> (rstr \<Rightarrow> semantic_compdb_context_kind) \<Rightarrow> dispatch_history \<Rightarrow> file_unit_layout
      \<Rightarrow> rstr \<times> rstr list \<Rightarrow> dispatch_unit list \<times> feature_cache \<Rightarrow> dispatch_unit list \<times> feature_cache" where
  "build_unit fs compdb_kind history layout = (\<lambda>(group_key, paths) (units, cache).
     let paths = sort_by path_le paths;
         kind = (case paths of p # _ \<Rightarrow> unit_kind_from (kind_for_path (fs_is_file fs) layout p)
                             | [] \<Rightarrow> ImplementationOnlyUnit);
         (estimates, cache) = fold (estimate_path fs compdb_kind history kind) paths ([], cache);
         estimate = \<lparr>de_static_cost = sum64 (map de_static_cost estimates),
                     de_estimated_cost = sum64 (map de_estimated_cost estimates)\<rparr>
     in (units @ [\<lparr>du_group_key = group_key, du_kind = kind, du_estimate = estimate, du_paths = paths\<rparr>],
         cache))"

definition unit_before :: "dispatch_unit \<Rightarrow> dispatch_unit \<Rightarrow> bool" where
  "unit_before left right =
     (let lc = de_estimated_cost (du_estimate left); rc = de_estimated_cost (du_estimate right);
          lp = dispatch_priority (du_kind left); rp = dispatch_priority (du_kind right)
      in if lc \<noteq> rc then rc < lc else if lp \<noteq> rp then lp < rp
         else du_group_key left \<le> du_group_key right)"

definition build_ranked_units ::
    "dispatch_fs \<Rightarrow> (rstr \<Rightarrow> semantic_compdb_context_kind) \<Rightarrow> dispatch_history \<Rightarrow> rstr list \<Rightarrow> feature_cache
      \<Rightarrow> dispatch_unit list \<times> feature_cache" where
  "build_ranked_units fs compdb_kind history files cache =
     (let layout = layout_from_paths files;
          (units, cache) = fold (build_unit fs compdb_kind history layout) (group_paths layout files) ([], cache)
      in (sort_by unit_before units, cache))"

definition workload_lease_sizing :: "dispatch_unit list \<Rightarrow> nat \<Rightarrow> dispatch_mode \<Rightarrow> lease_sizing" where
  "workload_lease_sizing ranked_units parallelism mode =
     (let estimates = sort (map (\<lambda>u. max (de_estimated_cost (du_estimate u)) 1) ranked_units);
          median = max (unwrap_or (nth_opt estimates (length estimates div 2)) 1) 1;
          max_estimate = max (if estimates = [] then 1 else List.last estimates) 1;
          skew_ratio_bp = sat128 (max_estimate * 10000) div median;
          n = length ranked_units;
          depth = (if skew_ratio_bp \<le> low_skew_threshold_bp then sat64 (parallelism * 4)
                   else if skew_ratio_bp \<le> medium_skew_threshold_bp then sat64 (parallelism * 8)
                   else sat64 (parallelism * 12));
          target_queue_depth = min (max (max depth parallelism) n) (max n 1);
          lane_count = min (max (sat64 (target_queue_depth + 1) div 2) parallelism) (max n 1);
          total_estimated_cost =
            max (sum_list (map (\<lambda>u. de_estimated_cost (du_estimate u)) ranked_units)) 1;
          target_batch_cost = max (total_estimated_cost div max target_queue_depth 1) 1;
          (max_units, max_paths) =
            (case mode of InProcess \<Rightarrow> (batch_max_units_default, batch_max_paths_default)
                        | WorkerProcess \<Rightarrow> (1, 2))
      in \<lparr>ls_lane_count = lane_count, ls_target_queue_depth = target_queue_depth,
          ls_target_batch_cost = target_batch_cost, ls_batch_max_units = max_units,
          ls_batch_max_paths = max_paths, ls_singleton_threshold = sat128 (target_batch_cost * 3) div 2\<rparr>)"

definition cheapest_lane :: "virtual_lane list \<Rightarrow> nat" where
  "cheapest_lane lanes =
     fold (\<lambda>index target.
         if vl_estimated_cost (lanes ! index) < vl_estimated_cost (lanes ! target) then index else target)
       [1..<length lanes] 0"

definition assign_lane :: "dispatch_unit \<Rightarrow> virtual_lane list \<Rightarrow> virtual_lane list" where
  "assign_lane unit lanes =
     (let target = cheapest_lane lanes in
      lanes[target := \<lparr>vl_estimated_cost = sat128 (vl_estimated_cost (lanes ! target)
                                             + de_estimated_cost (du_estimate unit)),
                       vl_units = vl_units (lanes ! target) @ [unit]\<rparr>])"

definition assign_lanes :: "dispatch_unit list \<Rightarrow> nat \<Rightarrow> virtual_lane list" where
  "assign_lanes ranked_units lane_count =
     fold assign_lane ranked_units (replicate lane_count \<lparr>vl_estimated_cost = 0, vl_units = []\<rparr>)"

record split_state =
  sp_batches :: "dispatch_batch list"
  sp_paths :: "rstr list"
  sp_cost :: nat
  sp_units :: nat
  sp_path_count :: nat

definition flush_current :: "split_state \<Rightarrow> split_state" where
  "flush_current s =
     (if sp_paths s = [] then s
      else \<lparr>sp_batches = sp_batches s @ [\<lparr>db_estimated_cost = min (sp_cost s) u64_max, db_paths = sp_paths s\<rparr>],
            sp_paths = [], sp_cost = 0, sp_units = 0, sp_path_count = 0\<rparr>)"

definition split_unit :: "lease_sizing \<Rightarrow> dispatch_unit \<Rightarrow> split_state \<Rightarrow> split_state" where
  "split_unit sizing unit s =
     (let unit_cost = de_estimated_cost (du_estimate unit);
          unit_path_count = length (du_paths unit);
          is_elephant = unit_cost > ls_singleton_threshold sizing;
          would_exceed_cost = (sp_paths s \<noteq> [] \<and> sat128 (sp_cost s + unit_cost) > ls_target_batch_cost sizing);
          would_exceed_units = (sp_units s \<ge> ls_batch_max_units sizing);
          would_exceed_paths =
            (sp_paths s \<noteq> [] \<and> sat64 (sp_path_count s + unit_path_count) > ls_batch_max_paths sizing);
          s = (if would_exceed_cost \<or> would_exceed_units \<or> would_exceed_paths then flush_current s else s)
      in if is_elephant
         then let s = flush_current s in
              s\<lparr>sp_batches := sp_batches s @
                   [\<lparr>db_estimated_cost = min unit_cost u64_max, db_paths = du_paths unit\<rparr>]\<rparr>
         else s\<lparr>sp_cost := sat128 (sp_cost s + unit_cost), sp_units := sat64 (sp_units s + 1),
                sp_path_count := sat64 (sp_path_count s + unit_path_count),
                sp_paths := sp_paths s @ du_paths unit\<rparr>)"

definition split_lane :: "lease_sizing \<Rightarrow> virtual_lane \<Rightarrow> dispatch_batch list" where
  "split_lane sizing vlane =
     sp_batches (flush_current (fold (split_unit sizing) (vl_units vlane)
       \<lparr>sp_batches = [], sp_paths = [], sp_cost = 0, sp_units = 0, sp_path_count = 0\<rparr>))"

definition split_into_batches :: "virtual_lane list \<Rightarrow> lease_sizing \<Rightarrow> dispatch_batch list list" where
  "split_into_batches lanes sizing = map (split_lane sizing) lanes"

definition interleave_lane_batches :: "'b list list \<Rightarrow> 'b list" where
  "interleave_lane_batches lane_batches =
     (let max_batches = fold max (map length lane_batches) 0 in
      concat (map (\<lambda>batch_index.
          List.map_filter (\<lambda>vlane. nth_opt vlane batch_index) lane_batches) [0..<max_batches]))"

definition plan_batches ::
    "dispatch_fs \<Rightarrow> (rstr \<Rightarrow> semantic_compdb_context_kind) \<Rightarrow> dispatch_history \<Rightarrow> rstr list \<Rightarrow> nat \<Rightarrow> dispatch_mode
      \<Rightarrow> feature_cache \<Rightarrow> dispatch_batch list \<times> feature_cache" where
  "plan_batches fs compdb_kind history files parallelism mode cache =
     (if files = [] \<or> parallelism = 0 then ([], cache)
      else
        let (ranked_units, cache) = build_ranked_units fs compdb_kind history files cache in
        if ranked_units = [] then ([], cache)
        else
          let sizing = workload_lease_sizing ranked_units parallelism mode;
              lanes = assign_lanes ranked_units (ls_lane_count sizing)
          in (interleave_lane_batches (split_into_batches lanes sizing), cache))"

section \<open>Nothing is lost on the way\<close>

lemma mset_insert_by [simp]: "mset (insert_by le x ys) = add_mset x (mset ys)"
  by (induction ys) auto

lemma mset_sort_by [simp]: "mset (sort_by le xs) = mset xs"
  by (induction xs) auto

lemma group_paths_spec:
  "distinct (map fst (group_paths layout files))"
  "map_of (group_paths layout files) k =
     (if k \<in> group_key_for_path layout ` set files
      then Some (filter (\<lambda>p. group_key_for_path layout p = k) files) else None)"
proof (induction files arbitrary: k rule: rev_induct)
  case (snoc p files)
  have step: "group_paths layout (files @ [p]) =
      entry_update (group_key_for_path layout p) [] (\<lambda>ps. ps @ [p]) (group_paths layout files)"
    by (simp add: group_paths_def)
  {
    case 1
    show ?case using snoc(1) by (simp add: step)
  next
    case 2
    have "filter (\<lambda>q. group_key_for_path layout q = k) files = []"
      if "k \<notin> group_key_for_path layout ` set files"
      using that by (auto simp: filter_empty_conv)
    then show ?case unfolding step map_of_entry_update snoc(2) by auto
  }
qed (simp_all add: group_paths_def)

lemma group_paths_member:
  "(k, ps) \<in> set (group_paths layout files) \<longleftrightarrow>
     k \<in> group_key_for_path layout ` set files \<and> ps = filter (\<lambda>p. group_key_for_path layout p = k) files"
  using map_of_eq_Some_iff [OF group_paths_spec(1), of layout files k ps]
  by (auto simp: group_paths_spec(2) split: if_splits)

lemma mset_entry_update:
  "mset (concat (map snd (entry_update k [] (\<lambda>ps. ps @ [p]) groups))) = add_mset p (mset (concat (map snd groups)))"
  by (induction groups) auto

lemma mset_group_paths: "mset (concat (map snd (group_paths layout files))) = mset files"
  by (induction files rule: rev_induct) (simp_all add: group_paths_def mset_entry_update)

text \<open>The units are the groups with their paths sorted.\<close>

lemma build_units:
  "map (\<lambda>u. (du_group_key u, du_paths u)) (fst (fold (build_unit fs compdb_kind history layout) groups (units, cache)))
     = map (\<lambda>u. (du_group_key u, du_paths u)) units @ map (\<lambda>(k, ps). (k, sort_by path_le ps)) groups"
proof (induction groups arbitrary: units cache)
  case (Cons g groups)
  obtain k ps where g: "g = (k, ps)" by force
  obtain es c where e: "fold (estimate_path fs compdb_kind history
      (case sort_by path_le ps of p # _ \<Rightarrow> unit_kind_from (kind_for_path (fs_is_file fs) layout p)
                             | [] \<Rightarrow> ImplementationOnlyUnit)) (sort_by path_le ps) ([], cache) = (es, c)" by force
  obtain u where u: "build_unit fs compdb_kind history layout g (units, cache) = (units @ [u], c)"
    "du_group_key u = k" "du_paths u = sort_by path_le ps"
    by (simp add: g build_unit_def Let_def e)
  show ?case using Cons.IH [of "units @ [u]" c] u by (simp add: g)
qed simp

lemma ranked_units_mset:
  "image_mset (\<lambda>u. (du_group_key u, du_paths u)) (mset (fst (build_ranked_units fs compdb_kind history files cache)))
     = image_mset (\<lambda>(k, ps). (k, sort_by path_le ps)) (mset (group_paths (layout_from_paths files) files))"
proof -
  let ?layout = "layout_from_paths files"
  let ?us = "fst (fold (build_unit fs compdb_kind history ?layout) (group_paths ?layout files) ([], cache))"
  have "map (\<lambda>u. (du_group_key u, du_paths u)) ?us = map (\<lambda>(k, ps). (k, sort_by path_le ps)) (group_paths ?layout files)"
    using build_units [of fs compdb_kind history ?layout "group_paths ?layout files" "[]" cache] by simp
  then have "mset (map (\<lambda>u. (du_group_key u, du_paths u)) ?us)
      = mset (map (\<lambda>(k, ps). (k, sort_by path_le ps)) (group_paths ?layout files))" by (rule arg_cong)
  then show ?thesis by (simp add: build_ranked_units_def Let_def case_prod_unfold)
qed

definition units_of :: "rstr list \<Rightarrow> dispatch_unit list \<Rightarrow> bool" where
  "units_of files units \<longleftrightarrow>
     mset (concat (map du_paths units)) = mset files
     \<and> (\<forall>u \<in> set units. du_paths u \<noteq> []
          \<and> du_paths u = sort_by path_le (filter (\<lambda>p. group_key_for_path (layout_from_paths files) p = du_group_key u) files))"

lemma mset_concat_map: "mset (concat (map f xs)) = (\<Sum>x \<in># mset xs. mset (f x))"
  by (induction xs) auto

lemma mset_concat_cong: "mset xss = mset yss \<Longrightarrow> mset (concat xss) = mset (concat yss)"
  using mset_concat_map [of "\<lambda>x. x" xss] mset_concat_map [of "\<lambda>x. x" yss] by simp

lemma ranked_units_of: "units_of files (fst (build_ranked_units fs compdb_kind history files cache))"
proof -
  let ?us = "fst (build_ranked_units fs compdb_kind history files cache)"
  let ?layout = "layout_from_paths files"
  note m = ranked_units_mset [of fs compdb_kind history files cache]
  have "mset (concat (map du_paths ?us)) = (\<Sum>g \<in># image_mset (\<lambda>u. (du_group_key u, du_paths u)) (mset ?us). mset (snd g))"
    by (simp add: mset_concat_map image_mset.compositionality o_def)
  also have "\<dots> = (\<Sum>g \<in># mset (group_paths ?layout files). mset (snd g))"
    unfolding m by (simp add: image_mset.compositionality o_def case_prod_unfold)
  also have "\<dots> = mset files"
    using mset_group_paths [of ?layout files] by (simp add: mset_concat_map)
  finally have all: "mset (concat (map du_paths ?us)) = mset files" .
  have "du_paths u \<noteq> [] \<and> du_paths u = sort_by path_le (filter (\<lambda>p. group_key_for_path ?layout p = du_group_key u) files)"
    if u: "u \<in> set ?us" for u
  proof -
    have "(du_group_key u, du_paths u) \<in># image_mset (\<lambda>u. (du_group_key u, du_paths u)) (mset ?us)"
      using u by auto
    then obtain k ps where g: "(k, ps) \<in> set (group_paths ?layout files)"
      "du_group_key u = k" "du_paths u = sort_by path_le ps"
      unfolding m by auto
    from g(1) have "ps \<noteq> []" "ps = filter (\<lambda>p. group_key_for_path ?layout p = k) files"
      by (auto simp: group_paths_member filter_empty_conv)
    with g show ?thesis by (metis length_0_conv length_sort_by)
  qed
  with all show ?thesis unfolding units_of_def by blast
qed

text \<open>Lanes: every unit goes to one lane, and there is a lane for it.\<close>

lemma cheapest_lane_less: "lanes \<noteq> [] \<Longrightarrow> cheapest_lane lanes < length lanes"
proof -
  assume "lanes \<noteq> []"
  then have "0 < length lanes" by simp
  moreover have "t < n \<Longrightarrow> list_all (\<lambda>i. i < n) is \<Longrightarrow>
      fold (\<lambda>i t. if vl_estimated_cost (lanes ! i) < vl_estimated_cost (lanes ! t) then i else t) is t < n"
    for t n "is"
    by (induction "is" arbitrary: t) auto
  ultimately show ?thesis unfolding cheapest_lane_def by (simp add: list_all_iff)
qed

lemma mset_assign_lane:
  assumes "lanes \<noteq> []"
  shows "mset (concat (map vl_units (assign_lane unit lanes)))
      = add_mset unit (mset (concat (map vl_units lanes)))"
    and "assign_lane unit lanes \<noteq> []"
proof -
  define t where "t = cheapest_lane lanes"
  have t: "t < length lanes" using cheapest_lane_less [OF assms] by (simp add: t_def)
  obtain l where l: "assign_lane unit lanes = lanes[t := l]" "vl_units l = vl_units (lanes ! t) @ [unit]"
    by (simp add: assign_lane_def Let_def t_def)
  have "lanes = take t lanes @ lanes ! t # drop (Suc t) lanes" using t by (rule id_take_nth_drop)
  then have "concat (map vl_units lanes) = concat (map vl_units (take t lanes)) @ vl_units (lanes ! t)
      @ concat (map vl_units (drop (Suc t) lanes))"
    by (metis concat.simps(2) concat_append list.simps(9) map_append)
  then show "mset (concat (map vl_units (assign_lane unit lanes)))
      = add_mset unit (mset (concat (map vl_units lanes)))"
    using t by (simp add: l upd_conv_take_nth_drop)
  show "assign_lane unit lanes \<noteq> []" using assms by (simp add: l)
qed

lemma mset_assign_lanes:
  assumes "n > 0"
  shows "mset (concat (map vl_units (assign_lanes units n))) = mset units"
proof -
  have "mset (concat (map vl_units (fold assign_lane units lanes))) = mset units + mset (concat (map vl_units lanes))"
    if "lanes \<noteq> []" for lanes
    using that by (induction units arbitrary: lanes) (simp_all add: mset_assign_lane)
  from this [of "replicate n \<lparr>vl_estimated_cost = 0, vl_units = []\<rparr>"] assms show ?thesis
    by (simp add: assign_lanes_def map_replicate concat_replicate_trivial)
qed

text \<open>
  Batches: a lane is cut into runs of units.  A run is one unit, or it respects both limits of
  the lease.
\<close>

abbreviation paths_of :: "dispatch_unit list \<Rightarrow> rstr list" where
  "paths_of us \<equiv> concat (map du_paths us)"

definition fits :: "lease_sizing \<Rightarrow> dispatch_unit list \<Rightarrow> bool" where
  "fits sizing us \<longleftrightarrow>
     us \<noteq> [] \<and> (length us = 1 \<or> length us \<le> ls_batch_max_units sizing \<and> length (paths_of us) \<le> ls_batch_max_paths sizing)"

definition packed :: "lease_sizing \<Rightarrow> dispatch_unit list \<Rightarrow> dispatch_unit list list \<Rightarrow> dispatch_unit list \<Rightarrow> split_state \<Rightarrow> bool" where
  "packed sizing units uss cur s \<longleftrightarrow>
     map db_paths (sp_batches s) = map paths_of uss \<and> sp_paths s = paths_of cur \<and> concat uss @ cur = units
     \<and> list_all (fits sizing) uss \<and> (cur = [] \<or> fits sizing cur)
     \<and> list_all (\<lambda>u. du_paths u \<noteq> []) cur
     \<and> sp_units s = sat64 (length cur) \<and> sp_path_count s = sat64 (length (paths_of cur))"

lemma sat64_add: "sat64 (sat64 a + b) = sat64 (a + b)"
  by (simp add: sat64_def)

lemma packed_flush:
  assumes "packed sizing units uss cur s"
  shows "\<exists>uss. packed sizing units uss [] (flush_current s)"
proof (cases cur)
  case Nil
  then show ?thesis using assms by (auto simp: packed_def flush_current_def)
next
  case (Cons u us)
  then have "sp_paths s \<noteq> []" using assms by (simp add: packed_def)
  then have "packed sizing units (uss @ [cur]) [] (flush_current s)"
    using assms Cons by (simp add: packed_def flush_current_def sat64_def)
  then show ?thesis ..
qed

lemma packed_add:
  assumes p: "packed sizing units uss cur s" and u: "du_paths unit \<noteq> []"
    and few: "sp_units s < ls_batch_max_units sizing"
    and short: "sp_paths s = [] \<or> sat64 (sp_path_count s + length (du_paths unit)) \<le> ls_batch_max_paths sizing"
    and small: "ls_batch_max_units sizing < u64_max" "ls_batch_max_paths sizing < u64_max"
  shows "packed sizing (units @ [unit]) uss (cur @ [unit])
      (s\<lparr>sp_cost := c, sp_units := sat64 (sp_units s + 1),
         sp_path_count := sat64 (sp_path_count s + length (du_paths unit)), sp_paths := sp_paths s @ du_paths unit\<rparr>)"
proof -
  have "fits sizing (cur @ [unit])"
  proof (cases cur)
    case (Cons v vs)
    then have "sp_paths s \<noteq> []" using p by (simp add: packed_def)
    then show ?thesis using Cons p few short small by (simp add: packed_def fits_def sat64_def min_def split: if_splits)
  qed (simp add: fits_def)
  then show ?thesis using p u by (simp add: packed_def sat64_add sat64_add [where b = 1, simplified])
qed

lemma packed_split_unit:
  assumes p: "packed sizing units uss cur s" and u: "du_paths unit \<noteq> []"
    and small: "0 < ls_batch_max_units sizing" "ls_batch_max_units sizing < u64_max" "ls_batch_max_paths sizing < u64_max"
  shows "\<exists>uss cur. packed sizing (units @ [unit]) uss cur (split_unit sizing unit s)"
proof -
  define full where "full \<longleftrightarrow> sp_paths s \<noteq> [] \<and> sat128 (sp_cost s + de_estimated_cost (du_estimate unit)) > ls_target_batch_cost sizing
      \<or> sp_units s \<ge> ls_batch_max_units sizing
      \<or> sp_paths s \<noteq> [] \<and> sat64 (sp_path_count s + length (du_paths unit)) > ls_batch_max_paths sizing"
  define s1 where "s1 = (if full then flush_current s else s)"
  obtain uss1 cur1 where p1: "packed sizing units uss1 cur1 s1" and full1: "full \<Longrightarrow> cur1 = []"
    using p packed_flush [OF p] by (cases full) (auto simp: s1_def)
  show ?thesis
  proof (cases "de_estimated_cost (du_estimate unit) > ls_singleton_threshold sizing")
    case True
    obtain uss2 where p2: "packed sizing units uss2 [] (flush_current s1)" using packed_flush [OF p1] ..
    have "packed sizing (units @ [unit]) (uss2 @ [[unit]]) [] (split_unit sizing unit s)"
      using p2 True unfolding packed_def split_unit_def Let_def full_def [symmetric] s1_def [symmetric]
      by (simp add: fits_def)
    then show ?thesis by blast
  next
    case False
    have few: "sp_units s1 < ls_batch_max_units sizing"
      using p1 full1 small(1) by (cases full) (auto simp: packed_def sat64_def s1_def full_def)
    have short: "sp_paths s1 = [] \<or> sat64 (sp_path_count s1 + length (du_paths unit)) \<le> ls_batch_max_paths sizing"
      using p1 full1 by (cases full) (auto simp: packed_def s1_def full_def)
    from packed_add [OF p1 u few short small(2,3)] False show ?thesis
      unfolding split_unit_def Let_def full_def [symmetric] s1_def [symmetric] by auto
  qed
qed

lemma split_lane_packed:
  assumes u: "list_all (\<lambda>u. du_paths u \<noteq> []) (vl_units vlane)"
    and small: "0 < ls_batch_max_units sizing" "ls_batch_max_units sizing < u64_max" "ls_batch_max_paths sizing < u64_max"
  shows "\<exists>uss. map db_paths (split_lane sizing vlane) = map paths_of uss \<and> concat uss = vl_units vlane
           \<and> list_all (fits sizing) uss"
proof -
  let ?init = "\<lparr>sp_batches = [], sp_paths = [], sp_cost = 0, sp_units = 0, sp_path_count = 0\<rparr>"
  have "list_all (\<lambda>u. du_paths u \<noteq> []) units \<Longrightarrow> \<exists>uss cur. packed sizing units uss cur (fold (split_unit sizing) units ?init)"
    for units
  proof (induction units rule: rev_induct)
    case (snoc unit units)
    then show ?case using packed_split_unit [OF _ _ small, of units _ _ _ unit] by auto
  qed (auto simp: packed_def sat64_def)
  with u obtain uss cur where "packed sizing (vl_units vlane) uss cur (fold (split_unit sizing) (vl_units vlane) ?init)" by blast
  then obtain uss' where "packed sizing (vl_units vlane) uss' [] (flush_current (fold (split_unit sizing) (vl_units vlane) ?init))"
    using packed_flush by blast
  then show ?thesis unfolding packed_def split_lane_def by auto
qed

text \<open>Interleaving takes every batch once.\<close>

lemma fold_max_ge: "x \<in> set xs \<or> x \<le> m \<Longrightarrow> x \<le> fold max xs (m :: nat)"
  by (induction xs arbitrary: m) (auto simp: max_def le_max_iff_disj)

lemma mset_column:
  "mset (concat (map (take (Suc m)) xss)) =
     mset (concat (map (take m) xss)) + mset (List.map_filter (\<lambda>xs. nth_opt xs m) xss)"
  by (induction xss) (auto simp: List.map_filter_def nth_opt_def take_Suc_conv_app_nth)

lemma mset_interleave: "mset (interleave_lane_batches xss) = mset (concat xss)"
proof -
  have columns: "mset (concat (map (\<lambda>i. List.map_filter (\<lambda>xs. nth_opt xs i) xss) [0..<m])) = mset (concat (map (take m) xss))"
    for m
  proof (induction m)
    case 0
    show ?case by (induction xss) auto
  next
    case (Suc m)
    then show ?case by (simp add: mset_column)
  qed
  have "take (fold max (map length xss) 0) xs = xs" if "xs \<in> set xss" for xs
    using that fold_max_ge [of "length xs" "map length xss" 0] by auto
  then have "map (take (fold max (map length xss) 0)) xss = xss" by (simp add: map_idI)
  then show ?thesis by (simp only: interleave_lane_batches_def Let_def columns)
qed

section \<open>The plan\<close>

definition mode_max_units :: "dispatch_mode \<Rightarrow> nat" where
  "mode_max_units mode = (case mode of InProcess \<Rightarrow> 8 | WorkerProcess \<Rightarrow> 1)"

definition mode_max_paths :: "dispatch_mode \<Rightarrow> nat" where
  "mode_max_paths mode = (case mode of InProcess \<Rightarrow> 16 | WorkerProcess \<Rightarrow> 2)"

lemma sizing_limits:
  "ls_batch_max_units (workload_lease_sizing units parallelism mode) = mode_max_units mode"
  "ls_batch_max_paths (workload_lease_sizing units parallelism mode) = mode_max_paths mode"
  by (cases mode; simp only: workload_lease_sizing_def Let_def mode_max_units_def mode_max_paths_def
      batch_max_units_default_def batch_max_paths_default_def dispatch_mode.case prod.case lease_sizing.simps)+

lemma sizing_lanes: "parallelism > 0 \<Longrightarrow> ls_lane_count (workload_lease_sizing units parallelism mode) > 0"
  by (cases mode; simp only: workload_lease_sizing_def Let_def dispatch_mode.case prod.case lease_sizing.simps)
     (simp_all only: min_less_iff_conj less_max_iff_disj zero_less_one simp_thms)

lemma runs_of_lanes:
  assumes "list_all (\<lambda>vlane. list_all (\<lambda>u. du_paths u \<noteq> []) (vl_units vlane)) lanes"
    and small: "0 < ls_batch_max_units sizing" "ls_batch_max_units sizing < u64_max" "ls_batch_max_paths sizing < u64_max"
  shows "\<exists>uss. map db_paths (concat (split_into_batches lanes sizing)) = map paths_of uss
           \<and> concat uss = concat (map vl_units lanes) \<and> list_all (fits sizing) uss"
  using assms(1)
proof (induction lanes)
  case Nil
  then show ?case by (auto simp: split_into_batches_def intro: exI [of _ "[]"])
next
  case (Cons vlane lanes)
  then obtain uss where uss: "map db_paths (concat (split_into_batches lanes sizing)) = map paths_of uss"
    "concat uss = concat (map vl_units lanes)" "list_all (fits sizing) uss" by auto
  obtain us where "map db_paths (split_lane sizing vlane) = map paths_of us" "concat us = vl_units vlane"
    "list_all (fits sizing) us"
    using split_lane_packed [OF _ small, of vlane] Cons.prems by auto
  with uss show ?case by (intro exI [of _ "us @ uss"]) (simp add: split_into_batches_def)
qed

text \<open>The plan is a partition of the units into runs that fit.\<close>

lemma plan_runs:
  assumes "parallelism > 0"
  obtains units uss where "units_of files units" "mset (concat uss) = mset units"
    "mset (map db_paths (fst (plan_batches fs compdb_kind history files parallelism mode cache))) = mset (map paths_of uss)"
    "\<And>us. us \<in> set uss \<Longrightarrow>
        us \<noteq> [] \<and> (length us = 1 \<or> length us \<le> mode_max_units mode \<and> length (paths_of us) \<le> mode_max_paths mode)"
proof (cases "files = []")
  case True
  then show ?thesis using that [of "[]" "[]"] by (simp add: plan_batches_def units_of_def)
next
  case False
  obtain units cache' where b: "build_ranked_units fs compdb_kind history files cache = (units, cache')" by force
  have u: "units_of files units" using ranked_units_of [of files fs compdb_kind history cache] by (simp add: b)
  show ?thesis
  proof (cases "units = []")
    case True
    then show ?thesis using that [of "[]" "[]"] u b by (simp add: plan_batches_def)
  next
    case units: False
    define sizing where "sizing = workload_lease_sizing units parallelism mode"
    define lanes where "lanes = assign_lanes units (ls_lane_count sizing)"
    have m: "mset (concat (map vl_units lanes)) = mset units"
      unfolding lanes_def sizing_def by (intro mset_assign_lanes sizing_lanes assms)
    have "list_all (\<lambda>vlane. list_all (\<lambda>u. du_paths u \<noteq> []) (vl_units vlane)) lanes"
    proof -
      have "set (concat (map vl_units lanes)) = set units" using m by (metis set_mset_mset)
      then have "u \<in> set units" if "vlane \<in> set lanes" "u \<in> set (vl_units vlane)" for u vlane using that by auto
      then show ?thesis using u unfolding list_all_iff units_of_def by blast
    qed
    moreover have "0 < mode_max_units mode" "mode_max_units mode < u64_max" "mode_max_paths mode < u64_max"
      by (cases mode; simp add: mode_max_units_def mode_max_paths_def u64_max_def)+
    ultimately obtain uss where uss: "map db_paths (concat (split_into_batches lanes sizing)) = map paths_of uss"
      "concat uss = concat (map vl_units lanes)" "list_all (fits sizing) uss"
      using runs_of_lanes [of lanes sizing] by (auto simp: sizing_def sizing_limits)
    have plan: "fst (plan_batches fs compdb_kind history files parallelism mode cache)
        = interleave_lane_batches (split_into_batches lanes sizing)"
      using assms False units by (simp add: plan_batches_def b lanes_def sizing_def Let_def)
    have "mset (map db_paths (fst (plan_batches fs compdb_kind history files parallelism mode cache)))
        = image_mset db_paths (mset (concat (split_into_batches lanes sizing)))"
      by (simp only: plan mset_map mset_interleave)
    also have "\<dots> = mset (map paths_of uss)" by (simp only: mset_map [symmetric] uss)
    finally show ?thesis
      using that [OF u, of uss] uss(2,3) m by (auto simp: fits_def list_all_iff sizing_def sizing_limits)
  qed
qed

lemma batch_of_run:
  assumes "mset (map db_paths batches) = mset (map paths_of uss)" "b \<in> set batches"
  obtains us where "us \<in> set uss" "db_paths b = paths_of us"
proof -
  have "db_paths b \<in> set (map db_paths batches)" using assms(2) by simp
  also have "\<dots> = set (map paths_of uss)" using assms(1) by (metis set_mset_mset)
  finally show ?thesis using that by auto
qed

lemma batch_units:
  assumes "b \<in> set (fst (plan_batches fs compdb_kind history files parallelism mode cache))"
  obtains units us where "units_of files units" "set us \<subseteq> set units" "db_paths b = paths_of us"
    "us \<noteq> []" "length us = 1 \<or> length us \<le> mode_max_units mode \<and> length (paths_of us) \<le> mode_max_paths mode"
proof -
  have "parallelism > 0" using assms by (cases parallelism) (simp_all add: plan_batches_def)
  then obtain units uss where r: "units_of files units" "mset (concat uss) = mset units"
    "mset (map db_paths (fst (plan_batches fs compdb_kind history files parallelism mode cache))) = mset (map paths_of uss)"
    "\<And>us. us \<in> set uss \<Longrightarrow>
        us \<noteq> [] \<and> (length us = 1 \<or> length us \<le> mode_max_units mode \<and> length (paths_of us) \<le> mode_max_paths mode)"
    using plan_runs [of parallelism files fs compdb_kind history mode cache] by metis
  obtain us where us: "us \<in> set uss" "db_paths b = paths_of us" using batch_of_run [OF r(3) assms] .
  have "set us \<subseteq> set units" using us(1) r(2) by (metis UN_upper set_concat set_mset_mset)
  then show ?thesis using that r(1) us r(4) [OF us(1)] by blast
qed

lemma unit_paths:
  assumes "units_of files units" "u \<in> set units"
  shows "du_paths u \<noteq> []" "p \<in> set (du_paths u) \<Longrightarrow> du_paths u = sort_by path_le
      (filter (\<lambda>q. group_key_for_path (layout_from_paths files) q = group_key_for_path (layout_from_paths files) p) files)"
proof -
  have u: "du_paths u \<noteq> []" "du_paths u = sort_by path_le
      (filter (\<lambda>q. group_key_for_path (layout_from_paths files) q = du_group_key u) files)"
    using assms unfolding units_of_def by blast+
  show "du_paths u \<noteq> []" by (rule u(1))
  assume p: "p \<in> set (du_paths u)"
  have "set (du_paths u) = set (filter (\<lambda>q. group_key_for_path (layout_from_paths files) q = du_group_key u) files)"
    by (subst u(2)) simp
  with p have "group_key_for_path (layout_from_paths files) p = du_group_key u" by simp
  with u(2) show "du_paths u = sort_by path_le
      (filter (\<lambda>q. group_key_for_path (layout_from_paths files) q = group_key_for_path (layout_from_paths files) p) files)"
    by simp
qed

text \<open>
  \<^bold>\<open>C36\<close>. Every file of the run is dispatched exactly once: the batches together hold the files
  with their multiplicities, whatever the costs, the history and the number of lanes.
\<close>

theorem every_file_dispatched_once:
  "mset (concat (map db_paths (fst (plan_batches fs compdb_kind history files parallelism mode cache))))
     = (if parallelism = 0 then {#} else mset files)"
proof (cases "parallelism = 0")
  case False
  then obtain units uss where r: "units_of files units" "mset (concat uss) = mset units"
    "mset (map db_paths (fst (plan_batches fs compdb_kind history files parallelism mode cache))) = mset (map paths_of uss)"
    using plan_runs [of parallelism files fs compdb_kind history mode cache] by blast
  have "mset (concat (map db_paths (fst (plan_batches fs compdb_kind history files parallelism mode cache))))
      = mset (concat (map paths_of uss))"
    using r(3) by (rule mset_concat_cong)
  also have "\<dots> = mset (paths_of (concat uss))" by (induction uss) simp_all
  also have "\<dots> = mset (paths_of units)" using r(2) by (simp only: mset_concat_map)
  finally show ?thesis using False r(1) by (simp add: units_of_def)
qed (simp add: plan_batches_def)

text \<open>
  A batch is never empty, and it keeps a unit together: with a file it holds every other
  file of the same group, so a header and its implementation go to the same worker.
\<close>

theorem units_stay_together:
  "list_all (\<lambda>b. db_paths b \<noteq> [] \<and>
       list_all (\<lambda>p. set (filter (\<lambda>q. group_key_for_path (layout_from_paths files) q
                                    = group_key_for_path (layout_from_paths files) p) files) \<subseteq> set (db_paths b))
         (db_paths b))
     (fst (plan_batches fs compdb_kind history files parallelism mode cache))"
proof -
  have "db_paths b \<noteq> [] \<and> (\<forall>p \<in> set (db_paths b).
      set (filter (\<lambda>q. group_key_for_path (layout_from_paths files) q
                     = group_key_for_path (layout_from_paths files) p) files) \<subseteq> set (db_paths b))"
    if b: "b \<in> set (fst (plan_batches fs compdb_kind history files parallelism mode cache))" for b
  proof -
    obtain units us where r: "units_of files units" "set us \<subseteq> set units" "db_paths b = paths_of us" "us \<noteq> []"
      using batch_units [OF b] .
    have nonempty: "paths_of us \<noteq> []" using r unit_paths(1) [OF r(1)] by (cases us) auto
    have "set (filter (\<lambda>q. group_key_for_path (layout_from_paths files) q
        = group_key_for_path (layout_from_paths files) p) files) \<subseteq> set (paths_of us)" if p: "p \<in> set (paths_of us)" for p
    proof -
      obtain u where u: "u \<in> set us" "p \<in> set (du_paths u)" using p by auto
      with r(2) have "u \<in> set units" by blast
      from arg_cong [OF unit_paths(2) [OF r(1) this u(2)], of set] have
        "set (du_paths u) = set (filter (\<lambda>q. group_key_for_path (layout_from_paths files) q
            = group_key_for_path (layout_from_paths files) p) files)" by (simp only: set_sort_by)
      moreover have "set (du_paths u) \<subseteq> set (paths_of us)" using u(1) by auto
      ultimately show ?thesis by (simp only:)
    qed
    with nonempty show ?thesis unfolding r(3) by blast
  qed
  then show ?thesis unfolding list_all_iff by blast
qed

text \<open>
  A batch for a worker process is one unit, all its files in path order; a batch of the
  in-process mode is one unit or holds at most sixteen files.
\<close>

theorem batches_bounded:
  "list_all (\<lambda>b. list_ex (\<lambda>p. db_paths b = sort_by path_le
                  (filter (\<lambda>q. group_key_for_path (layout_from_paths files) q
                              = group_key_for_path (layout_from_paths files) p) files)) (db_paths b)
              \<or> mode = InProcess \<and> length (db_paths b) \<le> 16)
     (fst (plan_batches fs compdb_kind history files parallelism mode cache))"
proof -
  have "(\<exists>p \<in> set (db_paths b). db_paths b = sort_by path_le
      (filter (\<lambda>q. group_key_for_path (layout_from_paths files) q
                  = group_key_for_path (layout_from_paths files) p) files))
      \<or> mode = InProcess \<and> length (db_paths b) \<le> 16"
    if b: "b \<in> set (fst (plan_batches fs compdb_kind history files parallelism mode cache))" for b
  proof -
    obtain units us where r: "units_of files units" "set us \<subseteq> set units" "db_paths b = paths_of us" "us \<noteq> []"
      "length us = 1 \<or> length us \<le> mode_max_units mode \<and> length (paths_of us) \<le> mode_max_paths mode"
      using batch_units [OF b] .
    show ?thesis
    proof (cases "mode = InProcess \<and> length us \<noteq> 1")
      case True
      then show ?thesis using r(3,5) by (simp add: mode_max_paths_def)
    next
      case False
      have "length us = 1"
      proof (cases mode)
        case InProcess
        with False show ?thesis by simp
      next
        case WorkerProcess
        with r(4,5) show ?thesis by (cases us) (auto simp: mode_max_units_def)
      qed
      then obtain u where us: "us = [u]" by (auto simp: length_Suc_conv)
      then have paths: "db_paths b = du_paths u" and u: "u \<in> set units" using r(2,3) by simp_all
      from unit_paths(1) [OF r(1) u] obtain p where p: "p \<in> set (du_paths u)" by (meson list.set_sel(1))
      with unit_paths(2) [OF r(1) u p] show ?thesis unfolding paths by blast
    qed
  qed
  then show ?thesis unfolding list_all_iff list_ex_iff by blast
qed

section \<open>The history is a bounded correction\<close>

lemma sat128_le: "sat128 n \<le> n"
  by (simp add: sat128_def)

text \<open>
  Whatever the history holds, the cost used for the plan is positive and within a
  factor of the static estimate: at least its half (within 64 bits) and at most three times it.
\<close>

theorem history_bounded_correction:
  "1 \<le> blended_cost history path_identity cost
   \<and> min (cost div 2) u64_max \<le> blended_cost history path_identity cost
   \<and> blended_cost history path_identity cost \<le> max (3 * cost) 1"
proof -
  define b where "b = (case history path_identity of None \<Rightarrow> 0 | Some entry \<Rightarrow>
      sat128 (sat128 (max (sat64 (dh_ewma_elapsed_ns entry + dh_ewma_retry_penalty_ns entry)) 1 * 70)
              + sat128 (cost * 30)) div 100)"
  define l where "l = sat128 (cost * 1) div 2"
  define h where "h = sat128 (cost * 3) div 1"
  have low: "min (cost div 2) u64_max \<le> l"
    by (simp add: l_def sat128_def min_def u64_max_def)
  have high: "h \<le> 3 * cost" unfolding h_def using sat128_le [of "cost * 3"] by simp
  have half: "l \<le> cost" unfolding l_def using sat128_le [of cost] by simp
  have one: "(1 :: nat) \<le> u64_max" by (simp add: u64_max_def)
  have cases: "blended_cost history path_identity cost = max cost 1
    \<or> blended_cost history path_identity cost = min (clamp_nat b (max l 1) (max h (max l 1))) u64_max"
    unfolding l_def h_def by (simp add: blended_cost_def b_def Let_def split: option.split)
  have "max l 1 \<le> clamp_nat b (max l 1) (max h (max l 1))"
    "clamp_nat b (max l 1) (max h (max l 1)) \<le> max h (max l 1)"
    by (auto simp: clamp_nat_def max_def)
  with cases low high half one show ?thesis by (auto simp: min_def max_def split: if_splits)
qed

end
