(* ===== verification/Context_Query.thy ===== *)
theory Context_Query
  imports File_Context
begin

text \<open>
  The queries policies and guards ask about a line: \<^verbatim>\<open>src/src/model/context_query.rs\<close>; the queries of
  \<^verbatim>\<open>src/src/model/project_query.rs\<close> delegate to these.  The unstable sort of the preprocessor
  ranges is modelled as the stable one, which it is for short lists.
\<close>

datatype semantic_line_role = UnknownRole | DeclarationRole | ReferenceRole | MixedRole | StructuralRole

datatype semantic_line_scope =
  UnknownScope | GlobalScope | NamespaceScope | TypeScope | FunctionScope | PreprocessorScope

record semantic_line_profile =
  lp_line :: nat
  lp_role :: semantic_line_role
  lp_scope :: semantic_line_scope
  lp_declaration_count :: nat
  lp_reference_count :: nat
  lp_in_macro_region :: bool
  lp_has_diagnostic_error :: bool
  lp_safe_edit :: bool

record semantic_context_query =
  cq_semantic :: "semantic_file_context option"
  cq_preprocessor_ranges :: "(nat \<times> nat) list"
  cq_diagnostic_error_lines :: "nat set"
  cq_declaration_counts :: "nat \<rightharpoonup> nat"
  cq_reference_counts :: "nat \<rightharpoonup> nat"

definition count_line :: "nat \<Rightarrow> (nat \<rightharpoonup> nat) \<Rightarrow> (nat \<rightharpoonup> nat)" where
  "count_line line counts = (if line = 0 then counts else counts(line \<mapsto> unwrap_or (counts line) 0 + 1))"

definition preprocessor_ranges :: "cpp_grammar \<Rightarrow> semantic_file_context \<Rightarrow> (nat \<times> nat) list" where
  "preprocessor_ranges g context =
     map (\<lambda>s. (sc_start_line s, sc_end_line s))
       (filter (\<lambda>s. is_preprocessor_scope g (sc_node_kind_id s)) (fcx_scopes context))"

definition from_semantic :: "cpp_grammar \<Rightarrow> semantic_file_context option \<Rightarrow> semantic_context_query" where
  "from_semantic g semantic =
     (case semantic of
        None \<Rightarrow> \<lparr>cq_semantic = None, cq_preprocessor_ranges = [], cq_diagnostic_error_lines = {},
                 cq_declaration_counts = Map.empty, cq_reference_counts = Map.empty\<rparr>
      | Some context \<Rightarrow>
          \<lparr>cq_semantic = Some context,
           cq_preprocessor_ranges =
             sort_by (\<lambda>left right. fst left \<le> fst right) (preprocessor_ranges g context),
           cq_diagnostic_error_lines =
             set (map de_line (filter (\<lambda>e. is_error_severity (de_severity e)) (fcx_diagnostic_entries context))),
           cq_declaration_counts = fold (\<lambda>d. count_line (sd_line d)) (fcx_declarations context) Map.empty,
           cq_reference_counts = fold (\<lambda>r. count_line (sr_line r)) (fcx_references context) Map.empty\<rparr>)"

definition is_available :: "semantic_context_query \<Rightarrow> bool" where
  "is_available q \<longleftrightarrow> cq_semantic q \<noteq> None"

definition symbol_at_location ::
    "semantic_context_query \<Rightarrow> source_location \<Rightarrow> int list \<Rightarrow> semantic_declaration option" where
  "symbol_at_location q loc allowed_kinds =
     (case cq_semantic q of
        None \<Rightarrow> None
      | Some semantic \<Rightarrow>
          (case declaration_at_location semantic loc allowed_kinds of
             Some declaration \<Rightarrow> Some declaration
           | None \<Rightarrow>
               (case find (\<lambda>r. sr_line r = sl_line loc \<and> sr_column r = sl_column loc) (fcx_references semantic) of
                  None \<Rightarrow> None
                | Some reference \<Rightarrow>
                    (case find (\<lambda>d. sd_stable_id d = sr_stable_id reference) (fcx_declarations semantic) of
                       None \<Rightarrow> None
                     | Some d \<Rightarrow> if allow_kind allowed_kinds (sd_kind d) then Some d else None))))"

definition symbol_at :: "semantic_context_query \<Rightarrow> nat \<Rightarrow> nat \<Rightarrow> int list \<Rightarrow> semantic_declaration option" where
  "symbol_at q line column allowed_kinds = symbol_at_location q (source_location_new line column) allowed_kinds"

definition decl_by_id :: "semantic_context_query \<Rightarrow> rstr \<Rightarrow> semantic_declaration option" where
  "decl_by_id q stable_id =
     (case cq_semantic q of
        None \<Rightarrow> None
      | Some semantic \<Rightarrow>
          if fcx_decl_index semantic \<noteq> Map.empty
          then (case fcx_decl_index semantic stable_id of
                  None \<Rightarrow> None | Some idx \<Rightarrow> nth_opt (fcx_declarations semantic) idx)
          else find (\<lambda>d. sd_stable_id d = stable_id) (fcx_declarations semantic))"

definition references_of :: "semantic_context_query \<Rightarrow> rstr \<Rightarrow> semantic_reference list" where
  "references_of q stable_id =
     (case cq_semantic q of None \<Rightarrow> [] | Some semantic \<Rightarrow> refs_by_id semantic stable_id)"

definition query_scope_at :: "semantic_context_query \<Rightarrow> nat \<Rightarrow> nat \<Rightarrow> semantic_scope option" where
  "query_scope_at q line column =
     (case cq_semantic q of
        None \<Rightarrow> None | Some semantic \<Rightarrow> scope_at_location semantic (source_location_new line 1))"

definition query_region_at :: "semantic_context_query \<Rightarrow> nat \<Rightarrow> nat \<Rightarrow> semantic_region option" where
  "query_region_at q line column =
     (case cq_semantic q of
        None \<Rightarrow> None | Some semantic \<Rightarrow> region_at_location semantic (source_location_new line column))"

definition regions_for_line :: "semantic_context_query \<Rightarrow> nat \<Rightarrow> semantic_region list" where
  "regions_for_line q line =
     (case cq_semantic q of
        None \<Rightarrow> []
      | Some semantic \<Rightarrow>
          sort_by (\<lambda>left right. (width_lines left, rg_start_offset left, rg_id left)
                              \<le> (width_lines right, rg_start_offset right, rg_id right))
            (filter (\<lambda>region. contains_line region (max line 1)) (fcx_regions semantic)))"

definition is_macro_region_at :: "semantic_context_query \<Rightarrow> source_location \<Rightarrow> bool" where
  "is_macro_region_at q loc \<longleftrightarrow>
     binary_search_by (\<lambda>(start, finish). sl_line loc < start) (\<lambda>(start, finish). start \<le> sl_line loc \<and> sl_line loc \<le> finish)
       (cq_preprocessor_ranges q) \<noteq> None"

definition is_macro_region :: "semantic_context_query \<Rightarrow> nat \<Rightarrow> nat \<Rightarrow> bool" where
  "is_macro_region q line column = is_macro_region_at q (source_location_new line 1)"

definition has_diag_error :: "semantic_context_query \<Rightarrow> nat \<Rightarrow> bool" where
  "has_diag_error q line \<longleftrightarrow> line \<in> cq_diagnostic_error_lines q"

definition is_safe_edit_at :: "cpp_grammar \<Rightarrow> semantic_context_query \<Rightarrow> source_location \<Rightarrow> bool" where
  "is_safe_edit_at g q loc =
     (if \<not> is_available q then False
      else if is_macro_region q (sl_line loc) (sl_column loc) then False
      else if has_diag_error q (sl_line loc)
              \<and> (unwrap_or (cq_declaration_counts q (sl_line loc)) 0 > 0
                 \<or> unwrap_or (cq_reference_counts q (sl_line loc)) 0 > 0) then False
      else if has_diag_error q (sl_line loc)
              \<and> (case query_scope_at q (sl_line loc) (sl_column loc) of
                   None \<Rightarrow> False | Some scope \<Rightarrow> is_preprocessor_scope g (sc_node_kind_id scope)) then False
      else True)"

definition is_safe_edit :: "cpp_grammar \<Rightarrow> semantic_context_query \<Rightarrow> nat \<Rightarrow> nat \<Rightarrow> bool" where
  "is_safe_edit g q line column = is_safe_edit_at g q (source_location_new line column)"

definition is_safe_global :: "semantic_context_query \<Rightarrow> nat \<Rightarrow> nat \<Rightarrow> bool" where
  "is_safe_global q line column =
     (if \<not> is_available q then False
      else if has_diag_error q line then False
      else if is_macro_region q line column then True
      else query_scope_at q line column = None)"

definition line_scope :: "cpp_grammar \<Rightarrow> semantic_context_query \<Rightarrow> nat \<Rightarrow> semantic_line_scope" where
  "line_scope g q line =
     (if \<not> is_available q then UnknownScope
      else case query_scope_at q line 1 of
             None \<Rightarrow> GlobalScope
           | Some scope \<Rightarrow>
               let id = sc_node_kind_id scope in
               if is_preprocessor_scope g id then PreprocessorScope
               else if is_function_scope g id then FunctionScope
               else if is_type_scope g id then TypeScope
               else if is_namespace_scope g id then NamespaceScope
               else GlobalScope)"

definition line_role_for_counts :: "nat \<Rightarrow> nat \<Rightarrow> semantic_line_scope \<Rightarrow> semantic_line_role" where
  "line_role_for_counts declaration_count reference_count scope =
     (if declaration_count > 0 \<and> reference_count > 0 then MixedRole
      else if declaration_count > 0 then DeclarationRole
      else if reference_count > 0 then ReferenceRole
      else if scope \<noteq> UnknownScope then StructuralRole
      else UnknownRole)"

definition line_profile :: "cpp_grammar \<Rightarrow> semantic_context_query \<Rightarrow> nat \<Rightarrow> semantic_line_profile" where
  "line_profile g q line =
     (let line = max line 1;
          declaration_count = unwrap_or (cq_declaration_counts q line) 0;
          reference_count = unwrap_or (cq_reference_counts q line) 0;
          scope = line_scope g q line
      in \<lparr>lp_line = line, lp_role = line_role_for_counts declaration_count reference_count scope,
          lp_scope = scope, lp_declaration_count = declaration_count, lp_reference_count = reference_count,
          lp_in_macro_region = is_macro_region q line 1, lp_has_diagnostic_error = has_diag_error q line,
          lp_safe_edit = is_safe_edit g q line 1\<rparr>)"

definition ratio_bucket :: "nat \<Rightarrow> nat \<Rightarrow> nat \<Rightarrow> nat" where
  "ratio_bucket value total_lines buckets =
     (if total_lines = 0 \<or> buckets = 0 then 0 else min (sat_usize (value * buckets) div total_lines) buckets)"

text \<open>The hash of what kind of lines a set of lines has, in eighths, with its first and last line.\<close>

definition context_cluster_key :: "fx_hasher \<Rightarrow> cpp_grammar \<Rightarrow> semantic_context_query \<Rightarrow> nat set \<Rightarrow> u64" where
  "context_cluster_key fx g q lines =
     (if lines = {} then 0
      else
        let ls = sorted_list_of_set lines;
            total_lines = max (length ls) 1;
            count = (\<lambda>p. ratio_bucket (length (filter p ls)) total_lines 8);
            profile = line_profile g q;
            region_kind = (\<lambda>kind line. case query_region_at q line 1 of
                             None \<Rightarrow> False | Some region \<Rightarrow> rg_kind_id region = kind)
        in fx_sizes fx
             [total_lines,
              count (\<lambda>l. lp_in_macro_region (profile l)),
              count (\<lambda>l. lp_has_diagnostic_error (profile l)),
              count (\<lambda>l. lp_declaration_count (profile l) > 0),
              count (\<lambda>l. lp_reference_count (profile l) > 0),
              count (\<lambda>l. lp_scope (profile l) = FunctionScope),
              count (\<lambda>l. lp_scope (profile l) = TypeScope),
              count (\<lambda>l. lp_scope (profile l) = NamespaceScope),
              count (\<lambda>l. lp_scope (profile l) = PreprocessorScope),
              count (region_kind region_diagnostic),
              count (region_kind region_declaration),
              count (region_kind region_reference),
              List.hd ls, List.last ls])"

section \<open>Facts\<close>

lemma count_lines:
  "unwrap_or (fold (\<lambda>x. count_line (f x)) xs m line) 0
     = unwrap_or (m line) 0 + (if line = 0 then 0 else length (filter (\<lambda>x. f x = line) xs))"
  by (induction xs arbitrary: m) (auto simp: count_line_def)

lemma decl_by_id_find:
  assumes "indexed c"
  shows "decl_by_id (from_semantic g (Some c)) ident = find (\<lambda>d. sd_stable_id d = ident) (fcx_declarations c)"
proof (cases "fcx_decl_index c = Map.empty")
  case True
  then show ?thesis by (simp add: decl_by_id_def from_semantic_def)
next
  case False
  let ?ps = "positions sd_stable_id (fcx_declarations c) ident"
  have i: "fcx_decl_index c ident = (case ?ps of [] \<Rightarrow> None | i # _ \<Rightarrow> Some i)"
    using assms by (simp add: indexed_def)
  have f: "filter (\<lambda>d. sd_stable_id d = ident) (fcx_declarations c) = map ((!) (fcx_declarations c)) ?ps"
    by (simp add: map_positions)
  have hd: "find P xs = (case filter P xs of [] \<Rightarrow> None | y # _ \<Rightarrow> Some y)"
    for P and xs :: "semantic_declaration list"
    by (induction xs) auto
  show ?thesis
  proof (cases ?ps)
    case Nil
    then show ?thesis using False i f by (simp add: decl_by_id_def from_semantic_def hd)
  next
    case (Cons p ps)
    then have "p \<in> set ?ps" by simp
    then have "p < length (fcx_declarations c)" by (simp add: positions_def)
    then show ?thesis using False i f Cons by (simp add: decl_by_id_def from_semantic_def hd nth_opt_def)
  qed
qed

lemma ranges_in_order:
  "sorted_wrt (\<lambda>left right. fst left \<le> fst right) (sort_by (\<lambda>left right. fst left \<le> fst right) (xs :: (nat \<times> nat) list))"
  by (rule sorted_sort_by) auto

lemma binary_search_by_sound: "binary_search_by gt equal xs = Some i \<Longrightarrow> equal (xs ! i)"
  by (auto simp: binary_search_by_def Let_def split: if_splits)

definition in_range :: "nat \<Rightarrow> nat \<times> nat \<Rightarrow> bool" where
  "in_range line bounds \<longleftrightarrow> fst bounds \<le> line \<and> line \<le> snd bounds"

lemma macro_region_search:
  "is_macro_region (from_semantic g (Some c)) line column \<longleftrightarrow>
     binary_search_by (\<lambda>(start, finish). max line 1 < start) (in_range (max line 1))
       (sort_by (\<lambda>left right. fst left \<le> fst right) (preprocessor_ranges g c)) \<noteq> None"
  by (simp add: is_macro_region_def is_macro_region_at_def source_location_new_def from_semantic_def
      in_range_def [abs_def] case_prod_unfold)

lemma bs_loop_less: "0 < sz \<Longrightarrow> base + sz \<le> n \<Longrightarrow> bs_loop gt xs sz base < n"
proof (induction gt xs sz base rule: bs_loop.induct)
  case (1 gt xs sz base)
  show ?case
  proof (cases "sz > 1")
    case True
    have "bs_loop gt xs (sz - sz div 2) (if gt (xs ! (base + sz div 2)) then base else base + sz div 2) < n"
      by (rule 1(1) [OF True refl refl]) (use True 1(3) in auto)
    then show ?thesis using True by (subst bs_loop.simps) (simp add: Let_def)
  next
    case False
    then show ?thesis using 1 by (subst bs_loop.simps) simp
  qed
qed

lemma binary_search_by_less: "binary_search_by gt equal xs = Some i \<Longrightarrow> i < length xs"
  using bs_loop_less [of "length xs" 0 "length xs"] by (auto simp: binary_search_by_def Let_def split: if_splits)

lemma macro_region_sound:
  assumes "is_macro_region (from_semantic g (Some c)) line column"
  shows "list_ex (in_range (max line 1)) (preprocessor_ranges g c)"
proof -
  let ?xs = "sort_by (\<lambda>left right. fst left \<le> fst right) (preprocessor_ranges g c)"
  obtain i where i: "binary_search_by (\<lambda>(start, finish). max line 1 < start) (in_range (max line 1)) ?xs = Some i"
    using assms unfolding macro_region_search by blast
  have "?xs ! i \<in> set ?xs" using binary_search_by_less [OF i] by (rule nth_mem)
  then have "?xs ! i \<in> set (preprocessor_ranges g c)" by (simp only: set_sort_by)
  with binary_search_by_sound [OF i] show ?thesis unfolding list_ex_iff by blast
qed

definition separate_ranges :: "(nat \<times> nat) list \<Rightarrow> bool" where
  "separate_ranges ranges \<longleftrightarrow>
     sorted_wrt (\<lambda>a b. snd a < fst b) (sort_by (\<lambda>left right. fst left \<le> fst right) ranges)
     \<and> list_all (\<lambda>r. fst r \<le> snd r) ranges"

text \<open>
  When the preprocessor ranges of a file do not overlap, the binary search finds a line in
  a macro region exactly when some preprocessor scope contains it.
\<close>

theorem macro_region_exact:
  assumes "separate_ranges (preprocessor_ranges g c)"
  shows "is_macro_region (from_semantic g (Some c)) line column
     \<longleftrightarrow> list_ex (in_range (max line 1)) (preprocessor_ranges g c)"
proof -
  let ?xs = "sort_by (\<lambda>left right. fst left \<le> fst right) (preprocessor_ranges g c)"
  let ?l = "max line 1"
  have apart: "sorted_wrt (\<lambda>a b. fst a \<le> snd a \<and> fst b \<le> snd b \<and> snd a < fst b) ?xs"
  proof -
    have "\<forall>x \<in> set ?xs. fst x \<le> snd x" using assms by (simp add: separate_ranges_def list_all_iff)
    moreover have "sorted_wrt (\<lambda>a b. snd a < fst b) ?xs" using assms by (simp add: separate_ranges_def)
    ultimately show ?thesis by (elim sorted_wrt_mono_rel [rotated]) blast
  qed
  have "sorted_wrt (\<lambda>x y. ((\<lambda>(start, finish). ?l < start) x \<longrightarrow> (\<lambda>(start, finish). ?l < start) y)
      \<and> (in_range ?l x \<longrightarrow> in_range ?l y \<or> (\<lambda>(start, finish). ?l < start) y)) ?xs"
    using apart by (rule sorted_wrt_mono_rel [rotated]) (auto simp: in_range_def)
  moreover have "in_range ?l x \<Longrightarrow> \<not> (\<lambda>(start, finish). ?l < start) x" for x
    by (auto simp: in_range_def)
  ultimately have "binary_search_by (\<lambda>(start, finish). ?l < start) (in_range ?l) ?xs \<noteq> None \<longleftrightarrow> list_ex (in_range ?l) ?xs"
    by (rule binary_search_by_iff)
  then show ?thesis unfolding macro_region_search by (simp only: list_ex_iff set_sort_by)
qed

text \<open>A file with one \<^verbatim>\<open>#if\<close> block, and the same file with a \<^verbatim>\<open>#define\<close> inside the block.\<close>

definition sample_node :: "nat \<Rightarrow> nat \<Rightarrow> nat \<Rightarrow> nat \<Rightarrow> nat \<Rightarrow> ts_node list \<Rightarrow> ts_node" where
  "sample_node kind start finish first_row last_row children =
     TsNode kind start finish first_row last_row False False True None children"

definition guarded_tree :: "ts_node list \<Rightarrow> ts_node" where
  "guarded_tree children = sample_node 0 0 90 0 9 [sample_node 10 0 90 0 9 children]"

definition guarded_context :: "ts_node list \<Rightarrow> semantic_file_context" where
  "guarded_context children = from_parses sample_hasher sample_grammar sample_text [] (Some (guarded_tree children)) None"

definition guard_define :: ts_node where
  "guard_define = sample_node 13 10 20 1 1 []"

lemma guarded_scopes: "fcx_scopes (guarded_context children) = collect_scopes sample_grammar (guarded_tree children)"
  "fcx_diagnostic_entries (guarded_context children) = []"
  by (simp_all add: guarded_context_def from_parses_def empty_context_def)

lemma guarded_ranges:
  "preprocessor_ranges sample_grammar (guarded_context []) = [(1, 10)]"
  "preprocessor_ranges sample_grammar (guarded_context [guard_define]) = [(1, 10), (2, 2)]"
  unfolding preprocessor_ranges_def guarded_scopes by code_simp+

lemma safe_without_diagnostics:
  "fcx_diagnostic_entries c = [] \<Longrightarrow>
     is_safe_edit g (from_semantic g (Some c)) line column = (\<not> is_macro_region (from_semantic g (Some c)) line column)"
  by (simp add: is_safe_edit_def is_safe_edit_at_def is_available_def has_diag_error_def from_semantic_def
      is_macro_region_def source_location_new_def)

theorem macro_region_exact_witness:
  "is_macro_region (from_semantic sample_grammar (Some (guarded_context []))) 5 1
     \<longleftrightarrow> list_ex (in_range (max 5 1)) (preprocessor_ranges sample_grammar (guarded_context []))"
  by (rule macro_region_exact) (simp add: guarded_ranges separate_ranges_def)

text \<open>
  Nested preprocessor scopes defeat the search: in the block of an include guard every
  line is in a macro region and not safe to edit, but a \<^verbatim>\<open>#define\<close> on its second line, as every
  guard has, makes the lines after it look like plain code.
\<close>

theorem nested_macro_region_missed:
  "let plain = from_semantic sample_grammar (Some (guarded_context []));
       guarded = from_semantic sample_grammar (Some (guarded_context [guard_define])) in
   is_macro_region plain 5 1 \<and> \<not> is_safe_edit sample_grammar plain 5 1
   \<and> list_ex (in_range 5) (preprocessor_ranges sample_grammar (guarded_context [guard_define]))
   \<and> \<not> is_macro_region guarded 5 1 \<and> is_safe_edit sample_grammar guarded 5 1"
proof -
  have "is_macro_region (from_semantic sample_grammar (Some (guarded_context []))) 5 1"
    "\<not> is_macro_region (from_semantic sample_grammar (Some (guarded_context [guard_define]))) 5 1"
    unfolding macro_region_search guarded_ranges by code_simp+
  then show ?thesis
    by (simp add: Let_def safe_without_diagnostics guarded_scopes guarded_ranges in_range_def)
qed

end
