(* ===== verification/Semantic_Contract.thy ===== *)
theory Semantic_Contract
  imports File_Context Conflict_Model
begin

text \<open>
  The semantic contract: \<^verbatim>\<open>src/src/engine/semantic_contract.rs\<close> and its modules \<^verbatim>\<open>readiness.rs\<close>,
  \<^verbatim>\<open>context.rs\<close>, \<^verbatim>\<open>snapshot.rs\<close> and \<^verbatim>\<open>transition.rs\<close>.  A snapshot condenses the semantic context
  of a file; a transition compares the snapshots before and after an edit.

  A hash map that is iterated is a list of pairs, one that is only looked up a partial map, and a
  hash set whose order shows in a message a list without duplicates, in the order of insertion.
  An \<open>f64\<close> is a real number.  The specification table of the clauses is in \<open>Conflict_Model\<close>.
\<close>

section \<open>Printing\<close>

text \<open>\<open>{:.3}\<close> and the like: the decimals are rounded to the nearest, ties upwards.\<close>

definition format_fixed :: "nat \<Rightarrow> real \<Rightarrow> rstr" where
  "format_fixed decimals x =
     (let n = nat \<lfloor>\<bar>x\<bar> * 10 ^ decimals + 1 / 2\<rfloor>;
          fraction = nat_to_string (n mod 10 ^ decimals)
      in (if x < 0 then ''-'' else []) @ nat_to_string (n div 10 ^ decimals) @ ''.''
           @ replicate (decimals - length fraction) (CHR ''0'') @ fraction)"

definition line_hint :: "nat list \<Rightarrow> nat \<Rightarrow> rstr" where
  "line_hint lines max_lines =
     (let sample = dedup_by (=) (sort (take max_lines lines)) in
      if sample = [] then ''none'' else join '','' (map nat_to_string sample))"

definition insert_line :: "nat \<Rightarrow> nat list \<Rightarrow> nat list" where
  "insert_line line lines = (if line \<in> set lines then lines else lines @ [line])"

lemma set_insert_line [simp]: "set (insert_line line lines) = insert line (set lines)"
  by (auto simp: insert_line_def)

section \<open>Weights of the certainty filter\<close>

definition rounded_weight :: "real \<Rightarrow> nat" where
  "rounded_weight x = min (nat \<lfloor>x + 1 / 2\<rfloor>) (2 ^ 32 - 1)"

definition identity_penalty :: "certainty_filter_state \<Rightarrow> nat" where
  "identity_penalty s = rounded_weight ((cs_estimates s ! 1 + cs_estimates s ! 4) * 66.66666666666667)"

definition reference_penalty :: "certainty_filter_state \<Rightarrow> nat" where
  "reference_penalty s = rounded_weight ((cs_estimates s ! 1 + cs_estimates s ! 4) * 51.85185185185185)"

definition usage_penalty :: "certainty_filter_state \<Rightarrow> nat" where
  "usage_penalty s = rounded_weight ((cs_estimates s ! 1 + cs_estimates s ! 4) * 40.74074074074074)"

definition orphan_penalty :: "certainty_filter_state \<Rightarrow> nat" where
  "orphan_penalty s = rounded_weight ((cs_estimates s ! 1 + cs_estimates s ! 4) * 48.14814814814815)"

definition scope_penalty :: "certainty_filter_state \<Rightarrow> nat" where
  "scope_penalty s = rounded_weight ((cs_estimates s ! 1 + cs_estimates s ! 4) * 59.25925925925926)"

definition identity_shift_tolerance :: "certainty_filter_state \<Rightarrow> nat" where
  "identity_shift_tolerance s = nat \<lfloor>clamp (variance s 1 * 40) 1 12\<rfloor>"

definition sat_u32 :: "nat \<Rightarrow> nat" where
  "sat_u32 n = min n (2 ^ 32 - 1)"

section \<open>Snapshots\<close>

record semantic_scope_counts =
  sn_namespace :: nat
  sn_type_scope :: nat
  sn_function :: nat
  sn_preprocessor :: nat

record symbol_identity =
  sy_usr_ref_counts :: "(rstr \<times> nat) list"
  sy_usr_decl_lines :: "rstr \<rightharpoonup> nat"
  sy_decl_ids_by_line :: "nat \<rightharpoonup> rstr set"
  sy_kind_by_decl_id :: "rstr \<rightharpoonup> int"
  sy_decl_ids :: "rstr set"
  sy_id_decl_lines :: "rstr \<rightharpoonup> nat"
  sy_ref_id_counts :: "(rstr \<times> nat) list"
  sy_ref_first_line :: "(rstr \<times> nat) list"

record scope_structure =
  st_counts :: semantic_scope_counts
  st_ranges_by_kind :: "nat \<rightharpoonup> (nat \<times> nat) set"
  st_preprocessor_ranges :: "(nat \<times> nat) list"

record semantic_issues =
  iu_identity_count :: nat
  iu_identity_lines :: "nat list"
  iu_mismatch_count :: nat
  iu_mismatch_lines :: "nat list"

record contract_snapshot =
  cn_summary :: semantic_summary
  cn_identity :: symbol_identity
  cn_scopes :: scope_structure
  cn_issues :: semantic_issues

definition is_usr_backed :: "semantic_declaration \<Rightarrow> bool" where
  "is_usr_backed d \<longleftrightarrow> sd_provenance d = Usr \<or> starts_with (sd_stable_id d) ''usr:''
     \<or> (case sd_usr d of None \<Rightarrow> False | Some value \<Rightarrow> trim value \<noteq> [])"

definition provenance_issue :: "semantic_declaration \<Rightarrow> bool" where
  "provenance_issue d \<longleftrightarrow> (sd_provenance d = Usr) \<noteq> starts_with (sd_stable_id d) ''usr:''"

definition snapshot_declaration ::
    "cpp_grammar \<Rightarrow> semantic_declaration \<Rightarrow> symbol_identity \<times> semantic_issues \<Rightarrow> symbol_identity \<times> semantic_issues" where
  "snapshot_declaration g d = (\<lambda>(identity, issues).
     if sd_kind d = cursor_function_template g then (identity, issues)
     else
       let ident = sd_stable_id d; line = max (sd_line d) 1;
           identity = identity\<lparr>
             sy_decl_ids := insert ident (sy_decl_ids identity),
             sy_decl_ids_by_line := (sy_decl_ids_by_line identity)
               (line \<mapsto> insert ident (unwrap_or (sy_decl_ids_by_line identity line) {})),
             sy_kind_by_decl_id := (sy_kind_by_decl_id identity)(ident \<mapsto> sd_kind d),
             sy_id_decl_lines := (sy_id_decl_lines identity)(ident \<mapsto> line)\<rparr>;
           identity = (if is_usr_backed d
             then identity\<lparr>sy_usr_ref_counts := entry_update ident 0 id (sy_usr_ref_counts identity),
                           sy_usr_decl_lines := (sy_usr_decl_lines identity)(ident \<mapsto> line)\<rparr>
             else identity);
           issues = (if provenance_issue d
             then issues\<lparr>iu_identity_count := sat_usize (iu_identity_count issues + 1),
                         iu_identity_lines := insert_line line (iu_identity_lines issues)\<rparr>
             else issues)
       in (identity, issues))"

definition bump_existing :: "rstr \<Rightarrow> (rstr \<times> nat) list \<Rightarrow> (rstr \<times> nat) list" where
  "bump_existing ident counts = map (\<lambda>(k, n). (k, if k = ident then sat_usize (n + 1) else n)) counts"

definition snapshot_reference ::
    "semantic_reference \<Rightarrow> symbol_identity \<times> semantic_issues \<Rightarrow> symbol_identity \<times> semantic_issues" where
  "snapshot_reference r = (\<lambda>(identity, issues).
     let ident = sr_stable_id r; line = max (sr_line r) 1;
         identity = identity\<lparr>
           sy_ref_id_counts := entry_update ident 0 (\<lambda>n. sat_usize (n + 1)) (sy_ref_id_counts identity),
           sy_ref_first_line := entry_update ident line id (sy_ref_first_line identity),
           sy_usr_ref_counts := bump_existing ident (sy_usr_ref_counts identity)\<rparr>;
         mismatch = (case sy_kind_by_decl_id identity ident of None \<Rightarrow> False | Some kind \<Rightarrow> kind \<noteq> sr_decl_kind r);
         issues = (if mismatch
           then issues\<lparr>iu_mismatch_count := sat_usize (iu_mismatch_count issues + 1),
                       iu_mismatch_lines := insert_line line (iu_mismatch_lines issues)\<rparr>
           else issues)
     in (identity, issues))"

definition snapshot_scope :: "cpp_grammar \<Rightarrow> semantic_scope \<Rightarrow> scope_structure \<Rightarrow> scope_structure" where
  "snapshot_scope g sc scopes =
     (let range = (max (sc_start_line sc) 1, max (max (sc_end_line sc) (sc_start_line sc)) 1);
          kind = sc_node_kind_id sc; counts = st_counts scopes;
          scopes =
            (if is_namespace_scope g kind
             then scopes\<lparr>st_counts := counts\<lparr>sn_namespace := sat_usize (sn_namespace counts + 1)\<rparr>\<rparr>
             else if is_type_scope g kind
             then scopes\<lparr>st_counts := counts\<lparr>sn_type_scope := sat_usize (sn_type_scope counts + 1)\<rparr>\<rparr>
             else if is_function_scope g kind
             then scopes\<lparr>st_counts := counts\<lparr>sn_function := sat_usize (sn_function counts + 1)\<rparr>\<rparr>
             else if is_preprocessor_scope g kind
             then scopes\<lparr>st_counts := counts\<lparr>sn_preprocessor := sat_usize (sn_preprocessor counts + 1)\<rparr>,
                         st_preprocessor_ranges := st_preprocessor_ranges scopes @ [range]\<rparr>
             else scopes)
      in scopes\<lparr>st_ranges_by_kind := (st_ranges_by_kind scopes)
           (kind \<mapsto> insert range (unwrap_or (st_ranges_by_kind scopes kind) {}))\<rparr>)"

definition no_identity :: symbol_identity where
  "no_identity = \<lparr>sy_usr_ref_counts = [], sy_usr_decl_lines = Map.empty, sy_decl_ids_by_line = Map.empty,
     sy_kind_by_decl_id = Map.empty, sy_decl_ids = {}, sy_id_decl_lines = Map.empty,
     sy_ref_id_counts = [], sy_ref_first_line = []\<rparr>"

definition no_scopes :: scope_structure where
  "no_scopes = \<lparr>st_counts = \<lparr>sn_namespace = 0, sn_type_scope = 0, sn_function = 0, sn_preprocessor = 0\<rparr>,
     st_ranges_by_kind = Map.empty, st_preprocessor_ranges = []\<rparr>"

definition no_issues :: semantic_issues where
  "no_issues = \<lparr>iu_identity_count = 0, iu_identity_lines = [], iu_mismatch_count = 0, iu_mismatch_lines = []\<rparr>"

definition contract_snapshot_of ::
    "fx_hasher \<Rightarrow> cpp_grammar \<Rightarrow> semantic_file_context \<Rightarrow> contract_snapshot" where
  "contract_snapshot_of fx g context =
     (let (identity, issues) = fold (snapshot_declaration g) (fcx_declarations context) (no_identity, no_issues);
          (identity, issues) = fold snapshot_reference (fcx_references context) (identity, issues);
          scopes = fold (snapshot_scope g) (fcx_scopes context) no_scopes;
          scopes = scopes\<lparr>st_preprocessor_ranges :=
                     dedup_by (=) (sort_by (\<le>) (st_preprocessor_ranges scopes))\<rparr>
      in \<lparr>cn_summary = summary fx g context, cn_identity = identity, cn_scopes = scopes, cn_issues = issues\<rparr>)"

section \<open>Readiness\<close>

record readiness_assessment =
  ra_ready :: bool
  ra_reasons :: "rstr list"

record context_assessment =
  cx_ready :: bool
  cx_hard_failures :: "rstr list"
  cx_warnings :: "rstr list"
  cx_culprit_lines :: "nat set"

definition evaluate_readiness :: "bool \<Rightarrow> bool \<Rightarrow> readiness_assessment" where
  "evaluate_readiness tree_unavailable clang_unavailable =
     (let reasons = (if tree_unavailable then [''tree-sitter parser unavailable''] else [])
                      @ (if clang_unavailable then [''clang parser unavailable''] else []);
          ready = (reasons = [])
      in \<lparr>ra_ready = ready,
          ra_reasons = reasons @ (if ready then [] else [''semantic readiness: parsers unavailable''])\<rparr>)"

definition evaluate_context :: "contract_snapshot \<Rightarrow> context_assessment" where
  "evaluate_context snapshot =
     (let issues = cn_issues snapshot;
          identity_failures =
            (if iu_identity_count issues > 0
             then [''semantic symbol identity invariants failed: issues='' @ nat_to_string (iu_identity_count issues)
                     @ '' lines='' @ line_hint (iu_identity_lines issues) 8] else []);
          mismatch_failures =
            (if iu_mismatch_count issues > 0
             then [''semantic usage-role consistency invariants failed: mismatches=''
                     @ nat_to_string (iu_mismatch_count issues)
                     @ '' lines='' @ line_hint (iu_mismatch_lines issues) 8] else []);
          warnings =
            (if ss_declaration_count (cn_summary snapshot) = 0 \<and> ss_reference_count (cn_summary snapshot) > 0
             then [''semantic context warning: references='' @ nat_to_string (ss_reference_count (cn_summary snapshot))
                     @ '' but declarations=0''] else [])
      in \<lparr>cx_ready = (identity_failures @ mismatch_failures = []),
          cx_hard_failures = identity_failures @ mismatch_failures, cx_warnings = warnings,
          cx_culprit_lines = (if iu_identity_count issues > 0 then set (iu_identity_lines issues) else {})
            \<union> (if iu_mismatch_count issues > 0 then set (iu_mismatch_lines issues) else {})\<rparr>)"

definition evaluate_readiness_with_snapshot ::
    "bool \<Rightarrow> bool \<Rightarrow> contract_snapshot option \<Rightarrow> readiness_assessment" where
  "evaluate_readiness_with_snapshot tree_unavailable clang_unavailable snapshot =
     (let readiness = evaluate_readiness tree_unavailable clang_unavailable in
      case snapshot of
        None \<Rightarrow> readiness
      | Some snapshot \<Rightarrow>
          let reasons = ra_reasons readiness @ cx_hard_failures (evaluate_context snapshot)
          in \<lparr>ra_ready = (reasons = []), ra_reasons = reasons\<rparr>)"

definition readiness_summary :: "readiness_assessment \<Rightarrow> rstr" where
  "readiness_summary readiness =
     (if ra_reasons readiness = [] then ''semantic readiness satisfied'' else join ''; '' (ra_reasons readiness))"

section \<open>Transitions\<close>

record transition_assessment =
  ta_failure_messages :: "rstr list"
  ta_warning_messages :: "rstr list"
  ta_failure_score_delta :: nat
  ta_culprit_lines :: "nat set"
  ta_identity_regressed :: bool
  ta_reference_regressed :: bool
  ta_scope_regressed :: bool
  ta_identity_severity :: real
  ta_reference_severity :: real
  ta_scope_severity :: real

definition transition_default :: transition_assessment where
  "transition_default = \<lparr>ta_failure_messages = [], ta_warning_messages = [], ta_failure_score_delta = 0,
     ta_culprit_lines = {}, ta_identity_regressed = False, ta_reference_regressed = False,
     ta_scope_regressed = False, ta_identity_severity = 0, ta_reference_severity = 0, ta_scope_severity = 0\<rparr>"

definition add_failure :: "nat \<Rightarrow> nat set \<Rightarrow> rstr \<Rightarrow> transition_assessment \<Rightarrow> transition_assessment" where
  "add_failure delta lines message a =
     a\<lparr>ta_failure_score_delta := sat_u32 (ta_failure_score_delta a + delta),
       ta_culprit_lines := ta_culprit_lines a \<union> lines,
       ta_failure_messages := ta_failure_messages a @ [message]\<rparr>"

definition kind_compatible :: "contract_snapshot \<Rightarrow> int option \<Rightarrow> rstr \<Rightarrow> bool" where
  "kind_compatible after kind ident =
     (case (kind, sy_kind_by_decl_id (cn_identity after) ident) of
        (Some k, Some k') \<Rightarrow> k' = k | _ \<Rightarrow> True)"

text \<open>
  An identity that is gone counts as migrated when some declaration near its line may be it: it
  is the only one of a compatible kind on its line, or it has as many references, less one.
\<close>

definition migrated_to ::
    "contract_snapshot \<Rightarrow> rstr \<Rightarrow> int option \<Rightarrow> nat \<Rightarrow> rstr set \<Rightarrow> rstr \<Rightarrow> bool" where
  "migrated_to after stable_id kind before_count after_ids after_id \<longleftrightarrow>
     after_id = stable_id
     \<or> kind_compatible after kind after_id
       \<and> (card (Set.filter (kind_compatible after kind) after_ids) = 1
          \<or> before_count = 0
          \<or> before_count - 1 \<le> unwrap_or (map_of (sy_ref_id_counts (cn_identity after)) after_id) 0)"

definition identity_migrated_locally ::
    "rstr \<Rightarrow> nat \<Rightarrow> int option \<Rightarrow> nat \<Rightarrow> contract_snapshot \<Rightarrow> nat \<Rightarrow> bool" where
  "identity_migrated_locally stable_id declaration_line kind before_count after tolerance =
     (declaration_line \<noteq> 0 \<and>
      list_ex (\<lambda>line. case sy_decl_ids_by_line (cn_identity after) line of
          None \<Rightarrow> False
        | Some after_ids \<Rightarrow> (\<exists>after_id \<in> after_ids. migrated_to after stable_id kind before_count after_ids after_id))
        [declaration_line - tolerance..<Suc (sat_usize (declaration_line + tolerance))])"

definition reference_count_of :: "contract_snapshot \<Rightarrow> rstr \<Rightarrow> nat" where
  "reference_count_of snapshot ident =
     (case map_of (sy_ref_id_counts (cn_identity snapshot)) ident of
        Some n \<Rightarrow> n
      | None \<Rightarrow> unwrap_or (map_of (sy_usr_ref_counts (cn_identity snapshot)) ident) 0)"

definition missing_identities :: "contract_snapshot \<Rightarrow> contract_snapshot \<Rightarrow> nat \<Rightarrow> rstr set" where
  "missing_identities before after tolerance =
     Set.filter (\<lambda>ident. \<not> identity_migrated_locally ident
         (unwrap_or (sy_id_decl_lines (cn_identity before) ident) 0)
         (sy_kind_by_decl_id (cn_identity before) ident) (reference_count_of before ident) after tolerance)
       (sy_decl_ids (cn_identity before) - sy_decl_ids (cn_identity after))"

definition evaluate_identity ::
    "contract_snapshot \<Rightarrow> contract_snapshot \<Rightarrow> nat \<Rightarrow> nat set option \<Rightarrow> certainty_filter_state
      \<Rightarrow> transition_assessment \<Rightarrow> transition_assessment" where
  "evaluate_identity before after tolerance edited_lines adaptive a =
     (let missing = missing_identities before after tolerance;
          issue_delta = iu_identity_count (cn_issues after) - iu_identity_count (cn_issues before);
          missing_lines =
            Set.filter (\<lambda>line. 0 < line)
              ((\<lambda>ident. unwrap_or (sy_id_decl_lines (cn_identity before) ident) 0) ` missing)
            \<union> (if issue_delta > 0 then set (iu_identity_lines (cn_issues after)) else {});
          total_ids = max (card (sy_decl_ids (cn_identity before))) 1;
          a = a\<lparr>ta_identity_severity := clamp (real (card missing + issue_delta) / real total_ids) 0 1\<rparr>
      in if missing \<noteq> {} \<or> issue_delta > 0
         then add_failure (identity_penalty adaptive + min (card missing) 8 * 4) missing_lines
                (''post-edit check failed: semantic symbol identity regressed (missing_stable_ids=''
                  @ nat_to_string (card missing) @ '', added_identity_issues='' @ nat_to_string issue_delta
                  @ '', severity='' @ format_fixed 3 (ta_identity_severity a)
                  @ '', lines='' @ line_hint (sorted_list_of_set missing_lines) 8 @ '')'')
                (a\<lparr>ta_identity_regressed := True\<rparr>)
         else (case edited_lines of
                 None \<Rightarrow> a
               | Some lines \<Rightarrow>
                   if lines \<noteq> {} \<and> ss_semantic_signature (cn_summary before) \<noteq> ss_semantic_signature (cn_summary after)
                   then a\<lparr>ta_warning_messages := ta_warning_messages a
                          @ [''post-edit check warning: semantic identity signature changed under edited lines ''
                              @ line_hint (sorted_list_of_set lines) 8]\<rparr>
                   else a))"

definition dropped_references :: "contract_snapshot \<Rightarrow> contract_snapshot \<Rightarrow> nat \<Rightarrow> rstr list" where
  "dropped_references before after tolerance =
     map fst (filter (\<lambda>(ident, before_count).
         before_count > sat_usize (unwrap_or (map_of (sy_usr_ref_counts (cn_identity after)) ident) 0 + tolerance))
       (sy_usr_ref_counts (cn_identity before)))"

definition orphan_growth :: "contract_snapshot \<Rightarrow> contract_snapshot \<Rightarrow> (rstr \<times> nat) list" where
  "orphan_growth before after =
     filter (\<lambda>(ident, growth). growth > 0)
       (map (\<lambda>(ident, after_count). (ident,
           if after_count = 0 \<or> ident \<in> sy_decl_ids (cn_identity after) then 0
           else after_count - (if ident \<in> sy_decl_ids (cn_identity before) then 0
                               else unwrap_or (map_of (sy_ref_id_counts (cn_identity before)) ident) 0)))
         (sy_ref_id_counts (cn_identity after)))"

definition evaluate_reference_integrity ::
    "contract_snapshot \<Rightarrow> contract_snapshot \<Rightarrow> nat \<Rightarrow> certainty_filter_state
      \<Rightarrow> transition_assessment \<Rightarrow> transition_assessment" where
  "evaluate_reference_integrity before after tolerance adaptive a =
     (let drops = dropped_references before after tolerance;
          drop_events = sat_usize (length drops);
          mismatch_delta = iu_mismatch_count (cn_issues after) - iu_mismatch_count (cn_issues before);
          mismatch_lines = set (iu_mismatch_lines (cn_issues after));
          culprit_lines =
            set (map (\<lambda>line. max line 1) (List.map_filter (sy_usr_decl_lines (cn_identity before)) drops))
            \<union> (if mismatch_delta > 0 then mismatch_lines else {});
          orphans = orphan_growth before after;
          orphan_count = sat_usize (sum_list (map snd orphans));
          orphan_lines = set (map (\<lambda>line. max line 1)
            (List.map_filter (\<lambda>(ident, _). map_of (sy_ref_first_line (cn_identity after)) ident) orphans));
          total_references = max (length (sy_usr_ref_counts (cn_identity before))) 1;
          a = a\<lparr>ta_reference_severity :=
                   clamp (real (drop_events + mismatch_delta + orphan_count) / real total_references) 0 1\<rparr>;
          a = (if drop_events > 0
               then add_failure (reference_penalty adaptive + min drop_events 16 * 3) culprit_lines
                 (''post-edit check failed: semantic declaration-reference connectivity regressed (drops=''
                   @ nat_to_string drop_events @ '', tolerance='' @ nat_to_string tolerance
                   @ '', lines='' @ line_hint (sorted_list_of_set culprit_lines) 8 @ '')'')
                 (a\<lparr>ta_reference_regressed := True\<rparr>)
               else a);
          a = (if mismatch_delta > 0
               then add_failure (usage_penalty adaptive + min mismatch_delta 16 * 2) mismatch_lines
                 (''post-edit check failed: semantic usage-role consistency regressed (''
                   @ nat_to_string (iu_mismatch_count (cn_issues before)) @ '' -> ''
                   @ nat_to_string (iu_mismatch_count (cn_issues after))
                   @ '', lines='' @ line_hint (iu_mismatch_lines (cn_issues after)) 8 @ '')'')
                 (a\<lparr>ta_reference_regressed := True\<rparr>)
               else a)
      in if orphan_count > 0
         then add_failure (orphan_penalty adaptive + min orphan_count 16 * 2) orphan_lines
                (''post-edit check failed: orphan semantic references introduced (count=''
                  @ nat_to_string orphan_count @ '', lines='' @ line_hint (sorted_list_of_set orphan_lines) 8 @ '')'')
                (a\<lparr>ta_reference_regressed := True\<rparr>)
         else a)"

definition scope_count_drift :: "contract_snapshot \<Rightarrow> contract_snapshot \<Rightarrow> nat" where
  "scope_count_drift before after =
     (let b = st_counts (cn_scopes before); a = st_counts (cn_scopes after) in
      abs_diff_nat (sn_namespace b) (sn_namespace a) + abs_diff_nat (sn_type_scope b) (sn_type_scope a)
      + abs_diff_nat (sn_function b) (sn_function a) + abs_diff_nat (sn_preprocessor b) (sn_preprocessor a))"

definition near_lines :: "nat \<Rightarrow> nat \<Rightarrow> nat set \<Rightarrow> nat \<Rightarrow> bool" where
  "near_lines start finish edited_lines radius \<longleftrightarrow>
     (\<exists>line \<in> edited_lines. start - radius \<le> line \<and> line \<le> sat_usize (finish + radius))"

definition drift_kinds :: "cpp_grammar \<Rightarrow> nat list" where
  "drift_kinds g =
     [sym_namespace_definition g, sym_class_specifier g, sym_struct_specifier g, sym_union_specifier g,
      sym_enum_specifier g, sym_function_definition g, sym_function_declarator g, sym_lambda_expression g,
      sym_preproc_if g, sym_preproc_ifdef g, sym_preproc_elif g, sym_preproc_else g, sym_preproc_def g,
      sym_preproc_function_def g]"

definition drifted_ranges :: "contract_snapshot \<Rightarrow> contract_snapshot \<Rightarrow> nat \<Rightarrow> (nat \<times> nat) set" where
  "drifted_ranges before after kind =
     (let b = unwrap_or (st_ranges_by_kind (cn_scopes before) kind) {};
          a = unwrap_or (st_ranges_by_kind (cn_scopes after) kind) {}
      in (b - a) \<union> (a - b))"

definition scope_range_drift ::
    "cpp_grammar \<Rightarrow> contract_snapshot \<Rightarrow> contract_snapshot \<Rightarrow> nat set option \<Rightarrow> nat \<Rightarrow> nat \<times> nat \<times> nat set" where
  "scope_range_drift g before after edited_lines radius =
     (let is_local = (\<lambda>range. case edited_lines of None \<Rightarrow> False
            | Some lines \<Rightarrow> near_lines (fst range) (snd range) lines radius);
          drifts = map (drifted_ranges before after) (drift_kinds g)
      in (sum_list (map (\<lambda>rs. card (Set.filter is_local rs)) drifts),
          sum_list (map (\<lambda>rs. card (Set.filter (\<lambda>r. \<not> is_local r) rs)) drifts),
          (\<lambda>r. max (fst r) 1) ` \<Union> (set drifts)))"

definition evaluate_scope_integrity ::
    "cpp_grammar \<Rightarrow> contract_snapshot \<Rightarrow> contract_snapshot \<Rightarrow> nat \<Rightarrow> nat set option \<Rightarrow> certainty_filter_state
      \<Rightarrow> transition_assessment \<Rightarrow> transition_assessment" where
  "evaluate_scope_integrity g before after tolerance edited_lines adaptive a =
     (let count_drift = scope_count_drift before after;
          (local_drift, remote_drift, range_lines) = scope_range_drift g before after edited_lines 1;
          counts = st_counts (cn_scopes before);
          total_scopes = max (sn_namespace counts + sn_type_scope counts + sn_function counts) 1;
          a = a\<lparr>ta_scope_severity := clamp (real (count_drift + remote_drift) / real total_scopes) 0 1\<rparr>
      in if \<not> (tolerance < count_drift \<or> tolerance < remote_drift) then a
         else add_failure (scope_penalty adaptive) range_lines
                (''post-edit check failed: semantic scope structural drift detected (count_drift=''
                  @ nat_to_string count_drift @ '', local_range_drift='' @ nat_to_string local_drift
                  @ '', remote_range_drift='' @ nat_to_string remote_drift
                  @ '', tolerance='' @ nat_to_string tolerance @ '')'')
                (a\<lparr>ta_scope_regressed := True\<rparr>))"

definition line_in_ranges :: "nat \<Rightarrow> (nat \<times> nat) list \<Rightarrow> bool" where
  "line_in_ranges line ranges = list_ex (\<lambda>(start, finish). start \<le> line \<and> line \<le> finish) ranges"

definition evaluate_macro_region_safety ::
    "contract_snapshot \<Rightarrow> contract_snapshot \<Rightarrow> nat set option \<Rightarrow> transition_assessment \<Rightarrow> transition_assessment" where
  "evaluate_macro_region_safety before after edited_lines a =
     (case edited_lines of
        None \<Rightarrow> a
      | Some lines \<Rightarrow>
          let touched = Set.filter (\<lambda>line. line_in_ranges line (st_preprocessor_ranges (cn_scopes before))
                  \<or> line_in_ranges line (st_preprocessor_ranges (cn_scopes after))) lines
          in if touched = {} then a
             else a\<lparr>ta_warning_messages := ta_warning_messages a
                      @ [''post-edit check warning: macro-safety clause triggered for edited lines ''
                          @ line_hint (sorted_list_of_set touched) 8]\<rparr>)"

definition evaluate_transition ::
    "cpp_grammar \<Rightarrow> contract_snapshot \<Rightarrow> contract_snapshot \<Rightarrow> nat \<Rightarrow> nat \<Rightarrow> nat \<Rightarrow> nat set option
      \<Rightarrow> certainty_filter_state \<Rightarrow> transition_assessment" where
  "evaluate_transition g before after ref_drop_tol scope_drift_tol identity_shift_tol edited_lines adaptive =
     (let a = evaluate_identity before after identity_shift_tol edited_lines adaptive transition_default;
          a = evaluate_reference_integrity before after ref_drop_tol adaptive a;
          a = evaluate_scope_integrity g before after scope_drift_tol edited_lines adaptive a
      in evaluate_macro_region_safety before after edited_lines a)"

end
