(* ===== verification/Contract_Facts.thy ===== *)
theory Contract_Facts
  imports Semantic_Contract
begin

text \<open>
  Facts about the semantic contract: what a snapshot holds, what a transition between two snapshots
  reports, and a deletion that it misses.
\<close>

section \<open>What a snapshot holds\<close>

text \<open>The declarations that count, and the references of an identity.\<close>

definition counted_declarations :: "cpp_grammar \<Rightarrow> semantic_file_context \<Rightarrow> semantic_declaration list" where
  "counted_declarations g context = filter (\<lambda>d. sd_kind d \<noteq> cursor_function_template g) (fcx_declarations context)"

definition reference_total :: "semantic_file_context \<Rightarrow> rstr \<Rightarrow> nat" where
  "reference_total context ident = length (filter (\<lambda>r. sr_stable_id r = ident) (fcx_references context))"

abbreviation declared :: "cpp_grammar \<Rightarrow> semantic_file_context \<Rightarrow> symbol_identity \<times> semantic_issues" where
  "declared g c \<equiv> fold (snapshot_declaration g) (fcx_declarations c) (no_identity, no_issues)"

lemma contract_snapshot_parts:
  "cn_identity (contract_snapshot_of fx g c) = fst (fold snapshot_reference (fcx_references c) (declared g c))"
  "cn_issues (contract_snapshot_of fx g c) = snd (fold snapshot_reference (fcx_references c) (declared g c))"
  by (simp_all add: contract_snapshot_of_def Let_def case_prod_unfold)

lemma sat_usize_sat [simp]: "sat_usize (Suc (sat_usize n)) = sat_usize (Suc n)" "sat_usize 0 = 0"
  by (simp_all add: sat_usize_def)

lemma keys_bump [simp]: "map fst (bump_existing ident counts) = map fst counts"
  by (induction counts) (auto simp: bump_existing_def)

lemma map_of_bump:
  "map_of (bump_existing ident counts) k
     = map_option (\<lambda>n. if k = ident then sat_usize (Suc n) else n) (map_of counts k)"
  by (induction counts) (auto simp: bump_existing_def)

text \<open>Declarations leave the counts at zero and record their identities and lines.\<close>

definition declared_ok :: "semantic_declaration list \<Rightarrow> symbol_identity \<Rightarrow> bool" where
  "declared_ok ds i \<longleftrightarrow>
     sy_decl_ids i = sd_stable_id ` set ds
     \<and> distinct (map fst (sy_usr_ref_counts i)) \<and> list_all (\<lambda>p. snd p = 0) (sy_usr_ref_counts i)
     \<and> fst ` set (sy_usr_ref_counts i) = sd_stable_id ` set (filter is_usr_backed ds)
     \<and> dom (sy_usr_decl_lines i) = sd_stable_id ` set (filter is_usr_backed ds)
     \<and> sy_ref_id_counts i = []
     \<and> (\<forall>k line. sy_id_decl_lines i k = Some line \<longrightarrow> (\<exists>d \<in> set ds. sd_stable_id d = k \<and> line = max (sd_line d) 1))
     \<and> dom (sy_id_decl_lines i) = sd_stable_id ` set ds
     \<and> (\<forall>line ids. sy_decl_ids_by_line i line = Some ids
          \<longrightarrow> ids \<noteq> {} \<and> (\<forall>k \<in> ids. \<exists>d \<in> set ds. sd_stable_id d = k \<and> line = max (sd_line d) 1))"

lemma entry_update_zero [simp]:
  "list_all (\<lambda>p. snd p = 0) m \<Longrightarrow> list_all (\<lambda>p. snd p = 0) (entry_update k (0 :: nat) id m)"
  by (induction m) auto

lemma snapshot_declaration_skip:
  "sd_kind d = cursor_function_template g \<Longrightarrow> snapshot_declaration g d s = s"
  by (cases s) (simp add: snapshot_declaration_def)

lemma snapshot_declaration_fst:
  assumes "sd_kind d \<noteq> cursor_function_template g"
  defines "k \<equiv> sd_stable_id d" and "line \<equiv> max (sd_line d) 1"
  shows "fst (snapshot_declaration g d (i, s)) = i\<lparr>
     sy_decl_ids := insert k (sy_decl_ids i),
     sy_decl_ids_by_line := (sy_decl_ids_by_line i)(line \<mapsto> insert k (unwrap_or (sy_decl_ids_by_line i line) {})),
     sy_kind_by_decl_id := (sy_kind_by_decl_id i)(k \<mapsto> sd_kind d),
     sy_id_decl_lines := (sy_id_decl_lines i)(k \<mapsto> line),
     sy_usr_ref_counts := (if is_usr_backed d then entry_update k 0 id (sy_usr_ref_counts i) else sy_usr_ref_counts i),
     sy_usr_decl_lines := (if is_usr_backed d then (sy_usr_decl_lines i)(k \<mapsto> line) else sy_usr_decl_lines i)\<rparr>"
  using assms by (simp add: snapshot_declaration_def Let_def)

lemma declared_ok_step:
  assumes ok: "declared_ok ds i" and d: "sd_kind d \<noteq> cursor_function_template g"
  shows "declared_ok (ds @ [d]) (fst (snapshot_declaration g d (i, s)))"
proof -
  note o = ok [unfolded declared_ok_def]
  define j where "j = fst (snapshot_declaration g d (i, s))"
  have j: "j = i\<lparr>
     sy_decl_ids := insert (sd_stable_id d) (sy_decl_ids i),
     sy_decl_ids_by_line := (sy_decl_ids_by_line i)
       (max (sd_line d) 1 \<mapsto> insert (sd_stable_id d) (unwrap_or (sy_decl_ids_by_line i (max (sd_line d) 1)) {})),
     sy_kind_by_decl_id := (sy_kind_by_decl_id i)(sd_stable_id d \<mapsto> sd_kind d),
     sy_id_decl_lines := (sy_id_decl_lines i)(sd_stable_id d \<mapsto> max (sd_line d) 1),
     sy_usr_ref_counts := (if is_usr_backed d then entry_update (sd_stable_id d) 0 id (sy_usr_ref_counts i) else sy_usr_ref_counts i),
     sy_usr_decl_lines := (if is_usr_backed d then (sy_usr_decl_lines i)(sd_stable_id d \<mapsto> max (sd_line d) 1) else sy_usr_decl_lines i)\<rparr>"
    unfolding j_def by (rule snapshot_declaration_fst [OF d])
  have "distinct (map fst (sy_usr_ref_counts j))" using o by (simp add: j)
  moreover have "list_all (\<lambda>p. snd p = 0) (sy_usr_ref_counts j)"
    using o by (simp add: j)
  moreover have "fst ` set (sy_usr_ref_counts j) = sd_stable_id ` set (filter is_usr_backed (ds @ [d]))"
    using o by (simp add: j)
  moreover have "dom (sy_usr_decl_lines j) = sd_stable_id ` set (filter is_usr_backed (ds @ [d]))"
    using o by (simp add: j)
  moreover have "dom (sy_id_decl_lines j) = sd_stable_id ` set (ds @ [d])"
    using o by (simp add: j)
  moreover have "sy_id_decl_lines j k = Some line \<Longrightarrow> \<exists>d \<in> set (ds @ [d]). sd_stable_id d = k \<and> line = max (sd_line d) 1" for k line
  proof -
    assume *: "sy_id_decl_lines j k = Some line"
    show ?thesis
    proof (cases "k = sd_stable_id d")
      case True with * show ?thesis by (auto simp: j)
    next
      case False
      with * have "sy_id_decl_lines i k = Some line" by (simp add: j)
      with o show ?thesis by auto
    qed
  qed
  moreover have "sy_decl_ids_by_line j line = Some ids
      \<Longrightarrow> ids \<noteq> {} \<and> (\<forall>k \<in> ids. \<exists>d \<in> set (ds @ [d]). sd_stable_id d = k \<and> line = max (sd_line d) 1)" for line ids
  proof -
    assume *: "sy_decl_ids_by_line j line = Some ids"
    show ?thesis
    proof (cases "line = max (sd_line d) 1")
      case True
      with * have "ids = insert (sd_stable_id d) (unwrap_or (sy_decl_ids_by_line i line) {})" by (simp add: j)
      moreover have "\<exists>d \<in> set ds. sd_stable_id d = k \<and> line = max (sd_line d) 1"
        if "k \<in> unwrap_or (sy_decl_ids_by_line i line) {}" for k
        using that o by (cases "sy_decl_ids_by_line i line") auto
      ultimately show ?thesis using True by (metis (no_types, lifting) UnCI insertE insert_not_empty list.set_intros(1) set_append)
    next
      case False
      with * have "sy_decl_ids_by_line i line = Some ids" by (simp add: j)
      with o show ?thesis by auto
    qed
  qed
  moreover have "sy_decl_ids j = sd_stable_id ` set (ds @ [d])" "sy_ref_id_counts j = []" using o by (simp_all add: j)
  ultimately show ?thesis unfolding declared_ok_def j_def [symmetric] by blast
qed

lemma declared_ok_fold:
  "declared_ok (filter (\<lambda>d. sd_kind d \<noteq> cursor_function_template g) ds)
     (fst (fold (snapshot_declaration g) ds (no_identity, no_issues)))"
proof (induction ds rule: rev_induct)
  case Nil
  then show ?case by (simp add: declared_ok_def no_identity_def)
next
  case (snoc d ds)
  obtain i s where f: "fold (snapshot_declaration g) ds (no_identity, no_issues) = (i, s)" by force
  show ?case
  proof (cases "sd_kind d = cursor_function_template g")
    case True
    with snoc show ?thesis by (simp add: snapshot_declaration_skip)
  next
    case False
    with snoc f declared_ok_step [of _ i d g s] show ?thesis by simp
  qed
qed

text \<open>References only count.\<close>

lemma snapshot_reference_fst:
  "fst (snapshot_reference r (i, s)) = i\<lparr>
     sy_ref_id_counts := entry_update (sr_stable_id r) 0 (\<lambda>n. sat_usize (n + 1)) (sy_ref_id_counts i),
     sy_ref_first_line := entry_update (sr_stable_id r) (max (sr_line r) 1) id (sy_ref_first_line i),
     sy_usr_ref_counts := bump_existing (sr_stable_id r) (sy_usr_ref_counts i)\<rparr>"
  by (simp add: snapshot_reference_def Let_def)

definition counted_ok :: "symbol_identity \<Rightarrow> semantic_reference list \<Rightarrow> symbol_identity \<Rightarrow> bool" where
  "counted_ok i0 rs i \<longleftrightarrow>
     sy_decl_ids i = sy_decl_ids i0 \<and> sy_usr_decl_lines i = sy_usr_decl_lines i0
     \<and> sy_id_decl_lines i = sy_id_decl_lines i0 \<and> sy_decl_ids_by_line i = sy_decl_ids_by_line i0
     \<and> sy_kind_by_decl_id i = sy_kind_by_decl_id i0
     \<and> map fst (sy_usr_ref_counts i) = map fst (sy_usr_ref_counts i0)
     \<and> (\<forall>k. map_of (sy_usr_ref_counts i) k
          = map_option (\<lambda>n. sat_usize (n + length (filter (\<lambda>r. sr_stable_id r = k) rs))) (map_of (sy_usr_ref_counts i0) k))
     \<and> distinct (map fst (sy_ref_id_counts i))
     \<and> (\<forall>k. map_of (sy_ref_id_counts i) k =
          (if filter (\<lambda>r. sr_stable_id r = k) rs = [] then None
           else Some (sat_usize (length (filter (\<lambda>r. sr_stable_id r = k) rs)))))"

lemma counted_ok_fold:
  assumes "sy_ref_id_counts i0 = []" "list_all (\<lambda>p. snd p = 0) (sy_usr_ref_counts i0)"
  shows "counted_ok i0 rs (fst (fold snapshot_reference rs (i0, s0)))"
proof (induction rs rule: rev_induct)
  case Nil
  have "map_of (sy_usr_ref_counts i0) k = map_option sat_usize (map_of (sy_usr_ref_counts i0) k)" for k
  proof (cases "map_of (sy_usr_ref_counts i0) k")
    case (Some n)
    then have "n = 0" using assms(2) by (auto dest!: map_of_SomeD simp: list_all_iff)
    with Some show ?thesis by simp
  qed simp
  with assms(1) show ?case by (simp add: counted_ok_def)
next
  case (snoc r rs)
  obtain i s where is': "fold snapshot_reference rs (i0, s0) = (i, s)" by force
  with snoc have "counted_ok i0 rs i" by simp
  then show ?case
    by (auto simp: is' snapshot_reference_fst counted_ok_def map_of_bump map_of_entry_update option.map_comp
        comp_def unwrap_or_def cong: option.map_cong)
qed

lemma snapshot_identity:
  "declared_ok (counted_declarations g c) (fst (declared g c))"
  "counted_ok (fst (declared g c)) (fcx_references c) (cn_identity (contract_snapshot_of fx g c))"
proof -
  show d: "declared_ok (counted_declarations g c) (fst (declared g c))"
    unfolding counted_declarations_def by (rule declared_ok_fold)
  show "counted_ok (fst (declared g c)) (fcx_references c) (cn_identity (contract_snapshot_of fx g c))"
    unfolding contract_snapshot_parts
    using counted_ok_fold [of "fst (declared g c)" "fcx_references c" "snd (declared g c)"] d
    by (simp add: declared_ok_def)
qed

section \<open>Transitions of real snapshots\<close>

lemma usr_count:
  "map_of (sy_usr_ref_counts (cn_identity (contract_snapshot_of fx g c))) k
     = (if \<exists>d \<in> set (counted_declarations g c). sd_stable_id d = k \<and> is_usr_backed d
        then Some (sat_usize (reference_total c k)) else None)"
proof -
  let ?i0 = "fst (declared g c)"
  have ok: "declared_ok (counted_declarations g c) ?i0" by (rule snapshot_identity)
  have "map_of (sy_usr_ref_counts ?i0) k
      = (if \<exists>d \<in> set (counted_declarations g c). sd_stable_id d = k \<and> is_usr_backed d then Some 0 else None)"
  proof (cases "map_of (sy_usr_ref_counts ?i0) k")
    case None
    then have "k \<notin> fst ` set (sy_usr_ref_counts ?i0)" by (simp add: map_of_eq_None_iff)
    with ok None show ?thesis by (auto simp: declared_ok_def)
  next
    case (Some n)
    then have "(k, n) \<in> set (sy_usr_ref_counts ?i0)" by (rule map_of_SomeD)
    moreover from this have "k \<in> fst ` set (sy_usr_ref_counts ?i0)" by force
    ultimately show ?thesis using ok Some by (auto simp: declared_ok_def list_all_iff)
  qed
  then show ?thesis
    using snapshot_identity(2) [of g c fx] by (auto simp: counted_ok_def reference_total_def)
qed

lemma ref_count:
  "map_of (sy_ref_id_counts (cn_identity (contract_snapshot_of fx g c))) k
     = (if reference_total c k = 0 then None else Some (sat_usize (reference_total c k)))"
  using snapshot_identity(2) [of g c fx] by (simp add: counted_ok_def reference_total_def)

lemma snapshot_keys:
  "distinct (map fst (sy_usr_ref_counts (cn_identity (contract_snapshot_of fx g c))))"
  "distinct (map fst (sy_ref_id_counts (cn_identity (contract_snapshot_of fx g c))))"
  "sy_decl_ids (cn_identity (contract_snapshot_of fx g c)) = sd_stable_id ` set (counted_declarations g c)"
  using snapshot_identity [of g c] by (simp_all add: counted_ok_def declared_ok_def)

lemma sat_usize_le [simp]: "sat_usize n \<le> sat_usize (sat_usize n + k)"
  by (simp add: sat_usize_def)

lemma no_drops_from_itself:
  "dropped_references (contract_snapshot_of fx g c) (contract_snapshot_of fx g c) tol = []"
proof -
  let ?m = "sy_usr_ref_counts (cn_identity (contract_snapshot_of fx g c))"
  have "\<not> sat_usize (unwrap_or (map_of ?m k) 0 + tol) < n" if "(k, n) \<in> set ?m" for k n
  proof -
    have "map_of ?m k = Some n" using that snapshot_keys(1) by simp
    then show ?thesis by (auto simp: usr_count not_less split: if_splits)
  qed
  then show ?thesis by (auto simp: dropped_references_def filter_empty_conv)
qed

lemma no_orphans_from_itself:
  "orphan_growth (contract_snapshot_of fx g c) (contract_snapshot_of fx g c) = []"
proof -
  let ?m = "sy_ref_id_counts (cn_identity (contract_snapshot_of fx g c))"
  have "unwrap_or (map_of ?m k) 0 = n" if "(k, n) \<in> set ?m" for k n
    using that snapshot_keys(2) by simp
  then show ?thesis by (auto simp: orphan_growth_def filter_empty_conv)
qed

lemma no_drift_from_itself:
  "scope_count_drift s s = 0" "scope_range_drift g s s edited radius = (0, 0, {})"
proof -
  have d: "drifted_ranges s s kind = {}" for kind by (simp add: drifted_ranges_def)
  show "scope_count_drift s s = 0" by (simp add: scope_count_drift_def abs_diff_nat_def Let_def)
  have "(\<Union>kind \<in> set (drift_kinds g). drifted_ranges s s kind) = {}" by (simp add: d)
  then show "scope_range_drift g s s edited radius = (0, 0, {})"
    by (simp add: scope_range_drift_def Let_def d comp_def)
qed

lemma clamp_zero [simp]: "clamp 0 0 1 = 0" by (simp add: clamp_def)

lemma stable_transition_eq:
  fixes fx g c
  defines "s \<equiv> contract_snapshot_of fx g c"
  shows "evaluate_transition g s s ref_drop_tol scope_drift_tol identity_shift_tol edited_lines adaptive
     = evaluate_macro_region_safety s s edited_lines transition_default"
proof -
  have "missing_identities s s identity_shift_tol = {}" by (simp add: missing_identities_def)
  then have "evaluate_identity s s identity_shift_tol edited_lines adaptive transition_default = transition_default"
    by (simp add: evaluate_identity_def Let_def transition_default_def split: option.splits)
  moreover have "evaluate_reference_integrity s s ref_drop_tol adaptive transition_default = transition_default"
    by (simp add: evaluate_reference_integrity_def Let_def s_def no_drops_from_itself no_orphans_from_itself transition_default_def)
  moreover have "evaluate_scope_integrity g s s scope_drift_tol edited_lines adaptive transition_default = transition_default"
    by (simp add: evaluate_scope_integrity_def Let_def no_drift_from_itself transition_default_def)
  ultimately show ?thesis by (simp add: evaluate_transition_def Let_def)
qed

lemma stable_transition:
  "let s = contract_snapshot_of fx g c;
       a = evaluate_transition g s s ref_drop_tol scope_drift_tol identity_shift_tol edited_lines adaptive in
   ta_failure_messages a = [] \<and> ta_failure_score_delta a = 0 \<and> ta_culprit_lines a = {}
   \<and> \<not> ta_identity_regressed a \<and> \<not> ta_reference_regressed a \<and> \<not> ta_scope_regressed a
   \<and> ta_identity_severity a = 0 \<and> ta_reference_severity a = 0 \<and> ta_scope_severity a = 0"
  unfolding Let_def stable_transition_eq
  by (simp add: evaluate_macro_region_safety_def transition_default_def Let_def split: option.splits)

text \<open>
  A file whose semantic context did not change passes the transition check: no failure, no
  culprit line and no penalty, whatever the tolerances and the edited lines.
\<close>

theorem unchanged_context_passes:
  "let s = contract_snapshot_of fx g c;
       a = evaluate_transition g s s ref_drop_tol scope_drift_tol identity_shift_tol edited_lines adaptive in
   ta_failure_messages a = [] \<and> ta_failure_score_delta a = 0 \<and> ta_culprit_lines a = {}
   \<and> \<not> ta_identity_regressed a \<and> \<not> ta_reference_regressed a \<and> \<not> ta_scope_regressed a
   \<and> ta_identity_severity a = 0 \<and> ta_reference_severity a = 0 \<and> ta_scope_severity a = 0"
  by (rule stable_transition)

section \<open>What a transition detects\<close>

lemma add_failure_simps [simp]:
  "ta_reference_regressed (add_failure delta lines m a) = ta_reference_regressed a"
  "ta_identity_regressed (add_failure delta lines m a) = ta_identity_regressed a"
  "ta_scope_regressed (add_failure delta lines m a) = ta_scope_regressed a"
  by (simp_all add: add_failure_def)

lemma transition_reference_regressed:
  "ta_reference_regressed (evaluate_transition g before after rt st it edited adaptive)
     \<longleftrightarrow> dropped_references before after rt \<noteq> []
       \<or> iu_mismatch_count (cn_issues before) < iu_mismatch_count (cn_issues after)
       \<or> sum_list (map snd (orphan_growth before after)) \<noteq> 0"
proof -
  have sat: "0 < sat_usize n \<longleftrightarrow> n \<noteq> 0" for n by (auto simp: sat_usize_def)
  have scope: "ta_reference_regressed (evaluate_scope_integrity g before after st edited adaptive a) = ta_reference_regressed a"
    and macro: "ta_reference_regressed (evaluate_macro_region_safety before after edited a) = ta_reference_regressed a"
    and ident: "ta_reference_regressed (evaluate_identity before after it edited adaptive transition_default) = False" for a
    by (auto simp: evaluate_scope_integrity_def evaluate_macro_region_safety_def evaluate_identity_def Let_def
        transition_default_def case_prod_unfold split: option.splits)
  have "ta_reference_regressed (evaluate_reference_integrity before after rt adaptive a)
     \<longleftrightarrow> ta_reference_regressed a \<or> dropped_references before after rt \<noteq> []
       \<or> iu_mismatch_count (cn_issues before) < iu_mismatch_count (cn_issues after)
       \<or> sum_list (map snd (orphan_growth before after)) \<noteq> 0" for a
    by (auto simp: evaluate_reference_integrity_def Let_def sat)
  then show ?thesis by (simp add: evaluate_transition_def Let_def scope macro ident)
qed

lemma transition_scope_regressed:
  "ta_scope_regressed (evaluate_transition g before after rt st it edited adaptive)
     \<longleftrightarrow> st < scope_count_drift before after \<or> st < fst (snd (scope_range_drift g before after edited 1))"
proof -
  have macro: "ta_scope_regressed (evaluate_macro_region_safety before after edited a) = ta_scope_regressed a"
    and refs: "ta_scope_regressed (evaluate_reference_integrity before after rt adaptive a) = ta_scope_regressed a"
    and ident: "ta_scope_regressed (evaluate_identity before after it edited adaptive transition_default) = False" for a
    by (auto simp: evaluate_macro_region_safety_def evaluate_reference_integrity_def evaluate_identity_def
        transition_default_def Let_def split: option.splits)
  have "ta_scope_regressed (evaluate_scope_integrity g before after st edited adaptive a)
     \<longleftrightarrow> ta_scope_regressed a \<or> st < scope_count_drift before after
        \<or> st < fst (snd (scope_range_drift g before after edited 1))" for a
    by (simp add: evaluate_scope_integrity_def Let_def case_prod_unfold)
  then show ?thesis by (simp add: evaluate_transition_def Let_def macro refs ident)
qed

lemma transition_identity_regressed:
  "ta_identity_regressed (evaluate_transition g before after rt st it edited adaptive)
     \<longleftrightarrow> missing_identities before after it \<noteq> {}
       \<or> iu_identity_count (cn_issues before) < iu_identity_count (cn_issues after)"
proof -
  have scope: "ta_identity_regressed (evaluate_scope_integrity g before after st edited adaptive a) = ta_identity_regressed a"
    and macro: "ta_identity_regressed (evaluate_macro_region_safety before after edited a) = ta_identity_regressed a"
    and refs: "ta_identity_regressed (evaluate_reference_integrity before after rt adaptive a) = ta_identity_regressed a" for a
    by (auto simp: evaluate_scope_integrity_def evaluate_macro_region_safety_def evaluate_reference_integrity_def Let_def
        case_prod_unfold split: option.splits)
  have "ta_identity_regressed (evaluate_identity before after it edited adaptive transition_default)
     \<longleftrightarrow> missing_identities before after it \<noteq> {}
       \<or> iu_identity_count (cn_issues before) < iu_identity_count (cn_issues after)"
    by (auto simp: evaluate_identity_def Let_def transition_default_def split: option.splits)
  then show ?thesis by (simp add: evaluate_transition_def Let_def scope macro refs)
qed

text \<open>
  The references a declaration has left: none when it is gone, even if references to it remain.
  Only declarations with a USR that are no function templates are watched (snapshot.rs).
\<close>

definition remaining_references :: "cpp_grammar \<Rightarrow> semantic_file_context \<Rightarrow> rstr \<Rightarrow> nat" where
  "remaining_references g context ident =
     (if list_ex (\<lambda>d. sd_stable_id d = ident \<and> is_usr_backed d) (counted_declarations g context)
      then reference_total context ident else 0)"

lemma sat_usize_less: "n < 2 ^ 64 \<Longrightarrow> sat_usize (sat_usize m + k) < n \<longleftrightarrow> m + k < n"
  by (auto simp: sat_usize_def min_def)

lemma dropped_references_iff:
  assumes "length (fcx_references before) < 2 ^ 64"
  shows "dropped_references (contract_snapshot_of fx g before) (contract_snapshot_of fx g after) tolerance \<noteq> [] \<longleftrightarrow>
     (\<exists>d \<in> set (counted_declarations g before). is_usr_backed d
        \<and> remaining_references g after (sd_stable_id d) + tolerance < reference_total before (sd_stable_id d))"
proof -
  let ?b = "contract_snapshot_of fx g before" and ?a = "contract_snapshot_of fx g after"
  have total: "reference_total before k < 2 ^ 64" for k
    unfolding reference_total_def using assms length_filter_le by (rule le_less_trans [rotated])
  have left: "unwrap_or (map_of (sy_usr_ref_counts (cn_identity ?a)) k) 0 = sat_usize (remaining_references g after k)" for k
    by (auto simp: usr_count remaining_references_def list_ex_iff sat_usize_def)
  have entry: "(k, n) \<in> set (sy_usr_ref_counts (cn_identity ?b)) \<longleftrightarrow>
      (\<exists>d \<in> set (counted_declarations g before). sd_stable_id d = k \<and> is_usr_backed d) \<and> n = reference_total before k" for k n
  proof -
    have "(k, n) \<in> set (sy_usr_ref_counts (cn_identity ?b)) \<longleftrightarrow> map_of (sy_usr_ref_counts (cn_identity ?b)) k = Some n"
      using snapshot_keys(1) by simp
    moreover have "sat_usize (reference_total before k) = reference_total before k"
      using total [of k] by (simp add: sat_usize_def)
    ultimately show ?thesis by (auto simp: usr_count)
  qed
  have "dropped_references ?b ?a tolerance \<noteq> [] \<longleftrightarrow>
      (\<exists>k n. (k, n) \<in> set (sy_usr_ref_counts (cn_identity ?b))
         \<and> sat_usize (sat_usize (remaining_references g after k) + tolerance) < n)"
    by (auto simp: dropped_references_def filter_empty_conv left)
  then show ?thesis by (auto simp: entry sat_usize_less [OF total])
qed

text \<open>
  \<^bold>\<open>C28\<close>.  When a transition reports a reference regression: some declaration that has a USR and is
  no function template lost more references than the tolerance allows, where one that is gone has
  none left; or there are more references whose kind differs from their declaration's; or an
  identity without a declaration has more references than before, those to a declaration that has
  disappeared included.  Fewer references to function templates and to
  declarations without a USR are not watched.
\<close>

theorem dropped_references_detected:
  fixes fx g before after
  defines "b \<equiv> contract_snapshot_of fx g before" and "a \<equiv> contract_snapshot_of fx g after"
  assumes "length (fcx_references before) < 2 ^ 64"
  shows "ta_reference_regressed (evaluate_transition g b a tolerance scope_drift_tol identity_shift_tol edited_lines adaptive)
     \<longleftrightarrow> (\<exists>d \<in> set (counted_declarations g before). is_usr_backed d
           \<and> remaining_references g after (sd_stable_id d) + tolerance < reference_total before (sd_stable_id d))
       \<or> iu_mismatch_count (cn_issues b) < iu_mismatch_count (cn_issues a)
       \<or> sum_list (map snd (orphan_growth b a)) \<noteq> 0"
  unfolding transition_reference_regressed
  by (simp only: b_def a_def dropped_references_iff [OF assms(3)])

lemma abs_diff_natI: "a - k \<le> b \<Longrightarrow> b \<le> a + k \<Longrightarrow> abs_diff_nat a b \<le> k"
  by (auto simp: abs_diff_nat_def)

lemma migrated_nearby:
  assumes "identity_migrated_locally k declaration_line kind n after tolerance"
  obtains line ids where "declaration_line \<noteq> 0" "declaration_line - tolerance \<le> line"
    "line \<le> declaration_line + tolerance" "sy_decl_ids_by_line (cn_identity after) line = Some ids"
proof -
  from assms have z: "declaration_line \<noteq> 0" by (simp add: identity_migrated_locally_def)
  from assms obtain line where l: "line \<in> set [declaration_line - tolerance..<Suc (sat_usize (declaration_line + tolerance))]"
    "sy_decl_ids_by_line (cn_identity after) line \<noteq> None"
    unfolding identity_migrated_locally_def list_ex_iff by (auto simp del: upt_Suc split: option.splits)
  then obtain ids where ids: "sy_decl_ids_by_line (cn_identity after) line = Some ids" by blast
  have "declaration_line - tolerance \<le> line \<and> line \<le> sat_usize (declaration_line + tolerance)"
    using l(1) by (simp del: upt_Suc)
  then have "declaration_line - tolerance \<le> line" "line \<le> declaration_line + tolerance"
    by (auto simp: sat_usize_def)
  with z ids that show thesis by blast
qed

text \<open>
  A transition without an identity regression lost no declaration without a trace: its
  identity is still declared, or something is declared within the line tolerance of a declaration
  of that identity.
\<close>

theorem lost_identity_has_neighbour:
  assumes "\<not> ta_identity_regressed (evaluate_transition g (contract_snapshot_of fx g before)
     (contract_snapshot_of fx g after) ref_drop_tol scope_drift_tol tolerance edited_lines adaptive)"
    and "d \<in> set (counted_declarations g before)"
  shows "\<exists>d' \<in> set (counted_declarations g after). sd_stable_id d' = sd_stable_id d
     \<or> (\<exists>d2 \<in> set (counted_declarations g before). sd_stable_id d2 = sd_stable_id d
          \<and> abs_diff_nat (max (sd_line d2) 1) (max (sd_line d') 1) \<le> tolerance)"
proof (cases "sd_stable_id d \<in> sd_stable_id ` set (counted_declarations g after)")
  case True
  then show ?thesis by force
next
  case False
  let ?b = "contract_snapshot_of fx g before" and ?a = "contract_snapshot_of fx g after"
  let ?k = "sd_stable_id d"
  have "?k \<in> sy_decl_ids (cn_identity ?b) - sy_decl_ids (cn_identity ?a)"
    using False assms(2) by (simp add: snapshot_keys(3))
  with assms(1) have migrated: "identity_migrated_locally ?k (unwrap_or (sy_id_decl_lines (cn_identity ?b) ?k) 0)
      (sy_kind_by_decl_id (cn_identity ?b) ?k) (reference_count_of ?b ?k) ?a tolerance"
    by (auto simp: transition_identity_regressed missing_identities_def)
  have b: "declared_ok (counted_declarations g before) (fst (declared g before))"
    "counted_ok (fst (declared g before)) (fcx_references before) (cn_identity ?b)"
    and a: "declared_ok (counted_declarations g after) (fst (declared g after))"
    "counted_ok (fst (declared g after)) (fcx_references after) (cn_identity ?a)"
    by (rule snapshot_identity)+
  from migrated_nearby [OF migrated] obtain line ids where line:
    "unwrap_or (sy_id_decl_lines (cn_identity ?b) ?k) 0 \<noteq> 0"
    "unwrap_or (sy_id_decl_lines (cn_identity ?b) ?k) 0 - tolerance \<le> line"
    "line \<le> unwrap_or (sy_id_decl_lines (cn_identity ?b) ?k) 0 + tolerance"
    "sy_decl_ids_by_line (cn_identity ?a) line = Some ids" .
  then obtain l0 where l0: "sy_id_decl_lines (cn_identity ?b) ?k = Some l0"
    by (cases "sy_id_decl_lines (cn_identity ?b) ?k") auto
  with b obtain d2 where d2: "d2 \<in> set (counted_declarations g before)" "sd_stable_id d2 = ?k" "l0 = max (sd_line d2) 1"
    unfolding counted_ok_def declared_ok_def by metis
  from line(4) a have "ids \<noteq> {}" "\<forall>k \<in> ids. \<exists>d \<in> set (counted_declarations g after). sd_stable_id d = k \<and> line = max (sd_line d) 1"
    unfolding counted_ok_def declared_ok_def by (metis, metis)
  then obtain d' where d': "d' \<in> set (counted_declarations g after)" "line = max (sd_line d') 1" by fast
  have "abs_diff_nat (max (sd_line d2) 1) (max (sd_line d') 1) \<le> tolerance"
    using line(2,3) l0 d2(3) d'(2) by (intro abs_diff_natI) simp_all
  with d2 d' show ?thesis by blast
qed

section \<open>Examples\<close>

definition sample_declaration :: "rstr \<Rightarrow> nat \<Rightarrow> semantic_declaration" where
  "sample_declaration usr line =
     (synthesized_declaration sample_grammar \<lparr>dk_path = [], dk_line = line, dk_column = 1, dk_kind = 9\<rparr> usr
        (''usr:'' @ usr) Usr)\<lparr>sd_usr := Some usr\<rparr>"

definition sample_reference :: "rstr \<Rightarrow> nat \<Rightarrow> semantic_reference" where
  "sample_reference usr line = \<lparr>sr_stable_id = ''usr:'' @ usr, sr_provenance = Usr, sr_decl_path = [],
     sr_decl_kind = 9, sr_offset = line, sr_line = line, sr_column = 1\<rparr>"

definition sample_context :: "semantic_declaration list \<Rightarrow> semantic_reference list \<Rightarrow> semantic_file_context" where
  "sample_context declarations references =
     (empty_context [])\<lparr>fcx_declarations := declarations, fcx_references := references\<rparr>"

text \<open>Two variables on neighbouring lines, and the file without the first.\<close>

definition two_variables :: semantic_file_context where
  "two_variables = sample_context [sample_declaration ''f'' 3, sample_declaration ''g'' 4] [sample_reference ''f'' 9]"

definition one_variable :: semantic_file_context where
  "one_variable = sample_context [sample_declaration ''g'' 4] []"

lemma sample_declaration_simps [simp]:
  "sd_stable_id (sample_declaration usr line) = ''usr:'' @ usr"
  "sd_kind (sample_declaration usr line) = 9" "is_usr_backed (sample_declaration usr line)"
  by (simp_all add: sample_declaration_def synthesized_declaration_def is_usr_backed_def)

lemma sample_counted [simp]:
  "counted_declarations sample_grammar two_variables = [sample_declaration ''f'' 3, sample_declaration ''g'' 4]"
  "counted_declarations sample_grammar one_variable = [sample_declaration ''g'' 4]"
  "reference_total two_variables ''usr:f'' = 1" "reference_total one_variable ''usr:f'' = 0"
  by (simp_all add: counted_declarations_def reference_total_def two_variables_def one_variable_def
      sample_context_def sample_reference_def sample_grammar_def empty_context_def)

theorem dropped_references_detected_witness:
  "ta_reference_regressed (evaluate_transition sample_grammar
     (contract_snapshot_of sample_hasher sample_grammar two_variables)
     (contract_snapshot_of sample_hasher sample_grammar one_variable) 0 3 1 None certainty_default)"
  using dropped_references_detected [of two_variables sample_grammar sample_hasher one_variable 0 3 1 None certainty_default]
  by (simp add: remaining_references_def) (simp add: two_variables_def sample_context_def)

lemma one_variable_snapshot:
  defines "s \<equiv> contract_snapshot_of sample_hasher sample_grammar one_variable"
  shows "sy_decl_ids_by_line (cn_identity s) = [4 \<mapsto> {''usr:g''}]"
    "sy_kind_by_decl_id (cn_identity s) = [''usr:g'' \<mapsto> 9]" "sy_decl_ids (cn_identity s) = {''usr:g''}"
    "sy_ref_id_counts (cn_identity s) = []" "iu_identity_count (cn_issues s) = 0"
    "iu_mismatch_count (cn_issues s) = 0" "cn_scopes s = no_scopes"
  by (simp_all add: s_def contract_snapshot_of_def one_variable_def sample_context_def empty_context_def Let_def
      snapshot_declaration_def sample_grammar_def sample_declaration_def synthesized_declaration_def is_usr_backed_def
      provenance_issue_def starts_with_def no_identity_def no_issues_def case_prod_unfold no_scopes_def)

lemma two_variables_snapshot:
  defines "s \<equiv> contract_snapshot_of sample_hasher sample_grammar two_variables"
  shows "sy_decl_ids (cn_identity s) = {''usr:f'', ''usr:g''}"
    "sy_id_decl_lines (cn_identity s) = [''usr:f'' \<mapsto> 3, ''usr:g'' \<mapsto> 4]"
    "sy_kind_by_decl_id (cn_identity s) = [''usr:f'' \<mapsto> 9, ''usr:g'' \<mapsto> 9]"
    "sy_usr_ref_counts (cn_identity s) = [(''usr:f'', 1), (''usr:g'', 0)]" "iu_identity_count (cn_issues s) = 0"
    "iu_mismatch_count (cn_issues s) = 0" "cn_scopes s = no_scopes"
  by (simp_all add: s_def contract_snapshot_of_def two_variables_def sample_context_def empty_context_def Let_def
      snapshot_declaration_def sample_grammar_def sample_declaration_def synthesized_declaration_def is_usr_backed_def
      provenance_issue_def starts_with_def no_identity_def no_issues_def case_prod_unfold no_scopes_def
      snapshot_reference_def sample_reference_def bump_existing_def sat_usize_def insert_commute)

lemma sample_not_missing:
  "missing_identities (contract_snapshot_of sample_hasher sample_grammar two_variables)
     (contract_snapshot_of sample_hasher sample_grammar one_variable) (Suc 0) = {}"
proof -
  have "{''usr:f'', ''usr:g''} - {''usr:g''} = {''usr:f''}" by auto
  moreover have "identity_migrated_locally ''usr:f'' 3 (Some 9) n
      (contract_snapshot_of sample_hasher sample_grammar one_variable) 1" for n
    by (simp add: identity_migrated_locally_def one_variable_snapshot migrated_to_def kind_compatible_def
        sat_usize_def list_ex_iff)
  ultimately show ?thesis
    by (auto simp: missing_identities_def one_variable_snapshot two_variables_snapshot)
qed

theorem lost_identity_has_neighbour_witness:
  "\<exists>d' \<in> set (counted_declarations sample_grammar one_variable). sd_stable_id d' = ''usr:f''
     \<or> (\<exists>d2 \<in> set (counted_declarations sample_grammar two_variables). sd_stable_id d2 = ''usr:f''
          \<and> abs_diff_nat (max (sd_line d2) 1) (max (sd_line d') 1) \<le> 1)"
  using lost_identity_has_neighbour [of sample_grammar sample_hasher two_variables one_variable 2 1 1 None
      certainty_default "sample_declaration ''f'' 3"]
  by (simp add: transition_identity_regressed sample_not_missing one_variable_snapshot)

text \<open>
  A deleted declaration next to another one of its kind goes unnoticed: the check accepts
  as its migrated form a neighbour that was there before.  Here a variable with its only use is
  deleted, and no clause of the contract reports a regression under the tolerances of an exact
  compilation context.
\<close>

theorem deleted_neighbour_unnoticed:
  "let before = contract_snapshot_of sample_hasher sample_grammar two_variables;
       after = contract_snapshot_of sample_hasher sample_grammar one_variable;
       a = evaluate_transition sample_grammar before after 2 1 1 (Some {3}) certainty_default in
   sd_stable_id (sample_declaration ''f'' 3) \<in> sy_decl_ids (cn_identity before) - sy_decl_ids (cn_identity after)
   \<and> \<not> ta_identity_regressed a \<and> \<not> ta_reference_regressed a \<and> \<not> ta_scope_regressed a"
proof -
  let ?b = "contract_snapshot_of sample_hasher sample_grammar two_variables"
  let ?a = "contract_snapshot_of sample_hasher sample_grammar one_variable"
  have "dropped_references ?b ?a 2 = []" "orphan_growth ?b ?a = []"
    by (simp_all add: dropped_references_def orphan_growth_def one_variable_snapshot two_variables_snapshot sat_usize_def)
  moreover have "scope_count_drift ?b ?a = 0" "scope_range_drift sample_grammar ?b ?a edited radius = (0, 0, {})" for edited radius
    by (simp_all add: scope_count_drift_def scope_range_drift_def drifted_ranges_def drift_kinds_def
        one_variable_snapshot two_variables_snapshot no_scopes_def abs_diff_nat_def)
  ultimately show ?thesis
    by (simp add: Let_def transition_identity_regressed transition_reference_regressed transition_scope_regressed
        sample_not_missing one_variable_snapshot two_variables_snapshot)
qed

end
