(* ===== verification/Post_Check.thy ===== *)
theory Post_Check
  imports Contract_Facts
begin

text \<open>
  The check after an edit: \<^verbatim>\<open>src/src/engine/post_check.rs\<close> with its modules \<^verbatim>\<open>baseline.rs\<close> and
  \<^verbatim>\<open>delta.rs\<close>.  A baseline is taken of the text before; the text after is parsed again and compared
  with it.

  The parsers and the compilation database are functions of the record \<open>post_edit_checker\<close>: a parse
  gives a tree, or a clang result, or an error text.
\<close>

section \<open>Data\<close>

datatype post_edit_failure_kind =
  ParserUnavailableTree | ParserUnavailableClang | TreeErrorRegressed | TreeErrorRatioRegressed
  | ClangDiagnosticsIncreased | SemanticReadinessRegressed | SemanticIdentityRegressed
  | SemanticReferenceIntegrityRegressed | SemanticScopeDriftRegressed

record post_edit_check_result =
  pk_accepted :: bool
  pk_messages :: "rstr list"
  pk_failure_kinds :: "post_edit_failure_kind set"
  pk_culprit_lines :: "nat set"

record check_baseline =
  bl_tree_error :: "bool option"
  bl_tree_error_ratio :: "real option"
  bl_clang_error_count :: "nat option"
  bl_clang_fatal_count :: "nat option"
  bl_clang_summary :: "diagnostic_counts option"
  bl_clang_diagnostic_entries :: "clang_diagnostic_entry list option"
  bl_clang_error_lines :: "nat set option"
  bl_semantic_snapshot :: "contract_snapshot option"
  bl_semantic_ready :: bool
  bl_semantic_readiness_note :: "rstr option"
  bl_tree_unavailable :: bool
  bl_clang_unavailable :: bool
  bl_warnings :: "rstr list"

record post_edit_checker =
  pc_hasher :: fx_hasher
  pc_grammar :: cpp_grammar
  pc_parse_tree :: "rstr \<Rightarrow> rstr \<Rightarrow> rstr + ts_node"
  pc_parse_clang :: "rstr \<Rightarrow> rstr \<Rightarrow> rstr + clang_parse_result"
  pc_context_kind :: "rstr \<Rightarrow> semantic_compdb_context_kind"
  pc_has_exact_compdb :: "rstr \<Rightarrow> bool"
  pc_fail_on_parser_unavailable :: bool
  pc_tree_error_ratio_tolerance :: real

definition post_edit_checker_new ::
    "fx_hasher \<Rightarrow> cpp_grammar \<Rightarrow> (rstr \<Rightarrow> rstr \<Rightarrow> rstr + ts_node) \<Rightarrow> (rstr \<Rightarrow> rstr \<Rightarrow> rstr + clang_parse_result)
      \<Rightarrow> (rstr \<Rightarrow> semantic_compdb_context_kind) \<Rightarrow> (rstr \<Rightarrow> bool) \<Rightarrow> bool \<Rightarrow> real \<Rightarrow> post_edit_checker" where
  "post_edit_checker_new fx g parse_tree parse_clang kind exact fail tolerance =
     \<lparr>pc_hasher = fx, pc_grammar = g, pc_parse_tree = parse_tree, pc_parse_clang = parse_clang,
      pc_context_kind = kind, pc_has_exact_compdb = exact, pc_fail_on_parser_unavailable = fail,
      pc_tree_error_ratio_tolerance = clamp tolerance 0 1\<rparr>"

section \<open>Diagnostics\<close>

definition cx_diagnostic_note :: nat where "cx_diagnostic_note = 1"

definition diagnostic_weights :: "certainty_filter_state \<Rightarrow> nat \<times> nat \<times> nat \<times> nat" where
  "diagnostic_weights s =
     (let avg = (cs_estimates s ! 0 + cs_estimates s ! 1) / 2 in
      (1, rounded_weight (avg * 4.444444444444445), rounded_weight (avg * 11.851851851851853),
       rounded_weight (avg * 17.77777777777778)))"

definition diagnostic_weighted_score :: "diagnostic_counts \<Rightarrow> certainty_filter_state \<Rightarrow> nat" where
  "diagnostic_weighted_score counts adaptive =
     (let (note_w, warn_w, err_w, fatal_w) = diagnostic_weights adaptive;
          weighted = (\<lambda>severity w. sat_u32 ((counts ! severity) mod 2 ^ 32 * w))
      in sat_u32 (sat_u32 (sat_u32 (weighted cx_diagnostic_note note_w + weighted cx_diagnostic_warning warn_w)
           + weighted cx_diagnostic_error err_w) + weighted cx_diagnostic_fatal fatal_w))"

definition diagnostic_summary_label :: "diagnostic_counts \<Rightarrow> rstr" where
  "diagnostic_summary_label counts =
     ''fatal='' @ nat_to_string (counts ! cx_diagnostic_fatal) @ '' error='' @ nat_to_string (counts ! cx_diagnostic_error)
     @ '' warning='' @ nat_to_string (counts ! cx_diagnostic_warning) @ '' note='' @ nat_to_string (counts ! cx_diagnostic_note)"

definition diagnostic_severity_bucket :: "nat \<Rightarrow> nat" where
  "diagnostic_severity_bucket severity = (if severity \<le> cx_diagnostic_error then severity else 4)"

definition diagnostic_delta_lines :: "clang_diagnostic_entry list \<Rightarrow> clang_diagnostic_entry list \<Rightarrow> nat set" where
  "diagnostic_delta_lines before after =
     (let key = (\<lambda>e. (de_line e, de_column e, diagnostic_severity_bucket (de_severity e))) in
      de_line ` Set.filter (\<lambda>e. count_list (map key before) (key e) < count_list (map key after) (key e) \<and> de_line e > 0)
        (set after))"

definition near_edited_lines :: "nat \<Rightarrow> nat set \<Rightarrow> nat \<Rightarrow> bool" where
  "near_edited_lines line edited_lines radius \<longleftrightarrow> line \<noteq> 0 \<and> near_lines line line edited_lines radius"

definition tolerate_nonlocal_delta ::
    "semantic_compdb_context_kind \<Rightarrow> bool \<Rightarrow> nat set option \<Rightarrow> nat set \<Rightarrow> nat \<Rightarrow> nat \<Rightarrow> bool" where
  "tolerate_nonlocal_delta context_kind exact_compdb edited_lines delta_lines severe_delta weighted_delta =
     (case edited_lines of
        None \<Rightarrow> False
      | Some edited \<Rightarrow>
          if edited = {} \<or> delta_lines = {} \<or> exact_compdb \<or> severe_delta > 1 then False
          else
            let reaches_not = (\<lambda>delta_limit radius. weighted_delta \<le> delta_limit
                  \<and> (\<forall>line \<in> delta_lines. line > 0 \<and> \<not> near_edited_lines line edited radius))
            in (case context_kind of
                  PairedSourceHeuristic \<Rightarrow> reaches_not 0 0
                | HeaderConsensus \<Rightarrow> reaches_not 24 4
                | SourceConsensus \<Rightarrow> reaches_not 6 4
                | _ \<Rightarrow> False))"

definition skip_clang_validation :: "post_edit_checker \<Rightarrow> rstr \<Rightarrow> bool" where
  "skip_clang_validation pc path \<longleftrightarrow>
     \<not> pc_has_exact_compdb pc path \<and> pc_context_kind pc path \<in> {HeaderConsensus, SourceConsensus}"

definition relax_consensus_failure ::
    "post_edit_checker \<Rightarrow> rstr \<Rightarrow> nat set option \<Rightarrow> post_edit_failure_kind set \<Rightarrow> nat set \<Rightarrow> nat \<Rightarrow> nat \<Rightarrow> bool" where
  "relax_consensus_failure pc path edited_lines failure_kinds delta_lines severe_delta weighted_delta =
     (if ClangDiagnosticsIncreased \<notin> failure_kinds
         \<or> failure_kinds \<inter> {SemanticReadinessRegressed, SemanticIdentityRegressed, SemanticReferenceIntegrityRegressed,
             SemanticScopeDriftRegressed, TreeErrorRegressed, TreeErrorRatioRegressed} \<noteq> {}
         \<or> pc_has_exact_compdb pc path
      then False
      else
        let kind = pc_context_kind pc path;
            nonlocal = tolerate_nonlocal_delta kind False edited_lines delta_lines severe_delta weighted_delta
        in case kind of
             PairedSourceHeuristic \<Rightarrow> severe_delta \<le> 8 \<and> weighted_delta \<le> 48
               \<and> (case edited_lines of None \<Rightarrow> False | Some lines \<Rightarrow> lines \<noteq> {})
           | HeaderConsensus \<Rightarrow> severe_delta \<le> 1 \<and> weighted_delta \<le> 10 \<and> nonlocal
           | SourceConsensus \<Rightarrow> severe_delta \<le> 1 \<and> weighted_delta \<le> 10 \<and> nonlocal
           | _ \<Rightarrow> False)"

definition transition_tolerances :: "semantic_compdb_context_kind \<Rightarrow> nat \<times> nat" where
  "transition_tolerances context_kind =
     (case context_kind of
        Exact \<Rightarrow> (2 + 0, 1 + 0)
      | PairedSourceHeuristic \<Rightarrow> (4 + 24, 3 + 4)
      | HeaderConsensus \<Rightarrow> (4 + 6, 3 + 4)
      | SourceConsensus \<Rightarrow> (4 + 4, 3 + 2)
      | NoContext \<Rightarrow> (4 + 2, 3 + 0))"

section \<open>The baseline\<close>

definition empty_baseline :: check_baseline where
  "empty_baseline = \<lparr>bl_tree_error = None, bl_tree_error_ratio = None, bl_clang_error_count = None,
     bl_clang_fatal_count = None, bl_clang_summary = None, bl_clang_diagnostic_entries = None,
     bl_clang_error_lines = None, bl_semantic_snapshot = None, bl_semantic_ready = False,
     bl_semantic_readiness_note = None, bl_tree_unavailable = False, bl_clang_unavailable = False, bl_warnings = []\<rparr>"

definition baseline_tree :: "post_edit_checker \<Rightarrow> rstr + ts_node \<Rightarrow> check_baseline \<Rightarrow> check_baseline" where
  "baseline_tree pc tree_result baseline =
     (case tree_result of
        Inr tree \<Rightarrow> baseline\<lparr>bl_tree_error := Some (has_error tree),
                            bl_tree_error_ratio := Some (error_ratio (tree_error_stats tree))\<rparr>
      | Inl err \<Rightarrow>
          if pc_fail_on_parser_unavailable pc
          then baseline\<lparr>bl_tree_unavailable := True,
                  bl_warnings := bl_warnings baseline
                    @ [''post-edit check failed: tree-sitter parser unavailable before edit: '' @ err]\<rparr>
          else baseline\<lparr>bl_warnings := bl_warnings baseline @ [''post-edit check warning (before tree): '' @ err]\<rparr>)"

definition baseline_clang :: "post_edit_checker \<Rightarrow> rstr + clang_parse_result \<Rightarrow> check_baseline \<Rightarrow> check_baseline" where
  "baseline_clang pc clang_result baseline =
     (case clang_result of
        Inr parse \<Rightarrow> baseline\<lparr>bl_clang_error_count := Some (error_diagnostic_count parse),
            bl_clang_fatal_count := Some (cp_diagnostic_counts parse ! cx_diagnostic_fatal),
            bl_clang_summary := Some (cp_diagnostic_counts parse),
            bl_clang_diagnostic_entries := Some (cp_diagnostic_entries parse),
            bl_clang_error_lines := Some (error_diagnostic_lines parse)\<rparr>
      | Inl err \<Rightarrow>
          if pc_fail_on_parser_unavailable pc
          then baseline\<lparr>bl_clang_unavailable := True,
                  bl_warnings := bl_warnings baseline
                    @ [''post-edit check failed: clang parser unavailable before edit: '' @ err]\<rparr>
          else baseline\<lparr>bl_warnings := bl_warnings baseline @ [''post-edit check warning (before clang): '' @ err]\<rparr>)"

definition ok_part :: "'e + 'a \<Rightarrow> 'a option" where
  "ok_part r = (case r of Inl _ \<Rightarrow> None | Inr x \<Rightarrow> Some x)"

definition parsed_snapshot ::
    "post_edit_checker \<Rightarrow> rstr \<Rightarrow> rstr \<Rightarrow> (rstr + ts_node) \<Rightarrow> (rstr + clang_parse_result) option \<Rightarrow> contract_snapshot" where
  "parsed_snapshot pc path text tree_result clang_result =
     contract_snapshot_of (pc_hasher pc) (pc_grammar pc)
       (from_parses (pc_hasher pc) (pc_grammar pc) text path (ok_part tree_result)
         (case clang_result of None \<Rightarrow> None | Some r \<Rightarrow> ok_part r))"

definition clang_result_for :: "post_edit_checker \<Rightarrow> rstr \<Rightarrow> rstr \<Rightarrow> (rstr + clang_parse_result) option" where
  "clang_result_for pc path text =
     (if \<not> skip_clang_validation pc path then Some (pc_parse_clang pc text path) else None)"

definition build_baseline :: "post_edit_checker \<Rightarrow> rstr \<Rightarrow> rstr \<Rightarrow> check_baseline" where
  "build_baseline pc path before_text =
     (let tree_result = pc_parse_tree pc before_text path;
          clang_result = clang_result_for pc path before_text;
          baseline = baseline_tree pc tree_result empty_baseline;
          baseline = (case clang_result of None \<Rightarrow> baseline | Some r \<Rightarrow> baseline_clang pc r baseline);
          snapshot = parsed_snapshot pc path before_text tree_result clang_result;
          baseline = baseline\<lparr>bl_semantic_snapshot := Some snapshot,
                              bl_warnings := bl_warnings baseline @ cx_warnings (evaluate_context snapshot)\<rparr>;
          readiness = evaluate_readiness_with_snapshot (bl_tree_unavailable baseline) (bl_clang_unavailable baseline)
                        (Some snapshot)
      in baseline\<lparr>bl_semantic_ready := ra_ready readiness,
                  bl_semantic_readiness_note := (if ra_ready readiness then None else Some (readiness_summary readiness))\<rparr>)"

section \<open>Validation\<close>

record delta_state =
  dt_messages :: "rstr list"
  dt_failure_kinds :: "post_edit_failure_kind set"
  dt_culprit_lines :: "nat set"
  dt_clang_delta_lines :: "nat set"
  dt_clang_weighted_delta :: nat
  dt_clang_severe_delta :: nat

definition report :: "post_edit_failure_kind set \<Rightarrow> rstr list \<Rightarrow> nat set \<Rightarrow> delta_state \<Rightarrow> delta_state" where
  "report kinds messages lines s =
     s\<lparr>dt_failure_kinds := dt_failure_kinds s \<union> kinds, dt_messages := dt_messages s @ messages,
       dt_culprit_lines := dt_culprit_lines s \<union> lines\<rparr>"

text \<open>The tree, the same in both forms of the check.\<close>

definition check_tree :: "post_edit_checker \<Rightarrow> check_baseline \<Rightarrow> rstr + ts_node \<Rightarrow> delta_state \<Rightarrow> delta_state" where
  "check_tree pc baseline tree_result s =
     (case tree_result of
        Inr tree \<Rightarrow>
          let stats = tree_error_stats tree; after_ratio = error_ratio stats;
              s = (if bl_tree_error baseline = Some False \<and> has_error tree
                   then report {TreeErrorRegressed} [''post-edit check failed: tree-sitter parse quality regressed'']
                          (te_error_lines stats) s
                   else s)
          in (case bl_tree_error_ratio baseline of
                None \<Rightarrow> s
              | Some before_ratio \<Rightarrow>
                  let allowed = clamp (before_ratio + pc_tree_error_ratio_tolerance pc) 0 1 in
                  if after_ratio > allowed
                  then report {TreeErrorRatioRegressed}
                         [''post-edit check failed: tree-sitter error ratio increased ('' @ format_fixed 4 before_ratio
                            @ '' -> '' @ format_fixed 4 after_ratio @ '')''] (te_error_lines stats) s
                  else s)
      | Inl err \<Rightarrow>
          if pc_fail_on_parser_unavailable pc
          then report {ParserUnavailableTree}
                 [''post-edit check failed: tree-sitter parser unavailable after edit: '' @ err] {} s
          else report {} [''post-edit check warning (after tree): '' @ err] {} s)"

definition clang_delta_lines :: "check_baseline \<Rightarrow> clang_parse_result \<Rightarrow> nat set" where
  "clang_delta_lines baseline parse =
     (let delta = (case bl_clang_diagnostic_entries baseline of
            None \<Rightarrow> {} | Some before \<Rightarrow> diagnostic_delta_lines before (cp_diagnostic_entries parse));
          delta = (if delta = {}
            then (case bl_clang_error_lines baseline of
                    None \<Rightarrow> error_diagnostic_lines parse
                  | Some before_lines \<Rightarrow> error_diagnostic_lines parse - before_lines)
            else delta)
      in if delta = {}
         then de_line ` Set.filter (\<lambda>e. de_severity e \<in> {cx_diagnostic_warning, cx_diagnostic_error, cx_diagnostic_fatal}
                \<and> de_line e > 0) (set (cp_diagnostic_entries parse))
         else delta)"

definition check_clang_parse ::
    "post_edit_checker \<Rightarrow> rstr \<Rightarrow> check_baseline \<Rightarrow> nat set option \<Rightarrow> certainty_filter_state
      \<Rightarrow> clang_parse_result \<Rightarrow> delta_state \<Rightarrow> delta_state" where
  "check_clang_parse pc path baseline edited_lines adaptive parse s =
     (let after_counts = cp_diagnostic_counts parse in
      case bl_clang_summary baseline of
        Some before_counts \<Rightarrow>
          let before_weight = diagnostic_weighted_score before_counts adaptive;
              after_weight = diagnostic_weighted_score after_counts adaptive;
              weighted_delta = after_weight - before_weight;
              severe_delta = diagnostic_error_total after_counts - diagnostic_error_total before_counts;
              s = s\<lparr>dt_clang_weighted_delta := weighted_delta, dt_clang_severe_delta := severe_delta\<rparr>
          in if weighted_delta > 0 \<or> severe_delta > 0
             then
               let delta = clang_delta_lines baseline parse;
                   s = s\<lparr>dt_clang_delta_lines := delta\<rparr>;
                   change = nat_to_string before_weight @ '' -> '' @ nat_to_string after_weight @ '', summary ''
                     @ diagnostic_summary_label before_counts @ '' -> '' @ diagnostic_summary_label after_counts
               in if tolerate_nonlocal_delta (pc_context_kind pc path) (pc_has_exact_compdb pc path)
                       edited_lines delta severe_delta weighted_delta
                  then report {} [''post-edit check warning: tolerated non-local clang diagnostic delta under consensus semantic context (weight ''
                         @ change @ '', lines='' @ line_hint (sorted_list_of_set delta) 6 @ '')''] {} s
                  else report {ClangDiagnosticsIncreased}
                         [''post-edit check failed: clang diagnostic weight increased ('' @ change @ '')''] delta s
             else s
      | None \<Rightarrow>
          (case bl_clang_error_count baseline of
             None \<Rightarrow> s
           | Some before_count \<Rightarrow>
               let after_count = error_diagnostic_count parse in
               if after_count > before_count
               then report {ClangDiagnosticsIncreased}
                      [''post-edit check failed: clang diagnostics increased ('' @ nat_to_string before_count
                         @ '' -> '' @ nat_to_string after_count @ '')''] (error_diagnostic_lines parse) s
               else s))"

definition check_clang ::
    "post_edit_checker \<Rightarrow> rstr \<Rightarrow> check_baseline \<Rightarrow> nat set option \<Rightarrow> certainty_filter_state
      \<Rightarrow> (rstr + clang_parse_result) option \<Rightarrow> delta_state \<Rightarrow> delta_state" where
  "check_clang pc path baseline edited_lines adaptive clang_result s =
     (case clang_result of
        None \<Rightarrow> s
      | Some (Inr parse) \<Rightarrow> check_clang_parse pc path baseline edited_lines adaptive parse s
      | Some (Inl err) \<Rightarrow>
          if pc_fail_on_parser_unavailable pc
          then report {ParserUnavailableClang}
                 [''post-edit check failed: clang parser unavailable after edit: '' @ err] {} s
          else report {} [''post-edit check warning (after clang): '' @ err] {} s)"

definition transition_kinds :: "transition_assessment \<Rightarrow> post_edit_failure_kind set" where
  "transition_kinds a =
     (if ta_identity_regressed a then {SemanticIdentityRegressed} else {})
     \<union> (if ta_reference_regressed a then {SemanticReferenceIntegrityRegressed} else {})
     \<union> (if ta_scope_regressed a then {SemanticScopeDriftRegressed} else {})"

definition check_semantics ::
    "post_edit_checker \<Rightarrow> rstr \<Rightarrow> check_baseline \<Rightarrow> nat set option \<Rightarrow> certainty_filter_state \<Rightarrow> bool \<Rightarrow> bool
      \<Rightarrow> contract_snapshot \<Rightarrow> delta_state \<Rightarrow> delta_state" where
  "check_semantics pc path baseline edited_lines adaptive tree_unavailable clang_unavailable after_snapshot s =
     (let s = report {} (cx_warnings (evaluate_context after_snapshot)) {} s;
          readiness = evaluate_readiness_with_snapshot tree_unavailable clang_unavailable (Some after_snapshot)
      in if bl_semantic_ready baseline
         then if \<not> ra_ready readiness
              then report {SemanticReadinessRegressed}
                     [''post-edit check failed: semantic readiness regressed after edit (''
                        @ readiness_summary readiness @ '')''] {} s
              else (case bl_semantic_snapshot baseline of
                      None \<Rightarrow> s
                    | Some before_snapshot \<Rightarrow>
                        let (ref_tol, scope_tol) = transition_tolerances (pc_context_kind pc path);
                            a = evaluate_transition (pc_grammar pc) before_snapshot after_snapshot ref_tol scope_tol
                                  (identity_shift_tolerance adaptive) edited_lines adaptive
                        in report (transition_kinds a) (ta_failure_messages a @ ta_warning_messages a)
                             (ta_culprit_lines a) s)
         else (case bl_semantic_readiness_note baseline of
                 None \<Rightarrow> s
               | Some note \<Rightarrow>
                   report {} [''post-edit check warning: semantic integrity checks skipped; baseline readiness unmet (''
                     @ note @ '')''] {} s))"

definition relax_failures :: "post_edit_checker \<Rightarrow> rstr \<Rightarrow> nat set option \<Rightarrow> delta_state \<Rightarrow> delta_state" where
  "relax_failures pc path edited_lines s =
     (if relax_consensus_failure pc path edited_lines (dt_failure_kinds s) (dt_clang_delta_lines s)
           (dt_clang_severe_delta s) (dt_clang_weighted_delta s)
      then s\<lparr>dt_failure_kinds := dt_failure_kinds s - {ClangDiagnosticsIncreased},
             dt_messages := filter (\<lambda>m. \<not> starts_with m ''post-edit check failed: clang diagnostic weight increased''
                 \<and> \<not> starts_with m ''post-edit check failed: clang diagnostics increased'') (dt_messages s)
               @ [''post-edit check warning: relaxed clang diagnostic regression under consensus context because semantic invariants remained stable (lines=''
                    @ line_hint (sorted_list_of_set (dt_clang_delta_lines s)) 6 @ '')''],
             dt_culprit_lines := dt_culprit_lines s - dt_clang_delta_lines s\<rparr>
      else s)"

definition initial_delta :: "check_baseline \<Rightarrow> delta_state" where
  "initial_delta baseline =
     \<lparr>dt_messages = bl_warnings baseline,
      dt_failure_kinds = (if bl_tree_unavailable baseline then {ParserUnavailableTree} else {})
        \<union> (if bl_clang_unavailable baseline then {ParserUnavailableClang} else {}),
      dt_culprit_lines = {}, dt_clang_delta_lines = {}, dt_clang_weighted_delta = 0, dt_clang_severe_delta = 0\<rparr>"

definition is_failed :: "'e + 'a \<Rightarrow> bool" where
  "is_failed r = (case r of Inl _ \<Rightarrow> True | Inr _ \<Rightarrow> False)"

definition compared ::
    "post_edit_checker \<Rightarrow> rstr \<Rightarrow> rstr \<Rightarrow> check_baseline \<Rightarrow> nat set option \<Rightarrow> certainty_filter_state \<Rightarrow> delta_state" where
  "compared pc path after_text baseline edited_lines adaptive =
     (let tree_result = pc_parse_tree pc after_text path;
          clang_result = clang_result_for pc path after_text;
          s = check_tree pc baseline tree_result (initial_delta baseline);
          s = check_clang pc path baseline edited_lines adaptive clang_result s;
          s = check_semantics pc path baseline edited_lines adaptive (is_failed tree_result)
                (case clang_result of None \<Rightarrow> False | Some r \<Rightarrow> is_failed r)
                (parsed_snapshot pc path after_text tree_result clang_result) s
      in relax_failures pc path edited_lines s)"

definition validate ::
    "post_edit_checker \<Rightarrow> rstr \<Rightarrow> rstr \<Rightarrow> check_baseline \<Rightarrow> nat set option \<Rightarrow> certainty_filter_state
      \<Rightarrow> post_edit_check_result" where
  "validate pc path after_text baseline edited_lines adaptive =
     (let s = compared pc path after_text baseline edited_lines adaptive in
      \<lparr>pk_accepted = (dt_failure_kinds s = {}
         \<and> \<not> list_ex (\<lambda>m. contains m ''usage-role consistency'' \<or> contains m ''touch contract'') (dt_messages s)),
       pk_messages = dt_messages s, pk_failure_kinds = dt_failure_kinds s, pk_culprit_lines = dt_culprit_lines s\<rparr>)"

definition validate_structural_only ::
    "post_edit_checker \<Rightarrow> rstr \<Rightarrow> rstr \<Rightarrow> check_baseline \<Rightarrow> post_edit_check_result" where
  "validate_structural_only pc path after_text baseline =
     (let s = check_tree pc baseline (pc_parse_tree pc after_text path)
                (initial_delta baseline)\<lparr>dt_failure_kinds := {}\<rparr> in
      \<lparr>pk_accepted = (dt_failure_kinds s = {}), pk_messages = dt_messages s,
       pk_failure_kinds = dt_failure_kinds s, pk_culprit_lines = dt_culprit_lines s\<rparr>)"

definition validate_for_edits ::
    "post_edit_checker \<Rightarrow> rstr \<Rightarrow> rstr \<Rightarrow> rstr \<Rightarrow> nat set option \<Rightarrow> certainty_filter_state \<Rightarrow> post_edit_check_result" where
  "validate_for_edits pc path before_text after_text edited_lines adaptive =
     (if before_text = after_text
      then \<lparr>pk_accepted = True, pk_messages = [], pk_failure_kinds = {}, pk_culprit_lines = {}\<rparr>
      else validate pc path after_text (build_baseline pc path before_text) edited_lines adaptive)"

section \<open>Facts\<close>

lemma report_simps [simp]:
  "dt_failure_kinds (report kinds messages lines s) = dt_failure_kinds s \<union> kinds"
  "dt_messages (report kinds messages lines s) = dt_messages s @ messages"
  "dt_culprit_lines (report kinds messages lines s) = dt_culprit_lines s \<union> lines"
  "dt_clang_delta_lines (report kinds messages lines s) = dt_clang_delta_lines s"
  by (simp_all add: report_def)

lemma ok_part_simps [simp]: "ok_part (Inl e) = None" "ok_part (Inr x) = Some x"
  "is_failed (Inl e)" "\<not> is_failed (Inr x)"
  by (simp_all add: ok_part_def is_failed_def)

definition parses :: "post_edit_checker \<Rightarrow> rstr \<Rightarrow> rstr \<Rightarrow> bool" where
  "parses pc path text \<longleftrightarrow> \<not> is_failed (pc_parse_tree pc text path) \<and> \<not> is_failed (pc_parse_clang pc text path)"

text \<open>
  The check has no false alarm on its own baseline: a text that both parsers accept,
  checked against the baseline of the same text, gives no failure kind and no culprit line,
  whatever the edited lines and the state of the filter.
\<close>

theorem same_text_no_failure:
  assumes "parses pc path text" "0 \<le> pc_tree_error_ratio_tolerance pc"
  shows "pk_failure_kinds (validate pc path text (build_baseline pc path text) edited_lines adaptive) = {}
     \<and> pk_culprit_lines (validate pc path text (build_baseline pc path text) edited_lines adaptive) = {}"
proof -
  obtain tree where tree: "pc_parse_tree pc text path = Inr tree"
    using assms(1) by (cases "pc_parse_tree pc text path") (auto simp: parses_def)
  obtain parse where parse: "pc_parse_clang pc text path = Inr parse"
    using assms(1) by (cases "pc_parse_clang pc text path") (auto simp: parses_def)
  define b where "b = build_baseline pc path text"
  define snap where "snap = parsed_snapshot pc path text (Inr tree) (clang_result_for pc path text)"
  have snap: "snap = contract_snapshot_of (pc_hasher pc) (pc_grammar pc)
      (from_parses (pc_hasher pc) (pc_grammar pc) text path (Some tree)
         (case clang_result_for pc path text of None \<Rightarrow> None | Some r \<Rightarrow> ok_part r))"
    by (simp add: snap_def parsed_snapshot_def)
  have b: "bl_tree_error b = Some (has_error tree)" "bl_tree_error_ratio b = Some (error_ratio (tree_error_stats tree))"
    "bl_semantic_snapshot b = Some snap" "\<not> bl_tree_unavailable b" "\<not> bl_clang_unavailable b"
    "bl_semantic_ready b = ra_ready (evaluate_readiness_with_snapshot False False (Some snap))"
    "clang_result_for pc path text \<noteq> None \<Longrightarrow> bl_clang_summary b = Some (cp_diagnostic_counts parse)"
    by (simp_all add: b_def build_baseline_def Let_def tree baseline_tree_def baseline_clang_def snap_def
        clang_result_for_def parse empty_baseline_def split: if_splits)
  have ratio: "0 \<le> error_ratio st \<and> error_ratio st \<le> 1" for st by (simp add: error_ratio_def)
  have "check_tree pc b (Inr tree) (initial_delta b) = initial_delta b"
    using ratio [of "tree_error_stats tree"] assms(2) by (simp add: check_tree_def b Let_def clamp_def)
  moreover have "\<exists>s. check_clang pc path b edited_lines adaptive (clang_result_for pc path text) (initial_delta b) = s
      \<and> dt_failure_kinds s = {} \<and> dt_culprit_lines s = {}"
    using b by (simp add: check_clang_def clang_result_for_def parse check_clang_parse_def Let_def initial_delta_def)
  ultimately obtain s where s: "check_clang pc path b edited_lines adaptive (clang_result_for pc path text)
      (check_tree pc b (Inr tree) (initial_delta b)) = s" "dt_failure_kinds s = {}" "dt_culprit_lines s = {}"
    by auto
  have tr: "transition_kinds (evaluate_transition (pc_grammar pc) snap snap rt st it edited_lines adaptive) = {}"
    "ta_culprit_lines (evaluate_transition (pc_grammar pc) snap snap rt st it edited_lines adaptive) = {}" for rt st it
    using stable_transition [of "pc_hasher pc" "pc_grammar pc"]
    by (simp_all add: snap Let_def transition_kinds_def)
  have failed: "(case clang_result_for pc path text of None \<Rightarrow> False | Some r \<Rightarrow> is_failed r) = False"
    by (simp add: clang_result_for_def parse)
  have "dt_failure_kinds (check_semantics pc path b edited_lines adaptive False False snap s) = {}
      \<and> dt_culprit_lines (check_semantics pc path b edited_lines adaptive False False snap s) = {}"
    using s b tr by (auto simp: check_semantics_def Let_def case_prod_unfold split: option.splits)
  then have "dt_failure_kinds (compared pc path text b edited_lines adaptive) = {}
      \<and> dt_culprit_lines (compared pc path text b edited_lines adaptive) = {}"
    by (simp add: compared_def Let_def tree s(1) failed snap_def [symmetric] relax_failures_def relax_consensus_failure_def)
  then show ?thesis by (simp add: validate_def Let_def b_def)
qed

text \<open>Every check only adds failure kinds.\<close>

lemma kinds_tree: "dt_failure_kinds s \<subseteq> dt_failure_kinds (check_tree pc b r s)"
  by (auto simp: check_tree_def Let_def split: sum.splits option.splits)

lemma kinds_clang: "dt_failure_kinds s \<subseteq> dt_failure_kinds (check_clang pc path b edited adaptive r s)"
  by (auto simp: check_clang_def check_clang_parse_def Let_def split: sum.splits option.splits)

lemma kinds_semantics: "dt_failure_kinds s \<subseteq> dt_failure_kinds (check_semantics pc path b edited adaptive u v snap s)"
  by (auto simp: check_semantics_def Let_def case_prod_unfold split: option.splits)

lemma kinds_compared:
  fixes new_text b
  assumes "pc_has_exact_compdb pc path"
  defines "t \<equiv> check_tree pc b (pc_parse_tree pc new_text path) (initial_delta b)"
  shows "dt_failure_kinds t \<subseteq> dt_failure_kinds (compared pc path new_text b edited adaptive)"
    "dt_failure_kinds (check_clang pc path b edited adaptive (Some (pc_parse_clang pc new_text path)) t)
       \<subseteq> dt_failure_kinds (compared pc path new_text b edited adaptive)"
proof -
  let ?u = "check_clang pc path b edited adaptive (Some (pc_parse_clang pc new_text path)) t"
  have "clang_result_for pc path new_text = Some (pc_parse_clang pc new_text path)"
    using assms(1) by (simp add: clang_result_for_def skip_clang_validation_def)
  then have "compared pc path new_text b edited adaptive
      = check_semantics pc path b edited adaptive (is_failed (pc_parse_tree pc new_text path)) (is_failed (pc_parse_clang pc new_text path))
          (parsed_snapshot pc path new_text (pc_parse_tree pc new_text path) (Some (pc_parse_clang pc new_text path))) ?u"
    using assms(1) by (simp add: compared_def Let_def relax_failures_def relax_consensus_failure_def t_def)
  then show u: "dt_failure_kinds ?u \<subseteq> dt_failure_kinds (compared pc path new_text b edited adaptive)"
    using kinds_semantics by simp
  have "dt_failure_kinds t \<subseteq> dt_failure_kinds ?u" by (rule kinds_clang)
  with u show "dt_failure_kinds t \<subseteq> dt_failure_kinds (compared pc path new_text b edited adaptive)" by blast
qed

definition syntax_clean :: "post_edit_checker \<Rightarrow> rstr \<Rightarrow> rstr \<Rightarrow> bool" where
  "syntax_clean pc path text \<longleftrightarrow>
     (case pc_parse_tree pc text path of Inl _ \<Rightarrow> False | Inr tree \<Rightarrow> \<not> has_error tree)"

definition clang_errors :: "post_edit_checker \<Rightarrow> rstr \<Rightarrow> rstr \<Rightarrow> nat" where
  "clang_errors pc path text =
     (case pc_parse_clang pc text path of Inl _ \<Rightarrow> 0 | Inr parse \<Rightarrow> diagnostic_error_total (cp_diagnostic_counts parse))"

text \<open>
  \<^bold>\<open>C16\<close>.  What an accepted check guarantees, for a file with an exact entry in the compilation
  database and a checker that insists on its parsers: both parsers accept the new text, it has no
  syntax error if the old text had none, and not more compiler errors than the old text.
\<close>

theorem accepted_means_clean:
  assumes "pk_accepted (validate pc path after_text (build_baseline pc path before_text) edited_lines adaptive)"
    and "pc_has_exact_compdb pc path" "pc_fail_on_parser_unavailable pc" "parses pc path before_text"
  shows "parses pc path after_text
     \<and> (syntax_clean pc path before_text \<longrightarrow> syntax_clean pc path after_text)
     \<and> clang_errors pc path after_text \<le> clang_errors pc path before_text"
proof -
  define b where "b = build_baseline pc path before_text"
  obtain tree0 where tree0: "pc_parse_tree pc before_text path = Inr tree0"
    using assms(4) by (cases "pc_parse_tree pc before_text path") (auto simp: parses_def)
  obtain parse0 where parse0: "pc_parse_clang pc before_text path = Inr parse0"
    using assms(4) by (cases "pc_parse_clang pc before_text path") (auto simp: parses_def)
  have b: "bl_tree_error b = Some (has_error tree0)" "bl_clang_summary b = Some (cp_diagnostic_counts parse0)"
    by (simp_all add: b_def build_baseline_def Let_def tree0 baseline_tree_def baseline_clang_def parse0
        clang_result_for_def skip_clang_validation_def assms(2))
  have none: "dt_failure_kinds (compared pc path after_text b edited_lines adaptive) = {}"
    using assms(1) by (simp add: validate_def Let_def b_def)
  let ?t = "check_tree pc b (pc_parse_tree pc after_text path) (initial_delta b)"
  have t: "dt_failure_kinds ?t = {}"
    and u: "dt_failure_kinds (check_clang pc path b edited_lines adaptive (Some (pc_parse_clang pc after_text path)) ?t) = {}"
    using kinds_compared [OF assms(2), where b = b and new_text = after_text and edited = edited_lines and adaptive = adaptive] none by auto
  obtain tree where tree: "pc_parse_tree pc after_text path = Inr tree"
    using t assms(3) by (cases "pc_parse_tree pc after_text path") (auto simp: check_tree_def)
  obtain parse where parse: "pc_parse_clang pc after_text path = Inr parse"
    using u assms(3) by (cases "pc_parse_clang pc after_text path") (auto simp: check_clang_def)
  have "\<not> has_error tree0 \<longrightarrow> \<not> has_error tree"
    using t by (auto simp: check_tree_def tree b Let_def split: option.splits if_splits)
  moreover have "diagnostic_error_total (cp_diagnostic_counts parse) \<le> diagnostic_error_total (cp_diagnostic_counts parse0)"
    using u assms(2) by (auto simp: check_clang_def parse check_clang_parse_def b Let_def tolerate_nonlocal_delta_def
        split: option.splits if_splits)
  ultimately show ?thesis
    by (simp add: parses_def tree parse syntax_clean_def clang_errors_def tree0 parse0)
qed

section \<open>A parser that is not there\<close>

lemma declares_nothing:
  "cn_issues (contract_snapshot_of fx g (from_parses fx g text path tree None)) = no_issues"
proof -
  have "fcx_declarations (from_parses fx g text path tree None) = []"
    "fcx_references (from_parses fx g text path tree None) = []"
    by (cases tree; simp add: from_parses_def empty_context_def Let_def)+
  then show ?thesis by (simp add: contract_snapshot_parts)
qed

text \<open>
  A checker that tolerates missing parsers blames them on the edit: without libclang the
  baseline counts as semantically ready, because only a parser that is insisted on is recorded as
  unavailable, while the check afterwards records the same failure always.  Every edited file is
  then reported as a regression of semantic readiness.
\<close>

theorem missing_parser_blamed_on_edit:
  assumes "\<not> pc_fail_on_parser_unavailable pc" "\<not> skip_clang_validation pc path"
    and "is_failed (pc_parse_clang pc before_text path)" "is_failed (pc_parse_clang pc after_text path)"
  shows "bl_semantic_ready (build_baseline pc path before_text)
     \<and> SemanticReadinessRegressed
         \<in> pk_failure_kinds (validate pc path after_text (build_baseline pc path before_text) edited_lines adaptive)"
proof -
  define b where "b = build_baseline pc path before_text"
  obtain e0 where e0: "pc_parse_clang pc before_text path = Inl e0"
    using assms(3) by (cases "pc_parse_clang pc before_text path") auto
  obtain e1 where e1: "pc_parse_clang pc after_text path = Inl e1"
    using assms(4) by (cases "pc_parse_clang pc after_text path") auto
  have snap: "cn_issues (parsed_snapshot pc path t r (Some (Inl e))) = no_issues" for t r e
    by (simp add: parsed_snapshot_def declares_nothing)
  have ready: "ra_ready (evaluate_readiness_with_snapshot u v (Some (parsed_snapshot pc path t r (Some (Inl e)))))
      \<longleftrightarrow> \<not> u \<and> \<not> v" for u v t r e
    by (simp add: evaluate_readiness_with_snapshot_def evaluate_readiness_def evaluate_context_def Let_def snap no_issues_def)
  have b: "bl_semantic_ready b"
    using assms(1,2) by (simp add: b_def build_baseline_def Let_def clang_result_for_def e0 ready baseline_tree_def
        baseline_clang_def empty_baseline_def split: sum.splits)
  let ?snap = "parsed_snapshot pc path after_text (pc_parse_tree pc after_text path) (Some (Inl e1))"
  have "SemanticReadinessRegressed \<in> dt_failure_kinds (check_semantics pc path b edited_lines adaptive u True ?snap s)" for u s
    using b by (simp add: check_semantics_def Let_def ready)
  moreover have "dt_failure_kinds s - {ClangDiagnosticsIncreased} \<subseteq> dt_failure_kinds (relax_failures pc path edited_lines s)" for s
    by (auto simp: relax_failures_def)
  ultimately have "SemanticReadinessRegressed \<in> dt_failure_kinds (compared pc path after_text b edited_lines adaptive)"
    using assms(2) by (fastforce simp: compared_def Let_def clang_result_for_def e1)
  then show ?thesis using b by (simp add: validate_def Let_def b_def)
qed

section \<open>Examples\<close>

definition sample_leaf :: ts_node where
  "sample_leaf = TsNode 7 0 0 0 0 False False True None []"

definition sample_parse :: clang_parse_result where
  "sample_parse = \<lparr>cp_success = True, cp_diagnostics = [], cp_symbols = [], cp_diagnostic_counts = [0, 0, 0, 0, 0],
     cp_diagnostic_entries = [], cp_rename_offsets = Map.empty, cp_reference_offsets = []\<rparr>"

definition sample_checker :: "bool \<Rightarrow> (rstr + clang_parse_result) \<Rightarrow> post_edit_checker" where
  "sample_checker fail parse = post_edit_checker_new sample_hasher sample_grammar (\<lambda>_ _. Inr sample_leaf) (\<lambda>_ _. parse)
     (\<lambda>_. Exact) (\<lambda>_. True) fail 0"

lemma sample_checker_simps [simp]:
  "pc_parse_tree (sample_checker fail parse) text path = Inr sample_leaf"
  "pc_parse_clang (sample_checker fail parse) text path = parse"
  "pc_fail_on_parser_unavailable (sample_checker fail parse) = fail" "pc_has_exact_compdb (sample_checker fail parse) path"
  "pc_context_kind (sample_checker fail parse) path = Exact" "pc_tree_error_ratio_tolerance (sample_checker fail parse) = 0"
  "\<not> skip_clang_validation (sample_checker fail parse) path" "parses (sample_checker fail (Inr p)) path text"
  "pc_hasher (sample_checker fail parse) = sample_hasher" "pc_grammar (sample_checker fail parse) = sample_grammar"
  by (simp_all add: sample_checker_def post_edit_checker_new_def clamp_def skip_clang_validation_def parses_def)

theorem same_text_no_failure_witness:
  "pk_failure_kinds (validate (sample_checker True (Inr sample_parse)) [] sample_text
     (build_baseline (sample_checker True (Inr sample_parse)) [] sample_text) (Some {1}) certainty_default) = {}"
  using same_text_no_failure [of "sample_checker True (Inr sample_parse)" "[]" sample_text "Some {1}" certainty_default]
  by simp

theorem missing_parser_blamed_on_edit_witness:
  "SemanticReadinessRegressed \<in> pk_failure_kinds (validate (sample_checker False (Inl ''no libclang'')) [] sample_text
     (build_baseline (sample_checker False (Inl ''no libclang'')) [] ''int x;'') (Some {1}) certainty_default)"
  using missing_parser_blamed_on_edit [of "sample_checker False (Inl ''no libclang'')" "[]" "''int x;''" sample_text
      "Some {1}" certainty_default]
  by simp

lemma sample_quiet:
  "cx_warnings (evaluate_context (contract_snapshot_of sample_hasher sample_grammar
     (from_parses sample_hasher sample_grammar text path tree (Some sample_parse)))) = []"
  "cn_issues (contract_snapshot_of sample_hasher sample_grammar
     (from_parses sample_hasher sample_grammar text path tree (Some sample_parse))) = no_issues"
proof -
  let ?c = "from_parses sample_hasher sample_grammar text path tree (Some sample_parse)"
  have c: "fcx_references ?c = []" "fcx_declarations ?c = []"
    by (cases tree; simp add: from_parses_def build_scopes_and_regions_def empty_context_def Let_def sample_parse_def
        index_declarations_def index_references_def)+
  then show "cn_issues (contract_snapshot_of sample_hasher sample_grammar ?c) = no_issues"
    by (simp add: contract_snapshot_parts)
  from c show "cx_warnings (evaluate_context (contract_snapshot_of sample_hasher sample_grammar ?c)) = []"
    by (simp add: evaluate_context_def Let_def contract_snapshot_of_def case_prod_unfold summary_def)
qed

lemma sample_ready:
  "ra_ready (evaluate_readiness_with_snapshot False False (Some (contract_snapshot_of sample_hasher sample_grammar
     (from_parses sample_hasher sample_grammar text path tree (Some sample_parse)))))"
  by (simp add: evaluate_readiness_with_snapshot_def evaluate_readiness_def evaluate_context_def Let_def sample_quiet no_issues_def)

lemma sample_accepted:
  "pk_accepted (validate (sample_checker True (Inr sample_parse)) [] sample_text
     (build_baseline (sample_checker True (Inr sample_parse)) [] sample_text) None certainty_default)"
proof -
  let ?pc = "sample_checker True (Inr sample_parse)"
  have "\<not> has_error sample_leaf" by (simp add: has_error_def sample_leaf_def)
  moreover have "error_ratio (tree_error_stats sample_leaf) \<le> 1" "0 \<le> error_ratio (tree_error_stats sample_leaf)"
    by (simp_all add: error_ratio_def)
  moreover have "evaluate_macro_region_safety s s None transition_default = transition_default" for s
    by (simp add: evaluate_macro_region_safety_def)
  ultimately show ?thesis
    by (simp add: validate_def compared_def build_baseline_def Let_def clang_result_for_def baseline_tree_def
        baseline_clang_def empty_baseline_def check_tree_def clamp_def check_clang_def check_clang_parse_def
        check_semantics_def parsed_snapshot_def sample_quiet sample_ready initial_delta_def stable_transition_eq transition_tolerances_def
        transition_kinds_def transition_default_def relax_failures_def relax_consensus_failure_def)
qed

theorem accepted_means_clean_witness:
  "parses (sample_checker True (Inr sample_parse)) [] sample_text
   \<and> clang_errors (sample_checker True (Inr sample_parse)) [] sample_text
       \<le> clang_errors (sample_checker True (Inr sample_parse)) [] sample_text"
  using accepted_means_clean [OF sample_accepted] by simp

end
