(* ===== verification/Mat5.thy ===== *)
theory Mat5
  imports Conflict_Model
begin

text \<open>
  The five by five matrices of the certainty filter (engine/mat5.rs): the element-wise operations
  in their scalar and in their SIMD form, the product, the Cholesky decomposition, the inverse of a
  symmetric positive definite matrix built on it, and \<open>enforce_spd\<close>.  Numbers are reals,
  so a fused multiply-add is a multiplication and an addition; a matrix is a list of five rows.
\<close>

section \<open>Rows and matrices\<close>

definition mat_of :: "(nat \<Rightarrow> nat \<Rightarrow> real) \<Rightarrow> real list list" where
  "mat_of f = map (\<lambda>i. map (f i) [0..<5]) [0..<5]"

definition is_mat :: "real list list \<Rightarrow> bool" where
  "is_mat m \<longleftrightarrow> length m = 5 \<and> list_all (\<lambda>row. length row = 5) m"

definition set_cell :: "real list list \<Rightarrow> nat \<Rightarrow> nat \<Rightarrow> real \<Rightarrow> real list list" where
  "set_cell m i j x = m[i := (m ! i)[j := x]]"

definition mat5_zeros :: "real list list" where
  "mat5_zeros = replicate 5 (replicate 5 0)"

section \<open>Scalar operations\<close>

definition vec5_sub :: "real list \<Rightarrow> real list \<Rightarrow> real list" where
  "vec5_sub a b = [a ! 0 - b ! 0, a ! 1 - b ! 1, a ! 2 - b ! 2, a ! 3 - b ! 3, a ! 4 - b ! 4]"

definition vec5_add_clamp :: "real list \<Rightarrow> real list \<Rightarrow> real list" where
  "vec5_add_clamp a b =
     [clamp (a ! 0 + b ! 0) 0 1, clamp (a ! 1 + b ! 1) 0 1, clamp (a ! 2 + b ! 2) 0 1,
      clamp (a ! 3 + b ! 3) 0 1, clamp (a ! 4 + b ! 4) 0 1]"

definition dot5 :: "real list \<Rightarrow> real list \<Rightarrow> real" where
  "dot5 a b = a ! 0 * b ! 0 + a ! 1 * b ! 1 + a ! 2 * b ! 2 + a ! 3 * b ! 3 + a ! 4 * b ! 4"

definition mat5_identity :: "real list list" where
  "mat5_identity = mat_of (\<lambda>i j. if i = j then 1 else 0)"

definition mat5_diagonal :: "real list \<Rightarrow> real list list" where
  "mat5_diagonal diag = mat_of (\<lambda>i j. if i = j then diag ! i else 0)"

definition mat5_add :: "real list list \<Rightarrow> real list list \<Rightarrow> real list list" where
  "mat5_add a b = mat_of (\<lambda>i j. a ! i ! j + b ! i ! j)"

definition mat5_sub :: "real list list \<Rightarrow> real list list \<Rightarrow> real list list" where
  "mat5_sub a b = mat_of (\<lambda>i j. a ! i ! j - b ! i ! j)"

definition mat5_transpose :: "real list list \<Rightarrow> real list list" where
  "mat5_transpose a = mat_of (\<lambda>i j. a ! j ! i)"

definition mat5_mul :: "real list list \<Rightarrow> real list list \<Rightarrow> real list list" where
  "mat5_mul a b = (let bt = mat5_transpose b in mat_of (\<lambda>i j. dot5 (a ! i) (bt ! j)))"

definition mat5_matvec :: "real list list \<Rightarrow> real list \<Rightarrow> real list" where
  "mat5_matvec a v = [dot5 (a ! 0) v, dot5 (a ! 1) v, dot5 (a ! 2) v, dot5 (a ! 3) v, dot5 (a ! 4) v]"

definition mat5_outer :: "real list \<Rightarrow> real list list" where
  "mat5_outer v = mat_of (\<lambda>i j. v ! min i j * v ! max i j)"

definition mat5_lerp :: "real list list \<Rightarrow> real list list \<Rightarrow> real \<Rightarrow> real list list" where
  "mat5_lerp a b t = mat_of (\<lambda>i j. a ! i ! j + t * (b ! i ! j - a ! i ! j))"

definition mat5_neg_add_identity :: "real list list \<Rightarrow> real list list" where
  "mat5_neg_add_identity m = mat_of (\<lambda>i j. if i = j then - m ! i ! j + 1 else - m ! i ! j)"

definition mat5_add_sub :: "real list list \<Rightarrow> real list list \<Rightarrow> real list list \<Rightarrow> real list list" where
  "mat5_add_sub a b c = mat_of (\<lambda>i j. a ! i ! j + b ! i ! j - c ! i ! j)"

definition mat5_diag :: "real list list \<Rightarrow> real list" where
  "mat5_diag m = [m ! 0 ! 0, m ! 1 ! 1, m ! 2 ! 2, m ! 3 ! 3, m ! 4 ! 4]"

section \<open>SIMD operations\<close>

text \<open>
  The NEON and the SSE2 versions do the same on two lanes of 64 bits: two loads per row for the first
  four elements, the fifth by itself.
\<close>

definition loadu :: "real list \<Rightarrow> nat \<Rightarrow> real \<times> real" where
  "loadu a i = (a ! i, a ! Suc i)"

definition storeu :: "real list \<Rightarrow> nat \<Rightarrow> real \<times> real \<Rightarrow> real list" where
  "storeu r i v = r[i := fst v, Suc i := snd v]"

definition lanes :: "(real \<Rightarrow> real \<Rightarrow> real) \<Rightarrow> real \<times> real \<Rightarrow> real \<times> real \<Rightarrow> real \<times> real" where
  "lanes f a b = (f (fst a) (fst b), f (snd a) (snd b))"

definition dup :: "real \<Rightarrow> real \<times> real" where "dup x = (x, x)"

definition simd_row :: "(nat \<Rightarrow> real \<times> real) \<Rightarrow> real \<Rightarrow> real list" where
  "simd_row pair last_one = (storeu (storeu (replicate 5 0) 0 (pair 0)) 2 (pair 2))[4 := last_one]"

definition vec5_sub_simd :: "real list \<Rightarrow> real list \<Rightarrow> real list" where
  "vec5_sub_simd a b = simd_row (\<lambda>j. lanes (-) (loadu a j) (loadu b j)) (a ! 4 - b ! 4)"

definition vec5_add_clamp_simd :: "real list \<Rightarrow> real list \<Rightarrow> real list" where
  "vec5_add_clamp_simd a b =
     simd_row (\<lambda>j. lanes min (lanes max (lanes (+) (loadu a j) (loadu b j)) (dup 0)) (dup 1))
       (clamp (a ! 4 + b ! 4) 0 1)"

definition dot5_simd :: "real list \<Rightarrow> real list \<Rightarrow> real" where
  "dot5_simd a b =
     (let acc = lanes (+) (lanes (*) (loadu a 0) (loadu b 0)) (lanes (*) (loadu a 2) (loadu b 2))
      in fst acc + snd acc + a ! 4 * b ! 4)"

definition mat5_add_simd :: "real list list \<Rightarrow> real list list \<Rightarrow> real list list" where
  "mat5_add_simd a b =
     map (\<lambda>i. simd_row (\<lambda>j. lanes (+) (loadu (a ! i) j) (loadu (b ! i) j)) (a ! i ! 4 + b ! i ! 4)) [0..<5]"

definition mat5_sub_simd :: "real list list \<Rightarrow> real list list \<Rightarrow> real list list" where
  "mat5_sub_simd a b =
     map (\<lambda>i. simd_row (\<lambda>j. lanes (-) (loadu (a ! i) j) (loadu (b ! i) j)) (a ! i ! 4 - b ! i ! 4)) [0..<5]"

definition mat5_mul_simd :: "real list list \<Rightarrow> real list list \<Rightarrow> real list list" where
  "mat5_mul_simd a b =
     map (\<lambda>i. simd_row
         (\<lambda>j. fold (\<lambda>k acc. lanes (+) acc (lanes (*) (dup (a ! i ! k)) (loadu (b ! k) j))) [0..<5] (dup 0))
         (a ! i ! 0 * b ! 0 ! 4 + a ! i ! 1 * b ! 1 ! 4 + a ! i ! 2 * b ! 2 ! 4 + a ! i ! 3 * b ! 3 ! 4
           + a ! i ! 4 * b ! 4 ! 4)) [0..<5]"

definition mat5_outer_simd :: "real list \<Rightarrow> real list list" where
  "mat5_outer_simd v =
     map (\<lambda>i. simd_row (\<lambda>j. lanes (*) (dup (v ! i)) (loadu v j)) (v ! i * v ! 4)) [0..<5]"

definition mat5_lerp_simd :: "real list list \<Rightarrow> real list list \<Rightarrow> real \<Rightarrow> real list list" where
  "mat5_lerp_simd a b t =
     map (\<lambda>i. simd_row
         (\<lambda>j. lanes (+) (loadu (a ! i) j) (lanes (*) (lanes (-) (loadu (b ! i) j) (loadu (a ! i) j)) (dup t)))
         (a ! i ! 4 + t * (b ! i ! 4 - a ! i ! 4))) [0..<5]"

definition mat5_neg_add_identity_simd :: "real list list \<Rightarrow> real list list" where
  "mat5_neg_add_identity_simd m =
     map (\<lambda>i. let r = simd_row (\<lambda>j. lanes (-) (dup 0) (loadu (m ! i) j)) (- m ! i ! 4) in r[i := r ! i + 1]) [0..<5]"

definition mat5_add_sub_simd :: "real list list \<Rightarrow> real list list \<Rightarrow> real list list \<Rightarrow> real list list" where
  "mat5_add_sub_simd a b c =
     map (\<lambda>i. simd_row (\<lambda>j. lanes (-) (lanes (+) (loadu (a ! i) j) (loadu (b ! i) j)) (loadu (c ! i) j))
         (a ! i ! 4 + b ! i ! 4 - c ! i ! 4)) [0..<5]"

section \<open>Cholesky decomposition and inverse\<close>

definition cholesky_cell :: "real list list \<Rightarrow> nat \<Rightarrow> nat \<Rightarrow> real list list \<Rightarrow> real list list option" where
  "cholesky_cell a i j l =
     (if j = i then
        let acc = (\<Sum>k\<leftarrow>[0..<j]. l ! j ! k * l ! j ! k); val = a ! j ! j - acc in
        if val \<le> 0 then None else Some (set_cell l j j (sqrt val))
      else
        let acc = (\<Sum>k\<leftarrow>[0..<j]. l ! i ! k * l ! j ! k) in
        if \<bar>l ! j ! j\<bar> < 1 / 10 ^ 15 then None else Some (set_cell l i j ((a ! i ! j - acc) / l ! j ! j)))"

fun fold_option :: "('a \<Rightarrow> 'b \<Rightarrow> 'b option) \<Rightarrow> 'a list \<Rightarrow> 'b \<Rightarrow> 'b option" where
  "fold_option f [] s = Some s"
| "fold_option f (x # xs) s = (case f x s of None \<Rightarrow> None | Some s \<Rightarrow> fold_option f xs s)"

definition cholesky_row :: "real list list \<Rightarrow> nat \<Rightarrow> real list list \<Rightarrow> real list list option" where
  "cholesky_row a i l = fold_option (cholesky_cell a i) [0..<Suc i] l"

definition mat5_cholesky :: "real list list \<Rightarrow> real list list option" where
  "mat5_cholesky a = fold_option (cholesky_row a) [0..<5] mat5_zeros"

definition inverse_cell :: "real list list \<Rightarrow> nat \<Rightarrow> real \<Rightarrow> nat \<Rightarrow> real list list \<Rightarrow> real list list" where
  "inverse_cell l i recip j l_inv =
     (let acc = (\<Sum>k\<leftarrow>[j..<i]. l ! i ! k * l_inv ! k ! j) in set_cell l_inv i j (- acc * recip))"

definition inverse_row :: "real list list \<Rightarrow> nat \<Rightarrow> real list list \<Rightarrow> real list list" where
  "inverse_row l i l_inv =
     (let recip = 1 / l ! i ! i in fold (inverse_cell l i recip) (rev [0..<i]) (set_cell l_inv i i recip))"

definition lower_inverse :: "real list list \<Rightarrow> real list list" where
  "lower_inverse l = fold (inverse_row l) [0..<5] mat5_zeros"

definition gram_of_inverse :: "real list list \<Rightarrow> real list list" where
  "gram_of_inverse l_inv =
     mat_of (\<lambda>i j. \<Sum>k\<leftarrow>[max i j..<5]. l_inv ! k ! min i j * l_inv ! k ! max i j)"

definition mat5_inverse_spd :: "real list list \<Rightarrow> real list list option" where
  "mat5_inverse_spd a =
     (case mat5_cholesky a of None \<Rightarrow> None | Some l \<Rightarrow> Some (gram_of_inverse (lower_inverse l)))"

definition mat5_symmetrize :: "real list list \<Rightarrow> real list list" where
  "mat5_symmetrize a =
     mat_of (\<lambda>i j. if i = j then a ! i ! j else 0.5 * (a ! min i j ! max i j + a ! max i j ! min i j))"

definition add_to_diagonal :: "real \<Rightarrow> real list list \<Rightarrow> real list list" where
  "add_to_diagonal reg m = fold (\<lambda>i m. set_cell m i i (m ! i ! i + reg)) [0..<5] m"

fun regularize :: "nat \<Rightarrow> real \<Rightarrow> real list list \<Rightarrow> real list list + real list list" where
  "regularize 0 reg m = Inl m"
| "regularize (Suc n) reg m =
     (let m = add_to_diagonal reg m in
      if mat5_cholesky m \<noteq> None then Inr m else regularize n (reg * 10) m)"

definition diagonal_norm :: "real list list \<Rightarrow> real" where
  "diagonal_norm m = max (fold (\<lambda>i mx. max mx \<bar>m ! i ! i\<bar>) [0..<5] 0) (1 / 10 ^ 15)"

definition enforce_spd :: "real list list \<Rightarrow> real list list" where
  "enforce_spd m =
     (if mat5_cholesky m \<noteq> None then m
      else
        let m = mat5_symmetrize m in
        if mat5_cholesky m \<noteq> None then m
        else
          let diag_norm = diagonal_norm m in
          case regularize 10 (diag_norm * (1 / 10 ^ 6)) m of
            Inr m \<Rightarrow> m
          | Inl m \<Rightarrow>
              let floor_value = diag_norm * (1 / 10 ^ 4); diag = mat5_diag m in
              mat5_diagonal [max (diag ! 0) floor_value, max (diag ! 1) floor_value, max (diag ! 2) floor_value,
                max (diag ! 3) floor_value, max (diag ! 4) floor_value])"

section \<open>Entries\<close>

lemma upt_5: "[0..<5] = [0, 1, 2, 3, 4::nat]" by (simp add: upt_rec)

lemma sum5: "(\<Sum>k<5. f k) = f 0 + f 1 + f 2 + f 3 + (f (4::nat) :: real)"
  by (simp add: eval_nat_numeral)

lemma entry_mat_of [simp]: "i < 5 \<Longrightarrow> j < 5 \<Longrightarrow> mat_of f ! i ! j = f i j"
  by (simp add: mat_of_def)

lemma is_mat_mat_of [simp]: "is_mat (mat_of f)"
  by (simp add: is_mat_def mat_of_def list_all_iff)

lemma is_mat_row: "is_mat m \<Longrightarrow> i < 5 \<Longrightarrow> length (m ! i) = 5"
  by (simp add: is_mat_def list_all_length)

lemma mat_eqI:
  assumes "is_mat m" "is_mat n" "\<And>i j. i < 5 \<Longrightarrow> j < 5 \<Longrightarrow> m ! i ! j = n ! i ! j"
  shows "m = n"
proof (rule nth_equalityI)
  show "length m = length n" using assms by (simp add: is_mat_def)
  fix i assume "i < length m"
  then have i: "i < 5" using assms(1) by (simp add: is_mat_def)
  show "m ! i = n ! i" by (rule nth_equalityI) (use assms i is_mat_row in auto)
qed

lemma is_mat_set_cell [simp]: "is_mat m \<Longrightarrow> is_mat (set_cell m i j x)"
  unfolding is_mat_def set_cell_def
  by (cases "i < length m") (auto simp: list_all_length nth_list_update list_update_beyond)

lemma entry_set_cell: "is_mat m \<Longrightarrow> i < 5 \<Longrightarrow> j < 5 \<Longrightarrow> p < 5 \<Longrightarrow> q < 5
    \<Longrightarrow> set_cell m i j x ! p ! q = (if p = i \<and> q = j then x else m ! p ! q)"
  using is_mat_row [of m i] by (auto simp: set_cell_def is_mat_def nth_list_update)

lemma dot5_sum: "dot5 a b = (\<Sum>k<5. a ! k * b ! k)"
  by (simp add: dot5_def sum5)

lemma entry_mul [simp]:
  "i < 5 \<Longrightarrow> j < 5 \<Longrightarrow> mat5_mul a b ! i ! j = (\<Sum>k<5. a ! i ! k * b ! k ! j)"
  by (simp add: mat5_mul_def dot5_sum mat5_transpose_def)

lemma entry_ops [simp]:
  assumes "i < 5" "j < 5"
  shows "mat5_add a b ! i ! j = a ! i ! j + b ! i ! j" "mat5_sub a b ! i ! j = a ! i ! j - b ! i ! j"
    "mat5_transpose a ! i ! j = a ! j ! i" "mat5_lerp a b t ! i ! j = a ! i ! j + t * (b ! i ! j - a ! i ! j)"
    "mat5_add_sub a b c ! i ! j = a ! i ! j + b ! i ! j - c ! i ! j"
    "mat5_identity ! i ! j = (if i = j then 1 else 0)"
    "mat5_diagonal d ! i ! j = (if i = j then d ! i else 0)"
    "mat5_neg_add_identity a ! i ! j = (if i = j then 1 else 0) - a ! i ! j"
    "mat5_outer v ! i ! j = v ! i * v ! j"
    "mat5_symmetrize a ! i ! j = (a ! i ! j + a ! j ! i) / 2"
  using assms by (auto simp: mat5_add_def mat5_sub_def mat5_transpose_def mat5_lerp_def mat5_add_sub_def
      mat5_identity_def mat5_diagonal_def mat5_neg_add_identity_def mat5_outer_def mat5_symmetrize_def min_def max_def)

lemma is_mat_ops [simp]:
  "is_mat (mat5_add a b)" "is_mat (mat5_sub a b)" "is_mat (mat5_transpose a)" "is_mat (mat5_lerp a b t)"
  "is_mat (mat5_add_sub a b c)" "is_mat mat5_identity" "is_mat (mat5_diagonal d)"
  "is_mat (mat5_neg_add_identity a)" "is_mat (mat5_outer v)" "is_mat (mat5_symmetrize a)" "is_mat (mat5_mul a b)"
  by (simp_all add: mat5_add_def mat5_sub_def mat5_transpose_def mat5_lerp_def mat5_add_sub_def
      mat5_identity_def mat5_diagonal_def mat5_neg_add_identity_def mat5_outer_def mat5_symmetrize_def mat5_mul_def Let_def)

lemma entry_matvec [simp]: "i < 5 \<Longrightarrow> mat5_matvec a v ! i = (\<Sum>k<5. a ! i ! k * v ! k)"
  by (auto simp: mat5_matvec_def dot5_sum less_Suc_eq eval_nat_numeral)

section \<open>The SIMD forms compute the scalar ones\<close>

lemma simd_row_eq: "simd_row pair x = [fst (pair 0), snd (pair 0), fst (pair 2), snd (pair 2), x]"
  by (simp add: simd_row_def storeu_def eval_nat_numeral)

text \<open>
  On x86-64 and on ARM the matrix operations of the filter compute what the portable ones
  compute, for every input (in exact arithmetic).
\<close>

theorem simd_matrices_agree:
  "vec5_sub_simd u v = vec5_sub u v \<and> vec5_add_clamp_simd u v = vec5_add_clamp u v \<and> dot5_simd u v = dot5 u v
   \<and> mat5_add_simd a b = mat5_add a b \<and> mat5_sub_simd a b = mat5_sub a b \<and> mat5_mul_simd a b = mat5_mul a b
   \<and> mat5_outer_simd u = mat5_outer u \<and> mat5_lerp_simd a b t = mat5_lerp a b t
   \<and> mat5_neg_add_identity_simd a = mat5_neg_add_identity a \<and> mat5_add_sub_simd a b c = mat5_add_sub a b c"
proof (intro conjI)
  note rows = simd_row_eq lanes_def loadu_def dup_def mat_of_def upt_5 eval_nat_numeral
  show "vec5_sub_simd u v = vec5_sub u v" by (simp add: vec5_sub_simd_def vec5_sub_def rows)
  show "vec5_add_clamp_simd u v = vec5_add_clamp u v"
    by (simp add: vec5_add_clamp_simd_def vec5_add_clamp_def rows clamp_def min_def max_def)
  show "dot5_simd u v = dot5 u v" by (simp add: dot5_simd_def dot5_def rows)
  show "mat5_add_simd a b = mat5_add a b" by (simp add: mat5_add_simd_def mat5_add_def rows)
  show "mat5_sub_simd a b = mat5_sub a b" by (simp add: mat5_sub_simd_def mat5_sub_def rows)
  show "mat5_mul_simd a b = mat5_mul a b"
    by (simp add: mat5_mul_simd_def mat5_mul_def mat5_transpose_def dot5_def rows)
  show "mat5_outer_simd u = mat5_outer u" by (simp add: mat5_outer_simd_def mat5_outer_def rows)
  show "mat5_lerp_simd a b t = mat5_lerp a b t" by (simp add: mat5_lerp_simd_def mat5_lerp_def rows algebra_simps)
  show "mat5_neg_add_identity_simd a = mat5_neg_add_identity a"
    by (simp add: mat5_neg_add_identity_simd_def mat5_neg_add_identity_def rows Let_def)
  show "mat5_add_sub_simd a b c = mat5_add_sub a b c" by (simp add: mat5_add_sub_simd_def mat5_add_sub_def rows)
qed

section \<open>The decomposition\<close>

definition symmetric :: "real list list \<Rightarrow> bool" where
  "symmetric m \<longleftrightarrow> (\<forall>i<5. \<forall>j<5. m ! i ! j = m ! j ! i)"

definition lower_done :: "nat \<Rightarrow> nat \<Rightarrow> nat \<Rightarrow> nat \<Rightarrow> bool" where
  "lower_done i j p q \<longleftrightarrow> q \<le> p \<and> (p < i \<or> p = i \<and> q < j)"

definition factored :: "real list list \<Rightarrow> real list list \<Rightarrow> nat \<Rightarrow> nat \<Rightarrow> bool" where
  "factored a l p q \<longleftrightarrow> (\<Sum>k<Suc q. l ! p ! k * l ! q ! k) = a ! p ! q \<and> (p = q \<longrightarrow> 0 < l ! p ! q)"

definition factor_inv :: "real list list \<Rightarrow> nat \<Rightarrow> nat \<Rightarrow> real list list \<Rightarrow> bool" where
  "factor_inv a i j l \<longleftrightarrow>
     is_mat l \<and> (\<forall>p<5. \<forall>q<5. if lower_done i j p q then factored a l p q else l ! p ! q = 0)"

lemma sum_upt: "(\<Sum>k\<leftarrow>[m..<n]. f k) = (\<Sum>k = m..<n. (f k :: real))"
  by (simp add: interv_sum_list_conv_sum_set_nat)

lemma fold_option_upt:
  assumes "fold_option f [m..<n] s = Some t" "m \<le> n" "P m s"
    and "\<And>k s s'. m \<le> k \<Longrightarrow> k < n \<Longrightarrow> P k s \<Longrightarrow> f k s = Some s' \<Longrightarrow> P (Suc k) s'"
  shows "P n t"
  using assms
proof (induction "n - m" arbitrary: m s)
  case 0
  then show ?case by simp
next
  case (Suc d)
  then have "m < n" by linarith
  then have "[m..<n] = m # [Suc m..<n]" by (simp add: upt_conv_Cons)
  with Suc.prems(1) obtain s' where s': "f m s = Some s'" "fold_option f [Suc m..<n] s' = Some t"
    by (auto split: option.splits)
  show ?case
    by (rule Suc.hyps(1) [OF _ s'(2)]) (use Suc \<open>m < n\<close> s'(1) in auto)
qed

lemma fold_option_total:
  assumes "m \<le> n" "P m s" "\<And>k s. m \<le> k \<Longrightarrow> k < n \<Longrightarrow> P k s \<Longrightarrow> \<exists>s'. f k s = Some s' \<and> P (Suc k) s'"
  shows "\<exists>t. fold_option f [m..<n] s = Some t \<and> P n t"
  using assms
proof (induction "n - m" arbitrary: m s)
  case 0
  then show ?case by simp
next
  case (Suc d)
  then have "m < n" by linarith
  then have upt: "[m..<n] = m # [Suc m..<n]" by (simp add: upt_conv_Cons)
  from Suc.prems(3) [of m s] \<open>m < n\<close> Suc.prems(2) obtain s' where s': "f m s = Some s'" "P (Suc m) s'" by auto
  have "\<exists>t. fold_option f [Suc m..<n] s' = Some t \<and> P n t"
    by (rule Suc.hyps(1)) (use Suc s' \<open>m < n\<close> in auto)
  then show ?case by (simp add: upt s'(1))
qed

lemma cholesky_cell_entry:
  assumes "cholesky_cell a i j l = Some l'"
  obtains x where "l' = set_cell l i j x"
    "x * (if i = j then x else l ! j ! j) = a ! i ! j - (\<Sum>k<j. l ! i ! k * l ! j ! k)" "i = j \<Longrightarrow> 0 < x"
proof (cases "i = j")
  case True
  with assms have "0 < a ! j ! j - (\<Sum>k<j. l ! j ! k * l ! j ! k)"
    "l' = set_cell l j j (sqrt (a ! j ! j - (\<Sum>k<j. l ! j ! k * l ! j ! k)))"
    by (auto simp: cholesky_cell_def Let_def sum_upt atLeast0LessThan split: if_splits)
  with True show thesis by (intro that) (auto simp: real_sqrt_mult [symmetric])
next
  case False
  with assms have "l ! j ! j \<noteq> 0"
    "l' = set_cell l i j ((a ! i ! j - (\<Sum>k<j. l ! i ! k * l ! j ! k)) / l ! j ! j)"
    by (auto simp: cholesky_cell_def Let_def sum_upt atLeast0LessThan split: if_splits)
  with False show thesis by (intro that) auto
qed

lemma factor_step:
  assumes inv: "factor_inv a i j l" and "j \<le> i" "i < 5" and cell: "cholesky_cell a i j l = Some l'"
  shows "factor_inv a i (Suc j) l'"
proof -
  obtain x where x: "l' = set_cell l i j x"
    "x * (if i = j then x else l ! j ! j) = a ! i ! j - (\<Sum>k<j. l ! i ! k * l ! j ! k)" "i = j \<Longrightarrow> 0 < x"
    using cholesky_cell_entry [OF cell] by blast
  have l: "is_mat l" using inv by (simp add: factor_inv_def)
  have e: "l' ! p ! q = (if p = i \<and> q = j then x else l ! p ! q)" if "p < 5" "q < 5" for p q
    unfolding x(1) by (rule entry_set_cell) (use l assms that in auto)
  have old: "factored a l' p q" if "p < 5" "lower_done i j p q" for p q
  proof -
    have pq: "q \<le> p" "q < 5" "p = i \<Longrightarrow> q < j" "q = i \<Longrightarrow> False"
      using that assms(2) by (auto simp: lower_done_def)
    have "factored a l p q" using inv that pq by (auto simp: factor_inv_def)
    moreover have "(\<Sum>k<Suc q. l' ! p ! k * l' ! q ! k) = (\<Sum>k<Suc q. l ! p ! k * l ! q ! k)"
      by (rule sum.cong) (use pq that e in auto)
    ultimately show ?thesis using pq that e by (auto simp: factored_def)
  qed
  have new: "factored a l' i j"
  proof -
    have "(\<Sum>k<Suc j. l' ! i ! k * l' ! j ! k) = (\<Sum>k<j. l ! i ! k * l ! j ! k) + x * l' ! j ! j"
      using assms(2,3) e by (auto intro!: sum.cong)
    then show ?thesis using x(2,3) e assms(2,3) by (auto simp: factored_def)
  qed
  show ?thesis
    unfolding factor_inv_def
  proof (intro conjI allI impI)
    show "is_mat l'" by (simp add: x(1) l)
    fix p q assume pq: "p < (5::nat)" "q < (5::nat)"
    show "if lower_done i (Suc j) p q then factored a l' p q else l' ! p ! q = 0"
    proof (cases "p = i \<and> q = j")
      case True
      with new assms(2) show ?thesis by (simp add: lower_done_def)
    next
      case False
      then have "lower_done i (Suc j) p q = lower_done i j p q" by (auto simp: lower_done_def)
      with False pq old inv e show ?thesis by (auto simp: factor_inv_def)
    qed
  qed
qed

lemma factor_row:
  assumes "factor_inv a i 0 l" "i < 5" "cholesky_row a i l = Some l'"
  shows "factor_inv a (Suc i) 0 l'"
proof -
  have "factor_inv a i (Suc i) l'"
    by (rule fold_option_upt [OF assms(3) [unfolded cholesky_row_def], where P = "factor_inv a i"])
       (use assms factor_step in auto)
  moreover have "lower_done i (Suc i) = lower_done (Suc i) 0" by (auto simp: lower_done_def fun_eq_iff)
  ultimately show ?thesis by (simp add: factor_inv_def)
qed

definition lower_factor :: "real list list \<Rightarrow> bool" where
  "lower_factor l \<longleftrightarrow> is_mat l \<and> (\<forall>i<5. 0 < l ! i ! i) \<and> (\<forall>i<5. \<forall>j<5. i < j \<longrightarrow> l ! i ! j = 0)"

lemma zero_mat [simp]: "is_mat mat5_zeros" "i < 5 \<Longrightarrow> j < 5 \<Longrightarrow> mat5_zeros ! i ! j = 0"
  by (simp_all add: is_mat_def list_all_iff mat5_zeros_def)

lemma cholesky_factor:
  assumes "mat5_cholesky a = Some l"
  shows "lower_factor l" "symmetric a \<Longrightarrow> i < 5 \<Longrightarrow> j < 5 \<Longrightarrow> (\<Sum>k<5. l ! i ! k * l ! j ! k) = a ! i ! j"
proof -
  have "factor_inv a 0 0 mat5_zeros" by (simp add: factor_inv_def lower_done_def)
  then have inv: "factor_inv a 5 0 l"
    by (rule fold_option_upt [OF assms [unfolded mat5_cholesky_def], where P = "\<lambda>i. factor_inv a i 0", rotated 1])
       (auto intro: factor_row)
  then have f: "q \<le> p \<Longrightarrow> p < 5 \<Longrightarrow> factored a l p q" and z: "p < q \<Longrightarrow> q < 5 \<Longrightarrow> l ! p ! q = 0" for p q
    by (auto simp: factor_inv_def lower_done_def)
  show "lower_factor l"
    unfolding lower_factor_def
  proof (intro conjI allI impI)
    show "is_mat l" using inv by (simp add: factor_inv_def)
    show "0 < l ! p ! p" if "p < 5" for p using f [of p p] that by (simp add: factored_def)
  qed (use z in blast)
  have low: "(\<Sum>k<5. l ! p ! k * l ! q ! k) = a ! p ! q" if "q \<le> p" "p < 5" for p q
  proof -
    have "(\<Sum>k<5. l ! p ! k * l ! q ! k) = (\<Sum>k<Suc q. l ! p ! k * l ! q ! k)"
      by (rule sum.mono_neutral_right) (use that z in auto)
    with f that show ?thesis by (simp add: factored_def)
  qed
  show "(\<Sum>k<5. l ! i ! k * l ! j ! k) = a ! i ! j" if "symmetric a" "i < 5" "j < 5"
  proof (cases "j \<le> i")
    case False
    then have "(\<Sum>k<5. l ! j ! k * l ! i ! k) = a ! j ! i" using low that by simp
    with that show ?thesis by (simp add: symmetric_def mult.commute)
  qed (use low that in simp)
qed

section \<open>The algebra of the operations\<close>

lemma mul_assoc: "mat5_mul (mat5_mul a b) c = mat5_mul a (mat5_mul b c)"
proof (rule mat_eqI; simp)
  fix i j :: nat assume "i < 5" "j < 5"
  have "(\<Sum>k<5. (\<Sum>p<5. a ! i ! p * b ! p ! k) * c ! k ! j) = (\<Sum>k<5. \<Sum>p<5. a ! i ! p * b ! p ! k * c ! k ! j)"
    by (simp only: sum_distrib_right)
  also have "\<dots> = (\<Sum>p<5. \<Sum>k<5. a ! i ! p * b ! p ! k * c ! k ! j)" by (rule sum.swap)
  also have "\<dots> = (\<Sum>p<5. a ! i ! p * (\<Sum>k<5. b ! p ! k * c ! k ! j))"
    by (simp only: sum_distrib_left mult.assoc)
  finally show "(\<Sum>k<5. (\<Sum>p<5. a ! i ! p * b ! p ! k) * c ! k ! j) = (\<Sum>p<5. a ! i ! p * (\<Sum>k<5. b ! p ! k * c ! k ! j))" .
qed

lemma delta_sums: "i < 5 \<Longrightarrow> (\<Sum>k<5. (if i = k then 1 else 0) * f k) = (f i :: real)"
    "i < (5::nat) \<Longrightarrow> (\<Sum>k<5. f k * (if k = i then 1 else 0)) = (f i :: real)"
  by (simp_all add: if_distrib [of "\<lambda>z. z * _"] if_distrib [of "times _"] cong: if_cong)

lemma mul_identity [simp]: "is_mat a \<Longrightarrow> mat5_mul a mat5_identity = a" "is_mat a \<Longrightarrow> mat5_mul mat5_identity a = a"
  by (rule mat_eqI; simp add: delta_sums)+

lemma transpose_mul: "mat5_transpose (mat5_mul a b) = mat5_mul (mat5_transpose b) (mat5_transpose a)"
  by (rule mat_eqI) (simp_all add: mult.commute)

lemma transpose_transpose [simp]: "is_mat a \<Longrightarrow> mat5_transpose (mat5_transpose a) = a"
  by (rule mat_eqI) simp_all

lemma transpose_identity [simp]: "mat5_transpose mat5_identity = mat5_identity"
  by (rule mat_eqI) simp_all

lemma symmetric_transpose: "is_mat a \<Longrightarrow> symmetric a \<longleftrightarrow> mat5_transpose a = a"
proof
  assume "is_mat a" "symmetric a" then show "mat5_transpose a = a" by (intro mat_eqI) (auto simp: symmetric_def)
next
  assume a: "mat5_transpose a = a"
  show "symmetric a" unfolding symmetric_def
  proof (intro allI impI)
    fix i j :: nat assume "i < 5" "j < 5"
    then have "mat5_transpose a ! i ! j = a ! j ! i" by simp
    then show "a ! i ! j = a ! j ! i" by (simp add: a)
  qed
qed

lemma cholesky_product: "is_mat a \<Longrightarrow> symmetric a \<Longrightarrow> mat5_cholesky a = Some l \<Longrightarrow> mat5_mul l (mat5_transpose l) = a"
  by (rule mat_eqI) (simp_all add: cholesky_factor)

section \<open>The inverse\<close>

lemma fold_upt:
  assumes "m \<le> n" "P m s" "\<And>k s. m \<le> k \<Longrightarrow> k < n \<Longrightarrow> P k s \<Longrightarrow> P (Suc k) (f k s)"
  shows "P n (fold f [m..<n] s)"
  using assms
proof (induction "n - m" arbitrary: m s)
  case 0
  then show ?case by simp
next
  case (Suc d)
  then have "m < n" by linarith
  then show ?case using Suc by (auto simp: upt_conv_Cons)
qed

lemma inverse_cells:
  assumes "is_mat m" "i < 5" "list_all (\<lambda>j. j < i) js" "p < 5" "q < 5"
  shows "is_mat (fold (inverse_cell l i recip) js m)
    \<and> fold (inverse_cell l i recip) js m ! p ! q
      = (if p = i \<and> q \<in> set js then - (\<Sum>k = q..<i. l ! i ! k * m ! k ! q) * recip else m ! p ! q)"
  using assms
proof (induction js arbitrary: m)
  case (Cons j js)
  let ?m = "inverse_cell l i recip j m"
  have j: "j < i" "j < 5" using Cons.prems by auto
  have m: "is_mat ?m" using Cons.prems(1) by (simp add: inverse_cell_def)
  have e: "?m ! a ! b = (if a = i \<and> b = j then - (\<Sum>k = j..<i. l ! i ! k * m ! k ! j) * recip else m ! a ! b)"
    if "a < 5" "b < 5" for a b
    unfolding inverse_cell_def Let_def sum_upt by (rule entry_set_cell) (use Cons.prems j that in auto)
  have rows: "(\<Sum>k = q..<i. l ! i ! k * ?m ! k ! q) = (\<Sum>k = q..<i. l ! i ! k * m ! k ! q)"
    by (rule sum.cong) (use e Cons.prems in auto)
  have "is_mat (fold (inverse_cell l i recip) js ?m)
    \<and> fold (inverse_cell l i recip) js ?m ! p ! q
      = (if p = i \<and> q \<in> set js then - (\<Sum>k = q..<i. l ! i ! k * ?m ! k ! q) * recip else ?m ! p ! q)"
    by (rule Cons.IH) (use Cons.prems m in auto)
  then show ?case using e [of p q] Cons.prems rows by auto
qed simp

definition inverted :: "real list list \<Rightarrow> nat \<Rightarrow> real list list \<Rightarrow> bool" where
  "inverted l n m \<longleftrightarrow> is_mat m
     \<and> (\<forall>p<5. \<forall>q<5. p < n \<longrightarrow> (\<Sum>k<Suc p. l ! p ! k * m ! k ! q) = (if p = q then 1 else 0))
     \<and> (\<forall>p<5. p < n \<longrightarrow> m ! p ! p = 1 / l ! p ! p)
     \<and> (\<forall>p<5. \<forall>q<5. n \<le> p \<or> p < q \<longrightarrow> m ! p ! q = 0)"

lemma inverse_row_step:
  assumes inv: "inverted l i m" and i: "i < 5" and l: "0 < l ! i ! i"
  shows "inverted l (Suc i) (inverse_row l i m)"
proof -
  define m1 where "m1 = set_cell m i i (1 / l ! i ! i)"
  define m2 where "m2 = inverse_row l i m"
  have m: "is_mat m" using inv by (simp add: inverted_def)
  have e1: "m1 ! p ! q = (if p = i \<and> q = i then 1 / l ! i ! i else m ! p ! q)" if "p < 5" "q < 5" for p q
    unfolding m1_def by (rule entry_set_cell) (use m i that in auto)
  have cells: "is_mat m2 \<and> m2 ! p ! q
      = (if p = i \<and> q \<in> set (rev [0..<i]) then - (\<Sum>k = q..<i. l ! i ! k * m1 ! k ! q) * (1 / l ! i ! i) else m1 ! p ! q)"
    if "p < 5" "q < 5" for p q
    unfolding m2_def inverse_row_def Let_def m1_def
    by (rule inverse_cells) (use m i that in \<open>auto simp: list_all_iff\<close>)
  have m2: "is_mat m2" using cells [of 0 0] by simp
  have e: "m2 ! p ! q = (if p = i \<and> q = i then 1 / l ! i ! i
      else if p = i \<and> q < i then - (\<Sum>k = q..<i. l ! i ! k * m ! k ! q) / l ! i ! i else m ! p ! q)"
    if "p < 5" "q < 5" for p q
  proof -
    have "(\<Sum>k = q..<i. l ! i ! k * m1 ! k ! q) = (\<Sum>k = q..<i. l ! i ! k * m ! k ! q)"
      by (rule sum.cong) (use e1 i that in auto)
    with cells [OF that] e1 [OF that] show ?thesis by auto
  qed
  have zero: "m ! p ! q = 0" if "p < 5" "q < 5" "i \<le> p \<or> p < q" for p q
    using inv that unfolding inverted_def by blast
  have old: "(\<Sum>k<Suc p. l ! p ! k * m2 ! k ! q) = (\<Sum>k<Suc p. l ! p ! k * m ! k ! q)" if "p < i" "q < 5" for p q
    by (rule sum.cong) (use e i that in auto)
  have new: "(\<Sum>k<Suc i. l ! i ! k * m2 ! k ! q) = (if i = q then 1 else 0)" if q: "q < 5" for q
  proof -
    have rows: "(\<Sum>k<i. l ! i ! k * m2 ! k ! q) = (\<Sum>k<i. l ! i ! k * m ! k ! q)"
      by (rule sum.cong) (use e i q in auto)
    have cut: "(\<Sum>k<i. l ! i ! k * m ! k ! q) = (\<Sum>k = q..<i. l ! i ! k * m ! k ! q)"
      by (rule sum.mono_neutral_right) (use zero q i in auto)
    show ?thesis
      using rows cut e [of i q] l i q zero [of i q] by (cases "q < i"; cases "q = i") auto
  qed
  show ?thesis
    unfolding inverted_def m2_def [symmetric]
  proof (intro conjI allI impI)
    show "is_mat m2" by (rule m2)
    show "(\<Sum>k<Suc p. l ! p ! k * m2 ! k ! q) = (if p = q then 1 else 0)" if "p < 5" "q < 5" "p < Suc i" for p q
      using that old [of p q] new [of q] inv by (cases "p = i") (auto simp: inverted_def)
    show "m2 ! p ! p = 1 / l ! p ! p" if "p < 5" "p < Suc i" for p
      using that e [of p p] inv by (auto simp: inverted_def)
    show "m2 ! p ! q = 0" if "p < 5" "q < 5" "Suc i \<le> p \<or> p < q" for p q
      using that e [of p q] zero [of p q] by auto
  qed
qed

lemma lower_inverse_inverted:
  assumes "lower_factor l"
  shows "inverted l 5 (lower_inverse l)"
  unfolding lower_inverse_def
proof (rule fold_upt [where P = "inverted l"])
  show "inverted l 0 mat5_zeros" by (simp add: inverted_def)
  show "inverted l (Suc i) (inverse_row l i m)" if "i < 5" "inverted l i m" for i m
    by (rule inverse_row_step) (use that assms in \<open>auto simp: lower_factor_def\<close>)
qed simp

lemma lower_inverse_right:
  assumes "lower_factor l"
  shows "mat5_mul l (lower_inverse l) = mat5_identity" "lower_factor (lower_inverse l)"
proof -
  have inv: "inverted l 5 (lower_inverse l)" by (rule lower_inverse_inverted [OF assms])
  have l: "is_mat l" "\<And>i j. i < j \<Longrightarrow> j < 5 \<Longrightarrow> l ! i ! j = 0" "\<And>i. i < 5 \<Longrightarrow> 0 < l ! i ! i"
    using assms by (auto simp: lower_factor_def)
  show "mat5_mul l (lower_inverse l) = mat5_identity"
  proof (rule mat_eqI)
    fix p q :: nat assume pq: "p < 5" "q < 5"
    have "(\<Sum>k<5. l ! p ! k * lower_inverse l ! k ! q) = (\<Sum>k<Suc p. l ! p ! k * lower_inverse l ! k ! q)"
      by (rule sum.mono_neutral_right) (use l pq in auto)
    then show "mat5_mul l (lower_inverse l) ! p ! q = mat5_identity ! p ! q"
      using inv pq by (simp add: inverted_def)
  qed simp_all
  show "lower_factor (lower_inverse l)" using inv l(3) by (auto simp: lower_factor_def inverted_def)
qed

lemma lower_inverse_left:
  assumes "lower_factor l"
  shows "mat5_mul (lower_inverse l) l = mat5_identity"
proof -
  let ?x = "lower_inverse l" let ?y = "lower_inverse (lower_inverse l)"
  have x: "mat5_mul l ?x = mat5_identity" "lower_factor ?x" by (rule lower_inverse_right [OF assms])+
  have y: "mat5_mul ?x ?y = mat5_identity" "lower_factor ?y" by (rule lower_inverse_right [OF x(2)])+
  have "l = mat5_mul l (mat5_mul ?x ?y)" using assms by (simp add: y lower_factor_def)
  also have "\<dots> = ?y" using y(2) by (simp add: mul_assoc [symmetric] x lower_factor_def)
  finally show ?thesis using y(1) by simp
qed

lemma gram_of_inverse_product:
  assumes "lower_factor m"
  shows "gram_of_inverse m = mat5_mul (mat5_transpose m) m"
proof (rule mat_eqI)
  fix i j :: nat assume ij: "i < 5" "j < 5"
  have z: "m ! k ! q = 0" if "k < q" "q < 5" for k q using assms that by (simp add: lower_factor_def)
  have "(\<Sum>k = max i j..<5. m ! k ! min i j * m ! k ! max i j) = (\<Sum>k<5. m ! k ! min i j * m ! k ! max i j)"
    by (rule sum.mono_neutral_left) (use z ij in auto)
  also have "\<dots> = (\<Sum>k<5. m ! k ! i * m ! k ! j)" by (simp add: min_def max_def mult.commute)
  finally show "gram_of_inverse m ! i ! j = mat5_mul (mat5_transpose m) m ! i ! j"
    using ij by (simp add: gram_of_inverse_def sum_upt)
qed (simp_all add: gram_of_inverse_def)

lemma inverse_spd_correct:
  assumes "is_mat a" "symmetric a" "mat5_inverse_spd a = Some x"
  shows "mat5_mul a x = mat5_identity" "mat5_mul x a = mat5_identity" "mat5_transpose x = x" "is_mat x"
proof -
  from assms(3) obtain l where l: "mat5_cholesky a = Some l" and x: "x = gram_of_inverse (lower_inverse l)"
    by (auto simp: mat5_inverse_spd_def split: option.splits)
  have f: "lower_factor l" by (rule cholesky_factor(1) [OF l])
  then have isl: "is_mat l" by (simp add: lower_factor_def)
  let ?m = "lower_inverse l"
  have m: "lower_factor ?m" "is_mat ?m" using lower_inverse_right(2) [OF f] by (simp_all add: lower_factor_def)
  have x': "x = mat5_mul (mat5_transpose ?m) ?m" by (simp add: x gram_of_inverse_product m)
  have a: "a = mat5_mul l (mat5_transpose l)" by (rule cholesky_product [OF assms(1,2) l, symmetric])
  have t: "mat5_mul (mat5_transpose l) (mat5_transpose ?m) = mat5_identity"
    "mat5_mul (mat5_transpose ?m) (mat5_transpose l) = mat5_identity"
    by (simp_all add: transpose_mul [symmetric] lower_inverse_left lower_inverse_right f)
  show "mat5_mul a x = mat5_identity"
  proof -
    have "mat5_mul a x = mat5_mul l (mat5_mul (mat5_mul (mat5_transpose l) (mat5_transpose ?m)) ?m)"
      by (simp add: a x' mul_assoc)
    then show ?thesis by (simp add: t m lower_inverse_right f)
  qed
  show "mat5_mul x a = mat5_identity"
  proof -
    have "mat5_mul x a = mat5_mul (mat5_transpose ?m) (mat5_mul (mat5_mul ?m l) (mat5_transpose l))"
      by (simp add: a x' mul_assoc)
    then show ?thesis by (simp add: t lower_inverse_left f)
  qed
  show "mat5_transpose x = x" by (simp add: x' transpose_mul m)
  show "is_mat x" by (simp add: x')
qed

section \<open>Positive semidefinite matrices\<close>

definition quad :: "real list list \<Rightarrow> real list \<Rightarrow> real" where
  "quad m v = dot5 v (mat5_matvec m v)"

definition psd :: "real list list \<Rightarrow> bool" where
  "psd m \<longleftrightarrow> (\<forall>v. 0 \<le> quad m v)"

lemma dot5_adjoint: "dot5 v (mat5_matvec m w) = dot5 (mat5_matvec (mat5_transpose m) v) w"
proof -
  have "dot5 v (mat5_matvec m w) = (\<Sum>i<5. \<Sum>k<5. v ! i * (m ! i ! k * w ! k))"
    by (simp add: dot5_sum sum_distrib_left)
  also have "\<dots> = (\<Sum>k<5. \<Sum>i<5. v ! i * (m ! i ! k * w ! k))" by (rule sum.swap)
  also have "\<dots> = dot5 (mat5_matvec (mat5_transpose m) v) w"
    by (simp add: dot5_sum sum_distrib_left sum_distrib_right mult_ac)
  finally show ?thesis .
qed

lemma dot5_cong: "(\<And>k. k < 5 \<Longrightarrow> v ! k = w ! k) \<Longrightarrow> dot5 u v = dot5 u w"
  by (simp add: dot5_sum)

lemma dot5_commute: "dot5 v w = dot5 w v" by (simp add: dot5_def mult.commute)

lemma matvec_mul: "mat5_matvec (mat5_mul a b) v = mat5_matvec a (mat5_matvec b v)"
proof (rule nth_equalityI)
  fix i assume "i < length (mat5_matvec (mat5_mul a b) v)"
  then have i: "i < 5" by (simp add: mat5_matvec_def)
  have "(\<Sum>k<5. (\<Sum>p<5. a ! i ! p * b ! p ! k) * v ! k) = (\<Sum>k<5. \<Sum>p<5. a ! i ! p * b ! p ! k * v ! k)"
    by (simp only: sum_distrib_right)
  also have "\<dots> = (\<Sum>p<5. \<Sum>k<5. a ! i ! p * b ! p ! k * v ! k)" by (rule sum.swap)
  also have "\<dots> = (\<Sum>p<5. a ! i ! p * (\<Sum>k<5. b ! p ! k * v ! k))" by (simp only: sum_distrib_left mult.assoc)
  finally show "mat5_matvec (mat5_mul a b) v ! i = mat5_matvec a (mat5_matvec b v) ! i" using i by simp
qed (simp add: mat5_matvec_def)

lemma quad_congruence: "quad (mat5_mul m (mat5_mul p (mat5_transpose m))) v = quad p (mat5_matvec (mat5_transpose m) v)"
  by (simp add: quad_def matvec_mul dot5_adjoint [of v m])

lemma psd_congruence: "psd p \<Longrightarrow> psd (mat5_mul m (mat5_mul p (mat5_transpose m)))"
  by (simp add: psd_def quad_congruence)

lemma quad_add: "quad (mat5_add a b) v = quad a v + quad b v"
  by (simp add: quad_def dot5_sum sum.distrib [symmetric] distrib_left [symmetric] distrib_right [symmetric])

lemma psd_add: "psd a \<Longrightarrow> psd b \<Longrightarrow> psd (mat5_add a b)"
  by (simp add: psd_def quad_add)

lemma psd_square: "psd (mat5_mul l (mat5_transpose l))"
  unfolding psd_def
proof
  fix v
  let ?w = "mat5_matvec (mat5_transpose l) v"
  have "quad (mat5_mul l (mat5_transpose l)) v = dot5 ?w ?w" by (simp add: quad_def matvec_mul dot5_adjoint [of v l])
  also have "0 \<le> \<dots>" unfolding dot5_sum by (rule sum_nonneg) simp
  finally show "0 \<le> quad (mat5_mul l (mat5_transpose l)) v" .
qed

lemma cholesky_psd: "is_mat a \<Longrightarrow> symmetric a \<Longrightarrow> mat5_cholesky a \<noteq> None \<Longrightarrow> psd a"
  using cholesky_product psd_square by (metis not_None_eq)

lemma psd_diagonal_entry:
  assumes "psd m" "d < 5"
  shows "0 \<le> m ! d ! d"
proof -
  let ?v = "map (\<lambda>k. if k = d then 1 else 0) [0..<5] :: real list"
  have v: "?v ! k = (if k = d then 1 else 0)" if "k < 5" for k using that by simp
  have "quad m ?v = (\<Sum>i<5. (if i = d then 1 else 0) * (\<Sum>k<5. m ! i ! k * (if k = d then 1 else 0)))"
    by (simp add: quad_def dot5_sum v)
  also have "\<dots> = m ! d ! d"
    using assms(2) by (simp add: if_distrib [of "\<lambda>z. z * _"] if_distrib [of "times _"] cong: if_cong)
  finally show ?thesis using assms(1) by (metis psd_def)
qed

lemma psd_diagonal:
  assumes "\<And>i. i < 5 \<Longrightarrow> 0 \<le> d ! i"
  shows "psd (mat5_diagonal d)"
  unfolding psd_def quad_def dot5_sum
proof (intro allI sum_nonneg)
  fix v i assume i: "i \<in> {..<5::nat}"
  then have eq: "v ! i * mat5_matvec (mat5_diagonal d) v ! i = d ! i * (v ! i * v ! i)"
    by (simp add: if_distrib [of "\<lambda>z. z * _"] cong: if_cong)
  show "0 \<le> v ! i * mat5_matvec (mat5_diagonal d) v ! i" unfolding eq using assms [of i] i by simp
qed

lemma symmetric_ops:
  "symmetric a \<Longrightarrow> symmetric b \<Longrightarrow> symmetric (mat5_add a b)" "symmetric a \<Longrightarrow> symmetric b \<Longrightarrow> symmetric (mat5_sub a b)"
  "symmetric a \<Longrightarrow> symmetric b \<Longrightarrow> symmetric (mat5_lerp a b t)"
  "symmetric a \<Longrightarrow> symmetric b \<Longrightarrow> symmetric c \<Longrightarrow> symmetric (mat5_add_sub a b c)"
  "symmetric (mat5_outer v)" "symmetric (mat5_diagonal d)" "symmetric (mat5_symmetrize m)" "symmetric mat5_identity"
  by (simp_all add: symmetric_def mult.commute add.commute)

lemma symmetric_congruence:
  "is_mat p \<Longrightarrow> symmetric p \<Longrightarrow> symmetric (mat5_mul m (mat5_mul p (mat5_transpose m)))" if "is_mat m"
  by (simp add: symmetric_transpose transpose_mul mul_assoc that)

section \<open>enforce_spd\<close>

lemma entry_add_to_diagonal:
  assumes "is_mat m"
  shows "is_mat (add_to_diagonal reg m) \<and> (\<forall>p<5. \<forall>q<5.
     add_to_diagonal reg m ! p ! q = m ! p ! q + (if p = q then reg else 0))"
proof -
  have "is_mat (add_to_diagonal reg m) \<and> (\<forall>p<5. \<forall>q<5.
     add_to_diagonal reg m ! p ! q = m ! p ! q + (if p = q \<and> p < 5 then reg else 0))"
    unfolding add_to_diagonal_def
    by (rule fold_upt [where P = "\<lambda>n s. is_mat s \<and> (\<forall>p<5. \<forall>q<5. s ! p ! q = m ! p ! q + (if p = q \<and> p < n then reg else 0))"])
       (auto simp: assms entry_set_cell less_Suc_eq)
  then show ?thesis by auto
qed

lemma symmetric_add_to_diagonal: "is_mat m \<Longrightarrow> symmetric m \<Longrightarrow> symmetric (add_to_diagonal reg m)"
  using entry_add_to_diagonal [of m reg] by (auto simp: symmetric_def)

lemma regularize_ok:
  "is_mat m \<Longrightarrow> symmetric m \<Longrightarrow>
     (case regularize n reg m of Inl r \<Rightarrow> is_mat r \<and> symmetric r
      | Inr r \<Rightarrow> is_mat r \<and> symmetric r \<and> mat5_cholesky r \<noteq> None)"
proof (induction n arbitrary: reg m)
  case (Suc n)
  then show ?case
    using entry_add_to_diagonal [of m reg] symmetric_add_to_diagonal [of m reg] by (auto simp: Let_def)
qed simp

definition diagonal_inv :: "real list \<Rightarrow> nat \<Rightarrow> nat \<Rightarrow> real list list \<Rightarrow> bool" where
  "diagonal_inv d i j l \<longleftrightarrow> is_mat l
     \<and> (\<forall>p<5. \<forall>q<5. l ! p ! q = (if p = q \<and> lower_done i j p q then sqrt (d ! p) else 0))"

lemma cholesky_diagonal:
  assumes d: "\<And>i. i < 5 \<Longrightarrow> 1 / 10 ^ 30 \<le> d ! i"
  shows "mat5_cholesky (mat5_diagonal d) \<noteq> None"
proof -
  have root: "1 / 10 ^ 15 \<le> sqrt (d ! i)" "0 < d ! i" if "i < 5" for i
  proof -
    have "sqrt ((1 / 10 ^ 15)\<^sup>2) \<le> sqrt (d ! i)"
      by (rule real_sqrt_le_mono) (use d [OF that] in \<open>simp add: power_divide power_mult [symmetric]\<close>)
    then show "1 / 10 ^ 15 \<le> sqrt (d ! i)" by simp
    show "0 < d ! i" using d [OF that] by (smt (verit) divide_pos_pos zero_less_power)
  qed
  have cell: "\<exists>l'. cholesky_cell (mat5_diagonal d) i j l = Some l' \<and> diagonal_inv d i (Suc j) l'"
    if "j \<le> i" "i < 5" and inv: "diagonal_inv d i j l" for i j l
  proof -
    have l: "is_mat l" "\<And>p q. p < 5 \<Longrightarrow> q < 5 \<Longrightarrow> l ! p ! q = (if p = q \<and> lower_done i j p q then sqrt (d ! p) else 0)"
      using inv by (auto simp: diagonal_inv_def)
    have zero: "(\<Sum>k<j. l ! i ! k * l ! j ! k) = 0" by (rule sum.neutral) (use l that in auto)
    define x where "x = (if i = j then sqrt (d ! i) else 0)"
    have "cholesky_cell (mat5_diagonal d) i j l = Some (set_cell l i j x)"
      using that zero root [of j] l(2) [of j j]
      by (auto simp: cholesky_cell_def Let_def sum_upt atLeast0LessThan x_def lower_done_def)
    moreover have "diagonal_inv d i (Suc j) (set_cell l i j x)"
      using that l by (auto simp: diagonal_inv_def entry_set_cell x_def lower_done_def)
    ultimately show ?thesis by blast
  qed
  have row: "\<exists>l'. cholesky_row (mat5_diagonal d) i l = Some l' \<and> diagonal_inv d (Suc i) 0 l'"
    if "i < 5" "diagonal_inv d i 0 l" for i l
  proof -
    have "\<exists>l'. cholesky_row (mat5_diagonal d) i l = Some l' \<and> diagonal_inv d i (Suc i) l'"
      unfolding cholesky_row_def
      by (rule fold_option_total [where P = "diagonal_inv d i"]) (use cell that in auto)
    moreover have "lower_done i (Suc i) = lower_done (Suc i) 0" by (auto simp: lower_done_def fun_eq_iff)
    ultimately show ?thesis by (auto simp: diagonal_inv_def)
  qed
  have "\<exists>l. mat5_cholesky (mat5_diagonal d) = Some l \<and> diagonal_inv d 5 0 l"
    unfolding mat5_cholesky_def
    by (rule fold_option_total [where P = "\<lambda>i. diagonal_inv d i 0"])
       (use row in \<open>auto simp: diagonal_inv_def lower_done_def\<close>)
  then show ?thesis by auto
qed

lemma enforce_spd_ok:
  assumes "is_mat m" "symmetric m"
  shows "is_mat (enforce_spd m)" "symmetric (enforce_spd m)" "mat5_cholesky (enforce_spd m) \<noteq> None"
proof -
  have "is_mat (enforce_spd m) \<and> symmetric (enforce_spd m) \<and> mat5_cholesky (enforce_spd m) \<noteq> None"
  proof (cases "mat5_cholesky m = None \<and> mat5_cholesky (mat5_symmetrize m) = None")
    case False
    then show ?thesis using assms by (auto simp: enforce_spd_def Let_def symmetric_ops)
  next
    case True
    let ?s = "mat5_symmetrize m"
    let ?r = "regularize 10 (diagonal_norm ?s * (1 / 10 ^ 6)) ?s"
    have r: "case ?r of Inl r \<Rightarrow> is_mat r \<and> symmetric r | Inr r \<Rightarrow> is_mat r \<and> symmetric r \<and> mat5_cholesky r \<noteq> None"
      by (rule regularize_ok) (simp_all add: symmetric_ops)
    show ?thesis
    proof (cases ?r)
      case (Inr x)
      then show ?thesis using r True by (simp add: enforce_spd_def Let_def)
    next
      case (Inl x)
      let ?f = "diagonal_norm ?s * (1 / 10 ^ 4)" and ?d = "mat5_diag x"
      let ?e = "[max (?d ! 0) ?f, max (?d ! 1) ?f, max (?d ! 2) ?f, max (?d ! 3) ?f, max (?d ! 4) ?f]"
      have "1 / 10 ^ 15 \<le> diagonal_norm ?s" by (simp add: diagonal_norm_def)
      then have f: "1 / 10 ^ 30 \<le> ?f" by simp
      have "1 / 10 ^ 30 \<le> ?e ! i" if "i < 5" for i
      proof -
        have "?f \<le> ?e ! i" using that by (auto simp: less_Suc_eq eval_nat_numeral)
        with f show ?thesis by linarith
      qed
      then have "mat5_cholesky (mat5_diagonal ?e) \<noteq> None" by (rule cholesky_diagonal)
      moreover have "enforce_spd m = mat5_diagonal ?e" using True Inl by (simp add: enforce_spd_def Let_def)
      ultimately show ?thesis by (simp add: symmetric_ops)
    qed
  qed
  then show "is_mat (enforce_spd m)" "symmetric (enforce_spd m)" "mat5_cholesky (enforce_spd m) \<noteq> None" by auto
qed

end
