(* ===== verification/Certainty_Filter.thy ===== *)
theory Certainty_Filter
  imports Mat5
begin

text \<open>
  The certainty filter (engine/certainty_filter.rs): a Kalman filter over five measurements of the
  quality of a run with an adaptive (Sage-Husa) estimate of both noise matrices, the merging of the
  states of worker processes, and the quantities the other components derive from the state.
  Counts saturate at the width of a u32.
\<close>

section \<open>Constants\<close>

definition default_r_diag :: "real list" where "default_r_diag = [0.002, 0.002, 0.003, 0.005, 0.02]"
definition default_estimates :: "real list" where "default_estimates = [0.85, 0.50, 0.50, 0.50, 0.85]"
definition q_floor :: "real list" where "q_floor = [1 / 10 ^ 6, 1 / 10 ^ 6, 1 / 10 ^ 6, 1 / 10 ^ 6, 1 / 10 ^ 5]"
definition q_ceil :: "real list" where "q_ceil = [0.05, 0.05, 0.04, 0.04, 0.08]"
definition r_floor :: "real list" where "r_floor = default_r_diag"
definition r_ceil :: "real list" where "r_ceil = [0.10, 0.10, 0.08, 0.08, 0.15]"
definition adaptation_window :: real where "adaptation_window = 20"
definition adaptation_min_obs :: nat where "adaptation_min_obs = 3"
definition default_cov :: "real list list" where "default_cov = mat5_diagonal [0.05, 0.10, 0.10, 0.10, 0.05]"
definition default_q :: "real list list" where "default_q = mat5_diagonal [0.0001, 0.0001, 0.00005, 0.00005, 0.001]"
definition default_r :: "real list list" where "default_r = mat5_diagonal default_r_diag"

definition certainty_new :: certainty_filter_state where
  "certainty_new =
     \<lparr>cs_estimates = default_estimates, cs_covariance = default_cov, cs_adaptive_q = default_q,
      cs_adaptive_r = default_r, cs_legacy_adaptation_count = 0, cs_observation_count = 0\<rparr>"

section \<open>The update\<close>

record kalman_result =
  kr_estimates :: "real list"
  kr_covariance :: "real list list"
  kr_p_pred :: "real list list"
  kr_k :: "real list list"
  kr_innovation :: "real list"

definition kalman_update_full ::
    "real list \<Rightarrow> real list list \<Rightarrow> real list \<Rightarrow> real list list \<Rightarrow> real list list \<Rightarrow> kalman_result" where
  "kalman_update_full prior_est prior_cov measurement q r =
     (let p_pred = mat5_add prior_cov q;
          innovation = vec5_sub measurement prior_est;
          s = mat5_add p_pred r;
          s_inv = (case mat5_inverse_spd s of None \<Rightarrow> mat5_identity | Some x \<Rightarrow> x);
          k = mat5_mul p_pred s_inv;
          k_innov = mat5_matvec k innovation;
          estimates = vec5_add_clamp prior_est k_innov;
          i_k = mat5_neg_add_identity k;
          k_t = mat5_transpose k;
          i_k_t = mat5_neg_add_identity k_t;
          covariance = mat5_add (mat5_mul i_k (mat5_mul p_pred i_k_t)) (mat5_mul k (mat5_mul r k_t))
      in \<lparr>kr_estimates = estimates, kr_covariance = covariance, kr_p_pred = p_pred, kr_k = k,
          kr_innovation = innovation\<rparr>)"

definition clamp_diagonal_with_maturity ::
    "real list \<Rightarrow> real list \<Rightarrow> real \<Rightarrow> real list list \<Rightarrow> real list list" where
  "clamp_diagonal_with_maturity floors ceils maturity m =
     fold (\<lambda>d m. let f = floors ! d * (1 - 0.5 * maturity); c = ceils ! d * (1 + 2 * (1 - maturity))
                 in set_cell m d d (clamp (m ! d ! d) f c)) [0..<5] m"

definition adapt_noise :: "certainty_filter_state \<Rightarrow> kalman_result \<Rightarrow> certainty_filter_state" where
  "adapt_noise s result =
     (let alpha = 1 / min (real (cs_observation_count s - 1)) adaptation_window;
          maturity = min (real (cs_observation_count s) / adaptation_window) 1;
          innov_outer = mat5_outer (kr_innovation result);
          r_update = mat5_sub innov_outer (kr_p_pred result);
          adaptive_r = enforce_spd (clamp_diagonal_with_maturity r_floor r_ceil maturity
                         (mat5_lerp (cs_adaptive_r s) r_update alpha));
          k_innov = mat5_matvec (kr_k result) (kr_innovation result);
          q_update = mat5_add_sub (mat5_outer k_innov) (kr_covariance result) (cs_covariance s);
          adaptive_q = enforce_spd (clamp_diagonal_with_maturity q_floor q_ceil maturity
                         (mat5_lerp (cs_adaptive_q s) q_update alpha))
      in s\<lparr>cs_adaptive_r := adaptive_r, cs_adaptive_q := adaptive_q\<rparr>)"

definition filter_observe :: "certainty_filter_state \<Rightarrow> real list \<Rightarrow> certainty_filter_state" where
  "filter_observe s measurement =
     (if cs_observation_count s = 0
      then s\<lparr>cs_estimates := measurement, cs_covariance := default_r, cs_observation_count := 1\<rparr>
      else
        let result = kalman_update_full (cs_estimates s) (cs_covariance s) measurement (cs_adaptive_q s) (cs_adaptive_r s);
            s = (if cs_observation_count s \<ge> adaptation_min_obs then adapt_noise s result else s)
        in s\<lparr>cs_estimates := map (\<lambda>e. clamp e 0 1) (kr_estimates result), cs_covariance := kr_covariance result,
             cs_observation_count := min (cs_observation_count s + 1) (2 ^ 32 - 1)\<rparr>)"

definition merge_shards :: "certainty_filter_state list \<Rightarrow> certainty_filter_state" where
  "merge_shards shards =
     (if shards = [] then certainty_new
      else
        let total_obs = sum_list (map cs_observation_count shards) in
        if total_obs = 0 then certainty_new
        else
          let w = (\<lambda>shard. real (cs_observation_count shard) / real total_obs) in
          \<lparr>cs_estimates = map (\<lambda>d. \<Sum>shard\<leftarrow>shards. w shard * cs_estimates shard ! d) [0..<5],
           cs_covariance = mat_of (\<lambda>d d2. \<Sum>shard\<leftarrow>shards. w shard * cs_covariance shard ! d ! d2),
           cs_adaptive_q = default_q, cs_adaptive_r = default_r, cs_legacy_adaptation_count = 0,
           cs_observation_count = min total_obs (2 ^ 32 - 1)\<rparr>)"

section \<open>Derived quantities\<close>

definition stddev :: "certainty_filter_state \<Rightarrow> nat \<Rightarrow> real" where
  "stddev s d = sqrt (cs_covariance s ! d ! d)"

definition trust_deficit_penalty :: "certainty_filter_state \<Rightarrow> real" where
  "trust_deficit_penalty s = (if cs_observation_count s = 0 then 0 else min (stddev s 4) 0.3)"

definition confidence_penalty :: "certainty_filter_state \<Rightarrow> real" where
  "confidence_penalty s = (if cs_observation_count s = 0 then 0 else min (stddev s 1) 0.3)"

definition richness_multiplier :: "certainty_filter_state \<Rightarrow> real" where
  "richness_multiplier s = clamp (cs_estimates s ! 3 * 2) 0.5 3"

definition style_gain_weights :: "certainty_filter_state \<Rightarrow> real \<times> real \<times> real" where
  "style_gain_weights s =
     (let e4 = cs_estimates s ! 4 in (e4 * 0.7058823529411765, e4 * 0.47058823529411765, e4 * 0.23529411764705882))"

definition cluster_relax_stability :: "certainty_filter_state \<Rightarrow> real" where
  "cluster_relax_stability s = cs_estimates s ! 4 * 0.9411764705882353"
definition cluster_relax_uncertainty :: "certainty_filter_state \<Rightarrow> real" where
  "cluster_relax_uncertainty s = stddev s 4 * 0.805"
definition cluster_harden_stability :: "certainty_filter_state \<Rightarrow> real" where
  "cluster_harden_stability s = cs_estimates s ! 4 * 0.6470588235294118"
definition cluster_harden_uncertainty :: "certainty_filter_state \<Rightarrow> real" where
  "cluster_harden_uncertainty s = stddev s 4 * 1.966"
definition cluster_harden_revert_rate :: "certainty_filter_state \<Rightarrow> real" where
  "cluster_harden_revert_rate s = stddev s 4 * 0.983"
definition cluster_cap1_stability :: "certainty_filter_state \<Rightarrow> real" where
  "cluster_cap1_stability s = cs_estimates s ! 4 * 0.47058823529411765"
definition cluster_cap1_reliability :: "certainty_filter_state \<Rightarrow> real" where
  "cluster_cap1_reliability s = cs_estimates s ! 4 * 0.35294117647058824"
definition cluster_cap3_stability :: "certainty_filter_state \<Rightarrow> real" where
  "cluster_cap3_stability s = cs_estimates s ! 4 * 0.7058823529411765"
definition cluster_cap3_uncertainty :: "certainty_filter_state \<Rightarrow> real" where
  "cluster_cap3_uncertainty s = stddev s 4 * 1.5625"

definition semantic_confidence_bp_base :: "certainty_filter_state \<Rightarrow> nat" where
  "semantic_confidence_bp_base s = nat \<lfloor>clamp (cs_estimates s ! 1 * 400) 50 500\<rfloor>"

definition retry_batch :: "certainty_filter_state \<Rightarrow> nat" where
  "retry_batch s =
     (let e0 = cs_estimates s ! 0; sd0 = stddev s 0; k = 10 / (sd0 + 0.05);
          sigmoid = 1 / (1 + exp (- (k * (e0 - 0.7))))
      in nat \<lfloor>512 + sigmoid * (131072 - 512)\<rfloor>)"

section \<open>The invariant of the filter\<close>

definition covariance_ok :: "real list list \<Rightarrow> bool" where
  "covariance_ok m \<longleftrightarrow> is_mat m \<and> symmetric m \<and> psd m"

definition unit_vector :: "real list \<Rightarrow> bool" where
  "unit_vector v \<longleftrightarrow> length v = 5 \<and> list_all (\<lambda>e. 0 \<le> e \<and> e \<le> 1) v"

definition filter_ok :: "certainty_filter_state \<Rightarrow> bool" where
  "filter_ok s \<longleftrightarrow> unit_vector (cs_estimates s) \<and> covariance_ok (cs_covariance s)
     \<and> covariance_ok (cs_adaptive_q s) \<and> covariance_ok (cs_adaptive_r s)"

inductive reachable_filter :: "certainty_filter_state \<Rightarrow> bool" where
  reachable_new: "reachable_filter certainty_new"
| reachable_observe: "reachable_filter s \<Longrightarrow> unit_vector measurement \<Longrightarrow> reachable_filter (filter_observe s measurement)"
| reachable_merge: "\<forall>s \<in> set shards. reachable_filter s \<Longrightarrow> reachable_filter (merge_shards shards)"

lemma covariance_ok_diagonal: "(\<And>i. i < 5 \<Longrightarrow> 0 \<le> d ! i) \<Longrightarrow> covariance_ok (mat5_diagonal d)"
  by (simp add: covariance_ok_def symmetric_ops psd_diagonal)

lemma list5_nonneg: "i < 5 \<Longrightarrow> 0 \<le> [a, b, c, d, e] ! i" if "0 \<le> a" "0 \<le> b" "0 \<le> c" "0 \<le> d" "0 \<le> (e::real)"
  using that by (auto simp: less_Suc_eq eval_nat_numeral)

lemma defaults_ok [simp]: "covariance_ok default_cov" "covariance_ok default_q" "covariance_ok default_r"
  by (auto simp: default_cov_def default_q_def default_r_def default_r_diag_def intro!: covariance_ok_diagonal list5_nonneg)

lemma certainty_new_ok: "filter_ok certainty_new"
  by (simp add: filter_ok_def certainty_new_def unit_vector_def default_estimates_def)

lemma covariance_ok_add: "covariance_ok a \<Longrightarrow> covariance_ok b \<Longrightarrow> covariance_ok (mat5_add a b)"
  by (simp add: covariance_ok_def symmetric_ops psd_add)

lemma covariance_ok_congruence:
  "is_mat m \<Longrightarrow> covariance_ok p \<Longrightarrow> covariance_ok (mat5_mul m (mat5_mul p (mat5_transpose m)))"
  by (simp add: covariance_ok_def symmetric_congruence psd_congruence)

lemma neg_add_identity_transpose:
  "is_mat k \<Longrightarrow> mat5_neg_add_identity (mat5_transpose k) = mat5_transpose (mat5_neg_add_identity k)"
  by (rule mat_eqI) simp_all

lemma update_covariance_ok:
  assumes "covariance_ok p" "covariance_ok q" "covariance_ok r"
  shows "covariance_ok (kr_covariance (kalman_update_full e p z q r))"
    "covariance_ok (kr_p_pred (kalman_update_full e p z q r))"
  using assms
  by (simp_all add: kalman_update_full_def Let_def covariance_ok_add covariance_ok_congruence neg_add_identity_transpose)

lemma clamp_diagonal_kept:
  assumes "is_mat m" "symmetric m"
  shows "is_mat (clamp_diagonal_with_maturity fs cs maturity m)" "symmetric (clamp_diagonal_with_maturity fs cs maturity m)"
proof -
  have "is_mat (clamp_diagonal_with_maturity fs cs maturity m) \<and> symmetric (clamp_diagonal_with_maturity fs cs maturity m)"
    unfolding clamp_diagonal_with_maturity_def
    by (rule fold_upt [where P = "\<lambda>_ s. is_mat s \<and> symmetric s"])
       (use assms in \<open>auto simp: Let_def symmetric_def entry_set_cell\<close>)
  then show "is_mat (clamp_diagonal_with_maturity fs cs maturity m)" "symmetric (clamp_diagonal_with_maturity fs cs maturity m)"
    by auto
qed

lemma enforced_ok: "is_mat m \<Longrightarrow> symmetric m \<Longrightarrow> covariance_ok (enforce_spd m)"
  using enforce_spd_ok [of m] cholesky_psd by (simp add: covariance_ok_def)

lemma adapt_noise_ok:
  assumes "filter_ok s" "covariance_ok (kr_p_pred result)" "covariance_ok (kr_covariance result)"
  shows "covariance_ok (cs_adaptive_q (adapt_noise s result))" "covariance_ok (cs_adaptive_r (adapt_noise s result))"
    "cs_covariance (adapt_noise s result) = cs_covariance s" "cs_estimates (adapt_noise s result) = cs_estimates s"
    "cs_observation_count (adapt_noise s result) = cs_observation_count s"
  using assms
  by (auto simp: adapt_noise_def Let_def filter_ok_def covariance_ok_def [of "cs_adaptive_q s"]
      covariance_ok_def [of "cs_adaptive_r s"] covariance_ok_def [of "cs_covariance s"]
      covariance_ok_def [of "kr_p_pred result"] covariance_ok_def [of "kr_covariance result"]
      intro!: enforced_ok clamp_diagonal_kept symmetric_ops)

lemma clamp_unit: "0 \<le> clamp e 0 1" "clamp e 0 1 \<le> 1" by (simp_all add: clamp_def)

lemma filter_observe_ok:
  assumes "filter_ok s" "unit_vector z"
  shows "filter_ok (filter_observe s z)"
proof (cases "cs_observation_count s = 0")
  case True
  with assms show ?thesis by (simp add: filter_observe_def filter_ok_def)
next
  case False
  define result where "result = kalman_update_full (cs_estimates s) (cs_covariance s) z (cs_adaptive_q s) (cs_adaptive_r s)"
  have ok: "covariance_ok (kr_covariance result)" "covariance_ok (kr_p_pred result)"
    using assms(1) by (simp_all add: result_def filter_ok_def update_covariance_ok)
  have len: "length (kr_estimates result) = 5"
    by (simp add: result_def kalman_update_full_def Let_def vec5_add_clamp_def)
  have "unit_vector (map (\<lambda>e. clamp e 0 1) (kr_estimates result))"
    using clamp_unit by (auto simp: unit_vector_def len list_all_iff)
  with False ok assms adapt_noise_ok [OF assms(1) ok(2,1)] show ?thesis
    by (simp add: filter_observe_def Let_def result_def [symmetric] filter_ok_def)
qed

lemma quad_weighted:
  "quad (mat_of (\<lambda>i j. \<Sum>x\<leftarrow>xs. w x * c x ! i ! j)) v = (\<Sum>x\<leftarrow>xs. w x * quad (c x) v)"
proof (induction xs)
  case Nil
  then show ?case by (simp add: quad_def dot5_sum)
next
  case (Cons x xs)
  have "quad (mat_of (\<lambda>i j. \<Sum>x\<leftarrow>x # xs. w x * c x ! i ! j)) v
      = (\<Sum>i<5. v ! i * (\<Sum>k<5. (w x * c x ! i ! k + (\<Sum>x\<leftarrow>xs. w x * c x ! i ! k)) * v ! k))"
    by (simp add: quad_def dot5_sum)
  also have "\<dots> = w x * (\<Sum>i<5. v ! i * (\<Sum>k<5. c x ! i ! k * v ! k))
      + (\<Sum>i<5. v ! i * (\<Sum>k<5. (\<Sum>x\<leftarrow>xs. w x * c x ! i ! k) * v ! k))"
    by (simp add: distrib_left distrib_right sum.distrib sum_distrib_left mult_ac)
  finally show ?case using Cons by (simp add: quad_def dot5_sum)
qed

lemma merge_shards_ok:
  assumes "\<forall>s \<in> set shards. filter_ok s"
  shows "filter_ok (merge_shards shards)"
proof (cases "shards = [] \<or> sum_list (map cs_observation_count shards) = 0")
  case True
  then show ?thesis by (auto simp: merge_shards_def Let_def certainty_new_ok)
next
  case False
  define n where "n = sum_list (map cs_observation_count shards)"
  define w where "w shard = real (cs_observation_count shard) / real n" for shard :: certainty_filter_state
  have n: "0 < n" using False unfolding n_def by blast
  have w0: "0 \<le> w x" for x by (simp add: w_def)
  have total: "(\<Sum>x\<leftarrow>xs. w x) = real (sum_list (map cs_observation_count xs)) / real n" for xs
    by (induction xs) (simp_all add: w_def add_divide_distrib)
  then have w1: "(\<Sum>x\<leftarrow>shards. w x) = 1" using n by (simp add: n_def [symmetric])
  have est: "0 \<le> (\<Sum>x\<leftarrow>shards. w x * cs_estimates x ! d)" "(\<Sum>x\<leftarrow>shards. w x * cs_estimates x ! d) \<le> 1" if "d < 5" for d
  proof -
    have unit: "0 \<le> cs_estimates x ! d" "cs_estimates x ! d \<le> 1" if "x \<in> set shards" for x
      using assms that \<open>d < 5\<close> by (auto simp: filter_ok_def unit_vector_def list_all_length)
    show "0 \<le> (\<Sum>x\<leftarrow>shards. w x * cs_estimates x ! d)"
      by (rule sum_list_nonneg) (use w0 unit in auto)
    have "(\<Sum>x\<leftarrow>shards. w x * cs_estimates x ! d) \<le> (\<Sum>x\<leftarrow>shards. w x)"
      by (rule sum_list_mono) (use w0 unit in \<open>auto intro: mult_left_le\<close>)
    with w1 show "(\<Sum>x\<leftarrow>shards. w x * cs_estimates x ! d) \<le> 1" by simp
  qed
  have cov: "covariance_ok (mat_of (\<lambda>d d2. \<Sum>x\<leftarrow>shards. w x * cs_covariance x ! d ! d2))"
    unfolding covariance_ok_def
  proof (intro conjI)
    show "psd (mat_of (\<lambda>d d2. \<Sum>x\<leftarrow>shards. w x * cs_covariance x ! d ! d2))"
      unfolding psd_def quad_weighted
      using assms w0 by (auto intro!: sum_list_nonneg mult_nonneg_nonneg simp: filter_ok_def covariance_ok_def psd_def)
    show "symmetric (mat_of (\<lambda>d d2. \<Sum>x\<leftarrow>shards. w x * cs_covariance x ! d ! d2))"
      using assms by (auto simp: symmetric_def filter_ok_def covariance_ok_def intro!: arg_cong [where f = sum_list] map_cong)
  qed simp
  have "merge_shards shards = \<lparr>cs_estimates = map (\<lambda>d. \<Sum>x\<leftarrow>shards. w x * cs_estimates x ! d) [0..<5],
     cs_covariance = mat_of (\<lambda>d d2. \<Sum>x\<leftarrow>shards. w x * cs_covariance x ! d ! d2),
     cs_adaptive_q = default_q, cs_adaptive_r = default_r, cs_legacy_adaptation_count = 0,
     cs_observation_count = min n (2 ^ 32 - 1)\<rparr>"
    using False n by (simp add: merge_shards_def Let_def n_def [symmetric] w_def)
  with cov est show ?thesis by (simp add: filter_ok_def unit_vector_def list_all_iff)
qed

text \<open>
  \<^bold>\<open>C14\<close>.  In every state the filter can reach by observations in the unit cube and by merging, the
  estimates lie in the unit interval and the covariance and both noise matrices are symmetric and
  positive semidefinite.  In particular no variance is negative, so every standard deviation the
  other components read is a number.
\<close>

theorem filter_invariant:
  assumes "reachable_filter s"
  shows "filter_ok s \<and> (\<forall>d < 5. 0 \<le> variance s d)"
proof -
  have "filter_ok s"
    using assms
    by (induction rule: reachable_filter.induct) (auto intro: certainty_new_ok filter_observe_ok merge_shards_ok)
  then show ?thesis by (auto simp: filter_ok_def covariance_ok_def variance_def psd_diagonal_entry)
qed

lemma add_diagonals: "mat5_add (mat5_diagonal a) (mat5_diagonal b) = mat5_diagonal (map2 (+) a b)"
  if "length a = 5" "length b = 5"
  by (rule mat_eqI) (simp_all add: that)

theorem filter_invariant_witness:
  "filter_ok (filter_observe certainty_new [1, 1 / 2, 1 / 2, 1 / 2, 1])
     \<and> 0 \<le> variance (filter_observe certainty_new [1, 1 / 2, 1 / 2, 1 / 2, 1]) 4"
proof -
  have "reachable_filter (filter_observe certainty_new [1, 1 / 2, 1 / 2, 1 / 2, 1])"
    by (rule reachable_observe [OF reachable_new]; simp add: unit_vector_def)
  from filter_invariant [OF this] show ?thesis by simp
qed

lemma update_expanded:
  assumes "is_mat k" "is_mat p" "is_mat r"
  shows "mat5_add (mat5_mul (mat5_neg_add_identity k) (mat5_mul p (mat5_transpose (mat5_neg_add_identity k))))
      (mat5_mul k (mat5_mul r (mat5_transpose k)))
    = mat5_add (mat5_sub (mat5_mul (mat5_neg_add_identity k) p) (mat5_mul p (mat5_transpose k)))
        (mat5_mul (mat5_mul k (mat5_add p r)) (mat5_transpose k))"
proof -
  have neg: "mat5_mul (mat5_neg_add_identity a) b = mat5_sub b (mat5_mul a b)" if "is_mat b" for a b
    by (rule mat_eqI) (simp_all add: left_diff_distrib sum_subtractf delta_sums)
  have neg_right: "mat5_mul b (mat5_neg_add_identity a) = mat5_sub b (mat5_mul b a)" if "is_mat b" for a b
    by (rule mat_eqI) (simp_all add: right_diff_distrib sum_subtractf delta_sums)
  have distr: "mat5_mul (mat5_mul k (mat5_add p r)) (mat5_transpose k)
      = mat5_add (mat5_mul k (mat5_mul p (mat5_transpose k))) (mat5_mul k (mat5_mul r (mat5_transpose k)))"
    unfolding mul_assoc by (rule mat_eqI) (simp_all add: distrib_left distrib_right sum.distrib)
  show ?thesis
    unfolding distr
    by (rule mat_eqI) (simp_all add: neg neg_right neg_add_identity_transpose [symmetric] assms
        right_diff_distrib sum_subtractf)
qed

text \<open>
  \<^bold>\<open>C15\<close>.  The update computes the covariance in Joseph's form, which keeps it symmetric and without
  negative variances for any gain, also for the one the code falls back to when the innovation
  matrix \<open>P + Q + R\<close> has no Cholesky inverse.  When it has one, the form equals the textbook
  update \<open>(I - K) P\<close> for the gain computed from it, and no variance grows beyond the predicted one.
\<close>

theorem joseph_form_optimal:
  fixes e p z q r
  defines "result \<equiv> kalman_update_full e p z q r"
  assumes "covariance_ok p" "covariance_ok q" "covariance_ok r"
  shows "covariance_ok (kr_covariance result)
     \<and> (mat5_inverse_spd (mat5_add (mat5_add p q) r) \<noteq> None \<longrightarrow>
         kr_covariance result = mat5_mul (mat5_neg_add_identity (kr_k result)) (kr_p_pred result)
         \<and> (\<forall>d < 5. kr_covariance result ! d ! d \<le> kr_p_pred result ! d ! d))"
proof (intro conjI impI)
  show "covariance_ok (kr_covariance result)"
    unfolding result_def by (rule update_covariance_ok(1) [OF assms(2-4)])
next
  assume invertible: "mat5_inverse_spd (mat5_add (mat5_add p q) r) \<noteq> None"
  define pp where "pp = mat5_add p q"
  define s where "s = mat5_add pp r"
  from invertible obtain x where x: "mat5_inverse_spd s = Some x" by (auto simp: s_def pp_def)
  define k where "k = mat5_mul pp x"
  have k: "is_mat k" by (simp add: k_def)
  have pp: "covariance_ok pp" using assms(2,3) by (simp add: pp_def covariance_ok_add)
  have s: "covariance_ok s" using pp assms(4) by (simp add: s_def covariance_ok_add)
  have inv: "mat5_mul x s = mat5_identity"
    using inverse_spd_correct [OF _ _ x] s by (simp add: covariance_ok_def)
  have mats: "is_mat pp" "is_mat r" "symmetric pp" "is_mat s"
    using pp assms(4) s by (simp_all add: covariance_ok_def)
  have ks: "mat5_mul k s = pp" by (simp add: k_def mul_assoc inv mats)
  have fields: "kr_p_pred result = pp" "kr_k result = k"
    "kr_covariance result = mat5_add
       (mat5_mul (mat5_neg_add_identity k) (mat5_mul pp (mat5_transpose (mat5_neg_add_identity k))))
       (mat5_mul k (mat5_mul r (mat5_transpose k)))"
    by (simp_all add: result_def kalman_update_full_def Let_def pp_def [symmetric] s_def [symmetric] x k_def [symmetric]
        neg_add_identity_transpose k)
  have cov: "kr_covariance result = mat5_mul (mat5_neg_add_identity k) pp"
    unfolding fields(3) update_expanded [OF k mats(1,2)] s_def [symmetric] ks
    by (rule mat_eqI) simp_all
  have drop: "mat5_mul k pp = mat5_mul k (mat5_mul s (mat5_transpose k))"
  proof -
    have "mat5_mul s (mat5_transpose k) = mat5_transpose (mat5_mul k s)"
      using s by (simp add: transpose_mul symmetric_transpose [THEN iffD1] covariance_ok_def)
    also have "\<dots> = pp" using mats by (simp add: ks symmetric_transpose [THEN iffD1])
    finally show ?thesis by simp
  qed
  have "psd (mat5_mul k pp)" unfolding drop using s by (intro psd_congruence) (simp add: covariance_ok_def)
  then have nonneg: "0 \<le> (\<Sum>j<5. k ! d ! j * pp ! j ! d)" if "d < 5" for d
    using psd_diagonal_entry [of "mat5_mul k pp" d] that by simp
  have "kr_covariance result ! d ! d \<le> kr_p_pred result ! d ! d" if "d < 5" for d
    using nonneg [OF that] that
    by (simp add: cov fields(1) left_diff_distrib sum_subtractf delta_sums)
  then show "\<forall>d < 5. kr_covariance result ! d ! d \<le> kr_p_pred result ! d ! d" by blast
  show "kr_covariance result = mat5_mul (mat5_neg_add_identity (kr_k result)) (kr_p_pred result)"
    by (simp only: cov fields)
qed

definition quarter_diagonal :: "real list list" where
  "quarter_diagonal = mat5_diagonal [1 / 4, 1 / 4, 1 / 4, 1 / 4, 1 / 4]"

lemma quarter_ok: "covariance_ok quarter_diagonal"
  unfolding quarter_diagonal_def by (auto intro!: covariance_ok_diagonal list5_nonneg)

lemma quarter_invertible:
  "mat5_inverse_spd (mat5_add (mat5_add quarter_diagonal quarter_diagonal) quarter_diagonal) \<noteq> None"
proof -
  have "mat5_cholesky (mat5_diagonal [3 / 4, 3 / 4, 3 / 4, 3 / 4, 3 / 4]) \<noteq> None"
    by (rule cholesky_diagonal) (auto simp: less_Suc_eq eval_nat_numeral)
  then show ?thesis by (auto simp: quarter_diagonal_def add_diagonals mat5_inverse_spd_def split: option.splits)
qed

theorem joseph_form_optimal_witness:
  "kr_covariance (kalman_update_full [] quarter_diagonal [] quarter_diagonal quarter_diagonal)
     = mat5_mul (mat5_neg_add_identity (kr_k (kalman_update_full [] quarter_diagonal [] quarter_diagonal quarter_diagonal)))
         (kr_p_pred (kalman_update_full [] quarter_diagonal [] quarter_diagonal quarter_diagonal))"
  using joseph_form_optimal [OF quarter_ok quarter_ok quarter_ok] quarter_invertible by blast

text \<open>
  The bounds of the diagonal clamp are ordered for every maturity, so the clamp of the noise matrices
  never panics.
\<close>

lemma clamp_bounds_ordered:
  assumes "0 \<le> maturity" "maturity \<le> 1" "d < 5"
  shows "q_floor ! d * (1 - 0.5 * maturity) \<le> q_ceil ! d * (1 + 2 * (1 - maturity))"
    "r_floor ! d * (1 - 0.5 * maturity) \<le> r_ceil ! d * (1 + 2 * (1 - maturity))"
proof -
  have "d \<in> {0, 1, 2, 3, 4}" using assms(3) by auto
  then show "q_floor ! d * (1 - 0.5 * maturity) \<le> q_ceil ! d * (1 + 2 * (1 - maturity))"
    "r_floor ! d * (1 - 0.5 * maturity) \<le> r_ceil ! d * (1 + 2 * (1 - maturity))"
    using assms(1,2) by (auto simp: q_floor_def q_ceil_def r_floor_def r_ceil_def default_r_diag_def)
qed

text \<open>
  The retry batch derived from any state is between 512 and 131072.
\<close>

lemma sigmoid_bounds: "0 < 1 / (1 + exp (x::real))" "1 / (1 + exp (x::real)) < 1"
  using exp_gt_zero [of x] by (simp_all add: divide_less_eq add_pos_pos)

theorem retry_batch_bounded: "512 \<le> retry_batch s \<and> retry_batch s \<le> 131072"
proof -
  define y where "y = 1 / (1 + exp (- (10 / (stddev s 0 + 0.05) * (cs_estimates s ! 0 - 0.7))))"
  have y: "0 < y" "y < 1" unfolding y_def by (rule sigmoid_bounds)+
  define f where "f = \<lfloor>512 + y * (131072 - 512)\<rfloor>"
  have "512 \<le> f" "f \<le> 131072" using y unfolding f_def by (simp_all add: le_floor_iff floor_le_iff)
  moreover have "retry_batch s = nat f" by (simp add: retry_batch_def Let_def y_def f_def)
  ultimately show ?thesis by (simp add: nat_le_iff le_nat_iff)
qed

end
