(* ===== verification/Gates.thy ===== *)
theory Gates
  imports Semantic_Contract Line_Suppression Rollout
begin

text \<open>
  The gates a result passes after its checks: the accuracy gate (engine/accuracy_gate.rs) with the
  reasons it renders and its fail-closed relaxation, and the confidence gate of a policy
  (engine/gate_decision.rs, engine/pipeline/confidence.rs) with the bias the cluster telemetry puts
  on it and what the decision does to a policy result.  An f64 is a real; \<open>f64_epsilon\<close> is the
  slack the thresholds are compared with.
\<close>

section \<open>The accuracy gate\<close>

record accuracy_gate_config =
  ag_enabled :: bool
  ag_semantic_required :: bool
  ag_fail_closed :: bool
  ag_profile :: rollout_profile
  ag_defer_fail_closed_until_stable :: bool
  ag_stable_passes_required :: nat
  ag_state_path :: rstr
  ag_ci_require_benchmark :: bool
  ag_min_precision :: real
  ag_min_recall :: real
  ag_min_samples :: nat

record accuracy_gate_input =
  gi_semantic_ready :: bool
  gi_attempted_edits :: nat
  gi_attempted_violations :: nat
  gi_accepted_edits :: nat
  gi_semantic_context_kind :: semantic_compdb_context_kind

datatype accuracy_gate_status = Passed | WarningOnly | FailedClosed

datatype accuracy_gate_reason =
    SemanticRequiredUnmet
  | PrecisionBelowThreshold real real
  | RecallBelowThreshold real real
  | RelaxedForPairedSourceHeuristic
  | RelaxedForConsensusContext
  | RelaxedForTreeOnlyContext

fun render_gate_reason :: "accuracy_gate_reason \<Rightarrow> rstr" where
  "render_gate_reason SemanticRequiredUnmet = ''semantic_required_unmet''"
| "render_gate_reason (PrecisionBelowThreshold actual minimum) =
     ''precision_below_threshold('' @ format_fixed 3 actual @ '' < '' @ format_fixed 3 minimum @ '')''"
| "render_gate_reason (RecallBelowThreshold actual minimum) =
     ''recall_below_threshold('' @ format_fixed 3 actual @ '' < '' @ format_fixed 3 minimum @ '')''"
| "render_gate_reason RelaxedForPairedSourceHeuristic = ''fail_closed_relaxed_for_paired_source_heuristic''"
| "render_gate_reason RelaxedForConsensusContext = ''fail_closed_relaxed_for_consensus_context''"
| "render_gate_reason RelaxedForTreeOnlyContext = ''fail_closed_relaxed_for_tree_only_context''"

record accuracy_gate_decision =
  gd_status :: accuracy_gate_status
  gd_precision :: real
  gd_recall :: real
  gd_reasons :: "accuracy_gate_reason list"

definition gate_passed :: "accuracy_gate_decision \<Rightarrow> bool" where
  "gate_passed d \<longleftrightarrow> gd_status d = Passed"

definition gate_reason_summary :: "accuracy_gate_decision \<Rightarrow> rstr" where
  "gate_reason_summary d =
     (let rendered = map render_gate_reason (gd_reasons d) in
      if rendered = [] then ''unknown'' else join '','' rendered)"

definition gate_summary :: "accuracy_gate_decision \<Rightarrow> rstr" where
  "gate_summary d =
     ''accuracy_gate: precision='' @ format_fixed 3 (gd_precision d) @ '' recall='' @ format_fixed 3 (gd_recall d)
       @ '' reasons=['' @ gate_reason_summary d @ '']''"

datatype gate_failure_kind = RequiredUnmet rstr | ThresholdMiss

record accuracy_gate_failure =
  af_path :: rstr
  af_decision :: accuracy_gate_decision
  af_kind :: gate_failure_kind

definition semantic_required_unmet :: "rstr \<Rightarrow> rstr \<Rightarrow> accuracy_gate_decision \<Rightarrow> accuracy_gate_failure" where
  "semantic_required_unmet path detail decision =
     \<lparr>af_path = path, af_decision = decision, af_kind = RequiredUnmet detail\<rparr>"

definition threshold_miss :: "rstr \<Rightarrow> accuracy_gate_decision \<Rightarrow> accuracy_gate_failure" where
  "threshold_miss path decision = \<lparr>af_path = path, af_decision = decision, af_kind = ThresholdMiss\<rparr>"

definition gate_failure_message :: "accuracy_gate_failure \<Rightarrow> rstr" where
  "gate_failure_message f =
     (case af_kind f of
        RequiredUnmet detail \<Rightarrow>
          ''accuracy gate fail-closed: semantic_required unmet for '' @ af_path f @ '' ('' @ detail @ '')''
      | ThresholdMiss \<Rightarrow> ''accuracy gate fail-closed for '' @ af_path f @ '': '' @ gate_summary (af_decision f))"

definition is_threshold_miss :: "accuracy_gate_reason \<Rightarrow> bool" where
  "is_threshold_miss reason =
     (case reason of PrecisionBelowThreshold _ _ \<Rightarrow> True | RecallBelowThreshold _ _ \<Rightarrow> True | _ \<Rightarrow> False)"

definition fail_closed_relaxation_reason ::
    "semantic_compdb_context_kind \<Rightarrow> accuracy_gate_reason list \<Rightarrow> accuracy_gate_reason option" where
  "fail_closed_relaxation_reason context_kind reasons =
     (if reasons = [] then None
      else
        let semantic_required_unmet = SemanticRequiredUnmet \<in> set reasons;
            threshold_miss_count = length (filter is_threshold_miss reasons)
        in case context_kind of
             Exact \<Rightarrow> None
           | PairedSourceHeuristic \<Rightarrow>
               if \<not> semantic_required_unmet \<and> threshold_miss_count \<ge> 2 then None
               else Some RelaxedForPairedSourceHeuristic
           | HeaderConsensus \<Rightarrow> Some RelaxedForConsensusContext
           | SourceConsensus \<Rightarrow> Some RelaxedForConsensusContext
           | NoContext \<Rightarrow> Some RelaxedForTreeOnlyContext)"

definition f64_epsilon :: real where "f64_epsilon = 1 / 2 ^ 52"

definition gate_precision :: "accuracy_gate_input \<Rightarrow> real" where
  "gate_precision i =
     (if gi_attempted_edits i = 0 then 1
      else clamp (real (gi_accepted_edits i) / real (gi_attempted_edits i)) 0 1)"

definition gate_recall :: "accuracy_gate_input \<Rightarrow> real" where
  "gate_recall i =
     (let recall_denominator = min (gi_attempted_violations i) (max (gi_attempted_edits i) 1) in
      if gi_attempted_violations i = 0 \<or> gi_attempted_edits i = 0 then 1
      else clamp (real (gi_accepted_edits i) / real recall_denominator) 0 1)"

definition evaluate_gate :: "accuracy_gate_config \<Rightarrow> accuracy_gate_input \<Rightarrow> accuracy_gate_decision" where
  "evaluate_gate config i =
     (let precision = gate_precision i; recall = gate_recall i;
          reasons = (if ag_semantic_required config \<and> \<not> gi_semantic_ready i then [SemanticRequiredUnmet] else []);
          sample_size = min (gi_attempted_edits i + gi_attempted_violations i) u64_max;
          threshold_checks_enabled = (ag_enabled config \<and> sample_size \<ge> ag_min_samples config);
          reasons = (if threshold_checks_enabled
            then reasons
              @ (if precision + f64_epsilon < ag_min_precision config
                 then [PrecisionBelowThreshold precision (ag_min_precision config)] else [])
              @ (if recall + f64_epsilon < ag_min_recall config
                 then [RecallBelowThreshold recall (ag_min_recall config)] else [])
            else reasons);
          (status, reasons) =
            (if reasons = [] then (Passed, reasons)
             else if ag_fail_closed config
             then (case fail_closed_relaxation_reason (gi_semantic_context_kind i) reasons of
                     Some reason \<Rightarrow> (WarningOnly, reasons @ [reason])
                   | None \<Rightarrow> (FailedClosed, reasons))
             else (WarningOnly, reasons))
      in \<lparr>gd_status = status, gd_precision = precision, gd_recall = recall, gd_reasons = reasons\<rparr>)"

section \<open>The confidence gate\<close>

datatype enforcement = Must | Hard | Soft | Advisory

definition enforcement_from_value :: "rstr \<Rightarrow> enforcement" where
  "enforcement_from_value raw =
     (let v = to_lowercase (trim raw) in
      if v \<in> {''must'', ''required'', ''force''} then Must
      else if v \<in> {''soft'', ''normal'', ''default''} then Soft
      else if v \<in> {''advisory'', ''relaxed''} then Advisory
      else Hard)"

fun enforcement_label :: "enforcement \<Rightarrow> rstr" where
  "enforcement_label Must = ''must''"
| "enforcement_label Hard = ''hard''"
| "enforcement_label Soft = ''soft''"
| "enforcement_label Advisory = ''advisory''"

text \<open>The derived \<open>Debug\<close> form.\<close>

fun enforcement_debug :: "enforcement \<Rightarrow> rstr" where
  "enforcement_debug Must = ''Must''"
| "enforcement_debug Hard = ''Hard''"
| "enforcement_debug Soft = ''Soft''"
| "enforcement_debug Advisory = ''Advisory''"

datatype confidence_reason_code =
    TierAdjusted enforcement enforcement | LowConfidence | LowConsensus | ParserConsensusStrict
  | ParserHardened | ParserRelaxed | SemanticConsensusLow | ProjectEvidenceLow | ContextCoverageLow
  | SemanticMissing | ParserUnavailable | ParserDisagreement | ClangDiagnostics | HybridRecovery
  | RetrySafetyHarden | ClusterAdaptiveRelaxed | ClusterAdaptiveHardened | Stable

fun render_reason_code :: "confidence_reason_code \<Rightarrow> rstr" where
  "render_reason_code (TierAdjusted a b) = ''tier_adjusted:'' @ enforcement_label a @ ''->'' @ enforcement_label b"
| "render_reason_code LowConfidence = ''low_confidence''"
| "render_reason_code LowConsensus = ''low_consensus''"
| "render_reason_code ParserConsensusStrict = ''parser_consensus_strict''"
| "render_reason_code ParserHardened = ''parser_hardened''"
| "render_reason_code ParserRelaxed = ''parser_relaxed''"
| "render_reason_code SemanticConsensusLow = ''semantic_consensus_low''"
| "render_reason_code ProjectEvidenceLow = ''project_evidence_low''"
| "render_reason_code ContextCoverageLow = ''context_coverage_low''"
| "render_reason_code SemanticMissing = ''semantic_missing''"
| "render_reason_code ParserUnavailable = ''parser_unavailable''"
| "render_reason_code ParserDisagreement = ''parser_disagreement''"
| "render_reason_code ClangDiagnostics = ''clang_diagnostics''"
| "render_reason_code HybridRecovery = ''hybrid_recovery''"
| "render_reason_code RetrySafetyHarden = ''retry_safety_harden''"
| "render_reason_code ClusterAdaptiveRelaxed = ''cluster_adaptive_relaxed''"
| "render_reason_code ClusterAdaptiveHardened = ''cluster_adaptive_hardened''"
| "render_reason_code Stable = ''stable''"

record confidence_gate_decision =
  cd_outcome :: policy_decision_outcome
  cd_score :: real
  cd_threshold :: real
  cd_base_enforcement :: enforcement
  cd_effective_enforcement :: enforcement
  cd_reason_codes :: "confidence_reason_code list"
  cd_dropped_lines :: "nat set"

definition decision_reason_summary :: "confidence_gate_decision \<Rightarrow> rstr" where
  "decision_reason_summary d =
     (let rendered = map render_reason_code (cd_reason_codes d) in
      if rendered = [] then ''stable'' else join '','' rendered)"

definition guard_violation :: "nat \<Rightarrow> rstr \<Rightarrow> violation" where
  "guard_violation line message =
     \<lparr>v_policy = policy_from_str_lossy ''confidence_guard'', v_message = message, v_line = line, v_column = Some 1\<rparr>"

definition apply_confidence_decision ::
    "rstr \<Rightarrow> rstr \<Rightarrow> policy_result \<Rightarrow> confidence_gate_decision \<Rightarrow> policy_result" where
  "apply_confidence_decision policy_name before_text result d =
     (let message_line = (case pr_edits result of [] \<Rightarrow> 1 | item # _ \<Rightarrow> e_line item);
          reason_text = decision_reason_summary d;
          quoted = [quote_char] @ policy_name @ [quote_char];
          scores = ''score='' @ format_fixed 2 (cd_score d) @ '', threshold='' @ format_fixed 2 (cd_threshold d)
      in case cd_outcome d of
           Apply \<Rightarrow>
             if cd_base_enforcement d \<noteq> cd_effective_enforcement d
             then result\<lparr>pr_violations := pr_violations result
               @ [guard_violation message_line (''Adaptive tier for '' @ quoted @ '': ''
                    @ enforcement_debug (cd_base_enforcement d) @ ''->'' @ enforcement_debug (cd_effective_enforcement d)
                    @ '' ('' @ reason_text @ '')'')]\<rparr>
             else result
         | ApplyPartial \<Rightarrow>
             let dropped_count = card (cd_dropped_lines d);
                 suppressed = apply_line_suppression before_text result (cd_dropped_lines d)
             in suppressed\<lparr>pr_violations := pr_violations suppressed
               @ [guard_violation message_line (''Adaptive partial apply for '' @ quoted @ '' (dropped_lines=''
                    @ nat_to_string dropped_count @ '', '' @ scores @ '', reasons='' @ reason_text @ '')'')]\<rparr>
         | Block \<Rightarrow>
             \<lparr>pr_text = before_text, pr_changed = False,
              pr_violations = pr_violations result
               @ [guard_violation message_line (''Adaptive decision blocked for '' @ quoted @ '' ('' @ scores
                    @ '', effective='' @ enforcement_debug (cd_effective_enforcement d)
                    @ '', reasons='' @ reason_text @ '')'')],
              pr_edits = [], pr_warnings = pr_warnings result\<rparr>)"

datatype cluster_enforcement_bias = Relax | Neutral | Harden

definition push_reason_code :: "confidence_reason_code \<Rightarrow> confidence_reason_code list \<Rightarrow> confidence_reason_code list" where
  "push_reason_code code codes = (if code \<notin> set codes then codes @ [code] else codes)"

fun relax_enforcement :: "enforcement \<Rightarrow> enforcement" where
  "relax_enforcement Must = Must"
| "relax_enforcement Hard = Soft"
| "relax_enforcement Soft = Advisory"
| "relax_enforcement Advisory = Advisory"

fun harden_enforcement :: "enforcement \<Rightarrow> enforcement" where
  "harden_enforcement Must = Must"
| "harden_enforcement Hard = Must"
| "harden_enforcement Soft = Hard"
| "harden_enforcement Advisory = Soft"

definition apply_cluster_bias ::
    "confidence_gate_decision \<Rightarrow> cluster_enforcement_bias \<Rightarrow> confidence_gate_decision" where
  "apply_cluster_bias d bias =
     (case bias of
        Neutral \<Rightarrow> d
      | Relax \<Rightarrow>
          let d = (if cd_base_enforcement d \<noteq> Must \<and> cd_outcome d = Block
                   then d\<lparr>cd_outcome := Apply,
                          cd_reason_codes := push_reason_code ClusterAdaptiveRelaxed (cd_reason_codes d)\<rparr>
                   else d);
              d = (if cd_effective_enforcement d \<noteq> Must
                   then d\<lparr>cd_effective_enforcement := relax_enforcement (cd_effective_enforcement d)\<rparr>
                   else d)
          in d\<lparr>cd_reason_codes := push_reason_code ClusterAdaptiveRelaxed (cd_reason_codes d)\<rparr>
      | Harden \<Rightarrow>
          d\<lparr>cd_effective_enforcement := harden_enforcement (cd_effective_enforcement d),
            cd_reason_codes := push_reason_code ClusterAdaptiveHardened (cd_reason_codes d)\<rparr>)"

text \<open>The only decision the pipeline makes before the bias (\<open>execute_policy_stage\<close>).\<close>

definition pipeline_decision :: "enforcement \<Rightarrow> confidence_gate_decision" where
  "pipeline_decision base_enforcement =
     \<lparr>cd_outcome = Apply, cd_score = 1, cd_threshold = 0, cd_base_enforcement = base_enforcement,
      cd_effective_enforcement = base_enforcement, cd_reason_codes = [Stable], cd_dropped_lines = {}\<rparr>"

section \<open>When the accuracy gate fails closed\<close>

definition semantic_unmet :: "accuracy_gate_config \<Rightarrow> accuracy_gate_input \<Rightarrow> bool" where
  "semantic_unmet config i \<longleftrightarrow> ag_semantic_required config \<and> \<not> gi_semantic_ready i"

definition below_threshold :: "accuracy_gate_config \<Rightarrow> accuracy_gate_input \<Rightarrow> real \<Rightarrow> real \<Rightarrow> bool" where
  "below_threshold config i actual minimum \<longleftrightarrow>
     ag_enabled config \<and> min (gi_attempted_edits i + gi_attempted_violations i) u64_max \<ge> ag_min_samples config
       \<and> actual + f64_epsilon < minimum"

lemma clamp_range: "0 \<le> clamp x 0 1" "clamp x 0 1 \<le> 1" by (simp_all add: clamp_def)

lemma gate_ratios: "0 \<le> gate_precision i \<and> gate_precision i \<le> 1 \<and> 0 \<le> gate_recall i \<and> gate_recall i \<le> 1"
  by (simp add: gate_precision_def gate_recall_def clamp_range Let_def)

definition violated :: "accuracy_gate_config \<Rightarrow> accuracy_gate_input \<Rightarrow> accuracy_gate_reason list" where
  "violated config i =
     (if semantic_unmet config i then [SemanticRequiredUnmet] else [])
     @ (if below_threshold config i (gate_precision i) (ag_min_precision config)
        then [PrecisionBelowThreshold (gate_precision i) (ag_min_precision config)] else [])
     @ (if below_threshold config i (gate_recall i) (ag_min_recall config)
        then [RecallBelowThreshold (gate_recall i) (ag_min_recall config)] else [])"

lemma evaluate_gate_fields:
  "gd_precision (evaluate_gate config i) = gate_precision i" "gd_recall (evaluate_gate config i) = gate_recall i"
  "gd_status (evaluate_gate config i) =
     (if violated config i = [] then Passed
      else if ag_fail_closed config \<and> fail_closed_relaxation_reason (gi_semantic_context_kind i) (violated config i) = None
      then FailedClosed else WarningOnly)"
  unfolding evaluate_gate_def Let_def violated_def semantic_unmet_def below_threshold_def
  by (auto split: option.split)

text \<open>
  \<^bold>\<open>C29\<close>.  The gate passes exactly when nothing it checks is violated, and it fails closed exactly
  when it is configured to, something is violated, and the context of the file does not relax it: an
  exact compilation database entry never relaxes, a paired source only as long as not both ratios
  (and nothing else) fall below their minimum.  Its ratios are between 0 and 1.
\<close>

theorem gate_outcome_exact:
  fixes config i
  defines "d \<equiv> evaluate_gate config i"
    and "unmet \<equiv> semantic_unmet config i"
    and "low_precision \<equiv> below_threshold config i (gate_precision i) (ag_min_precision config)"
    and "low_recall \<equiv> below_threshold config i (gate_recall i) (ag_min_recall config)"
  shows "(gd_status d = Passed) = (\<not> unmet \<and> \<not> low_precision \<and> \<not> low_recall)
     \<and> (gd_status d = FailedClosed) = (ag_fail_closed config \<and> (unmet \<or> low_precision \<or> low_recall)
          \<and> (gi_semantic_context_kind i = Exact
             \<or> gi_semantic_context_kind i = PairedSourceHeuristic \<and> \<not> unmet \<and> low_precision \<and> low_recall))
     \<and> 0 \<le> gd_precision d \<and> gd_precision d \<le> 1 \<and> 0 \<le> gd_recall d \<and> gd_recall d \<le> 1"
proof -
  have v: "violated config i = (if unmet then [SemanticRequiredUnmet] else [])
     @ (if low_precision then [PrecisionBelowThreshold (gate_precision i) (ag_min_precision config)] else [])
     @ (if low_recall then [RecallBelowThreshold (gate_recall i) (ag_min_recall config)] else [])"
    by (simp add: violated_def unmet_def low_precision_def low_recall_def)
  have "fail_closed_relaxation_reason k (violated config i) = None
      \<longleftrightarrow> k = Exact \<or> violated config i = [] \<or> k = PairedSourceHeuristic \<and> \<not> unmet \<and> low_precision \<and> low_recall" for k
    by (cases k) (simp_all add: v fail_closed_relaxation_reason_def is_threshold_miss_def Let_def)
  moreover have "violated config i = [] \<longleftrightarrow> \<not> unmet \<and> \<not> low_precision \<and> \<not> low_recall" by (simp add: v)
  ultimately show ?thesis using gate_ratios [of i] by (auto simp: d_def evaluate_gate_fields)
qed

text \<open>
  The coordinator evaluates the gate with as many accepted as attempted edits.  Then both
  ratios are 1, so with thresholds up to 1 the thresholds never matter and only the semantic
  requirement can fail.
\<close>

theorem accepted_all_meets_thresholds:
  assumes "gi_accepted_edits i = gi_attempted_edits i" "ag_min_precision config \<le> 1" "ag_min_recall config \<le> 1"
  shows "gate_precision i = 1 \<and> gate_recall i = 1
     \<and> (gd_status (evaluate_gate config i) = Passed) = (\<not> semantic_unmet config i)"
proof -
  have one: "clamp x 0 1 = 1" if "1 \<le> x" for x using that by (simp add: clamp_def)
  have "1 \<le> real (gi_attempted_edits i) / real (min (gi_attempted_violations i) (max (gi_attempted_edits i) 1))"
    if "0 < gi_attempted_edits i" "0 < gi_attempted_violations i" using that by simp
  then have recall: "gate_recall i = 1" using assms(1) by (simp add: gate_recall_def one Let_def)
  have precision: "gate_precision i = 1" using assms(1) by (simp add: gate_precision_def one)
  have "\<not> below_threshold config i 1 y" if "y \<le> 1" for y
    using that by (simp add: below_threshold_def f64_epsilon_def)
  with recall precision assms(2,3) show ?thesis by (simp add: evaluate_gate_fields violated_def)
qed

definition sample_gate_config :: accuracy_gate_config where
  "sample_gate_config = \<lparr>ag_enabled = True, ag_semantic_required = True, ag_fail_closed = True, ag_profile = Balanced,
     ag_defer_fail_closed_until_stable = True, ag_stable_passes_required = 3, ag_state_path = [],
     ag_ci_require_benchmark = False, ag_min_precision = 0.9, ag_min_recall = 0.9, ag_min_samples = 1\<rparr>"

definition sample_gate_input :: "nat \<Rightarrow> accuracy_gate_input" where
  "sample_gate_input accepted = \<lparr>gi_semantic_ready = True, gi_attempted_edits = 10, gi_attempted_violations = 10,
     gi_accepted_edits = accepted, gi_semantic_context_kind = Exact\<rparr>"

theorem accepted_all_meets_thresholds_witness:
  "gate_precision (sample_gate_input 10) = 1 \<and> gate_recall (sample_gate_input 10) = 1
     \<and> (gd_status (evaluate_gate sample_gate_config (sample_gate_input 10)) = Passed)
         = (\<not> semantic_unmet sample_gate_config (sample_gate_input 10))"
  by (rule accepted_all_meets_thresholds) (simp_all add: sample_gate_config_def sample_gate_input_def)

text \<open>
  The confidence gate of the pipeline never holds an edit back: whatever enforcement a policy
  is configured with and whatever the cluster telemetry has learned, the text, the edits, the change
  flag and the warnings of the result go through, and the only trace is a violation that reports an
  adapted tier.
\<close>

theorem confidence_gate_never_blocks:
  fixes name before bias enforcement result
  defines "r \<equiv> apply_confidence_decision name before result (apply_cluster_bias (pipeline_decision enforcement) bias)"
  shows "pr_text r = pr_text result \<and> pr_edits r = pr_edits result \<and> pr_changed r = pr_changed result
     \<and> pr_warnings r = pr_warnings result \<and> pr_violations result = take (length (pr_violations result)) (pr_violations r)"
  by (cases bias) (auto simp: r_def apply_confidence_decision_def apply_cluster_bias_def pipeline_decision_def Let_def)

end
