(* ===== verification/Cluster_Telemetry.thy ===== *)
theory Cluster_Telemetry
  imports Certainty_Filter Gates "HOL-Library.Product_Lexorder"
begin

text \<open>
  What the formatter learns about the outcomes of a policy in a cluster of contexts
  (runtime/cluster_telemetry.rs) and how worker processes send it home (app/graph_refresh.rs):
  counters and two moving averages per policy and cluster, the bias and the radius cap derived from
  them, the frozen read model of a pass, and the snapshot a state is saved and merged with.
  A \<open>DashMap\<close> is an association list in the order of first insertion; the code reads it by key or
  sorts what it iterates over.  A u64 counter is a natural number that saturates.
\<close>

section \<open>State\<close>

record cluster_stats =
  pl_decisions :: nat
  pl_apply :: nat
  pl_apply_partial :: nat
  pl_advisory_only :: nat
  pl_block :: nat
  pl_accepted :: nat
  pl_regressed :: nat
  pl_reverted :: nat
  pl_decision_ema_bp :: nat
  pl_outcome_ema_bp :: nat
  pl_decision_events :: nat
  pl_outcome_events :: nat

definition cluster_stats_default :: cluster_stats where
  "cluster_stats_default = \<lparr>pl_decisions = 0, pl_apply = 0, pl_apply_partial = 0, pl_advisory_only = 0, pl_block = 0,
     pl_accepted = 0, pl_regressed = 0, pl_reverted = 0, pl_decision_ema_bp = 0, pl_outcome_ema_bp = 0,
     pl_decision_events = 0, pl_outcome_events = 0\<rparr>"

definition sat_add :: "nat \<Rightarrow> nat \<Rightarrow> nat" where
  "sat_add a b = min (a + b) u64_max"

definition decision_total :: "cluster_stats \<Rightarrow> nat" where
  "decision_total s = pl_decisions s"

definition outcome_total :: "cluster_stats \<Rightarrow> nat" where
  "outcome_total s = sat_add (sat_add (pl_accepted s) (pl_regressed s)) (pl_reverted s)"

definition has_adaptive_hints :: "cluster_stats \<Rightarrow> bool" where
  "has_adaptive_hints s \<longleftrightarrow> pl_decision_events s > 0 \<or> pl_outcome_events s > 0"

datatype cluster_outcome = Accepted | Regressed | Reverted

record cluster_controls =
  cl_enforcement_bias :: cluster_enforcement_bias
  cl_max_impact_radius_cap :: "nat option"

definition cluster_controls_default :: cluster_controls where
  "cluster_controls_default = \<lparr>cl_enforcement_bias = Neutral, cl_max_impact_radius_cap = None\<rparr>"

record snapshot_entry =
  pe_policy :: policy_id
  pe_cluster :: u64
  pe_stats :: cluster_stats

record cluster_adaptive =
  ca_decision_ema :: real
  ca_outcome_ema :: real
  ca_decision_events :: nat
  ca_outcome_events :: nat

definition cluster_adaptive_default :: cluster_adaptive where
  "cluster_adaptive_default =
     \<lparr>ca_decision_ema = 0.5, ca_outcome_ema = 0.5, ca_decision_events = 0, ca_outcome_events = 0\<rparr>"

record cluster_combined =
  cc_stats :: cluster_stats
  cc_adaptive :: cluster_adaptive

definition cluster_combined_default :: cluster_combined where
  "cluster_combined_default = \<lparr>cc_stats = cluster_stats_default, cc_adaptive = cluster_adaptive_default\<rparr>"

type_synonym cluster_entries = "((rstr \<times> u64) \<times> cluster_combined) list"

record cluster_telemetry =
  tl_entries :: cluster_entries
  tl_read_model :: "cluster_entries option"

section \<open>Moving averages\<close>

definition decision_ema_alpha :: real where "decision_ema_alpha = 0.22"
definition outcome_ema_alpha :: real where "outcome_ema_alpha = 0.26"
definition min_adaptive_decisions :: nat where "min_adaptive_decisions = 6"
definition wilson_z :: real where "wilson_z = 1.959963984540054"

fun decision_sample :: "policy_decision_outcome \<Rightarrow> real" where
  "decision_sample Apply = 1"
| "decision_sample ApplyPartial = 0.72"
| "decision_sample Block = 0.05"

fun outcome_sample :: "cluster_outcome \<Rightarrow> real" where
  "outcome_sample Accepted = 1"
| "outcome_sample Regressed = 0.25"
| "outcome_sample Reverted = 0"

definition ema_step :: "real \<Rightarrow> real \<Rightarrow> real \<Rightarrow> real" where
  "ema_step current alpha sample =
     (let bounded_alpha = clamp alpha 0.0001 1 in clamp (current + bounded_alpha * (sample - current)) 0 1)"

definition ema_batch :: "real \<Rightarrow> real \<Rightarrow> real \<Rightarrow> nat \<Rightarrow> real" where
  "ema_batch current alpha sample_mean n =
     (if n = 0 then clamp current 0 1
      else
        let bounded_alpha = clamp alpha 0.0001 1; decay = (1 - bounded_alpha) ^ n
        in clamp (current * decay + sample_mean * (1 - decay)) 0 1)"

definition apply_ema_sample :: "bool \<Rightarrow> real \<Rightarrow> cluster_adaptive \<Rightarrow> cluster_adaptive" where
  "apply_ema_sample decision_axis sample s =
     (let bounded = clamp sample 0 1 in
      if decision_axis
      then s\<lparr>ca_decision_ema := ema_step (ca_decision_ema s) decision_ema_alpha bounded,
             ca_decision_events := sat_add (ca_decision_events s) 1\<rparr>
      else s\<lparr>ca_outcome_ema := ema_step (ca_outcome_ema s) outcome_ema_alpha bounded,
             ca_outcome_events := sat_add (ca_outcome_events s) 1\<rparr>)"

definition apply_stats_batch :: "cluster_stats \<Rightarrow> cluster_adaptive \<Rightarrow> cluster_adaptive" where
  "apply_stats_batch stats a =
     (let a = (if decision_total stats > 0
            then
              let decision_mean = (real (pl_apply stats) + real (pl_apply_partial stats) * 0.72
                    + real (pl_advisory_only stats) * 0.28 + real (pl_block stats) * 0.05) / real (decision_total stats)
              in a\<lparr>ca_decision_ema := ema_batch (ca_decision_ema a) decision_ema_alpha (clamp decision_mean 0 1) (decision_total stats),
                   ca_decision_events := sat_add (ca_decision_events a) (decision_total stats)\<rparr>
            else a)
      in if outcome_total stats > 0
         then
           let outcome_mean = (real (pl_accepted stats) + real (pl_regressed stats) * 0.25) / real (outcome_total stats)
           in a\<lparr>ca_outcome_ema := ema_batch (ca_outcome_ema a) outcome_ema_alpha (clamp outcome_mean 0 1) (outcome_total stats),
                ca_outcome_events := sat_add (ca_outcome_events a) (outcome_total stats)\<rparr>
         else a)"

definition ema_to_bp :: "real \<Rightarrow> nat" where
  "ema_to_bp v = nat \<lfloor>clamp v 0 1 * 10000 + 1 / 2\<rfloor>"

definition bp_to_ema :: "nat \<Rightarrow> real" where
  "bp_to_ema n = clamp (real n / 10000) 0 1"

definition weighted_mean :: "real \<Rightarrow> nat \<Rightarrow> real \<Rightarrow> nat \<Rightarrow> real" where
  "weighted_mean lhs lhs_weight rhs rhs_weight =
     (if lhs_weight = 0 then clamp rhs 0 1
      else if rhs_weight = 0 then clamp lhs 0 1
      else clamp ((lhs * real lhs_weight + rhs * real rhs_weight) / (real lhs_weight + real rhs_weight)) 0 1)"

definition adaptive_from_hints :: "cluster_stats \<Rightarrow> cluster_adaptive" where
  "adaptive_from_hints stats =
     \<lparr>ca_decision_ema = bp_to_ema (pl_decision_ema_bp stats), ca_outcome_ema = bp_to_ema (pl_outcome_ema_bp stats),
      ca_decision_events = pl_decision_events stats, ca_outcome_events = pl_outcome_events stats\<rparr>"

definition write_adaptive_hints :: "cluster_adaptive \<Rightarrow> cluster_stats \<Rightarrow> cluster_stats" where
  "write_adaptive_hints a stats =
     stats\<lparr>pl_decision_ema_bp := ema_to_bp (ca_decision_ema a), pl_outcome_ema_bp := ema_to_bp (ca_outcome_ema a),
           pl_decision_events := ca_decision_events a, pl_outcome_events := ca_outcome_events a\<rparr>"

definition blend_adaptive :: "cluster_adaptive \<Rightarrow> cluster_adaptive \<Rightarrow> cluster_adaptive" where
  "blend_adaptive incoming target =
     \<lparr>ca_decision_ema = weighted_mean (ca_decision_ema target) (ca_decision_events target)
         (ca_decision_ema incoming) (ca_decision_events incoming),
      ca_outcome_ema = weighted_mean (ca_outcome_ema target) (ca_outcome_events target)
         (ca_outcome_ema incoming) (ca_outcome_events incoming),
      ca_decision_events = sat_add (ca_decision_events target) (ca_decision_events incoming),
      ca_outcome_events = sat_add (ca_outcome_events target) (ca_outcome_events incoming)\<rparr>"

definition merge_adaptive_state :: "cluster_stats \<Rightarrow> cluster_adaptive \<Rightarrow> cluster_adaptive" where
  "merge_adaptive_state stats a =
     (if has_adaptive_hints stats then blend_adaptive (adaptive_from_hints stats) a else apply_stats_batch stats a)"

section \<open>Recording\<close>

definition telemetry_reset :: "cluster_telemetry \<Rightarrow> cluster_telemetry" where
  "telemetry_reset t = \<lparr>tl_entries = [], tl_read_model = None\<rparr>"

definition begin_read_model :: "cluster_telemetry \<Rightarrow> cluster_telemetry" where
  "begin_read_model t = t\<lparr>tl_read_model := Some (tl_entries t)\<rparr>"

definition clear_read_model :: "cluster_telemetry \<Rightarrow> cluster_telemetry" where
  "clear_read_model t = t\<lparr>tl_read_model := None\<rparr>"

definition update_entry :: "rstr \<times> u64 \<Rightarrow> (cluster_combined \<Rightarrow> cluster_combined) \<Rightarrow> cluster_telemetry \<Rightarrow> cluster_telemetry" where
  "update_entry key f t = t\<lparr>tl_entries := entry_update key cluster_combined_default f (tl_entries t)\<rparr>"

definition count_decision :: "policy_decision_outcome \<Rightarrow> cluster_combined \<Rightarrow> cluster_combined" where
  "count_decision outcome c =
     (let s = cc_stats c;
          s = s\<lparr>pl_decisions := sat_add (pl_decisions s) 1\<rparr>;
          s = (case outcome of
                 Apply \<Rightarrow> s\<lparr>pl_apply := sat_add (pl_apply s) 1\<rparr>
               | ApplyPartial \<Rightarrow> s\<lparr>pl_apply_partial := sat_add (pl_apply_partial s) 1\<rparr>
               | Block \<Rightarrow> s\<lparr>pl_block := sat_add (pl_block s) 1\<rparr>)
      in \<lparr>cc_stats = s, cc_adaptive = apply_ema_sample True (decision_sample outcome) (cc_adaptive c)\<rparr>)"

definition record_decision :: "rstr \<Rightarrow> u64 \<Rightarrow> policy_decision_outcome \<Rightarrow> cluster_telemetry \<Rightarrow> cluster_telemetry" where
  "record_decision policy cluster outcome t =
     update_entry (to_ascii_lowercase (trim policy), cluster) (count_decision outcome) t"

definition count_outcome :: "cluster_outcome \<Rightarrow> cluster_combined \<Rightarrow> cluster_combined" where
  "count_outcome outcome c =
     (let s = cc_stats c;
          s = (case outcome of
                 Accepted \<Rightarrow> s\<lparr>pl_accepted := sat_add (pl_accepted s) 1\<rparr>
               | Regressed \<Rightarrow> s\<lparr>pl_regressed := sat_add (pl_regressed s) 1\<rparr>
               | Reverted \<Rightarrow> s\<lparr>pl_reverted := sat_add (pl_reverted s) 1\<rparr>)
      in \<lparr>cc_stats = s, cc_adaptive = apply_ema_sample False (outcome_sample outcome) (cc_adaptive c)\<rparr>)"

text \<open>Of a trace the recording reads the policy and the cluster; each pair is counted once.\<close>

fun record_outcomes ::
    "(policy_id \<times> u64) list \<Rightarrow> (rstr \<times> u64) set \<Rightarrow> cluster_outcome \<Rightarrow> cluster_telemetry \<Rightarrow> cluster_telemetry" where
  "record_outcomes [] seen outcome t = t"
| "record_outcomes ((policy, cluster) # traces) seen outcome t =
     (let key = (policy_as_str policy, cluster) in
      if key \<in> seen then record_outcomes traces seen outcome t
      else record_outcomes traces (insert key seen) outcome (update_entry key (count_outcome outcome) t))"

definition record_outcome :: "(policy_id \<times> u64) list \<Rightarrow> cluster_outcome \<Rightarrow> cluster_telemetry \<Rightarrow> cluster_telemetry" where
  "record_outcome traces outcome t = (if traces = [] then t else record_outcomes traces {} outcome t)"

section \<open>Controls\<close>

definition wilson_bounds :: "nat \<Rightarrow> nat \<Rightarrow> real \<times> real" where
  "wilson_bounds successes failures =
     (let trials = sat_add successes failures in
      if trials = 0 then (0.5, 0.5)
      else
        let n = real trials; phat = real successes / n; z2 = wilson_z * wilson_z; denom = 1 + z2 / n;
            center = (phat + z2 / (2 * n)) / denom;
            margin = sqrt (phat * (1 - phat) / n + z2 / (4 * n * n)) * wilson_z / denom
        in (clamp (center - margin) 0 1, clamp (center + margin) 0 1))"

definition beta_bounds :: "nat \<Rightarrow> nat \<Rightarrow> real \<times> real" where
  "beta_bounds successes failures =
     (let alpha = real successes + 1; beta = real failures + 1; mean = alpha / (alpha + beta);
          variance = (alpha * beta) / ((alpha + beta)\<^sup>2 * (alpha + beta + 1));
          margin = wilson_z * sqrt variance
      in (clamp (mean - margin) 0 1, clamp (mean + margin) 0 1))"

definition controls_for :: "cluster_stats \<Rightarrow> cluster_adaptive \<Rightarrow> certainty_filter_state \<Rightarrow> cluster_controls" where
  "controls_for stats a kalman =
     (if decision_total stats < min_adaptive_decisions then cluster_controls_default
      else
        let decision_ema = clamp (ca_decision_ema a) 0 1; outcome_ema = clamp (ca_outcome_ema a) 0 1;
            combined_ema = decision_ema * 0.45 + outcome_ema * 0.55;
            revert_rate = (if outcome_total stats = 0 then 0 else real (pl_reverted stats) / real (outcome_total stats));
            failures = sat_add (pl_regressed stats) (pl_reverted stats);
            (wilson_lower, wilson_upper) = wilson_bounds (pl_accepted stats) failures;
            (beta_lower, beta_upper) = beta_bounds (pl_accepted stats) failures;
            reliability_lower = min wilson_lower beta_lower;
            reliability_upper = max wilson_upper beta_upper;
            uncertainty = clamp (reliability_upper - reliability_lower) 0 1;
            stability_score = clamp (combined_ema * 0.55 + reliability_lower * 0.45) 0 1
        in \<lparr>cl_enforcement_bias =
              (if stability_score \<ge> cluster_relax_stability kalman \<and> uncertainty < cluster_relax_uncertainty kalman
               then Relax
               else if stability_score \<le> cluster_harden_stability kalman
                 \<or> uncertainty > cluster_harden_uncertainty kalman \<or> revert_rate \<ge> cluster_harden_revert_rate kalman
               then Harden
               else Neutral),
            cl_max_impact_radius_cap =
              (if stability_score < cluster_cap1_stability kalman \<or> reliability_lower < cluster_cap1_reliability kalman
               then Some 1
               else if stability_score < cluster_cap3_stability kalman \<or> uncertainty > cluster_cap3_uncertainty kalman
               then Some 3
               else None)\<rparr>)"

definition adaptive_controls :: "rstr \<Rightarrow> u64 \<Rightarrow> certainty_filter_state \<Rightarrow> cluster_telemetry \<Rightarrow> cluster_controls" where
  "adaptive_controls policy cluster kalman t =
     (let key = (to_ascii_lowercase (trim policy), cluster);
          model = (case tl_read_model t of Some m \<Rightarrow> m | None \<Rightarrow> tl_entries t)
      in case map_of model key of
           None \<Rightarrow> cluster_controls_default
         | Some c \<Rightarrow> controls_for (cc_stats c) (cc_adaptive c) kalman)"

section \<open>Snapshots\<close>

definition snapshot_of :: "(rstr \<times> u64) \<times> cluster_combined \<Rightarrow> snapshot_entry" where
  "snapshot_of entry =
     (let ((policy, cluster), c) = entry in
      \<lparr>pe_policy = policy_from_str_lossy policy, pe_cluster = cluster,
       pe_stats = write_adaptive_hints (cc_adaptive c) (cc_stats c)\<rparr>)"

definition entry_order :: "snapshot_entry \<Rightarrow> policy_id \<times> u64" where
  "entry_order e = (pe_policy e, pe_cluster e)"

definition snapshot_entries :: "cluster_telemetry \<Rightarrow> snapshot_entry list" where
  "snapshot_entries t = sort_key entry_order (map snapshot_of (tl_entries t))"

definition merge_counts :: "cluster_stats \<Rightarrow> cluster_stats \<Rightarrow> cluster_stats" where
  "merge_counts new s =
     s\<lparr>pl_decisions := sat_add (pl_decisions s) (pl_decisions new), pl_apply := sat_add (pl_apply s) (pl_apply new),
       pl_apply_partial := sat_add (pl_apply_partial s) (pl_apply_partial new),
       pl_advisory_only := sat_add (pl_advisory_only s) (pl_advisory_only new),
       pl_block := sat_add (pl_block s) (pl_block new), pl_accepted := sat_add (pl_accepted s) (pl_accepted new),
       pl_regressed := sat_add (pl_regressed s) (pl_regressed new), pl_reverted := sat_add (pl_reverted s) (pl_reverted new)\<rparr>"

definition merge_combined :: "cluster_stats \<Rightarrow> cluster_combined \<Rightarrow> cluster_combined" where
  "merge_combined new c =
     \<lparr>cc_stats = merge_counts new (cc_stats c), cc_adaptive = merge_adaptive_state new (cc_adaptive c)\<rparr>"

definition merge_entry :: "snapshot_entry \<Rightarrow> cluster_telemetry \<Rightarrow> cluster_telemetry" where
  "merge_entry e t =
     (if trim (policy_as_str (pe_policy e)) = [] then t
      else update_entry (policy_as_str (pe_policy e), pe_cluster e) (merge_combined (pe_stats e)) t)"

definition merge_entries :: "snapshot_entry list \<Rightarrow> cluster_telemetry \<Rightarrow> cluster_telemetry" where
  "merge_entries entries t = fold merge_entry entries t"

definition load_entries :: "snapshot_entry list \<Rightarrow> cluster_telemetry \<Rightarrow> cluster_telemetry" where
  "load_entries entries t = merge_entries entries (telemetry_reset t)"

section \<open>The delta a worker sends\<close>

definition diff_policy_cluster_stats :: "cluster_stats \<Rightarrow> cluster_stats option \<Rightarrow> cluster_stats" where
  "diff_policy_cluster_stats current baseline =
     (let base = unwrap_or baseline cluster_stats_default in
      \<lparr>pl_decisions = pl_decisions current - pl_decisions base, pl_apply = pl_apply current - pl_apply base,
       pl_apply_partial = pl_apply_partial current - pl_apply_partial base,
       pl_advisory_only = pl_advisory_only current - pl_advisory_only base,
       pl_block = pl_block current - pl_block base, pl_accepted = pl_accepted current - pl_accepted base,
       pl_regressed = pl_regressed current - pl_regressed base, pl_reverted = pl_reverted current - pl_reverted base,
       pl_decision_ema_bp = 0, pl_outcome_ema_bp = 0, pl_decision_events = 0, pl_outcome_events = 0\<rparr>)"

definition policy_cluster_stats_has_signal :: "cluster_stats \<Rightarrow> bool" where
  "policy_cluster_stats_has_signal s \<longleftrightarrow>
     pl_decisions s > 0 \<or> pl_apply s > 0 \<or> pl_apply_partial s > 0 \<or> pl_advisory_only s > 0 \<or> pl_block s > 0
       \<or> pl_accepted s > 0 \<or> pl_regressed s > 0 \<or> pl_reverted s > 0 \<or> pl_decision_events s > 0 \<or> pl_outcome_events s > 0"

definition diff_policy_cluster_entries :: "snapshot_entry list \<Rightarrow> snapshot_entry list \<Rightarrow> snapshot_entry list" where
  "diff_policy_cluster_entries baseline current =
     (let baseline_map = map_of (rev (map (\<lambda>e. (entry_order e, pe_stats e)) baseline));
          delta = map (\<lambda>e. e\<lparr>pe_stats := diff_policy_cluster_stats (pe_stats e) (baseline_map (entry_order e))\<rparr>) current
      in sort_key entry_order (filter (\<lambda>e. policy_cluster_stats_has_signal (pe_stats e)) delta))"

section \<open>Recording keeps the averages in range\<close>

definition key_ok :: "rstr \<times> u64 \<Rightarrow> bool" where
  "key_ok k \<longleftrightarrow> to_ascii_lowercase (trim (fst k)) = fst k \<and> fst k \<noteq> []"

definition adaptive_ok :: "cluster_combined \<Rightarrow> bool" where
  "adaptive_ok c \<longleftrightarrow>
     (let s = cc_stats c; a = cc_adaptive c in
      0 \<le> ca_decision_ema a \<and> ca_decision_ema a \<le> 1 \<and> 0 \<le> ca_outcome_ema a \<and> ca_outcome_ema a \<le> 1
      \<and> (ca_decision_events a = 0 \<longrightarrow> ca_decision_ema a = 1 / 2 \<and> decision_total s = 0)
      \<and> (ca_outcome_events a = 0 \<longrightarrow> ca_outcome_ema a = 1 / 2 \<and> outcome_total s = 0)
      \<and> ca_decision_events a \<le> u64_max \<and> ca_outcome_events a \<le> u64_max)"

definition counters :: "cluster_combined \<Rightarrow> nat list" where
  "counters c = (let s = cc_stats c in
     [pl_decisions s, pl_apply s, pl_apply_partial s, pl_advisory_only s, pl_block s, pl_accepted s, pl_regressed s, pl_reverted s])"

definition counts_bounded :: "cluster_combined \<Rightarrow> bool" where
  "counts_bounded c \<longleftrightarrow> list_all (\<lambda>n. n \<le> u64_max) (counters c)"

definition telemetry_ok :: "cluster_telemetry \<Rightarrow> bool" where
  "telemetry_ok t \<longleftrightarrow> distinct (map fst (tl_entries t))
     \<and> list_all (\<lambda>(k, c). key_ok k \<and> adaptive_ok c \<and> counts_bounded c) (tl_entries t)"

definition store_ok :: "cluster_telemetry \<Rightarrow> bool" where
  "store_ok t \<longleftrightarrow> distinct (map fst (tl_entries t))
     \<and> list_all (\<lambda>(k, c). key_ok k \<and> counts_bounded c) (tl_entries t)"

inductive records :: "cluster_telemetry \<Rightarrow> cluster_telemetry \<Rightarrow> bool" where
  records_none: "records t t"
| records_decision: "records t t1 \<Longrightarrow> trim policy \<noteq> [] \<Longrightarrow> records t (record_decision policy cluster outcome t1)"
| records_outcome: "records t t1 \<Longrightarrow> list_all (\<lambda>(policy, cluster). key_ok (policy_as_str policy, cluster)) traces
    \<Longrightarrow> records t (record_outcome traces outcome t1)"
| records_begin: "records t t1 \<Longrightarrow> records t (begin_read_model t1)"
| records_clear: "records t t1 \<Longrightarrow> records t (clear_read_model t1)"

definition empty_telemetry :: cluster_telemetry where
  "empty_telemetry = \<lparr>tl_entries = [], tl_read_model = None\<rparr>"

definition lookup :: "cluster_telemetry \<Rightarrow> rstr \<times> u64 \<Rightarrow> cluster_combined" where
  "lookup t k = unwrap_or (map_of (tl_entries t) k) cluster_combined_default"

lemma u64_max_pos [simp]: "0 < u64_max" "Suc 0 \<le> u64_max" by (simp_all add: u64_max_def)

lemma sat_add_le [simp]: "sat_add a b \<le> u64_max" by (simp add: sat_add_def)
lemma sat_add_0 [simp]: "sat_add 0 a = min a u64_max" "sat_add a 0 = min a u64_max" by (simp_all add: sat_add_def)
lemma sat_add_eq_0 [simp]: "sat_add a b = 0 \<longleftrightarrow> a = 0 \<and> b = 0" by (auto simp: sat_add_def min_def u64_max_def)

lemma key_ok_normal: "trim policy \<noteq> [] \<Longrightarrow> key_ok (to_ascii_lowercase (trim policy), cluster)"
  using policy_as_str_from_str_lossy [of "to_ascii_lowercase (trim policy)"] policy_from_str_lossy_normalized [of policy]
  by (simp add: key_ok_def policy_as_str_from_str_lossy) (simp add: to_ascii_lowercase_def)

lemma key_ok_id: "key_ok (p, c) \<Longrightarrow> policy_as_str (policy_from_str_lossy p) = p"
  by (simp add: key_ok_def policy_as_str_from_str_lossy)

lemma key_ok_trim: "key_ok (p, c) \<Longrightarrow> trim p \<noteq> []"
  by (auto simp: key_ok_def to_ascii_lowercase_def)

lemma ema_step_range: "0 \<le> ema_step x a y" "ema_step x a y \<le> 1"
  by (simp_all add: ema_step_def Let_def clamp_range)

lemma default_ok: "adaptive_ok cluster_combined_default" "counts_bounded cluster_combined_default"
  by (simp_all add: adaptive_ok_def counts_bounded_def counters_def cluster_combined_default_def cluster_adaptive_default_def
      cluster_stats_default_def decision_total_def outcome_total_def Let_def)

lemma count_decision_ok:
  "adaptive_ok c \<Longrightarrow> adaptive_ok (count_decision outcome c)" "counts_bounded c \<Longrightarrow> counts_bounded (count_decision outcome c)"
  by (cases outcome; auto simp: adaptive_ok_def count_decision_def apply_ema_sample_def Let_def ema_step_range
      decision_total_def outcome_total_def counts_bounded_def counters_def)+

lemma count_outcome_ok:
  "adaptive_ok c \<Longrightarrow> adaptive_ok (count_outcome outcome c)" "counts_bounded c \<Longrightarrow> counts_bounded (count_outcome outcome c)"
  by (cases outcome; auto simp: adaptive_ok_def count_outcome_def apply_ema_sample_def Let_def ema_step_range
      decision_total_def outcome_total_def counts_bounded_def counters_def)+

lemma update_entry_ok:
  assumes "telemetry_ok t" "key_ok k" "\<And>c. adaptive_ok c \<Longrightarrow> counts_bounded c \<Longrightarrow> adaptive_ok (f c) \<and> counts_bounded (f c)"
  shows "telemetry_ok (update_entry k f t)"
proof -
  have "list_all (\<lambda>(k, c). key_ok k \<and> adaptive_ok c \<and> counts_bounded c) (entry_update k cluster_combined_default f es)"
    if "list_all (\<lambda>(k, c). key_ok k \<and> adaptive_ok c \<and> counts_bounded c) es" for es
    using that assms(2,3) default_ok by (induction es) auto
  with assms(1) show ?thesis by (simp add: telemetry_ok_def update_entry_def)
qed

lemma telemetry_store_ok: "telemetry_ok t \<Longrightarrow> store_ok t"
  by (auto simp: telemetry_ok_def store_ok_def list_all_iff)

lemma update_entry_store_ok:
  assumes "store_ok t" "key_ok k" "\<And>c. counts_bounded c \<Longrightarrow> counts_bounded (f c)"
  shows "store_ok (update_entry k f t)"
proof -
  have "list_all (\<lambda>(k, c). key_ok k \<and> counts_bounded c) (entry_update k cluster_combined_default f es)"
    if "list_all (\<lambda>(k, c). key_ok k \<and> counts_bounded c) es" for es
    using that assms(2,3) default_ok by (induction es) auto
  with assms(1) show ?thesis by (simp add: store_ok_def update_entry_def)
qed

lemma read_model_frames [simp]:
  "telemetry_ok (begin_read_model t) = telemetry_ok t" "telemetry_ok (clear_read_model t) = telemetry_ok t"
  "store_ok (begin_read_model t) = store_ok t" "store_ok (clear_read_model t) = store_ok t"
  "lookup (begin_read_model t) k = lookup t k" "lookup (clear_read_model t) k = lookup t k"
  by (simp_all add: telemetry_ok_def store_ok_def lookup_def begin_read_model_def clear_read_model_def)

lemma lookup_update_entry: "lookup (update_entry k f t) k' = (if k' = k then f (lookup t k) else lookup t k')"
  by (simp add: lookup_def update_entry_def map_of_entry_update unwrap_or_def)

lemma record_outcomes_induct:
  assumes "P t" "\<And>k t. k \<in> (\<lambda>(p, c). (policy_as_str p, c)) ` set traces \<Longrightarrow> P t \<Longrightarrow> P (update_entry k (count_outcome outcome) t)"
  shows "P (record_outcomes traces seen outcome t)"
  using assms by (induction traces seen outcome t rule: record_outcomes.induct) (auto simp: Let_def)

lemma records_telemetry_ok: "records t0 t \<Longrightarrow> telemetry_ok t0 \<Longrightarrow> telemetry_ok t"
proof (induction rule: records.induct)
  case (records_decision t t1 policy cluster outcome)
  then show ?case
    by (simp add: record_decision_def update_entry_ok key_ok_normal count_decision_ok)
next
  case (records_outcome t t1 traces outcome)
  have "telemetry_ok (record_outcomes traces {} outcome t1)"
  proof (rule record_outcomes_induct)
    fix key u assume key: "key \<in> (\<lambda>(p, c). (policy_as_str p, c)) ` set traces" and u: "telemetry_ok u"
    have "key_ok key" using key records_outcome.hyps(2) by (auto simp: list_all_iff)
    with u show "telemetry_ok (update_entry key (count_outcome outcome) u)"
      by (rule update_entry_ok) (simp add: count_outcome_ok)
  qed (use records_outcome in simp)
  with records_outcome show ?case by (simp add: record_outcome_def)
qed simp_all

definition counters_le :: "cluster_combined \<Rightarrow> cluster_combined \<Rightarrow> bool" where
  "counters_le c d \<longleftrightarrow> list_all2 (\<le>) (counters c) (counters d)"

lemma le_sat_add: "n \<le> u64_max \<Longrightarrow> n \<le> sat_add n (Suc 0)" by (simp add: sat_add_def)

lemma counters_le_step:
  "counts_bounded c \<Longrightarrow> counters_le c (count_decision o1 c)" "counts_bounded c \<Longrightarrow> counters_le c (count_outcome o2 c)"
  by (cases o1; simp add: counters_le_def counters_def counts_bounded_def count_decision_def Let_def le_sat_add;
      cases o2; simp add: counters_le_def counters_def counts_bounded_def count_outcome_def Let_def le_sat_add)+

lemma counters_le_trans: "counters_le a b \<Longrightarrow> counters_le b c \<Longrightarrow> counters_le a c"
  unfolding counters_le_def by (rule list_all2_trans) auto

lemma counters_le_refl: "counters_le c c" by (simp add: counters_le_def list_all2_refl)

lemma telemetry_ok_lookup: "telemetry_ok t \<Longrightarrow> adaptive_ok (lookup t k) \<and> counts_bounded (lookup t k)"
  using default_ok by (auto simp: lookup_def unwrap_or_def telemetry_ok_def list_all_iff split: option.split dest!: map_of_SomeD)

lemma store_ok_lookup: "store_ok t \<Longrightarrow> counts_bounded (lookup t k)"
  using default_ok by (auto simp: lookup_def unwrap_or_def store_ok_def list_all_iff split: option.split dest!: map_of_SomeD)

lemma records_store_ok:
  "records t0 t \<Longrightarrow> store_ok t0 \<Longrightarrow> store_ok t \<and> (\<forall>k. counters_le (lookup t0 k) (lookup t k))"
proof (induction rule: records.induct)
  case (records_decision t t1 policy cluster outcome)
  then have t1: "store_ok t1" "counters_le (lookup t k) (lookup t1 k)" for k by blast+
  have "store_ok (record_decision policy cluster outcome t1)"
    using t1(1) records_decision.hyps by (simp add: record_decision_def update_entry_store_ok key_ok_normal count_decision_ok)
  moreover have "counters_le (lookup t1 k) (lookup (record_decision policy cluster outcome t1) k)" for k
    by (simp add: record_decision_def lookup_update_entry counters_le_refl counters_le_step(1) [OF store_ok_lookup [OF t1(1)]])
  ultimately show ?case using t1(2) counters_le_trans by blast
next
  case (records_outcome t t1 traces outcome)
  have "store_ok (record_outcomes traces {} outcome t1)
      \<and> (\<forall>k. counters_le (lookup t k) (lookup (record_outcomes traces {} outcome t1) k))"
  proof (rule record_outcomes_induct)
    fix key u assume key: "key \<in> (\<lambda>(p, c). (policy_as_str p, c)) ` set traces"
      and u: "store_ok u \<and> (\<forall>k. counters_le (lookup t k) (lookup u k))"
    have "store_ok (update_entry key (count_outcome outcome) u)"
      by (rule update_entry_store_ok) (use u key records_outcome.hyps(2) in \<open>auto simp: list_all_iff count_outcome_ok\<close>)
    moreover have "counters_le (lookup u k) (lookup (update_entry key (count_outcome outcome) u) k)" for k
      using u by (simp add: lookup_update_entry counters_le_refl counters_le_step(2) store_ok_lookup)
    ultimately show "store_ok (update_entry key (count_outcome outcome) u)
        \<and> (\<forall>k. counters_le (lookup t k) (lookup (update_entry key (count_outcome outcome) u) k))"
      using u counters_le_trans by blast
  qed (use records_outcome in simp)
  with records_outcome show ?case by (cases "traces = []") (simp_all add: record_outcome_def)
qed (simp_all add: counters_le_refl)

section \<open>Reloading and merging\<close>

definition entry_key :: "snapshot_entry \<Rightarrow> rstr \<times> u64" where
  "entry_key e = (policy_as_str (pe_policy e), pe_cluster e)"

lemma merge_entries_lookup:
  assumes "distinct (map entry_key es)" "list_all (\<lambda>e. key_ok (entry_key e)) es"
  shows "map_of (tl_entries (merge_entries es t)) k =
     (case map_of (map (\<lambda>e. (entry_key e, pe_stats e)) es) k of
        None \<Rightarrow> map_of (tl_entries t) k
      | Some s \<Rightarrow> Some (merge_combined s (lookup t k)))"
  using assms
proof (induction es arbitrary: t)
  case (Cons e es)
  have e: "trim (policy_as_str (pe_policy e)) \<noteq> []"
    using Cons.prems(2) key_ok_trim by (auto simp: entry_key_def)
  then have t: "merge_entry e t = update_entry (entry_key e) (merge_combined (pe_stats e)) t"
    by (simp add: merge_entry_def entry_key_def)
  have notin: "map_of (map (\<lambda>e. (entry_key e, pe_stats e)) es) (entry_key e) = None"
    using Cons.prems(1) by (auto simp: map_of_eq_None_iff)
  have "map_of (tl_entries (merge_entries (e # es) t)) k = (case map_of (map (\<lambda>e. (entry_key e, pe_stats e)) es) k of
        None \<Rightarrow> map_of (tl_entries (merge_entry e t)) k
      | Some s \<Rightarrow> Some (merge_combined s (lookup (merge_entry e t) k)))"
    using Cons.IH [of "merge_entry e t"] Cons.prems by (simp add: merge_entries_def)
  then show ?case
    using notin by (auto simp: t lookup_update_entry update_entry_def map_of_entry_update lookup_def split: option.split)
qed (simp add: merge_entries_def)

lemma entry_key_snapshot: "key_ok k \<Longrightarrow> entry_key (snapshot_of (k, c)) = k"
  by (cases k) (simp add: entry_key_def snapshot_of_def key_ok_id)

lemma snapshot_of_stats: "pe_stats (snapshot_of (k, c)) = write_adaptive_hints (cc_adaptive c) (cc_stats c)"
  by (cases k) (simp add: snapshot_of_def)

lemma snapshot_entry_keys:
  assumes "store_ok t"
  shows "distinct (map entry_key (snapshot_entries t))" "list_all (\<lambda>e. key_ok (entry_key e)) (snapshot_entries t)"
proof -
  have keys: "map entry_key (map snapshot_of (tl_entries t)) = map fst (tl_entries t)"
    using assms by (auto simp: store_ok_def list_all_iff entry_key_snapshot)
  have "distinct (map entry_key (map snapshot_of (tl_entries t)))" using assms unfolding keys by (simp add: store_ok_def)
  then show "distinct (map entry_key (snapshot_entries t))"
    unfolding snapshot_entries_def distinct_map [of entry_key] by simp
  show "list_all (\<lambda>e. key_ok (entry_key e)) (snapshot_entries t)"
    using assms by (auto simp: snapshot_entries_def store_ok_def list_all_iff entry_key_snapshot)
qed

lemma snapshot_lookup:
  assumes "store_ok t"
  shows "map_of (map (\<lambda>e. (entry_key e, pe_stats e)) (snapshot_entries t)) k
     = map_option (\<lambda>c. write_adaptive_hints (cc_adaptive c) (cc_stats c)) (map_of (tl_entries t) k)"
proof -
  have "map_of (map (\<lambda>e. (entry_key e, pe_stats e)) (snapshot_entries t))
      = map_of (map (\<lambda>(k, c). (k, write_adaptive_hints (cc_adaptive c) (cc_stats c))) (tl_entries t))"
  proof (subst map_of_inject_set)
    show "distinct (map fst (map (\<lambda>e. (entry_key e, pe_stats e)) (snapshot_entries t)))"
      using snapshot_entry_keys [OF assms] by (simp add: comp_def)
    show "distinct (map fst (map (\<lambda>(k, c). (k, write_adaptive_hints (cc_adaptive c) (cc_stats c))) (tl_entries t)))"
      using assms by (simp add: store_ok_def comp_def split_def)
    show "set (map (\<lambda>e. (entry_key e, pe_stats e)) (snapshot_entries t))
        = set (map (\<lambda>(k, c). (k, write_adaptive_hints (cc_adaptive c) (cc_stats c))) (tl_entries t))"
      using assms
      by (force simp: snapshot_entries_def store_ok_def list_all_iff entry_key_snapshot snapshot_of_stats)
  qed
  then show ?thesis by (simp add: map_of_map)
qed

lemma bp_error: "0 \<le> x \<Longrightarrow> x \<le> 1 \<Longrightarrow> \<bar>bp_to_ema (ema_to_bp x) - x\<bar> \<le> 1 / 20000"
proof -
  assume x: "0 \<le> x" "x \<le> 1"
  define n where "n = \<lfloor>x * 10000 + 1 / 2\<rfloor>"
  have n: "real_of_int n \<le> x * 10000 + 1 / 2" "x * 10000 + 1 / 2 < real_of_int n + 1" "0 \<le> n"
    using x by (auto simp: n_def)
  then have "real_of_int n < 10001" using x by linarith
  then have "n \<le> 10000" by linarith
  moreover have "ema_to_bp x = nat n" using x by (simp add: ema_to_bp_def clamp_def n_def)
  ultimately have "bp_to_ema (ema_to_bp x) = real_of_int n / 10000" using n(3) by (simp add: bp_to_ema_def clamp_def)
  with n show "\<bar>bp_to_ema (ema_to_bp x) - x\<bar> \<le> 1 / 20000" by linarith
qed

lemma bp_range: "0 \<le> bp_to_ema n" "bp_to_ema n \<le> 1" by (simp_all add: bp_to_ema_def clamp_range)

definition close_to :: "cluster_combined \<Rightarrow> cluster_combined \<Rightarrow> bool" where
  "close_to c d \<longleftrightarrow> counters c = counters d
     \<and> ca_decision_events (cc_adaptive c) = ca_decision_events (cc_adaptive d)
     \<and> ca_outcome_events (cc_adaptive c) = ca_outcome_events (cc_adaptive d)
     \<and> \<bar>ca_decision_ema (cc_adaptive c) - ca_decision_ema (cc_adaptive d)\<bar> \<le> 1 / 20000
     \<and> \<bar>ca_outcome_ema (cc_adaptive c) - ca_outcome_ema (cc_adaptive d)\<bar> \<le> 1 / 20000"

lemma clamp_id: "0 \<le> x \<Longrightarrow> x \<le> 1 \<Longrightarrow> clamp x 0 1 = x" by (simp add: clamp_def)

lemma reload_combined:
  assumes "adaptive_ok c" "counts_bounded c"
  shows "close_to (merge_combined (write_adaptive_hints (cc_adaptive c) (cc_stats c)) cluster_combined_default) c"
proof -
  let ?s = "write_adaptive_hints (cc_adaptive c) (cc_stats c)"
  let ?m = "merge_combined ?s cluster_combined_default"
  note a = assms(1) [unfolded adaptive_ok_def Let_def]
  have counts: "counters ?m = counters c"
    using assms(2)
    by (simp add: counters_def counts_bounded_def merge_combined_def merge_counts_def write_adaptive_hints_def
        cluster_combined_default_def cluster_stats_default_def Let_def)
  show ?thesis
  proof (cases "has_adaptive_hints ?s")
    case True
    then have "cc_adaptive ?m = blend_adaptive (adaptive_from_hints ?s) cluster_adaptive_default"
      by (simp add: merge_combined_def merge_adaptive_state_def cluster_combined_default_def)
    with a counts bp_error bp_range show ?thesis
      by (simp add: close_to_def blend_adaptive_def weighted_mean_def cluster_adaptive_default_def adaptive_from_hints_def
          write_adaptive_hints_def clamp_id)
  next
    case False
    then have none: "ca_decision_events (cc_adaptive c) = 0" "ca_outcome_events (cc_adaptive c) = 0"
      by (auto simp: has_adaptive_hints_def write_adaptive_hints_def)
    then have "decision_total ?s = 0" "outcome_total ?s = 0"
      using a by (simp_all add: decision_total_def outcome_total_def write_adaptive_hints_def)
    then have "cc_adaptive ?m = cluster_adaptive_default"
      using False by (simp add: merge_combined_def merge_adaptive_state_def apply_stats_batch_def cluster_combined_default_def Let_def)
    with a none counts show ?thesis by (simp add: close_to_def cluster_adaptive_default_def)
  qed
qed

text \<open>
  What recording has learned survives a save and a load: the reloaded state has the same
  policies and clusters, the same counters and event counts, and both moving averages up to half a
  basis point.
\<close>

theorem learning_survives_reload:
  assumes "records empty_telemetry t"
  shows "case map_of (tl_entries t) k of
      None \<Rightarrow> map_of (tl_entries (load_entries (snapshot_entries t) t')) k = None
    | Some c \<Rightarrow> (case map_of (tl_entries (load_entries (snapshot_entries t) t')) k of
          None \<Rightarrow> False | Some d \<Rightarrow> close_to d c)"
proof -
  have ok: "telemetry_ok t"
    using assms by (rule records_telemetry_ok) (simp add: telemetry_ok_def empty_telemetry_def)
  have eq: "map_of (tl_entries (load_entries (snapshot_entries t) t')) k
      = map_option (\<lambda>c. merge_combined (write_adaptive_hints (cc_adaptive c) (cc_stats c)) cluster_combined_default)
          (map_of (tl_entries t) k)"
    unfolding load_entries_def
    by (subst merge_entries_lookup [OF snapshot_entry_keys [OF telemetry_store_ok [OF ok]]])
       (simp add: snapshot_lookup [OF telemetry_store_ok [OF ok]] telemetry_reset_def lookup_def split: option.split)
  show ?thesis
  proof (cases "map_of (tl_entries t) k")
    case (Some c)
    then have "adaptive_ok c \<and> counts_bounded c"
      using telemetry_ok_lookup [OF ok, of k] by (simp add: lookup_def)
    with Some reload_combined show ?thesis by (simp add: eq)
  qed (simp add: eq)
qed

definition sample_learning :: cluster_telemetry where
  "sample_learning = record_outcome [(ClangFormat, 7)] Accepted (record_decision ''clang_format'' 7 Apply empty_telemetry)"

lemma sample_name: "trim ''clang_format'' = ''clang_format''" "to_ascii_lowercase ''clang_format'' = ''clang_format''"
  by code_simp+

lemma sample_key: "key_ok (''clang_format'', c)"
  by (simp only: key_ok_def fst_conv sample_name) simp

lemma sample_learning_records: "records empty_telemetry sample_learning"
  unfolding sample_learning_def
  by (intro records_outcome records_decision records_none) (simp_all add: sample_key sample_name)

theorem learning_survives_reload_witness:
  "case map_of (tl_entries sample_learning) (''clang_format'', 7) of
      None \<Rightarrow> map_of (tl_entries (load_entries (snapshot_entries sample_learning) empty_telemetry)) (''clang_format'', 7) = None
    | Some c \<Rightarrow> (case map_of (tl_entries (load_entries (snapshot_entries sample_learning) empty_telemetry)) (''clang_format'', 7) of
          None \<Rightarrow> False | Some d \<Rightarrow> close_to d c)"
  by (rule learning_survives_reload [OF sample_learning_records])

lemma order_lookup:
  assumes "store_ok t" "key_ok (p, c)"
  shows "map_of (rev (map (\<lambda>e. (entry_order e, pe_stats e)) (snapshot_entries t))) (policy_from_str_lossy p, c)
     = map_of (map (\<lambda>e. (entry_key e, pe_stats e)) (snapshot_entries t)) (p, c)"
proof -
  have inj: "entry_order e = entry_order e' \<longleftrightarrow> entry_key e = entry_key e'"
    if "e \<in> set (snapshot_entries t)" "e' \<in> set (snapshot_entries t)" for e e'
  proof -
    have "pe_policy x = policy_from_str_lossy (policy_as_str (pe_policy x))" if "x \<in> set (snapshot_entries t)" for x
      using that assms(1)
      by (auto simp: snapshot_entries_def snapshot_of_def store_ok_def list_all_iff key_ok_id)
    with that show ?thesis by (auto simp: entry_order_def entry_key_def) metis
  qed
  have at: "entry_order e = (policy_from_str_lossy p, c) \<longleftrightarrow> entry_key e = (p, c)" if "e \<in> set (snapshot_entries t)" for e
    using that assms by (auto simp: entry_order_def entry_key_def key_ok_id snapshot_entries_def snapshot_of_def
        store_ok_def list_all_iff)
  have "distinct (map entry_order (snapshot_entries t))"
    using snapshot_entry_keys(1) [OF assms(1)] inj by (simp add: distinct_map inj_on_def)
  then have rev: "map_of (rev (map (\<lambda>e. (entry_order e, pe_stats e)) (snapshot_entries t)))
      = map_of (map (\<lambda>e. (entry_order e, pe_stats e)) (snapshot_entries t))"
    by (subst map_of_inject_set) (auto simp: comp_def rev_map [symmetric])
  have "map_of (map (\<lambda>e. (entry_order e, pe_stats e)) es) (policy_from_str_lossy p, c)
      = map_of (map (\<lambda>e. (entry_key e, pe_stats e)) es) (p, c)" if "set es \<subseteq> set (snapshot_entries t)" for es
    using that
  proof (induction es)
    case (Cons e es)
    then show ?case using at [of e] by (cases "entry_key e = (p, c)") auto
  qed simp
  then show ?thesis by (simp add: rev)
qed

lemma diff_lookup:
  fixes t0 t1
  defines "es \<equiv> diff_policy_cluster_entries (snapshot_entries t0) (snapshot_entries t1)"
  assumes ok: "store_ok t0" "store_ok t1"
  shows "distinct (map entry_key es)" "list_all (\<lambda>e. key_ok (entry_key e)) es"
    "map_of (map (\<lambda>e. (entry_key e, pe_stats e)) es) k =
       (case map_of (tl_entries t1) k of
          None \<Rightarrow> None
        | Some d \<Rightarrow>
            let ds = diff_policy_cluster_stats (write_adaptive_hints (cc_adaptive d) (cc_stats d))
                  (map_option (\<lambda>c. write_adaptive_hints (cc_adaptive c) (cc_stats c)) (map_of (tl_entries t0) k))
            in if policy_cluster_stats_has_signal ds then Some ds else None)"
proof -
  let ?m = "map_of (rev (map (\<lambda>e. (entry_order e, pe_stats e)) (snapshot_entries t0)))"
  let ?f = "\<lambda>e. e\<lparr>pe_stats := diff_policy_cluster_stats (pe_stats e) (?m (entry_order e))\<rparr>"
  let ?g = "\<lambda>e. policy_cluster_stats_has_signal (pe_stats e)"
  let ?s1 = "snapshot_entries t1"
  let ?plain = "filter ?g (map ?f ?s1)"
  have es: "es = sort_key entry_order ?plain" by (simp add: es_def diff_policy_cluster_entries_def Let_def)
  have key: "entry_key (e\<lparr>pe_stats := s\<rparr>) = entry_key e" for e s by (simp add: entry_key_def)
  have "distinct (map entry_key (map ?f ?s1))" using snapshot_entry_keys(1) [OF ok(2)] by (simp add: comp_def key)
  then have plain: "distinct (map entry_key ?plain)" by (rule distinct_map_filter)
  then show d: "distinct (map entry_key es)" unfolding es distinct_map [of entry_key] by simp
  show "list_all (\<lambda>e. key_ok (entry_key e)) es"
    using snapshot_entry_keys(2) [OF ok(2)] by (auto simp: es list_all_iff entry_key_def)
  have "map_of (map (\<lambda>e. (entry_key e, pe_stats e)) es) = map_of (map (\<lambda>e. (entry_key e, pe_stats e)) ?plain)"
    by (subst map_of_inject_set) (use d plain in \<open>simp_all add: comp_def es\<close>)
  moreover have "map_of (map (\<lambda>e. (entry_key e, pe_stats e)) ?plain) k
      = (case map_of (map (\<lambda>e. (entry_key e, pe_stats e)) ?s1) k of None \<Rightarrow> None
         | Some s \<Rightarrow> let ds = diff_policy_cluster_stats s (?m (policy_from_str_lossy (fst k), snd k))
                    in if policy_cluster_stats_has_signal ds then Some ds else None)"
  proof -
    have "map_of (map (\<lambda>e. (entry_key e, pe_stats e)) (filter ?g (map ?f xs))) k
      = (case map_of (map (\<lambda>e. (entry_key e, pe_stats e)) xs) k of None \<Rightarrow> None
         | Some s \<Rightarrow> let ds = diff_policy_cluster_stats s (?m (policy_from_str_lossy (fst k), snd k))
                    in if policy_cluster_stats_has_signal ds then Some ds else None)"
      if "set xs \<subseteq> set ?s1" "distinct (map entry_key xs)" for xs
      using that
    proof (induction xs)
      case (Cons e xs)
      have order: "entry_order e = (policy_from_str_lossy (fst (entry_key e)), snd (entry_key e))"
        using Cons.prems(1) ok(2)
        by (auto simp: entry_order_def entry_key_def snapshot_entries_def snapshot_of_def store_ok_def list_all_iff key_ok_id)
      have "map_of (map (\<lambda>e. (entry_key e, pe_stats e)) xs) (entry_key e) = None"
        using Cons.prems(2) by (auto simp: map_of_eq_None_iff)
      with Cons show ?case
        by (cases "k = entry_key e") (auto simp: key order Let_def)
    qed simp
    then show ?thesis using snapshot_entry_keys(1) [OF ok(2)] by blast
  qed
  ultimately have eq: "map_of (map (\<lambda>e. (entry_key e, pe_stats e)) es) k
      = (case map_option (\<lambda>c. write_adaptive_hints (cc_adaptive c) (cc_stats c)) (map_of (tl_entries t1) k) of None \<Rightarrow> None
         | Some s \<Rightarrow> let ds = diff_policy_cluster_stats s (?m (policy_from_str_lossy (fst k), snd k))
                    in if policy_cluster_stats_has_signal ds then Some ds else None)"
    by (simp only: snapshot_lookup [OF ok(2)])
  show "map_of (map (\<lambda>e. (entry_key e, pe_stats e)) es) k =
       (case map_of (tl_entries t1) k of
          None \<Rightarrow> None
        | Some d \<Rightarrow>
            let ds = diff_policy_cluster_stats (write_adaptive_hints (cc_adaptive d) (cc_stats d))
                  (map_option (\<lambda>c. write_adaptive_hints (cc_adaptive c) (cc_stats c)) (map_of (tl_entries t0) k))
            in if policy_cluster_stats_has_signal ds then Some ds else None)"
  proof (cases "map_of (tl_entries t1) k")
    case (Some d)
    then have "key_ok k" using ok(2) by (auto simp: store_ok_def list_all_iff dest!: map_of_SomeD)
    then have "?m (policy_from_str_lossy (fst k), snd k)
        = map_option (\<lambda>c. write_adaptive_hints (cc_adaptive c) (cc_stats c)) (map_of (tl_entries t0) k)"
      using order_lookup [OF ok(1), of "fst k" "snd k"] snapshot_lookup [OF ok(1), of k] by simp
    with Some eq show ?thesis by simp
  qed (simp add: eq)
qed

section \<open>Several workers\<close>

text \<open>
  The states a process of the formatter can be in: it starts empty, loads the learning of the
  project graph (graph_refresh.rs, \<open>seed_learning_state_from_project_graph\<close>), records, and merges
  what other processes send.  The policy of an entry is always one some name is read as.
\<close>

inductive learned :: "cluster_telemetry \<Rightarrow> bool" where
  learned_empty: "learned empty_telemetry"
| learned_load: "learned t \<Longrightarrow> list_all (\<lambda>e. canonical_policy (pe_policy e)) es \<Longrightarrow> learned (load_entries es t)"
| learned_merge: "learned t \<Longrightarrow> list_all (\<lambda>e. canonical_policy (pe_policy e)) es \<Longrightarrow> learned (merge_entries es t)"
| learned_records: "learned t \<Longrightarrow> records t t1 \<Longrightarrow> learned t1"

text \<open>What a worker sends after a batch (worker.rs): the difference of the snapshots before and after it.\<close>

definition worker_delta :: "cluster_telemetry \<times> cluster_telemetry \<Rightarrow> snapshot_entry list" where
  "worker_delta batch = diff_policy_cluster_entries (snapshot_entries (fst batch)) (snapshot_entries (snd batch))"

definition merge_batches ::
    "(cluster_telemetry \<times> cluster_telemetry) list \<Rightarrow> cluster_telemetry \<Rightarrow> cluster_telemetry" where
  "merge_batches batches t = fold (\<lambda>batch. merge_entries (worker_delta batch)) batches t"

definition counter_fields :: "(cluster_stats \<Rightarrow> nat) list" where
  "counter_fields = [pl_decisions, pl_apply, pl_apply_partial, pl_advisory_only, pl_block, pl_accepted, pl_regressed, pl_reverted]"

definition count_of :: "(cluster_stats \<Rightarrow> nat) \<Rightarrow> rstr \<times> u64 \<Rightarrow> cluster_telemetry \<Rightarrow> nat" where
  "count_of field k t = field (cc_stats (lookup t k))"

lemma counters_fields: "counters c = map (\<lambda>field. field (cc_stats c)) counter_fields"
  by (simp add: counters_def counter_fields_def Let_def)

lemma field_bounded: "store_ok t \<Longrightarrow> field \<in> set counter_fields \<Longrightarrow> count_of field k t \<le> u64_max"
  using store_ok_lookup [of t k] by (auto simp: counts_bounded_def counters_fields count_of_def list_all_iff)

lemma field_mono:
  "counters_le (lookup t0 k) (lookup t1 k) \<Longrightarrow> field \<in> set counter_fields \<Longrightarrow> count_of field k t0 \<le> count_of field k t1"
  by (auto simp: counters_le_def counters_fields count_of_def counter_fields_def)

lemma records_field_mono:
  "store_ok t0 \<Longrightarrow> records t0 t1 \<Longrightarrow> field \<in> set counter_fields \<Longrightarrow> count_of field k t0 \<le> count_of field k t1"
  using records_store_ok [of t0 t1] by (blast intro: field_mono)

lemma canonical_key: "canonical_policy (pe_policy e) \<Longrightarrow> trim (policy_as_str (pe_policy e)) = [] \<or> key_ok (entry_key e)"
  using policy_as_str_from_str_lossy [of "policy_as_str (pe_policy e)"]
  by (auto simp: canonical_policy_def key_ok_def entry_key_def)

lemma canonical_entries:
  "list_all (\<lambda>e. canonical_policy (pe_policy e)) es \<Longrightarrow>
     list_all (\<lambda>e. trim (policy_as_str (pe_policy e)) = [] \<or> key_ok (entry_key e)) es"
  unfolding list_all_iff using canonical_key by blast

lemma merge_counts_bounded: "counts_bounded (merge_combined s c)"
  by (simp add: counts_bounded_def counters_def merge_combined_def merge_counts_def Let_def)

lemma merge_entries_store_ok:
  "store_ok t \<Longrightarrow> list_all (\<lambda>e. trim (policy_as_str (pe_policy e)) = [] \<or> key_ok (entry_key e)) es \<Longrightarrow> store_ok (merge_entries es t)"
  by (induction es arbitrary: t)
    (auto simp: merge_entries_def merge_entry_def entry_key_def intro!: update_entry_store_ok merge_counts_bounded)

lemma learned_store_ok: "learned t \<Longrightarrow> store_ok t"
proof (induction rule: learned.induct)
  case (learned_load t es)
  have "store_ok (telemetry_reset t)" by (simp add: telemetry_reset_def store_ok_def)
  then show ?case
    unfolding load_entries_def using canonical_entries [OF learned_load.hyps(2)] by (rule merge_entries_store_ok)
next
  case (learned_merge t es)
  then show ?case by (intro merge_entries_store_ok canonical_entries)
qed (simp_all add: store_ok_def [of "\<lparr>tl_entries = [], tl_read_model = None\<rparr>"] empty_telemetry_def records_store_ok)

lemma merged_field:
  assumes "field \<in> set counter_fields"
  shows "field (cc_stats (merge_combined (diff_policy_cluster_stats (write_adaptive_hints a new) base) c))
     = sat_add (field (cc_stats c)) (field new - field (unwrap_or base cluster_stats_default))"
  using assms
  by (auto simp: counter_fields_def merge_combined_def merge_counts_def diff_policy_cluster_stats_def write_adaptive_hints_def Let_def)

lemma no_signal_field:
  assumes "\<not> policy_cluster_stats_has_signal (diff_policy_cluster_stats (write_adaptive_hints a new) base)"
    "field \<in> set counter_fields"
  shows "field new - field (unwrap_or base cluster_stats_default) = 0"
  using assms
  by (auto simp: counter_fields_def policy_cluster_stats_has_signal_def diff_policy_cluster_stats_def write_adaptive_hints_def Let_def)

lemma default_field [simp]: "field \<in> set counter_fields \<Longrightarrow> field cluster_stats_default = 0"
  by (auto simp: counter_fields_def cluster_stats_default_def)

lemma hints_field [simp]: "field \<in> set counter_fields \<Longrightarrow> field (write_adaptive_hints a s) = field s"
  by (auto simp: counter_fields_def write_adaptive_hints_def)

lemma merge_worker_delta:
  assumes "store_ok t0" "store_ok t1" "store_ok t" "field \<in> set counter_fields"
  shows "store_ok (merge_entries (worker_delta (t0, t1)) t)"
    and "count_of field k (merge_entries (worker_delta (t0, t1)) t)
      = min (count_of field k t + (count_of field k t1 - count_of field k t0)) u64_max"
proof -
  note d = diff_lookup [OF assms(1,2)]
  show "store_ok (merge_entries (worker_delta (t0, t1)) t)"
    using d(2) assms(3) by (auto simp: worker_delta_def list_all_iff intro!: merge_entries_store_ok)
  have base: "field (unwrap_or (map_option (\<lambda>c. write_adaptive_hints (cc_adaptive c) (cc_stats c)) (map_of (tl_entries t0) k))
      cluster_stats_default) = count_of field k t0"
    using assms(4) by (simp add: count_of_def lookup_def unwrap_or_def cluster_combined_default_def split: option.split)
  have le: "count_of field k t \<le> u64_max" using field_bounded assms(3,4) by blast
  note merged = merge_entries_lookup [OF d(1,2), of t k, unfolded d(3)]
  show "count_of field k (merge_entries (worker_delta (t0, t1)) t)
      = min (count_of field k t + (count_of field k t1 - count_of field k t0)) u64_max"
  proof (cases "map_of (tl_entries t1) k")
    case None
    with assms(4) have "count_of field k t1 = 0"
      by (simp add: count_of_def lookup_def unwrap_or_def cluster_combined_default_def)
    with merged None le show ?thesis by (simp add: worker_delta_def count_of_def lookup_def)
  next
    case (Some new)
    then have new: "field (cc_stats new) = count_of field k t1" by (simp add: count_of_def lookup_def unwrap_or_def)
    let ?base = "map_option (\<lambda>c. write_adaptive_hints (cc_adaptive c) (cc_stats c)) (map_of (tl_entries t0) k)"
    let ?delta = "diff_policy_cluster_stats (write_adaptive_hints (cc_adaptive new) (cc_stats new)) ?base"
    let ?merged = "merge_entries (worker_delta (t0, t1)) t"
    show ?thesis
    proof (cases "policy_cluster_stats_has_signal ?delta")
      case True
      with merged Some have "lookup ?merged k = merge_combined ?delta (lookup t k)"
        by (simp add: worker_delta_def lookup_def [of "merge_entries _ _"] unwrap_or_def Let_def)
      with merged_field [OF assms(4), of "cc_adaptive new" "cc_stats new" ?base "lookup t k"] show ?thesis
        by (simp add: count_of_def [of _ _ ?merged] sat_add_def base new count_of_def [of _ _ t])
    next
      case False
      with merged Some have "lookup ?merged k = lookup t k"
        by (simp add: worker_delta_def lookup_def Let_def)
      with le no_signal_field [OF False assms(4)] show ?thesis
        by (simp add: count_of_def [of _ _ ?merged] base new count_of_def [of _ _ t])
    qed
  qed
qed

lemma increments_nonneg:
  "list_all (\<lambda>(before, after). learned before \<and> records before after) batches \<Longrightarrow> field \<in> set counter_fields \<Longrightarrow>
     0 \<le> (\<Sum>(before, after) \<leftarrow> batches. int (count_of field k after) - int (count_of field k before))"
proof (induction batches)
  case (Cons batch batches)
  obtain before after where batch: "batch = (before, after)" by (cases batch)
  with Cons.prems have "count_of field k before \<le> count_of field k after"
    using records_field_mono learned_store_ok by simp
  with Cons batch show ?case by simp
qed simp

text \<open>
  \<^bold>\<open>C30\<close>.  The deltas of several workers add up.  However the parent and the workers came to the
  states they are in, when every batch records from the state its worker had before it, the parent
  holds after merging the deltas, for each policy, cluster and counter, its own count and the
  increments of all batches, up to the saturation of the counter.
\<close>

theorem worker_delta_exact:
  assumes "learned t" "list_all (\<lambda>(before, after). learned before \<and> records before after) batches"
    and "field \<in> set counter_fields"
  shows "int (count_of field k (merge_batches batches t))
     = min (int (count_of field k t)
         + (\<Sum>(before, after) \<leftarrow> batches. int (count_of field k after) - int (count_of field k before))) (int u64_max)"
proof -
  have "store_ok t" using assms(1) by (rule learned_store_ok)
  then show ?thesis
    using assms(2)
  proof (induction batches arbitrary: t)
    case Nil
    with field_bounded [OF _ assms(3)] show ?case by (simp add: merge_batches_def)
  next
    case (Cons batch batches)
    obtain before after where batch: "batch = (before, after)" by (cases batch)
    with Cons.prems have ok: "store_ok before" "records before after" using learned_store_ok by simp_all
    then have after: "store_ok after" using records_store_ok by blast
    have mono: "count_of field k before \<le> count_of field k after" using ok assms(3) by (rule records_field_mono)
    have rest: "0 \<le> (\<Sum>(before, after) \<leftarrow> batches. int (count_of field k after) - int (count_of field k before))"
      using Cons.prems(2) assms(3) by (intro increments_nonneg) simp_all
    note step = merge_worker_delta [OF ok(1) after Cons.prems(1) assms(3)]
    have "merge_batches (batch # batches) t = merge_batches batches (merge_entries (worker_delta batch) t)"
      by (simp add: merge_batches_def)
    moreover have "int (count_of field k (merge_batches batches (merge_entries (worker_delta batch) t)))
      = min (int (count_of field k (merge_entries (worker_delta batch) t))
         + (\<Sum>(before, after) \<leftarrow> batches. int (count_of field k after) - int (count_of field k before))) (int u64_max)"
      using Cons.IH [of "merge_entries (worker_delta batch) t"] step(1) Cons.prems(2) by (simp add: batch)
    moreover have "int (count_of field k (merge_entries (worker_delta batch) t))
      = min (int (count_of field k t) + (int (count_of field k after) - int (count_of field k before))) (int u64_max)"
      unfolding batch step(2) using mono by (simp only: of_nat_min of_nat_add of_nat_diff)
    ultimately show ?case using rest by (simp add: batch)
  qed
qed

lemma sample_learned: "learned sample_learning"
  by (rule learned_records [OF learned_empty sample_learning_records])

definition sample_batches :: "(cluster_telemetry \<times> cluster_telemetry) list" where
  "sample_batches = [(empty_telemetry, sample_learning), (sample_learning, record_decision ''clang_format'' 7 Apply sample_learning)]"

lemma sample_counts:
  "count_of pl_decisions (''clang_format'', 7) empty_telemetry = 0"
  "count_of pl_decisions (''clang_format'', 7) sample_learning = 1"
  "count_of pl_decisions (''clang_format'', 7) (record_decision ''clang_format'' 7 Apply sample_learning) = 2"
proof -
  have empty: "lookup empty_telemetry k = cluster_combined_default" for k by (simp add: lookup_def empty_telemetry_def unwrap_or_def)
  show "count_of pl_decisions (''clang_format'', 7) empty_telemetry = 0"
    by (simp add: count_of_def empty cluster_combined_default_def cluster_stats_default_def)
  have decision: "count_of pl_decisions (''clang_format'', 7) (record_decision ''clang_format'' 7 Apply t)
      = sat_add (count_of pl_decisions (''clang_format'', 7) t) 1" for t
    unfolding count_of_def record_decision_def sample_name lookup_update_entry
    by (simp add: count_decision_def Let_def)
  have outcome: "count_of pl_decisions k (record_outcome [(ClangFormat, 7)] Accepted t) = count_of pl_decisions k t" for k t
    by (simp add: count_of_def record_outcome_def lookup_update_entry count_outcome_def Let_def)
  show one: "count_of pl_decisions (''clang_format'', 7) sample_learning = 1"
    unfolding sample_learning_def outcome decision
    by (simp add: count_of_def empty cluster_combined_default_def cluster_stats_default_def sat_add_def u64_max_def)
  show "count_of pl_decisions (''clang_format'', 7) (record_decision ''clang_format'' 7 Apply sample_learning) = 2"
    unfolding decision one by (simp add: sat_add_def u64_max_def)
qed

theorem worker_delta_exact_witness:
  "count_of pl_decisions (''clang_format'', 7) (merge_batches sample_batches sample_learning) = 3"
proof -
  have "records sample_learning (record_decision ''clang_format'' 7 Apply sample_learning)"
    by (rule records_decision [OF records_none]) (simp add: sample_name)
  then have "list_all (\<lambda>(before, after). learned before \<and> records before after) sample_batches"
    by (simp add: sample_batches_def learned_empty sample_learned sample_learning_records)
  from worker_delta_exact [OF sample_learned this, of pl_decisions "(''clang_format'', 7)"] show ?thesis
    by (simp add: counter_fields_def sample_batches_def sample_counts u64_max_def)
qed

text \<open>
  The frozen read model of a pass: once it has begun, nothing that is recorded or merged
  changes the controls of any policy and cluster.
\<close>

lemma frozen_step:
  "tl_read_model (update_entry k f t) = tl_read_model t"
  "tl_read_model (record_outcome traces outcome t) = tl_read_model t"
  "tl_read_model (merge_entries es t) = tl_read_model t"
proof -
  show u: "tl_read_model (update_entry k f t) = tl_read_model t" for k f t by (simp add: update_entry_def)
  show "tl_read_model (record_outcome traces outcome t) = tl_read_model t"
    unfolding record_outcome_def by (auto intro!: record_outcomes_induct [where P = "\<lambda>s. tl_read_model s = tl_read_model t"] simp: u)
  show "tl_read_model (merge_entries es t) = tl_read_model t"
    unfolding merge_entries_def by (induction es arbitrary: t) (simp_all add: merge_entry_def u)
qed

theorem read_model_frozen:
  fixes t traces outcome decision es policy cluster
  defines "later \<equiv> merge_entries es (record_outcome traces outcome
    (record_decision policy cluster decision (begin_read_model t)))"
  shows "adaptive_controls p c kalman later = adaptive_controls p c kalman (begin_read_model t)
     \<and> adaptive_controls p c kalman (clear_read_model (begin_read_model t)) = adaptive_controls p c kalman (begin_read_model t)"
  by (simp add: later_def adaptive_controls_def frozen_step record_decision_def begin_read_model_def clear_read_model_def)

section \<open>The reliability bounds\<close>

lemma wilson_center:
  assumes "0 < n" "0 \<le> x" "x \<le> (1::real)" "0 < z"
  shows "\<bar>x - (x + z * z / (2 * n)) / (1 + z * z / n)\<bar>
     \<le> sqrt (x * (1 - x) / n + z * z / (4 * n * n)) * z / (1 + z * z / n)"
proof -
  define d where "d = 1 + z * z / n"
  have d: "0 < d" using assms by (simp add: d_def add_pos_nonneg)
  have "x - (x + z * z / (2 * n)) / d = (x * d - (x + z * z / (2 * n))) / d" using d by (simp add: field_simps)
  also have "x * d - (x + z * z / (2 * n)) = (z / n * (x - 1 / 2)) * z" using assms by (simp add: d_def field_simps)
  finally have e: "\<bar>x - (x + z * z / (2 * n)) / d\<bar> = \<bar>z / n * (x - 1 / 2)\<bar> * z / d"
    using d assms by (simp add: abs_mult)
  have "(z / n * (x - 1 / 2))\<^sup>2 \<le> x * (1 - x) / n + z * z / (4 * n * n)"
  proof -
    have "(z / n * (x - 1 / 2))\<^sup>2 = z * z / (n * n) * (1 / 4 - x * (1 - x))"
      using assms by (simp add: power2_eq_square field_simps)
    also have "\<dots> \<le> z * z / (n * n) * (1 / 4)"
      using assms by (intro mult_left_mono) auto
    also have "\<dots> = z * z / (4 * n * n)" by simp
    also have "\<dots> \<le> x * (1 - x) / n + z * z / (4 * n * n)" using assms by (simp only: le_add_same_cancel2) simp
    finally show ?thesis .
  qed
  then have "\<bar>z / n * (x - 1 / 2)\<bar> \<le> sqrt (x * (1 - x) / n + z * z / (4 * n * n))"
    by (intro real_le_rsqrt) (simp only: power2_abs)
  then show ?thesis unfolding d_def [symmetric] e using d assms by (intro divide_right_mono mult_right_mono) auto
qed

text \<open>
  The Wilson bounds that decide about relaxing and hardening lie in the unit interval and
  enclose the observed rate of accepted outcomes.
\<close>

theorem wilson_encloses_rate:
  assumes "0 < successes + failures" "successes + failures \<le> u64_max"
  shows "case wilson_bounds successes failures of (lower, upper) \<Rightarrow>
     0 \<le> lower \<and> lower \<le> real successes / real (successes + failures)
     \<and> real successes / real (successes + failures) \<le> upper \<and> upper \<le> 1"
proof -
  define n where "n = real (successes + failures)"
  define x where "x = real successes / n"
  define center where "center = (x + wilson_z * wilson_z / (2 * n)) / (1 + wilson_z * wilson_z / n)"
  define margin where "margin = sqrt (x * (1 - x) / n + wilson_z * wilson_z / (4 * n * n)) * wilson_z / (1 + wilson_z * wilson_z / n)"
  have n: "0 < n" and x: "0 \<le> x" "x \<le> 1" using assms(1) by (auto simp: n_def x_def)
  have "\<bar>x - center\<bar> \<le> margin"
    unfolding center_def margin_def by (rule wilson_center [OF n x]) (simp add: wilson_z_def)
  then have between: "clamp (center - margin) 0 1 \<le> x" "x \<le> clamp (center + margin) 0 1"
    using x by (auto simp: clamp_def)
  have "wilson_bounds successes failures = (clamp (center - margin) 0 1, clamp (center + margin) 0 1)"
    using assms
    by (auto simp: wilson_bounds_def sat_add_def min_def Let_def center_def margin_def x_def n_def)
  with between clamp_range show ?thesis by (simp add: x_def n_def)
qed

theorem wilson_encloses_rate_witness:
  "case wilson_bounds 3 1 of (lower, upper) \<Rightarrow>
     0 \<le> lower \<and> lower \<le> real 3 / real (3 + 1) \<and> real 3 / real (3 + 1) \<le> upper \<and> upper \<le> 1"
  by (rule wilson_encloses_rate) (simp_all add: u64_max_def)

end
