(* ===== verification/Semantic_Impact.thy ===== *)
theory Semantic_Impact
  imports Cluster_Telemetry Convergence Context_Query "HOL-Library.AList"
begin

text \<open>
  What the pipeline knows about an edit before it is contested: the configured profile of a
  policy (\<^verbatim>\<open>src/src/config/policy_config.rs\<close>), the confidence and reach of its edits and the guard
  on unsafe lines (\<^verbatim>\<open>src/src/engine/pipeline/semantic_impact.rs\<close>).  A TOML table is an association
  list; a TOML float is a real, so NaN does not occur.
\<close>

section \<open>The configuration of a policy\<close>

datatype toml_value =
    TomlString rstr
  | TomlInteger int
  | TomlFloat real
  | TomlBoolean bool
  | TomlDatetime rstr
  | TomlArray "toml_value list"
  | TomlTable "(rstr \<times> toml_value) list"

fun as_str :: "toml_value \<Rightarrow> rstr option" where
  "as_str (TomlString s) = Some s" | "as_str _ = None"

fun as_integer :: "toml_value \<Rightarrow> int option" where
  "as_integer (TomlInteger i) = Some i" | "as_integer _ = None"

fun as_float :: "toml_value \<Rightarrow> real option" where
  "as_float (TomlFloat x) = Some x" | "as_float _ = None"

fun as_bool :: "toml_value \<Rightarrow> bool option" where
  "as_bool (TomlBoolean b) = Some b" | "as_bool _ = None"

fun as_array :: "toml_value \<Rightarrow> toml_value list option" where
  "as_array (TomlArray xs) = Some xs" | "as_array _ = None"

fun as_table :: "toml_value \<Rightarrow> (rstr \<times> toml_value) list option" where
  "as_table (TomlTable t) = Some t" | "as_table _ = None"

text \<open>\<open>table.get(key).and_then(..)\<close>.\<close>

definition get_as :: "(toml_value \<Rightarrow> 'a option) \<Rightarrow> (rstr \<times> toml_value) list \<Rightarrow> rstr \<Rightarrow> 'a option" where
  "get_as f table key = Option.bind (map_of table key) f"

record policy_config =
  pc_enabled :: bool
  pc_enforcement :: enforcement
  pc_raw :: "(rstr \<times> toml_value) list"

definition from_policy_table :: "(rstr \<times> toml_value) list \<Rightarrow> rstr + policy_config" where
  "from_policy_table table =
     (if get_as as_str table ''name'' = None
      then Inl (''policy table missing required '' @ [quote_char] @ ''name'' @ [quote_char])
      else Inr \<lparr>pc_enabled = unwrap_or (get_as as_bool table ''enabled'') False,
                pc_enforcement = unwrap_or (map_option enforcement_from_value (get_as as_str table ''enforcement'')) Hard,
                pc_raw = table\<rparr>)"

definition merge_config :: "policy_config \<Rightarrow> (rstr \<times> toml_value) list \<Rightarrow> policy_config" where
  "merge_config c table =
     (let raw = fold (\<lambda>(key, value). AList.update key value) table (pc_raw c) in
      \<lparr>pc_enabled = unwrap_or (get_as as_bool raw ''enabled'') (pc_enabled c),
       pc_enforcement =
         unwrap_or (map_option enforcement_from_value (get_as as_str raw ''enforcement'')) (pc_enforcement c),
       pc_raw = raw\<rparr>)"

definition string_value :: "policy_config \<Rightarrow> rstr \<Rightarrow> rstr option" where
  "string_value c key = get_as as_str (pc_raw c) key"

definition bool_value :: "policy_config \<Rightarrow> rstr \<Rightarrow> bool option" where
  "bool_value c key = get_as as_bool (pc_raw c) key"

definition int_value :: "policy_config \<Rightarrow> rstr \<Rightarrow> int option" where
  "int_value c key = get_as as_integer (pc_raw c) key"

definition usize_value :: "policy_config \<Rightarrow> rstr \<Rightarrow> nat option" where
  "usize_value c key =
     Option.bind (int_value c key) (\<lambda>value. if value \<ge> 0 then Some (nat value) else None)"

definition string_list_value :: "policy_config \<Rightarrow> rstr \<Rightarrow> rstr list" where
  "string_list_value c key = unwrap_or (map_option (List.map_filter as_str) (get_as as_array (pc_raw c) key)) []"

definition table_value :: "policy_config \<Rightarrow> rstr \<Rightarrow> (rstr \<times> toml_value) list option" where
  "table_value c key = get_as as_table (pc_raw c) key"

definition has_key :: "policy_config \<Rightarrow> rstr \<Rightarrow> bool" where
  "has_key c key \<longleftrightarrow> map_of (pc_raw c) key \<noteq> None"

definition semantic_hard_invariant :: "policy_config \<Rightarrow> bool" where
  "semantic_hard_invariant c \<longleftrightarrow>
     unwrap_or (bool_value c ''semantic_hard_invariant'') False \<or> pc_enforcement c = Must"

datatype policy_guidance_mode = SoftGuideline | HardInvariant

fun guidance_as_str :: "policy_guidance_mode \<Rightarrow> rstr" where
  "guidance_as_str SoftGuideline = ''soft_guideline''"
| "guidance_as_str HardInvariant = ''hard_invariant''"

definition policy_guidance_mode_of :: "rstr \<Rightarrow> policy_config \<Rightarrow> policy_guidance_mode" where
  "policy_guidance_mode_of policy_name settings =
     (if semantic_hard_invariant settings then HardInvariant
      else if hard_invariant (behavior_by_name policy_catalog policy_name) then HardInvariant
      else SoftGuideline)"

section \<open>Profiles\<close>

definition profile_domain :: "rstr \<Rightarrow> (rstr \<times> toml_value) list \<Rightarrow> rstr" where
  "profile_domain name table =
     (case get_as as_str table ''domain'' of
        None \<Rightarrow> name
      | Some value \<Rightarrow> let trimmed = trim value in if trimmed \<noteq> [] then trimmed else name)"

definition profile_priority :: "rstr \<Rightarrow> (rstr \<times> toml_value) list \<Rightarrow> nat" where
  "profile_priority name table =
     (case get_as as_integer table ''priority'' of
        None \<Rightarrow> default_priority_for name
      | Some value \<Rightarrow> if value \<ge> 0 then nat (min value 65535) else default_priority_for name)"

definition profile_impact_radius :: "rstr \<Rightarrow> (rstr \<times> toml_value) list \<Rightarrow> nat" where
  "profile_impact_radius name table =
     (case get_as as_integer table ''impact_radius'' of
        None \<Rightarrow> default_impact_radius_for name
      | Some value \<Rightarrow> if value \<ge> 0 then nat value else default_impact_radius_for name)"

definition profile_priority_weight :: "rstr \<Rightarrow> (rstr \<times> toml_value) list \<Rightarrow> nat" where
  "profile_priority_weight name table =
     (case get_as as_integer table ''priority_weight_bp'' of
        Some value \<Rightarrow> if value \<ge> 0 then nat (min value 1000) else default_priority_weight_bp_for name
      | None \<Rightarrow>
          (case (case get_as as_float table ''semantic_priority_weight'' of
                   Some x \<Rightarrow> Some x
                 | None \<Rightarrow> map_option real_of_int (get_as as_integer table ''semantic_priority_weight'')) of
             None \<Rightarrow> default_priority_weight_bp_for name
           | Some value \<Rightarrow> nat (round (clamp value 0 1 * 1000))))"

definition profile_risk_tier :: "rstr \<Rightarrow> (rstr \<times> toml_value) list \<Rightarrow> convergence_risk_tier" where
  "profile_risk_tier name table =
     (case get_as as_str table ''risk_tier'' of
        None \<Rightarrow> default_risk_tier_for name
      | Some value \<Rightarrow>
          let normalized = to_ascii_lowercase (trim value) in
          if normalized \<in> {''stabilizer'', ''stabilize'', ''low''} then Stabilizer
          else if normalized \<in> {''rewrite'', ''high''} then Rewrite
          else if normalized \<in> {''balanced'', ''medium''} then convergence_risk_tier.Balanced
          else default_risk_tier_for name)"

definition profile_of :: "rstr \<Rightarrow> policy_config \<Rightarrow> convergence_profile" where
  "profile_of name settings =
     (let table = unwrap_or (table_value settings ''convergence'') [] in
      \<lparr>cp_domain = profile_domain name table,
       cp_priority = profile_priority name table,
       cp_impact_radius = profile_impact_radius name table,
       cp_priority_weight_bp = profile_priority_weight name table,
       cp_risk_tier = profile_risk_tier name table\<rparr>)"

definition build_convergence_profiles ::
    "(rstr \<rightharpoonup> policy_config) \<Rightarrow> (rstr \<rightharpoonup> convergence_profile)" where
  "build_convergence_profiles policy_settings =
     (\<lambda>name. map_option (profile_of name) (policy_settings name))"

section \<open>The reach of an edit\<close>

definition convergence_max_impact_ranges_per_line :: nat where
  "convergence_max_impact_ranges_per_line = 6"

definition hash_semantic_stable_id :: "fx_hasher \<Rightarrow> rstr \<Rightarrow> u64" where
  "hash_semantic_stable_id fx stable_id = fx_str fx stable_id"

text \<open>One round of the loop: extend the last range or start a new one.\<close>

definition merge_range :: "nat \<times> nat \<Rightarrow> (nat \<times> nat) list \<Rightarrow> (nat \<times> nat) list" where
  "merge_range r merged =
     (let start = max (fst r) 1; finish = max (snd r) start in
      if merged \<noteq> [] \<and> start \<le> snd (last merged) + 1
      then butlast merged @ [(fst (last merged), max (snd (last merged)) finish)]
      else merged @ [(start, finish)])"

definition normalize_impact_ranges :: "(nat \<times> nat) list \<Rightarrow> (nat \<times> nat) list" where
  "normalize_impact_ranges ranges = (if ranges = [] then ranges else fold merge_range (sort ranges) [])"

type_synonym symbol_tables = "(nat \<rightharpoonup> u64 list) \<times> (u64 \<rightharpoonup> nat \<times> nat)"

text \<open>An occurrence of a symbol: on which lines it occurs, and from the first to the last.\<close>

definition note_symbol :: "fx_hasher \<Rightarrow> nat \<Rightarrow> rstr \<Rightarrow> symbol_tables \<Rightarrow> symbol_tables" where
  "note_symbol fx line stable_id = (\<lambda>(ids_by_line, symbol_lines).
     if line = 0 then (ids_by_line, symbol_lines)
     else
       let stable = hash_semantic_stable_id fx stable_id in
       (ids_by_line(line \<mapsto> unwrap_or (ids_by_line line) [] @ [stable]),
        symbol_lines(stable \<mapsto>
          (case symbol_lines stable of
             None \<Rightarrow> (line, line)
           | Some (first, final) \<Rightarrow> (min first line, max final line)))))"

definition symbol_tables_of :: "fx_hasher \<Rightarrow> semantic_file_context \<Rightarrow> symbol_tables" where
  "symbol_tables_of fx semantic =
     fold (\<lambda>r. note_symbol fx (sr_line r) (sr_stable_id r)) (fcx_references semantic)
       (fold (\<lambda>d. note_symbol fx (sd_line d) (sd_stable_id d)) (fcx_declarations semantic)
         (Map.empty, Map.empty))"

definition scopes_by_width :: "semantic_file_context \<Rightarrow> (nat \<times> nat \<times> nat) list" where
  "scopes_by_width semantic =
     sort (filter (\<lambda>(width, start, finish). start \<le> finish)
       (map (\<lambda>s. let start = max (sc_start_line s) 1; finish = max (sc_end_line s) 1
                 in (finish - start, start, finish)) (fcx_scopes semantic)))"

text \<open>The narrowest scopes around a line, until one is too wide or enough are found.\<close>

definition scope_ranges_of :: "(nat \<times> nat \<times> nat) list \<Rightarrow> nat \<Rightarrow> nat \<Rightarrow> (nat \<times> nat) list" where
  "scope_ranges_of by_width scope_cap line =
     map snd (take convergence_max_impact_ranges_per_line
       (filter (\<lambda>(width, start, finish). \<not> (start > line \<or> finish < line))
         (takeWhile (\<lambda>(width, start, finish). \<not> width + 1 > scope_cap) by_width)))"

definition symbol_ranges_of :: "(u64 \<rightharpoonup> nat \<times> nat) \<Rightarrow> nat \<Rightarrow> u64 list \<Rightarrow> (nat \<times> nat) list" where
  "symbol_ranges_of symbol_lines symbol_cap symbol_ids =
     List.map_filter (\<lambda>stable.
       case symbol_lines stable of
         None \<Rightarrow> None
       | Some (start, finish) \<Rightarrow>
           if finish - start + 1 \<le> symbol_cap then Some (max start 1, max finish 1) else None) symbol_ids"

definition fallback_range :: "nat \<Rightarrow> nat \<Rightarrow> nat \<times> nat" where
  "fallback_range fallback_radius line = (max (line - fallback_radius) 1, max (line + fallback_radius) 1)"

definition impact_lines :: "policy_result \<Rightarrow> nat list" where
  "impact_lines result =
     take 256 (sorted_list_of_set
       (set (map e_line (filter (\<lambda>e. e_line e > 0 \<and> e_before e \<noteq> e_after e) (pr_edits result)))))"

definition line_symbol_ids :: "(nat \<rightharpoonup> u64 list) \<Rightarrow> nat \<Rightarrow> u64 list" where
  "line_symbol_ids ids_by_line line = sort (remdups (unwrap_or (ids_by_line line) []))"

definition line_impact_ranges ::
    "(nat \<times> nat \<times> nat) list \<Rightarrow> symbol_tables \<Rightarrow> nat \<Rightarrow> nat \<Rightarrow> (nat \<times> nat) list" where
  "line_impact_ranges by_width tables fallback_radius line =
     (let ranges = scope_ranges_of by_width 512 line
                   @ symbol_ranges_of (snd tables) 512 (line_symbol_ids (fst tables) line);
          ranges = (if ranges = [] then [fallback_range fallback_radius line] else ranges);
          ranges = normalize_impact_ranges ranges
      in if length ranges > convergence_max_impact_ranges_per_line
         then take convergence_max_impact_ranges_per_line ranges else ranges)"

definition build_semantic_impact_maps ::
    "fx_hasher \<Rightarrow> policy_result \<Rightarrow> semantic_file_context option \<Rightarrow> nat
      \<Rightarrow> (nat \<rightharpoonup> (nat \<times> nat) list) \<times> (nat \<rightharpoonup> u64 list)" where
  "build_semantic_impact_maps fx result semantic base_radius =
     (let fallback_radius = max base_radius 1;
          lines = impact_lines result
      in case semantic of
           None \<Rightarrow> (map_of (map (\<lambda>line. (line, [fallback_range fallback_radius line])) lines), Map.empty)
         | Some context \<Rightarrow>
             let tables = symbol_tables_of fx context;
                 by_width = scopes_by_width context
             in (map_of (map (\<lambda>line. (line, line_impact_ranges by_width tables fallback_radius line)) lines),
                 map_of (map (\<lambda>line. (line, line_symbol_ids (fst tables) line))
                   (filter (\<lambda>line. line_symbol_ids (fst tables) line \<noteq> []) lines))))"

section \<open>The signal of a policy\<close>

record convergence_signal =
  sg_semantic_confidence_bp :: nat
  sg_impact_radius :: nat
  sg_semantic_rewrite :: bool
  sg_macro_sensitive :: bool
  sg_whitespace_safe :: bool
  sg_solver_dropped_lines :: nat
  sg_hard_blocked_lines :: nat
  sg_impact_ranges :: "nat \<rightharpoonup> (nat \<times> nat) list"
  sg_symbol_ids :: "nat \<rightharpoonup> u64 list"

definition sat_u16 :: "nat \<Rightarrow> nat" where
  "sat_u16 n = min n 65535"

definition context_confidence :: "semantic_file_context \<Rightarrow> semantic_summary \<Rightarrow> nat \<Rightarrow> nat" where
  "context_confidence context totals base =
     (let bp = (if fcx_clang_success context then sat_u16 (base + 200) else base);
          bp = (if \<not> fcx_tree_has_error context then sat_u16 (bp + 150) else bp);
          errors = diagnostic_error_total (fcx_diagnostic_counts context);
          bp = (if errors = 0 then sat_u16 (bp + 150) else bp - min errors 10 * 20)
      in if ss_usr_backed_declaration_count totals > 0 then sat_u16 (bp + 100) else bp)"

definition reference_radius :: "semantic_summary \<Rightarrow> nat" where
  "reference_radius totals =
     (if ss_reference_count totals > 2000 then 3 else if ss_reference_count totals > 500 then 2 else 1)"

text \<open>What earlier failures of the contract take from the confidence, and the least radius they ask for.\<close>

definition failure_penalty :: "semantic_invariant_clause set \<Rightarrow> nat \<times> nat \<Rightarrow> nat \<times> nat" where
  "failure_penalty failures = (\<lambda>(bp, radius).
     let (bp, radius) =
           (if SymbolIdentity \<in> failures \<or> DeclarationReferenceIntegrity \<in> failures
            then (bp - 80, max radius 2) else (bp, radius));
         (bp, radius) = (if ScopeIntegrity \<in> failures then (bp - 60, max radius 2) else (bp, radius))
     in if EditSafety \<in> failures then (bp - 40, radius) else (bp, radius))"

definition edit_radius :: "policy_result \<Rightarrow> nat" where
  "edit_radius result =
     (if length (pr_edits result) > 40 then 3 else if length (pr_edits result) > 10 then 2 else 1)"

definition build_convergence_signal ::
    "fx_hasher \<Rightarrow> policy_result \<Rightarrow> semantic_file_context option \<Rightarrow> semantic_summary
      \<Rightarrow> semantic_invariant_clause set \<Rightarrow> policy_capabilities \<Rightarrow> nat option \<Rightarrow> certainty_filter_state
      \<Rightarrow> convergence_signal" where
  "build_convergence_signal fx result semantic totals failures capability cluster_radius_cap adaptive =
     (let base = semantic_confidence_bp_base adaptive;
          (bp, radius) =
            (case semantic of
               Some context \<Rightarrow> (context_confidence context totals base, max 0 (reference_radius totals))
             | None \<Rightarrow> (base - 100, 0));
          (bp, radius) = failure_penalty failures (bp, radius);
          radius = max radius (edit_radius result);
          resolved_radius = min radius 8;
          resolved_radius =
            (case cluster_radius_cap of None \<Rightarrow> resolved_radius | Some cap \<Rightarrow> min resolved_radius (max cap 1));
          (impact_ranges, symbol_ids) = build_semantic_impact_maps fx result semantic resolved_radius
      in \<lparr>sg_semantic_confidence_bp = min bp 1000,
          sg_impact_radius = resolved_radius,
          sg_semantic_rewrite = semantic_rewrite capability,
          sg_macro_sensitive = macro_sensitive capability,
          sg_whitespace_safe = whitespace_safe capability,
          sg_solver_dropped_lines = 0, sg_hard_blocked_lines = 0,
          sg_impact_ranges = impact_ranges, sg_symbol_ids = symbol_ids\<rparr>)"

section \<open>The guard on unsafe lines\<close>

record semantic_guidance_config =
  gc_policy_name :: rstr
  gc_guidance_mode :: policy_guidance_mode
  gc_exact_compdb :: bool
  gc_context_kind :: semantic_compdb_context_kind

definition consensus_diag_relax ::
    "policy_capabilities \<Rightarrow> semantic_guidance_config \<Rightarrow> semantic_line_profile \<Rightarrow> bool" where
  "consensus_diag_relax capability config profile \<longleftrightarrow>
     \<not> gc_exact_compdb config
     \<and> gc_context_kind config \<in> {PairedSourceHeuristic, HeaderConsensus, SourceConsensus}
     \<and> lp_has_diagnostic_error profile \<and> \<not> lp_in_macro_region profile
     \<and> lp_declaration_count profile = 0 \<and> lp_reference_count profile = 0
     \<and> structural_safe capability"

definition safe_line ::
    "cpp_grammar \<Rightarrow> semantic_context_query \<Rightarrow> policy_capabilities \<Rightarrow> semantic_guidance_config \<Rightarrow> nat \<Rightarrow> bool" where
  "safe_line g q capability config line \<longleftrightarrow>
     (if is_safe_edit g q line 1 then True
      else if \<not> semantic_rewrite capability
      then (allows_zone capability Preprocessor \<and> is_safe_global q line 1)
           \<or> (allows_zone capability Comments \<and> \<not> has_diag_error q line)
           \<or> consensus_diag_relax capability config (line_profile g q line)
      else False)"

definition unsafe_lines ::
    "cpp_grammar \<Rightarrow> semantic_context_query \<Rightarrow> policy_capabilities \<Rightarrow> semantic_guidance_config \<Rightarrow> edit list \<Rightarrow> nat set" where
  "unsafe_lines g q capability config edits =
     set (map e_line (filter (\<lambda>e. \<not> (e_line e = 0 \<or> e_before e = e_after e)
       \<and> \<not> safe_line g q capability config (e_line e)) edits))"

definition apply_semantic_mode ::
    "cpp_grammar \<Rightarrow> rstr \<Rightarrow> policy_result \<Rightarrow> semantic_context_query \<Rightarrow> policy_capabilities
      \<Rightarrow> semantic_guidance_config \<Rightarrow> policy_result" where
  "apply_semantic_mode g before_text result q capability config =
     (if pr_edits result = [] \<or> \<not> is_available q then result
      else
        let lines = unsafe_lines g q capability config (pr_edits result) in
        if lines = {} then result
        else
          let hint = Edit_Utils.line_hint (sorted_list_of_set lines) (card lines) 8 in
          case gc_guidance_mode config of
            SoftGuideline \<Rightarrow>
              let suppressed =
                    (if structural_safe capability then suppress_structural before_text result lines
                     else apply_line_suppression before_text result lines)
              in suppressed\<lparr>pr_warnings := pr_warnings suppressed @
                   [''semantic guideline dropped '' @ nat_to_string (card lines)
                    @ '' unsafe edit line(s) for '' @ [quote_char] @ gc_policy_name config @ [quote_char]
                    @ '' (mode='' @ guidance_as_str (gc_guidance_mode config) @ '', lines='' @ hint @ '')'']\<rparr>
          | HardInvariant \<Rightarrow>
              \<lparr>pr_text = before_text, pr_changed = False,
               pr_violations = pr_violations result @
                 [\<lparr>v_policy = policy_from_str_lossy ''semantic_contract'',
                   v_message = ''semantic hard invariant blocked '' @ [quote_char] @ gc_policy_name config
                     @ [quote_char] @ '' in unsafe region(s) (lines='' @ hint @ '')'',
                   v_line = Min lines, v_column = Some 1\<rparr>],
               pr_edits = [], pr_warnings = pr_warnings result\<rparr>)"

definition semantic_error_lines :: "semantic_region list \<Rightarrow> nat set" where
  "semantic_error_lines regions =
     set (concat (map (\<lambda>region. [rg_start_line region..<Suc (rg_end_line region)])
       (filter (\<lambda>region. rg_has_diagnostic_error region \<and> rg_kind_id region = region_diagnostic) regions)))"


section \<open>Normalised ranges\<close>

definition cover :: "(nat \<times> nat) list \<Rightarrow> nat set" where
  "cover rs = (\<Union>r \<in> set rs. {fst r..snd r})"

definition spaced :: "(nat \<times> nat) list \<Rightarrow> bool" where
  "spaced rs \<longleftrightarrow> sorted_wrt (\<lambda>a b. snd a + 1 < fst b) rs \<and> (\<forall>r \<in> set rs. 1 \<le> fst r \<and> fst r \<le> snd r)"

definition fitted :: "nat \<times> nat \<Rightarrow> nat \<times> nat" where
  "fitted r = (max (fst r) 1, max (snd r) (max (fst r) 1))"

lemma cover_simps [simp]:
  "cover [] = {}" "cover (r # rs) = {fst r..snd r} \<union> cover rs" "cover (rs @ rs') = cover rs \<union> cover rs'"
  by (auto simp: cover_def)

lemma spaced_snoc:
  "spaced (rs @ [r]) \<longleftrightarrow>
     spaced rs \<and> 1 \<le> fst r \<and> fst r \<le> snd r \<and> (\<forall>a \<in> set rs. snd a + 1 < fst r)"
  by (auto simp: spaced_def sorted_wrt_append)

lemma spaced_last:
  assumes "spaced rs" "a \<in> set rs" "rs \<noteq> []"
  shows "snd a \<le> snd (last rs)" and "fst a \<le> fst (last rs)"
proof -
  obtain xs r where rs: "rs = xs @ [r]" using assms(3) by (cases rs rule: rev_cases) auto
  with assms have "a = r \<or> snd a + 1 < fst r \<and> fst a \<le> snd a \<and> fst r \<le> snd r"
    by (auto simp: spaced_snoc) (auto simp: spaced_def)
  with rs show "snd a \<le> snd (last rs)" "fst a \<le> fst (last rs)" by auto
qed

lemma merge_range_step:
  assumes "spaced merged" "\<forall>a \<in> set merged. fst a \<le> fst (fitted r)"
  shows "spaced (merge_range r merged)"
    and "cover (merge_range r merged) = cover merged \<union> {fst (fitted r)..snd (fitted r)}"
    and "\<forall>a \<in> set (merge_range r merged). fst a \<le> fst (fitted r)"
proof -
  have all: "spaced (merge_range r merged) \<and>
    cover (merge_range r merged) = cover merged \<union> {fst (fitted r)..snd (fitted r)} \<and>
    (\<forall>a \<in> set (merge_range r merged). fst a \<le> fst (fitted r))"
  proof (cases "merged \<noteq> [] \<and> fst (fitted r) \<le> snd (last merged) + 1")
    case True
    then obtain xs a b where m: "merged = xs @ [(a, b)]"
      by (cases merged rule: rev_cases) auto
    have "merge_range r merged = xs @ [(a, max b (snd (fitted r)))]"
      using True m by (simp add: merge_range_def fitted_def Let_def)
    moreover have "a \<le> b" "a \<le> fst (fitted r)" "fst (fitted r) \<le> b + 1" "fst (fitted r) \<le> snd (fitted r)"
      using assms True m by (auto simp: spaced_snoc fitted_def)
    ultimately show ?thesis using assms m by (auto simp: spaced_snoc)
  next
    case False
    then have eq: "merge_range r merged = merged @ [fitted r]"
      by (auto simp: merge_range_def fitted_def Let_def)
    have "snd a + 1 < fst (fitted r)" if "a \<in> set merged" for a
      using spaced_last [OF assms(1) that] that False by fastforce
    then show ?thesis using assms by (auto simp: eq spaced_snoc) (auto simp: fitted_def)
  qed
  then show "spaced (merge_range r merged)"
    "cover (merge_range r merged) = cover merged \<union> {fst (fitted r)..snd (fitted r)}"
    "\<forall>a \<in> set (merge_range r merged). fst a \<le> fst (fitted r)" by blast+
qed

lemma merge_ranges_fold:
  assumes "sorted rs" "spaced merged" "\<forall>a \<in> set merged. \<forall>r \<in> set rs. fst a \<le> fst (fitted r)"
  shows "spaced (fold merge_range rs merged)
     \<and> cover (fold merge_range rs merged) = cover merged \<union> cover (map fitted rs)"
  using assms
proof (induction rs arbitrary: merged)
  case (Cons r rs)
  have step: "spaced (merge_range r merged)"
    "cover (merge_range r merged) = cover merged \<union> {fst (fitted r)..snd (fitted r)}"
    "\<forall>a \<in> set (merge_range r merged). fst a \<le> fst (fitted r)"
    using merge_range_step [OF Cons.prems(2), of r] Cons.prems(3) by auto
  have "fst (fitted r) \<le> fst (fitted r')" if "r' \<in> set rs" for r'
    using Cons.prems(1) that by (auto simp: fitted_def less_eq_prod_def)
  with step(3) have "\<forall>a \<in> set (merge_range r merged). \<forall>r' \<in> set rs. fst a \<le> fst (fitted r')"
    by (meson le_trans)
  from Cons.IH [OF _ step(1) this] Cons.prems(1) step(2) show ?case by auto
qed simp

text \<open>The normalised ranges are in order, apart by more than a line, and cover the same lines.\<close>

lemma normalized_ranges:
  "spaced (normalize_impact_ranges rs)" "cover (normalize_impact_ranges rs) = cover (map fitted rs)"
proof -
  have "spaced [] \<and> cover (map fitted (sort rs)) = cover (map fitted rs)"
    by (auto simp: spaced_def cover_def)
  then show "spaced (normalize_impact_ranges rs)"
    "cover (normalize_impact_ranges rs) = cover (map fitted rs)"
    using merge_ranges_fold [of "sort rs" "[]"] by (auto simp: normalize_impact_ranges_def spaced_def)
qed

lemma one_range_at_line:
  assumes "spaced rs" "\<forall>r \<in> set rs. fst r \<le> line \<and> line \<le> snd r" "rs \<noteq> []"
  shows "\<exists>s e. rs = [(s, e)]"
proof (cases rs)
  case (Cons r rs')
  with assms show ?thesis by (cases rs'; cases r) (auto simp: spaced_def)
qed (use assms in simp)

text \<open>Ranges around one line become one range.\<close>

lemma normalize_around_line:
  assumes "1 \<le> line" "rs \<noteq> []"
    and "\<And>s e. (s, e) \<in> set rs \<Longrightarrow> s \<le> line \<and> line \<le> e \<and> line < s + 512 \<and> e < line + 512"
  shows "\<exists>s e. normalize_impact_ranges rs = [(s, e)] \<and> 1 \<le> s \<and> s \<le> line \<and> line \<le> e
     \<and> line < s + 512 \<and> e < line + 512"
proof -
  let ?n = "normalize_impact_ranges rs"
  have fold_one: "\<exists>s e. fold merge_range xs [(a, b)] = [(s, e)] \<and> s = a \<and> line \<le> e \<and> e < line + 512"
    if "\<forall>r \<in> set xs. fst r \<le> line \<and> snd r < line + 512" "line \<le> b" "b < line + 512" for xs a b
    using that
  proof (induction xs arbitrary: b)
    case (Cons x xs)
    have "merge_range x [(a, b)] = [(a, max b (max (snd x) (max (fst x) 1)))]"
      using Cons.prems assms(1) by (auto simp: merge_range_def Let_def)
    with Cons.IH [of "max b (max (snd x) (max (fst x) 1))"] Cons.prems assms(1) show ?case by auto
  qed simp
  obtain x xs where xs: "sort rs = x # xs" using assms(2)
    by (cases "sort rs") (metis set_empty set_sort, blast)
  have mem: "r \<in> set rs \<longleftrightarrow> r = x \<or> r \<in> set xs" for r using arg_cong [OF xs, of set] by auto
  have "?n = fold merge_range xs [fitted x]"
    using assms(2) xs by (simp add: normalize_impact_ranges_def merge_range_def fitted_def Let_def)
  moreover have "fst x \<le> line \<and> line \<le> snd x \<and> line < fst x + 512 \<and> snd x < line + 512"
    using assms(3) [of "fst x" "snd x"] mem [of x] by simp
  moreover have "\<forall>r \<in> set xs. fst r \<le> line \<and> snd r < line + 512"
    using assms(3) mem by (metis prod.collapse)
  ultimately show ?thesis
    using fold_one [of xs "snd (fitted x)" "fst (fitted x)"] assms(1)
    by (auto simp: fitted_def)
qed

section \<open>Every occurrence of a symbol is between its first and last line\<close>

definition tables_ok :: "symbol_tables \<Rightarrow> bool" where
  "tables_ok t \<longleftrightarrow>
     (\<forall>id a b. snd t id = Some (a, b) \<longrightarrow> 1 \<le> a)
     \<and> (\<forall>line ids id. fst t line = Some ids \<longrightarrow> id \<in> set ids \<longrightarrow>
          (\<exists>a b. snd t id = Some (a, b) \<and> a \<le> line \<and> line \<le> b))"

lemma note_symbol_ok:
  assumes "tables_ok t"
  shows "tables_ok (note_symbol fx line sid t)"
proof (cases "line = 0")
  case False
  obtain ids_by_line symbol_lines where t: "t = (ids_by_line, symbol_lines)" by (cases t)
  define h where "h = hash_semantic_stable_id fx sid"
  have old: "\<exists>a b. symbol_lines i = Some (a, b) \<and> a \<le> l \<and> l \<le> b"
    if "ids_by_line l = Some ids" "i \<in> set ids" for l ids i
    using assms that by (auto simp: t tables_ok_def)
  have pos: "1 \<le> a" if "symbol_lines i = Some (a, b)" for i a b
    using assms that by (auto simp: t tables_ok_def)
  let ?new = "note_symbol fx line sid t"
  have fst: "fst ?new = ids_by_line(line \<mapsto> unwrap_or (ids_by_line line) [] @ [h])"
    and snd: "snd ?new = symbol_lines(h \<mapsto> (case symbol_lines h of None \<Rightarrow> (line, line)
       | Some (first, final) \<Rightarrow> (min first line, max final line)))"
    using False by (simp_all add: note_symbol_def t h_def Let_def)
  have "\<exists>a b. snd ?new i = Some (a, b) \<and> a \<le> l \<and> l \<le> b"
    if new: "fst ?new l = Some ids" "i \<in> set ids" for l ids i
  proof -
    consider "i = h" "l = line" | ids' where "ids_by_line l = Some ids'" "i \<in> set ids'"
      using new unfolding fst
      by (cases "ids_by_line line"; cases "l = line") (force simp: unwrap_or_def)+
    then show ?thesis
    proof cases
      case 1
      then show ?thesis using False
        by (cases "symbol_lines h") (auto simp: snd split: prod.splits)
    next
      case 2
      from old [OF this] obtain a b where ab: "symbol_lines i = Some (a, b)" "a \<le> l" "l \<le> b" by blast
      then show ?thesis using False by (cases "i = h") (auto simp: snd)
    qed
  qed
  moreover have "1 \<le> a" if "snd ?new i = Some (a, b)" for i a b
    using that False pos unfolding snd
    by (cases "symbol_lines h") (auto simp: min_def split: if_splits prod.splits)
  ultimately show ?thesis unfolding tables_ok_def by blast
qed (use assms in \<open>simp add: note_symbol_def split: prod.splits\<close>)

lemma tables_of_ok: "tables_ok (symbol_tables_of fx semantic)"
proof -
  have step: "tables_ok (fold (\<lambda>x. note_symbol fx (f x) (k x)) xs t)" if "tables_ok t"
    for f :: "'x \<Rightarrow> nat" and k xs t
    using that
  proof (induction xs arbitrary: t)
    case (Cons x xs)
    from Cons.IH [OF note_symbol_ok [OF Cons.prems]] show ?case by simp
  qed simp
  show ?thesis unfolding symbol_tables_of_def by (intro step) (simp add: tables_ok_def)
qed

lemma scope_range_around:
  assumes "(s, e) \<in> set (scope_ranges_of (scopes_by_width context) 512 line)"
  shows "s \<le> line \<and> line \<le> e \<and> line < s + 512 \<and> e < line + 512"
proof -
  obtain w where w: "(w, s, e) \<in> set (takeWhile (\<lambda>(width, start, finish). \<not> width + 1 > 512) (scopes_by_width context))"
    "s \<le> line" "line \<le> e"
    using assms unfolding scope_ranges_of_def
    by (auto simp del: set_takeWhileD dest!: in_set_takeD)
  then have "w = e - s" "w + 1 \<le> 512"
    by (auto simp: scopes_by_width_def Let_def dest!: set_takeWhileD)
  with w show ?thesis by auto
qed

lemma symbol_range_around:
  assumes "(s, e) \<in> set (symbol_ranges_of (snd tables) 512 (line_symbol_ids (fst tables) line))"
    and "tables_ok tables"
  shows "s \<le> line \<and> line \<le> e \<and> line < s + 512 \<and> e < line + 512"
proof -
  obtain id a b where id: "id \<in> set (line_symbol_ids (fst tables) line)" "snd tables id = Some (a, b)"
    "b - a + 1 \<le> 512" "s = max a 1" "e = max b 1"
  proof -
    let ?f = "\<lambda>stable. case snd tables stable of None \<Rightarrow> None
      | Some (start, finish) \<Rightarrow> if finish - start + 1 \<le> 512 then Some (max start 1, max finish 1) else None"
    obtain id where "id \<in> set (line_symbol_ids (fst tables) line)" "?f id = Some (s, e)"
      using assms(1) unfolding symbol_ranges_of_def List.map_filter_def by force
    then show ?thesis
      by (cases "snd tables id") (auto split: if_splits intro: that)
  qed
  then obtain ids where "fst tables line = Some ids" "id \<in> set ids"
    by (cases "fst tables line") (auto simp: line_symbol_ids_def unwrap_or_def)
  with id assms(2) have "1 \<le> a" "a \<le> line" "line \<le> b" unfolding tables_ok_def by force+
  with id show ?thesis by auto
qed

lemma fallback_around:
  "1 \<le> line \<Longrightarrow> radius < 512 \<Longrightarrow> fallback_range radius line = (s, e)
    \<Longrightarrow> s \<le> line \<and> line \<le> e \<and> line < s + 512 \<and> e < line + 512 \<and> 1 \<le> s"
  by (auto simp: fallback_range_def)

lemma line_impact_single:
  assumes "1 \<le> line" "radius < 512" "tables_ok tables"
  shows "\<exists>s e. line_impact_ranges (scopes_by_width context) tables radius line = [(s, e)]
     \<and> 1 \<le> s \<and> s \<le> line \<and> line \<le> e \<and> line < s + 512 \<and> e < line + 512"
proof -
  define found where "found = scope_ranges_of (scopes_by_width context) 512 line
    @ symbol_ranges_of (snd tables) 512 (line_symbol_ids (fst tables) line)"
  define ranges where "ranges = (if found = [] then [fallback_range radius line] else found)"
  have "s \<le> line \<and> line \<le> e \<and> line < s + 512 \<and> e < line + 512" if "(s, e) \<in> set ranges" for s e
  proof (cases "found = []")
    case True
    with that have "fallback_range radius line = (s, e)" by (simp add: ranges_def)
    from fallback_around [OF assms(1,2) this] show ?thesis by blast
  next
    case False
    with that have "(s, e) \<in> set found" by (simp add: ranges_def)
    then show ?thesis
      using scope_range_around symbol_range_around [OF _ assms(3)] unfolding found_def by (auto simp del: One_nat_def)
  qed
  moreover have "ranges \<noteq> []" by (simp add: ranges_def)
  ultimately obtain s e where n: "normalize_impact_ranges ranges = [(s, e)]"
    "1 \<le> s \<and> s \<le> line \<and> line \<le> e \<and> line < s + 512 \<and> e < line + 512"
    using normalize_around_line [OF assms(1), of ranges] by blast
  have "line_impact_ranges (scopes_by_width context) tables radius line = [(s, e)]"
    using n(1) unfolding line_impact_ranges_def Let_def ranges_def found_def
    by (simp add: convergence_max_impact_ranges_per_line_def)
  with n(2) show ?thesis by blast
qed

lemma impact_lines_pos: "line \<in> set (impact_lines result) \<Longrightarrow> 1 \<le> line"
  by (auto simp: impact_lines_def dest!: in_set_takeD)

lemma map_of_graph: "map_of (map (\<lambda>x. (x, f x)) xs) x = (if x \<in> set xs then Some (f x) else None)"
  by (induction xs) auto

lemma line_symbol_ids_sorted: "sorted_wrt (<) (line_symbol_ids ids line)"
  by (simp add: line_symbol_ids_def strict_sorted_iff)

text \<open>What the maps hold for a line.\<close>

lemma impact_maps:
  assumes "max radius 1 < 512" and maps: "build_semantic_impact_maps fx result semantic radius = (ranges, symbols)"
  shows "dom ranges = set (impact_lines result)"
    and "ranges line = Some rs \<Longrightarrow>
      \<exists>s e. rs = [(s, e)] \<and> 1 \<le> s \<and> s \<le> line \<and> line \<le> e \<and> line < s + 512 \<and> e < line + 512"
    and "symbols line = Some ids \<Longrightarrow> line \<in> set (impact_lines result) \<and> ids \<noteq> [] \<and> sorted_wrt (<) ids"
proof -
  have fb: "\<exists>s e. [fallback_range (max radius 1) line] = [(s, e)] \<and> 1 \<le> s \<and> s \<le> line \<and> line \<le> e
      \<and> line < s + 512 \<and> e < line + 512" if "1 \<le> line" for line
    using fallback_around [OF that assms(1)] by (cases "fallback_range (max radius 1) line") auto
  have lr: "\<exists>s e. line_impact_ranges (scopes_by_width c) (symbol_tables_of fx c) (max radius 1) line
      = [(s, e)] \<and> 1 \<le> s \<and> s \<le> line \<and> line \<le> e \<and> line < s + 512 \<and> e < line + 512"
    if "1 \<le> line" for line c
    by (rule line_impact_single [OF that assms(1) tables_of_ok])
  show "dom ranges = set (impact_lines result)"
    using maps by (auto simp: build_semantic_impact_maps_def map_of_graph Let_def dom_def
        split: option.splits if_splits)
  show "\<exists>s e. rs = [(s, e)] \<and> 1 \<le> s \<and> s \<le> line \<and> line \<le> e \<and> line < s + 512 \<and> e < line + 512"
    if "ranges line = Some rs"
    using that maps fb lr impact_lines_pos
    by (auto simp: build_semantic_impact_maps_def map_of_graph Let_def split: option.splits if_splits)
  show "line \<in> set (impact_lines result) \<and> ids \<noteq> [] \<and> sorted_wrt (<) ids" if "symbols line = Some ids"
    using that maps
    by (auto simp: build_semantic_impact_maps_def map_of_graph Let_def line_symbol_ids_sorted
        split: option.splits if_splits)
qed


lemma failure_penalty_radius: "snd (failure_penalty failures p) \<le> max (snd p) 2"
  by (cases p) (auto simp: failure_penalty_def)

lemma edit_radius_bounds: "1 \<le> edit_radius result \<and> edit_radius result \<le> 3"
  by (simp add: edit_radius_def)

lemma signal_radius:
  assumes "sg = build_convergence_signal fx result semantic totals failures capability cap adaptive"
  shows "\<exists>p. snd p \<le> 3 \<and> sg_impact_radius sg
    = (case cap of None \<Rightarrow> min (max (snd (failure_penalty failures p)) (edit_radius result)) 8
       | Some c \<Rightarrow> min (min (max (snd (failure_penalty failures p)) (edit_radius result)) 8) (max c 1))"
proof -
  let ?p = "case semantic of
      Some c \<Rightarrow> (context_confidence c totals (semantic_confidence_bp_base adaptive), max 0 (reference_radius totals))
    | None \<Rightarrow> (semantic_confidence_bp_base adaptive - 100, 0)"
  have "snd ?p \<le> 3" by (simp add: reference_radius_def split: option.split)
  then show ?thesis
    unfolding assms build_convergence_signal_def Let_def
    by (intro exI [of _ ?p]) (cases semantic; cases cap; simp add: split_beta)
qed

lemma signal_radius_bounds:
  assumes "sg = build_convergence_signal fx result semantic totals failures capability cap adaptive"
  shows "1 \<le> sg_impact_radius sg \<and> sg_impact_radius sg \<le> 3"
proof -
  obtain p where p: "snd p \<le> 3" "sg_impact_radius sg
    = (case cap of None \<Rightarrow> min (max (snd (failure_penalty failures p)) (edit_radius result)) 8
       | Some c \<Rightarrow> min (min (max (snd (failure_penalty failures p)) (edit_radius result)) 8) (max c 1))"
    using signal_radius [OF assms] by blast
  define r where "r = max (snd (failure_penalty failures p)) (edit_radius result)"
  have "1 \<le> r \<and> r \<le> 3"
    using failure_penalty_radius [of failures p] edit_radius_bounds [of result] p(1) unfolding r_def by linarith
  then show ?thesis unfolding p(2) r_def [symmetric] by (cases cap) auto
qed

text \<open>
  \<^bold>\<open>C26\<close>. The signal of a policy is bounded: the confidence by 1000 basis points, the radius between
  1 and 3.  Each of the first 256 edited lines, and no other line, has an impact range, and it is
  one interval around the line that reaches less than 512 lines in either direction; the symbol
  identifiers of a line are sorted and distinct.
\<close>

theorem signal_bounded:
  "let sg = build_convergence_signal fx result semantic totals failures capability cap adaptive in
     sg_semantic_confidence_bp sg \<le> 1000
     \<and> 1 \<le> sg_impact_radius sg \<and> sg_impact_radius sg \<le> 3
     \<and> (\<forall>line. case sg_impact_ranges sg line of
          None \<Rightarrow> line \<notin> set (impact_lines result)
        | Some ranges \<Rightarrow> line \<in> set (impact_lines result)
            \<and> (\<exists>s e. ranges = [(s, e)] \<and> 1 \<le> s \<and> s \<le> line \<and> line \<le> e \<and> line < s + 512 \<and> e < line + 512))
     \<and> (\<forall>line. case sg_symbol_ids sg line of
          None \<Rightarrow> True
        | Some ids \<Rightarrow> line \<in> set (impact_lines result) \<and> sorted_wrt (<) ids)"
proof -
  define sg where "sg = build_convergence_signal fx result semantic totals failures capability cap adaptive"
  note radius = signal_radius_bounds [OF sg_def]
  have maps: "build_semantic_impact_maps fx result semantic (sg_impact_radius sg)
      = (sg_impact_ranges sg, sg_symbol_ids sg)"
    unfolding sg_def build_convergence_signal_def Let_def by (simp add: split_beta)
  have small: "max (sg_impact_radius sg) 1 < 512" using radius by auto
  note m = impact_maps [OF small maps]
  have "sg_semantic_confidence_bp sg \<le> 1000"
    unfolding sg_def build_convergence_signal_def Let_def by (simp add: split_beta)
  moreover have "case sg_impact_ranges sg line of
          None \<Rightarrow> line \<notin> set (impact_lines result)
        | Some ranges \<Rightarrow> line \<in> set (impact_lines result)
            \<and> (\<exists>s e. ranges = [(s, e)] \<and> 1 \<le> s \<and> s \<le> line \<and> line \<le> e \<and> line < s + 512 \<and> e < line + 512)"
    for line
    using m(1) m(2) [of line] by (cases "sg_impact_ranges sg line") auto
  moreover have "case sg_symbol_ids sg line of None \<Rightarrow> True
      | Some ids \<Rightarrow> line \<in> set (impact_lines result) \<and> sorted_wrt (<) ids" for line
    using m(3) [of line] by (cases "sg_symbol_ids sg line") auto
  ultimately show ?thesis using radius unfolding sg_def [symmetric] Let_def by blast
qed

end
