(* ===== verification/Proposer.thy ===== *)
theory Proposer
  imports Semantic_Impact Conflict_Solver
begin

unbundle bit_operations_syntax

text \<open>
  \<^verbatim>\<open>src/src/engine/proposer.rs\<close>: the edits of a policy become candidates, and the guardian sorts out
  the ones it does not let pass.  Outside tests the project query only delegates to the semantic
  query of the file, so the model has the latter; \<open>rustc_hash\<close> is the parameter \<open>fx\<close>.
\<close>

section \<open>Candidates\<close>

record proposal_context =
  px_query :: semantic_context_query
  px_comment_lines :: "nat set option"
  px_signal :: convergence_signal
  px_capability :: policy_capabilities
  px_confidence :: real
  px_adaptive :: certainty_filter_state

definition zone_for_line ::
    "cpp_grammar \<Rightarrow> nat \<Rightarrow> semantic_context_query \<Rightarrow> nat set option \<Rightarrow> policy_zone" where
  "zone_for_line g line q comment_lines =
     (if list_ex (\<lambda>region. is_preprocessor_scope g (rg_kind_id region)) (regions_for_line q line)
      then Preprocessor
      else if (case query_region_at q line 1 of
                 None \<Rightarrow> False | Some region \<Rightarrow> is_preprocessor_scope g (rg_kind_id region))
      then Preprocessor
      else if (case query_scope_at q line 1 of
                 None \<Rightarrow> False | Some scope \<Rightarrow> is_preprocessor_scope g (sc_node_kind_id scope))
      then Preprocessor
      else if is_macro_region q line 1 then Preprocessor
      else if (case comment_lines of None \<Rightarrow> False | Some lines \<Rightarrow> line \<in> lines) then Comments
      else Code)"

definition text_fingerprint :: "fx_hasher \<Rightarrow> rstr \<Rightarrow> u64" where
  "text_fingerprint fx v = fx_str fx v"

definition line_column_fingerprint :: "fx_hasher \<Rightarrow> nat \<Rightarrow> nat \<Rightarrow> u64" where
  "line_column_fingerprint fx line column =
     text_fingerprint fx (nat_to_string line @ [colon] @ nat_to_string column)"

definition style_gain :: "rstr \<Rightarrow> rstr \<Rightarrow> certainty_filter_state \<Rightarrow> real" where
  "style_gain before after adaptive =
     (if before = after then 0
      else
        let before_trimmed = trim before;
            after_trimmed = trim after;
            whitespace_change = (if before_trimmed = after_trimmed then 1 else 0);
            delta = real (abs_diff (length before_trimmed) (length after_trimmed));
            normalized_delta = min (delta / 32) 1;
            (base, ws_bonus, delta_bonus) = style_gain_weights adaptive
        in base + whitespace_change * ws_bonus + (1 - normalized_delta) * delta_bonus)"

text \<open>The clauses an edit of a line touches.\<close>

definition hard_constraints_at :: "cpp_grammar \<Rightarrow> semantic_context_query \<Rightarrow> nat \<Rightarrow> u16" where
  "hard_constraints_at g q line =
     (let h = 0;
          h = (if is_macro_region q line 1 then h OR clause_bit MacroRegionSafety else h);
          h = (if \<not> is_safe_edit g q line 1 then h OR clause_bit EditSafety else h)
      in if \<not> is_available q then h OR clause_bit ParserAvailability else h)"

definition symbol_footprint_of ::
    "fx_hasher \<Rightarrow> semantic_context_query \<Rightarrow> convergence_signal \<Rightarrow> nat \<Rightarrow> u64 list" where
  "symbol_footprint_of fx q signal line =
     (let footprint = unwrap_or (sg_symbol_ids signal line) [];
          footprint =
            (case symbol_at q line 1 [] of
               None \<Rightarrow> footprint
             | Some symbol \<Rightarrow>
                 footprint
                 @ (if decl_by_id q (sd_stable_id symbol) \<noteq> None
                    then [text_fingerprint fx (sd_stable_id symbol)] else [])
                 @ map (\<lambda>r. line_column_fingerprint fx (sr_line r) (sr_column r))
                     (references_of q (sd_stable_id symbol)))
      in sort (remdups footprint))"

definition candidate_of ::
    "fx_hasher \<Rightarrow> cpp_grammar \<Rightarrow> rstr \<Rightarrow> proposal_context \<Rightarrow> edit \<Rightarrow> edit_candidate" where
  "candidate_of fx g policy_name ctx e =
     (let adaptive = px_adaptive ctx;
          richness_radius = nat \<lfloor>clamp (real_of_int (round (richness_multiplier adaptive))) 1 3\<rfloor>
      in \<lparr>ec_policy = policy_name, ec_line = e_line e,
          ec_confidence =
            clamp (px_confidence ctx - confidence_penalty adaptive - trust_deficit_penalty adaptive) 0 1,
          ec_style_gain = style_gain (e_before e) (e_after e) adaptive,
          ec_risk_tier = cap_risk_tier (px_capability ctx),
          ec_impact_radius = max (max (sg_impact_radius (px_signal ctx)) 1) richness_radius,
          ec_symbol_footprint = symbol_footprint_of fx (px_query ctx) (px_signal ctx) (e_line e),
          ec_range_footprint =
            unwrap_or (sg_impact_ranges (px_signal ctx) (e_line e)) [(e_line e, e_line e)],
          ec_hard_constraints_touched = hard_constraints_at g (px_query ctx) (e_line e),
          ec_zone = zone_for_line g (e_line e) (px_query ctx) (px_comment_lines ctx),
          ec_after_fingerprint = text_fingerprint fx (e_after e)\<rparr>)"

definition propose ::
    "fx_hasher \<Rightarrow> cpp_grammar \<Rightarrow> rstr \<Rightarrow> policy_result \<Rightarrow> proposal_context \<Rightarrow> edit_candidate list" where
  "propose fx g policy_name result ctx =
     map (candidate_of fx g policy_name ctx)
       (filter (\<lambda>e. \<not> (e_line e = 0 \<or> e_before e = e_after e)) (pr_edits result))"

section \<open>The guardian\<close>

record guardian_assessment =
  ga_allowed :: "edit_candidate list"
  ga_blocked_zone_lines :: "nat set"
  ga_hard_blocked_lines :: "nat set"

definition touches_hard_clause :: "edit_candidate \<Rightarrow> bool" where
  "touches_hard_clause candidate =
     list_ex (\<lambda>clause.
         let spec_hard = (case invariant_spec clause of None \<Rightarrow> True | Some spec \<Rightarrow> is_hard spec)
         in if \<not> spec_hard then False else True)
       (filter (\<lambda>clause. ec_hard_constraints_touched candidate AND clause_bit clause \<noteq> 0) all_clauses)"

definition assess_one ::
    "policy_capabilities \<Rightarrow> edit_candidate \<Rightarrow> guardian_assessment \<Rightarrow> guardian_assessment" where
  "assess_one capability candidate a =
     (let zone_relaxed = False;
          zone_ok = (zone_relaxed \<and> ec_zone candidate \<noteq> Preprocessor)
      in if \<not> allows_zone capability (ec_zone candidate) \<and> \<not> zone_ok
         then a\<lparr>ga_blocked_zone_lines := insert (ec_line candidate) (ga_blocked_zone_lines a)\<rparr>
         else if touches_hard_clause candidate
         then a\<lparr>ga_hard_blocked_lines := insert (ec_line candidate) (ga_hard_blocked_lines a)\<rparr>
         else a\<lparr>ga_allowed := ga_allowed a @ [candidate]\<rparr>)"

definition assess :: "edit_candidate list \<Rightarrow> policy_capabilities \<Rightarrow> guardian_assessment" where
  "assess candidates capability =
     fold (assess_one capability) candidates
       \<lparr>ga_allowed = [], ga_blocked_zone_lines = {}, ga_hard_blocked_lines = {}\<rparr>"

section \<open>What a candidate and an assessment hold\<close>

lemma touches_hard_eq: "touches_hard_clause c \<longleftrightarrow> violates_hard_constraints c"
  by (simp add: touches_hard_clause_def violates_hard_constraints_def Let_def)

lemma assess_fold:
  "fold (assess_one capability) cs a =
     \<lparr>ga_allowed = ga_allowed a
        @ filter (\<lambda>c. allows_zone capability (ec_zone c) \<and> \<not> violates_hard_constraints c) cs,
      ga_blocked_zone_lines = ga_blocked_zone_lines a
        \<union> ec_line ` {c \<in> set cs. \<not> allows_zone capability (ec_zone c)},
      ga_hard_blocked_lines = ga_hard_blocked_lines a
        \<union> ec_line ` {c \<in> set cs. allows_zone capability (ec_zone c) \<and> violates_hard_constraints c}\<rparr>"
  by (induction cs arbitrary: a)
    (auto simp: assess_one_def touches_hard_eq Let_def)

lemma assess_simps:
  "ga_allowed (assess cs capability)
     = filter (\<lambda>c. allows_zone capability (ec_zone c) \<and> \<not> violates_hard_constraints c) cs"
  "ga_blocked_zone_lines (assess cs capability)
     = ec_line ` {c \<in> set cs. \<not> allows_zone capability (ec_zone c)}"
  "ga_hard_blocked_lines (assess cs capability)
     = ec_line ` {c \<in> set cs. allows_zone capability (ec_zone c) \<and> violates_hard_constraints c}"
  by (simp_all add: assess_def assess_fold)

lemma candidate_simps [simp]:
  "ec_policy (candidate_of fx g p ctx e) = p"
  "ec_line (candidate_of fx g p ctx e) = e_line e"
  "ec_zone (candidate_of fx g p ctx e) = zone_for_line g (e_line e) (px_query ctx) (px_comment_lines ctx)"
  "ec_hard_constraints_touched (candidate_of fx g p ctx e) = hard_constraints_at g (px_query ctx) (e_line e)"
  "ec_symbol_footprint (candidate_of fx g p ctx e)
     = symbol_footprint_of fx (px_query ctx) (px_signal ctx) (e_line e)"
  "ec_range_footprint (candidate_of fx g p ctx e)
     = unwrap_or (sg_impact_ranges (px_signal ctx) (e_line e)) [(e_line e, e_line e)]"
  by (simp_all add: candidate_of_def Let_def)

text \<open>The bits are apart, so a clause is touched exactly when its condition holds.\<close>

lemma hard_bits:
  "hard_constraints_at g q line AND clause_bit clause \<noteq> 0 \<longleftrightarrow>
     (case clause of
        MacroRegionSafety \<Rightarrow> is_macro_region q line 1
      | EditSafety \<Rightarrow> \<not> is_safe_edit g q line 1
      | ParserAvailability \<Rightarrow> \<not> is_available q
      | _ \<Rightarrow> False)"
  by (cases clause) (simp_all add: hard_constraints_at_def Let_def)

lemma candidate_violates_hard:
  "violates_hard_constraints (candidate_of fx g p ctx e) \<longleftrightarrow>
     \<not> is_safe_edit g (px_query ctx) (e_line e) 1 \<or> \<not> is_available (px_query ctx)"
  unfolding violates_hard_iff candidate_simps hard_bits
proof -
  have "(\<exists>clause. clause \<noteq> MacroRegionSafety \<and> P clause) \<longleftrightarrow> P EditSafety \<or> P ParserAvailability"
    if "\<And>clause. P clause \<Longrightarrow> clause \<in> {MacroRegionSafety, EditSafety, ParserAvailability}" for P
    using that by auto
  from this [of "\<lambda>clause. case clause of MacroRegionSafety \<Rightarrow> is_macro_region (px_query ctx) (e_line e) 1
      | EditSafety \<Rightarrow> \<not> is_safe_edit g (px_query ctx) (e_line e) 1
      | ParserAvailability \<Rightarrow> \<not> is_available (px_query ctx) | _ \<Rightarrow> False"]
  show "(\<exists>clause. clause \<noteq> MacroRegionSafety \<and> (case clause of
        MacroRegionSafety \<Rightarrow> is_macro_region (px_query ctx) (e_line e) 1
      | EditSafety \<Rightarrow> \<not> is_safe_edit g (px_query ctx) (e_line e) 1
      | ParserAvailability \<Rightarrow> \<not> is_available (px_query ctx) | _ \<Rightarrow> False))
    \<longleftrightarrow> \<not> is_safe_edit g (px_query ctx) (e_line e) 1 \<or> \<not> is_available (px_query ctx)"
    by (simp split: semantic_invariant_clause.splits)
qed

lemma safe_edit_facts:
  assumes "is_safe_edit g q line 1" "1 \<le> line"
  shows "is_available q \<and> \<not> is_macro_region q line 1"
  using assms by (auto simp: is_safe_edit_def is_safe_edit_at_def source_location_new_def split: if_splits)

text \<open>
  \<^bold>\<open>C17\<close>. A candidate passes the guardian only if its line is in a zone the policy may edit, is safe
  to edit by the semantic context, and is in no preprocessor region.  So no policy, not even one
  whose zones include the preprocessor, gets an edit of a line between \<open>#if\<close> and \<open>#endif\<close> past
  the guardian, and the solver that follows blocks nothing for a hard constraint again.
\<close>

theorem guardian_passes_safe_lines:
  "let allowed = ga_allowed (assess (propose fx g policy_name result ctx) capability) in
     list_all (\<lambda>c. allows_zone capability (ec_zone c)
        \<and> is_safe_edit g (px_query ctx) (ec_line c) 1
        \<and> \<not> is_macro_region (px_query ctx) (ec_line c) 1) allowed
     \<and> cr_hard_blocked_lines (solve (filter p allowed) already_selected stage adaptive) = {}"
proof -
  define allowed where "allowed = ga_allowed (assess (propose fx g policy_name result ctx) capability)"
  have "allows_zone capability (ec_zone c) \<and> is_safe_edit g (px_query ctx) (ec_line c) 1
      \<and> \<not> is_macro_region (px_query ctx) (ec_line c) 1" if c: "c \<in> set allowed" for c
  proof -
    obtain e where e: "c = candidate_of fx g policy_name ctx e" "e_line e \<noteq> 0"
      "allows_zone capability (ec_zone c)" "\<not> violates_hard_constraints c"
      using c by (auto simp: allowed_def assess_simps propose_def)
    then have "is_safe_edit g (px_query ctx) (e_line e) 1" by (simp add: candidate_violates_hard)
    with e safe_edit_facts show ?thesis by fastforce
  qed
  moreover have "cr_hard_blocked_lines (solve (filter p allowed) already_selected stage adaptive) = {}"
  proof (cases "filter p allowed = []")
    case False
    have "\<not> violates_hard_constraints c" if "c \<in> set (filter p allowed)" for c
      using that by (auto simp: allowed_def assess_simps)
    with consolidate_spec(1) [of "filter p allowed" stage adaptive]
    show ?thesis unfolding solve_unfold [OF False] by auto
  qed (simp add: solve_def)
  ultimately show ?thesis
    unfolding allowed_def [symmetric] Let_def by (auto simp: list_all_iff)
qed

text \<open>
  The candidates are what the solver expects: each has a sorted footprint of symbols without
  duplicates, so that the conflict relation between candidates is symmetric, and with the signal
  of its policy one range around its line.
\<close>

theorem proposals_fit_solver:
  fixes fx g policy_name result query comment_lines semantic totals failures capability cap confidence adaptive
  defines "ctx \<equiv> \<lparr>px_query = query, px_comment_lines = comment_lines,
      px_signal = build_convergence_signal fx result semantic totals failures capability cap adaptive,
      px_capability = capability, px_confidence = confidence, px_adaptive = adaptive\<rparr>"
  shows "list_all (\<lambda>c. sorted_footprint c \<and> (\<exists>s e. ec_range_footprint c = [(s, e)] \<and> s \<le> ec_line c \<and> ec_line c \<le> e)
            \<and> list_all (\<lambda>d. conflicts c d adaptive = conflicts d c adaptive)
                (propose fx g policy_name result ctx))
          (propose fx g policy_name result ctx)"
proof -
  let ?sg = "px_signal ctx"
  have radius: "max (sg_impact_radius ?sg) 1 < 512"
    using signal_radius_bounds [of ?sg fx result semantic totals failures capability cap adaptive]
    by (simp add: ctx_def)
  have maps: "build_semantic_impact_maps fx result semantic (sg_impact_radius ?sg)
      = (sg_impact_ranges ?sg, sg_symbol_ids ?sg)"
    unfolding ctx_def build_convergence_signal_def Let_def by (simp add: split_beta)
  have sorted: "sorted_footprint c" if "c \<in> set (propose fx g policy_name result ctx)" for c
    using that by (auto simp: propose_def sorted_footprint_def symbol_footprint_of_def Let_def strict_sorted_iff)
  have range: "\<exists>s e. ec_range_footprint c = [(s, e)] \<and> s \<le> ec_line c \<and> ec_line c \<le> e"
    if c: "c \<in> set (propose fx g policy_name result ctx)" for c
  proof -
    obtain e where e: "c = candidate_of fx g policy_name ctx e" using c by (auto simp: propose_def)
    show ?thesis
    proof (cases "sg_impact_ranges ?sg (e_line e)")
      case (Some rs)
      from impact_maps(2) [OF radius maps this] show ?thesis by (auto simp: e Some)
    qed (simp add: e)
  qed
  show ?thesis using sorted range conflicts_sym by (auto simp: list_all_iff)
qed

end
