(* ===== verification/Policy_Learning.thy ===== *)
theory Policy_Learning
  imports Certainty_Filter File_Unit File_Context
begin

text \<open>
  What a run learns about single policies: how often a policy's edits are overwritten or dropped
  (\<^verbatim>\<open>src/src/engine/policy_interference.rs\<close>), with the execution order that follows from it, and the
  modifiers by kind of file and block (\<^verbatim>\<open>src/src/engine/context_tracker.rs\<close>).  An \<open>f64\<close> or \<open>f32\<close> is a
  real; the persistence by \<^verbatim>\<open>postcard\<close> is not modelled.
\<close>

section \<open>One scalar Kalman filter\<close>

definition default_estimate :: real where "default_estimate = 0"
definition default_variance :: real where "default_variance = 0.10"
definition scalar_q :: real where "scalar_q = 0.0001"
definition scalar_r :: real where "scalar_r = 0.02"
definition scalar_q_floor :: real where "scalar_q_floor = 1 / 10 ^ 6"
definition scalar_q_ceil :: real where "scalar_q_ceil = 0.05"
definition scalar_r_floor :: real where "scalar_r_floor = 0.002"
definition scalar_r_ceil :: real where "scalar_r_ceil = 0.15"
definition scalar_min_obs :: nat where "scalar_min_obs = 3"
definition scalar_window :: real where "scalar_window = 20"

definition u32_max :: nat where "u32_max = 2 ^ 32 - 1"

record scalar_kalman =
  ks_estimate :: real
  ks_variance :: real
  ks_adaptive_q :: real
  ks_adaptive_r :: real
  ks_observation_count :: nat

definition scalar_new :: scalar_kalman where
  "scalar_new = \<lparr>ks_estimate = default_estimate, ks_variance = default_variance,
     ks_adaptive_q = scalar_q, ks_adaptive_r = scalar_r, ks_observation_count = 0\<rparr>"

definition scalar_stddev :: "scalar_kalman \<Rightarrow> real" where
  "scalar_stddev s = sqrt (max (ks_variance s) 0)"

definition count_up :: "scalar_kalman \<Rightarrow> scalar_kalman" where
  "count_up s = s\<lparr>ks_observation_count := min (ks_observation_count s + 1) u32_max\<rparr>"

text \<open>The adaptation of the noise, from the third observation on.\<close>

definition adapt_scalar :: "real \<Rightarrow> real \<Rightarrow> real \<Rightarrow> real \<Rightarrow> scalar_kalman \<Rightarrow> scalar_kalman" where
  "adapt_scalar innovation p_pred k new_variance s =
     (if ks_observation_count s \<ge> scalar_min_obs
      then
        let alpha = 1 / min (real (ks_observation_count s - 1)) scalar_window;
            maturity = min (real (ks_observation_count s) / scalar_window) 1;
            innov_sq = innovation * innovation;
            r_update = innov_sq - p_pred;
            adaptive_r = (1 - alpha) * ks_adaptive_r s + alpha * r_update;
            r_floor = scalar_r_floor * (1 - maturity) + scalar_r_floor * maturity;
            r_ceil = scalar_r_ceil * (1 - maturity * 0.5) + scalar_r_ceil * 0.5;
            k_innov_sq = (k * innovation) * (k * innovation);
            q_update = k_innov_sq + new_variance - ks_variance s;
            adaptive_q = (1 - alpha) * ks_adaptive_q s + alpha * q_update;
            q_floor = scalar_q_floor * (1 - maturity) + scalar_q_floor * maturity;
            q_ceil = scalar_q_ceil * (1 - maturity * 0.5) + scalar_q_ceil * 0.5
        in s\<lparr>ks_adaptive_r := clamp adaptive_r r_floor r_ceil,
             ks_adaptive_q := clamp adaptive_q q_floor q_ceil\<rparr>
      else s)"

definition scalar_observe :: "scalar_kalman \<Rightarrow> real \<Rightarrow> scalar_kalman" where
  "scalar_observe s measurement =
     (let z = clamp measurement 0 1 in
      if ks_observation_count s = 0
      then s\<lparr>ks_estimate := z, ks_variance := scalar_r, ks_observation_count := 1\<rparr>
      else
        let p_pred = ks_variance s + ks_adaptive_q s;
            innovation = z - ks_estimate s;
            innovation_cov = p_pred + ks_adaptive_r s
        in if \<bar>innovation_cov\<bar> < 1 / 10 ^ 15 then count_up s
           else
             let k = p_pred / innovation_cov;
                 new_estimate = clamp (ks_estimate s + k * innovation) 0 1;
                 new_variance = max ((1 - k) * p_pred) (1 / 10 ^ 12);
                 s = adapt_scalar innovation p_pred k new_variance s
             in count_up (s\<lparr>ks_estimate := new_estimate, ks_variance := new_variance\<rparr>))"

section \<open>The state of all policies\<close>

record interference_state =
  is_interference :: "rstr \<rightharpoonup> scalar_kalman"
  is_repair_need :: "rstr \<rightharpoonup> scalar_kalman"

definition interference_new :: interference_state where
  "interference_new = \<lparr>is_interference = Map.empty, is_repair_need = Map.empty\<rparr>"

definition estimate_in :: "(rstr \<rightharpoonup> scalar_kalman) \<Rightarrow> rstr \<Rightarrow> real" where
  "estimate_in m policy_name = (case m policy_name of None \<Rightarrow> 0 | Some s \<Rightarrow> ks_estimate s)"

definition stddev_in :: "(rstr \<rightharpoonup> scalar_kalman) \<Rightarrow> rstr \<Rightarrow> real" where
  "stddev_in m policy_name = (case m policy_name of None \<Rightarrow> sqrt default_variance | Some s \<Rightarrow> scalar_stddev s)"

definition interference_estimate :: "interference_state \<Rightarrow> rstr \<Rightarrow> real" where
  "interference_estimate st = estimate_in (is_interference st)"

definition interference_stddev :: "interference_state \<Rightarrow> rstr \<Rightarrow> real" where
  "interference_stddev st = stddev_in (is_interference st)"

definition repair_need_estimate :: "interference_state \<Rightarrow> rstr \<Rightarrow> real" where
  "repair_need_estimate st = estimate_in (is_repair_need st)"

definition repair_need_stddev :: "interference_state \<Rightarrow> rstr \<Rightarrow> real" where
  "repair_need_stddev st = stddev_in (is_repair_need st)"

definition observe_interference :: "rstr \<Rightarrow> real \<Rightarrow> interference_state \<Rightarrow> interference_state" where
  "observe_interference policy_name ratio st =
     st\<lparr>is_interference := (is_interference st)(policy_name \<mapsto>
          scalar_observe (unwrap_or (is_interference st policy_name) scalar_new) ratio)\<rparr>"

definition observe_repair_need :: "rstr \<Rightarrow> real \<Rightarrow> interference_state \<Rightarrow> interference_state" where
  "observe_repair_need policy_name ratio st =
     st\<lparr>is_repair_need := (is_repair_need st)(policy_name \<mapsto>
          scalar_observe (unwrap_or (is_repair_need st policy_name) scalar_new) ratio)\<rparr>"

definition dynamic_priority :: "interference_state \<Rightarrow> rstr \<Rightarrow> nat \<Rightarrow> real \<Rightarrow> real" where
  "dynamic_priority st policy_name base_priority global_edit_success =
     (let interference = interference_estimate st policy_name;
          uncertainty = interference_stddev st policy_name;
          sensitivity = global_edit_success * (1 - min uncertainty 1);
          interference_shift = - interference * sensitivity * 30
      in real base_priority + interference_shift)"

definition repair_weight :: "interference_state \<Rightarrow> rstr \<Rightarrow> real \<Rightarrow> real" where
  "repair_weight st policy_name global_edit_success =
     (let repair = repair_need_estimate st policy_name;
          uncertainty = repair_need_stddev st policy_name;
          sensitivity = global_edit_success * (1 - min uncertainty 1)
      in repair * sensitivity)"

section \<open>Merging the states of several workers\<close>

definition merge_scalar_shards :: "scalar_kalman list \<Rightarrow> scalar_kalman" where
  "merge_scalar_shards shards =
     (let total_obs = sum_list (map ks_observation_count shards) in
      if total_obs = 0 then scalar_new
      else
        let weight = (\<lambda>s. real (ks_observation_count s) / real total_obs);
            est = fold (\<lambda>s acc. acc + weight s * ks_estimate s) shards 0;
            var = fold (\<lambda>s acc. acc + weight s * ks_variance s) shards 0
        in \<lparr>ks_estimate = clamp est 0 1, ks_variance = max var (1 / 10 ^ 12),
            ks_adaptive_q = scalar_q, ks_adaptive_r = scalar_r,
            ks_observation_count = min total_obs u32_max\<rparr>)"

definition merge_maps :: "(rstr \<rightharpoonup> scalar_kalman) list \<Rightarrow> (rstr \<rightharpoonup> scalar_kalman)" where
  "merge_maps maps = (\<lambda>policy.
     let shards = List.map_filter (\<lambda>m. m policy) maps in
     if shards = [] then None else Some (merge_scalar_shards shards))"

definition merge_interference :: "interference_state list \<Rightarrow> interference_state" where
  "merge_interference shards =
     \<lparr>is_interference = merge_maps (map is_interference shards),
      is_repair_need = merge_maps (map is_repair_need shards)\<rparr>"

section \<open>The invariant\<close>

definition scalar_ok :: "scalar_kalman \<Rightarrow> bool" where
  "scalar_ok s \<longleftrightarrow> 0 \<le> ks_estimate s \<and> ks_estimate s \<le> 1
     \<and> 0 < ks_variance s \<and> ks_variance s \<le> 0.225
     \<and> scalar_q_floor \<le> ks_adaptive_q s \<and> ks_adaptive_q s \<le> 0.075
     \<and> scalar_r_floor \<le> ks_adaptive_r s \<and> ks_adaptive_r s \<le> 0.225
     \<and> ks_observation_count s \<le> u32_max"

lemmas scalar_consts = default_estimate_def default_variance_def scalar_q_def scalar_r_def
  scalar_q_floor_def scalar_q_ceil_def scalar_r_floor_def scalar_r_ceil_def

lemma scalar_new_ok: "scalar_ok scalar_new"
  by (simp add: scalar_ok_def scalar_new_def scalar_consts u32_max_def)

lemma clamp_between: "lo \<le> hi \<Longrightarrow> lo \<le> clamp x lo hi \<and> clamp x lo hi \<le> hi"
  by (simp add: clamp_def)

lemma clamp_within: "lo \<le> hi \<Longrightarrow> hi \<le> c \<Longrightarrow> lo \<le> clamp x lo hi \<and> clamp x lo hi \<le> c"
  by (simp add: clamp_def)

lemma floored_variance:
  "0 \<le> y \<Longrightarrow> y \<le> 0.225 \<Longrightarrow> 0 < max y (1 / 10 ^ 12) \<and> max y (1 / 10 ^ 12) \<le> (0.225 :: real)"
  by auto

lemma blended_bounds:
  fixes m :: real
  assumes "0 \<le> m" "m \<le> 1"
  shows "a * (1 - m) + a * m = a" "0 \<le> c \<Longrightarrow> c \<le> c * (1 - m * 0.5) + c * 0.5"
    "0 \<le> c \<Longrightarrow> c * (1 - m * 0.5) + c * 0.5 \<le> 1.5 * c"
proof -
  show "a * (1 - m) + a * m = a" by (simp add: algebra_simps)
  have "c * m \<le> c" "0 \<le> c * m" if "0 \<le> c" using that assms by (simp_all add: mult_left_le)
  then show "0 \<le> c \<Longrightarrow> c \<le> c * (1 - m * 0.5) + c * 0.5"
    "0 \<le> c \<Longrightarrow> c * (1 - m * 0.5) + c * 0.5 \<le> 1.5 * c" by (auto simp: algebra_simps)
qed

lemma adapt_scalar_facts:
  fixes s inn p k v
  defines "a \<equiv> adapt_scalar inn p k v s"
  assumes "scalar_ok s"
  shows "ks_estimate a = ks_estimate s" "ks_variance a = ks_variance s"
    "ks_observation_count a = ks_observation_count s"
    "scalar_q_floor \<le> ks_adaptive_q a \<and> ks_adaptive_q a \<le> 0.075"
    "scalar_r_floor \<le> ks_adaptive_r a \<and> ks_adaptive_r a \<le> 0.225"
proof -
  show "ks_estimate a = ks_estimate s" "ks_variance a = ks_variance s"
    "ks_observation_count a = ks_observation_count s"
    by (simp_all add: a_def adapt_scalar_def Let_def)
  define m where "m = min (real (ks_observation_count s) / scalar_window) 1"
  have m: "0 \<le> m" "m \<le> 1" by (simp_all add: m_def scalar_window_def)
  note bb = blended_bounds [OF m]
  have q: "scalar_q_floor * (1 - m) + scalar_q_floor * m \<le> scalar_q_ceil * (1 - m * 0.5) + scalar_q_ceil * 0.5"
    "scalar_q_ceil * (1 - m * 0.5) + scalar_q_ceil * 0.5 \<le> 0.075"
  proof -
    have c: "0 \<le> scalar_q_ceil" "scalar_q_floor \<le> scalar_q_ceil" "1.5 * scalar_q_ceil \<le> 0.075"
      by (simp_all add: scalar_q_floor_def scalar_q_ceil_def)
    from c bb(2,3) [OF c(1)]
    show "scalar_q_floor * (1 - m) + scalar_q_floor * m \<le> scalar_q_ceil * (1 - m * 0.5) + scalar_q_ceil * 0.5"
      "scalar_q_ceil * (1 - m * 0.5) + scalar_q_ceil * 0.5 \<le> 0.075"
      unfolding bb(1) by linarith+
  qed
  have r: "scalar_r_floor * (1 - m) + scalar_r_floor * m \<le> scalar_r_ceil * (1 - m * 0.5) + scalar_r_ceil * 0.5"
    "scalar_r_ceil * (1 - m * 0.5) + scalar_r_ceil * 0.5 \<le> 0.225"
  proof -
    have c: "0 \<le> scalar_r_ceil" "scalar_r_floor \<le> scalar_r_ceil" "1.5 * scalar_r_ceil \<le> 0.225"
      by (simp_all add: scalar_r_floor_def scalar_r_ceil_def)
    from c bb(2,3) [OF c(1)]
    show "scalar_r_floor * (1 - m) + scalar_r_floor * m \<le> scalar_r_ceil * (1 - m * 0.5) + scalar_r_ceil * 0.5"
      "scalar_r_ceil * (1 - m * 0.5) + scalar_r_ceil * 0.5 \<le> 0.225"
      unfolding bb(1) by linarith+
  qed
  define qf qc rf rc where "qf = scalar_q_floor * (1 - m) + scalar_q_floor * m"
    and "qc = scalar_q_ceil * (1 - m * 0.5) + scalar_q_ceil * 0.5"
    and "rf = scalar_r_floor * (1 - m) + scalar_r_floor * m"
    and "rc = scalar_r_ceil * (1 - m * 0.5) + scalar_r_ceil * 0.5"
  have "ks_adaptive_q a = ks_adaptive_q s \<and> ks_adaptive_r a = ks_adaptive_r s
      \<or> (\<exists>x y. ks_adaptive_q a = clamp x qf qc \<and> ks_adaptive_r a = clamp y rf rc)"
    unfolding a_def adapt_scalar_def Let_def m_def qf_def qc_def rf_def rc_def by auto
  moreover have "qf = scalar_q_floor" "rf = scalar_r_floor" by (simp_all only: qf_def rf_def bb(1))
  moreover have "qf \<le> qc" "qc \<le> 0.075" "rf \<le> rc" "rc \<le> 0.225"
    using q r unfolding qf_def qc_def rf_def rc_def by blast+
  ultimately show "scalar_q_floor \<le> ks_adaptive_q a \<and> ks_adaptive_q a \<le> 0.075"
    "scalar_r_floor \<le> ks_adaptive_r a \<and> ks_adaptive_r a \<le> 0.225"
    using assms(2) clamp_within [of qf qc "0.075"] clamp_within [of rf rc "0.225"]
    unfolding scalar_ok_def by metis+
qed

text \<open>The posterior variance of an update is below the measurement noise.\<close>

lemma posterior_variance:
  fixes p r :: real
  assumes "0 < p" "0 < r" "r \<le> 0.225"
  shows "0 \<le> (1 - p / (p + r)) * p" "(1 - p / (p + r)) * p \<le> 0.225" "0 \<le> p / (p + r)" "p / (p + r) \<le> 1"
proof -
  have eq: "(1 - p / (p + r)) * p = p / (p + r) * r" using assms by (simp add: field_simps)
  show k: "0 \<le> p / (p + r)" "p / (p + r) \<le> 1" using assms by simp_all
  have "p / (p + r) * r \<le> 1 * r" using assms k by (intro mult_right_mono) simp_all
  moreover have "0 \<le> p / (p + r) * r" using assms k by (intro mult_nonneg_nonneg) simp_all
  ultimately show "0 \<le> (1 - p / (p + r)) * p" "(1 - p / (p + r)) * p \<le> 0.225"
    unfolding eq using assms(3) by linarith+
qed

lemma scalar_observe_ok:
  assumes "scalar_ok s"
  shows "scalar_ok (scalar_observe s z)"
proof (cases "ks_observation_count s = 0")
  case True
  then show ?thesis
    using assms clamp_between [of 0 1 z]
    by (simp add: scalar_observe_def scalar_ok_def scalar_r_def u32_max_def)
next
  case False
  define p where "p = ks_variance s + ks_adaptive_q s"
  define inn where "inn = clamp z 0 1 - ks_estimate s"
  define c where "c = p + ks_adaptive_r s"
  define v where "v = max ((1 - p / c) * p) (1 / 10 ^ 12)"
  define a where "a = adapt_scalar inn p (p / c) v s"
  note f = adapt_scalar_facts [OF assms, of inn p "p / c" v, folded a_def]
  have pos: "0 < p" "0 < ks_adaptive_r s" "ks_adaptive_r s \<le> 0.225" "0.002 \<le> c"
    using assms by (auto simp: scalar_ok_def p_def c_def scalar_q_floor_def scalar_r_floor_def)
  have eq: "scalar_observe s z
      = count_up (a\<lparr>ks_estimate := clamp (ks_estimate s + p / c * inn) 0 1, ks_variance := v\<rparr>)"
    using False pos(4) by (simp add: scalar_observe_def Let_def a_def v_def inn_def c_def p_def)
  have "0 < v \<and> v \<le> 0.225"
    unfolding v_def by (rule floored_variance) (use posterior_variance [OF pos(1-3)] in \<open>simp_all only: c_def\<close>)
  then show ?thesis
    using f assms clamp_between [of 0 1 "ks_estimate s + p / c * inn"]
    unfolding eq by (simp add: count_up_def scalar_ok_def)
qed


lemma weighted_sum_fold:
  "fold (\<lambda>s acc. acc + f s) xs (a :: real) = a + sum_list (map f xs)"
  by (induction xs arbitrary: a) auto

text \<open>A weighted mean is between the bounds of the values.\<close>

lemma weighted_mean_bounds:
  fixes f :: "'a \<Rightarrow> real" and n :: "'a \<Rightarrow> nat"
  assumes "sum_list (map n xs) > 0" "\<And>x. x \<in> set xs \<Longrightarrow> lo \<le> f x \<and> f x \<le> hi"
  shows "lo \<le> sum_list (map (\<lambda>x. real (n x) / real (sum_list (map n xs)) * f x) xs)"
    and "sum_list (map (\<lambda>x. real (n x) / real (sum_list (map n xs)) * f x) xs) \<le> hi"
proof -
  let ?t = "real (sum_list (map n xs))"
  have scale: "sum_list (map (\<lambda>x. real (n x) / ?t * c) xs) = c" for c
  proof -
    have "sum_list (map (\<lambda>x. real (n x) / t * c) ys) = sum_list (map (\<lambda>x. real (n x)) ys) * (c / t)"
      for t and ys by (induction ys) (simp_all add: algebra_simps add_divide_distrib)
    then have "sum_list (map (\<lambda>x. real (n x) / ?t * c) xs) = sum_list (map (\<lambda>x. real (n x)) xs) * (c / ?t)"
      by blast
    also have "sum_list (map (\<lambda>x. real (n x)) xs) = ?t" by (induction xs) auto
    finally show ?thesis using assms(1)
      by (simp only: nonzero_mult_div_cancel_left of_nat_0_less_iff times_divide_eq_right)
  qed
  have mono: "sum_list (map (\<lambda>x. real (n x) / ?t * g x) xs) \<le> sum_list (map (\<lambda>x. real (n x) / ?t * h x) xs)"
    if "\<And>x. x \<in> set xs \<Longrightarrow> g x \<le> h x" for g h
    by (intro sum_list_mono mult_left_mono that) simp_all
  from mono [of "\<lambda>_. lo" f] mono [of f "\<lambda>_. hi"] assms(2)
  show "lo \<le> sum_list (map (\<lambda>x. real (n x) / ?t * f x) xs)"
    "sum_list (map (\<lambda>x. real (n x) / ?t * f x) xs) \<le> hi" unfolding scale by blast+
qed

lemma merge_scalar_ok:
  assumes "\<And>s. s \<in> set shards \<Longrightarrow> scalar_ok s"
  shows "scalar_ok (merge_scalar_shards shards)"
proof (cases "sum_list (map ks_observation_count shards) = 0")
  case True
  then show ?thesis unfolding merge_scalar_shards_def Let_def by (simp add: scalar_new_ok del: sum_list_eq_0_iff)
next
  case False
  let ?t = "sum_list (map ks_observation_count shards)"
  have pos: "0 < ?t" by (rule gr0I) (rule False [THEN notE])
  define var where "var = sum_list (map (\<lambda>s. real (ks_observation_count s) / real ?t * ks_variance s) shards)"
  have "0 \<le> var" "var \<le> 0.225"
    unfolding var_def
    using weighted_mean_bounds [OF pos, where f = ks_variance and lo = 0 and hi = "0.225"] assms
    by (auto simp: scalar_ok_def less_imp_le)
  then have "0 < max var (1 / 10 ^ 12) \<and> max var (1 / 10 ^ 12) \<le> 0.225" by (rule floored_variance)
  moreover have "merge_scalar_shards shards
      = \<lparr>ks_estimate = clamp (sum_list (map (\<lambda>s. real (ks_observation_count s) / real ?t * ks_estimate s) shards)) 0 1,
         ks_variance = max var (1 / 10 ^ 12), ks_adaptive_q = scalar_q, ks_adaptive_r = scalar_r,
         ks_observation_count = min ?t u32_max\<rparr>"
    using False unfolding merge_scalar_shards_def Let_def weighted_sum_fold var_def add_0 by argo
  ultimately show ?thesis
    using clamp_between [of 0 1] by (simp add: scalar_ok_def scalar_consts)
qed

definition interference_ok :: "interference_state \<Rightarrow> bool" where
  "interference_ok st \<longleftrightarrow>
     (\<forall>s \<in> ran (is_interference st) \<union> ran (is_repair_need st). scalar_ok s)"

inductive reachable_interference :: "interference_state \<Rightarrow> bool" where
  reach_new: "reachable_interference interference_new"
| reach_interference:
    "reachable_interference st \<Longrightarrow> reachable_interference (observe_interference policy ratio st)"
| reach_repair:
    "reachable_interference st \<Longrightarrow> reachable_interference (observe_repair_need policy ratio st)"
| reach_merge:
    "list_all reachable_interference shards \<Longrightarrow> reachable_interference (merge_interference shards)"

lemma ran_upd: "x \<in> ran (m(k \<mapsto> v)) \<Longrightarrow> x = v \<or> x \<in> ran m"
  by (auto simp: ran_def split: if_splits)

lemma observed_ok:
  assumes "\<forall>s \<in> ran m. scalar_ok s" "x \<in> ran (m(p \<mapsto> scalar_observe (unwrap_or (m p) scalar_new) r))"
  shows "scalar_ok x"
proof -
  have "scalar_ok (unwrap_or (m p) scalar_new)"
    using assms(1) scalar_new_ok by (cases "m p") (auto intro: ranI)
  with ran_upd [OF assms(2)] assms(1) show ?thesis by (auto intro: scalar_observe_ok)
qed

lemma merged_map_ok:
  assumes "\<And>m s. m \<in> set maps \<Longrightarrow> s \<in> ran m \<Longrightarrow> scalar_ok s" "x \<in> ran (merge_maps maps)"
  shows "scalar_ok x"
proof -
  obtain p where p: "x = merge_scalar_shards (List.map_filter (\<lambda>m. m p) maps)"
    using assms(2) by (auto simp: ran_def merge_maps_def Let_def split: if_splits)
  show ?thesis unfolding p
    by (rule merge_scalar_ok) (auto simp: List.map_filter_def ran_def intro!: assms(1))
qed

lemma reachable_ok: "reachable_interference st \<Longrightarrow> interference_ok st"
proof (induction rule: reachable_interference.induct)
  case reach_new
  then show ?case by (simp add: interference_ok_def interference_new_def)
next
  case (reach_interference st policy ratio)
  then show ?case
    using observed_ok [of "is_interference st"]
    unfolding interference_ok_def observe_interference_def by auto
next
  case (reach_repair st policy ratio)
  then show ?case
    using observed_ok [of "is_repair_need st"]
    unfolding interference_ok_def observe_repair_need_def by auto
next
  case (reach_merge shards)
  have "scalar_ok x" if "st \<in> set shards" "x \<in> ran (is_interference st) \<union> ran (is_repair_need st)" for st x
    using reach_merge that unfolding list_all_iff interference_ok_def by blast
  then have "scalar_ok x" if "x \<in> ran (merge_maps (map is_interference shards))
      \<union> ran (merge_maps (map is_repair_need shards))" for x
    using that merged_map_ok [of "map is_interference shards" x] merged_map_ok [of "map is_repair_need shards" x]
    by force
  then show ?case unfolding interference_ok_def merge_interference_def by simp
qed

lemma estimate_bounds:
  assumes "\<forall>s \<in> ran m. scalar_ok s"
  shows "0 \<le> estimate_in m p \<and> estimate_in m p \<le> 1" "0 \<le> stddev_in m p \<and> stddev_in m p < 1 / 2"
proof -
  have small: "sqrt v < 1 / 2" if "v \<le> 0.225" for v :: real
  proof -
    have "sqrt v < sqrt ((1 / 2)\<^sup>2)" using that by (intro real_sqrt_less_mono) (simp add: power2_eq_square)
    then show ?thesis by simp
  qed
  have ok: "scalar_ok s" if "m p = Some s" for s using assms that by (auto intro: ranI)
  show "0 \<le> estimate_in m p \<and> estimate_in m p \<le> 1"
    using ok by (cases "m p") (auto simp: estimate_in_def scalar_ok_def)
  show "0 \<le> stddev_in m p \<and> stddev_in m p < 1 / 2"
  proof (cases "m p")
    case None
    then show ?thesis using small [of default_variance] by (simp add: stddev_in_def default_variance_def)
  next
    case (Some s)
    then show ?thesis using small [of "max (ks_variance s) 0"] ok [OF Some]
      by (simp add: stddev_in_def scalar_stddev_def scalar_ok_def)
  qed
qed

text \<open>
  In every state the interference filters can reach, estimates are in the unit interval,
  variances and noises positive and bounded.  So for an edit success in the unit interval the
  dynamic priority of a policy moves at most 30 steps forward and never back, it moves strictly as
  soon as interference and success are positive, and the repair weight is in the unit interval.
\<close>

theorem interference_bounded:
  assumes "reachable_interference st" "0 \<le> success" "success \<le> 1"
  shows "interference_ok st
    \<and> real base - 30 \<le> dynamic_priority st policy base success
    \<and> dynamic_priority st policy base success \<le> real base
    \<and> (dynamic_priority st policy base success = real base
        \<longleftrightarrow> interference_estimate st policy = 0 \<or> success = 0)
    \<and> 0 \<le> repair_weight st policy success \<and> repair_weight st policy success \<le> 1"
proof -
  have ok: "interference_ok st" using assms(1) by (rule reachable_ok)
  then have i: "\<forall>s \<in> ran (is_interference st). scalar_ok s" and r: "\<forall>s \<in> ran (is_repair_need st). scalar_ok s"
    by (auto simp: interference_ok_def)
  note ib = estimate_bounds [OF i, of policy] and rb = estimate_bounds [OF r, of policy]
  define x where "x = success * (1 - min (interference_stddev st policy) 1)"
  define y where "y = success * (1 - min (repair_need_stddev st policy) 1)"
  have x: "0 \<le> x" "x \<le> 1" "x = 0 \<longleftrightarrow> success = 0"
    using assms(2,3) ib(2) by (auto simp: x_def interference_stddev_def intro!: mult_le_one)
  have y: "0 \<le> y" "y \<le> 1"
    using assms(2,3) rb(2) by (auto simp: y_def repair_need_stddev_def intro!: mult_le_one)
  have dp: "dynamic_priority st policy base success = real base - 30 * (interference_estimate st policy * x)"
    by (simp add: dynamic_priority_def Let_def x_def)
  have e: "0 \<le> interference_estimate st policy * x" "interference_estimate st policy * x \<le> 1"
    using ib(1) x by (auto simp: interference_estimate_def intro!: mult_le_one)
  have w: "0 \<le> repair_weight st policy success" "repair_weight st policy success \<le> 1"
    using rb(1) y by (auto simp: repair_weight_def repair_need_estimate_def Let_def simp flip: y_def intro!: mult_le_one)
  from e have "real base - 30 \<le> dynamic_priority st policy base success"
    "dynamic_priority st policy base success \<le> real base" unfolding dp by linarith+
  moreover have "dynamic_priority st policy base success = real base
      \<longleftrightarrow> interference_estimate st policy = 0 \<or> success = 0"
    unfolding dp using x(3) by auto
  ultimately show ?thesis using ok w by blast
qed

theorem interference_bounded_witness:
  "dynamic_priority (observe_interference ''snake_case'' 1 interference_new) ''snake_case'' 40 1 \<le> 40
     \<and> 10 \<le> dynamic_priority (observe_interference ''snake_case'' 1 interference_new) ''snake_case'' 40 1"
  using interference_bounded [OF reach_interference [OF reach_new, of "''snake_case''" 1],
      where success = 1 and base = 40 and policy = "''snake_case''"] by simp


section \<open>Modifiers by kind of file and block\<close>

definition num_policies :: nat where "num_policies = 16"
definition num_file_kinds :: nat where "num_file_kinds = 3"
definition num_block_kinds :: nat where "num_block_kinds = 6"
definition min_observations :: nat where "min_observations = 3"

datatype file_context_kind = HeaderContext | ImplementationContext | PairedContext

fun file_kind_index :: "file_context_kind \<Rightarrow> nat" where
  "file_kind_index HeaderContext = 0"
| "file_kind_index ImplementationContext = 1"
| "file_kind_index PairedContext = 2"

text \<open>\<open>from_path\<close>, of the extension of a path (none counts as empty).\<close>

definition kind_from_extension :: "rstr \<Rightarrow> file_context_kind" where
  "kind_from_extension ext = (if is_implementation_extension ext then ImplementationContext else HeaderContext)"

definition block_context_index :: "cpp_grammar \<Rightarrow> nat \<Rightarrow> nat" where
  "block_context_index g node_kind_id =
     (if is_namespace_scope g node_kind_id then 0
      else if is_type_scope g node_kind_id then 1
      else if is_function_scope g node_kind_id then 2
      else if is_preprocessor_scope g node_kind_id then 3
      else if is_template_scope g node_kind_id then 5
      else 4)"

definition indexed_policies :: "rstr list" where
  "indexed_policies =
     [''dash_comment_normalizer'', ''section_title_normalizer'', ''compact_declarations'', ''class_layout'',
      ''lua_macro_spacing'', ''namespace_end_comments'', ''pragma_once_spacing'', ''include_guards'',
      ''include_order'', ''logical_keyword_operators'', ''function_void_params'',
      ''operator_overload_spacing'', ''clang_format'', ''naming_conventions'', ''snake_case'',
      ''numeric_literal_suffix'']"

definition policy_index :: "rstr \<Rightarrow> nat option" where
  "policy_index policy_name = map_of (zip indexed_policies [0..<length indexed_policies]) policy_name"

record context_tracker =
  tr_file_ema :: "real list"
  tr_file_cnt :: "nat list"
  tr_block_ema :: "real list"
  tr_block_cnt :: "nat list"

definition tracker_new :: context_tracker where
  "tracker_new =
     \<lparr>tr_file_ema = replicate (num_policies * num_file_kinds) 0.5,
      tr_file_cnt = replicate (num_policies * num_file_kinds) 0,
      tr_block_ema = replicate (num_policies * num_block_kinds) 0.5,
      tr_block_cnt = replicate (num_policies * num_block_kinds) 0\<rparr>"

definition interp_modifier :: "real \<Rightarrow> real" where
  "interp_modifier ema =
     (let x = clamp ema 0 1 in
      if x \<le> 0.5 then 0.5 + (1 - 0.5) * (x * 2) else 1 + (1.3 - 1) * ((x - 0.5) * 2))"

text \<open>The portable loop over the policies; \<open>stride\<close> and \<open>kind\<close> address the tables.\<close>

definition batch_scalar :: "real list \<Rightarrow> nat list \<Rightarrow> nat \<Rightarrow> nat \<Rightarrow> real list" where
  "batch_scalar ema cnt stride kind =
     fold (\<lambda>p out.
         let idx = p * stride + kind in
         if cnt ! idx \<ge> min_observations then out[p := interp_modifier (ema ! idx)] else out)
       [0..<num_policies] (replicate 24 1)"

definition batch_file_modifiers_scalar :: "context_tracker \<Rightarrow> file_context_kind \<Rightarrow> real list" where
  "batch_file_modifiers_scalar t file_kind =
     batch_scalar (tr_file_ema t) (tr_file_cnt t) num_file_kinds (file_kind_index file_kind)"

definition batch_block_modifiers_scalar :: "context_tracker \<Rightarrow> nat \<Rightarrow> real list" where
  "batch_block_modifiers_scalar t block_index =
     batch_scalar (tr_block_ema t) (tr_block_cnt t) num_block_kinds block_index"

text \<open>
  The same with four lanes: a lane beyond the last policy holds 0.5 and no observation.  Selection
  by a mask of comparisons is a conditional in each lane.
\<close>

definition gather :: "'a \<Rightarrow> 'a list \<Rightarrow> nat \<Rightarrow> nat \<Rightarrow> nat \<Rightarrow> 'a list" where
  "gather pad table stride kind p =
     map (\<lambda>i. if p + i < num_policies then table ! ((p + i) * stride + kind) else pad) [0..<4]"

definition interp_lane_neon :: "real \<Rightarrow> real" where
  "interp_lane_neon ema =
     (let x = min (max ema 0) 1;
          low = 0.5 + x;
          high = 1 + 0.6 * (x - 0.5)
      in if x \<le> 0.5 then low else high)"

definition store_lanes :: "nat \<Rightarrow> real list \<Rightarrow> real list \<Rightarrow> real list" where
  "store_lanes p vs out = fold (\<lambda>i out. out[p + i := vs ! i]) [0..<4] out"

definition batch_neon :: "real list \<Rightarrow> nat list \<Rightarrow> nat \<Rightarrow> nat \<Rightarrow> real list" where
  "batch_neon ema cnt stride kind =
     fold (\<lambda>k out.
         let p = k * 4;
             ema_v = gather 0.5 ema stride kind p;
             cnt_v = gather 0 cnt stride kind p;
             mod_v = map interp_lane_neon ema_v
         in store_lanes p (map2 (\<lambda>c m. if c \<ge> min_observations then m else 1) cnt_v mod_v) out)
       [0..<6] (replicate 24 1)"

definition batch_file_modifiers_neon :: "context_tracker \<Rightarrow> file_context_kind \<Rightarrow> real list" where
  "batch_file_modifiers_neon t file_kind =
     batch_neon (tr_file_ema t) (tr_file_cnt t) num_file_kinds (file_kind_index file_kind)"

definition batch_block_modifiers_neon :: "context_tracker \<Rightarrow> nat \<Rightarrow> real list" where
  "batch_block_modifiers_neon t block_index =
     batch_neon (tr_block_ema t) (tr_block_cnt t) num_block_kinds block_index"

text \<open>On x86-64 the counters are compared as signed 32-bit numbers.\<close>

definition as_i32 :: "nat \<Rightarrow> int" where
  "as_i32 n = (if n < 2 ^ 31 then int n else int n - 2 ^ 32)"

definition batch_file_modifiers_x86 :: "context_tracker \<Rightarrow> file_context_kind \<Rightarrow> real list" where
  "batch_file_modifiers_x86 t file_kind =
     fold (\<lambda>k out.
         let p = k * 4;
             ema_v = gather 0.5 (tr_file_ema t) num_file_kinds (file_kind_index file_kind) p;
             cnt_v = gather 0 (map as_i32 (tr_file_cnt t)) num_file_kinds (file_kind_index file_kind) p;
             mod_v = map interp_lane_neon ema_v
         in store_lanes p (map2 (\<lambda>c m. if c > int min_observations - 1 then m else 1) cnt_v mod_v) out)
       [0..<6] (replicate 24 1)"

definition tracker_ok :: "context_tracker \<Rightarrow> bool" where
  "tracker_ok t \<longleftrightarrow>
     length (tr_file_ema t) = num_policies * num_file_kinds \<and> length (tr_file_cnt t) = num_policies * num_file_kinds
     \<and> length (tr_block_ema t) = num_policies * num_block_kinds
     \<and> length (tr_block_cnt t) = num_policies * num_block_kinds
     \<and> list_all (\<lambda>c. c < 2 ^ 31) (tr_file_cnt t)"

lemma interp_lane_eq: "interp_lane_neon = interp_modifier"
  by (rule ext) (auto simp: interp_lane_neon_def interp_modifier_def clamp_def Let_def min_def max_def)

lemma interp_bounds: "0.5 \<le> interp_modifier x \<and> interp_modifier x \<le> 1.3"
  by (auto simp: interp_modifier_def clamp_def Let_def)

definition modifier_at :: "real list \<Rightarrow> nat list \<Rightarrow> nat \<Rightarrow> nat \<Rightarrow> nat \<Rightarrow> real" where
  "modifier_at ema cnt stride kind p =
     (if p < num_policies \<and> cnt ! (p * stride + kind) \<ge> min_observations
      then interp_modifier (ema ! (p * stride + kind)) else 1)"

lemma upt_24: "[0..<24] = [0, 1, 2, 3, 4, 5, 6, 7, 8, 9, 10, 11, 12, 13, 14, 15, 16, 17, 18, 19, 20, 21, 22, 23]"
  by (simp add: upt_rec)

lemma batch_scalar_eq: "batch_scalar ema cnt stride kind = map (modifier_at ema cnt stride kind) [0..<24]"
proof -
  have step: "fold (\<lambda>p out. let idx = p * stride + kind in
        if cnt ! idx \<ge> min_observations then out[p := interp_modifier (ema ! idx)] else out) [0..<n] (replicate 24 1)
      = map (\<lambda>p. if p < n then modifier_at ema cnt stride kind p else 1) [0..<24]" if "n \<le> num_policies" for n
    using that
  proof (induction n)
    case 0
    then show ?case by (simp add: map_replicate_const)
  next
    case (Suc n)
    then show ?case
      by (auto simp: Let_def modifier_at_def num_policies_def nth_list_update less_Suc_eq intro!: nth_equalityI)
  qed
  show ?thesis
    unfolding batch_scalar_def step [OF order_refl]
    by (rule map_cong) (simp_all add: modifier_at_def)
qed

lemma gather_nth: "i < 4 \<Longrightarrow> gather pad table stride kind p ! i
    = (if p + i < num_policies then table ! ((p + i) * stride + kind) else pad)"
  by (simp add: gather_def)

lemma store_fold_nth:
  "p + n \<le> length out \<Longrightarrow>
    length (fold (\<lambda>i out. out[p + i := vs ! i]) [0..<n] out) = length out
    \<and> (\<forall>j < length out. fold (\<lambda>i out. out[p + i := vs ! i]) [0..<n] out ! j
         = (if p \<le> j \<and> j < p + n then vs ! (j - p) else out ! j))"
proof (induction n)
  case (Suc n)
  let ?out = "fold (\<lambda>i out. out[p + i := vs ! i]) [0..<n] out"
  have out: "length ?out = length out"
    "\<And>j. j < length out \<Longrightarrow> ?out ! j = (if p \<le> j \<and> j < p + n then vs ! (j - p) else out ! j)"
    using Suc by simp_all
  have "?out[p + n := vs ! n] ! j = (if p \<le> j \<and> j < p + Suc n then vs ! (j - p) else out ! j)"
    if j: "j < length out" for j
  proof (cases "j = p + n")
    case True
    with j out(1) show ?thesis by simp
  next
    case False
    then have "?out[p + n := vs ! n] ! j = ?out ! j" by simp
    moreover have "p \<le> j \<and> j < p + Suc n \<longleftrightarrow> p \<le> j \<and> j < p + n" using False by auto
    ultimately show ?thesis using out(2) [OF j] by simp
  qed
  with out(1) show ?case by simp
qed auto

lemma store_lanes_nth:
  "p + 4 \<le> length out \<Longrightarrow> length (store_lanes p vs out) = length out
    \<and> (\<forall>j < length out. store_lanes p vs out ! j = (if p \<le> j \<and> j < p + 4 then vs ! (j - p) else out ! j))"
  unfolding store_lanes_def by (rule store_fold_nth)

lemma lane_loop:
  assumes "\<And>p. length (f p) = 4" and f: "\<And>p i. i < 4 \<Longrightarrow> p + i < 24 \<Longrightarrow> f p ! i = g (p + i)"
  shows "fold (\<lambda>k. store_lanes (k * 4) (f (k * 4))) [0..<6] (replicate 24 (1 :: real)) = map g [0..<24]"
proof -
  have step: "length (fold (\<lambda>k. store_lanes (k * 4) (f (k * 4))) [0..<n] (replicate 24 (1 :: real))) = 24
     \<and> (\<forall>j < n * 4. fold (\<lambda>k. store_lanes (k * 4) (f (k * 4))) [0..<n] (replicate 24 1) ! j = g j)"
    if "n \<le> 6" for n
    using that
  proof (induction n)
    case (Suc n)
    let ?out = "fold (\<lambda>k. store_lanes (k * 4) (f (k * 4))) [0..<n] (replicate 24 (1 :: real))"
    have out: "length ?out = 24" "\<forall>j < n * 4. ?out ! j = g j" using Suc by simp_all
    have "n * 4 + 4 \<le> length ?out" using Suc.prems out(1) by simp
    note s = store_lanes_nth [OF this, of "f (n * 4)"]
    have "store_lanes (n * 4) (f (n * 4)) ?out ! j = g j" if "j < Suc n * 4" for j
    proof (cases "n * 4 \<le> j")
      case True
      with that Suc.prems f [of "j - n * 4" "n * 4"] s out(1) show ?thesis by simp
    next
      case False
      with that Suc.prems s out show ?thesis by simp
    qed
    with s out(1) show ?case by simp
  qed simp
  from step [of 6] show ?thesis by (intro nth_equalityI) simp_all
qed

text \<open>
  In exact arithmetic the portable and the two SIMD versions compute the same modifiers, as long as no
  counter exceeds a signed 32-bit number; every modifier is between 0.5 and 1.3.  (The code computes
  in \<open>f32\<close>, where the order of the interpolation's operations shows in the last digits;
  \<^verbatim>\<open>batch_block_modifiers_x86\<close>, which does not compile, is not modelled.)  A tracker without
  observations, the only one a release build can make, since all recording is test code, has the
  modifier 1 for every policy.
\<close>

theorem modifiers_agree:
  assumes "tracker_ok t" "block_index < num_block_kinds"
  shows "batch_file_modifiers_neon t file_kind = batch_file_modifiers_scalar t file_kind
    \<and> batch_file_modifiers_x86 t file_kind = batch_file_modifiers_scalar t file_kind
    \<and> batch_block_modifiers_neon t block_index = batch_block_modifiers_scalar t block_index
    \<and> list_all (\<lambda>m. 0.5 \<le> m \<and> m \<le> 1.3) (batch_file_modifiers_scalar t file_kind)
    \<and> batch_file_modifiers_scalar tracker_new file_kind = replicate 24 1"
proof -
  have neon: "batch_neon ema cnt stride kind = batch_scalar ema cnt stride kind" for ema cnt stride kind
    unfolding batch_neon_def batch_scalar_eq Let_def
    by (rule lane_loop)
      (auto simp: gather_nth gather_def interp_lane_eq modifier_at_def min_observations_def)
  have x86: "batch_file_modifiers_x86 t file_kind = batch_file_modifiers_scalar t file_kind"
    unfolding batch_file_modifiers_x86_def batch_file_modifiers_scalar_def batch_scalar_eq Let_def
  proof (rule lane_loop)
    fix p i :: nat assume i: "i < 4" "p + i < 24"
    have "as_i32 (tr_file_cnt t ! ((p + i) * num_file_kinds + file_kind_index file_kind))
        = int (tr_file_cnt t ! ((p + i) * num_file_kinds + file_kind_index file_kind))
      \<and> (p + i) * num_file_kinds + file_kind_index file_kind < length (tr_file_cnt t)" if "p + i < num_policies"
    proof -
      have "(p + i) * num_file_kinds + file_kind_index file_kind < length (tr_file_cnt t)"
        using that assms(1) by (cases file_kind) (auto simp: tracker_ok_def num_policies_def num_file_kinds_def)
      with assms(1) show ?thesis by (auto simp: tracker_ok_def as_i32_def list_all_length)
    qed
    with i show "map2 (\<lambda>c m. if c > int min_observations - 1 then m else 1)
          (gather 0 (map as_i32 (tr_file_cnt t)) num_file_kinds (file_kind_index file_kind) p)
          (map interp_lane_neon (gather 0.5 (tr_file_ema t) num_file_kinds (file_kind_index file_kind) p)) ! i
        = modifier_at (tr_file_ema t) (tr_file_cnt t) num_file_kinds (file_kind_index file_kind) (p + i)"
      by (cases "p + i < num_policies")
        (auto simp: gather_nth gather_def interp_lane_eq modifier_at_def min_observations_def)
  qed (simp add: gather_def)
  have bound: "list_all (\<lambda>m. 0.5 \<le> m \<and> m \<le> 1.3) (batch_file_modifiers_scalar t file_kind)"
    using interp_bounds
    by (auto simp: batch_file_modifiers_scalar_def batch_scalar_eq list_all_iff modifier_at_def)
  have "modifier_at (tr_file_ema tracker_new) (tr_file_cnt tracker_new) num_file_kinds (file_kind_index file_kind) p = 1"
    for p
    by (cases file_kind)
      (auto simp: modifier_at_def tracker_new_def num_policies_def num_file_kinds_def min_observations_def)
  then have "batch_file_modifiers_scalar tracker_new file_kind = replicate 24 1"
    unfolding batch_file_modifiers_scalar_def batch_scalar_eq by (simp add: map_replicate_const cong: map_cong)
  with neon x86 bound show ?thesis
    by (simp add: batch_file_modifiers_neon_def batch_file_modifiers_scalar_def
        batch_block_modifiers_neon_def batch_block_modifiers_scalar_def)
qed

theorem modifiers_agree_witness:
  "batch_file_modifiers_x86 (tracker_new\<lparr>tr_file_cnt := replicate 48 7\<rparr>) HeaderContext
     = batch_file_modifiers_scalar (tracker_new\<lparr>tr_file_cnt := replicate 48 7\<rparr>) HeaderContext"
  using modifiers_agree [of "tracker_new\<lparr>tr_file_cnt := replicate 48 7\<rparr>" 0 HeaderContext]
  by (simp add: tracker_ok_def tracker_new_def num_policies_def num_file_kinds_def num_block_kinds_def list_all_iff)

end
