(* ===== verification/Pipeline_Model.thy ===== *)
theory Pipeline_Model
  imports Proposer Policy_Learning Conflict_Detector Directives Reporter
begin

text \<open>
  The state of one pass of the policies over a file and the stages that parse and execute:
  \<^verbatim>\<open>src/src/engine/pipeline/mod.rs\<close>, \<^verbatim>\<open>context.rs\<close>, \<^verbatim>\<open>checkpoint.rs\<close>.  The parsers
  (\<^verbatim>\<open>parser/manager.rs\<close>) and the policies are parameters, as functions for the one file of the pass;
  elapsed times are left out.
\<close>

section \<open>Parameters\<close>

record parser_manager =
  pm_fx :: fx_hasher
  pm_grammar :: cpp_grammar
  pm_comment_kind :: nat
  pm_canonical_path :: rstr
  pm_reparse_tree :: "rstr \<Rightarrow> ts_node option \<Rightarrow> rstr + ts_node"
  pm_reparse_incremental :: "rstr \<Rightarrow> rstr \<Rightarrow> ts_node \<Rightarrow> rstr + ts_node"
  pm_parse_clang :: "rstr \<Rightarrow> rstr + clang_parse_result"
  pm_dispatch_clang :: "rstr \<Rightarrow> rstr + nat option"
  pm_collect_clang :: "nat \<Rightarrow> rstr \<Rightarrow> rstr + clang_parse_result"
  pm_changed_ranges :: "ts_node \<Rightarrow> ts_node \<Rightarrow> (nat \<times> nat) list"
  pm_has_exact_compdb :: bool
  pm_semantic_kind :: semantic_compdb_context_kind
  pm_has_semantic_compdb :: bool

record policy_context =
  cx_text :: rstr
  cx_tree :: "ts_node option"
  cx_semantic :: "semantic_file_context option"
  cx_changed_ranges :: "(nat \<times> nat) list option"
  cx_forced_batch_size :: "nat option"

record policy =
  po_name :: rstr
  po_id :: policy_id
  po_apply :: "policy_context \<Rightarrow> policy_result"

record policy_run_options =
  ro_blocked_policies :: "rstr set"
  ro_allowed_edit_lines :: "nat set option"
  ro_retry_scope_stage :: retry_scope_stage
  ro_previous_contract_failures :: "semantic_invariant_clause set"
  ro_skip_zero_edit_policies :: "rstr set option"
  ro_observation_only :: bool

definition run_options_default :: policy_run_options where
  "run_options_default =
     \<lparr>ro_blocked_policies = {}, ro_allowed_edit_lines = None, ro_retry_scope_stage = Full,
      ro_previous_contract_failures = {}, ro_skip_zero_edit_policies = None, ro_observation_only = False\<rparr>"

definition is_policy_blocked :: "policy_run_options \<Rightarrow> rstr \<Rightarrow> bool" where
  "is_policy_blocked options policy_name \<longleftrightarrow> policy_name \<in> ro_blocked_policies options"

definition is_policy_skipped :: "policy_run_options \<Rightarrow> rstr \<Rightarrow> bool" where
  "is_policy_skipped options policy_name =
     (case ro_skip_zero_edit_policies options of None \<Rightarrow> False | Some s \<Rightarrow> policy_name \<in> s)"

fun scope_stage_as_str :: "retry_scope_stage \<Rightarrow> rstr" where
  "scope_stage_as_str Full = ''full''"
| "scope_stage_as_str CulpritRegion = ''culprit_region''"
| "scope_stage_as_str NodeLocal = ''node_local''"
| "scope_stage_as_str LineLocal = ''line_local''"

section \<open>Samples\<close>

record confidence_sample =
  fs_outcome :: policy_decision_outcome
  fs_low_consensus :: bool
  fs_parser_strict :: bool
  fs_parser_hardened :: bool
  fs_parser_relaxed :: bool
  fs_coverage_low :: bool
  fs_semantic_low :: bool
  fs_parser_disagreement :: bool
  fs_clang_diagnostics :: bool

definition sample_from_reason_codes ::
    "policy_decision_outcome \<Rightarrow> confidence_reason_code list \<Rightarrow> confidence_sample" where
  "sample_from_reason_codes outcome reason_codes =
     \<lparr>fs_outcome = outcome,
      fs_low_consensus = (LowConsensus \<in> set reason_codes),
      fs_parser_strict = (ParserConsensusStrict \<in> set reason_codes),
      fs_parser_hardened = (ParserHardened \<in> set reason_codes),
      fs_parser_relaxed = (ParserRelaxed \<in> set reason_codes),
      fs_coverage_low = (ContextCoverageLow \<in> set reason_codes),
      fs_semantic_low = (SemanticConsensusLow \<in> set reason_codes),
      fs_parser_disagreement = (ParserDisagreement \<in> set reason_codes),
      fs_clang_diagnostics = (ClangDiagnostics \<in> set reason_codes)\<rparr>"

record execution_sample =
  es_policy :: policy_id
  es_edits :: nat
  es_violations :: nat
  es_failed :: bool
  es_fatal :: bool
  es_blocked :: bool
  es_confidence :: "confidence_sample option"

definition sample_success :: "rstr \<Rightarrow> nat \<Rightarrow> nat \<Rightarrow> execution_sample" where
  "sample_success policy_name edits violations =
     \<lparr>es_policy = policy_from_str_lossy policy_name, es_edits = edits, es_violations = violations,
      es_failed = False, es_fatal = False, es_blocked = False, es_confidence = None\<rparr>"

definition sample_blocked :: "rstr \<Rightarrow> execution_sample" where
  "sample_blocked policy_name =
     \<lparr>es_policy = policy_from_str_lossy policy_name, es_edits = 0, es_violations = 0,
      es_failed = False, es_fatal = False, es_blocked = True, es_confidence = None\<rparr>"

definition sample_failed :: "rstr \<Rightarrow> bool \<Rightarrow> execution_sample" where
  "sample_failed policy_name fatal =
     \<lparr>es_policy = policy_from_str_lossy policy_name, es_edits = 0, es_violations = 0,
      es_failed = True, es_fatal = fatal, es_blocked = False, es_confidence = None\<rparr>"

record stage_trace =
  xt_policy :: policy_id
  xt_parse_mode :: rstr
  xt_context_cluster :: u64
  xt_candidate_line_count :: nat
  xt_dropped_line_count :: nat
  xt_semantic_impact_radius :: nat
  xt_confidence_outcome :: "policy_decision_outcome option"
  xt_confidence_score :: "real option"
  xt_confidence_threshold :: "real option"
  xt_executor_scope :: retry_scope_stage
  xt_candidate_trace :: "candidate_trace list"

definition plain_trace :: "rstr \<Rightarrow> rstr \<Rightarrow> stage_trace" where
  "plain_trace policy_name parse_mode =
     \<lparr>xt_policy = policy_from_str_lossy policy_name, xt_parse_mode = parse_mode, xt_context_cluster = 0,
      xt_candidate_line_count = 0, xt_dropped_line_count = 0, xt_semantic_impact_radius = 0,
      xt_confidence_outcome = None, xt_confidence_score = None, xt_confidence_threshold = None,
      xt_executor_scope = Full, xt_candidate_trace = []\<rparr>"

section \<open>State\<close>

record parse_cache =
  pa_tree :: "ts_node option"
  pa_prev_tree :: "ts_node option"
  pa_changed_ranges :: "(nat \<times> nat) list option"
  pa_clang :: "clang_parse_result option"
  pa_semantic :: "semantic_file_context option"
  pa_comment_lines :: "nat set option"
  pa_summary :: "semantic_summary option"
  pa_error_lines :: "nat set option"
  pa_clang_edits_since :: nat
  pa_exact_compdb :: bool
  pa_semantic_kind :: semantic_compdb_context_kind
  pa_has_semantic_compdb :: bool
  pa_fidelity_score :: real

record pipeline_state =
  st_current :: rstr
  st_parse :: parse_cache
  st_internal :: "edit_candidate list"
  st_selected :: "edit_candidate list"
  st_conflict :: conflict_detector
  st_samples :: "execution_sample list"
  st_context_mods :: "real list"
  st_block_mods :: "real list list"
  st_violations :: "violation list"
  st_edits :: "edit list"
  st_warnings :: "rstr list"
  st_traces :: "stage_trace list"
  st_controller :: convergence_controller
  st_retry_batch_size :: "nat option"
  st_telemetry :: cluster_telemetry

text \<open>
  The code loads the shared state of the certainty filter anew in each stage; a pass of the model sees
  one state, as when no other file is processed meanwhile.
\<close>

record policy_pipeline =
  pl_policies :: "policy list"
  pl_manager :: parser_manager
  pl_policy_settings :: "rstr \<rightharpoonup> policy_config"
  pl_convergence_profiles :: "rstr \<rightharpoonup> convergence_profile"
  pl_confidence_enabled :: bool
  pl_default_enforcement :: enforcement
  pl_conflict_detection :: bool
  pl_touch_threshold :: nat
  pl_tracker :: context_tracker
  pl_adaptive :: certainty_filter_state
  pl_interference :: interference_state
  pl_dynamic_order :: "nat list"
  pl_repair_candidates :: "nat list"

definition edit_success :: "certainty_filter_state \<Rightarrow> real" where
  "edit_success s = cs_estimates s ! 4"

text \<open>Policies by dynamic priority, then by position; and whitespace-safe policies by need of repair.\<close>

definition compute_dynamic_order :: "policy list \<Rightarrow> interference_state \<Rightarrow> certainty_filter_state \<Rightarrow> nat list" where
  "compute_dynamic_order policies interference adaptive =
     sort_key (\<lambda>i. (dynamic_priority interference (po_name (policies ! i))
                      (execution_priority (behavior policy_catalog (po_id (policies ! i))))
                      (edit_success adaptive), i))
       [0..<length policies]"

definition collect_repair_candidates ::
    "policy list \<Rightarrow> interference_state \<Rightarrow> certainty_filter_state \<Rightarrow> nat list" where
  "collect_repair_candidates policies interference adaptive =
     (let weight = (\<lambda>i. repair_weight interference (po_name (policies ! i)) (edit_success adaptive)) in
      sort_key (\<lambda>i. - weight i)
        (filter (\<lambda>i. whitespace_safe (capabilities policy_catalog (po_id (policies ! i))) \<and> weight i > 0)
          [0..<length policies]))"

definition pipeline_new ::
    "policy list \<Rightarrow> parser_manager \<Rightarrow> (rstr \<rightharpoonup> policy_config) \<Rightarrow> bool \<Rightarrow> enforcement \<Rightarrow> bool \<Rightarrow> nat
      \<Rightarrow> certainty_filter_state \<Rightarrow> interference_state \<Rightarrow> policy_pipeline" where
  "pipeline_new policies manager settings confidence_enabled default_enforcement conflict_detection threshold
       adaptive interference =
     \<lparr>pl_policies = policies, pl_manager = manager, pl_policy_settings = settings,
      pl_convergence_profiles = build_convergence_profiles settings,
      pl_confidence_enabled = confidence_enabled, pl_default_enforcement = default_enforcement,
      pl_conflict_detection = conflict_detection, pl_touch_threshold = threshold,
      pl_tracker = tracker_new, pl_adaptive = adaptive, pl_interference = interference,
      pl_dynamic_order = compute_dynamic_order policies interference adaptive,
      pl_repair_candidates = collect_repair_candidates policies interference adaptive\<rparr>"

definition initialize_run_state :: "policy_pipeline \<Rightarrow> rstr \<Rightarrow> rstr \<Rightarrow> cluster_telemetry \<Rightarrow> pipeline_state" where
  "initialize_run_state pl text ext telemetry =
     (let manager = pl_manager pl in
      \<lparr>st_current = text,
       st_parse =
         \<lparr>pa_tree = None, pa_prev_tree = None, pa_changed_ranges = None, pa_clang = None, pa_semantic = None,
          pa_comment_lines = None, pa_summary = None, pa_error_lines = None, pa_clang_edits_since = 0,
          pa_exact_compdb = pm_has_exact_compdb manager, pa_semantic_kind = pm_semantic_kind manager,
          pa_has_semantic_compdb = pm_has_semantic_compdb manager, pa_fidelity_score = 1\<rparr>,
       st_internal = [], st_selected = [],
       st_conflict = detector_new (pl_conflict_detection pl) (pl_touch_threshold pl),
       st_samples = [],
       st_context_mods = batch_file_modifiers_scalar (pl_tracker pl) (kind_from_extension ext),
       st_block_mods = map (batch_block_modifiers_scalar (pl_tracker pl)) [0..<6],
       st_violations = [], st_edits = [], st_warnings = [], st_traces = [],
       st_controller = controller_with_profiles (pl_convergence_profiles pl),
       st_retry_batch_size = None, st_telemetry = telemetry\<rparr>)"

section \<open>The cache of parses\<close>

definition summary_or_default :: "parse_cache \<Rightarrow> semantic_summary" where
  "summary_or_default p =
     unwrap_or (pa_summary p)
       \<lparr>ss_declaration_count = 0, ss_reference_count = 0, ss_scope_count = 0, ss_region_count = 0,
        ss_preprocessor_scope_count = 0, ss_usr_backed_declaration_count = 0, ss_diagnostics_count = 0,
        ss_diagnostic_error_count = 0, ss_semantic_signature = 0\<rparr>"

definition error_lines_cached :: "parse_cache \<Rightarrow> nat set \<times> parse_cache" where
  "error_lines_cached p =
     (case pa_error_lines p of
        Some lines \<Rightarrow> (lines, p)
      | None \<Rightarrow>
          let lines = (case pa_tree p of None \<Rightarrow> {} | Some t \<Rightarrow> te_error_lines (tree_error_stats t))
          in (lines, p\<lparr>pa_error_lines := Some lines\<rparr>))"

definition compute_changed_ranges :: "parser_manager \<Rightarrow> parse_cache \<Rightarrow> parse_cache" where
  "compute_changed_ranges m p =
     p\<lparr>pa_changed_ranges :=
         (case (pa_prev_tree p, pa_tree p) of
            (Some prev, Some current) \<Rightarrow>
              let ranges = pm_changed_ranges m prev current in if ranges = [] then None else Some ranges
          | _ \<Rightarrow> None)\<rparr>"

definition invalidate :: "bool \<Rightarrow> bool \<Rightarrow> parse_cache \<Rightarrow> parse_cache" where
  "invalidate semantic reparse_clang p =
     (let p = p\<lparr>pa_prev_tree := pa_tree p, pa_tree := None, pa_changed_ranges := None, pa_error_lines := None\<rparr>;
          p = (if semantic \<and> reparse_clang
               then p\<lparr>pa_clang := None, pa_clang_edits_since := 0\<rparr>
               else p\<lparr>pa_clang_edits_since := pa_clang_edits_since p + 1\<rparr>)
      in p\<lparr>pa_semantic := None, pa_comment_lines := None, pa_summary := None\<rparr>)"

text \<open>The lines of the nodes that the query \<open>(comment) @c\<close> finds.\<close>

definition comment_lines_from_tree :: "parser_manager \<Rightarrow> ts_node option \<Rightarrow> nat set" where
  "comment_lines_from_tree m tree =
     (case tree of
        None \<Rightarrow> {}
      | Some t \<Rightarrow>
          set (concat (map (\<lambda>n. let start = nd_start_row n + 1; finish = max (nd_end_row n + 1) start
                                in [start..<Suc finish])
            (filter (\<lambda>n. nd_kind n = pm_comment_kind m) (preorder t)))))"

section \<open>Parsing\<close>

definition stage_error :: "rstr \<Rightarrow> rstr \<Rightarrow> rstr" where
  "stage_error policy_name err = policy_name @ '': '' @ err"

definition set_tree :: "parser_manager \<Rightarrow> ts_node \<Rightarrow> parse_cache \<Rightarrow> parse_cache" where
  "set_tree m tree p = (compute_changed_ranges m (p\<lparr>pa_tree := Some tree\<rparr>))\<lparr>pa_prev_tree := None\<rparr>"

definition set_clang :: "clang_parse_result \<Rightarrow> parse_cache \<Rightarrow> parse_cache" where
  "set_clang clang p = p\<lparr>pa_clang := Some clang, pa_clang_edits_since := 0\<rparr>"

text \<open>Both parses, one, or none; the clang parse in flight while the tree is built.\<close>

definition parse_missing :: "parser_manager \<Rightarrow> rstr \<Rightarrow> parse_cache \<Rightarrow> rstr + parse_cache" where
  "parse_missing m current p =
     (let needs_tree = (pa_tree p = None);
          needs_clang = (pa_clang p = None \<and> pa_has_semantic_compdb p)
      in if needs_tree \<and> needs_clang
         then
           let clang_handle = pm_dispatch_clang m current in
           case pm_reparse_tree m current (pa_prev_tree p) of
             Inl err \<Rightarrow> Inl err
           | Inr tree \<Rightarrow>
               (case (case clang_handle of
                        Inr (Some handle) \<Rightarrow> pm_collect_clang m handle current
                      | Inr None \<Rightarrow> pm_parse_clang m current
                      | Inl err \<Rightarrow> Inl err) of
                  Inl err \<Rightarrow> Inl err
                | Inr clang \<Rightarrow> Inr (set_clang clang (set_tree m tree p)))
         else if needs_tree
         then (case pm_reparse_tree m current (pa_prev_tree p) of
                 Inl err \<Rightarrow> Inl err | Inr tree \<Rightarrow> Inr (set_tree m tree p))
         else if needs_clang
         then (case pm_parse_clang m current of
                 Inl err \<Rightarrow> Inl err | Inr clang \<Rightarrow> Inr (set_clang clang p))
         else Inr p)"

definition fill_semantic :: "parser_manager \<Rightarrow> rstr \<Rightarrow> parse_cache \<Rightarrow> parse_cache" where
  "fill_semantic m current p =
     (if pa_semantic p = None
      then let semantic = from_parses (pm_fx m) (pm_grammar m) current (pm_canonical_path m) (pa_tree p) (pa_clang p)
           in p\<lparr>pa_summary := Some (summary (pm_fx m) (pm_grammar m) semantic), pa_semantic := Some semantic\<rparr>
      else p)"

definition fill_comments :: "parser_manager \<Rightarrow> parse_cache \<Rightarrow> parse_cache" where
  "fill_comments m p =
     (if pa_comment_lines p = None
      then p\<lparr>pa_comment_lines := Some (comment_lines_from_tree m (pa_tree p))\<rparr> else p)"

definition ensure_parse :: "parser_manager \<Rightarrow> rstr \<Rightarrow> parse_cache \<Rightarrow> rstr + parse_cache" where
  "ensure_parse m current p =
     (let needs_clang = (pa_clang p = None \<and> pa_has_semantic_compdb p) in
      case parse_missing m current p of
        Inl err \<Rightarrow> Inl err
      | Inr p \<Rightarrow>
          let p = (if needs_clang \<and> pa_semantic p \<noteq> None then p\<lparr>pa_semantic := None, pa_summary := None\<rparr> else p)
          in Inr (fill_comments m (fill_semantic m current p)))"

definition ensure_policy_parse_stage ::
    "policy_pipeline \<Rightarrow> rstr \<Rightarrow> pipeline_state \<Rightarrow> rstr + pipeline_state" where
  "ensure_policy_parse_stage pl policy_name st =
     (case ensure_parse (pl_manager pl) (st_current st) (st_parse st) of
        Inl err \<Rightarrow> Inl (stage_error policy_name err)
      | Inr p \<Rightarrow> Inr (st\<lparr>st_parse := p\<rparr>))"

definition prepare_policy_stage :: "policy_pipeline \<Rightarrow> rstr \<Rightarrow> policy_capabilities \<times> policy_guidance_mode" where
  "prepare_policy_stage pl policy_name =
     (capabilities_by_name policy_catalog policy_name,
      unwrap_or (map_option (policy_guidance_mode_of policy_name) (pl_policy_settings pl policy_name)) SoftGuideline)"

end
