(* ===== verification/Pipeline_Stage.thy ===== *)
theory Pipeline_Stage
  imports Pipeline_Model
begin

text \<open>
  The stages of one policy: execution with its guards, coordination with the other policies,
  checkpoint and commit (\<^verbatim>\<open>src/src/engine/pipeline/mod.rs\<close>, \<^verbatim>\<open>checkpoint.rs\<close>, \<^verbatim>\<open>context.rs\<close>).
\<close>

section \<open>Execution\<close>

record executed_stage =
  ex_result :: policy_result
  ex_capability :: policy_capabilities
  ex_context_cluster :: u64
  ex_confidence_sample :: "confidence_sample option"
  ex_confidence_outcome :: "policy_decision_outcome option"
  ex_confidence_score :: "real option"
  ex_confidence_threshold :: "real option"
  ex_dropped_line_count :: nat
  ex_convergence_signal :: convergence_signal

definition add_warning :: "rstr \<Rightarrow> policy_result \<Rightarrow> policy_result" where
  "add_warning message r = r\<lparr>pr_warnings := pr_warnings r @ [message]\<rparr>"

definition quoted :: "rstr \<Rightarrow> rstr" where
  "quoted s = [quote_char] @ s @ [quote_char]"

text \<open>A text that differs without a single edit is not trusted.\<close>

definition revert_untracked :: "rstr \<Rightarrow> rstr \<Rightarrow> rstr \<Rightarrow> policy_result \<Rightarrow> policy_result" where
  "revert_untracked guard policy_name current r =
     (if pr_edits r = [] \<and> \<not> slices_equal (pr_text r) current
      then add_warning (guard @ '': reverted untracked text delta for '' @ quoted policy_name)
             (r\<lparr>pr_text := current\<rparr>)
      else r)"

definition excluded_lines :: "policy_capabilities \<Rightarrow> semantic_file_context option \<Rightarrow> nat set \<Rightarrow> nat set" where
  "excluded_lines capability semantic tree_error_lines =
     (if semantic_rewrite capability
      then semantic_error_lines (case semantic of None \<Rightarrow> [] | Some s \<Rightarrow> fcx_regions s) \<union> tree_error_lines
      else if structural_safe capability then {}
      else tree_error_lines)"

definition understanding_gate :: "rstr \<Rightarrow> rstr \<Rightarrow> nat set \<Rightarrow> policy_result \<Rightarrow> policy_result" where
  "understanding_gate policy_name current excluded r =
     (if pr_edits r = [] \<or> excluded = {} then r
      else
        let before_count = length (pr_edits r);
            kept = filter (\<lambda>e. e_line e = 0 \<or> e_line e \<notin> excluded) (pr_edits r);
            dropped = before_count - length kept;
            r = r\<lparr>pr_edits := kept\<rparr>
        in if dropped > 0
           then
             let r = add_warning (''understanding gate: suppressed '' @ nat_to_string dropped
                       @ '' edit(s) on parser-error line(s) for '' @ quoted policy_name) r
             in if kept = [] then r\<lparr>pr_text := current\<rparr>
                else (case apply_edits_lenient current kept of
                        Some t \<Rightarrow> r\<lparr>pr_text := t\<rparr>
                      | None \<Rightarrow>
                          add_warning (''understanding gate: escalated to full rollback for '' @ quoted policy_name)
                            (r\<lparr>pr_text := current, pr_edits := []\<rparr>))
           else r)"

text \<open>What the policy proposes, after the directives of the file and the scope of a retry.\<close>

definition proposed_result ::
    "policy_run_options \<Rightarrow> policy \<Rightarrow> policy_capabilities \<Rightarrow> policy_context \<Rightarrow> policy_result" where
  "proposed_result options policy capability cx =
     (let policy_name = po_name policy;
          result = po_apply policy cx;
          disabled = disabled_lines (cx_text cx) policy_name;
          result = (if disabled \<noteq> {} then apply_line_suppression (cx_text cx) result disabled else result)
      in apply_scope_filter (cx_text cx) result (ro_allowed_edit_lines options)
           \<lparr>sf_policy_name = policy_name, sf_scope_stage = scope_stage_as_str (ro_retry_scope_stage options),
            sf_capability = capability\<rparr>)"

text \<open>The guards between the proposal and the confidence gate.\<close>

definition guarded_result ::
    "parser_manager \<Rightarrow> rstr \<Rightarrow> parse_cache \<Rightarrow> rstr \<Rightarrow> policy_capabilities \<Rightarrow> policy_guidance_mode
      \<Rightarrow> nat set \<Rightarrow> policy_result \<Rightarrow> policy_result" where
  "guarded_result m current p policy_name capability guidance tree_error_lines result =
     (let q = from_semantic (pm_grammar m) (pa_semantic p);
          result = apply_semantic_mode (pm_grammar m) current result q capability
            \<lparr>gc_policy_name = policy_name, gc_guidance_mode = guidance, gc_exact_compdb = pa_exact_compdb p,
             gc_context_kind = pa_semantic_kind p\<rparr>;
          result = normalize_edit_coverage policy_name current result;
          result = revert_untracked ''policy output guard'' policy_name current result
      in understanding_gate policy_name current
           (excluded_lines capability (pa_semantic p) tree_error_lines) result)"

record confidence_step =
  cp_result :: policy_result
  cp_decision :: "confidence_gate_decision option"
  cp_telemetry :: cluster_telemetry

definition confidence_stage ::
    "policy_pipeline \<Rightarrow> rstr \<Rightarrow> rstr \<Rightarrow> parse_cache \<Rightarrow> policy_capabilities \<Rightarrow> u64 \<Rightarrow> cluster_controls
      \<Rightarrow> policy_result \<Rightarrow> cluster_telemetry \<Rightarrow> confidence_step" where
  "confidence_stage pl policy_name current p capability cluster controls result telemetry =
     (let skip = \<lparr>cp_result = result, cp_decision = None, cp_telemetry = telemetry\<rparr> in
      case pl_policy_settings pl policy_name of
        None \<Rightarrow> skip
      | Some settings \<Rightarrow>
          if pl_confidence_enabled pl \<and> pr_edits result \<noteq> []
          then
            let is_semantic = (semantic_rewrite capability \<and> pa_has_semantic_compdb p);
                result =
                  (if is_semantic \<and> pa_tree p \<noteq> None \<and> pa_clang p = None
                   then add_warning (''policy confidence mode downgraded to '' @ quoted ''tree-sitter''
                          @ '' due unavailable clang semantic context'') result
                   else result);
                base_enforcement =
                  (if has_key settings ''enforcement'' then pc_enforcement settings else pl_default_enforcement pl);
                adjusted = apply_cluster_bias (pipeline_decision base_enforcement) (cl_enforcement_bias controls);
                telemetry = record_decision policy_name cluster (cd_outcome adjusted) telemetry
            in \<lparr>cp_result = apply_confidence_decision policy_name current result adjusted,
                cp_decision = Some adjusted, cp_telemetry = telemetry\<rparr>
          else skip)"

definition execute_policy_stage ::
    "policy_pipeline \<Rightarrow> policy_run_options \<Rightarrow> policy \<Rightarrow> policy_capabilities \<times> policy_guidance_mode
      \<Rightarrow> pipeline_state \<Rightarrow> rstr + executed_stage \<times> pipeline_state" where
  "execute_policy_stage pl options policy prepared st =
     (let m = pl_manager pl;
          (capability, guidance) = prepared;
          policy_name = po_name policy;
          (tree_error_lines, p) = error_lines_cached (st_parse st);
          cx = \<lparr>cx_text = st_current st, cx_tree = pa_tree p, cx_semantic = pa_semantic p,
                cx_changed_ranges = pa_changed_ranges p, cx_forced_batch_size = st_retry_batch_size st\<rparr>;
          st = st\<lparr>st_parse := p, st_retry_batch_size := None\<rparr>;
          result = proposed_result options policy capability cx
      in case find (\<lambda>w. starts_with w ''fatal:'') (pr_warnings result) of
           Some fatal \<Rightarrow> Inl (stage_error policy_name fatal)
         | None \<Rightarrow>
             let result = guarded_result m (st_current st) p policy_name capability guidance tree_error_lines result;
                 candidate_lines = edit_lines (pr_edits result);
                 cluster = (if candidate_lines = {} then 0
                            else context_cluster_key (pm_fx m) (pm_grammar m)
                                   (from_semantic (pm_grammar m) (pa_semantic p)) candidate_lines);
                 controls = adaptive_controls policy_name cluster (pl_adaptive pl) (st_telemetry st);
                 c = confidence_stage pl policy_name (st_current st) p capability cluster controls result
                       (st_telemetry st);
                 signal = build_convergence_signal (pm_fx m) (cp_result c) (pa_semantic p) (summary_or_default p)
                       (ro_previous_contract_failures options) capability (cl_max_impact_radius_cap controls)
                       (pl_adaptive pl)
             in Inr (\<lparr>ex_result = cp_result c, ex_capability = capability, ex_context_cluster = cluster,
                      ex_confidence_sample =
                        map_option (\<lambda>d. sample_from_reason_codes (cd_outcome d) (cd_reason_codes d)) (cp_decision c),
                      ex_confidence_outcome = map_option cd_outcome (cp_decision c),
                      ex_confidence_score = map_option cd_score (cp_decision c),
                      ex_confidence_threshold = map_option cd_threshold (cp_decision c),
                      ex_dropped_line_count =
                        (case cp_decision c of None \<Rightarrow> 0 | Some d \<Rightarrow> card (cd_dropped_lines d)),
                      ex_convergence_signal = signal\<rparr>,
                     st\<lparr>st_telemetry := cp_telemetry c\<rparr>))"

section \<open>Coordination\<close>

record coordinated_stage =
  co_result :: policy_result
  co_accepted_candidates :: "edit_candidate list"
  co_candidate_trace :: "candidate_trace list"
  co_conflict_violations :: "violation list"
  co_context_cluster :: u64
  co_confidence_sample :: "confidence_sample option"
  co_confidence_outcome :: "policy_decision_outcome option"
  co_confidence_score :: "real option"
  co_confidence_threshold :: "real option"
  co_dropped_line_count :: nat
  co_convergence_signal :: convergence_signal
  co_text_changed :: bool

definition dominant_block_index :: "cpp_grammar \<Rightarrow> semantic_file_context option \<Rightarrow> edit list \<Rightarrow> nat" where
  "dominant_block_index g semantic edits =
     (if edits = [] then 4
      else case semantic of
             None \<Rightarrow> 4
           | Some context \<Rightarrow>
               let block = (\<lambda>e. if e_line e = 0 then 4
                     else (case scope_at_location context (source_location_new (e_line e) 1) of
                             None \<Rightarrow> 4 | Some scope \<Rightarrow> block_context_index g (sc_node_kind_id scope)));
                   counts = (\<lambda>i. length (filter (\<lambda>e. block e = i) edits))
               in unwrap_or (max_by_key counts [0..<6]) 4)"

definition context_modifier_for_policy :: "pipeline_state \<Rightarrow> rstr \<Rightarrow> nat option \<Rightarrow> real" where
  "context_modifier_for_policy st policy_name block_index =
     (let policy_idx = unwrap_or (policy_index policy_name) 255 in
      if policy_idx < 22
      then st_context_mods st ! policy_idx
           * (case block_index of Some bi \<Rightarrow> st_block_mods st ! bi ! policy_idx | None \<Rightarrow> 1)
      else 1)"

definition suppress_for :: "policy_capabilities \<Rightarrow> rstr \<Rightarrow> policy_result \<Rightarrow> nat set \<Rightarrow> policy_result" where
  "suppress_for capability before_text result lines =
     (if structural_safe capability then suppress_structural before_text result lines
      else apply_line_suppression before_text result lines)"

text \<open>The lines the guardian takes from the result, with its two warnings.\<close>

definition guardian_step ::
    "rstr \<Rightarrow> rstr \<Rightarrow> guardian_assessment \<Rightarrow> executed_stage \<Rightarrow> executed_stage \<times> edit_candidate list" where
  "guardian_step policy_name current a ex =
     (let suppressed = ga_blocked_zone_lines a \<union> ga_hard_blocked_lines a;
          (ex, candidates) =
            (if suppressed \<noteq> {}
             then (ex\<lparr>ex_result := suppress_for (ex_capability ex) current (ex_result ex) suppressed,
                      ex_dropped_line_count := ex_dropped_line_count ex + card suppressed\<rparr>,
                   filter (\<lambda>c. ec_line c \<notin> suppressed) (ga_allowed a))
             else (ex, ga_allowed a));
          ex = (if ga_blocked_zone_lines a \<noteq> {}
                then ex\<lparr>ex_result := add_warning (''guardian controller: dropped ''
                       @ nat_to_string (card (ga_blocked_zone_lines a)) @ '' line(s) for '' @ quoted policy_name
                       @ '' touching disallowed zones'') (ex_result ex)\<rparr>
                else ex);
          ex = (if ga_hard_blocked_lines a \<noteq> {}
                then ex\<lparr>ex_result := add_warning (''guardian controller: blocked ''
                       @ nat_to_string (card (ga_hard_blocked_lines a)) @ '' line(s) for '' @ quoted policy_name
                       @ '' due to hard semantic constraints'') (ex_result ex)\<rparr>
                else ex)
      in (ex, candidates))"

text \<open>What the lines dropped by the solver do to the result.\<close>

definition solver_step :: "rstr \<Rightarrow> rstr \<Rightarrow> conflict_result \<Rightarrow> executed_stage \<Rightarrow> executed_stage" where
  "solver_step policy_name current s ex =
     (let dropped = cr_dropped_lines s; n = nat_to_string (card dropped);
          ex = (if cr_hard_blocked_lines s \<noteq> {}
                then ex\<lparr>ex_result := add_warning (''global conflict solver: blocked ''
                       @ nat_to_string (card (cr_hard_blocked_lines s)) @ '' line(s) for '' @ quoted policy_name
                       @ '' due to hard semantic constraints'') (ex_result ex)\<rparr>
                else ex)
      in if dropped = {} then ex
         else if semantic_rewrite (ex_capability ex)
         then ex\<lparr>ex_dropped_line_count := ex_dropped_line_count ex + card dropped,
                 ex_result := add_warning (''global conflict solver: reverted semantic rewrite ''
                     @ quoted policy_name @ '' because '' @ n
                     @ '' conflicting line(s) would cause partial propagation'')
                   \<lparr>pr_text = current, pr_changed = False, pr_violations = pr_violations (ex_result ex),
                    pr_edits = [], pr_warnings = pr_warnings (ex_result ex)\<rparr>\<rparr>
         else if keeps_nonlocal_batch (behavior_by_name policy_catalog policy_name)
                 \<and> has_nonlocal_change current (pr_text (ex_result ex))
         then ex\<lparr>ex_result := add_warning (''global conflict solver: kept non-local '' @ quoted policy_name
                     @ '' batch ('' @ n @ '' conflicting line(s)) to avoid unsafe partial rollback'') (ex_result ex)\<rparr>
         else ex\<lparr>ex_dropped_line_count := ex_dropped_line_count ex + card dropped,
                 ex_result := add_warning (''global conflict solver: dropped '' @ n
                     @ '' conflicting line(s) for '' @ quoted policy_name @ '' before commit'')
                   (suppress_for (ex_capability ex) current (ex_result ex) dropped)\<rparr>)"

definition build_policy_candidate_trace ::
    "edit_candidate list \<Rightarrow> retry_scope_stage \<Rightarrow> nat set \<Rightarrow> nat set \<Rightarrow> nat set \<Rightarrow> nat set
      \<Rightarrow> certainty_filter_state \<Rightarrow> candidate_trace list" where
  "build_policy_candidate_trace all_candidates scope_stage zone_lines hard_lines dropped_lines kept_lines adaptive =
     sort_by (\<lambda>left right.
         ct_line left < ct_line right
         \<or> ct_line left = ct_line right
           \<and> (candidate_outcome_as_str (ct_outcome left), risk_as_str (ct_risk_tier left))
             \<le> (candidate_outcome_as_str (ct_outcome right), risk_as_str (ct_risk_tier right)))
       (map (\<lambda>c.
           \<lparr>ct_line = ec_line c, ct_confidence = ec_confidence c, ct_style_gain = ec_style_gain c,
            ct_utility = utility_score c scope_stage adaptive, ct_risk_tier = ec_risk_tier c,
            ct_impact_radius = ec_impact_radius c,
            ct_symbol_footprint_count = length (ec_symbol_footprint c),
            ct_range_footprint_count = length (ec_range_footprint c),
            ct_hard_constraints_touched =
              filter (\<lambda>clause. ec_hard_constraints_touched c AND clause_bit clause \<noteq> 0) all_clauses,
            ct_zone = ec_zone c,
            ct_outcome =
              (if ec_line c \<in> kept_lines then Selected
               else if ec_line c \<in> zone_lines then BlockedZone
               else if ec_line c \<in> hard_lines then BlockedHardConstraint
               else if ec_line c \<in> dropped_lines then DroppedConflict
               else DroppedConvergence)\<rparr>) all_candidates)"

definition coordinate_policy_stage ::
    "policy_pipeline \<Rightarrow> policy_run_options \<Rightarrow> rstr \<Rightarrow> executed_stage \<Rightarrow> pipeline_state
      \<Rightarrow> coordinated_stage \<times> pipeline_state" where
  "coordinate_policy_stage pl options policy_name ex st =
     (let m = pl_manager pl; p = st_parse st; current = st_current st; adaptive = pl_adaptive pl;
          scope_stage = ro_retry_scope_stage options;
          block = dominant_block_index (pm_grammar m) (pa_semantic p) (pr_edits (ex_result ex));
          confidence = unwrap_or (ex_confidence_score ex) 1
            * context_modifier_for_policy st policy_name (Some block);
          proposed = propose (pm_fx m) (pm_grammar m) policy_name (ex_result ex)
            \<lparr>px_query = from_semantic (pm_grammar m) (pa_semantic p), px_comment_lines = pa_comment_lines p,
             px_signal = ex_convergence_signal ex, px_capability = ex_capability ex,
             px_confidence = confidence, px_adaptive = adaptive\<rparr>;
          a = assess proposed (ex_capability ex);
          suppressed = ga_blocked_zone_lines a \<union> ga_hard_blocked_lines a;
          (ex, candidates) = guardian_step policy_name current a ex;
          s = solve candidates (st_selected st) scope_stage adaptive;
          hard_blocked = ga_hard_blocked_lines a \<union> cr_hard_blocked_lines s;
          ex = solver_step policy_name current s ex;
          signal = (ex_convergence_signal ex)
            \<lparr>sg_solver_dropped_lines := card (cr_dropped_lines s) + card suppressed,
             sg_hard_blocked_lines := card hard_blocked\<rparr>;
          (result, controller) = reconcile_policy_result (st_controller st) policy_name current (ex_result ex);
          result = normalize_edit_coverage policy_name current result;
          result = revert_untracked ''post-arbiter guard'' policy_name current result;
          kept_lines = edit_lines (pr_edits result);
          accepted = filter (\<lambda>c. ec_line c \<in> kept_lines) (cr_accepted s);
          trace = build_policy_candidate_trace proposed scope_stage (ga_blocked_zone_lines a) hard_blocked
            (cr_dropped_lines s) kept_lines adaptive;
          (conflict_violations, detector) = observe (st_conflict st) policy_name (pr_edits result)
      in (\<lparr>co_result = result, co_accepted_candidates = accepted, co_candidate_trace = trace,
           co_conflict_violations = conflict_violations, co_context_cluster = ex_context_cluster ex,
           co_confidence_sample = ex_confidence_sample ex, co_confidence_outcome = ex_confidence_outcome ex,
           co_confidence_score = ex_confidence_score ex, co_confidence_threshold = ex_confidence_threshold ex,
           co_dropped_line_count = ex_dropped_line_count ex + (length (cr_accepted s) - length accepted),
           co_convergence_signal = signal, co_text_changed = (\<not> slices_equal (pr_text result) current)\<rparr>,
          st\<lparr>st_controller := controller, st_conflict := detector\<rparr>))"

section \<open>Checkpoint\<close>

datatype checkpoint_result =
    Accept "ts_node option"
  | PartialRollback rstr "edit list" "ts_node option" rstr
  | Rollback rstr nat

definition reparse_from :: "parser_manager \<Rightarrow> rstr \<Rightarrow> ts_node option \<Rightarrow> rstr \<Rightarrow> rstr + ts_node" where
  "reparse_from m current tree new_text =
     (case tree of
        Some old_tree \<Rightarrow> pm_reparse_incremental m current new_text old_tree
      | None \<Rightarrow> pm_reparse_tree m new_text None)"

definition error_nodes :: "ts_node \<Rightarrow> nat" where
  "error_nodes tree = te_error_nodes (tree_error_stats tree)"

definition attempt_partial_rollback ::
    "parser_manager \<Rightarrow> rstr \<Rightarrow> ts_node option \<Rightarrow> edit list \<Rightarrow> rstr \<Rightarrow> nat \<Rightarrow> nat set \<Rightarrow> checkpoint_result option" where
  "attempt_partial_rollback m current tree edits policy_name before_errors new_error_lines =
     (if edits = [] then None
      else
        let safe_edits = filter (\<lambda>e. e_line e \<notin> new_error_lines) edits in
        if safe_edits = [] then None
        else case apply_edits_lenient current safe_edits of
               None \<Rightarrow> None
             | Some recovered_text \<Rightarrow>
                 (case reparse_from m current tree recovered_text of
                    Inl _ \<Rightarrow> None
                  | Inr recovered_tree \<Rightarrow>
                      if error_nodes recovered_tree > before_errors then None
                      else Some (PartialRollback recovered_text safe_edits (Some recovered_tree)
                        (''checkpoint: '' @ quoted policy_name @ '' partial rollback recovered ''
                         @ nat_to_string (length safe_edits) @ '' of '' @ nat_to_string (length edits)
                         @ '' edits ('' @ nat_to_string (card new_error_lines) @ '' error lines excluded)''))))"

text \<open>Whether clang finds no more errors in the new text than in the old one.\<close>

definition clang_no_worse :: "parser_manager \<Rightarrow> rstr \<Rightarrow> clang_parse_result option \<Rightarrow> rstr \<Rightarrow> bool" where
  "clang_no_worse m current clang new_text =
     (let after_handle = (case pm_dispatch_clang m new_text of Inr (Some handle) \<Rightarrow> Some handle | _ \<Rightarrow> None);
          before_result = (case clang of Some c \<Rightarrow> Inr c | None \<Rightarrow> pm_parse_clang m current)
      in case before_result of
           Inl _ \<Rightarrow> False
         | Inr before \<Rightarrow>
             (case (case after_handle of
                      Some handle \<Rightarrow> pm_collect_clang m handle new_text
                    | None \<Rightarrow> pm_parse_clang m new_text) of
                Inl _ \<Rightarrow> False
              | Inr after \<Rightarrow> error_diagnostic_count after \<le> error_diagnostic_count before))"

definition checkpoint_policy_stage ::
    "parser_manager \<Rightarrow> rstr \<Rightarrow> parse_cache \<Rightarrow> coordinated_stage \<Rightarrow> rstr \<Rightarrow> checkpoint_result" where
  "checkpoint_policy_stage m current p co policy_name =
     (if \<not> co_text_changed co then Accept None
      else
        let before_errors = (case pa_tree p of None \<Rightarrow> 0 | Some t \<Rightarrow> error_nodes t);
            new_text = pr_text (co_result co)
        in case reparse_from m current (pa_tree p) new_text of
             Inl _ \<Rightarrow> Accept None
           | Inr tree \<Rightarrow>
               if error_nodes tree \<le> before_errors then Accept (Some tree)
               else if clang_no_worse m current (pa_clang p) new_text then Accept (Some tree)
               else case attempt_partial_rollback m current (pa_tree p) (pr_edits (co_result co)) policy_name
                           before_errors (te_error_lines (tree_error_stats tree)) of
                      Some partial \<Rightarrow> partial
                    | None \<Rightarrow>
                        Rollback (''checkpoint: '' @ quoted policy_name @ '' introduced ''
                            @ nat_to_string (error_nodes tree - before_errors)
                            @ '' new error node(s) '' @ [CHR 0xE2, CHR 0x80, CHR 0x94] @ '' rolling back'') (error_nodes tree))"

end
