(* ===== verification/Pipeline.thy ===== *)
theory Pipeline
  imports Pipeline_Stage
begin

text \<open>
  A pass of the policies over a file: how a stage ends, the order of the stages and the final
  text (\<^verbatim>\<open>run_policy_stage\<close>, \<^verbatim>\<open>commit_policy_stage\<close> and \<^verbatim>\<open>run_with_options\<close> of
  \<^verbatim>\<open>src/src/engine/pipeline/mod.rs\<close>).
\<close>

section \<open>Commit\<close>

definition parse_mode_of :: "bool \<Rightarrow> rstr" where
  "parse_mode_of semantic = (if semantic then ''hybrid'' else ''tree-sitter'')"

definition append_selected_candidates :: "edit_candidate list \<Rightarrow> edit_candidate list \<Rightarrow> edit_candidate list" where
  "append_selected_candidates selected candidates = (if candidates = [] then selected else selected @ candidates)"

definition commit_policy_stage ::
    "policy_run_options \<Rightarrow> rstr \<Rightarrow> bool \<Rightarrow> bool \<Rightarrow> coordinated_stage \<Rightarrow> pipeline_state \<Rightarrow> pipeline_state" where
  "commit_policy_stage options policy_name semantic reparse_clang co st =
     (let r = co_result co;
          trace =
            \<lparr>xt_policy = policy_from_str_lossy policy_name, xt_parse_mode = parse_mode_of semantic,
             xt_context_cluster = co_context_cluster co,
             xt_candidate_line_count = length (co_accepted_candidates co),
             xt_dropped_line_count = co_dropped_line_count co,
             xt_semantic_impact_radius = sg_impact_radius (co_convergence_signal co),
             xt_confidence_outcome = co_confidence_outcome co,
             xt_confidence_score = co_confidence_score co,
             xt_confidence_threshold = co_confidence_threshold co,
             xt_executor_scope = ro_retry_scope_stage options,
             xt_candidate_trace = co_candidate_trace co\<rparr>;
          sample = (sample_success policy_name (length (pr_edits r)) (length (pr_violations r)))
            \<lparr>es_confidence := co_confidence_sample co\<rparr>
      in st\<lparr>st_selected := append_selected_candidates (st_selected st) (co_accepted_candidates co),
            st_internal := st_internal st @ co_accepted_candidates co,
            st_traces := st_traces st @ [trace],
            st_samples := st_samples st @ [sample],
            st_current := pr_text r,
            st_violations := st_violations st @ pr_violations r @ co_conflict_violations co,
            st_edits := st_edits st @ pr_edits r,
            st_warnings := st_warnings st @ pr_warnings r,
            st_parse := (if co_text_changed co
                         then invalidate semantic reparse_clang (st_parse st) else st_parse st)\<rparr>)"

section \<open>How a stage ends\<close>

definition push_sample :: "execution_sample \<Rightarrow> pipeline_state \<Rightarrow> pipeline_state" where
  "push_sample sample st = st\<lparr>st_samples := st_samples st @ [sample]\<rparr>"

definition push_trace :: "stage_trace \<Rightarrow> pipeline_state \<Rightarrow> pipeline_state" where
  "push_trace trace st = st\<lparr>st_traces := st_traces st @ [trace]\<rparr>"

definition push_warning :: "rstr \<Rightarrow> pipeline_state \<Rightarrow> pipeline_state" where
  "push_warning w st = st\<lparr>st_warnings := st_warnings st @ [w]\<rparr>"

definition keep_tree :: "ts_node option \<Rightarrow> pipeline_state \<Rightarrow> pipeline_state" where
  "keep_tree validated_tree st =
     (case validated_tree of
        None \<Rightarrow> st | Some tree \<Rightarrow> st\<lparr>st_parse := (st_parse st)\<lparr>pa_tree := Some tree\<rparr>\<rparr>)"

definition accept_stage ::
    "policy_run_options \<Rightarrow> rstr \<Rightarrow> policy_capabilities \<Rightarrow> coordinated_stage \<Rightarrow> ts_node option
      \<Rightarrow> pipeline_state \<Rightarrow> pipeline_state" where
  "accept_stage options policy_name capability co validated_tree st =
     keep_tree validated_tree
       (commit_policy_stage options policy_name (semantic_rewrite capability) (clang_invalidating capability) co st)"

text \<open>The recovered text replaces the current one; only the error lines of the cache are reset.\<close>

definition take_recovered :: "rstr \<Rightarrow> edit list \<Rightarrow> ts_node option \<Rightarrow> pipeline_state \<Rightarrow> pipeline_state" where
  "take_recovered recovered_text recovered_edits validated_tree st =
     keep_tree validated_tree
       (st\<lparr>st_current := recovered_text, st_parse := (st_parse st)\<lparr>pa_error_lines := None\<rparr>,
           st_edits := st_edits st @ recovered_edits\<rparr>)"

definition partial_stage ::
    "policy_run_options \<Rightarrow> rstr \<Rightarrow> policy_capabilities \<Rightarrow> coordinated_stage \<Rightarrow> rstr \<Rightarrow> edit list
      \<Rightarrow> ts_node option \<Rightarrow> rstr \<Rightarrow> pipeline_state \<Rightarrow> pipeline_state" where
  "partial_stage options policy_name capability co recovered_text recovered_edits validated_tree warning st =
     (let edit_count = length recovered_edits;
          trace =
            \<lparr>xt_policy = policy_from_str_lossy policy_name,
             xt_parse_mode = parse_mode_of (semantic_rewrite capability),
             xt_context_cluster = co_context_cluster co, xt_candidate_line_count = edit_count,
             xt_dropped_line_count = length (pr_edits (co_result co)) - edit_count,
             xt_semantic_impact_radius = sg_impact_radius (co_convergence_signal co),
             xt_confidence_outcome = co_confidence_outcome co,
             xt_confidence_score = co_confidence_score co,
             xt_confidence_threshold = co_confidence_threshold co,
             xt_executor_scope = ro_retry_scope_stage options, xt_candidate_trace = []\<rparr>;
          st = push_sample (sample_success policy_name edit_count 0) (push_trace trace (push_warning warning st));
          st = take_recovered recovered_text recovered_edits validated_tree st
      in if semantic_rewrite capability
         then st\<lparr>st_parse := invalidate True (clang_invalidating capability) (st_parse st)\<rparr> else st)"

text \<open>After a rollback: once more with a smaller batch, unless the file is too short for one.\<close>

definition retry_stage ::
    "policy_pipeline \<Rightarrow> policy_run_options \<Rightarrow> policy \<Rightarrow> policy_capabilities \<Rightarrow> rstr \<Rightarrow> nat
      \<Rightarrow> pipeline_state \<Rightarrow> rstr + pipeline_state" where
  "retry_stage pl options policy capability reason after_error_count st =
     (let policy_name = po_name policy;
          give_up = (\<lambda>w st. Inr (push_sample (sample_failed policy_name False) (push_warning w st)));
          batch = retry_batch (pl_adaptive pl)
      in if \<not> (st_retry_batch_size st = None \<and> after_error_count > 0)
            \<or> \<not> batch < length (str_lines (st_current st))
         then give_up reason st
         else case ensure_policy_parse_stage pl policy_name (st\<lparr>st_retry_batch_size := Some batch\<rparr>) of
                Inl err \<Rightarrow> Inl err
              | Inr st \<Rightarrow>
                  (case execute_policy_stage pl options policy (prepare_policy_stage pl policy_name) st of
                     Inl err \<Rightarrow> Inl err
                   | Inr (ex, st) \<Rightarrow>
                       if slices_equal (pr_text (ex_result ex)) (st_current st) then give_up reason st
                       else
                         let (co, st) = coordinate_policy_stage pl options policy_name ex st in
                         case checkpoint_policy_stage (pl_manager pl) (st_current st) (st_parse st) co policy_name of
                           Accept validated_tree \<Rightarrow>
                             Inr (accept_stage options policy_name capability co validated_tree st)
                         | PartialRollback recovered_text recovered_edits validated_tree warning \<Rightarrow>
                             Inr (take_recovered recovered_text recovered_edits validated_tree
                               (push_sample (sample_success policy_name (length recovered_edits) 0)
                                 (push_warning warning st)))
                         | Rollback retry_reason _ \<Rightarrow> give_up retry_reason st))"

definition finish_policy_stage ::
    "policy_pipeline \<Rightarrow> policy_run_options \<Rightarrow> policy \<Rightarrow> policy_capabilities \<Rightarrow> coordinated_stage
      \<Rightarrow> pipeline_state \<Rightarrow> rstr + pipeline_state" where
  "finish_policy_stage pl options policy capability co st =
     (case checkpoint_policy_stage (pl_manager pl) (st_current st) (st_parse st) co (po_name policy) of
        Accept validated_tree \<Rightarrow> Inr (accept_stage options (po_name policy) capability co validated_tree st)
      | PartialRollback recovered_text recovered_edits validated_tree warning \<Rightarrow>
          Inr (partial_stage options (po_name policy) capability co recovered_text recovered_edits validated_tree
                 warning st)
      | Rollback reason after_error_count \<Rightarrow> retry_stage pl options policy capability reason after_error_count st)"

definition run_policy_stage ::
    "policy_pipeline \<Rightarrow> policy_run_options \<Rightarrow> policy \<Rightarrow> pipeline_state \<Rightarrow> rstr + pipeline_state" where
  "run_policy_stage pl options policy st =
     (let policy_name = po_name policy in
      if is_policy_blocked options policy_name
      then Inr (push_trace (plain_trace policy_name ''blocked'')
             (push_sample (sample_blocked policy_name)
               (push_warning (''retry guard skipped policy '' @ quoted policy_name) st)))
      else if is_policy_skipped options policy_name
      then Inr (push_trace (plain_trace policy_name ''skipped'') (push_sample (sample_blocked policy_name) st))
      else case ensure_policy_parse_stage pl policy_name st of
             Inl err \<Rightarrow> Inl err
           | Inr st \<Rightarrow>
               let prepared = prepare_policy_stage pl policy_name; capability = fst prepared in
               case execute_policy_stage pl options policy prepared st of
                 Inl err \<Rightarrow> Inl err
               | Inr (ex, st) \<Rightarrow>
                   if pr_edits (ex_result ex) = [] \<and> pr_violations (ex_result ex) = []
                      \<and> (\<not> pr_changed (ex_result ex) \<or> slices_equal (pr_text (ex_result ex)) (st_current st))
                   then Inr (push_trace (plain_trace policy_name ''n/a'')
                          (push_sample (sample_success policy_name 0 0) st))
                   else
                     let (co, st) = coordinate_policy_stage pl options policy_name ex st in
                     if whitespace_safe capability \<and> co_text_changed co
                     then Inr (commit_policy_stage options policy_name (semantic_rewrite capability)
                            (clang_invalidating capability) co st)
                     else finish_policy_stage pl options policy capability co st)"

section \<open>A pass\<close>

fun run_stages ::
    "policy_pipeline \<Rightarrow> policy_run_options \<Rightarrow> nat list \<Rightarrow> pipeline_state \<Rightarrow> rstr + pipeline_state" where
  "run_stages pl options [] st = Inr st"
| "run_stages pl options (idx # order) st =
     (case run_policy_stage pl options (pl_policies pl ! idx) st of
        Inl err \<Rightarrow> Inl err | Inr st \<Rightarrow> run_stages pl options order st)"

text \<open>
  The metrics of the pass become observations, one for each policy of a counter; the order of the
  policies does not matter, since each has a filter of its own.
\<close>

definition observe_ratios ::
    "(rstr \<Rightarrow> real option) \<Rightarrow> (rstr \<rightharpoonup> scalar_kalman) \<Rightarrow> (rstr \<rightharpoonup> scalar_kalman)" where
  "observe_ratios ratio m = (\<lambda>policy.
     case ratio policy of
       None \<Rightarrow> m policy
     | Some r \<Rightarrow> Some (scalar_observe (unwrap_or (m policy) scalar_new) (min r 1)))"

definition observe_metrics :: "convergence_metrics \<Rightarrow> interference_state \<Rightarrow> interference_state" where
  "observe_metrics metrics st =
     \<lparr>is_interference = observe_ratios (\<lambda>policy.
          case lines_claimed metrics policy of
            None \<Rightarrow> None
          | Some claimed \<Rightarrow>
              if claimed = 0 then None
              else Some (real (unwrap_or (lines_suppressed metrics policy) 0) / real claimed)) (is_interference st),
      is_repair_need = observe_ratios (\<lambda>policy.
          case lines_dropped metrics policy of
            None \<Rightarrow> None
          | Some dropped \<Rightarrow>
              Some (real dropped / real (max (unwrap_or (lines_claimed metrics policy) 1) 1))) (is_repair_need st)\<rparr>"

record format_pass_result =
  fp_policy_result :: policy_result
  fp_policy_traces :: "stage_trace list"
  fp_accuracy_gate :: "accuracy_gate_decision option"
  fp_clang_parse :: "clang_parse_result option"

definition pass_result_default :: format_pass_result where
  "pass_result_default = \<lparr>fp_policy_result = unchanged, fp_policy_traces = [], fp_accuracy_gate = None,
     fp_clang_parse = None\<rparr>"

text \<open>What a pass leaves behind: its result, the interference filters and the cluster telemetry.\<close>

definition finish_run ::
    "policy_pipeline \<Rightarrow> rstr \<Rightarrow> pipeline_state \<Rightarrow> format_pass_result \<times> interference_state \<times> cluster_telemetry" where
  "finish_run pl text st =
     (let f = finalize_run (st_controller st) (st_edits st) (st_violations st) (st_warnings st);
          interference = observe_metrics (cf_metrics f) (pl_interference pl);
          (final_text, final_warnings) =
            stabilize_output_text text (st_current st) (cf_edits f) (cf_warnings f)
      in (\<lparr>fp_policy_result =
             \<lparr>pr_text = final_text, pr_changed = True, pr_violations = cf_violations f, pr_edits = cf_edits f,
              pr_warnings = final_warnings\<rparr>,
           fp_policy_traces = st_traces st, fp_accuracy_gate = None, fp_clang_parse = pa_clang (st_parse st)\<rparr>,
          interference, st_telemetry st))"

definition run_with_options ::
    "policy_pipeline \<Rightarrow> rstr \<Rightarrow> rstr \<Rightarrow> policy_run_options \<Rightarrow> cluster_telemetry
      \<Rightarrow> rstr + format_pass_result \<times> interference_state \<times> cluster_telemetry" where
  "run_with_options pl text ext options telemetry =
     (let st = initialize_run_state pl text ext telemetry in
      case (case pl_policies pl of
              [] \<Rightarrow> Inr st
            | first_policy # _ \<Rightarrow> ensure_policy_parse_stage pl (po_name first_policy) st) of
        Inl err \<Rightarrow> Inl err
      | Inr st \<Rightarrow>
          if ro_observation_only options then Inr (pass_result_default, pl_interference pl, st_telemetry st)
          else case run_stages pl options (pl_dynamic_order pl @ pl_repair_candidates pl) st of
                 Inl err \<Rightarrow> Inl err
               | Inr st \<Rightarrow> Inr (finish_run pl text st))"

end
