(* ===== verification/Pipeline_Steps.thy ===== *)
theory Pipeline_Steps
  imports Pipeline
begin

text \<open>
  What the single steps of a stage change: execution and coordination leave the text, the edits and
  the accepted candidates alone, and the parse before a stage completes the cache and only that.
\<close>

section \<open>What each stage leaves alone\<close>

lemma text_equal [simp]: "slices_equal a b \<longleftrightarrow> a = b"
  by (simp add: text_simps)

lemma error_lines_fields:
  assumes "error_lines_cached p = (lines, p')"
  shows "pa_tree p' = pa_tree p" "pa_clang p' = pa_clang p" "pa_semantic p' = pa_semantic p"
    "pa_comment_lines p' = pa_comment_lines p" "pa_has_semantic_compdb p' = pa_has_semantic_compdb p"
    "pa_summary p' = pa_summary p"
  using assms by (auto simp: error_lines_cached_def Let_def split: option.splits)

lemma executed_state:
  assumes "execute_policy_stage pl options policy prepared st = Inr (ex, st')"
  shows "\<exists>p tel. error_lines_cached (st_parse st) = (fst (error_lines_cached (st_parse st)), p)
    \<and> st' = st\<lparr>st_parse := p, st_retry_batch_size := None, st_telemetry := tel\<rparr>"
  using assms unfolding execute_policy_stage_def Let_def
  by (auto split: prod.splits option.splits)

lemma executed_fields:
  assumes "execute_policy_stage pl options policy prepared st = Inr (ex, st')"
  shows "st_current st' = st_current st" "st_selected st' = st_selected st" "st_internal st' = st_internal st"
    "st_edits st' = st_edits st" "st_violations st' = st_violations st" "st_retry_batch_size st' = None"
    "st_warnings st' = st_warnings st"
    "pa_tree (st_parse st') = pa_tree (st_parse st)" "pa_clang (st_parse st') = pa_clang (st_parse st)"
    "pa_semantic (st_parse st') = pa_semantic (st_parse st)"
    "pa_comment_lines (st_parse st') = pa_comment_lines (st_parse st)"
    "pa_has_semantic_compdb (st_parse st') = pa_has_semantic_compdb (st_parse st)"
    "pa_summary (st_parse st') = pa_summary (st_parse st)"
  using executed_state [OF assms] error_lines_fields by auto

lemma guardian_candidates: "set (snd (guardian_step policy_name current a ex)) \<subseteq> set (ga_allowed a)"
  by (auto simp: guardian_step_def Let_def)

lemma proposed_sorted: "c \<in> set (propose fx g policy_name result ctx) \<Longrightarrow> sorted_footprint c"
  by (auto simp: propose_def sorted_footprint_def symbol_footprint_of_def Let_def strict_sorted_iff)

lemma coordinated_state:
  assumes "coordinate_policy_stage pl options policy_name ex st = (co, st')"
  shows "\<exists>c d. st' = st\<lparr>st_controller := c, st_conflict := d\<rparr>"
    and "co_text_changed co \<longleftrightarrow> pr_text (co_result co) \<noteq> st_current st"
  using assms unfolding coordinate_policy_stage_def Let_def
  by (auto simp: split_beta)

lemma coordinated_candidates:
  assumes "coordinate_policy_stage pl options policy_name ex st = (co, st')"
  shows "\<exists>cands stage kept. co_accepted_candidates co
          = filter kept (cr_accepted (solve cands (st_selected st) stage (pl_adaptive pl)))
        \<and> (\<forall>c \<in> set cands. sorted_footprint c)"
proof -
  obtain ctx where acc: "co_accepted_candidates co = filter (\<lambda>c. ec_line c \<in> edit_lines (pr_edits (co_result co)))
      (cr_accepted (solve (snd (guardian_step policy_name (st_current st)
          (assess (propose (pm_fx (pl_manager pl)) (pm_grammar (pl_manager pl)) policy_name (ex_result ex) ctx)
            (ex_capability ex)) ex)) (st_selected st) (ro_retry_scope_stage options) (pl_adaptive pl)))"
    using assms unfolding coordinate_policy_stage_def Let_def by (auto simp: split_beta)
  have "sorted_footprint c" if "c \<in> set (snd (guardian_step policy_name (st_current st)
      (assess (propose (pm_fx (pl_manager pl)) (pm_grammar (pl_manager pl)) policy_name (ex_result ex) ctx)
        (ex_capability ex)) ex))" for c
    using guardian_candidates that proposed_sorted by (fastforce simp: assess_simps)
  with acc show ?thesis by blast
qed

lemma coordinated_fields:
  assumes "coordinate_policy_stage pl options policy_name ex st = (co, st')"
  shows "st_current st' = st_current st" "st_selected st' = st_selected st" "st_internal st' = st_internal st"
    "st_edits st' = st_edits st" "st_violations st' = st_violations st" "st_parse st' = st_parse st"
    "st_retry_batch_size st' = st_retry_batch_size st" "st_warnings st' = st_warnings st"
  using coordinated_state(1) [OF assms] by auto

section \<open>The parse before a stage\<close>

text \<open>A cache with nothing missing, which the next parse leaves as it is.\<close>

definition complete :: "parse_cache \<Rightarrow> bool" where
  "complete p \<longleftrightarrow> pa_tree p \<noteq> None \<and> (pa_clang p = None \<longrightarrow> \<not> pa_has_semantic_compdb p)
     \<and> pa_semantic p \<noteq> None \<and> pa_comment_lines p \<noteq> None"

lemma set_tree_simps [simp]:
  "pa_tree (set_tree m t p) = Some t" "pa_clang (set_tree m t p) = pa_clang p"
  "pa_semantic (set_tree m t p) = pa_semantic p" "pa_error_lines (set_tree m t p) = pa_error_lines p"
  "pa_has_semantic_compdb (set_tree m t p) = pa_has_semantic_compdb p"
  by (simp_all add: set_tree_def compute_changed_ranges_def)

lemma set_clang_simps [simp]:
  "pa_tree (set_clang c p) = pa_tree p" "pa_clang (set_clang c p) = Some c"
  "pa_semantic (set_clang c p) = pa_semantic p" "pa_error_lines (set_clang c p) = pa_error_lines p"
  "pa_has_semantic_compdb (set_clang c p) = pa_has_semantic_compdb p"
  by (simp_all add: set_clang_def)

lemma filled_simps [simp]:
  "pa_tree (fill_semantic m t p) = pa_tree p" "pa_clang (fill_semantic m t p) = pa_clang p"
  "pa_error_lines (fill_semantic m t p) = pa_error_lines p" "\<exists>y. pa_semantic (fill_semantic m t p) = Some y"
  "pa_has_semantic_compdb (fill_semantic m t p) = pa_has_semantic_compdb p"
  "pa_tree (fill_comments m p) = pa_tree p" "pa_clang (fill_comments m p) = pa_clang p"
  "pa_error_lines (fill_comments m p) = pa_error_lines p" "\<exists>y. pa_comment_lines (fill_comments m p) = Some y"
  "pa_semantic (fill_comments m p) = pa_semantic p"
  "pa_has_semantic_compdb (fill_comments m p) = pa_has_semantic_compdb p"
  by (auto simp: fill_semantic_def fill_comments_def Let_def)

lemma parsed_missing:
  assumes "parse_missing m current p = Inr p'"
  shows "pa_error_lines p' = pa_error_lines p" "pa_has_semantic_compdb p' = pa_has_semantic_compdb p"
    "pa_tree p' \<noteq> None" "pa_clang p' = None \<Longrightarrow> pa_clang p = None \<and> \<not> pa_has_semantic_compdb p"
    "pa_clang p \<noteq> None \<Longrightarrow> pa_clang p' = pa_clang p" "\<not> pa_has_semantic_compdb p \<Longrightarrow> pa_clang p' = pa_clang p"
    "pa_tree p = None \<Longrightarrow> pm_reparse_tree m current (pa_prev_tree p) = Inr (the (pa_tree p'))"
    "pa_tree p \<noteq> None \<Longrightarrow> pa_tree p' = pa_tree p"
  using assms unfolding parse_missing_def Let_def
  by (auto split: if_splits sum.splits option.splits)

lemma ensured_fields:
  assumes "ensure_parse m current p = Inr p'"
  shows "\<exists>q. parse_missing m current p = Inr q \<and> pa_tree p' = pa_tree q \<and> pa_clang p' = pa_clang q
    \<and> pa_error_lines p' = pa_error_lines q \<and> pa_has_semantic_compdb p' = pa_has_semantic_compdb q
    \<and> pa_semantic p' \<noteq> None \<and> pa_comment_lines p' \<noteq> None"
  using assms unfolding ensure_parse_def Let_def
  by (auto split: sum.splits if_splits)

lemma ensured_complete:
  assumes "ensure_parse m current p = Inr p'"
  shows "complete p'"
proof -
  obtain q where q: "parse_missing m current p = Inr q" "pa_tree p' = pa_tree q" "pa_clang p' = pa_clang q"
    "pa_has_semantic_compdb p' = pa_has_semantic_compdb q" "pa_semantic p' \<noteq> None" "pa_comment_lines p' \<noteq> None"
    using ensured_fields [OF assms] by blast
  with parsed_missing(2,3,4) [OF q(1)] show ?thesis unfolding complete_def by metis
qed

lemma ensured_again: "complete p \<Longrightarrow> ensure_parse m current p = Inr p"
  by (auto simp: complete_def ensure_parse_def parse_missing_def fill_semantic_def fill_comments_def)

end
