(* ===== verification/Pipeline_Facts.thy ===== *)
theory Pipeline_Facts
  imports Pipeline_Steps
begin

text \<open>
  The invariant of a pass and how every way a stage can end keeps it; the checkpoint, which either
  vets a text, recovers a part of its edits or rolls back.
\<close>

section \<open>The invariant of a pass\<close>

definition parsed :: "parser_manager \<Rightarrow> rstr \<Rightarrow> ts_node \<Rightarrow> bool" where
  "parsed m t tree \<longleftrightarrow>
     (\<exists>prev. pm_reparse_tree m t prev = Inr tree)
     \<or> (\<exists>old old_tree. pm_reparse_incremental m old t old_tree = Inr tree)"

definition cache_ok :: "parser_manager \<Rightarrow> rstr \<Rightarrow> parse_cache \<Rightarrow> bool" where
  "cache_ok m current p \<longleftrightarrow>
     (\<forall>tree. pa_tree p = Some tree \<longrightarrow> parsed m current tree)
     \<and> (pa_tree p = None \<longrightarrow> pa_error_lines p = None)
     \<and> (\<forall>lines. pa_error_lines p = Some lines \<longrightarrow>
          lines = (case pa_tree p of None \<Rightarrow> {} | Some tree \<Rightarrow> te_error_lines (tree_error_stats tree)))"

definition selected_ok :: "certainty_filter_state \<Rightarrow> edit_candidate list \<Rightarrow> bool" where
  "selected_ok adaptive cs \<longleftrightarrow>
     sorted_wrt (\<lambda>a b. \<not> conflicts a b adaptive) cs
     \<and> (\<forall>c \<in> set cs. sorted_footprint c \<and> \<not> violates_hard_constraints c)"

definition pass_ok :: "policy_pipeline \<Rightarrow> pipeline_state \<Rightarrow> bool" where
  "pass_ok pl st \<longleftrightarrow>
     cache_ok (pl_manager pl) (st_current st) (st_parse st)
     \<and> selected_ok (pl_adaptive pl) (st_selected st)
     \<and> st_internal st = st_selected st
     \<and> st_retry_batch_size st = None"

lemma selected_append:
  assumes "selected_ok s cs" "\<forall>c \<in> set cands. sorted_footprint c"
  shows "selected_ok s (cs @ filter kept (cr_accepted (solve cands cs stage s)))"
proof -
  let ?new = "filter kept (cr_accepted (solve cands cs stage s))"
  note acc = solver_accepts [of s cands cs stage]
  have new: "c \<in> set cands \<and> \<not> violates_hard_constraints c \<and> \<not> list_ex (\<lambda>e. conflicts c e s) cs"
    if "c \<in> set ?new" for c
    using acc that by auto
  have "sorted_wrt (\<lambda>a b. \<not> conflicts a b s) ?new"
    using acc by (simp add: sorted_wrt_filter)
  moreover have "\<not> conflicts a b s" if "a \<in> set cs" "b \<in> set ?new" for a b
  proof -
    have "sorted_footprint a" "sorted_footprint b" using assms that new by (auto simp: selected_ok_def)
    with new [OF that(2)] that(1) show ?thesis by (auto simp: list_ex_iff conflicts_sym)
  qed
  ultimately show ?thesis
    using assms new by (auto simp: selected_ok_def sorted_wrt_append)
qed

lemma ensured_cache:
  assumes "ensure_parse m current p = Inr p'" "cache_ok m current p"
  shows "cache_ok m current p'"
proof -
  obtain q where q: "parse_missing m current p = Inr q" "pa_tree p' = pa_tree q"
    "pa_error_lines p' = pa_error_lines q"
    using ensured_fields [OF assms(1)] by blast
  note missing = parsed_missing [OF q(1)]
  show ?thesis
  proof (cases "pa_tree p")
    case None
    then show ?thesis using assms(2) q missing(1,3,7) by (auto simp: cache_ok_def parsed_def)
  next
    case (Some tree)
    then show ?thesis using assms(2) q missing(1,8) by (simp add: cache_ok_def)
  qed
qed

section \<open>The checkpoint\<close>

text \<open>
  A new text is vetted against the cache of the current one when it cannot be parsed, or has no more
  error nodes than the current one, or clang finds no more errors in it.
\<close>

definition errors_before :: "parse_cache \<Rightarrow> nat" where
  "errors_before p = (case pa_tree p of None \<Rightarrow> 0 | Some t \<Rightarrow> error_nodes t)"

definition vetted :: "parser_manager \<Rightarrow> rstr \<Rightarrow> parse_cache \<Rightarrow> rstr \<Rightarrow> bool" where
  "vetted m current p new_text =
     (case reparse_from m current (pa_tree p) new_text of
        Inl _ \<Rightarrow> True
      | Inr tree \<Rightarrow> error_nodes tree \<le> errors_before p \<or> clang_no_worse m current (pa_clang p) new_text)"

lemma reparsed: "reparse_from m current old new_text = Inr tree \<Longrightarrow> parsed m new_text tree"
  by (auto simp: reparse_from_def parsed_def split: option.splits)

lemma checkpoint_accept:
  assumes "checkpoint_policy_stage m current p co name = Accept v"
  shows "co_text_changed co \<Longrightarrow> vetted m current p (pr_text (co_result co))"
    and "v = Some tree \<Longrightarrow> co_text_changed co \<and> parsed m (pr_text (co_result co)) tree"
  using assms reparsed
  by (auto simp: checkpoint_policy_stage_def attempt_partial_rollback_def vetted_def errors_before_def Let_def
      split: if_splits sum.splits option.splits)

lemma attempted_rollback:
  assumes "attempt_partial_rollback m current tree edits name n lines = Some r"
  shows "\<exists>t es v w. r = PartialRollback t es (Some v) w \<and> reparse_from m current tree t = Inr v \<and> error_nodes v \<le> n
    \<and> es = filter (\<lambda>e. e_line e \<notin> lines) edits \<and> apply_edits_lenient current es = Some t"
  using assms by (auto simp: attempt_partial_rollback_def Let_def split: if_splits sum.splits option.splits)

lemma checkpoint_partial:
  assumes "checkpoint_policy_stage m current p co name = PartialRollback t es v w"
  shows "\<exists>tree. v = Some tree \<and> reparse_from m current (pa_tree p) t = Inr tree \<and> error_nodes tree \<le> errors_before p"
  using assms attempted_rollback
  by (fastforce simp: checkpoint_policy_stage_def errors_before_def Let_def
      split: if_splits sum.splits option.splits)

lemma partial_vetted:
  "checkpoint_policy_stage m current p co name = PartialRollback t es v w \<Longrightarrow> vetted m current p t"
  using checkpoint_partial by (fastforce simp: vetted_def)

section \<open>Steps of a stage\<close>

lemma keep_tree_fields [simp]:
  "st_current (keep_tree v st) = st_current st" "st_selected (keep_tree v st) = st_selected st"
  "st_internal (keep_tree v st) = st_internal st" "st_retry_batch_size (keep_tree v st) = st_retry_batch_size st"
  "st_edits (keep_tree v st) = st_edits st" "st_violations (keep_tree v st) = st_violations st"
  "st_parse (keep_tree v st) = (case v of None \<Rightarrow> st_parse st | Some t \<Rightarrow> (st_parse st)\<lparr>pa_tree := Some t\<rparr>)"
  by (simp_all add: keep_tree_def split: option.splits)

lemma pushed_fields [simp]:
  "st_current (push_sample s st) = st_current st" "st_selected (push_sample s st) = st_selected st"
  "st_internal (push_sample s st) = st_internal st" "st_parse (push_sample s st) = st_parse st"
  "st_retry_batch_size (push_sample s st) = st_retry_batch_size st" "st_edits (push_sample s st) = st_edits st"
  "st_violations (push_sample s st) = st_violations st"
  "st_current (push_trace t st) = st_current st" "st_selected (push_trace t st) = st_selected st"
  "st_internal (push_trace t st) = st_internal st" "st_parse (push_trace t st) = st_parse st"
  "st_retry_batch_size (push_trace t st) = st_retry_batch_size st" "st_edits (push_trace t st) = st_edits st"
  "st_violations (push_trace t st) = st_violations st"
  "st_current (push_warning w st) = st_current st" "st_selected (push_warning w st) = st_selected st"
  "st_internal (push_warning w st) = st_internal st" "st_parse (push_warning w st) = st_parse st"
  "st_retry_batch_size (push_warning w st) = st_retry_batch_size st" "st_edits (push_warning w st) = st_edits st"
  "st_violations (push_warning w st) = st_violations st"
  by (simp_all add: push_sample_def push_trace_def push_warning_def)

lemma taken_fields [simp]:
  "st_current (take_recovered t es v st) = t" "st_selected (take_recovered t es v st) = st_selected st"
  "st_internal (take_recovered t es v st) = st_internal st"
  "st_retry_batch_size (take_recovered t es v st) = st_retry_batch_size st"
  "st_edits (take_recovered t es v st) = st_edits st @ es"
  "st_violations (take_recovered t es v st) = st_violations st"
  by (simp_all add: take_recovered_def)

lemma taken_parse [simp]:
  "st_parse (take_recovered t es (Some tree) st) =
     (st_parse st)\<lparr>pa_error_lines := None, pa_tree := Some tree\<rparr>"
  by (simp add: take_recovered_def)

lemma invalidated_fields [simp]:
  "pa_tree (invalidate semantic clang p) = None" "pa_error_lines (invalidate semantic clang p) = None"
  "pa_clang p = None \<Longrightarrow> pa_clang (invalidate semantic clang p) = None"
  "pa_has_semantic_compdb (invalidate semantic clang p) = pa_has_semantic_compdb p"
  by (simp_all add: invalidate_def Let_def)

lemma commit_fields [simp]:
  "st_current (commit_policy_stage options name semantic clang co st) = pr_text (co_result co)"
  "st_selected (commit_policy_stage options name semantic clang co st) = st_selected st @ co_accepted_candidates co"
  "st_internal (commit_policy_stage options name semantic clang co st) = st_internal st @ co_accepted_candidates co"
  "st_retry_batch_size (commit_policy_stage options name semantic clang co st) = st_retry_batch_size st"
  "st_edits (commit_policy_stage options name semantic clang co st) = st_edits st @ pr_edits (co_result co)"
  "st_parse (commit_policy_stage options name semantic clang co st) =
     (if co_text_changed co then invalidate semantic clang (st_parse st) else st_parse st)"
  by (simp_all add: commit_policy_stage_def append_selected_candidates_def Let_def)

section \<open>The invariant of a pass is kept\<close>

lemma cache_invalidated [simp]: "cache_ok m t (invalidate semantic clang p)"
  by (simp add: cache_ok_def)

lemma cache_new_tree:
  "parsed m t tree \<Longrightarrow> pa_error_lines p = None \<Longrightarrow> cache_ok m t (p\<lparr>pa_tree := Some tree\<rparr>)"
  by (simp add: cache_ok_def)

lemma accept_ok:
  assumes ok: "pass_ok pl st0" and co: "coordinate_policy_stage pl options name ex st0 = (co, st)"
    and v: "\<And>tree. v = Some tree \<Longrightarrow> co_text_changed co \<and> parsed (pl_manager pl) (pr_text (co_result co)) tree"
  shows "pass_ok pl (keep_tree v (commit_policy_stage options name semantic clang co st))"
proof -
  obtain cands stage kept where acc: "co_accepted_candidates co
      = filter kept (cr_accepted (solve cands (st_selected st0) stage (pl_adaptive pl)))"
    and sorted: "\<forall>c \<in> set cands. sorted_footprint c"
    using coordinated_candidates [OF co] by blast
  have changed: "co_text_changed co \<longleftrightarrow> pr_text (co_result co) \<noteq> st_current st0"
    using co by (rule coordinated_state)
  have sel: "selected_ok (pl_adaptive pl) (st_selected st0 @ co_accepted_candidates co)"
    unfolding acc using ok sorted by (auto simp: pass_ok_def intro: selected_append)
  note fields = coordinated_fields [OF co]
  show ?thesis
    using ok sel changed v fields
    by (cases v) (auto simp: pass_ok_def cache_new_tree)
qed

lemma recovered_ok:
  assumes "pass_ok pl st" "parsed (pl_manager pl) t tree"
  shows "pass_ok pl (take_recovered t es (Some tree) st)"
  using assms by (simp add: pass_ok_def cache_ok_def)

lemma pushed_ok [simp]:
  "pass_ok pl (push_sample s st) = pass_ok pl st" "pass_ok pl (push_trace t st) = pass_ok pl st"
  "pass_ok pl (push_warning w st) = pass_ok pl st"
  by (simp_all add: pass_ok_def)

lemma partial_ok:
  assumes "pass_ok pl st" "parsed (pl_manager pl) t tree"
  shows "pass_ok pl (partial_stage options name capability co t es (Some tree) w st)"
  using assms by (simp add: partial_stage_def pass_ok_def cache_new_tree Let_def)

lemma executed_ok:
  assumes ex: "execute_policy_stage pl options policy prepared st = Inr (ex, st')"
    and ok: "cache_ok (pl_manager pl) (st_current st) (st_parse st)" "selected_ok (pl_adaptive pl) (st_selected st)"
      "st_internal st = st_selected st" and tree: "pa_tree (st_parse st) \<noteq> None"
  shows "pass_ok pl st'"
proof -
  obtain p tel where p: "error_lines_cached (st_parse st) = (fst (error_lines_cached (st_parse st)), p)"
    and st': "st' = st\<lparr>st_parse := p, st_retry_batch_size := None, st_telemetry := tel\<rparr>"
    using executed_state [OF ex] by blast
  have "cache_ok (pl_manager pl) (st_current st) p"
    using p ok(1) tree by (auto simp: error_lines_cached_def cache_ok_def Let_def split: option.splits)
  with st' ok show ?thesis by (simp add: pass_ok_def)
qed

lemma ensured_stage:
  assumes "ensure_policy_parse_stage pl name st = Inr st'"
  shows "\<exists>p. ensure_parse (pl_manager pl) (st_current st) (st_parse st) = Inr p \<and> st' = st\<lparr>st_parse := p\<rparr>"
  using assms by (auto simp: ensure_policy_parse_stage_def split: sum.splits)

lemma ensured_executed_ok:
  assumes "ensure_policy_parse_stage pl name st = Inr st1"
    "execute_policy_stage pl options policy prepared st1 = Inr (ex, st2)"
    "pass_ok pl (st\<lparr>st_retry_batch_size := None\<rparr>)"
  shows "pass_ok pl st2"
proof -
  obtain p where p: "ensure_parse (pl_manager pl) (st_current st) (st_parse st) = Inr p" "st1 = st\<lparr>st_parse := p\<rparr>"
    using ensured_stage [OF assms(1)] by blast
  have "cache_ok (pl_manager pl) (st_current st) p"
    using ensured_cache [OF p(1)] assms(3) by (simp add: pass_ok_def)
  moreover have "pa_tree p \<noteq> None" using ensured_complete [OF p(1)] by (simp add: complete_def)
  ultimately show ?thesis
    using assms(3) p(2) by (intro executed_ok [OF assms(2)]) (simp_all add: pass_ok_def)
qed

lemma retry_stage_steps:
  assumes "retry_stage pl options policy capability reason n st = Inr st'"
    "st_retry_batch_size st = None \<and> n > 0" "retry_batch (pl_adaptive pl) < length (str_lines (st_current st))"
  shows "\<exists>st1 ex st2. ensure_policy_parse_stage pl (po_name policy)
      (st\<lparr>st_retry_batch_size := Some (retry_batch (pl_adaptive pl))\<rparr>) = Inr st1
    \<and> execute_policy_stage pl options policy (prepare_policy_stage pl (po_name policy)) st1 = Inr (ex, st2)"
  using assms by (auto simp: retry_stage_def Let_def split: sum.splits)

lemma retried_ok:
  assumes "retry_stage pl options policy capability reason n st = Inr st'" "pass_ok pl st"
  shows "pass_ok pl st'"
proof (cases "(st_retry_batch_size st = None \<and> n > 0) \<and> retry_batch (pl_adaptive pl) < length (str_lines (st_current st))")
  case False
  then show ?thesis using assms by (auto simp: retry_stage_def Let_def)
next
  case True
  let ?name = "po_name policy"
  obtain st1 ex st2 where st1: "ensure_policy_parse_stage pl ?name
      (st\<lparr>st_retry_batch_size := Some (retry_batch (pl_adaptive pl))\<rparr>) = Inr st1"
    and st2: "execute_policy_stage pl options policy (prepare_policy_stage pl ?name) st1 = Inr (ex, st2)"
    using retry_stage_steps [OF assms(1)] True by blast
  have ok2: "pass_ok pl st2"
    using ensured_executed_ok [OF st1 st2] assms(2) by (simp add: pass_ok_def)
  obtain co st3 where st3: "coordinate_policy_stage pl options ?name ex st2 = (co, st3)" by fastforce
  note fields = coordinated_fields [OF st3]
  have ok3: "pass_ok pl st3" using ok2 fields by (simp add: pass_ok_def)
  show ?thesis
  proof (cases "pr_text (ex_result ex) = st_current st2")
    case True' : True
    with True assms(1) st1 st2 ok2 show ?thesis by (auto simp: retry_stage_def Let_def)
  next
    case False
    show ?thesis
    proof (cases "checkpoint_policy_stage (pl_manager pl) (st_current st3) (st_parse st3) co ?name")
      case (Accept v)
      with True False assms(1) st1 st2 st3 have "st' = accept_stage options ?name capability co v st3"
        by (simp add: retry_stage_def Let_def)
      moreover have "pass_ok pl (accept_stage options ?name capability co v st3)"
        unfolding accept_stage_def by (rule accept_ok [OF ok2 st3]) (rule checkpoint_accept(2) [OF Accept])
      ultimately show ?thesis by simp
    next
      case (PartialRollback t es v w)
      obtain tree where "v = Some tree" "parsed (pl_manager pl) t tree"
        using checkpoint_partial [OF PartialRollback] reparsed by blast
      with True False assms(1) st1 st2 st3 PartialRollback ok3 show ?thesis
        by (auto simp: retry_stage_def Let_def intro!: recovered_ok)
    next
      case (Rollback r k)
      with True False assms(1) st1 st2 st3 ok3 show ?thesis by (auto simp: retry_stage_def Let_def)
    qed
  qed
qed

lemma finished_ok:
  assumes "finish_policy_stage pl options policy capability co st = Inr st'"
    "coordinate_policy_stage pl options (po_name policy) ex st0 = (co, st)" "pass_ok pl st0"
  shows "pass_ok pl st'"
proof (cases "checkpoint_policy_stage (pl_manager pl) (st_current st) (st_parse st) co (po_name policy)")
  case (Accept v)
  have "pass_ok pl (accept_stage options (po_name policy) capability co v st)"
    unfolding accept_stage_def by (rule accept_ok [OF assms(3,2)]) (rule checkpoint_accept(2) [OF Accept])
  with Accept show ?thesis using assms(1) by (simp add: finish_policy_stage_def)
next
  case (PartialRollback t es v w)
  obtain tree where "v = Some tree" "parsed (pl_manager pl) t tree"
    using checkpoint_partial [OF PartialRollback] reparsed by blast
  moreover have "pass_ok pl st" using assms(3) coordinated_fields [OF assms(2)] by (simp add: pass_ok_def)
  ultimately show ?thesis using assms(1) PartialRollback
    by (auto simp: finish_policy_stage_def intro!: partial_ok)
next
  case (Rollback r k)
  moreover have "pass_ok pl st" using assms(3) coordinated_fields [OF assms(2)] by (simp add: pass_ok_def)
  ultimately show ?thesis using assms(1) retried_ok by (auto simp: finish_policy_stage_def)
qed

lemma run_policy_stage_eq:
  assumes "\<not> is_policy_blocked options (po_name policy)" "\<not> is_policy_skipped options (po_name policy)"
    "ensure_policy_parse_stage pl (po_name policy) st = Inr st1"
    "execute_policy_stage pl options policy (prepare_policy_stage pl (po_name policy)) st1 = Inr (ex, st2)"
    "coordinate_policy_stage pl options (po_name policy) ex st2 = (co, st3)"
  shows "run_policy_stage pl options policy st =
    (let name = po_name policy; cap = fst (prepare_policy_stage pl name) in
     if pr_edits (ex_result ex) = [] \<and> pr_violations (ex_result ex) = []
        \<and> (\<not> pr_changed (ex_result ex) \<or> pr_text (ex_result ex) = st_current st2)
     then Inr (push_trace (plain_trace name ''n/a'') (push_sample (sample_success name 0 0) st2))
     else if whitespace_safe cap \<and> co_text_changed co
     then Inr (commit_policy_stage options name (semantic_rewrite cap) (clang_invalidating cap) co st3)
     else finish_policy_stage pl options policy cap co st3)"
  using assms by (auto simp: run_policy_stage_def Let_def)

lemma run_policy_stage_steps:
  assumes "run_policy_stage pl options policy st = Inr st'"
    "\<not> is_policy_blocked options (po_name policy)" "\<not> is_policy_skipped options (po_name policy)"
  shows "\<exists>st1 ex st2. ensure_policy_parse_stage pl (po_name policy) st = Inr st1
    \<and> execute_policy_stage pl options policy (prepare_policy_stage pl (po_name policy)) st1 = Inr (ex, st2)"
  using assms unfolding run_policy_stage_def Let_def by (simp split: sum.splits)

text \<open>The ways a stage ends: skipped, without a result, committed direct, or finished at the checkpoint.\<close>

lemma run_policy_stage_cases [consumes 1, case_names idle silent direct checked]:
  assumes run: "run_policy_stage pl options policy st = Inr st'"
  obtains "st_current st' = st_current st" "st_parse st' = st_parse st" "st_selected st' = st_selected st"
      "st_internal st' = st_internal st" "st_retry_batch_size st' = st_retry_batch_size st" "st_edits st' = st_edits st"
      "st_violations st' = st_violations st"
    | st1 ex st2 where "ensure_policy_parse_stage pl (po_name policy) st = Inr st1"
      "execute_policy_stage pl options policy (prepare_policy_stage pl (po_name policy)) st1 = Inr (ex, st2)"
      "st' = push_trace (plain_trace (po_name policy) ''n/a'')
         (push_sample (sample_success (po_name policy) 0 0) st2)"
    | st1 ex st2 co st3 where "ensure_policy_parse_stage pl (po_name policy) st = Inr st1"
      "execute_policy_stage pl options policy (prepare_policy_stage pl (po_name policy)) st1 = Inr (ex, st2)"
      "coordinate_policy_stage pl options (po_name policy) ex st2 = (co, st3)"
      "whitespace_safe (capabilities_by_name policy_catalog (po_name policy))"
      "st' = commit_policy_stage options (po_name policy)
         (semantic_rewrite (capabilities_by_name policy_catalog (po_name policy)))
         (clang_invalidating (capabilities_by_name policy_catalog (po_name policy))) co st3"
    | st1 ex st2 co st3 where "ensure_policy_parse_stage pl (po_name policy) st = Inr st1"
      "execute_policy_stage pl options policy (prepare_policy_stage pl (po_name policy)) st1 = Inr (ex, st2)"
      "coordinate_policy_stage pl options (po_name policy) ex st2 = (co, st3)"
      "finish_policy_stage pl options policy (capabilities_by_name policy_catalog (po_name policy)) co st3 = Inr st'"
proof (cases "is_policy_blocked options (po_name policy) \<or> is_policy_skipped options (po_name policy)")
  case True
  then have "(\<exists>w s t. st' = push_trace t (push_sample s (push_warning w st)))
      \<or> (\<exists>s t. st' = push_trace t (push_sample s st))"
    using run by (auto simp: run_policy_stage_def Let_def split: if_splits)
  then show thesis by (auto intro!: that(1))
next
  case False
  then obtain st1 ex st2 where st1: "ensure_policy_parse_stage pl (po_name policy) st = Inr st1"
    and st2: "execute_policy_stage pl options policy (prepare_policy_stage pl (po_name policy)) st1 = Inr (ex, st2)"
    using run_policy_stage_steps [OF run] by blast
  obtain co st3 where st3: "coordinate_policy_stage pl options (po_name policy) ex st2 = (co, st3)" by fastforce
  have "fst (prepare_policy_stage pl (po_name policy)) = capabilities_by_name policy_catalog (po_name policy)"
    by (simp add: prepare_policy_stage_def)
  with run_policy_stage_eq [OF _ _ st1 st2 st3] False run show thesis
    by (auto simp: Let_def split: if_splits intro: that(2) [OF st1 st2] that(3) [OF st1 st2 st3]
        that(4) [OF st1 st2 st3])
qed

lemma stage_ok:
  assumes "run_policy_stage pl options policy st = Inr st'" "pass_ok pl st"
  shows "pass_ok pl st'"
proof -
  have none: "pass_ok pl (st\<lparr>st_retry_batch_size := None\<rparr>)" using assms(2) by (simp add: pass_ok_def)
  from assms(1) show ?thesis
  proof (cases rule: run_policy_stage_cases)
    case idle
    with assms(2) show ?thesis by (simp add: pass_ok_def)
  next
    case (silent st1 ex st2)
    with ensured_executed_ok [OF silent(1,2) none] show ?thesis by simp
  next
    case (direct st1 ex st2 co st3)
    with accept_ok [OF ensured_executed_ok [OF direct(1,2) none] direct(3), of None] show ?thesis
      by (simp add: keep_tree_def)
  next
    case (checked st1 ex st2 co st3)
    then show ?thesis using finished_ok ensured_executed_ok [OF checked(1,2) none] by blast
  qed
qed

end
