(* ===== verification/Pipeline_Progress.thy ===== *)
theory Pipeline_Progress
  imports Pipeline_Facts
begin

text \<open>
  A pass runs to its end: with parsers that give a result and policies that report nothing fatal, no
  stage of the pipeline stops it.
\<close>

section \<open>Nothing fatal\<close>

definition fatal :: "rstr \<Rightarrow> bool" where
  "fatal w = starts_with w ''fatal:''"

definition nonfatal :: "policy_result \<Rightarrow> bool" where
  "nonfatal r \<longleftrightarrow> list_all (\<lambda>w. \<not> fatal w) (pr_warnings r)"

lemma suppression_not_fatal: "\<not> fatal (''line suppression'' @ s)"
  by (simp add: fatal_def starts_with_def)

lemma suppressed_warnings:
  "\<exists>ws. pr_warnings (apply_line_suppression b r lines) = pr_warnings r @ map (\<lambda>s. ''line suppression'' @ s) ws"
proof -
  have "\<exists>ws. pr_warnings (suppress_nonlocal b r lines vs es) = pr_warnings r @ map (\<lambda>s. ''line suppression'' @ s) ws" for vs es
  proof -
    have "\<exists>s. pr_warnings (suppress_nonlocal b r lines vs es) = pr_warnings r @ [''line suppression'' @ s]"
      by (auto simp: suppress_nonlocal_def rollback_warning_def Let_def split: option.splits list.splits)
    then obtain s where "pr_warnings (suppress_nonlocal b r lines vs es) = pr_warnings r @ [''line suppression'' @ s]" ..
    then show ?thesis by (intro exI [of _ "[s]"]) simp
  qed
  moreover have "pr_warnings (apply_line_suppression b r lines) = pr_warnings r
      \<or> (\<exists>vs es. apply_line_suppression b r lines = suppress_nonlocal b r lines vs es)"
    by (auto simp: apply_line_suppression_def suppress_lines_impl_def Let_def)
  ultimately show ?thesis by (metis append_Nil2 list.simps(8))
qed

lemma suppressed_nonfatal: "nonfatal (apply_line_suppression b r lines) = nonfatal r"
proof -
  obtain ws where "pr_warnings (apply_line_suppression b r lines) = pr_warnings r @ map (\<lambda>s. ''line suppression'' @ s) ws"
    using suppressed_warnings by blast
  then show ?thesis using suppression_not_fatal by (auto simp: nonfatal_def list_all_iff)
qed

definition never_fatal :: "policy \<Rightarrow> bool" where
  "never_fatal policy \<longleftrightarrow> (\<forall>cx. nonfatal (po_apply policy cx))"

lemma proposed_nonfatal:
  "never_fatal policy \<Longrightarrow> ro_allowed_edit_lines options = None \<Longrightarrow> nonfatal (proposed_result options policy cap cx)"
  by (simp add: proposed_result_def never_fatal_def apply_scope_filter_def suppressed_nonfatal Let_def)

section \<open>Progress\<close>

definition parsers_total :: "parser_manager \<Rightarrow> bool" where
  "parsers_total m \<longleftrightarrow>
     (\<forall>t old. \<exists>tree. pm_reparse_tree m t old = Inr tree) \<and> (\<forall>t. \<exists>c. pm_parse_clang m t = Inr c)
     \<and> (\<forall>t. \<exists>h. pm_dispatch_clang m t = Inr h) \<and> (\<forall>h t. \<exists>c. pm_collect_clang m h t = Inr c)"

lemma parse_missing_total: "parsers_total m \<Longrightarrow> \<exists>p'. parse_missing m t p = Inr p'"
proof -
  assume total: "parsers_total m"
  obtain tree where tree: "pm_reparse_tree m t (pa_prev_tree p) = Inr tree" using total unfolding parsers_total_def by blast
  obtain c where c: "pm_parse_clang m t = Inr c" using total unfolding parsers_total_def by blast
  obtain h where h: "pm_dispatch_clang m t = Inr h" using total unfolding parsers_total_def by blast
  have "\<exists>c. (case h of Some handle \<Rightarrow> pm_collect_clang m handle t | None \<Rightarrow> pm_parse_clang m t) = Inr c"
    using total c by (cases h) (auto simp: parsers_total_def)
  then obtain c' where "(case h of Some handle \<Rightarrow> pm_collect_clang m handle t | None \<Rightarrow> pm_parse_clang m t) = Inr c'" ..
  then have "(case Inr h of Inr (Some handle) \<Rightarrow> pm_collect_clang m handle t | Inr None \<Rightarrow> pm_parse_clang m t
      | Inl err \<Rightarrow> Inl (err :: rstr)) = Inr c'"
    by (cases h) simp_all
  with tree c h show ?thesis by (simp add: parse_missing_def Let_def)
qed

lemma ensured_total:
  assumes "parsers_total (pl_manager pl)"
  shows "\<exists>st'. ensure_policy_parse_stage pl name st = Inr st'"
proof -
  obtain p where "parse_missing (pl_manager pl) (st_current st) (st_parse st) = Inr p"
    using parse_missing_total [OF assms] by blast
  then show ?thesis by (simp add: ensure_policy_parse_stage_def ensure_parse_def Let_def)
qed

lemma find_none: "list_all (\<lambda>x. \<not> P x) xs \<Longrightarrow> find P xs = None"
  by (induction xs) auto

lemma executed_total:
  assumes "never_fatal policy" "ro_allowed_edit_lines options = None"
  shows "\<exists>out. execute_policy_stage pl options policy prepared st = Inr out"
proof -
  have "find (\<lambda>w. starts_with w ''fatal:'') (pr_warnings (proposed_result options policy cap cx)) = None" for cap cx
    using proposed_nonfatal [OF assms] by (intro find_none) (simp add: nonfatal_def fatal_def)
  then show ?thesis by (simp add: execute_policy_stage_def Let_def split: prod.splits)
qed

lemma retried_total:
  assumes "parsers_total (pl_manager pl)" "never_fatal policy" "ro_allowed_edit_lines options = None"
  shows "\<exists>st'. retry_stage pl options policy capability reason n st = Inr st'"
proof -
  let ?st1 = "st\<lparr>st_retry_batch_size := Some (retry_batch (pl_adaptive pl))\<rparr>"
  obtain st1 where st1: "ensure_policy_parse_stage pl (po_name policy) ?st1 = Inr st1"
    using ensured_total [OF assms(1)] by blast
  obtain ex st2 where st2: "execute_policy_stage pl options policy (prepare_policy_stage pl (po_name policy)) st1 = Inr (ex, st2)"
    using executed_total [OF assms(2,3)] by (metis surj_pair)
  obtain co st3 where st3: "coordinate_policy_stage pl options (po_name policy) ex st2 = (co, st3)" by fastforce
  from st1 st2 st3 show ?thesis
    by (cases "checkpoint_policy_stage (pl_manager pl) (st_current st3) (st_parse st3) co (po_name policy)")
      (auto simp: retry_stage_def Let_def)
qed

lemma stage_total:
  assumes "parsers_total (pl_manager pl)" "never_fatal policy" "ro_allowed_edit_lines options = None"
  shows "\<exists>st'. run_policy_stage pl options policy st = Inr st'"
proof (cases "is_policy_blocked options (po_name policy) \<or> is_policy_skipped options (po_name policy)")
  case True
  then show ?thesis by (auto simp: run_policy_stage_def Let_def)
next
  case False
  obtain st1 where st1: "ensure_policy_parse_stage pl (po_name policy) st = Inr st1"
    using ensured_total [OF assms(1)] by blast
  obtain ex st2 where st2: "execute_policy_stage pl options policy (prepare_policy_stage pl (po_name policy)) st1 = Inr (ex, st2)"
    using executed_total [OF assms(2,3)] by (metis surj_pair)
  obtain co st3 where st3: "coordinate_policy_stage pl options (po_name policy) ex st2 = (co, st3)" by fastforce
  have "\<exists>st'. finish_policy_stage pl options policy cap co st3 = Inr st'" for cap
    using retried_total [OF assms] by (simp add: finish_policy_stage_def split: checkpoint_result.splits)
  then show ?thesis
    using run_policy_stage_eq [OF _ _ st1 st2 st3] False by (simp add: Let_def)
qed

lemma stages_total:
  assumes "parsers_total (pl_manager pl)" "ro_allowed_edit_lines options = None"
    and "\<forall>policy \<in> set (pl_policies pl). never_fatal policy" "\<forall>i \<in> set order. i < length (pl_policies pl)"
  shows "\<exists>st'. run_stages pl options order st = Inr st'"
  using assms(4)
proof (induction order arbitrary: st)
  case (Cons i order)
  obtain st1 where "run_policy_stage pl options (pl_policies pl ! i) st = Inr st1"
    using stage_total [OF assms(1) _ assms(2)] assms(3) Cons.prems by (meson list.set_intros(1) nth_mem)
  then show ?case using Cons by simp
qed simp

lemma order_bounded:
  "set (compute_dynamic_order policies interference adaptive) = {..<length policies}"
  "set (collect_repair_candidates policies interference adaptive) \<subseteq> {..<length policies}"
  by (auto simp: compute_dynamic_order_def collect_repair_candidates_def Let_def)

text \<open>
  \<^bold>\<open>C5\<close>.  A pass of a new pipeline always completes when its parsers give a result and no
  policy reports a fatal error: no guard, conflict, checkpoint, rollback or retry stops it; and its
  order gives every policy exactly one turn before the repair pass.
\<close>

theorem pass_completes:
  fixes policies manager settings confidence enforcement detection threshold adaptive interference
  defines "pl \<equiv> pipeline_new policies manager settings confidence enforcement detection threshold adaptive interference"
  assumes "parsers_total manager" "list_all never_fatal policies" "ro_allowed_edit_lines options = None"
  shows "(\<exists>out. run_with_options pl input ext options telemetry = Inr out)
    \<and> distinct (pl_dynamic_order pl) \<and> set (pl_dynamic_order pl) = {..<length policies}"
proof -
  have pl: "pl_policies pl = policies" "pl_manager pl = manager"
    "pl_dynamic_order pl = compute_dynamic_order policies interference adaptive"
    "pl_repair_candidates pl = collect_repair_candidates policies interference adaptive"
    by (simp_all add: pl_def pipeline_new_def)
  have order: "\<forall>i \<in> set (pl_dynamic_order pl @ pl_repair_candidates pl). i < length (pl_policies pl)"
    using order_bounded [of policies interference adaptive] by (auto simp: pl)
  have "\<exists>st'. run_stages pl options (pl_dynamic_order pl @ pl_repair_candidates pl) st = Inr st'" for st
    using stages_total [of pl options "pl_dynamic_order pl @ pl_repair_candidates pl"] assms(2-4) order
    by (simp add: pl list_all_iff)
  note stages = this
  have "\<exists>st. (case pl_policies pl of [] \<Rightarrow> Inr (initialize_run_state pl input ext telemetry)
      | first_policy # _ \<Rightarrow> ensure_policy_parse_stage pl (po_name first_policy)
          (initialize_run_state pl input ext telemetry)) = Inr st"
    using ensured_total [of pl] assms(2) pl(2) by (cases "pl_policies pl") simp_all
  then obtain st where st: "(case pl_policies pl of [] \<Rightarrow> Inr (initialize_run_state pl input ext telemetry)
      | first_policy # _ \<Rightarrow> ensure_policy_parse_stage pl (po_name first_policy)
          (initialize_run_state pl input ext telemetry)) = Inr st" ..
  obtain st' where st': "run_stages pl options (pl_dynamic_order pl @ pl_repair_candidates pl) st = Inr st'"
    using stages by blast
  have "\<exists>out. run_with_options pl input ext options telemetry = Inr out"
    unfolding run_with_options_def Let_def st by (cases "finish_run pl input st'") (simp add: st')
  then show ?thesis using order_bounded(1) [of policies interference adaptive]
    by (simp add: pl compute_dynamic_order_def)
qed

section \<open>Examples\<close>

text \<open>A parser for which an at sign is a syntax error, and a policy that rewrites one line.\<close>

definition sample_tree :: "rstr \<Rightarrow> ts_node" where
  "sample_tree t = TsNode 7 0 0 0 0 (CHR ''@'' \<in> set t) False True None []"

definition sample_manager :: "(rstr \<Rightarrow> rstr + clang_parse_result) \<Rightarrow> parser_manager" where
  "sample_manager clang =
     \<lparr>pm_fx = sample_hasher, pm_grammar = sample_grammar, pm_comment_kind = 3, pm_canonical_path = ''a.hpp'',
      pm_reparse_tree = (\<lambda>t _. Inr (sample_tree t)), pm_reparse_incremental = (\<lambda>_ t _. Inr (sample_tree t)),
      pm_parse_clang = clang, pm_dispatch_clang = (\<lambda>_. Inr None), pm_collect_clang = (\<lambda>_. clang),
      pm_changed_ranges = (\<lambda>_ _. []), pm_has_exact_compdb = False, pm_semantic_kind = Exact,
      pm_has_semantic_compdb = False\<rparr>"

definition sample_clang :: "rstr \<Rightarrow> rstr + clang_parse_result" where
  "sample_clang t = Inr \<lparr>cp_success = True, cp_diagnostics = [], cp_symbols = [], cp_diagnostic_counts = [0, 0, 0, 0, 0],
     cp_diagnostic_entries = [], cp_rename_offsets = Map.empty, cp_reference_offsets = []\<rparr>"

definition sample_policy :: policy where
  "sample_policy = \<lparr>po_name = ''include_guards'', po_id = IncludeGuards,
     po_apply = (\<lambda>cx. \<lparr>pr_text = ''int y;'' @ [newline], pr_changed = True, pr_violations = [],
       pr_edits = [\<lparr>e_policy = IncludeGuards, e_line = 1, e_before = cx_text cx, e_after = ''int y;'' @ [newline]\<rparr>],
       pr_warnings = []\<rparr>)\<rparr>"

definition sample_pipeline :: "(rstr \<Rightarrow> rstr + clang_parse_result) \<Rightarrow> policy_pipeline" where
  "sample_pipeline clang = pipeline_new [sample_policy] (sample_manager clang) Map.empty True Soft True 3
     certainty_default interference_new"

definition no_telemetry :: cluster_telemetry where
  "no_telemetry = \<lparr>tl_entries = [], tl_read_model = None\<rparr>"

lemma sample_total: "parsers_total (sample_manager sample_clang)"
  by (simp add: parsers_total_def sample_manager_def sample_clang_def)

lemma sample_never_fatal: "never_fatal sample_policy"
  by (simp add: never_fatal_def nonfatal_def sample_policy_def)

theorem pass_completes_witness:
  "(\<exists>out. run_with_options (sample_pipeline sample_clang) (''int x;'' @ [newline]) ''hpp'' run_options_default no_telemetry
      = Inr out)
    \<and> distinct (pl_dynamic_order (sample_pipeline sample_clang))
    \<and> set (pl_dynamic_order (sample_pipeline sample_clang)) = {..<length [sample_policy]}"
  unfolding sample_pipeline_def
  by (rule pass_completes) (simp_all add: sample_total sample_never_fatal run_options_default_def)

end
