(* ===== verification/Pipeline_Safety.thy ===== *)
theory Pipeline_Safety
  imports Pipeline_Progress
begin

text \<open>
  What a pass promises: no text gets past the checkpoint unvetted, the cache stays with the text, the
  selected candidates never conflict, and what happens when a rollback recovers a part of the edits.
\<close>

section \<open>Every new text is vetted\<close>

lemma vetted_same_cache:
  "pa_tree p = pa_tree q \<Longrightarrow> pa_clang p = pa_clang q \<Longrightarrow> vetted m t p s = vetted m t q s"
  unfolding vetted_def errors_before_def by (simp only:)

definition step_vetted :: "parser_manager \<Rightarrow> pipeline_state \<Rightarrow> pipeline_state \<Rightarrow> bool" where
  "step_vetted m st st' \<longleftrightarrow>
     st_current st' = st_current st \<or> vetted m (st_current st) (st_parse st) (st_current st')"

lemma executed_like:
  assumes "execute_policy_stage pl options policy prepared st = Inr (ex, st')"
    "coordinate_policy_stage pl options name ex st' = (co, st'')"
  shows "st_current st'' = st_current st" "pa_tree (st_parse st'') = pa_tree (st_parse st)"
    "pa_clang (st_parse st'') = pa_clang (st_parse st)" "complete (st_parse st) \<Longrightarrow> complete (st_parse st'')"
  using executed_fields [OF assms(1)] coordinated_fields [OF assms(2)] by (simp_all add: complete_def)

lemma accepted_vetted:
  assumes "coordinate_policy_stage pl options name ex st0 = (co, st)"
    "checkpoint_policy_stage m (st_current st) (st_parse st) co name' = Accept v"
  shows "step_vetted m st (keep_tree v' (commit_policy_stage options name'' semantic clang co st))"
  using checkpoint_accept(1) [OF assms(2)] coordinated_state(2) [OF assms(1)] coordinated_fields(1) [OF assms(1)]
  by (auto simp: step_vetted_def)

lemma retried_vetted:
  assumes run: "retry_stage pl options policy capability reason n st = Inr st'" and complete: "complete (st_parse st)"
  shows "step_vetted (pl_manager pl) st st'"
proof (cases "(st_retry_batch_size st = None \<and> n > 0) \<and> retry_batch (pl_adaptive pl) < length (str_lines (st_current st))")
  case False
  then show ?thesis using run by (auto simp: retry_stage_def step_vetted_def Let_def)
next
  case True
  let ?name = "po_name policy" and ?m = "pl_manager pl"
  let ?st1 = "st\<lparr>st_retry_batch_size := Some (retry_batch (pl_adaptive pl))\<rparr>"
  have st1: "ensure_policy_parse_stage pl ?name ?st1 = Inr ?st1"
    using ensured_again [OF complete] by (simp add: ensure_policy_parse_stage_def)
  obtain ex st2
    where st2: "execute_policy_stage pl options policy (prepare_policy_stage pl ?name) ?st1 = Inr (ex, st2)"
    using retry_stage_steps [OF run] True unfolding st1 by blast
  obtain co st3 where st3: "coordinate_policy_stage pl options ?name ex st2 = (co, st3)" by fastforce
  have like: "st_current st3 = st_current st" "st_current st2 = st_current st"
    "pa_tree (st_parse st3) = pa_tree (st_parse st)" "pa_clang (st_parse st3) = pa_clang (st_parse st)"
    using executed_like [OF st2 st3] coordinated_fields(1) [OF st3] by simp_all
  then have vetted_eq: "vetted ?m (st_current st3) (st_parse st3) t = vetted ?m (st_current st) (st_parse st) t" for t
    using vetted_same_cache [of "st_parse st3" "st_parse st"] by (simp only:)
  have step_eq: "step_vetted ?m st3 s = step_vetted ?m st s" for s
    using like(1) vetted_eq by (simp add: step_vetted_def)
  show ?thesis
  proof (cases "pr_text (ex_result ex) = st_current st2")
    case same: True
    with True run st1 st2 like show ?thesis by (auto simp: retry_stage_def step_vetted_def Let_def)
  next
    case False
    show ?thesis
    proof (cases "checkpoint_policy_stage ?m (st_current st3) (st_parse st3) co ?name")
      case (Accept v)
      with True False run st1 st2 st3 have "st' = accept_stage options ?name capability co v st3"
        by (simp add: retry_stage_def Let_def)
      then show ?thesis using accepted_vetted [OF st3 Accept] step_eq by (simp add: accept_stage_def)
    next
      case (PartialRollback t es v w)
      with True False run st1 st2 st3 have "st_current st' = t"
        by (auto simp: retry_stage_def Let_def)
      then show ?thesis using partial_vetted [OF PartialRollback] vetted_eq by (simp add: step_vetted_def)
    next
      case (Rollback r k)
      with True False run st1 st2 st3 like show ?thesis by (auto simp: retry_stage_def step_vetted_def Let_def)
    qed
  qed
qed

lemma partial_stage_current [simp]:
  "st_current (partial_stage options name capability co t es v w st) = t"
  by (simp add: partial_stage_def Let_def)

lemma finished_vetted:
  assumes run: "finish_policy_stage pl options policy capability co st = Inr st'"
    and co: "coordinate_policy_stage pl options (po_name policy) ex st0 = (co, st)" and complete: "complete (st_parse st)"
  shows "step_vetted (pl_manager pl) st st'"
proof (cases "checkpoint_policy_stage (pl_manager pl) (st_current st) (st_parse st) co (po_name policy)")
  case (Accept v)
  with run accepted_vetted [OF co Accept] show ?thesis by (auto simp: finish_policy_stage_def accept_stage_def)
next
  case (PartialRollback t es v w)
  with run partial_vetted [OF PartialRollback] show ?thesis by (auto simp: finish_policy_stage_def step_vetted_def)
next
  case (Rollback r k)
  with run retried_vetted complete show ?thesis by (auto simp: finish_policy_stage_def)
qed

lemma stage_vetted:
  assumes "run_policy_stage pl options policy st = Inr st'"
  shows "st_current st' = st_current st
    \<or> whitespace_safe (capabilities_by_name policy_catalog (po_name policy))
    \<or> (\<exists>p. ensure_parse (pl_manager pl) (st_current st) (st_parse st) = Inr p
        \<and> vetted (pl_manager pl) (st_current st) p (st_current st'))"
  using assms
proof (cases rule: run_policy_stage_cases)
  case (silent st1 ex st2)
  then show ?thesis using ensured_stage [OF silent(1)] executed_fields(1) [OF silent(2)] by auto
next
  case (checked st1 ex st2 co st3)
  obtain p where p: "ensure_parse (pl_manager pl) (st_current st) (st_parse st) = Inr p" "st1 = st\<lparr>st_parse := p\<rparr>"
    using ensured_stage [OF checked(1)] by blast
  note like = executed_like [OF checked(2,3)]
  have "step_vetted (pl_manager pl) st3 st'"
    using finished_vetted [OF checked(4,3)] like(4) ensured_complete [OF p(1)] p(2) by simp
  moreover have "vetted (pl_manager pl) (st_current st3) (st_parse st3) t = vetted (pl_manager pl) (st_current st) p t" for t
    using like(1-3) p(2) vetted_same_cache [of "st_parse st3" p] by simp
  moreover have "st_current st3 = st_current st" using like(1) p(2) by simp
  ultimately show ?thesis using p(1) unfolding step_vetted_def by metis
qed simp_all

text \<open>
  \<^bold>\<open>C3\<close>.  No policy gets an unvetted text past its stage: unless the policy only changes
  whitespace, the text after the stage is the text before it, or it was parsed against the tree of
  the text before it and has no more error nodes (or could not be parsed, or clang finds no more
  errors in it), also after a partial rollback and after the retry with a smaller batch.
\<close>

theorem stage_text_vetted:
  assumes "run_policy_stage pl options policy st = Inr st'"
    "\<not> whitespace_safe (capabilities_by_name policy_catalog (po_name policy))"
    "ensure_parse (pl_manager pl) (st_current st) (st_parse st) = Inr p"
  shows "st_current st' = st_current st
    \<or> (case reparse_from (pl_manager pl) (st_current st) (pa_tree p) (st_current st') of
         Inl _ \<Rightarrow> True
       | Inr tree \<Rightarrow> error_nodes tree \<le> errors_before p
           \<or> clang_no_worse (pl_manager pl) (st_current st) (pa_clang p) (st_current st'))"
  using stage_vetted [OF assms(1)] assms(2,3) by (auto simp: vetted_def)


section \<open>States of a pass\<close>

inductive reachable_pass ::
    "policy_pipeline \<Rightarrow> policy_run_options \<Rightarrow> rstr \<Rightarrow> rstr \<Rightarrow> cluster_telemetry \<Rightarrow> pipeline_state \<Rightarrow> bool"
  for pl options input ext telemetry where
  pass_empty: "reachable_pass pl options input ext telemetry (initialize_run_state pl input ext telemetry)"
| pass_parsed: "ensure_policy_parse_stage pl name (initialize_run_state pl input ext telemetry) = Inr st
    \<Longrightarrow> reachable_pass pl options input ext telemetry st"
| pass_stage: "reachable_pass pl options input ext telemetry st
    \<Longrightarrow> run_policy_stage pl options policy st = Inr st' \<Longrightarrow> reachable_pass pl options input ext telemetry st'"

lemma initial_ok: "pass_ok pl (initialize_run_state pl text ext telemetry)"
  by (simp add: initialize_run_state_def pass_ok_def cache_ok_def selected_ok_def Let_def)

lemma parsed_ok:
  assumes "ensure_policy_parse_stage pl name st = Inr st'" "pass_ok pl st"
  shows "pass_ok pl st'"
  using ensured_stage [OF assms(1)] assms(2) ensured_cache by (auto simp: pass_ok_def)

lemma reachable_pass_ok: "reachable_pass pl options text ext telemetry st \<Longrightarrow> pass_ok pl st"
proof (induction rule: reachable_pass.induct)
  case (pass_parsed name st)
  then show ?case using initial_ok parsed_ok by blast
qed (simp_all add: initial_ok stage_ok)

lemma run_stages_reachable:
  "run_stages pl options order st = Inr st' \<Longrightarrow> reachable_pass pl options text ext telemetry st
    \<Longrightarrow> reachable_pass pl options text ext telemetry st'"
  by (induction order arbitrary: st) (auto split: sum.splits intro: pass_stage)

text \<open>
  \<^bold>\<open>C4\<close>.  At every point of a pass, after any sequence of policies: the syntax tree in
  the cache was parsed from the current text, its cached error lines are the tree's own, the
  candidates accepted so far never conflict pairwise and touch no hard constraint, the two lists of
  candidates agree and no retry batch is left over.
\<close>

theorem pass_invariant:
  assumes "reachable_pass pl options text ext telemetry st"
  shows "(case pa_tree (st_parse st) of
        None \<Rightarrow> pa_error_lines (st_parse st) = None
      | Some tree \<Rightarrow> parsed (pl_manager pl) (st_current st) tree
          \<and> pa_error_lines (st_parse st) \<in> {None, Some (te_error_lines (tree_error_stats tree))})
    \<and> sorted_wrt (\<lambda>a b. \<not> conflicts a b (pl_adaptive pl)) (st_selected st)
    \<and> list_all (\<lambda>c. \<not> violates_hard_constraints c) (st_selected st)
    \<and> st_internal st = st_selected st \<and> st_retry_batch_size st = None"
  using reachable_pass_ok [OF assms]
  by (cases "pa_error_lines (st_parse st)")
    (auto simp: pass_ok_def cache_ok_def selected_ok_def list_all_iff split: option.splits)

section \<open>Syntax errors over a whole pass\<close>

definition parser_of :: "parser_manager \<Rightarrow> (rstr \<Rightarrow> ts_node) \<Rightarrow> bool" where
  "parser_of m parse \<longleftrightarrow>
     (\<forall>t old. pm_reparse_tree m t old = Inr (parse t)) \<and> (\<forall>s t old. pm_reparse_incremental m s t old = Inr (parse t))"

definition clang_offline :: "parser_manager \<Rightarrow> bool" where
  "clang_offline m \<longleftrightarrow> (\<forall>t. (\<exists>e. pm_parse_clang m t = Inl e) \<and> pm_dispatch_clang m t = Inr None)"

lemma offline_never_no_worse: "clang_offline m \<Longrightarrow> \<not> clang_no_worse m t clang s"
  unfolding clang_offline_def clang_no_worse_def Let_def
  by (metis (no_types, lifting) option.simps(4) sum.simps(5,6) sum.exhaust)

lemma parser_of_parsed: "parser_of m parse \<Longrightarrow> parsed m t tree \<Longrightarrow> tree = parse t"
  by (auto simp: parser_of_def parsed_def)

lemma parser_of_reparse: "parser_of m parse \<Longrightarrow> reparse_from m t old s = Inr (parse s)"
  by (simp add: parser_of_def reparse_from_def split: option.splits)

lemma stage_errors:
  assumes "run_policy_stage pl options policy st = Inr st'" "pass_ok pl st"
    and "\<not> whitespace_safe (capabilities_by_name policy_catalog (po_name policy))"
    and parser: "parser_of (pl_manager pl) parse" "clang_offline (pl_manager pl)"
  shows "error_nodes (parse (st_current st')) \<le> error_nodes (parse (st_current st))"
proof (cases "st_current st' = st_current st")
  case False
  obtain p where p: "ensure_parse (pl_manager pl) (st_current st) (st_parse st) = Inr p"
    "vetted (pl_manager pl) (st_current st) p (st_current st')"
    using stage_vetted [OF assms(1)] False assms(3) by blast
  have "cache_ok (pl_manager pl) (st_current st) p"
    using ensured_cache [OF p(1)] assms(2) by (simp add: pass_ok_def)
  moreover obtain tree where "pa_tree p = Some tree"
    using ensured_complete [OF p(1)] by (auto simp: complete_def)
  ultimately have "errors_before p = error_nodes (parse (st_current st))"
    using parser_of_parsed [OF parser(1)] by (auto simp: cache_ok_def errors_before_def)
  with p(2) show ?thesis
    using offline_never_no_worse [OF parser(2)] by (simp add: vetted_def parser_of_reparse [OF parser(1)])
qed simp

lemma stages_errors:
  assumes "run_stages pl options order st = Inr st'" "pass_ok pl st"
    and "\<forall>i \<in> set order. \<not> whitespace_safe (capabilities_by_name policy_catalog (po_name (pl_policies pl ! i)))"
    and "parser_of (pl_manager pl) parse" "clang_offline (pl_manager pl)"
  shows "error_nodes (parse (st_current st')) \<le> error_nodes (parse (st_current st))"
  using assms
proof (induction order arbitrary: st)
  case (Cons i order)
  obtain st1 where st1: "run_policy_stage pl options (pl_policies pl ! i) st = Inr st1"
    "run_stages pl options order st1 = Inr st'"
    using Cons.prems(1) by (auto split: sum.splits)
  have "error_nodes (parse (st_current st')) \<le> error_nodes (parse (st_current st1))"
    using Cons.IH [OF st1(2) stage_ok [OF st1(1) Cons.prems(2)]] Cons.prems by simp
  also have "\<dots> \<le> error_nodes (parse (st_current st))"
    using stage_errors [OF st1(1) Cons.prems(2)] Cons.prems by simp
  finally show ?case .
qed simp

lemma finished_text:
  assumes "finish_run pl input st = (r, i, t)"
  shows "pr_text (fp_policy_result r) = (if cf_edits (finalize_run (st_controller st) (st_edits st)
    (st_violations st) (st_warnings st)) = [] then input else st_current st)"
  using assms by (auto simp: finish_run_def stabilize_output_text_def text_simps Let_def split: prod.splits if_splits)

lemma initial_current: "st_current (initialize_run_state pl input ext telemetry) = input"
  by (simp add: initialize_run_state_def Let_def)

lemma ensured_current: "ensure_policy_parse_stage pl name st = Inr st' \<Longrightarrow> st_current st' = st_current st"
  using ensured_stage [of pl name st st'] by auto

lemma run_with_options_steps:
  assumes "run_with_options pl input ext options telemetry = Inr (r, i, t)" "\<not> ro_observation_only options"
  shows "\<exists>st st'. (pl_policies pl = [] \<and> st = initialize_run_state pl input ext telemetry
      \<or> (\<exists>name. ensure_policy_parse_stage pl name (initialize_run_state pl input ext telemetry) = Inr st))
    \<and> run_stages pl options (pl_dynamic_order pl @ pl_repair_candidates pl) st = Inr st'
    \<and> finish_run pl input st' = (r, i, t)"
  using assms unfolding run_with_options_def Let_def
  by (auto split: sum.splits list.splits)

text \<open>
  \<^bold>\<open>C6\<close>.  A whole pass adds no syntax error: when the parser is a function of the text and
  clang is not available, the text a pass returns has at most the error nodes of the text it was
  given, if no policy of the order is one of those that only change whitespace, which the
  checkpoint lets through.
\<close>

theorem pass_adds_no_syntax_error:
  assumes "parser_of (pl_manager pl) parse" "clang_offline (pl_manager pl)"
    and "list_all (\<lambda>i. \<not> whitespace_safe (capabilities_by_name policy_catalog (po_name (pl_policies pl ! i))))
           (pl_dynamic_order pl @ pl_repair_candidates pl)"
    and "\<not> ro_observation_only options"
  shows "case run_with_options pl input ext options telemetry of
       Inl _ \<Rightarrow> True
     | Inr (r, _, _) \<Rightarrow> error_nodes (parse (pr_text (fp_policy_result r))) \<le> error_nodes (parse input)"
proof (cases "run_with_options pl input ext options telemetry")
  case (Inr out)
  obtain r i t where out: "out = (r, i, t)" by (cases out)
  obtain st st' where st: "pl_policies pl = [] \<and> st = initialize_run_state pl input ext telemetry
      \<or> (\<exists>name. ensure_policy_parse_stage pl name (initialize_run_state pl input ext telemetry) = Inr st)"
    and st': "run_stages pl options (pl_dynamic_order pl @ pl_repair_candidates pl) st = Inr st'"
    and fin: "finish_run pl input st' = (r, i, t)"
    using run_with_options_steps assms(4) Inr out by blast
  have current: "st_current st = input" and ok: "pass_ok pl st"
    using st initial_ok parsed_ok initial_current ensured_current by metis+
  have "error_nodes (parse (st_current st')) \<le> error_nodes (parse input)"
    using stages_errors [OF st' ok _ assms(1,2)] assms(3) current by (simp add: list_all_iff)
  then show ?thesis using Inr out finished_text [OF fin] by simp
qed simp

section \<open>What a partial rollback forgets\<close>


section \<open>What a rewrite forgets\<close>

text \<open>
  \<^bold>\<open>C19\<close>.  A policy that rewrites symbols but is not marked as invalidating clang, which is every
  one but the void parameters, leaves the clang parse of the old text in the cache: the next policy
  works on a semantic context that joins the tree of the new text with the clang parse of the old.
\<close>

theorem rewrite_keeps_old_clang:
  assumes "co_text_changed co" "\<not> clang_invalidating capability" "pa_clang (st_parse st) = Some clang"
    and "ensure_parse m (pr_text (co_result co))
           (st_parse (commit_policy_stage options name (semantic_rewrite capability) (clang_invalidating capability) co st))
         = Inr p"
  shows "pa_clang p = Some clang
    \<and> pa_semantic p = Some (from_parses (pm_fx m) (pm_grammar m) (pr_text (co_result co)) (pm_canonical_path m)
        (pa_tree p) (Some clang))"
proof -
  let ?q = "invalidate (semantic_rewrite capability) (clang_invalidating capability) (st_parse st)"
  have q: "ensure_parse m (pr_text (co_result co)) ?q = Inr p" "pa_clang ?q = Some clang" "pa_semantic ?q = None"
    using assms by (simp_all add: invalidate_def Let_def)
  then obtain r where r: "parse_missing m (pr_text (co_result co)) ?q = Inr r"
    "p = fill_comments m (fill_semantic m (pr_text (co_result co)) r)"
    by (auto simp: ensure_parse_def Let_def split: sum.splits)
  have "pa_clang r = Some clang" using parsed_missing(5) [OF r(1)] q(2) by simp
  moreover have "pa_semantic r = None"
    using r(1) q(2,3) by (auto simp: parse_missing_def Let_def split: if_splits sum.splits)
  ultimately show ?thesis by (simp add: r(2) fill_semantic_def Let_def)
qed

section \<open>Examples\<close>

definition sample_line :: "char \<Rightarrow> rstr" where
  "sample_line c = [c, newline]"

definition sample_state :: "policy_pipeline \<Rightarrow> rstr \<Rightarrow> pipeline_state" where
  "sample_state pl t = (let st = initialize_run_state pl t ''hpp'' no_telemetry in
     st\<lparr>st_parse := (st_parse st)\<lparr>pa_tree := Some (sample_tree t)\<rparr>\<rparr>)"

text \<open>Two edited lines, the first with a syntax error.\<close>

definition sample_edits :: "edit list" where
  "sample_edits =
     [\<lparr>e_policy = IncludeGuards, e_line = 1, e_before = sample_line (CHR ''x''), e_after = sample_line (CHR ''@'')\<rparr>,
      \<lparr>e_policy = IncludeGuards, e_line = 2, e_before = sample_line (CHR ''y''), e_after = sample_line (CHR ''z'')\<rparr>]"

definition sample_coordinated :: coordinated_stage where
  "sample_coordinated =
     \<lparr>co_result = \<lparr>pr_text = sample_line (CHR ''@'') @ sample_line (CHR ''z''), pr_changed = True,
        pr_violations = [\<lparr>v_policy = IncludeGuards, v_message = ''guard'', v_line = 2, v_column = None\<rparr>],
        pr_edits = sample_edits, pr_warnings = []\<rparr>,
      co_accepted_candidates = [], co_candidate_trace = [], co_conflict_violations = [], co_context_cluster = 0,
      co_confidence_sample = None, co_confidence_outcome = None, co_confidence_score = None,
      co_confidence_threshold = None, co_dropped_line_count = 0,
      co_convergence_signal =
        \<lparr>sg_semantic_confidence_bp = 5000, sg_impact_radius = 0, sg_semantic_rewrite = False,
         sg_macro_sensitive = True, sg_whitespace_safe = False, sg_solver_dropped_lines = 0,
         sg_hard_blocked_lines = 0, sg_impact_ranges = Map.empty, sg_symbol_ids = Map.empty\<rparr>,
      co_text_changed = True\<rparr>"

definition offline :: "rstr \<Rightarrow> rstr + clang_parse_result" where
  "offline t = Inl ''no libclang''"

lemma sample_offline: "clang_offline (sample_manager offline)"
  by (simp add: clang_offline_def sample_manager_def offline_def)

lemma sample_parser: "parser_of (sample_manager clang) sample_tree"
  by (simp add: parser_of_def sample_manager_def)

lemma sample_not_safe: "\<not> whitespace_safe (capabilities_by_name policy_catalog (po_name sample_policy))"
  by code_simp

lemma default_unscoped: "ro_allowed_edit_lines run_options_default = None"
  by (simp add: run_options_default_def)

lemma sample_order:
  "pl_policies (sample_pipeline clang) = [sample_policy]"
  "set (pl_dynamic_order (sample_pipeline clang) @ pl_repair_candidates (sample_pipeline clang)) \<subseteq> {0}"
  using order_bounded [of "[sample_policy]" interference_new certainty_default]
  by (auto simp: sample_pipeline_def pipeline_new_def)

theorem stage_text_vetted_witness:
  "\<exists>st' p. run_policy_stage (sample_pipeline sample_clang) run_options_default sample_policy
        (sample_state (sample_pipeline sample_clang) (sample_line (CHR ''x''))) = Inr st'
     \<and> (st_current st' = sample_line (CHR ''x'')
       \<or> (case reparse_from (sample_manager sample_clang) (sample_line (CHR ''x'')) (pa_tree p) (st_current st') of
            Inl _ \<Rightarrow> True
          | Inr tree \<Rightarrow> error_nodes tree \<le> errors_before p
              \<or> clang_no_worse (sample_manager sample_clang) (sample_line (CHR ''x'')) (pa_clang p) (st_current st')))"
proof -
  let ?pl = "sample_pipeline sample_clang" and ?st = "sample_state (sample_pipeline sample_clang) (sample_line (CHR ''x''))"
  have total: "parsers_total (pl_manager ?pl)" using sample_total by (simp add: sample_pipeline_def pipeline_new_def)
  obtain st' where st': "run_policy_stage ?pl run_options_default sample_policy ?st = Inr st'"
    using stage_total [OF total sample_never_fatal default_unscoped] by blast
  obtain st1 where "ensure_policy_parse_stage ?pl [] ?st = Inr st1" using ensured_total [OF total] by blast
  then obtain p where p: "ensure_parse (pl_manager ?pl) (st_current ?st) (st_parse ?st) = Inr p"
    using ensured_stage by blast
  have eqs: "st_current ?st = sample_line (CHR ''x'')" "pl_manager ?pl = sample_manager sample_clang"
    by (simp_all add: sample_state_def initial_current sample_pipeline_def pipeline_new_def Let_def)
  show ?thesis using stage_text_vetted [OF st' sample_not_safe p, unfolded eqs] st' by blast
qed

theorem pass_invariant_witness:
  "\<exists>st. run_policy_stage (sample_pipeline sample_clang) run_options_default sample_policy
        (initialize_run_state (sample_pipeline sample_clang) (sample_line (CHR ''x'')) ''hpp'' no_telemetry) = Inr st
     \<and> (case pa_tree (st_parse st) of
         None \<Rightarrow> pa_error_lines (st_parse st) = None
       | Some tree \<Rightarrow> parsed (pl_manager (sample_pipeline sample_clang)) (st_current st) tree
           \<and> pa_error_lines (st_parse st) \<in> {None, Some (te_error_lines (tree_error_stats tree))})
     \<and> sorted_wrt (\<lambda>a b. \<not> conflicts a b (pl_adaptive (sample_pipeline sample_clang))) (st_selected st)
     \<and> list_all (\<lambda>c. \<not> violates_hard_constraints c) (st_selected st)
     \<and> st_internal st = st_selected st \<and> st_retry_batch_size st = None"
proof -
  let ?pl = "sample_pipeline sample_clang"
  let ?st = "initialize_run_state ?pl (sample_line (CHR ''x'')) ''hpp'' no_telemetry"
  have total: "parsers_total (pl_manager ?pl)" using sample_total by (simp add: sample_pipeline_def pipeline_new_def)
  obtain st where st: "run_policy_stage ?pl run_options_default sample_policy ?st = Inr st"
    using stage_total [OF total sample_never_fatal default_unscoped] by blast
  show ?thesis using pass_invariant [OF pass_stage [OF pass_empty st]] st by blast
qed

theorem pass_adds_no_syntax_error_witness:
  "case run_with_options (sample_pipeline offline) (sample_line (CHR ''x'')) ''hpp'' run_options_default no_telemetry of
     Inl _ \<Rightarrow> True
   | Inr (r, _, _) \<Rightarrow>
       error_nodes (sample_tree (pr_text (fp_policy_result r))) \<le> error_nodes (sample_tree (sample_line (CHR ''x'')))"
proof (rule pass_adds_no_syntax_error)
  show "list_all (\<lambda>i. \<not> whitespace_safe (capabilities_by_name policy_catalog
      (po_name (pl_policies (sample_pipeline offline) ! i))))
      (pl_dynamic_order (sample_pipeline offline) @ pl_repair_candidates (sample_pipeline offline))"
    using sample_order [of offline] sample_not_safe unfolding list_all_iff by (auto simp: sample_order(1))
qed (use sample_parser sample_offline in \<open>simp_all add: sample_pipeline_def pipeline_new_def run_options_default_def\<close>)





text \<open>Of the policies that rewrite symbols, one is marked as invalidating clang.\<close>

lemma only_void_params_invalidate:
  "map (\<lambda>p. (semantic_rewrite (capabilities policy_catalog p), clang_invalidating (capabilities policy_catalog p)))
     [NamingConventions, SnakeCase, OperatorOverloadSpacing, FunctionVoidParams]
   = [(True, False), (True, False), (True, False), (True, True)]"
  by code_simp

theorem rewrite_keeps_old_clang_witness:
  "\<exists>clang p. ensure_parse (sample_manager sample_clang) (pr_text (co_result sample_coordinated))
      (st_parse (commit_policy_stage run_options_default ''snake_case''
        (semantic_rewrite (capabilities policy_catalog SnakeCase)) (clang_invalidating (capabilities policy_catalog SnakeCase))
        sample_coordinated
        ((sample_state (sample_pipeline sample_clang) (sample_line (CHR ''x'')))
           \<lparr>st_parse := (st_parse (sample_state (sample_pipeline sample_clang) (sample_line (CHR ''x''))))
              \<lparr>pa_clang := Some clang\<rparr>\<rparr>))) = Inr p
    \<and> sample_clang (sample_line (CHR ''x'')) = Inr clang \<and> pa_clang p = Some clang"
proof -
  obtain clang where clang: "sample_clang (sample_line (CHR ''x'')) = Inr clang" by (simp add: sample_clang_def)
  let ?st = "(sample_state (sample_pipeline sample_clang) (sample_line (CHR ''x'')))
     \<lparr>st_parse := (st_parse (sample_state (sample_pipeline sample_clang) (sample_line (CHR ''x''))))\<lparr>pa_clang := Some clang\<rparr>\<rparr>"
  let ?c = "commit_policy_stage run_options_default ''snake_case''
        (semantic_rewrite (capabilities policy_catalog SnakeCase)) (clang_invalidating (capabilities policy_catalog SnakeCase))
        sample_coordinated ?st"
  obtain q where "parse_missing (sample_manager sample_clang) (pr_text (co_result sample_coordinated)) (st_parse ?c) = Inr q"
    using parse_missing_total [OF sample_total] by blast
  then obtain p where p: "ensure_parse (sample_manager sample_clang) (pr_text (co_result sample_coordinated)) (st_parse ?c)
      = Inr p"
    by (simp add: ensure_parse_def Let_def)
  have "co_text_changed sample_coordinated" by (simp add: sample_coordinated_def)
  moreover have "\<not> clang_invalidating (capabilities policy_catalog SnakeCase)" by code_simp
  ultimately have "pa_clang p = Some clang"
    using rewrite_keeps_old_clang [OF _ _ _ p] by simp
  with p clang show ?thesis by blast
qed

end
