(* ===== verification/Coordinator.thy ===== *)
theory Coordinator
  imports Pipeline Post_Check Cluster_Telemetry
begin

text \<open>
  The engine around the pipeline (\<^verbatim>\<open>src/src/engine/coordinator.rs\<close>): a baseline of the text, the
  accuracy gate, one or two passes of the policies, the check after the edits and what the engine
  learns from it.  A failure inside a pass keeps the telemetry as it was before the pass.
\<close>

section \<open>Data\<close>

record retry_config =
  rt_post_edit_check_enabled :: bool
  rt_fail_on_parser_unavailable :: bool
  rt_tree_error_ratio_tolerance :: real

record formatter_engine =
  fe_pipeline :: policy_pipeline
  fe_checker :: post_edit_checker
  fe_retry :: retry_config
  fe_accuracy_gate :: accuracy_gate_config

text \<open>What a file leaves behind for the next one: two families of filters and the telemetry.\<close>

record engine_state =
  en_adaptive :: certainty_filter_state
  en_interference :: interference_state
  en_telemetry :: cluster_telemetry

datatype engine_error =
    GateError accuracy_gate_failure
  | PipelineError rstr
  | RevertedError rstr

definition formatter_engine_new ::
    "policy_pipeline \<Rightarrow> (bool \<Rightarrow> real \<Rightarrow> post_edit_checker) \<Rightarrow> retry_config \<Rightarrow> accuracy_gate_config
      \<Rightarrow> formatter_engine" where
  "formatter_engine_new pl checker retry gate =
     \<lparr>fe_pipeline = pl,
      fe_checker = checker (rt_fail_on_parser_unavailable retry) (rt_tree_error_ratio_tolerance retry),
      fe_retry = retry, fe_accuracy_gate = gate\<rparr>"

definition untracked_text_delta_synthesis_cap :: nat where
  "untracked_text_delta_synthesis_cap = 256"

section \<open>Texts that changed without an edit\<close>

text \<open>Line by line, without a common prefix or suffix.\<close>

definition positional_line_edits :: "rstr \<Rightarrow> rstr \<Rightarrow> rstr \<Rightarrow> edit list" where
  "positional_line_edits before after fallback_policy =
     (let before_lines = split_lines_as_slices before True;
          after_lines = split_lines_as_slices after True;
          max_lines = max (length before_lines) (length after_lines)
      in concat (map (\<lambda>idx.
           let left = unwrap_or (nth_opt before_lines idx) [];
               right = unwrap_or (nth_opt after_lines idx) []
           in if slices_equal left right then []
              else [\<lparr>e_policy = policy_from_str_lossy fallback_policy, e_line = idx + 1,
                     e_before = left, e_after = right\<rparr>])
         [0..<max_lines]))"

definition normalize_untracked_text_delta :: "rstr \<Rightarrow> format_pass_result \<Rightarrow> format_pass_result" where
  "normalize_untracked_text_delta input_text pass =
     (let r = fp_policy_result pass in
      if pr_edits r = [] \<and> pr_text r \<noteq> input_text
      then
        let fallback_policy = (case pr_violations r of [] \<Rightarrow> ''retry_guard'' | v # _ \<Rightarrow> policy_as_str (v_policy v));
            synthesized = positional_line_edits input_text (pr_text r) fallback_policy;
            count = nat_to_string (length synthesized)
        in if synthesized = [] then pass
           else if length synthesized > untracked_text_delta_synthesis_cap
           then pass\<lparr>fp_policy_result := add_warning
                  (''retry guard: discarded oversized untracked text delta ('' @ count @ '' line(s) > cap ''
                   @ nat_to_string untracked_text_delta_synthesis_cap @ '')'') (r\<lparr>pr_text := input_text\<rparr>)\<rparr>
           else pass\<lparr>fp_policy_result := add_warning
                  (''retry guard: synthesized '' @ count @ '' edit(s) from untracked text delta'')
                  (r\<lparr>pr_edits := synthesized\<rparr>)\<rparr>
      else pass)"

fun keep_unseen :: "rstr list \<Rightarrow> rstr set \<Rightarrow> rstr list" where
  "keep_unseen [] seen = []"
| "keep_unseen (w # ws) seen = (if w \<in> seen then keep_unseen ws seen else w # keep_unseen ws (insert w seen))"

definition dedup_warning_slices :: "rstr list list \<Rightarrow> rstr list" where
  "dedup_warning_slices sources = keep_unseen (concat sources) {}"

section \<open>What the engine learns\<close>

definition observed_structure :: "check_baseline option \<Rightarrow> real" where
  "observed_structure baseline =
     (case Option.bind baseline bl_tree_error_ratio of None \<Rightarrow> 0.85 | Some r \<Rightarrow> 1 - r)"

definition observed_semantics :: "check_baseline option \<Rightarrow> real" where
  "observed_semantics baseline =
     (case Option.bind baseline bl_clang_summary of
        None \<Rightarrow> 0.5
      | Some s \<Rightarrow> 1 - min (real (s ! cx_diagnostic_error) * 0.1 + real (s ! cx_diagnostic_warning) * 0.02) 1)"

definition observed_context :: "check_baseline option \<Rightarrow> real \<times> real" where
  "observed_context baseline =
     (case Option.bind baseline bl_semantic_snapshot of
        None \<Rightarrow> (0.5, 0.5)
      | Some snap \<Rightarrow>
          let counts = st_counts (cn_scopes snap) in
          (min (real (ss_reference_count (cn_summary snap)) / 50) 1,
           min (real (sn_namespace counts + sn_type_scope counts + sn_function counts
                      + ss_declaration_count (cn_summary snap)) / 30) 1))"

definition observe_adaptive :: "check_baseline option \<Rightarrow> real \<Rightarrow> engine_state \<Rightarrow> engine_state" where
  "observe_adaptive baseline acceptance_score st =
     (let (coverage_obs, richness_obs) = observed_context baseline in
      st\<lparr>en_adaptive := filter_observe (en_adaptive st)
           [observed_structure baseline, observed_semantics baseline, coverage_obs, richness_obs, acceptance_score]\<rparr>)"

definition trace_keys :: "format_pass_result \<Rightarrow> (policy_id \<times> u64) list" where
  "trace_keys pass = map (\<lambda>t. (xt_policy t, xt_context_cluster t)) (fp_policy_traces pass)"

definition record_pass_outcome :: "format_pass_result \<Rightarrow> cluster_outcome \<Rightarrow> engine_state \<Rightarrow> engine_state" where
  "record_pass_outcome pass outcome st =
     st\<lparr>en_telemetry := record_outcome (trace_keys pass) outcome (en_telemetry st)\<rparr>"

section \<open>The gate\<close>

text \<open>Every edit attempted counts as accepted.\<close>

definition gate_evaluation ::
    "bool \<Rightarrow> semantic_compdb_context_kind \<Rightarrow> policy_result \<Rightarrow> accuracy_gate_input" where
  "gate_evaluation semantic_ready kind r =
     \<lparr>gi_semantic_ready = semantic_ready, gi_attempted_edits = length (pr_edits r),
      gi_attempted_violations = length (pr_violations r), gi_accepted_edits = length (pr_edits r),
      gi_semantic_context_kind = kind\<rparr>"

definition apply_gate ::
    "accuracy_gate_config \<Rightarrow> rstr \<Rightarrow> accuracy_gate_input \<Rightarrow> format_pass_result
      \<Rightarrow> accuracy_gate_failure + format_pass_result" where
  "apply_gate config path input pass =
     (let decision = evaluate_gate config input in
      if gate_passed decision then Inr pass
      else case gd_status decision of
             Passed \<Rightarrow> Inr pass
           | WarningOnly \<Rightarrow>
               let r = add_warning (gate_summary decision) (fp_policy_result pass) in
               Inr (pass\<lparr>fp_accuracy_gate := Some decision,
                         fp_policy_result := r\<lparr>pr_violations := pr_violations r
                           @ [\<lparr>v_policy = policy_from_str_lossy ''accuracy_gate'',
                               v_message = ''accuracy gate warning (fail-open rollout)'',
                               v_line = 1, v_column = Some 1\<rparr>]\<rparr>\<rparr>)
           | FailedClosed \<Rightarrow> Inl (threshold_miss path decision))"

text \<open>The end of every accepted pass: warnings merged, the gate, the outcome and the observation.\<close>

definition conclude ::
    "formatter_engine \<Rightarrow> rstr \<Rightarrow> check_baseline option \<Rightarrow> bool \<Rightarrow> semantic_compdb_context_kind \<Rightarrow> rstr list
      \<Rightarrow> cluster_outcome \<Rightarrow> real \<Rightarrow> format_pass_result \<Rightarrow> engine_state
      \<Rightarrow> (engine_error + format_pass_result) \<times> engine_state" where
  "conclude e path baseline semantic_ready kind warnings outcome score pass st =
     (let r = fp_policy_result pass;
          pass = pass\<lparr>fp_policy_result := r\<lparr>pr_warnings := dedup_warning_slices [warnings, pr_warnings r]\<rparr>\<rparr>
      in case apply_gate (fe_accuracy_gate e) path (gate_evaluation semantic_ready kind r) pass of
           Inl failure \<Rightarrow> (Inl (GateError failure), st)
         | Inr pass \<Rightarrow> (Inr pass, observe_adaptive baseline score (record_pass_outcome pass outcome st)))"

section \<open>The check after a pass\<close>

definition all_structural_safe :: "edit list \<Rightarrow> bool" where
  "all_structural_safe edits \<longleftrightarrow>
     edits \<noteq> [] \<and> list_all (\<lambda>e.
       let cap = capabilities_by_name policy_catalog (policy_as_str (e_policy e))
       in structural_safe cap \<and> \<not> semantic_rewrite cap) edits"

definition validate_pass ::
    "post_edit_checker \<Rightarrow> rstr \<Rightarrow> rstr \<Rightarrow> format_pass_result \<Rightarrow> check_baseline option
      \<Rightarrow> certainty_filter_state \<Rightarrow> post_edit_check_result" where
  "validate_pass checker path original_text pass baseline adaptive =
     (let r = fp_policy_result pass; edited = Some (set (map e_line (pr_edits r))) in
      case baseline of
        None \<Rightarrow> validate_for_edits checker path original_text (pr_text r) edited adaptive
      | Some bl \<Rightarrow>
          if all_structural_safe (pr_edits r) then validate_structural_only checker path (pr_text r) bl
          else validate checker path (pr_text r) bl edited adaptive)"

fun debug_failure_kind :: "post_edit_failure_kind \<Rightarrow> rstr" where
  "debug_failure_kind ParserUnavailableTree = ''ParserUnavailableTree''"
| "debug_failure_kind ParserUnavailableClang = ''ParserUnavailableClang''"
| "debug_failure_kind TreeErrorRegressed = ''TreeErrorRegressed''"
| "debug_failure_kind TreeErrorRatioRegressed = ''TreeErrorRatioRegressed''"
| "debug_failure_kind ClangDiagnosticsIncreased = ''ClangDiagnosticsIncreased''"
| "debug_failure_kind SemanticReadinessRegressed = ''SemanticReadinessRegressed''"
| "debug_failure_kind SemanticIdentityRegressed = ''SemanticIdentityRegressed''"
| "debug_failure_kind SemanticReferenceIntegrityRegressed = ''SemanticReferenceIntegrityRegressed''"
| "debug_failure_kind SemanticScopeDriftRegressed = ''SemanticScopeDriftRegressed''"

definition failure_kind_order :: "post_edit_failure_kind list" where
  "failure_kind_order =
     [ParserUnavailableTree, ParserUnavailableClang, TreeErrorRegressed, TreeErrorRatioRegressed,
      ClangDiagnosticsIncreased, SemanticReadinessRegressed, SemanticIdentityRegressed,
      SemanticReferenceIntegrityRegressed, SemanticScopeDriftRegressed]"

definition debug_failure_kinds :: "post_edit_failure_kind set \<Rightarrow> rstr" where
  "debug_failure_kinds kinds =
     ''{'' @ join '', '' (map debug_failure_kind (filter (\<lambda>k. k \<in> kinds) failure_kind_order)) @ ''}''"

text \<open>Whether the pass is taken, and the warnings of the check: always taken.\<close>

definition accept_pass_result ::
    "format_pass_result \<Rightarrow> post_edit_check_result \<Rightarrow> rstr list \<Rightarrow> real option \<times> rstr list" where
  "accept_pass_result pass check warnings =
     (let has_rewrite_edits = list_ex (\<lambda>e. semantic_rewrite
            (capabilities_by_name policy_catalog (policy_as_str (e_policy e)))) (pr_edits (fp_policy_result pass));
          warnings = warnings @ (if has_rewrite_edits
            then filter (\<lambda>m. \<not> contains m ''semantic identity signature changed'') (pk_messages check)
            else pk_messages check)
      in if pk_accepted check \<or> pk_failure_kinds check = {} then (Some 1, warnings)
         else (Some 1, warnings @ [''post-edit check informational: acceptance_score=1.000, failure_kinds=''
                @ debug_failure_kinds (pk_failure_kinds check)]))"

section \<open>A second pass without the culprits\<close>

definition policies_touching_lines :: "edit list \<Rightarrow> nat set \<Rightarrow> rstr set" where
  "policies_touching_lines edits lines =
     (if edits = [] \<or> lines = {} then {}
      else set (map (\<lambda>e. policy_as_str (e_policy e))
        (filter (\<lambda>e. \<not> (e_line e = 0 \<or> policy_as_str (e_policy e) = [] \<or> e_line e \<notin> lines)) edits)))"

text \<open>The declarations of the names a culprit line declares or is the first to refer to.\<close>

definition declaration_lines :: "symbol_identity \<Rightarrow> nat set \<Rightarrow> nat set" where
  "declaration_lines identity culprit_lines =
     (let declared = \<Union> ((\<lambda>line. unwrap_or (sy_decl_ids_by_line identity line) {}) ` culprit_lines);
          referred = set (map fst (filter (\<lambda>(ident, first). first \<in> culprit_lines) (sy_ref_first_line identity)))
      in \<Union> ((\<lambda>ident. set_option (sy_id_decl_lines identity ident)) ` (declared \<union> referred)))"

definition causal_culprit_policies ::
    "edit list \<Rightarrow> post_edit_check_result \<Rightarrow> contract_snapshot option \<Rightarrow> rstr set" where
  "causal_culprit_policies edits check before_snapshot =
     (let policies = policies_touching_lines edits (pk_culprit_lines check);
          needs_backtrack = (SemanticReferenceIntegrityRegressed \<in> pk_failure_kinds check
            \<or> SemanticIdentityRegressed \<in> pk_failure_kinds check)
      in if \<not> needs_backtrack then policies
         else case before_snapshot of
                None \<Rightarrow> policies
              | Some snapshot \<Rightarrow>
                  policies \<union> policies_touching_lines edits
                    (declaration_lines (cn_identity snapshot) (pk_culprit_lines check)))"

definition reverted_result ::
    "formatter_engine \<Rightarrow> rstr \<Rightarrow> rstr \<Rightarrow> format_pass_result \<Rightarrow> rstr list \<Rightarrow> nat \<Rightarrow> engine_state
      \<Rightarrow> (engine_error + format_pass_result) \<times> engine_state" where
  "reverted_result e path original_text pass warnings attempt_count st =
     (let attempts = nat_to_string attempt_count;
          revert_message = ''Post-edit parser check failed after retries; reverted file changes (attempts=''
            @ attempts @ '')'';
          st = record_pass_outcome pass Reverted st
      in if ag_fail_closed (fe_accuracy_gate e)
         then (Inl (RevertedError (''accuracy gate fail-closed: post-edit validation failed after ''
                 @ attempts @ '' attempt(s) for '' @ path)), st)
         else (Inr (pass_result_default\<lparr>fp_policy_result :=
                 \<lparr>pr_text = original_text, pr_changed = False, pr_violations = pr_violations (fp_policy_result pass),
                  pr_edits = [],
                  pr_warnings = dedup_warning_slices
                    [warnings @ [''post-edit check warning: '' @ revert_message],
                     pr_warnings (fp_policy_result pass)]\<rparr>\<rparr>), st))"

definition run_pass ::
    "formatter_engine \<Rightarrow> rstr \<Rightarrow> rstr \<Rightarrow> policy_run_options \<Rightarrow> engine_state
      \<Rightarrow> engine_error + format_pass_result \<times> engine_state" where
  "run_pass e text ext options st =
     (case run_with_options ((fe_pipeline e)\<lparr>pl_adaptive := en_adaptive st, pl_interference := en_interference st\<rparr>)
             text ext options (en_telemetry st) of
        Inl err \<Rightarrow> Inl (PipelineError err)
      | Inr (pass, interference, telemetry) \<Rightarrow>
          Inr (normalize_untracked_text_delta text pass,
               st\<lparr>en_interference := interference, en_telemetry := telemetry\<rparr>))"

text \<open>The policies of the first pass that had no candidate and are no culprits are skipped.\<close>

definition retry_options :: "format_pass_result \<Rightarrow> rstr set \<Rightarrow> policy_run_options" where
  "retry_options pass culprits =
     (let zero_edit_policies = set (map (\<lambda>t. policy_as_str (xt_policy t))
            (filter (\<lambda>t. xt_candidate_line_count t = 0 \<and> policy_as_str (xt_policy t) \<notin> culprits)
              (fp_policy_traces pass)))
      in run_options_default\<lparr>ro_blocked_policies := culprits,
           ro_skip_zero_edit_policies := (if zero_edit_policies = {} then None else Some zero_edit_policies)\<rparr>)"

definition run_retry_pass ::
    "formatter_engine \<Rightarrow> rstr \<Rightarrow> rstr \<Rightarrow> rstr \<Rightarrow> certainty_filter_state \<Rightarrow> format_pass_result
      \<Rightarrow> post_edit_check_result \<Rightarrow> check_baseline option \<Rightarrow> bool \<Rightarrow> semantic_compdb_context_kind \<Rightarrow> rstr list
      \<Rightarrow> engine_state \<Rightarrow> (engine_error + format_pass_result) \<times> engine_state" where
  "run_retry_pass e path ext text adaptive pass check baseline semantic_ready kind warnings st =
     (let culprits = causal_culprit_policies (pr_edits (fp_policy_result pass)) check
            (Option.bind baseline bl_semantic_snapshot)
      in if culprits = {}
         then reverted_result e path text pass warnings 1 (observe_adaptive baseline 0.25 st)
         else case run_pass e text ext (retry_options pass culprits) st of
                Inl err \<Rightarrow> (Inl err, st)
              | Inr (pass2, st) \<Rightarrow>
                  let check2 = validate_pass (fe_checker e) path text pass2 baseline adaptive;
                      (verdict, warnings) = accept_pass_result pass2 check2 warnings
                  in case verdict of
                       Some _ \<Rightarrow>
                         conclude e path baseline semantic_ready kind warnings Accepted
                           (if pk_accepted check2 then 0.85 else 0.4) pass2 st
                     | None \<Rightarrow>
                         reverted_result e path text pass2 warnings 2 (observe_adaptive baseline 0.25 st))"

section \<open>One file\<close>

definition baseline_required :: "formatter_engine \<Rightarrow> bool" where
  "baseline_required e \<longleftrightarrow>
     rt_post_edit_check_enabled (fe_retry e) \<or> ag_semantic_required (fe_accuracy_gate e)
     \<or> ag_enabled (fe_accuracy_gate e)"

text \<open>The gate on the baseline alone: an error, or the warnings to start with.\<close>

definition require_semantics ::
    "formatter_engine \<Rightarrow> rstr \<Rightarrow> check_baseline option \<Rightarrow> bool \<Rightarrow> semantic_compdb_context_kind
      \<Rightarrow> accuracy_gate_failure + rstr list" where
  "require_semantics e path baseline semantic_ready kind =
     (if ag_semantic_required (fe_accuracy_gate e) \<and> \<not> semantic_ready
      then
        let detail = unwrap_or (Option.bind baseline bl_semantic_readiness_note) ''semantic baseline unavailable'';
            decision = evaluate_gate (fe_accuracy_gate e)
              \<lparr>gi_semantic_ready = False, gi_attempted_edits = 0, gi_attempted_violations = 0,
               gi_accepted_edits = 0, gi_semantic_context_kind = kind\<rparr>
        in if gd_status decision = FailedClosed then Inl (semantic_required_unmet path detail decision)
           else Inr [''accuracy_gate warning: semantic_required unmet for '' @ path @ '' ('' @ detail @ '')'']
      else Inr [])"

definition apply_inner ::
    "formatter_engine \<Rightarrow> rstr \<Rightarrow> rstr \<Rightarrow> rstr \<Rightarrow> engine_state
      \<Rightarrow> (engine_error + format_pass_result) \<times> engine_state" where
  "apply_inner e path ext text st =
     (let adaptive = en_adaptive st;
          required = baseline_required e;
          kind = pc_context_kind (fe_checker e) path;
          baseline = (if required then Some (build_baseline (fe_checker e) path text) else None);
          semantic_ready = (case baseline of None \<Rightarrow> False | Some b \<Rightarrow> bl_semantic_ready b)
      in case require_semantics e path baseline semantic_ready kind of
           Inl failure \<Rightarrow> (Inl (GateError failure), st)
         | Inr warnings \<Rightarrow>
             let st = (if required then observe_adaptive baseline 1 st else st) in
             case run_pass e text ext run_options_default st of
               Inl err \<Rightarrow> (Inl err, st)
             | Inr (pass, st) \<Rightarrow>
                 if slices_equal (pr_text (fp_policy_result pass)) text
                    \<or> \<not> rt_post_edit_check_enabled (fe_retry e)
                 then conclude e path baseline semantic_ready kind warnings Accepted 1 pass st
                 else
                   let check = validate_pass (fe_checker e) path text pass baseline adaptive;
                       (verdict, warnings) = accept_pass_result pass check warnings
                   in case verdict of
                        Some _ \<Rightarrow>
                          conclude e path baseline semantic_ready kind warnings
                            (if pk_accepted check then Accepted else Regressed)
                            (if pk_accepted check then 1 else 0.5) pass st
                      | None \<Rightarrow>
                          run_retry_pass e path ext text adaptive pass check baseline semantic_ready kind
                            warnings st)"

end
