(* ===== verification/Engine_Facts.thy ===== *)
theory Engine_Facts
  imports Coordinator Pipeline_Progress
begin

text \<open>
  What the engine does with a file: one pass decides, whatever the check after it says; a text that
  changed has edits; and what the engine learns stays within its bounds.
\<close>

section \<open>One pass decides\<close>

lemma accept_always: "\<exists>ws. accept_pass_result pass check warnings = (Some 1, ws)"
  by (simp add: accept_pass_result_def Let_def)

lemma apply_gate_fields:
  assumes "apply_gate config path input pass = Inr r"
  shows "pr_text (fp_policy_result r) = pr_text (fp_policy_result pass)
    \<and> pr_edits (fp_policy_result r) = pr_edits (fp_policy_result pass)
    \<and> pr_changed (fp_policy_result r) = pr_changed (fp_policy_result pass)
    \<and> fp_policy_traces r = fp_policy_traces pass"
  using assms by (auto simp: apply_gate_def add_warning_def Let_def split: if_splits accuracy_gate_status.splits)

lemma concluded_result:
  assumes "conclude e path baseline ready kind warnings outcome score pass st = (Inr r, st')"
  shows "pr_text (fp_policy_result r) = pr_text (fp_policy_result pass)
    \<and> pr_edits (fp_policy_result r) = pr_edits (fp_policy_result pass)
    \<and> pr_changed (fp_policy_result r) = pr_changed (fp_policy_result pass)"
  using assms apply_gate_fields by (fastforce simp: conclude_def Let_def split: sum.splits)

lemma concluded_error:
  "conclude e path baseline ready kind warnings outcome score pass st = (Inl err, st') \<Longrightarrow> \<exists>f. err = GateError f"
  by (auto simp: conclude_def Let_def split: sum.splits)

definition file_baseline :: "formatter_engine \<Rightarrow> rstr \<Rightarrow> rstr \<Rightarrow> check_baseline option" where
  "file_baseline e path t = (if baseline_required e then Some (build_baseline (fe_checker e) path t) else None)"

definition primed :: "formatter_engine \<Rightarrow> rstr \<Rightarrow> rstr \<Rightarrow> engine_state \<Rightarrow> engine_state" where
  "primed e path t st =
     (if baseline_required e then observe_adaptive (file_baseline e path t) 1 st else st)"

text \<open>Every way through \<open>apply_inner\<close>: refused by the gate, a failed pass, or the conclusion of one pass.\<close>

lemma apply_inner_cases:
  obtains f where "apply_inner e path ext t st = (Inl (GateError f), st)"
    | err where "run_pass e t ext run_options_default (primed e path t st) = Inl err"
      "apply_inner e path ext t st = (Inl err, primed e path t st)"
    | pass st1 ready kind ws outcome score where
      "run_pass e t ext run_options_default (primed e path t st) = Inr (pass, st1)" "score = 1 \<or> score = 0.5"
      "apply_inner e path ext t st
         = conclude e path (file_baseline e path t) ready kind ws outcome score pass st1"
proof -
  let ?b = "file_baseline e path t" and ?kind = "pc_context_kind (fe_checker e) path"
  let ?ready = "case ?b of None \<Rightarrow> False | Some b \<Rightarrow> bl_semantic_ready b"
  have inner: "apply_inner e path ext t st =
     (case require_semantics e path ?b ?ready ?kind of
        Inl failure \<Rightarrow> (Inl (GateError failure), st)
      | Inr warnings \<Rightarrow>
          (case run_pass e t ext run_options_default (primed e path t st) of
             Inl err \<Rightarrow> (Inl err, primed e path t st)
           | Inr (pass, st) \<Rightarrow>
               if pr_text (fp_policy_result pass) = t \<or> \<not> rt_post_edit_check_enabled (fe_retry e)
               then conclude e path ?b ?ready ?kind warnings Accepted 1 pass st
               else
                 let check = validate_pass (fe_checker e) path t pass ?b (en_adaptive (st0 :: engine_state));
                     (verdict, warnings) = accept_pass_result pass check warnings
                 in conclude e path ?b ?ready ?kind warnings
                      (if pk_accepted check then Accepted else Regressed)
                      (if pk_accepted check then 1 else 0.5) pass st))" if "st0 = st" for st0
    unfolding that apply_inner_def file_baseline_def primed_def Let_def accept_pass_result_def
    by (simp add: text_simps split: sum.splits prod.splits)
  show thesis
  proof (cases "require_semantics e path ?b ?ready ?kind")
    case (Inl f)
    then show thesis using inner [of st] that(1) by simp
  next
    case (Inr warnings)
    show thesis
    proof (cases "run_pass e t ext run_options_default (primed e path t st)")
      case (Inl err)
      then show thesis using inner [of st] Inr that(2) by simp
    next
      case run: (Inr out)
      obtain pass st1 where out: "out = (pass, st1)" by fastforce
      show thesis
      proof (cases "pr_text (fp_policy_result pass) = t \<or> \<not> rt_post_edit_check_enabled (fe_retry e)")
        case True
        then show thesis using inner [of st] Inr run out that(3) [of pass st1 1] by simp
      next
        case False
        then show thesis using inner [of st] Inr run out
            that(3) [of pass st1 "if pk_accepted (validate_pass (fe_checker e) path t pass ?b (en_adaptive st)) then 1 else 0.5"]
          by (simp add: Let_def split: prod.splits)
      qed
    qed
  qed
qed

text \<open>
  \<^bold>\<open>C7\<close>.  The check after the edits never decides anything: the engine runs one pass, returns
  its text and its edits, and never retries without the culprits, reverts the file or fails with the
  revert error, whatever the check finds and however retries are configured.
\<close>

theorem one_pass_decides:
  "case apply_inner e path ext t st of
     (Inl (RevertedError _), _) \<Rightarrow> False
   | (Inl _, _) \<Rightarrow> True
   | (Inr r, _) \<Rightarrow>
       (\<exists>st0 pass st1. run_pass e t ext run_options_default st0 = Inr (pass, st1)
          \<and> pr_text (fp_policy_result r) = pr_text (fp_policy_result pass)
          \<and> pr_edits (fp_policy_result r) = pr_edits (fp_policy_result pass))"
proof (cases rule: apply_inner_cases [of e path ext t st])
  case (2 err)
  then show ?thesis by (auto simp: run_pass_def split: sum.splits)
next
  case (3 pass st1 ready kind ws outcome score)
  obtain out st' where c: "conclude e path (file_baseline e path t) ready kind ws outcome score pass st1 = (out, st')"
    by fastforce
  show ?thesis
  proof (cases out)
    case (Inl err)
    with 3(3) c concluded_error show ?thesis by fastforce
  next
    case (Inr r)
    with 3 c concluded_result show ?thesis by fastforce
  qed
qed simp

section \<open>A changed text has edits\<close>

lemma finished_tracked:
  assumes "finish_run pl input st = (r, i, t)" "pr_edits (fp_policy_result r) = []"
  shows "pr_text (fp_policy_result r) = input"
  using assms by (auto simp: finish_run_def stabilize_output_text_def text_simps Let_def split: prod.splits if_splits)

lemma pass_tracked:
  assumes "run_with_options pl input ext options telemetry = Inr (r, i, t)" "\<not> ro_observation_only options"
    "pr_edits (fp_policy_result r) = []"
  shows "pr_text (fp_policy_result r) = input"
  using assms finished_tracked unfolding run_with_options_def Let_def
  by (auto split: sum.splits list.splits)

lemma normalized_pass:
  assumes "run_with_options pl input ext options telemetry = Inr (r, i, t)" "\<not> ro_observation_only options"
  shows "normalize_untracked_text_delta input r = r"
proof -
  have tracked: "(pr_edits (fp_policy_result r) = [] \<and> pr_text (fp_policy_result r) \<noteq> input) = False"
    using pass_tracked [OF assms] by blast
  show ?thesis by (simp only: normalize_untracked_text_delta_def Let_def tracked if_False)
qed

lemma run_pass_steps:
  assumes "run_pass e t ext run_options_default st = Inr (pass, st')"
  shows "\<exists>i tel. run_with_options ((fe_pipeline e)\<lparr>pl_adaptive := en_adaptive st, pl_interference := en_interference st\<rparr>)
      t ext run_options_default (en_telemetry st) = Inr (pass, i, tel)
    \<and> st' = st\<lparr>en_interference := i, en_telemetry := tel\<rparr>"
  using assms normalized_pass by (fastforce simp: run_pass_def run_options_default_def split: sum.splits)

text \<open>
  \<^bold>\<open>C8\<close>.  A file whose text changed comes with edits: a result without edits has the text the
  engine was given, so the synthesis of line edits for an untracked change never has anything to do.
\<close>

theorem changed_file_has_edits:
  "case fst (apply_inner e path ext t st) of
     Inl _ \<Rightarrow> True
   | Inr r \<Rightarrow> pr_text (fp_policy_result r) = t \<or> 0 < length (pr_edits (fp_policy_result r))"
proof (cases rule: apply_inner_cases [of e path ext t st])
  case (3 pass st1 ready kind ws outcome score)
  obtain i tel where run: "run_with_options ((fe_pipeline e)\<lparr>pl_adaptive := en_adaptive (primed e path t st),
      pl_interference := en_interference (primed e path t st)\<rparr>)
      t ext run_options_default (en_telemetry (primed e path t st)) = Inr (pass, i, tel)"
    using run_pass_steps [OF 3(1)] by blast
  obtain out st' where c: "conclude e path (file_baseline e path t) ready kind ws outcome score pass st1 = (out, st')"
    by fastforce
  show ?thesis
  proof (cases out)
    case (Inr r)
    have "pr_text (fp_policy_result r) = pr_text (fp_policy_result pass)"
      "pr_edits (fp_policy_result r) = pr_edits (fp_policy_result pass)"
      using concluded_result c Inr by blast+
    moreover have "pr_edits (fp_policy_result pass) = [] \<Longrightarrow> pr_text (fp_policy_result pass) = t"
      using pass_tracked [OF run] by (simp add: run_options_default_def)
    ultimately show ?thesis using 3(3) c Inr by auto
  qed (use 3(3) c in simp)
qed simp_all

section \<open>What the engine learns stays within bounds\<close>

definition engine_ok :: "engine_state \<Rightarrow> bool" where
  "engine_ok st \<longleftrightarrow> filter_ok (en_adaptive st) \<and> interference_ok (en_interference st)"

lemma baseline_ratio:
  "bl_tree_error_ratio (build_baseline pc path t) = Some r \<Longrightarrow> 0 \<le> r \<and> r \<le> 1"
proof -
  have ratio: "0 \<le> error_ratio s \<and> error_ratio s \<le> 1" for s by (simp add: error_ratio_def)
  have tree: "bl_tree_error_ratio (baseline_tree pc res empty_baseline) = Some r \<Longrightarrow> 0 \<le> r \<and> r \<le> 1" for res
    using ratio by (auto simp: baseline_tree_def empty_baseline_def split: sum.splits if_splits)
  have clang: "bl_tree_error_ratio (baseline_clang pc c b) = bl_tree_error_ratio b" for c b
    by (simp add: baseline_clang_def split: sum.split)
  assume "bl_tree_error_ratio (build_baseline pc path t) = Some r"
  then show ?thesis
    by (intro tree) (simp add: build_baseline_def clang Let_def split: option.splits)
qed

lemma observed_unit:
  "0 \<le> observed_structure (file_baseline e path t) \<and> observed_structure (file_baseline e path t) \<le> 1"
  "0 \<le> observed_semantics b \<and> observed_semantics b \<le> 1"
  "0 \<le> fst (observed_context b) \<and> fst (observed_context b) \<le> 1"
  "0 \<le> snd (observed_context b) \<and> snd (observed_context b) \<le> 1"
  using baseline_ratio
  by (auto simp: observed_structure_def observed_semantics_def observed_context_def file_baseline_def Let_def
      split: option.splits)

lemma observe_adaptive_ok:
  assumes "engine_ok st" "0 \<le> score" "score \<le> 1"
  shows "engine_ok (observe_adaptive (file_baseline e path t) score st)"
proof -
  have "unit_vector [observed_structure (file_baseline e path t), observed_semantics (file_baseline e path t),
      fst (observed_context (file_baseline e path t)), snd (observed_context (file_baseline e path t)), score]"
    using observed_unit assms(2,3) by (simp add: unit_vector_def)
  then show ?thesis using assms(1)
    by (simp add: observe_adaptive_def engine_ok_def filter_observe_ok case_prod_unfold Let_def)
qed

lemma observe_ratios_ok:
  assumes "\<forall>s \<in> ran m. scalar_ok s" "x \<in> ran (observe_ratios ratio m)"
  shows "scalar_ok x"
proof -
  obtain p where p: "observe_ratios ratio m p = Some x" using assms(2) by (auto simp: ran_def)
  show ?thesis
  proof (cases "ratio p")
    case None
    with p assms(1) show ?thesis by (auto simp: observe_ratios_def intro: ranI)
  next
    case (Some r)
    have "scalar_ok (unwrap_or (m p) scalar_new)" using assms(1) scalar_new_ok by (cases "m p") (auto intro: ranI)
    with p Some show ?thesis by (auto simp: observe_ratios_def intro: scalar_observe_ok)
  qed
qed

lemma observe_metrics_ok: "interference_ok st \<Longrightarrow> interference_ok (observe_metrics metrics st)"
  unfolding interference_ok_def observe_metrics_def by (auto elim!: observe_ratios_ok [rotated])

lemma pass_interference:
  assumes "run_with_options pl input ext options telemetry = Inr (r, i, t)" "interference_ok (pl_interference pl)"
  shows "interference_ok i"
  using assms observe_metrics_ok unfolding run_with_options_def Let_def
  by (auto simp: finish_run_def Let_def split: sum.splits list.splits if_splits prod.splits)

lemma run_pass_ok:
  assumes "run_pass e t ext run_options_default st = Inr (pass, st')" "engine_ok st"
  shows "engine_ok st'"
  using run_pass_steps [OF assms(1)] pass_interference assms(2) by (fastforce simp: engine_ok_def)

lemma primed_ok: "engine_ok st \<Longrightarrow> engine_ok (primed e path t st)"
  by (simp add: primed_def observe_adaptive_ok)

lemma concluded_ok:
  assumes "engine_ok st" "score = 1 \<or> score = 0.5"
  shows "engine_ok (snd (conclude e path (file_baseline e path t) ready kind ws outcome score pass st))"
proof -
  have "engine_ok (record_pass_outcome pass' outcome st)" for pass'
    using assms(1) by (simp add: record_pass_outcome_def engine_ok_def)
  then show ?thesis using assms by (auto simp: conclude_def Let_def observe_adaptive_ok split: sum.splits)
qed

text \<open>
  \<^bold>\<open>C18\<close>.  Whatever a file brings, an error included, the certainty filter the engine carries to
  the next file keeps its estimates in the unit interval and its matrices symmetric and positive
  semidefinite, and every filter of policy interference keeps its bounds.
\<close>

theorem engine_learning_bounded:
  assumes "filter_ok (en_adaptive st)" "interference_ok (en_interference st)"
  shows "filter_ok (en_adaptive (snd (apply_inner e path ext t st)))
    \<and> interference_ok (en_interference (snd (apply_inner e path ext t st)))"
proof -
  have ok: "engine_ok st" using assms by (simp add: engine_ok_def)
  have "engine_ok (snd (apply_inner e path ext t st))"
  proof (cases rule: apply_inner_cases [of e path ext t st])
    case (3 pass st1 ready kind ws outcome score)
    then show ?thesis using concluded_ok [OF run_pass_ok [OF 3(1) primed_ok [OF ok]] 3(2)] by simp
  qed (simp_all add: ok primed_ok)
  then show ?thesis by (simp add: engine_ok_def)
qed

definition sample_engine :: formatter_engine where
  "sample_engine =
     formatter_engine_new (sample_pipeline sample_clang)
       (post_edit_checker_new sample_hasher sample_grammar (\<lambda>t _. Inr (sample_tree t)) (\<lambda>t _. sample_clang t)
         (\<lambda>_. Exact) (\<lambda>_. True))
       \<lparr>rt_post_edit_check_enabled = True, rt_fail_on_parser_unavailable = True, rt_tree_error_ratio_tolerance = 0\<rparr>
       sample_gate_config"

theorem engine_learning_bounded_witness:
  "filter_ok (en_adaptive (snd (apply_inner sample_engine ''a.hpp'' ''hpp'' (''int x;'' @ [newline])
       \<lparr>en_adaptive = certainty_new, en_interference = interference_new, en_telemetry = no_telemetry\<rparr>)))
   \<and> interference_ok (en_interference (snd (apply_inner sample_engine ''a.hpp'' ''hpp'' (''int x;'' @ [newline])
       \<lparr>en_adaptive = certainty_new, en_interference = interference_new, en_telemetry = no_telemetry\<rparr>)))"
  by (rule engine_learning_bounded) (simp_all add: certainty_new_ok interference_ok_def interference_new_def)

end
