(* ===== verification/Text_Lines.thy ===== *)
theory Text_Lines
  imports Context_Query
begin

text \<open>
  The lines a formatting policy works on: \<^verbatim>\<open>src/src/policy/text_utils.rs\<close> splits a text into
  lines without their endings and joins them again, \<^verbatim>\<open>policy/shared_data.rs\<close> keeps what the
  policies of one stage share.  A \<open>Cow\<close> string is the string it stands for.
\<close>

abbreviation carriage_return :: char where
  "carriage_return \<equiv> CHR 0x0D"

section \<open>Splitting and joining\<close>

definition detect_line_ending :: "rstr \<Rightarrow> rstr" where
  "detect_line_ending s =
     (if contains_subslice s [carriage_return, newline] then [carriage_return, newline] else [newline])"

text \<open>\<open>strip_suffix('\\r')\<close>, the line itself when it has none.\<close>

definition strip_carriage_return :: "rstr \<Rightarrow> rstr" where
  "strip_carriage_return line =
     (if ends_with line [carriage_return] then take (length line - 1) line else line)"

definition split_lines_cow :: "rstr \<Rightarrow> rstr list \<times> bool" where
  "split_lines_cow s =
     (if s = [] then ([], False)
      else (map strip_carriage_return (split_on newline s), ends_with s [newline]))"

text \<open>The loop of \<open>join_lines_generic\<close>: a line that is not the first follows the line ending.\<close>

definition push_line :: "rstr \<Rightarrow> nat \<times> rstr \<Rightarrow> rstr \<Rightarrow> rstr" where
  "push_line eol entry s =
     (case entry of (index, line) \<Rightarrow> (if index > 0 then s @ eol else s) @ line)"

definition join_lines_generic :: "rstr list \<Rightarrow> rstr \<Rightarrow> bool \<Rightarrow> rstr" where
  "join_lines_generic lines eol trailing_newline =
     (if lines = [] then []
      else
        let s = fold (push_line eol) (enumerate 0 lines) []
        in if trailing_newline \<and> \<not> ends_with s eol then s @ eol else s)"

definition join_lines_cow :: "rstr list \<Rightarrow> rstr \<Rightarrow> bool \<Rightarrow> rstr" where
  "join_lines_cow lines eol trailing_newline = join_lines_generic lines eol trailing_newline"

section \<open>The data the policies share\<close>

record policy_shared_data =
  sh_text :: rstr
  sh_line_ending :: rstr
  sh_trailing_newline :: bool
  sh_macro_lines :: "bool list"

text \<open>\<open>macro_lines[start..finish]\<close> set to true; the slice panics when \<open>start\<close> is after \<open>finish\<close>.\<close>

definition mark_lines :: "nat \<Rightarrow> nat \<Rightarrow> bool list \<Rightarrow> bool list option" where
  "mark_lines start finish flags =
     (if start \<le> finish \<and> finish \<le> length flags
      then Some (take start flags @ replicate (finish - start) True @ drop finish flags) else None)"

definition mark_scope :: "cpp_grammar \<Rightarrow> nat \<Rightarrow> semantic_scope \<Rightarrow> bool list \<Rightarrow> bool list option" where
  "mark_scope g line_count scope flags =
     (if is_preprocessor_scope g (sc_node_kind_id scope)
      then mark_lines (sc_start_line scope - 1) (min (sc_end_line scope) line_count) flags
      else Some flags)"

definition shared_data_new :: "cpp_grammar \<Rightarrow> rstr \<Rightarrow> semantic_file_context option \<Rightarrow> policy_shared_data option" where
  "shared_data_new g s semantic =
     (let line_count = length (memchr_iter newline s) + 1;
          scopes = (case semantic of None \<Rightarrow> [] | Some ctx \<Rightarrow> fcx_scopes ctx)
      in map_option
           (\<lambda>macro_lines.
              \<lparr>sh_text = s, sh_line_ending = detect_line_ending s,
               sh_trailing_newline = ends_with s [newline], sh_macro_lines = macro_lines\<rparr>)
           (foldo (mark_scope g line_count) scopes (replicate line_count False)))"

definition is_macro_line :: "policy_shared_data \<Rightarrow> nat \<Rightarrow> bool" where
  "is_macro_line shared line \<longleftrightarrow> 0 < line \<and> unwrap_or (nth_opt (sh_macro_lines shared) (line - 1)) False"

definition lines_cow :: "policy_shared_data \<Rightarrow> rstr list" where
  "lines_cow shared = fst (split_lines_cow (sh_text shared))"

section \<open>Joining is the join of the lines\<close>

lemma push_line_pair [simp]:
  "push_line eol (index, line) s = (if index > 0 then s @ eol else s) @ line"
  by (simp add: push_line_def)

lemma fold_push_line:
  "fold (push_line eol) (enumerate n lines) s =
     (if lines = [] then s else (if 0 < n then s @ eol else s) @ join eol lines)"
proof (induction lines arbitrary: n s)
  case (Cons line lines)
  have "join eol (line # lines) = line @ (if lines = [] then [] else eol @ join eol lines)"
    by (cases lines) simp_all
  then show ?case by (simp add: Cons.IH)
qed simp

lemma join_lines_eq:
  "join_lines_cow lines eol trailing =
     (if lines = [] then []
      else if trailing \<and> \<not> ends_with (join eol lines) eol then join eol lines @ eol
      else join eol lines)"
  by (simp add: join_lines_cow_def join_lines_generic_def fold_push_line Let_def)

section \<open>Texts with one kind of line ending\<close>

lemma contains_subslice_iff:
  assumes "needle \<noteq> []"
  shows "contains_subslice hay needle \<longleftrightarrow> (\<exists>a b. hay = a @ needle @ b)"
proof
  assume "contains_subslice hay needle"
  then obtain i where "find_sub hay needle = Some i"
    using assms by (auto simp: contains_subslice_def find_subslice_from_def split: if_splits)
  from find_sub_Some [OF this] obtain b where "drop i hay = needle @ b"
    by (auto simp: starts_with_iff)
  then have "hay = take i hay @ needle @ b" by (metis append_take_drop_id)
  then show "\<exists>a b. hay = a @ needle @ b" by blast
next
  assume "\<exists>a b. hay = a @ needle @ b"
  then obtain a b where hay: "hay = a @ needle @ b" by blast
  then have "starts_with (drop (length a) hay) needle" by simp
  with find_sub_None have "find_sub hay needle \<noteq> None" by blast
  with assms hay show "contains_subslice hay needle"
    by (simp add: contains_subslice_def find_subslice_from_def)
qed

text \<open>A line of a text: no line feed in it and no carriage return at its end.\<close>

definition plain_line :: "rstr \<Rightarrow> bool" where
  "plain_line line \<longleftrightarrow> newline \<notin> set line \<and> \<not> ends_with line [carriage_return]"

definition line_endings :: "rstr list" where
  "line_endings = [[newline], [carriage_return, newline]]"

lemma strip_plain [simp]: "plain_line line \<Longrightarrow> strip_carriage_return line = line"
  by (simp add: plain_line_def strip_carriage_return_def)

lemma strip_appended [simp]: "strip_carriage_return (line @ [carriage_return]) = line"
  by (simp add: strip_carriage_return_def)

lemma ends_with_Cons: "xs \<noteq> [] \<Longrightarrow> ends_with (a @ xs) [c] \<longleftrightarrow> ends_with xs [c]"
  by (simp add: ends_with_def starts_with_def) (cases "rev xs", auto)

lemma split_join:
  assumes "eol \<in> set line_endings" and "lines \<noteq> []" and "list_all plain_line lines"
  shows "map strip_carriage_return (split_on newline (join eol lines)) = lines"
  using assms(2,3)
proof (induction lines rule: induct_list012)
  case (2 line)
  then show ?case by (simp add: plain_line_def split_on_single strip_carriage_return_def)
next
  case (3 line next_line rest)
  have plain: "newline \<notin> set line" "plain_line line" using 3 by (auto simp: plain_line_def)
  consider "eol = [newline]" | "eol = [carriage_return, newline]"
    using assms(1) by (auto simp: line_endings_def)
  then show ?case
  proof cases
    case 1
    with 3 plain show ?thesis by (simp add: split_on_append_sep)
  next
    case 2
    have "split_on newline ((line @ [carriage_return]) @ newline # join eol (next_line # rest))
        = (line @ [carriage_return]) # split_on newline (join eol (next_line # rest))"
      by (rule split_on_append_sep) (simp add: plain)
    with 2 3 show ?thesis by simp
  qed
qed simp

lemma ends_newline_join:
  assumes "eol \<in> set line_endings" and "lines \<noteq> []" and "list_all plain_line lines"
  shows "ends_with (join eol lines) [newline] \<longleftrightarrow> 1 < length lines \<and> last lines = []"
  using assms(2,3)
proof (induction lines rule: induct_list012)
  case (2 line)
  then show ?case by (auto simp: plain_line_def ends_with_iff)
next
  case (3 line next_line rest)
  show ?case
  proof (cases "join eol (next_line # rest) = []")
    case True
    then have "next_line = [] \<and> rest = []"
      using assms(1) by (cases rest) (auto simp: line_endings_def)
    with assms(1) show ?thesis by (auto simp: line_endings_def ends_with_def starts_with_def)
  next
    case False
    have "ends_with (line @ eol @ join eol (next_line # rest)) [newline]
        \<longleftrightarrow> ends_with (join eol (next_line # rest)) [newline]"
      using False by (metis append_assoc ends_with_Cons)
    also have "\<dots> \<longleftrightarrow> 1 < length (next_line # rest) \<and> last (next_line # rest) = []"
      using 3 by simp
    finally show ?thesis using False by (cases rest) auto
  qed
qed simp

lemma ends_eol_join:
  assumes "eol \<in> set line_endings" and "lines \<noteq> []" and "1 < length lines" and "last lines = []"
  shows "ends_with (join eol lines) eol"
  using assms(2-4)
proof (induction lines rule: induct_list012)
  case (3 line next_line rest)
  show ?case
  proof (cases rest)
    case Nil
    with 3 show ?thesis by (simp add: ends_with_def starts_with_def)
  next
    case (Cons l ls)
    with 3 have "ends_with (join eol (next_line # rest)) eol" by simp
    then obtain t where "join eol (next_line # rest) = t @ eol" by (auto simp: ends_with_iff)
    then have "join eol (line # next_line # rest) = (line @ eol @ t) @ eol" by simp
    then show ?thesis by (metis ends_with_append)
  qed
qed simp_all

lemma join_eq_Nil: "join eol lines = [] \<Longrightarrow> eol \<in> set line_endings \<Longrightarrow> lines \<noteq> [] \<Longrightarrow> lines = [[]]"
  by (cases "(eol, lines)" rule: join.cases) (auto simp: line_endings_def)

lemma detect_join_crlf:
  "1 < length lines \<Longrightarrow>
     detect_line_ending (join [carriage_return, newline] lines) = [carriage_return, newline]"
  by (cases "([carriage_return, newline], lines)" rule: join.cases)
     (auto simp: detect_line_ending_def contains_subslice_iff)

lemma detect_join_lf:
  assumes "list_all plain_line lines"
  shows "detect_line_ending (join [newline] lines) = [newline]"
proof -
  have "\<not> (\<exists>a b. join [newline] lines = a @ [carriage_return, newline] @ b)"
    using assms
  proof (induction lines rule: induct_list012)
    case (2 line)
    then show ?case by (auto simp: plain_line_def)
  next
    case (3 line next_line rest)
    let ?rest = "join [newline] (next_line # rest)"
    have False if eq: "line @ newline # ?rest = a @ carriage_return # newline # b" for a b
    proof -
      from eq consider (inside) us where "line @ us = a" "us @ carriage_return # newline # b = newline # ?rest"
        | (before) us where "line = a @ us" "us @ newline # ?rest = carriage_return # newline # b"
        by (auto simp: append_eq_append_conv2)
      then show False
      proof cases
        case inside
        then obtain vs where "vs @ carriage_return # newline # b = ?rest" by (cases us) auto
        with 3 show False by (metis append_Cons append_Nil list.pred_inject(2))
      next
        case before
        then obtain vs where us: "us = carriage_return # vs" by (cases us) auto
        with before have "vs @ newline # ?rest = newline # b" by simp
        then have "vs = [] \<or> newline \<in> set vs" by (cases vs) auto
        with before us 3 show False by (auto simp: plain_line_def)
      qed
    qed
    then show ?case by auto
  qed simp
  then show ?thesis by (simp add: detect_line_ending_def contains_subslice_iff)
qed

lemma detect_join:
  assumes "eol \<in> set line_endings" and "list_all plain_line lines" and "1 < length lines"
  shows "detect_line_ending (join eol lines) = eol"
  using assms detect_join_crlf detect_join_lf by (auto simp: line_endings_def)

section \<open>Properties\<close>

text \<open>
  \<^bold>\<open>C22\<close>: A text of at least two lines that all end the same way, with a line feed or with a
  carriage return and a line feed, comes back unchanged from splitting and joining; its lines,
  its line ending and its last empty line are recognised as they are.
\<close>

theorem lines_round_trip:
  assumes "eol \<in> set line_endings" and "list_all plain_line lines" and "1 < length lines"
  shows "split_lines_cow (join eol lines) = (lines, last lines = [])
    \<and> detect_line_ending (join eol lines) = eol
    \<and> join_lines_cow lines eol (last lines = []) = join eol lines"
proof -
  have "lines \<noteq> []" using assms(3) by auto
  moreover have "join eol lines \<noteq> []"
    using assms(1,3) \<open>lines \<noteq> []\<close> join_eq_Nil [of eol lines] by auto
  ultimately show ?thesis
    using assms split_join [of eol lines] ends_newline_join [of eol lines] ends_eol_join [of eol lines]
      detect_join [of eol lines]
    by (auto simp: split_lines_cow_def join_lines_eq)
qed

lemma lines_round_trip_witness:
  "split_lines_cow (join [carriage_return, newline] [''a'', ''b'', []]) = ([''a'', ''b'', []], True)"
  using lines_round_trip [of "[carriage_return, newline]" "[''a'', ''b'', []]"]
  by (simp add: line_endings_def plain_line_def ends_with_def starts_with_def)

text \<open>In a text of mixed endings a policy that changes one line rewrites the ends of the others.\<close>

lemma mixed_endings_rewritten:
  "let s = ''a'' @ [carriage_return, newline] @ ''b'' @ [newline]
   in join_lines_cow (fst (split_lines_cow s)) (detect_line_ending s) (snd (split_lines_cow s)) \<noteq> s"
  by code_simp

end
