(* ===== verification/Line_Policies.thy ===== *)
theory Line_Policies
  imports Text_Lines File_Unit
begin

text \<open>
  The policies that rewrite a text line by line, from \<^verbatim>\<open>src/src/policy/\<close>: dashed comment
  separators (\<^verbatim>\<open>dash_comment.rs\<close>), section titles (\<^verbatim>\<open>section_title.rs\<close>), blank lines after
  \<open>#pragma once\<close> (\<^verbatim>\<open>pragma_once.rs\<close>) and after the macro section header
  (\<^verbatim>\<open>macro_spacing.rs\<close>).  A result of \<open>None\<close> is a panic.  The tree query that finds
  \<open>#pragma once\<close> is a parameter: the rows of the nodes it captures.
\<close>

section \<open>What a policy is given\<close>

record formatting_context =
  fc_path :: rstr
  fc_query :: semantic_context_query
  fc_shared :: "policy_shared_data option"
  fc_pragma_calls :: "nat list"

text \<open>The warnings and the result of a policy, written out in each of them.\<close>

definition skipped_warning :: "rstr \<Rightarrow> nat \<Rightarrow> rstr \<Rightarrow> rstr" where
  "skipped_warning name skipped what =
     name @ '': skipped '' @ nat_to_string skipped @ '' semantic-unsafe candidate '' @ what"

definition unavailable_warning :: "rstr \<Rightarrow> rstr" where
  "unavailable_warning name = name @ '': semantic context unavailable; skipping heuristic edits''"

definition skipped_warnings :: "rstr \<Rightarrow> nat \<Rightarrow> rstr list" where
  "skipped_warnings name skipped = (if skipped > 0 then [skipped_warning name skipped ''line(s)''] else [])"

definition changed_result ::
    "rstr \<Rightarrow> rstr \<Rightarrow> rstr list \<Rightarrow> policy_shared_data \<Rightarrow> edit list \<Rightarrow> rstr list \<Rightarrow> policy_result" where
  "changed_result name message lines shared edits warnings =
     \<lparr>pr_text = join_lines_cow lines (sh_line_ending shared) (sh_trailing_newline shared),
      pr_changed = True,
      pr_violations = [\<lparr>v_policy = policy_from_str_lossy name, v_message = message,
                        v_line = e_line (edits ! 0), v_column = Some 1\<rparr>],
      pr_edits = edits, pr_warnings = warnings\<rparr>"

type_synonym line_state = "rstr list \<times> edit list \<times> nat"

section \<open>Dashed comment separators\<close>

record dash_comment_policy =
  dc_mode_auto :: bool
  dc_long_length :: nat
  dc_short_length :: nat
  dc_long_threshold :: nat
  dc_min_length :: nat

definition dash_name :: rstr where
  "dash_name = ''dash_comment_normalizer''"

definition is_dash_comment :: "rstr \<Rightarrow> bool" where
  "is_dash_comment line =
     (let trimmed = trim line
      in starts_with trimmed ''//'' \<and> length trimmed > 2 \<and> all_bytes_equal (drop 2 trimmed) CHR ''-'')"

fun first_title_length :: "rstr list \<Rightarrow> nat list \<Rightarrow> nat option" where
  "first_title_length lines [] = None"
| "first_title_length lines (neighbor # neighbors) =
     (if neighbor \<ge> length lines then first_title_length lines neighbors
      else
        let line = trim (lines ! neighbor)
        in if \<not> starts_with line ''//'' then first_title_length lines neighbors
           else
             let comment = trim (drop 2 line)
             in if comment = [] \<or> all_bytes_equal comment CHR ''-''
                then first_title_length lines neighbors
                else Some (length line))"

definition adjacent_title_length :: "rstr list \<Rightarrow> nat \<Rightarrow> nat option" where
  "adjacent_title_length lines index =
     first_title_length lines ((if index > 0 then [index - 1] else []) @ [index + 1])"

definition dash_target :: "dash_comment_policy \<Rightarrow> rstr list \<Rightarrow> nat \<Rightarrow> nat" where
  "dash_target self lines idx =
     (let current_len = length (trim (lines ! idx));
          target_len = (if current_len \<ge> dc_long_threshold self then dc_long_length self
                        else dc_short_length self)
      in if dc_mode_auto self
         then (case adjacent_title_length lines idx of
                 None \<Rightarrow> target_len
               | Some title_len \<Rightarrow> max (max target_len title_len) (dc_min_length self))
         else target_len)"

definition dash_step :: "dash_comment_policy \<Rightarrow> policy_shared_data \<Rightarrow> nat \<Rightarrow> line_state \<Rightarrow> line_state" where
  "dash_step self shared idx st =
     (case st of (lines, edits, skipped) \<Rightarrow>
        if is_macro_line shared (idx + 1) then (lines, edits, skipped + 1)
        else
          let original = lines ! idx
          in if \<not> is_dash_comment original then (lines, edits, skipped)
             else
               let indent = take (leading_whitespace_byte_count original) original;
                   target_len = dash_target self lines idx
               in if target_len < 2 then (lines, edits, skipped)
                  else
                    let updated = indent @ ''//'' @ replicate (target_len - 2) CHR ''-''
                    in if updated \<noteq> original
                       then (lines[idx := updated],
                             edits @ [\<lparr>e_policy = policy_from_str_lossy dash_name, e_line = idx + 1,
                                        e_before = original, e_after = updated\<rparr>],
                             skipped)
                       else (lines, edits, skipped))"

definition dash_lines :: "dash_comment_policy \<Rightarrow> policy_shared_data \<Rightarrow> rstr list \<Rightarrow> line_state" where
  "dash_lines self shared lines = fold (dash_step self shared) [0 ..< length lines] (lines, [], 0)"

definition dash_apply :: "dash_comment_policy \<Rightarrow> formatting_context \<Rightarrow> policy_result option" where
  "dash_apply self context =
     (if \<not> is_available (fc_query context) then Some (unchanged_with_warning (unavailable_warning dash_name))
      else case fc_shared context of
        None \<Rightarrow> None
      | Some shared \<Rightarrow>
          let lines = lines_cow shared
          in if lines = [] then Some unchanged
             else (case dash_lines self shared lines of (lines, edits, skipped) \<Rightarrow>
               let warnings = skipped_warnings dash_name skipped
               in if edits = [] then Some (unchanged_with_warnings warnings)
                  else Some (changed_result dash_name ''normalized dashed comment separators''
                               lines shared edits warnings)))"

section \<open>Section titles\<close>

text \<open>The mapping from a lower case title to its normal form; keys are unique.\<close>

type_synonym section_title_policy = "(rstr \<times> rstr) list"

definition section_name :: rstr where
  "section_name = ''section_title_normalizer''"

definition section_title_of :: "section_title_policy \<Rightarrow> rstr \<Rightarrow> rstr option" where
  "section_title_of mapping original =
     (let trimmed = trim original
      in if \<not> starts_with trimmed ''//'' then None
         else
           let comment = trim (drop 2 trimmed)
           in if comment = [] \<or> all_bytes_equal comment CHR ''-'' then None
              else map_of mapping (to_lowercase comment))"

definition section_step :: "section_title_policy \<Rightarrow> policy_shared_data \<Rightarrow> nat \<Rightarrow> line_state \<Rightarrow> line_state" where
  "section_step mapping shared idx st =
     (case st of (lines, edits, skipped) \<Rightarrow>
        if is_macro_line shared (idx + 1) then (lines, edits, skipped + 1)
        else
          let original = lines ! idx
          in case section_title_of mapping original of
               None \<Rightarrow> (lines, edits, skipped)
             | Some target \<Rightarrow>
                 let indent = take (leading_whitespace_byte_count original) original;
                     updated = indent @ ''// '' @ target
                 in if updated \<noteq> original
                    then (lines[idx := updated],
                          edits @ [\<lparr>e_policy = policy_from_str_lossy section_name, e_line = idx + 1,
                                     e_before = original, e_after = updated\<rparr>],
                          skipped)
                    else (lines, edits, skipped))"

definition section_lines :: "section_title_policy \<Rightarrow> policy_shared_data \<Rightarrow> rstr list \<Rightarrow> line_state" where
  "section_lines mapping shared lines = fold (section_step mapping shared) [0 ..< length lines] (lines, [], 0)"

definition section_apply :: "section_title_policy \<Rightarrow> formatting_context \<Rightarrow> policy_result option" where
  "section_apply mapping context =
     (if mapping = [] then Some unchanged
      else if \<not> is_available (fc_query context) then Some (unchanged_with_warning (unavailable_warning section_name))
      else case fc_shared context of
        None \<Rightarrow> None
      | Some shared \<Rightarrow>
          (case section_lines mapping shared (lines_cow shared) of (lines, edits, skipped) \<Rightarrow>
             let warnings = skipped_warnings section_name skipped
             in if edits = [] then Some (unchanged_with_warnings warnings)
                else Some (changed_result section_name ''normalized section title comments''
                             lines shared edits warnings)))"

section \<open>Blank lines after the macro section header\<close>

definition macro_name :: rstr where
  "macro_name = ''lua_macro_spacing''"

definition is_dashes :: "rstr \<Rightarrow> bool" where
  "is_dashes line \<longleftrightarrow> starts_with line ''//'' \<and> list_all (\<lambda>ch. ch = CHR ''-'') (drop 2 line)"

definition has_macro_header :: "rstr list \<Rightarrow> nat \<Rightarrow> bool" where
  "has_macro_header lines index =
     (if index < 1 \<or> index + 1 \<ge> length lines then False
      else
        let title = to_lowercase (lines ! index)
        in if \<not> contains title ''user defined macros'' then False
           else is_dashes (trim (lines ! (index - 1))) \<and> is_dashes (trim (lines ! (index + 1))))"

definition is_cpp_source :: "rstr \<Rightarrow> bool" where
  "is_cpp_source path = (case extension path of None \<Rightarrow> False | Some value \<Rightarrow> is_implementation_extension value)"

definition insert_at :: "nat \<Rightarrow> 'a \<Rightarrow> 'a list \<Rightarrow> 'a list" where
  "insert_at index x xs = take index xs @ x # drop index xs"

lemma length_insert_at [simp]: "length (insert_at index x xs) = Suc (length xs)"
  by (simp add: insert_at_def)

function macro_loop ::
    "semantic_context_query \<Rightarrow> rstr list \<Rightarrow> nat \<Rightarrow> edit list \<Rightarrow> nat \<Rightarrow> line_state" where
  "macro_loop q lines index edits skipped =
     (if index < length lines
      then
        let define_index = index + 2
        in if has_macro_header lines index \<and> define_index < length lines
              \<and> starts_with (trim_start (lines ! define_index)) ''#define''
           then
             if \<not> is_safe_global q (define_index + 1) 1
             then macro_loop q lines (index + 1) edits (skipped + 1)
             else macro_loop q (insert_at define_index [] lines) (index + 2)
                    (edits @ [\<lparr>e_policy = policy_from_str_lossy macro_name, e_line = define_index + 1,
                               e_before = [], e_after = []\<rparr>]) skipped
           else macro_loop q lines (index + 1) edits skipped
      else (lines, edits, skipped))"
  by pat_completeness auto
termination
  by (relation "measure (\<lambda>(q, lines, index, edits, skipped). length lines - index)") auto

declare macro_loop.simps [simp del]

definition macro_apply :: "formatting_context \<Rightarrow> policy_result option" where
  "macro_apply context =
     (if \<not> is_cpp_source (fc_path context) then Some unchanged
      else if \<not> is_available (fc_query context) then Some (unchanged_with_warning (unavailable_warning macro_name))
      else case fc_shared context of
        None \<Rightarrow> None
      | Some shared \<Rightarrow>
          (case macro_loop (fc_query context) (lines_cow shared) 0 [] 0 of (lines, edits, skipped) \<Rightarrow>
             let warnings = skipped_warnings macro_name skipped
             in if edits = [] then Some (unchanged_with_warnings warnings)
                else Some (changed_result macro_name ''inserted blank line after macro section headers''
                             lines shared edits warnings)))"

section \<open>Blank lines after \<open>#pragma once\<close>\<close>

definition pragma_name :: rstr where
  "pragma_name = ''pragma_once_spacing''"

definition find_pragma_once_line :: "nat list \<Rightarrow> nat option" where
  "find_pragma_once_line calls = (case calls of [] \<Rightarrow> None | row # _ \<Rightarrow> Some row)"

definition existing_blank :: "rstr list \<Rightarrow> nat \<Rightarrow> nat" where
  "existing_blank lines scan = length (takeWhile (\<lambda>line. trim line = []) (drop scan lines))"

definition segment_edit :: "nat \<Rightarrow> rstr list \<Rightarrow> rstr list \<Rightarrow> nat \<Rightarrow> edit list" where
  "segment_edit start before_segment after_segment idx =
     (let before_line = unwrap_or (nth_opt before_segment idx) [];
          after_line = unwrap_or (nth_opt after_segment idx) []
      in if before_line = after_line then []
         else [\<lparr>e_policy = policy_from_str_lossy pragma_name, e_line = start + idx + 1,
                e_before = before_line, e_after = after_line\<rparr>])"

definition pragma_lines ::
    "nat \<Rightarrow> semantic_context_query \<Rightarrow> rstr list \<Rightarrow> nat \<Rightarrow> (rstr list \<times> edit list) + policy_result" where
  "pragma_lines blank_lines_after q lines pragma_index =
     (let start = pragma_index + 1;
          blank = existing_blank lines start;
          finish = start + blank
      in if blank = blank_lines_after then Inr unchanged
         else
           let before_segment = slice start finish lines;
               unsafe = (if \<not> is_safe_global q (pragma_index + 1) 1 then 1
                         else if list_ex (\<lambda>line. \<not> is_safe_global q line 1)
                                [start + 1 ..< max finish (start + blank_lines_after) + 1] then 1 else 0)
           in if unsafe > 0
              then Inr (unchanged_with_warning (skipped_warning pragma_name unsafe ''region(s)''))
              else
                let lines' = take start lines @ replicate blank_lines_after [] @ drop finish lines;
                    after_segment = slice start (start + blank_lines_after) lines';
                    max_lines = max (length before_segment) (length after_segment)
                in Inl (lines', concat (map (segment_edit start before_segment after_segment) [0 ..< max_lines])))"

text \<open>A row beyond the lines makes the slice of the blank lines panic.\<close>

definition pragma_apply :: "nat \<Rightarrow> formatting_context \<Rightarrow> policy_result option" where
  "pragma_apply blank_lines_after context =
     (if \<not> is_available (fc_query context)
      then Some (unchanged_with_warning (unavailable_warning pragma_name))
      else case fc_shared context of
        None \<Rightarrow> None
      | Some shared \<Rightarrow>
          let lines = lines_cow shared
          in if lines = [] then Some unchanged
             else case find_pragma_once_line (fc_pragma_calls context) of
               None \<Rightarrow> Some unchanged
             | Some pragma_index \<Rightarrow>
                 if existing_blank lines (pragma_index + 1) \<noteq> blank_lines_after \<and> pragma_index + 1 > length lines
                 then None
                 else
                   (case pragma_lines blank_lines_after (fc_query context) lines pragma_index of
                      Inr r \<Rightarrow> Some r
                    | Inl (lines', edits) \<Rightarrow>
                        if edits = [] then Some unchanged
                        else Some (changed_result pragma_name ''normalized blank lines after #pragma once''
                                     lines' shared edits [])))"

end
