(* ===== verification/Line_Policy_Facts.thy ===== *)
theory Line_Policy_Facts
  imports Line_Policies
begin

text \<open>
  What the line by line policies guarantee: the edits they report account for the change of the
  lines, how many runs it takes until nothing is left to do, and which blank lines the two spacing
  policies touch.
\<close>

section \<open>Edits that explain a change\<close>

definition replay :: "rstr list \<Rightarrow> edit list \<Rightarrow> rstr list" where
  "replay lines edits = foldl (\<lambda>ls e. ls[e_line e - 1 := e_after e]) lines edits"

text \<open>
  The edits account for a change: each names a line, the text it had, which is not empty, and another
  text, the lines increase, and writing them over the old lines gives the new ones.
\<close>

definition accounts_for :: "rstr list \<Rightarrow> edit list \<Rightarrow> rstr list \<Rightarrow> bool" where
  "accounts_for lines edits lines' \<longleftrightarrow>
     lines' = replay lines edits \<and> sorted_wrt (<) (map e_line edits)
     \<and> list_all (\<lambda>e. effective e \<and> 1 \<le> e_line e \<and> e_line e \<le> length lines
           \<and> e_before e = lines ! (e_line e - 1) \<and> e_before e \<noteq> []) edits"

lemma replay_snoc [simp]: "replay lines (edits @ [e]) = (replay lines edits)[e_line e - 1 := e_after e]"
  by (simp add: replay_def)

lemma replay_Nil [simp]: "replay lines [] = lines"
  by (simp add: replay_def)

text \<open>A policy that visits the lines in turn and rewrites at most the line it visits.\<close>

locale line_rewriter =
  fixes step :: "nat \<Rightarrow> line_state \<Rightarrow> line_state"
  assumes step_cases: "idx < length ls \<Longrightarrow>
     (\<exists>k'. step idx (ls, es, k) = (ls, es, k'))
     \<or> (\<exists>e. effective e \<and> e_line e = Suc idx \<and> e_before e = ls ! idx \<and> ls ! idx \<noteq> []
            \<and> step idx (ls, es, k) = (ls[idx := e_after e], es @ [e], k))"
begin

definition explained :: "rstr list \<Rightarrow> nat \<Rightarrow> line_state \<Rightarrow> bool" where
  "explained lines n st \<longleftrightarrow>
     (case st of (ls, es, k) \<Rightarrow>
        ls = replay lines es \<and> length ls = length lines \<and> sorted_wrt (<) (map e_line es)
        \<and> list_all (\<lambda>e. effective e \<and> 1 \<le> e_line e \<and> e_line e \<le> n \<and> e_before e = lines ! (e_line e - 1) \<and> e_before e \<noteq> []) es
        \<and> (\<forall>i. n \<le> i \<longrightarrow> i < length lines \<longrightarrow> ls ! i = lines ! i))"

lemma explained_step:
  assumes "explained lines n st" and "n < length lines"
  shows "explained lines (Suc n) (step n st)"
proof -
  obtain ls es k where st: "st = (ls, es, k)" by (cases st)
  have inv: "ls = replay lines es" "length ls = length lines" "sorted_wrt (<) (map e_line es)"
    "list_all (\<lambda>e. effective e \<and> 1 \<le> e_line e \<and> e_line e \<le> n \<and> e_before e = lines ! (e_line e - 1) \<and> e_before e \<noteq> []) es"
    "\<And>i. n \<le> i \<Longrightarrow> i < length lines \<Longrightarrow> ls ! i = lines ! i"
    using assms(1) by (auto simp: explained_def st)
  have all: "list_all (\<lambda>e. effective e \<and> 1 \<le> e_line e \<and> e_line e \<le> Suc n \<and> e_before e = lines ! (e_line e - 1) \<and> e_before e \<noteq> []) es"
    using inv(4) by (auto simp: list_all_iff)
  have "n < length ls" using assms(2) inv(2) by simp
  from step_cases [OF this, of es k] consider
      (keep) k' where "step n st = (ls, es, k')"
    | (edit) e where "effective e" "e_line e = Suc n" "e_before e = ls ! n" "ls ! n \<noteq> []"
        "step n st = (ls[n := e_after e], es @ [e], k)"
    by (auto simp: st)
  then show ?thesis
  proof cases
    case keep
    then show ?thesis using inv all by (auto simp: explained_def)
  next
    case edit
    have "\<forall>e' \<in> set es. e_line e' < Suc n" using inv(4) by (auto simp: list_all_iff)
    then show ?thesis
      using edit inv all assms(2) by (auto simp: explained_def sorted_wrt_append)
  qed
qed

lemma explained_run:
  assumes "n \<le> length lines"
  shows "explained lines n (fold step [0 ..< n] (lines, [], k))"
  using assms
proof (induction n)
  case 0
  then show ?case by (simp add: explained_def)
next
  case (Suc n)
  then have "explained lines n (fold step [0 ..< n] (lines, [], k))" and "n < length lines" by simp_all
  then show ?case by (simp add: explained_step)
qed

lemma run_accounts_for:
  assumes "fold step [0 ..< length lines] (lines, [], k) = (lines', edits, k')"
  shows "accounts_for lines edits lines'"
  using explained_run [of "length lines" lines k] assms
  by (simp add: explained_def accounts_for_def)

end

lemma blank_line_kept: "\<not> is_dash_comment []" "section_title_of mapping [] = None"
  by (simp_all add: is_dash_comment_def section_title_of_def starts_with_def Let_def)

interpretation dash_run: line_rewriter "dash_step self shared" for self shared
proof
  fix idx :: nat and ls :: "rstr list" and es :: "edit list" and k :: nat
  assume "idx < length ls"
  then show "(\<exists>k'. dash_step self shared idx (ls, es, k) = (ls, es, k'))
     \<or> (\<exists>e. effective e \<and> e_line e = Suc idx \<and> e_before e = ls ! idx \<and> ls ! idx \<noteq> []
            \<and> dash_step self shared idx (ls, es, k) = (ls[idx := e_after e], es @ [e], k))"
    by (cases "ls ! idx = []") (auto simp: dash_step_def Let_def effective_def blank_line_kept)
qed

interpretation title_run: line_rewriter "section_step mapping shared" for mapping shared
proof
  fix idx :: nat and ls :: "rstr list" and es :: "edit list" and k :: nat
  assume "idx < length ls"
  then show "(\<exists>k'. section_step mapping shared idx (ls, es, k) = (ls, es, k'))
     \<or> (\<exists>e. effective e \<and> e_line e = Suc idx \<and> e_before e = ls ! idx \<and> ls ! idx \<noteq> []
            \<and> section_step mapping shared idx (ls, es, k) = (ls[idx := e_after e], es @ [e], k))"
    by (cases "ls ! idx = []") (auto simp: section_step_def Let_def effective_def blank_line_kept split: option.split)
qed

section \<open>White space around a separator\<close>

lemma ws_plain:
  "\<not> ws1 CHR ''-''" "\<not> ws2 a CHR ''-''" "\<not> ws3 a b CHR ''-''"
  "\<not> ws1 CHR ''/''" "\<not> ws2 a CHR ''/''" "\<not> ws3 a b CHR ''/''"
  "\<not> ws2 CHR ''-'' b" "\<not> ws3 CHR ''-'' b c" "\<not> ws2 CHR ''/'' b" "\<not> ws3 CHR ''/'' b c"
  by (simp_all add: ws1_def ws2_def ws3_def)

lemma ws_suffix_plain: "c = CHR ''-'' \<or> c = CHR ''/'' \<Longrightarrow> ws_suffix (c # s) = 0"
  by (auto simp: ws_suffix_def ws_plain split: list.split)

lemma trim_dashes:
  assumes "list_all (\<lambda>c. c = CHR ''-'') s"
  shows "trim s = s"
proof -
  have "ws_prefix s = 0"
    using assms by (cases s) (auto simp: ws_prefix_def ws_plain split: list.split)
  moreover have "ws_suffix (rev s) = 0"
  proof (cases "rev s")
    case (Cons c t)
    then have "c \<in> set s" by (metis list.set_intros(1) set_rev)
    with assms Cons show ?thesis by (simp add: list_all_iff ws_suffix_plain)
  qed (simp add: ws_suffix_def)
  ultimately show ?thesis by (simp add: trim_def trim_start_def trim_end_def strip_while_stop)
qed

definition blank_char :: "char \<Rightarrow> bool" where
  "blank_char c \<longleftrightarrow> c = CHR 0x20 \<or> c = CHR 0x09"

lemma strip_blanks: "list_all blank_char s \<Longrightarrow> strip_while ws_prefix (s @ t) = strip_while ws_prefix t"
proof (induction s)
  case (Cons c s)
  then have "ws_prefix (c # s @ t) = 1" by (auto simp: ws_prefix_def ws1_def blank_char_def)
  with Cons show ?case by (simp add: strip_while.simps [of ws_prefix "c # s @ t"])
qed simp

text \<open>A line that is blanks, two slashes and dashes.\<close>

lemma separator_ws:
  "ws_prefix (CHR ''/'' # CHR ''/'' # s) = 0"
  by (auto simp: ws_prefix_def ws_plain split: list.split)

lemma trim_separator:
  assumes "list_all blank_char indent"
  shows "trim (indent @ ''//'' @ replicate n CHR ''-'') = ''//'' @ replicate n CHR ''-''"
proof -
  have "ws_suffix (rev (''//'' @ replicate n CHR ''-'')) = 0"
    by (cases n) (simp_all add: ws_suffix_plain replicate_app_Cons_same)
  then show ?thesis
    using strip_blanks [OF assms, of "''//'' @ replicate n CHR ''-''"]
    by (simp add: trim_def trim_start_def trim_end_def strip_while_stop separator_ws)
qed


section \<open>Separators settle\<close>

text \<open>The length of a title comment, as its neighbours see it.\<close>

definition title_of :: "rstr \<Rightarrow> nat option" where
  "title_of line =
     (let l = trim line; comment = trim (drop 2 l)
      in if \<not> starts_with l ''//'' \<or> comment = [] \<or> list_all (\<lambda>c. c = CHR ''-'') comment
         then None else Some (length l))"

lemma first_title_length_cong:
  assumes "length ls = length ls'" and "\<And>j. j < length ls \<Longrightarrow> title_of (ls ! j) = title_of (ls' ! j)"
  shows "first_title_length ls ns = first_title_length ls' ns"
proof (induction ns)
  case (Cons n ns)
  have title: "first_title_length ks (n # ns) =
      (if n < length ks \<and> title_of (ks ! n) \<noteq> None then title_of (ks ! n) else first_title_length ks ns)"
    for ks
    by (simp add: title_of_def Let_def all_bytes_equal_eq)
  show ?case using assms(1) assms(2) [of n] Cons by (auto simp: title simp del: first_title_length.simps(2))
qed simp

lemma title_of_dash: "is_dash_comment line \<Longrightarrow> title_of line = None"
  by (simp add: is_dash_comment_def title_of_def all_bytes_equal_eq trim_dashes Let_def)

abbreviation indent_of :: "rstr \<Rightarrow> rstr" where
  "indent_of line \<equiv> takeWhile blank_char line"

lemma indent_eq: "take (leading_whitespace_byte_count line) line = indent_of line"
  unfolding leading_whitespace_eq blank_char_def [abs_def] by (rule takeWhile_eq_take [symmetric])

lemma indent_blank: "list_all blank_char (indent_of line)"
  by (auto simp: list_all_iff dest: set_takeWhileD)

definition separator :: "rstr \<Rightarrow> nat \<Rightarrow> rstr" where
  "separator line target = indent_of line @ ''//'' @ replicate (target - 2) CHR ''-''"

lemma trim_of_separator [simp]: "trim (separator line target) = ''//'' @ replicate (target - 2) CHR ''-''"
  unfolding separator_def by (rule trim_separator [OF indent_blank])

lemma indent_of_separator [simp]: "indent_of (separator line target) = indent_of line"
proof -
  have "\<forall>c \<in> set (indent_of line). blank_char c" using indent_blank by (simp add: list_all_iff)
  then show ?thesis by (simp add: separator_def takeWhile_append2 blank_char_def [of "CHR ''/''"])
qed

lemma dash_separator [simp]: "is_dash_comment (separator line target) \<longleftrightarrow> 2 < target"
  by (auto simp: is_dash_comment_def all_bytes_equal_eq list_all_iff Let_def starts_with_def)

lemma separator_separator [simp]: "separator (separator line target) target' = separator line target'"
  by (simp add: separator_def [of "separator line target"]) (simp add: separator_def)

lemma title_of_separator [simp]: "title_of (separator line target) = None"
proof (cases "2 < target")
  case False
  then show ?thesis by (simp add: title_of_def Let_def)
qed (simp add: title_of_dash)

text \<open>What a run writes on a line, from the lines it started with.\<close>

definition dash_line :: "dash_comment_policy \<Rightarrow> policy_shared_data \<Rightarrow> rstr list \<Rightarrow> nat \<Rightarrow> rstr" where
  "dash_line self shared lines idx =
     (if is_macro_line shared (idx + 1) \<or> \<not> is_dash_comment (lines ! idx) \<or> dash_target self lines idx < 2
      then lines ! idx else separator (lines ! idx) (dash_target self lines idx))"

lemma title_of_dash_line [simp]: "title_of (dash_line self shared lines idx) = title_of (lines ! idx)"
  by (simp add: dash_line_def title_of_dash)

lemma dash_target_cong:
  assumes "length ls = length ls'" and "\<And>j. j < length ls \<Longrightarrow> title_of (ls ! j) = title_of (ls' ! j)"
    and "ls ! i = ls' ! i"
  shows "dash_target self ls i = dash_target self ls' i"
  using first_title_length_cong [OF assms(1,2)] assms(3)
  by (simp add: dash_target_def adjacent_title_length_def Let_def)

lemma dash_step_line:
  "fst (dash_step self shared idx (ls, es, k)) = ls[idx := dash_line self shared ls idx]"
  by (simp add: dash_step_def dash_line_def separator_def indent_eq Let_def)

lemma fst_dash_step: "fst (dash_step self shared idx st) = (fst st)[idx := dash_line self shared (fst st) idx]"
  by (cases st) (simp add: dash_step_line)

text \<open>The lines already rewritten do not change what a later line becomes.\<close>

lemma dash_fold:
  assumes "n \<le> length lines"
  shows "length (fst (fold (dash_step self shared) [0 ..< n] (lines, es, k))) = length lines
    \<and> (\<forall>i < length lines. fst (fold (dash_step self shared) [0 ..< n] (lines, es, k)) ! i =
         (if i < n then dash_line self shared lines i else lines ! i))"
  using assms
proof (induction n)
  case (Suc n)
  define ls where "ls = fst (fold (dash_step self shared) [0 ..< n] (lines, es, k))"
  have len: "length ls = length lines"
    and nth: "\<And>i. i < length lines \<Longrightarrow> ls ! i = (if i < n then dash_line self shared lines i else lines ! i)"
    using Suc by (simp_all add: ls_def)
  have "dash_target self ls n = dash_target self lines n"
    using Suc.prems by (intro dash_target_cong) (simp_all add: len nth)
  then have "dash_line self shared ls n = dash_line self shared lines n"
    using Suc.prems by (simp add: dash_line_def nth)
  then have "fst (fold (dash_step self shared) [0 ..< Suc n] (lines, es, k))
      = ls[n := dash_line self shared lines n]"
    by (simp add: fst_dash_step ls_def)
  then show ?case using Suc.prems by (simp add: len nth nth_list_update)
qed simp

lemma dash_lines_eq:
  "fst (dash_lines self shared lines) = map (dash_line self shared lines) [0 ..< length lines]"
  using dash_fold [of "length lines" lines self shared "[]" 0]
  unfolding dash_lines_def by (intro nth_equalityI) simp_all

text \<open>The length a separator gets, from its length and the titles beside it.\<close>

definition target_length :: "dash_comment_policy \<Rightarrow> nat option \<Rightarrow> nat \<Rightarrow> nat" where
  "target_length self title current =
     (let t = (if current \<ge> dc_long_threshold self then dc_long_length self else dc_short_length self)
      in if dc_mode_auto self \<and> title \<noteq> None then max (max t (the title)) (dc_min_length self) else t)"

lemma dash_target_eq:
  "dash_target self lines idx = target_length self (adjacent_title_length lines idx) (length (trim (lines ! idx)))"
  by (cases "adjacent_title_length lines idx") (simp_all add: dash_target_def target_length_def Let_def)

lemma length_trim_separator [simp]: "2 \<le> target \<Longrightarrow> length (trim (separator line target)) = target"
  by simp

lemma threshold_settles:
  fixes s r l t m x :: nat
  assumes "\<not> (l < r \<and> r \<le> s)"
  defines "f \<equiv> \<lambda>x. max (max (if x \<ge> r then l else s) t) m"
  shows "f (f (f x)) = f (f x)"
proof -
  define a b where "a = max (max l t) m" and "b = max (max s t) m"
  have f: "f y = (if y \<ge> r then a else b)" for y by (simp add: f_def a_def b_def)
  have "b < r" if "a < r" using that assms(1) by (simp add: a_def b_def)
  then show ?thesis by (auto simp: f)
qed

lemma target_length_settles:
  assumes "\<not> (dc_long_length self < dc_long_threshold self \<and> dc_long_threshold self \<le> dc_short_length self)"
  shows "target_length self title (target_length self title (target_length self title current))
       = target_length self title (target_length self title current)"
proof (cases "dc_mode_auto self \<and> title \<noteq> None")
  case True
  then show ?thesis
    using threshold_settles [OF assms, where t = "the title" and m = "dc_min_length self" and x = current]
    by (simp only: target_length_def Let_def if_True simp_thms)
next
  case False
  then show ?thesis
    using threshold_settles [OF assms, where t = 0 and m = 0 and x = current]
    by (simp only: target_length_def Let_def if_False max_0R)
qed

lemma target_length_stable:
  assumes "dc_short_length self < dc_long_threshold self" "dc_long_threshold self \<le> dc_long_length self"
    and "\<not> dc_mode_auto self"
  shows "target_length self title (target_length self title current) = target_length self title current"
  using assms by (auto simp: target_length_def Let_def)

lemma dash_pass:
  assumes "i < length lines"
  shows "let t = target_length self (adjacent_title_length lines i) in fst (dash_lines self shared lines) ! i =
     (if is_macro_line shared (i + 1) \<or> \<not> is_dash_comment (lines ! i) \<or> t (length (trim (lines ! i))) < 2
      then lines ! i else separator (lines ! i) (t (length (trim (lines ! i)))))"
  using assms by (simp add: dash_lines_eq dash_line_def dash_target_eq Let_def)

lemma adjacent_after_pass [simp]:
  "adjacent_title_length (fst (dash_lines self shared lines)) i = adjacent_title_length lines i"
  unfolding adjacent_title_length_def
  by (rule first_title_length_cong) (simp_all add: dash_lines_eq)

lemma length_dash_lines [simp]: "length (fst (dash_lines self shared lines)) = length lines"
  by (simp add: dash_lines_eq)

lemma dash_lines_cong:
  "sh_macro_lines shared' = sh_macro_lines shared \<Longrightarrow> fst (dash_lines self shared' lines) = fst (dash_lines self shared lines)"
  by (simp add: dash_lines_eq dash_line_def is_macro_line_def)

lemma dash_line_settles:
  fixes self shared lines
  assumes "i < length lines"
  defines "once \<equiv> fst (dash_lines self shared lines)"
  defines "twice \<equiv> fst (dash_lines self shared once)"
  shows "\<not> (dc_long_length self < dc_long_threshold self \<and> dc_long_threshold self \<le> dc_short_length self) \<Longrightarrow>
      fst (dash_lines self shared twice) ! i = twice ! i"
    and "dc_short_length self < dc_long_threshold self \<Longrightarrow> dc_long_threshold self \<le> dc_long_length self \<Longrightarrow>
      \<not> dc_mode_auto self \<Longrightarrow> twice ! i = once ! i"
proof -
  have i: "i < length once" "i < length twice" using assms(1) by (simp_all add: once_def twice_def)
  note one = dash_pass [OF assms(1), of self shared, folded once_def, unfolded Let_def]
  note two = dash_pass [OF i(1), of self shared, folded twice_def, unfolded Let_def]
  note three = dash_pass [OF i(2), of self shared, unfolded Let_def]
  have adj: "adjacent_title_length once i = adjacent_title_length lines i"
    "adjacent_title_length twice i = adjacent_title_length lines i"
    by (simp_all add: once_def twice_def)
  show "fst (dash_lines self shared twice) ! i = twice ! i"
    if "\<not> (dc_long_length self < dc_long_threshold self \<and> dc_long_threshold self \<le> dc_short_length self)"
    using target_length_settles [OF that, of "adjacent_title_length lines i" "length (trim (lines ! i))"]
    by (auto simp: one two three adj simp del: trim_of_separator)
  show "twice ! i = once ! i"
    if "dc_short_length self < dc_long_threshold self" "dc_long_threshold self \<le> dc_long_length self" "\<not> dc_mode_auto self"
    using target_length_stable [OF that, of "adjacent_title_length lines i" "length (trim (lines ! i))"]
    by (auto simp: one two adj simp del: trim_of_separator)
qed

section \<open>The macro section header settles\<close>

definition awaits_blank :: "rstr list \<Rightarrow> nat \<Rightarrow> bool" where
  "awaits_blank lines index \<longleftrightarrow>
     has_macro_header lines index \<and> index + 2 < length lines
     \<and> starts_with (trim_start (lines ! (index + 2))) ''#define''"

lemma macro_loop_step:
  "index < length lines \<Longrightarrow> macro_loop q lines index edits skipped =
     (if awaits_blank lines index
      then if \<not> is_safe_global q (index + 3) 1 then macro_loop q lines (index + 1) edits (skipped + 1)
           else macro_loop q (insert_at (index + 2) [] lines) (index + 2)
                  (edits @ [\<lparr>e_policy = policy_from_str_lossy macro_name, e_line = index + 3,
                             e_before = [], e_after = []\<rparr>]) skipped
      else macro_loop q lines (index + 1) edits skipped)"
  by (subst macro_loop.simps) (simp add: awaits_blank_def Let_def numeral_3_eq_3)

lemma macro_loop_end: "\<not> index < length lines \<Longrightarrow> macro_loop q lines index edits skipped = (lines, edits, skipped)"
  by (subst macro_loop.simps) simp

lemma nth_insert_at:
  "j \<le> index \<Longrightarrow> index \<le> length xs \<Longrightarrow> insert_at index x xs ! j = (if j = index then x else xs ! j)"
  by (simp add: insert_at_def nth_append)

text \<open>A header that has been passed keeps the lines it looks at.\<close>

lemma awaits_insert_at:
  assumes "j < index" and "index + 2 < length lines"
  shows "awaits_blank (insert_at (index + 2) [] lines) j \<longleftrightarrow> awaits_blank lines j"
proof -
  have "insert_at (index + 2) [] lines ! i = lines ! i" if "i \<le> j + 2" for i
    using that assms by (simp add: nth_insert_at)
  then show ?thesis using assms by (simp add: awaits_blank_def has_macro_header_def Let_def)
qed

lemma awaits_inserted:
  assumes "index + 2 < length lines"
  shows "\<not> awaits_blank (insert_at (index + 2) [] lines) index"
    and "\<not> awaits_blank (insert_at (index + 2) [] lines) (index + 1)"
  using assms
  by (simp_all add: awaits_blank_def has_macro_header_def is_dashes_def nth_insert_at starts_with_def Let_def)

definition handled :: "semantic_context_query \<Rightarrow> rstr list \<Rightarrow> nat \<Rightarrow> bool" where
  "handled q lines n \<longleftrightarrow> (\<forall>j < n. awaits_blank lines j \<longrightarrow> \<not> is_safe_global q (j + 3) 1)"

lemma handled_insert:
  assumes "handled q lines index" and "index + 2 < length lines"
  shows "handled q (insert_at (index + 2) [] lines) (index + 2)"
  unfolding handled_def
proof (intro allI impI)
  fix j assume j: "j < index + 2" "awaits_blank (insert_at (index + 2) [] lines) j"
  with awaits_inserted [OF assms(2)] have "j < index" by (auto simp: less_Suc_eq)
  with j awaits_insert_at [OF this assms(2)] assms(1) show "\<not> is_safe_global q (j + 3) 1"
    by (simp add: handled_def)
qed

lemma macro_loop_handled:
  "handled q lines index \<Longrightarrow>
     (case macro_loop q lines index edits skipped of (lines', edits', skipped') \<Rightarrow>
        handled q lines' (length lines')
        \<and> filter (\<lambda>line. line \<noteq> []) lines' = filter (\<lambda>line. line \<noteq> []) lines
        \<and> length lines' + length edits = length lines + length edits')"
proof (induction "length lines - index" arbitrary: lines index edits skipped rule: less_induct)
  case less
  show ?case
  proof (cases "index < length lines")
    case False
    with less.prems show ?thesis by (simp add: macro_loop_end handled_def)
  next
    case True
    show ?thesis
    proof (cases "awaits_blank lines index \<and> is_safe_global q (index + 3) 1")
      case True
      then have bound: "index + 2 < length lines" by (simp add: awaits_blank_def)
      let ?lines = "insert_at (index + 2) [] lines"
      have "length ?lines - (index + 2) < length lines - index" using bound by simp
      note IH = less.hyps [OF this handled_insert [OF less.prems bound]]
      have blank: "filter (\<lambda>line. line \<noteq> []) ?lines = filter (\<lambda>line. line \<noteq> []) lines"
        unfolding insert_at_def
        by (simp only: filter_append filter.simps if_False simp_thms) (simp flip: filter_append)
      let ?e = "\<lparr>e_policy = policy_from_str_lossy macro_name, e_line = index + 3, e_before = [], e_after = []\<rparr>"
      have "macro_loop q lines index edits skipped = macro_loop q ?lines (index + 2) (edits @ [?e]) skipped"
        using True \<open>index < length lines\<close> by (subst macro_loop_step) simp_all
      with IH [of "edits @ [?e]" skipped] show ?thesis
        by (simp only: blank length_insert_at length_append list.size prod.case_eq_if) simp
    next
      case False
      then have handled: "handled q lines (index + 1)"
        using less.prems by (auto simp: handled_def less_Suc_eq)
      have smaller: "length lines - (index + 1) < length lines - index"
        using \<open>index < length lines\<close> by simp
      have IH: "case macro_loop q lines (index + 1) edits k of (lines', edits', skipped') \<Rightarrow>
         handled q lines' (length lines')
         \<and> filter (\<lambda>line. line \<noteq> []) lines' = filter (\<lambda>line. line \<noteq> []) lines
         \<and> length lines' + length edits = length lines + length edits'" for k
        by (rule less.hyps [OF smaller handled])
      obtain k where "macro_loop q lines index edits skipped = macro_loop q lines (index + 1) edits k"
        using False macro_loop_step [OF \<open>index < length lines\<close>, of q edits skipped] by (auto split: if_splits)
      with IH [of k] show ?thesis by (simp only:)
    qed
  qed
qed

lemma macro_loop_rerun:
  "handled q lines (length lines) \<Longrightarrow> \<exists>k. macro_loop q lines index edits skipped = (lines, edits, k)"
proof (induction "length lines - index" arbitrary: index skipped rule: less_induct)
  case less
  show ?case
  proof (cases "index < length lines")
    case True
    then have "length lines - (index + 1) < length lines - index" by simp
    note rest = less.hyps [OF this less.prems]
    have "awaits_blank lines index \<longrightarrow> \<not> is_safe_global q (index + 3) 1"
      using less.prems True by (simp add: handled_def)
    then have "\<exists>k. macro_loop q lines index edits skipped = macro_loop q lines (index + 1) edits k"
      by (subst macro_loop_step [OF True]) auto
    with rest show ?thesis by metis
  qed (simp add: macro_loop_end)
qed

text \<open>The headers that await a blank line, from one index to another.\<close>

definition waiting :: "rstr list \<Rightarrow> nat \<Rightarrow> nat \<Rightarrow> nat" where
  "waiting lines low high = length (filter (awaits_blank lines) [low ..< high])"

lemma length_filter_mono:
  "(\<And>x. x \<in> set xs \<Longrightarrow> P x \<Longrightarrow> Q x) \<Longrightarrow> length (filter P xs) \<le> length (filter Q xs)"
  by (induction xs) (auto simp: le_Suc_eq)

lemma waiting_Suc: "low \<le> high \<Longrightarrow> waiting lines low (Suc high) = waiting lines low high + (if awaits_blank lines high then 1 else 0)"
  by (simp add: waiting_def)

lemma waiting_first: "low < high \<Longrightarrow> waiting lines low high = (if awaits_blank lines low then 1 else 0) + waiting lines (low + 1) high"
  by (simp add: waiting_def upt_rec [of low])

lemma waiting_insert:
  assumes "index + 2 < length lines"
  shows "waiting (insert_at (index + 2) [] lines) 0 (index + 2) = waiting lines 0 index"
proof -
  have "filter (awaits_blank (insert_at (index + 2) [] lines)) [0 ..< index] = filter (awaits_blank lines) [0 ..< index]"
    using awaits_insert_at [OF _ assms] by (intro filter_cong) simp_all
  then show ?thesis using awaits_inserted [OF assms] by (simp add: waiting_def)
qed

lemma nth_after_insert:
  "index < j \<Longrightarrow> index \<le> length xs \<Longrightarrow> insert_at index x xs ! j = xs ! (j - 1)"
  by (simp add: insert_at_def nth_append nth_Cons' min_def)

text \<open>A blank line makes no header of the lines behind it.\<close>

lemma awaits_behind:
  assumes "index + 2 < length lines" "index + 1 \<le> j" "awaits_blank (insert_at (index + 2) [] lines) (Suc j)"
  shows "awaits_blank lines j"
proof -
  let ?lines = "insert_at (index + 2) [] lines"
  have blank: "?lines ! (index + 2) = []" using assms(1) by (simp add: nth_insert_at)
  have "has_macro_header ?lines (Suc j)" using assms(3) by (simp add: awaits_blank_def)
  then have "contains (to_lowercase (?lines ! Suc j)) ''user defined macros''" "is_dashes (trim (?lines ! (Suc j - 1)))"
    by (simp_all add: has_macro_header_def Let_def split: if_splits)
  moreover have "\<not> contains (to_lowercase []) ''user defined macros''" "\<not> is_dashes (trim [])" by code_simp+
  ultimately have "Suc j \<noteq> index + 2" "Suc j - 1 \<noteq> index + 2" using blank by metis+
  with assms(2) have "index + 3 \<le> j" by simp
  then have "?lines ! (Suc j - 1) = lines ! (j - 1)" "?lines ! Suc j = lines ! j" "?lines ! (Suc j + 1) = lines ! (j + 1)"
    "?lines ! (Suc j + 2) = lines ! (j + 2)"
    using assms(1) by (simp_all add: nth_after_insert)
  with assms(3) \<open>index + 3 \<le> j\<close> show ?thesis by (auto simp: awaits_blank_def has_macro_header_def Let_def split: if_splits)
qed

lemma waiting_behind:
  assumes "index + 2 < length lines"
  shows "waiting (insert_at (index + 2) [] lines) (index + 2) (Suc (length lines)) \<le> waiting lines (index + 1) (length lines)"
proof -
  have "[index + 2 ..< Suc (length lines)] = map Suc [index + 1 ..< length lines]" by (simp add: map_Suc_upt)
  then have "waiting (insert_at (index + 2) [] lines) (index + 2) (Suc (length lines))
      = length (filter (\<lambda>j. awaits_blank (insert_at (index + 2) [] lines) (Suc j)) [index + 1 ..< length lines])"
    by (simp only: waiting_def) (simp add: filter_map comp_def)
  also have "\<dots> \<le> waiting lines (index + 1) (length lines)"
    unfolding waiting_def using awaits_behind [OF assms] by (intro length_filter_mono) simp
  finally show ?thesis .
qed

text \<open>What a run leaves waiting is what the semantic guard refused.\<close>

lemma macro_loop_refused:
  "index \<le> length lines \<Longrightarrow> waiting lines 0 index = skipped \<Longrightarrow>
     (case macro_loop q lines index edits skipped of (lines', edits', skipped') \<Rightarrow> waiting lines' 0 (length lines') = skipped')"
proof (induction "length lines - index" arbitrary: lines index edits skipped rule: less_induct)
  case less
  show ?case
  proof (cases "index < length lines")
    case True
    have smaller: "length lines - (index + 1) < length lines - index" using True by simp
    show ?thesis
    proof (cases "awaits_blank lines index \<and> is_safe_global q (index + 3) 1")
      case safe: True
      then have bound: "index + 2 < length lines" by (simp add: awaits_blank_def)
      let ?lines = "insert_at (index + 2) [] lines"
      have "length ?lines - (index + 2) < length lines - index" using bound by simp
      then show ?thesis
        using less.hyps [of ?lines "index + 2"] less.prems waiting_insert [OF bound] bound safe
        by (subst macro_loop_step [OF True]) (simp del: waiting_def)
    next
      case False
      then show ?thesis
        using less.hyps [OF smaller] less.prems True
        by (subst macro_loop_step [OF True]) (auto simp: waiting_Suc)
    qed
  qed (use less.prems in \<open>simp add: macro_loop_end\<close>)
qed

lemma macro_loop_bounded:
  "index \<le> length lines \<Longrightarrow>
     (case macro_loop q lines index edits skipped of (lines', edits', skipped') \<Rightarrow>
        length edits' + skipped' \<le> length edits + skipped + waiting lines index (length lines))"
proof (induction "length lines - index" arbitrary: lines index edits skipped rule: less_induct)
  case less
  show ?case
  proof (cases "index < length lines")
    case True
    have smaller: "length lines - (index + 1) < length lines - index" using True by simp
    note first = waiting_first [OF True, of lines]
    show ?thesis
    proof (cases "awaits_blank lines index \<and> is_safe_global q (index + 3) 1")
      case safe: True
      then have bound: "index + 2 < length lines" by (simp add: awaits_blank_def)
      let ?lines = "insert_at (index + 2) [] lines"
      let ?e = "\<lparr>e_policy = policy_from_str_lossy macro_name, e_line = index + 3, e_before = [], e_after = []\<rparr>"
      have "length ?lines - (index + 2) < length lines - index" using bound by simp
      from less.hyps [OF this, of "edits @ [?e]" skipped] waiting_behind [OF bound] first bound safe show ?thesis
        by (subst macro_loop_step [OF True]) (auto split: prod.splits)
    next
      case False
      with less.hyps [OF smaller, of edits skipped] less.hyps [OF smaller, of edits "skipped + 1"] first True show ?thesis
        by (subst macro_loop_step [OF True]) (auto split: prod.splits if_splits)
    qed
  qed (simp add: macro_loop_end)
qed

section \<open>Properties\<close>

text \<open>The result of a policy that changed the text.\<close>

definition explains :: "policy_shared_data \<Rightarrow> policy_result \<Rightarrow> bool" where
  "explains shared r \<longleftrightarrow>
     pr_edits r \<noteq> []
     \<and> accounts_for (lines_cow shared) (pr_edits r) (replay (lines_cow shared) (pr_edits r))
     \<and> pr_text r = join_lines_cow (replay (lines_cow shared) (pr_edits r))
                     (sh_line_ending shared) (sh_trailing_newline shared)"

lemmas policy_result_simps =
  changed_result_def unchanged_def unchanged_with_warning_def unchanged_with_warnings_def

lemma explained_result:
  assumes "dash_apply self ctx = Some r \<or> section_apply mapping ctx = Some r"
    and "pr_changed r" and "fc_shared ctx = Some shared"
  shows "explains shared r"
  using assms(1)
proof
  assume "dash_apply self ctx = Some r"
  with assms(2,3) obtain lines' edits skipped where
    run: "dash_lines self shared (lines_cow shared) = (lines', edits, skipped)" and "edits \<noteq> []"
    and "pr_edits r = edits"
    and "pr_text r = join_lines_cow lines' (sh_line_ending shared) (sh_trailing_newline shared)"
    by (auto simp: dash_apply_def policy_result_simps Let_def split: if_splits prod.splits)
  then show ?thesis
    using dash_run.run_accounts_for [OF run [unfolded dash_lines_def]]
    by (simp add: explains_def accounts_for_def)
next
  assume "section_apply mapping ctx = Some r"
  with assms(2,3) obtain lines' edits skipped where
    run: "section_lines mapping shared (lines_cow shared) = (lines', edits, skipped)" and "edits \<noteq> []"
    and "pr_edits r = edits"
    and "pr_text r = join_lines_cow lines' (sh_line_ending shared) (sh_trailing_newline shared)"
    by (auto simp: section_apply_def policy_result_simps Let_def split: if_splits prod.splits)
  then show ?thesis
    using title_run.run_accounts_for [OF run [unfolded section_lines_def]]
    by (simp add: explains_def accounts_for_def)
qed

lemma length_replay [simp]: "length (replay lines edits) = length lines"
  by (induction edits rule: rev_induct) simp_all

lemma nth_replay: "list_all (\<lambda>e. e_line e - 1 \<noteq> i) edits \<Longrightarrow> replay lines edits ! i = lines ! i"
  by (induction edits rule: rev_induct) simp_all

text \<open>The edits leave an empty last line, the end of the text, as it is.\<close>

lemma replay_last:
  assumes "accounts_for lines edits (replay lines edits)" "lines \<noteq> []" "last lines = []"
  shows "last (replay lines edits) = []"
proof -
  have "e_line e - 1 \<noteq> length lines - 1" if "e \<in> set edits" for e
    using that assms by (auto simp: accounts_for_def list_all_iff last_conv_nth)
  then have "replay lines edits ! (length lines - 1) = lines ! (length lines - 1)"
    by (intro nth_replay) (simp add: list_all_iff)
  moreover have "replay lines edits \<noteq> []" using assms(2) length_replay [of lines edits] by fastforce
  ultimately show ?thesis using assms(2,3) by (simp add: last_conv_nth)
qed

lemma uniform_result:
  assumes shared: "shared_data_new g (join eol lines) semantic = Some shared"
    and eol: "eol \<in> set line_endings" and ne: "lines \<noteq> []" and plain: "list_all plain_line lines"
    and r: "explains shared r"
  shows "lines_cow shared = lines \<and> pr_text r = join eol (replay lines (pr_edits r))"
proof -
  have s: "sh_text shared = join eol lines" "sh_line_ending shared = detect_line_ending (join eol lines)"
    "sh_trailing_newline shared = ends_with (join eol lines) [newline]"
    using shared by (auto simp: shared_data_new_def Let_def)
  have "lines_cow shared \<noteq> []" using r by (cases "pr_edits r") (auto simp: explains_def accounts_for_def)
  then have "join eol lines \<noteq> []" by (auto simp: lines_cow_def s split_lines_cow_def)
  then have cow: "lines_cow shared = lines"
    using split_join [OF eol ne plain] by (simp add: lines_cow_def s split_lines_cow_def)
  let ?lines = "replay lines (pr_edits r)"
  have acc: "accounts_for lines (pr_edits r) ?lines"
    and out: "pr_text r = join_lines_cow ?lines (sh_line_ending shared) (sh_trailing_newline shared)"
    using r by (simp_all add: explains_def cow)
  have ne': "?lines \<noteq> []" using ne length_replay [of lines "pr_edits r"] by fastforce
  have trailing: "sh_trailing_newline shared \<longleftrightarrow> 1 < length lines \<and> last lines = []"
    using ends_newline_join [OF eol ne plain] by (simp add: s)
  have "pr_text r = join eol ?lines"
  proof (cases "1 < length lines")
    case True
    then have "sh_line_ending shared = eol" using detect_join [OF eol plain] by (simp add: s)
    moreover have "ends_with (join eol ?lines) eol" if "last lines = []"
      using True ne' by (intro ends_eol_join [OF eol ne']) (simp_all add: replay_last [OF acc ne that])
    ultimately show ?thesis using ne' True by (auto simp: out join_lines_eq trailing)
  next
    case False
    then have "length ?lines = 1" using ne by (cases lines) simp_all
    moreover have "\<exists>line. ls = [line]" if "length ls = 1" for ls :: "rstr list" using that by (cases ls) auto
    ultimately obtain line where "?lines = [line]" by blast
    with False show ?thesis by (simp add: out join_lines_eq trailing)
  qed
  with cow show ?thesis by simp
qed

text \<open>
  \<^bold>\<open>C12\<close>: When the dash comment or the section title policy changes a text, its edits account for
  its lines: there is at least one, they name increasing lines of the text, each gives the text its
  line had and a different one, and the new lines are the old ones with the edits written over
  them.  In a text whose lines all end the same way the edits are the whole change: the new text
  consists of these lines with the same endings.  (In a text of mixed endings the ends of other
  lines change as well, see \<open>mixed_endings_rewritten\<close>.)
\<close>

theorem comment_edits_explain:
  assumes "dash_apply self ctx = Some r \<or> section_apply mapping ctx = Some r"
    and "pr_changed r" and "fc_shared ctx = Some shared" and "shared_data_new g s semantic = Some shared"
  shows "explains shared r
     \<and> (\<forall>eol lines. eol \<in> set line_endings \<and> lines \<noteq> [] \<and> list_all plain_line lines \<and> s = join eol lines \<longrightarrow>
          lines_cow shared = lines \<and> pr_text r = join eol (replay lines (pr_edits r)))"
proof -
  note explained = explained_result [OF assms(1-3)]
  with uniform_result [OF _ _ _ _ explained] assms(4) show ?thesis by blast
qed

text \<open>
  \<^bold>\<open>C23\<close>: Dashed separators settle unless the configured lengths are crossed, the long one below the
  threshold and the short one not below it: a third run changes nothing.  When the short length is
  below the threshold and the long one is not, as the defaults are, and the length does not follow
  the titles beside the separator, already the second run changes nothing.  The lines of
  preprocessor scopes, which the policy leaves alone, are the same in each run.
\<close>

theorem separators_settle:
  assumes "\<not> (dc_long_length self < dc_long_threshold self \<and> dc_long_threshold self \<le> dc_short_length self)"
    and "sh_macro_lines shared2 = sh_macro_lines shared1" "sh_macro_lines shared3 = sh_macro_lines shared1"
  shows "let once = fst (dash_lines self shared1 lines); twice = fst (dash_lines self shared2 once)
         in fst (dash_lines self shared3 twice) = twice
            \<and> (dc_short_length self < dc_long_threshold self \<and> dc_long_threshold self \<le> dc_long_length self
                \<and> \<not> dc_mode_auto self \<longrightarrow> twice = once)"
proof -
  note settles = dash_line_settles [of _ lines self shared1]
  show ?thesis
    unfolding Let_def dash_lines_cong [OF assms(2)] dash_lines_cong [OF assms(3)]
    using assms(1) by (auto intro!: nth_equalityI simp: settles)
qed

text \<open>
  \<^bold>\<open>C24\<close>: A run of the macro header policy only inserts blank lines, one for each edit.  A second run
  over its lines, whatever the semantic context of the new text allows then, finds at most the
  headers the first run was refused; when the first run was refused nothing the second one changes
  nothing.
\<close>

theorem macro_spacing_settles:
  "case macro_loop q lines 0 [] 0 of (lines', edits, skipped) \<Rightarrow>
     filter (\<lambda>line. line \<noteq> []) lines' = filter (\<lambda>line. line \<noteq> []) lines
     \<and> length lines' = length lines + length edits
     \<and> (case macro_loop q' lines' 0 [] 0 of (lines'', edits', skipped') \<Rightarrow>
          length edits' + skipped' \<le> skipped \<and> (skipped = 0 \<longrightarrow> lines'' = lines'))"
proof -
  obtain lines' edits skipped where run: "macro_loop q lines 0 [] 0 = (lines', edits, skipped)"
    by (metis prod_cases3)
  obtain lines'' edits' skipped' where again: "macro_loop q' lines' 0 [] 0 = (lines'', edits', skipped')"
    by (metis prod_cases3)
  have "handled q lines 0" by (simp add: handled_def)
  from macro_loop_handled [OF this, of "[]" 0] run
  have first: "filter (\<lambda>line. line \<noteq> []) lines' = filter (\<lambda>line. line \<noteq> []) lines"
    "length lines' = length lines + length edits" by auto
  have waiting: "waiting lines' 0 (length lines') = skipped"
    using macro_loop_refused [where index = 0 and lines = lines and skipped = 0 and q = q and edits = "[]"] run by (simp add: waiting_def)
  have bound: "length edits' + skipped' \<le> skipped"
    using macro_loop_bounded [where index = 0 and lines = lines' and q = q' and edits = "[]" and skipped = 0] again waiting by simp
  have "lines'' = lines'" if "skipped = 0"
  proof -
    have "handled q' lines' (length lines')"
      using waiting that by (auto simp: handled_def waiting_def filter_empty_conv)
    from macro_loop_rerun [OF this, of 0 "[]" 0] again show ?thesis by auto
  qed
  with run again first bound show ?thesis by simp
qed

lemma existing_blank_slice:
  "slice start (start + existing_blank lines start) lines = takeWhile (\<lambda>line. trim line = []) (drop start lines)"
  by (simp add: slice_def existing_blank_def takeWhile_eq_take [symmetric])

text \<open>Without blanks in the blank lines every one of them compares equal to its replacement.\<close>

lemma segment_edits_empty:
  assumes "list_all (\<lambda>line. line = []) before" "list_all (\<lambda>line. line = []) after"
  shows "concat (map (segment_edit start before after) idxs) = []"
proof -
  have "unwrap_or (nth_opt xs i) [] = []" if "list_all (\<lambda>line. line = []) xs" for xs :: "rstr list" and i
    using that by (simp add: nth_opt_def list_all_length)
  with assms show ?thesis by (simp add: segment_edit_def)
qed

lemma pragma_lines_Inr: "pragma_lines n q lines row = Inr r \<Longrightarrow> \<not> pr_changed r"
  by (simp add: pragma_lines_def policy_result_simps Let_def split: if_splits; clarsimp)

lemma pragma_lines_Inl:
  assumes "pragma_lines n q lines row = Inl (lines', edits)"
  defines "b \<equiv> existing_blank lines (row + 1)"
  shows "b \<noteq> n" and "lines' = take (row + 1) lines @ replicate n [] @ drop (row + 1 + b) lines"
    and "\<exists>idxs. edits = concat (map (segment_edit (row + 1) (slice (row + 1) (row + 1 + b) lines)
           (slice (row + 1) (row + 1 + n) lines')) idxs)"
  using assms(1) by (auto simp: pragma_lines_def b_def Let_def split: if_splits)

lemma pragma_changed:
  assumes "pragma_apply n ctx = Some r" and "pr_changed r"
    and "fc_shared ctx = Some shared" and "find_pragma_once_line (fc_pragma_calls ctx) = Some row"
  obtains lines' edits where
    "pragma_lines n (fc_query ctx) (lines_cow shared) row = Inl (lines', edits)" and "edits \<noteq> []"
    and "row + 1 \<le> length (lines_cow shared) \<or> existing_blank (lines_cow shared) (row + 1) = n"
    and "pr_text r = join_lines_cow lines' (sh_line_ending shared) (sh_trailing_newline shared)"
proof -
  from assms have available: "is_available (fc_query ctx)" and ne: "lines_cow shared \<noteq> []"
    by (auto simp: pragma_apply_def policy_result_simps Let_def split: if_splits)
  from assms available ne have bound:
    "row + 1 \<le> length (lines_cow shared) \<or> existing_blank (lines_cow shared) (row + 1) = n"
    by (auto simp: pragma_apply_def Let_def split: if_splits)
  then have run: "(case pragma_lines n (fc_query ctx) (lines_cow shared) row of
        Inr r \<Rightarrow> Some r
      | Inl (lines', edits) \<Rightarrow>
          if edits = [] then Some unchanged
          else Some (changed_result pragma_name ''normalized blank lines after #pragma once''
                       lines' shared edits [])) = Some r"
    using assms available ne by (auto simp: pragma_apply_def Let_def split: if_splits)
  show ?thesis
  proof (cases "pragma_lines n (fc_query ctx) (lines_cow shared) row")
    case (Inr r')
    with run assms(2) show ?thesis using pragma_lines_Inr by auto
  next
    case (Inl res)
    obtain lines' edits where res: "res = (lines', edits)" by (cases res)
    with Inl run assms(2) have "edits \<noteq> []"
      "pr_text r = join_lines_cow lines' (sh_line_ending shared) (sh_trailing_newline shared)"
      by (auto simp: policy_result_simps split: if_splits)
    with that Inl res bound show ?thesis by blast
  qed
qed

text \<open>
  \<^bold>\<open>C25\<close>: The spacing policy after \<open>#pragma once\<close> changes a text only where one of the blank
  lines there holds white space; then the blank lines become the configured number of empty ones.
  Missing and surplus empty lines alone are never corrected.
\<close>

theorem pragma_once_needs_white_space:
  assumes "pragma_apply blank_lines_after ctx = Some r" and "pr_changed r"
    and "fc_shared ctx = Some shared" and "find_pragma_once_line (fc_pragma_calls ctx) = Some row"
  defines "lines \<equiv> lines_cow shared" and "blanks \<equiv> existing_blank (lines_cow shared) (row + 1)"
  shows "list_ex (\<lambda>line. line \<noteq> []) (slice (row + 1) (row + 1 + blanks) lines)
    \<and> pr_text r = join_lines_cow
         (take (row + 1) lines @ replicate blank_lines_after [] @ drop (row + 1 + blanks) lines)
         (sh_line_ending shared) (sh_trailing_newline shared)"
proof -
  from pragma_changed [OF assms(1-4)] obtain lines' edits where
    run: "pragma_lines blank_lines_after (fc_query ctx) lines row = Inl (lines', edits)" and "edits \<noteq> []"
    and bound: "row + 1 \<le> length lines \<or> blanks = blank_lines_after"
    and out: "pr_text r = join_lines_cow lines' (sh_line_ending shared) (sh_trailing_newline shared)"
    by (metis lines_def blanks_def)
  note parts = pragma_lines_Inl [OF run, folded blanks_def [folded lines_def]]
  then have "row + 1 \<le> length lines" using bound by simp
  then have after: "slice (row + 1) (row + 1 + blank_lines_after) lines' = replicate blank_lines_after []"
    by (simp add: parts(2) slice_def)
  have "list_all (\<lambda>line. line = []) (replicate blank_lines_after ([] :: rstr))"
    by (simp add: list_all_iff)
  then have "\<not> list_all (\<lambda>line. line = []) (slice (row + 1) (row + 1 + blanks) lines)"
    using parts(3) segment_edits_empty \<open>edits \<noteq> []\<close> unfolding after by blast
  with out parts(2) show ?thesis by (auto simp: list_ex_iff list_all_iff)
qed

section \<open>Concrete texts\<close>

definition open_query :: semantic_context_query where
  "open_query = from_semantic sample_grammar (Some (empty_context []))"

definition shared_of :: "rstr list \<Rightarrow> policy_shared_data" where
  "shared_of lines =
     \<lparr>sh_text = join [newline] lines, sh_line_ending = [newline], sh_trailing_newline = False,
      sh_macro_lines = replicate (length lines) False\<rparr>"

definition context_of :: "rstr list \<Rightarrow> nat list \<Rightarrow> formatting_context" where
  "context_of lines calls =
     \<lparr>fc_path = ''a.cpp'', fc_query = open_query, fc_shared = Some (shared_of lines), fc_pragma_calls = calls\<rparr>"

definition default_dashes :: "bool \<Rightarrow> dash_comment_policy" where
  "default_dashes mode_auto =
     \<lparr>dc_mode_auto = mode_auto, dc_long_length = 64, dc_short_length = 28, dc_long_threshold = 50,
      dc_min_length = 28\<rparr>"

text \<open>A title of 55 characters takes a separator first to 55 and, from there, to 64.\<close>

definition long_title :: "rstr list" where
  "long_title = [''//'' @ replicate 26 CHR ''-'', ''// '' @ replicate 52 CHR ''x'']"

lemma auto_mode_takes_two_runs:
  "let run = (\<lambda>ls. fst (dash_lines (default_dashes True) (shared_of long_title) ls))
   in map length (run long_title) = [55, 55] \<and> map length (run (run long_title)) = [64, 55]"
  by code_simp

text \<open>With the long length below the threshold and the short one above it a separator never settles.\<close>

lemma separators_alternate:
  "let self = \<lparr>dc_mode_auto = False, dc_long_length = 40, dc_short_length = 60, dc_long_threshold = 50, dc_min_length = 60\<rparr>;
       run = (\<lambda>ls. fst (dash_lines self (shared_of [''//---'']) ls)); once = run [''//---'']
   in map length once = [60] \<and> map length (run once) = [40] \<and> run (run once) = once"
  by code_simp

lemma comment_edits_explain_witness:
  "pr_text (the (dash_apply (default_dashes False) (context_of [''int x;'', ''//---''] [])))
   = join [newline] (replay [''int x;'', ''//---'']
       (pr_edits (the (dash_apply (default_dashes False) (context_of [''int x;'', ''//---''] [])))))"
proof -
  let ?ctx = "context_of [''int x;'', ''//---''] []"
  let ?r = "the (dash_apply (default_dashes False) ?ctx)"
  have "dash_apply (default_dashes False) ?ctx \<noteq> None \<and> pr_changed ?r" by code_simp
  then have run: "dash_apply (default_dashes False) ?ctx = Some ?r \<or> section_apply [] ?ctx = Some ?r" "pr_changed ?r"
    by auto
  have shared: "fc_shared ?ctx = Some (shared_of [''int x;'', ''//---''])" by (simp add: context_of_def)
  have new: "shared_data_new sample_grammar (join [newline] [''int x;'', ''//---'']) None = Some (shared_of [''int x;'', ''//---''])"
    by code_simp
  show ?thesis
    using comment_edits_explain [OF run shared new]
    by (auto simp: line_endings_def plain_line_def ends_with_def starts_with_def)
qed

lemma separators_settle_witness:
  "let run = (\<lambda>ls. fst (dash_lines (default_dashes False) (shared_of long_title) ls))
   in run (run long_title) = run long_title"
  using separators_settle [of "default_dashes False" "shared_of long_title" "shared_of long_title" "shared_of long_title" long_title]
  by (simp add: default_dashes_def Let_def)

lemma open_query_safe: "is_available open_query" "is_safe_global open_query line column"
  by (simp_all add: open_query_def from_semantic_def is_available_def is_safe_global_def has_diag_error_def
      is_macro_region_def is_macro_region_at_def preprocessor_ranges_def query_scope_at_def
      scope_at_location_def empty_context_def binary_search_by_def)

lemma pragma_lines_open:
  "pragma_lines n open_query lines row =
     (let b = existing_blank lines (row + 1);
          lines' = take (row + 1) lines @ replicate n [] @ drop (row + 1 + b) lines;
          before_segment = slice (row + 1) (row + 1 + b) lines;
          after_segment = slice (row + 1) (row + 1 + n) lines'
      in if b = n then Inr unchanged
         else Inl (lines', concat (map (segment_edit (row + 1) before_segment after_segment)
                [0 ..< max (length before_segment) (length after_segment)])))"
  by (simp add: pragma_lines_def open_query_safe Let_def list_ex_iff)

text \<open>The same policy on a file without diagnostics, scopes or preprocessor lines.\<close>

lemma pragma_apply_open:
  "pragma_apply n (context_of lines [row]) =
     (let ls = lines_cow (shared_of lines)
      in if ls = [] then Some unchanged
         else if existing_blank ls (row + 1) \<noteq> n \<and> row + 1 > length ls then None
         else (case pragma_lines n open_query ls row of
                 Inr r \<Rightarrow> Some r
               | Inl (lines', edits) \<Rightarrow>
                   if edits = [] then Some unchanged
                   else Some (changed_result pragma_name ''normalized blank lines after #pragma once''
                                lines' (shared_of lines) edits [])))"
  by (simp add: pragma_apply_def context_of_def open_query_safe find_pragma_once_line_def Let_def)

definition macro_header :: "rstr list" where
  "macro_header = [''//----'', ''// User Defined Macros'', ''//----'', ''#define X'']"

text \<open>The policy separates the header from its first definition; a second run finds nothing.\<close>

lemma macro_header_run:
  "macro_loop open_query macro_header 0 [] 0 =
     ([''//----'', ''// User Defined Macros'', ''//----'', [], ''#define X''],
      [\<lparr>e_policy = policy_from_str_lossy macro_name, e_line = 4, e_before = [], e_after = []\<rparr>], 0)"
proof -
  let ?lines = "[''//----'', ''// User Defined Macros'', ''//----'', [], ''#define X'']"
  have h: "awaits_blank macro_header 0 = False" "awaits_blank macro_header (Suc 0) = True" "insert_at 3 [] macro_header = ?lines"
    "awaits_blank ?lines 3 = False" "awaits_blank ?lines 4 = False" "length macro_header = 4"
    by code_simp+
  have "macro_loop open_query macro_header 0 [] 0 = macro_loop open_query macro_header 1 [] 0"
    by (subst macro_loop_step) (simp_all add: h)
  also have "\<dots> = macro_loop open_query ?lines 3
      [\<lparr>e_policy = policy_from_str_lossy macro_name, e_line = 4, e_before = [], e_after = []\<rparr>] 0"
    by (subst macro_loop_step) (use h(3) in \<open>simp_all add: h(2,6) open_query_safe eval_nat_numeral\<close>)
  also have "\<dots> = macro_loop open_query ?lines 4
      [\<lparr>e_policy = policy_from_str_lossy macro_name, e_line = 4, e_before = [], e_after = []\<rparr>] 0"
    by (subst macro_loop_step) (simp_all add: h)
  also have "\<dots> = (?lines, [\<lparr>e_policy = policy_from_str_lossy macro_name, e_line = 4, e_before = [], e_after = []\<rparr>], 0)"
    by (subst macro_loop_step) (simp_all add: h macro_loop_end)
  finally show ?thesis .
qed

lemma macro_spacing_settles_witness:
  "fst (macro_loop (from_semantic sample_grammar None)
     [''//----'', ''// User Defined Macros'', ''//----'', [], ''#define X''] 0 [] 0)
   = [''//----'', ''// User Defined Macros'', ''//----'', [], ''#define X'']"
  using macro_spacing_settles [where q = open_query and lines = macro_header and q' = "from_semantic sample_grammar None"]
  unfolding macro_header_run by (simp add: case_prod_unfold)

abbreviation blank_pragma :: "rstr list" where
  "blank_pragma \<equiv> [''#pragma once'', '' '', ''int x;'']"

lemma pragma_once_needs_white_space_witness:
  "list_ex (\<lambda>line. line \<noteq> [])
     (slice (0 + 1) (0 + 1 + existing_blank (lines_cow (shared_of blank_pragma)) (0 + 1))
       (lines_cow (shared_of blank_pragma)))
   \<and> pr_text (the (pragma_apply 2 (context_of blank_pragma [0]))) =
       join_lines_cow
         (take (0 + 1) (lines_cow (shared_of blank_pragma)) @ replicate 2 []
          @ drop (0 + 1 + existing_blank (lines_cow (shared_of blank_pragma)) (0 + 1))
              (lines_cow (shared_of blank_pragma)))
         (sh_line_ending (shared_of blank_pragma)) (sh_trailing_newline (shared_of blank_pragma))"
proof (rule pragma_once_needs_white_space [where ctx = "context_of blank_pragma [0]"])
  have "pragma_apply 2 (context_of blank_pragma [0]) \<noteq> None
    \<and> pr_changed (the (pragma_apply 2 (context_of blank_pragma [0])))"
    unfolding pragma_apply_open pragma_lines_open by code_simp
  then show "pragma_apply 2 (context_of blank_pragma [0]) = Some (the (pragma_apply 2 (context_of blank_pragma [0])))"
    "pr_changed (the (pragma_apply 2 (context_of blank_pragma [0])))"
    by auto
qed (simp_all add: context_of_def find_pragma_once_line_def)

text \<open>The missing blank line of the default configuration is not inserted.\<close>

lemma missing_blank_line_stays:
  "pragma_apply 1 (context_of [''#pragma once'', ''int x;''] [0]) = Some unchanged"
  unfolding pragma_apply_open pragma_lines_open by code_simp

end
