(* ===== verification/Semantic_Rename.thy ===== *)
theory Semantic_Rename
  imports Context_Query
begin

text \<open>
  Renaming an identifier wherever it is used, the editing half of the naming policy:
  \<^verbatim>\<open>src/src/policy/naming_conventions/replacement.rs\<close>.  Plans become replacements of byte spans,
  guarded one by one, and the replacements are written into the text from its end.  The ranges
  of comments and strings, found by a tree query, are a parameter.
\<close>

section \<open>Plans, replacements, diagnostics\<close>

record rename_plan =
  np_old_name :: rstr
  np_new_name :: rstr
  np_line :: nat
  np_column :: nat
  np_kind :: int
  np_minimum_required_occurrences :: nat
  np_expected_occurrences :: nat
  np_stable_id :: "rstr option"

record rename_replacement =
  nr_start :: nat
  nr_finish :: nat
  nr_line :: nat
  nr_old_name :: rstr
  nr_new_name :: rstr

record strict_issues =
  si_enabled :: bool
  si_count :: nat
  si_first :: "rstr option"

record rename_diagnostics =
  rd_warnings :: "rstr list"
  rd_strict_issues :: strict_issues

text \<open>\<open>CXCursor_FieldDecl\<close> of libclang.\<close>

definition cx_cursor_field_decl :: int where
  "cx_cursor_field_decl = 6"

definition rename_confidence :: "rename_plan \<Rightarrow> rat" where
  "rename_confidence plan =
     (if np_stable_id plan = None then 1 / 2
      else if \<not> np_expected_occurrences plan > 0 then 3 / 5
      else if np_minimum_required_occurrences plan \<ge> np_expected_occurrences plan then 1 else 4 / 5)"

definition strict_issues_new :: "bool \<Rightarrow> strict_issues" where
  "strict_issues_new enabled = \<lparr>si_enabled = enabled, si_count = 0, si_first = None\<rparr>"

definition push_issue :: "rstr \<Rightarrow> strict_issues \<Rightarrow> strict_issues" where
  "push_issue message issues =
     (if \<not> si_enabled issues then issues
      else issues\<lparr>si_count := si_count issues + 1,
                  si_first := (if si_first issues = None then Some message else si_first issues)\<rparr>)"

text \<open>A warning and, when issues are collected, the issue that goes with it.\<close>

definition note_issue :: "rstr \<Rightarrow> rstr \<Rightarrow> rename_diagnostics \<Rightarrow> rename_diagnostics" where
  "note_issue warning issue diag =
     diag\<lparr>rd_warnings := rd_warnings diag @ [''naming_conventions: '' @ warning],
          rd_strict_issues := push_issue issue (rd_strict_issues diag)\<rparr>"

section \<open>Positions\<close>

definition has_identifier_boundaries :: "rstr \<Rightarrow> nat \<Rightarrow> nat \<Rightarrow> bool" where
  "has_identifier_boundaries s start finish =
     (if start > 0 \<and> is_identifier_byte (s ! (start - 1)) then False
      else if finish < length s \<and> is_identifier_byte (s ! finish) then False
      else True)"

definition naming_line_and_column :: "nat list \<Rightarrow> nat \<Rightarrow> nat \<times> nat" where
  "naming_line_and_column starts offset =
     (case binary_search offset starts of
        Inr index \<Rightarrow> (index + 1, 1)
      | Inl index \<Rightarrow>
          if index = 0 then (1, offset + 1)
          else (index, offset - unwrap_or (nth_opt starts (index - 1)) 0 + 1))"

definition offset_for_line_column :: "nat list \<Rightarrow> nat \<Rightarrow> nat \<Rightarrow> nat option" where
  "offset_for_line_column starts line column =
     (if line = 0 \<or> column = 0 then None
      else map_option (\<lambda>line_start. line_start + (column - 1)) (nth_opt starts (line - 1)))"

text \<open>\<open>str::get\<close> with a range: nothing out of range or inside a character.\<close>

definition get_str :: "rstr \<Rightarrow> nat \<Rightarrow> nat \<Rightarrow> rstr option" where
  "get_str s start finish =
     (if start \<le> finish \<and> finish \<le> length s \<and> is_char_boundary s start \<and> is_char_boundary s finish
      then Some (slice start finish s) else None)"

definition space_or_tab :: "char \<Rightarrow> bool" where
  "space_or_tab c \<longleftrightarrow> c = CHR 0x20 \<or> c = CHR 0x09"

fun back_over_blanks :: "rstr \<Rightarrow> nat \<Rightarrow> nat" where
  "back_over_blanks s 0 = 0"
| "back_over_blanks s (Suc prev) = (if space_or_tab (s ! prev) then back_over_blanks s prev else Suc prev)"

definition is_initializer_label :: "rstr \<Rightarrow> nat \<Rightarrow> nat \<Rightarrow> bool" where
  "is_initializer_label s offset finish =
     (let n = skip_while (\<lambda>i. space_or_tab (s ! i)) (length s) finish
      in if n < length s \<and> s ! n = CHR ''(''
         then let prev = back_over_blanks s offset
              in prev > 0 \<and> s ! (prev - 1) \<in> {CHR '':'', CHR '',''}
         else False)"

definition find_uncovered_field_initializer_label_offset :: "rstr \<Rightarrow> rstr \<Rightarrow> nat list \<Rightarrow> nat option" where
  "find_uncovered_field_initializer_label_offset s name covered =
     (if name = [] \<or> covered = [] \<or> length s < length name then None
      else find (\<lambda>offset. has_identifier_boundaries s offset (offset + length name)
                   \<and> offset \<notin> set covered \<and> is_initializer_label s offset (offset + length name))
             (subslice_match_indices s name))"

section \<open>Making a plan\<close>

definition resolve_rename_plan ::
    "cpp_grammar \<Rightarrow> semantic_context_query \<Rightarrow> semantic_file_context \<Rightarrow> rstr \<Rightarrow> rstr \<Rightarrow> nat \<Rightarrow> nat \<Rightarrow> int \<Rightarrow> nat
      \<Rightarrow> int list \<Rightarrow> rename_plan list \<Rightarrow> rename_plan list \<times> bool" where
  "resolve_rename_plan g q semantic old_name suggested line source_column kind column allowed_kinds plans =
     (let plan = \<lparr>np_old_name = old_name, np_new_name = suggested, np_line = line, np_column = column,
                  np_kind = kind, np_minimum_required_occurrences = 0, np_expected_occurrences = 0,
                  np_stable_id = None\<rparr>;
          push = (\<lambda>p. if has_name_elsewhere semantic suggested line then (plans, False) else (plans @ [p], True))
      in if is_available q
         then (case symbol_at q line source_column allowed_kinds of
                 None \<Rightarrow> (plans @ [plan], True)
               | Some declaration \<Rightarrow>
                   if sd_is_anonymous declaration then (plans, False)
                   else
                     let references = references_of q (sd_stable_id declaration);
                         safe_reference_count =
                           length (filter (\<lambda>r. is_safe_edit g q (sr_line r) (sr_column r)) references)
                     in push (plan\<lparr>np_stable_id := Some (sd_stable_id declaration),
                                   np_expected_occurrences := max (length references) 1,
                                   np_minimum_required_occurrences := max safe_reference_count 1\<rparr>))
         else push plan)"

section \<open>Where a plan applies\<close>

definition declaration_offset_of :: "nat list \<Rightarrow> rename_plan \<Rightarrow> nat option" where
  "declaration_offset_of starts plan = offset_for_line_column starts (np_line plan) (np_column plan)"

text \<open>The declared span, when the text has the old name there as a whole identifier.\<close>

definition is_name_span :: "rstr \<Rightarrow> rename_plan \<Rightarrow> nat \<Rightarrow> bool" where
  "is_name_span s plan offset \<longleftrightarrow>
     (let finish = offset + length (np_old_name plan)
      in finish \<le> length s \<and> get_str s offset finish = Some (np_old_name plan)
         \<and> has_identifier_boundaries s offset finish)"

definition base_offsets ::
    "semantic_context_query \<Rightarrow> semantic_file_context \<Rightarrow> rstr \<Rightarrow> nat list \<Rightarrow> rename_plan \<Rightarrow> nat list" where
  "base_offsets q semantic s starts plan =
     (case np_stable_id plan of
        Some stable_id \<Rightarrow>
          remdups_adj (sort
            (List.map_filter (\<lambda>r. offset_for_line_column starts (sr_line r) (sr_column r)) (references_of q stable_id)
             @ (case declaration_offset_of starts plan of None \<Rightarrow> [] | Some offset \<Rightarrow> [offset])))
      | None \<Rightarrow>
          let clang_offsets = rename_offsets semantic (np_old_name plan) (np_line plan) [np_kind plan]
          in if clang_offsets = []
             then filter (\<lambda>offset. has_identifier_boundaries s offset (offset + length (np_old_name plan)))
                    (subslice_match_indices s (np_old_name plan))
             else clang_offsets)"

definition plan_offsets ::
    "semantic_context_query \<Rightarrow> semantic_file_context \<Rightarrow> rstr \<Rightarrow> nat list \<Rightarrow> rename_plan \<Rightarrow> nat list" where
  "plan_offsets q semantic s starts plan =
     (let offsets = base_offsets q semantic s starts plan
      in if np_expected_occurrences plan > length offsets
         then (case declaration_offset_of starts plan of
                 None \<Rightarrow> offsets
               | Some offset \<Rightarrow>
                   if offset \<notin> set offsets \<and> is_name_span s plan offset
                   then remdups_adj (sort (offsets @ [offset])) else offsets)
         else offsets)"

section \<open>Replacements of a plan\<close>

definition in_non_code :: "(nat \<times> nat) list \<Rightarrow> nat \<Rightarrow> bool" where
  "in_non_code ranges offset \<longleftrightarrow>
     binary_search_by (\<lambda>(start, finish). offset < start)
       (\<lambda>(start, finish). \<not> offset < start \<and> \<not> offset \<ge> finish) ranges \<noteq> None"

abbreviation print_gap :: "nat \<Rightarrow> nat \<Rightarrow> rstr" where
  "print_gap realized wanted \<equiv> '' ('' @ nat_to_string realized @ '' < '' @ nat_to_string wanted @ '')''"

abbreviation quoted :: "rstr \<Rightarrow> rstr" where
  "quoted name \<equiv> CHR 0x27 # name @ [CHR 0x27]"

definition replace_at ::
    "cpp_grammar \<Rightarrow> semantic_context_query \<Rightarrow> rstr \<Rightarrow> nat list \<Rightarrow> (nat \<times> nat) list \<Rightarrow> rename_plan \<Rightarrow> nat
      \<Rightarrow> rename_replacement list \<times> rename_diagnostics \<Rightarrow> rename_replacement list \<times> rename_diagnostics" where
  "replace_at g q s starts non_code_ranges plan offset st =
     (case st of (replacements, diag) \<Rightarrow>
        let finish = offset + length (np_old_name plan)
        in if finish > length s \<or> \<not> is_char_boundary s offset \<or> \<not> is_char_boundary s finish
           then let span = ''invalid rename span for '' @ quoted (np_old_name plan) @ '' at byte '' @ nat_to_string offset
                in (replacements, note_issue (''skipped '' @ span) span diag)
           else if get_str s offset finish \<noteq> Some (np_old_name plan) then (replacements, diag)
           else if \<not> has_identifier_boundaries s offset finish then (replacements, diag)
           else if in_non_code non_code_ranges offset then (replacements, diag)
           else
             (case naming_line_and_column starts offset of (line, column) \<Rightarrow>
                if is_available q \<and> \<not> is_safe_edit g q line column
                then let unsafe = ''semantic-unsafe rename '' @ quoted (np_old_name plan) @ '' at line '' @ nat_to_string line
                     in (replacements, note_issue (''skipped '' @ unsafe) unsafe diag)
                else (replacements @ [\<lparr>nr_start = offset, nr_finish = finish, nr_line = line,
                                        nr_old_name = np_old_name plan, nr_new_name = np_new_name plan\<rparr>], diag)))"

definition coverage_gaps :: "rename_plan \<Rightarrow> nat \<Rightarrow> rename_diagnostics \<Rightarrow> rename_diagnostics" where
  "coverage_gaps plan realized diag =
     (if np_expected_occurrences plan > 0
      then
        let place = quoted (np_old_name plan) @ '' on line '' @ nat_to_string (np_line plan);
            safe_gap = ''semantic safe-coverage gap for '' @ place
                         @ print_gap realized (np_minimum_required_occurrences plan);
            full_gap = ''full-coverage gap for '' @ place @ print_gap realized (np_expected_occurrences plan);
            diag = (if np_minimum_required_occurrences plan - realized > 0 then note_issue safe_gap safe_gap diag else diag)
        in if realized < np_expected_occurrences plan then note_issue full_gap full_gap diag else diag
      else diag)"

section \<open>All plans together\<close>

text \<open>The replacements by their start, in the order they were entered, and the starts in conflict.\<close>

record rename_state =
  rs_by_start :: "(nat \<times> rename_replacement) list"
  rs_conflicts :: "nat list"
  rs_diag :: rename_diagnostics

definition enter_replacement :: "rename_replacement \<Rightarrow> rename_state \<Rightarrow> rename_state" where
  "enter_replacement r st =
     (case map_of (rs_by_start st) (nr_start r) of
        Some existing \<Rightarrow>
          if nr_old_name existing \<noteq> nr_old_name r \<or> nr_new_name existing \<noteq> nr_new_name r
          then let issue = ''conflicting semantic edits at byte '' @ nat_to_string (nr_start r)
               in st\<lparr>rs_conflicts := nr_start r # rs_conflicts st,
                     rs_diag := note_issue (issue @ ''; skipping'') issue (rs_diag st)\<rparr>
          else st
      | None \<Rightarrow> st\<lparr>rs_by_start := rs_by_start st @ [(nr_start r, r)]\<rparr>)"

definition realize_plan ::
    "cpp_grammar \<Rightarrow> semantic_context_query \<Rightarrow> rstr \<Rightarrow> nat list \<Rightarrow> (nat \<times> nat) list \<Rightarrow> rename_plan \<Rightarrow> nat list
      \<Rightarrow> rename_state \<Rightarrow> rename_state" where
  "realize_plan g q s starts non_code_ranges plan offsets st =
     (let place = quoted (np_old_name plan) @ '' on line '' @ nat_to_string (np_line plan);
          declaration_offset =
            (case declaration_offset_of starts plan of
               Some offset \<Rightarrow> if is_name_span s plan offset then Some offset else None
             | None \<Rightarrow> None)
      in case fold (replace_at g q s starts non_code_ranges plan) offsets ([], rs_diag st) of
           (replacements, diag) \<Rightarrow>
             let diag = coverage_gaps plan (length replacements) diag;
                 uncovered_declaration =
                   (case declaration_offset of None \<Rightarrow> False
                    | Some offset \<Rightarrow> \<not> list_ex (\<lambda>r. nr_start r = offset) replacements)
             in if uncovered_declaration
                then st\<lparr>rs_diag := note_issue
                       (''skipped semantic rename '' @ place
                          @ '' because declaration span was not safely renameable'')
                       (''declaration span missing for semantic rename '' @ place) diag\<rparr>
                else fold enter_replacement replacements (st\<lparr>rs_diag := diag\<rparr>))"

definition plan_step ::
    "cpp_grammar \<Rightarrow> semantic_context_query \<Rightarrow> semantic_file_context \<Rightarrow> rstr \<Rightarrow> nat list \<Rightarrow> (nat \<times> nat) list
      \<Rightarrow> rename_plan \<Rightarrow> rename_state \<Rightarrow> rename_state" where
  "plan_step g q semantic s starts non_code_ranges plan st =
     (let offsets = plan_offsets q semantic s starts plan;
          place = quoted (np_old_name plan) @ '' on line '' @ nat_to_string (np_line plan);
          uncovered = (if np_kind plan = cx_cursor_field_decl
                       then find_uncovered_field_initializer_label_offset s (np_old_name plan) offsets else None)
      in case uncovered of
           Some offset \<Rightarrow>
             let line = nat_to_string (fst (naming_line_and_column starts offset))
             in st\<lparr>rs_diag := note_issue
                    (''skipped semantic rename '' @ place @ '' due uncovered constructor initializer label at line '' @ line)
                    (''uncovered constructor initializer label for '' @ quoted (np_old_name plan) @ '' at line '' @ line)
                    (rs_diag st)\<rparr>
         | None \<Rightarrow>
             if offsets = []
             then st\<lparr>rs_diag := note_issue (''no semantic references found for '' @ place)
                       (''missing semantic references for '' @ place) (rs_diag st)\<rparr>
             else realize_plan g q s starts non_code_ranges plan offsets st)"

text \<open>Of two replacements that overlap, the first is kept.\<close>

fun drop_overlapping ::
    "rename_replacement list \<Rightarrow> rename_replacement list \<Rightarrow> nat \<Rightarrow> rename_diagnostics
      \<Rightarrow> rename_replacement list \<times> rename_diagnostics" where
  "drop_overlapping [] filtered last_end diag = (filtered, diag)"
| "drop_overlapping (r # rs) filtered last_end diag =
     (if filtered \<noteq> [] \<and> nr_start r < last_end
      then let issue = ''overlapping semantic edit near line '' @ nat_to_string (nr_line r)
           in drop_overlapping rs filtered last_end (note_issue (issue @ ''; skipping'') issue diag)
      else drop_overlapping rs (filtered @ [r]) (nr_finish r) diag)"

definition build_replacements ::
    "cpp_grammar \<Rightarrow> semantic_context_query \<Rightarrow> semantic_file_context \<Rightarrow> rstr \<Rightarrow> rename_plan list \<Rightarrow> (nat \<times> nat) list
      \<Rightarrow> rename_diagnostics \<Rightarrow> rename_replacement list \<times> rename_diagnostics" where
  "build_replacements g q semantic s plans non_code_ranges diag =
     (let starts = line_starts s False;
          st = fold (plan_step g q semantic s starts non_code_ranges) plans
                 \<lparr>rs_by_start = [], rs_conflicts = [], rs_diag = diag\<rparr>;
          kept = filter (\<lambda>(start, r). start \<notin> set (rs_conflicts st)) (rs_by_start st)
      in drop_overlapping (sort_key nr_start (map snd kept)) [] 0 (rs_diag st))"

section \<open>Writing the replacements\<close>

text \<open>\<open>replace_range\<close> panics out of range or inside a character.\<close>

definition replace_range :: "nat \<Rightarrow> nat \<Rightarrow> rstr \<Rightarrow> rstr \<Rightarrow> rstr option" where
  "replace_range start finish replacement s =
     (if start \<le> finish \<and> finish \<le> length s \<and> is_char_boundary s start \<and> is_char_boundary s finish
      then Some (take start s @ replacement @ drop finish s) else None)"

definition edit_of :: "rename_replacement \<Rightarrow> edit" where
  "edit_of r = \<lparr>e_policy = policy_from_str_lossy ''naming_conventions'', e_line = nr_line r,
                e_before = nr_old_name r, e_after = nr_new_name r\<rparr>"

definition write_replacement :: "rename_replacement \<Rightarrow> rstr \<times> edit list \<Rightarrow> (rstr \<times> edit list) option" where
  "write_replacement r st =
     (case st of (output, edits) \<Rightarrow>
        map_option (\<lambda>output. (output, edits @ [edit_of r]))
          (replace_range (nr_start r) (nr_finish r) (nr_new_name r) output))"

definition apply_semantic_renames ::
    "cpp_grammar \<Rightarrow> semantic_context_query \<Rightarrow> semantic_file_context \<Rightarrow> rstr \<Rightarrow> rename_plan list \<Rightarrow> (nat \<times> nat) list
      \<Rightarrow> rename_diagnostics \<Rightarrow> ((rstr \<times> edit list) \<times> rename_diagnostics) option" where
  "apply_semantic_renames g q semantic s plans non_code_ranges diag =
     (case build_replacements g q semantic s plans non_code_ranges diag of (replacements, diag) \<Rightarrow>
        if replacements = []
        then Some ((s, []),
               (if plans = [] then diag
                else diag\<lparr>rd_strict_issues :=
                       push_issue ''semantic rename produced no concrete replacements'' (rd_strict_issues diag)\<rparr>))
        else
          map_option (\<lambda>(output, edits). ((output, rev edits), diag))
            (foldo write_replacement
               (sort_by (\<lambda>left right. nr_start right \<le> nr_start left) replacements) (s, [])))"


section \<open>Every replacement is guarded\<close>

text \<open>What the guards of \<open>replace_at\<close> establish of a span.\<close>

definition guarded ::
    "cpp_grammar \<Rightarrow> semantic_context_query \<Rightarrow> rstr \<Rightarrow> (nat \<times> nat) list \<Rightarrow> rename_replacement \<Rightarrow> bool" where
  "guarded g q s ranges r \<longleftrightarrow>
     nr_finish r = nr_start r + length (nr_old_name r) \<and> nr_finish r \<le> length s
     \<and> slice (nr_start r) (nr_finish r) s = nr_old_name r
     \<and> is_char_boundary s (nr_start r) \<and> is_char_boundary s (nr_finish r)
     \<and> has_identifier_boundaries s (nr_start r) (nr_finish r)
     \<and> \<not> in_non_code ranges (nr_start r)
     \<and> (case naming_line_and_column (line_starts s False) (nr_start r) of (line, column) \<Rightarrow>
          nr_line r = line \<and> (\<not> is_available q \<or> is_safe_edit g q line column))"

definition planned :: "rename_plan list \<Rightarrow> rename_replacement \<Rightarrow> bool" where
  "planned plans r \<longleftrightarrow> list_ex (\<lambda>p. np_old_name p = nr_old_name r \<and> np_new_name p = nr_new_name r) plans"

lemma fst_replace_at:
  "fst (replace_at g q s starts ranges plan offset st) =
     (let finish = offset + length (np_old_name plan);
          position = naming_line_and_column starts offset
      in if (finish \<le> length s \<and> is_char_boundary s offset \<and> is_char_boundary s finish)
            \<and> get_str s offset finish = Some (np_old_name plan) \<and> has_identifier_boundaries s offset finish
            \<and> \<not> in_non_code ranges offset \<and> (\<not> is_available q \<or> is_safe_edit g q (fst position) (snd position))
         then fst st @ [\<lparr>nr_start = offset, nr_finish = finish, nr_line = fst position,
                         nr_old_name = np_old_name plan, nr_new_name = np_new_name plan\<rparr>]
         else fst st)"
  by (cases st) (simp add: replace_at_def Let_def case_prod_unfold not_le)

lemma replace_at_guarded:
  assumes "\<forall>r \<in> set (fst st). guarded g q s ranges r \<and> planned [plan] r"
  shows "\<forall>r \<in> set (fst (replace_at g q s (line_starts s False) ranges plan offset st)).
           guarded g q s ranges r \<and> planned [plan] r"
proof -
  have extend: "\<forall>r \<in> set (if c then rs @ [x] else rs). P r" if "\<forall>r \<in> set rs. P r" "c \<Longrightarrow> P x"
    for c and rs :: "rename_replacement list" and x P
    using that by auto
  show ?thesis
    unfolding fst_replace_at Let_def
    by (rule extend [OF assms])
       (auto simp: guarded_def planned_def get_str_def case_prod_unfold split: if_splits)
qed

lemma fold_replace_at_guarded:
  "\<forall>r \<in> set (fst st). guarded g q s ranges r \<and> planned [plan] r \<Longrightarrow>
     \<forall>r \<in> set (fst (fold (replace_at g q s (line_starts s False) ranges plan) offsets st)).
       guarded g q s ranges r \<and> planned [plan] r"
proof (induction offsets arbitrary: st)
  case (Cons offset offsets)
  from Cons.IH [OF replace_at_guarded [OF Cons.prems]] show ?case by simp
qed simp

definition state_ok ::
    "cpp_grammar \<Rightarrow> semantic_context_query \<Rightarrow> rstr \<Rightarrow> (nat \<times> nat) list \<Rightarrow> rename_plan list \<Rightarrow> rename_state \<Rightarrow> bool" where
  "state_ok g q s ranges plans st \<longleftrightarrow>
     distinct (map fst (rs_by_start st))
     \<and> (\<forall>(start, r) \<in> set (rs_by_start st). start = nr_start r \<and> guarded g q s ranges r \<and> planned plans r)"

lemma planned_mono: "planned [p] r \<Longrightarrow> p \<in> set plans \<Longrightarrow> planned plans r"
  by (auto simp: planned_def list_ex_iff)

lemma enter_replacement_ok:
  assumes "state_ok g q s ranges plans st" and "guarded g q s ranges r" and "planned plans r"
  shows "state_ok g q s ranges plans (enter_replacement r st)"
  using assms
  by (auto simp: state_ok_def enter_replacement_def map_of_eq_None_iff Let_def split: option.splits)

lemma fold_enter_ok:
  "state_ok g q s ranges plans st \<Longrightarrow> \<forall>r \<in> set rs. guarded g q s ranges r \<and> planned plans r \<Longrightarrow>
     state_ok g q s ranges plans (fold enter_replacement rs st)"
  by (induction rs arbitrary: st) (simp_all add: enter_replacement_ok)

lemma state_ok_diag [simp]: "state_ok g q s ranges plans (st\<lparr>rs_diag := diag\<rparr>) = state_ok g q s ranges plans st"
  by (simp add: state_ok_def)

lemma plan_step_ok:
  assumes "state_ok g q s ranges plans st" and "plan \<in> set plans"
  shows "state_ok g q s ranges plans (plan_step g q semantic s (line_starts s False) ranges plan st)"
proof -
  have "\<forall>r \<in> set (fst (fold (replace_at g q s (line_starts s False) ranges plan) offsets ([], diag))).
      guarded g q s ranges r \<and> planned plans r" for offsets diag
    using fold_replace_at_guarded [of "([], diag)"] planned_mono [OF _ assms(2)] by fastforce
  then have enter: "state_ok g q s ranges plans (fold enter_replacement
      (fst (fold (replace_at g q s (line_starts s False) ranges plan) offsets ([], diag))) (st\<lparr>rs_diag := d\<rparr>))"
    for offsets diag d
    using assms(1) by (intro fold_enter_ok) simp_all
  have realized: "state_ok g q s ranges plans (realize_plan g q s (line_starts s False) ranges plan offsets st)" for offsets
  proof -
    obtain rs diag where run:
      "fold (replace_at g q s (line_starts s False) ranges plan) offsets ([], rs_diag st) = (rs, diag)"
      by (meson surj_pair)
    have "state_ok g q s ranges plans (if c then st\<lparr>rs_diag := d\<rparr> else fold enter_replacement rs (st\<lparr>rs_diag := d'\<rparr>))"
      for c d d'
      using enter [of offsets "rs_diag st" d', unfolded run fst_conv] assms(1)
      by (cases c) (simp_all only: if_True if_False state_ok_diag)
    then show ?thesis
      unfolding realize_plan_def Let_def run prod.case by this
  qed
  show ?thesis
    unfolding plan_step_def Let_def using realized assms(1) by (simp split: option.split)
qed

lemma fold_plan_step_ok:
  "state_ok g q s ranges plans st \<Longrightarrow> set todo \<subseteq> set plans \<Longrightarrow>
     state_ok g q s ranges plans (fold (plan_step g q semantic s (line_starts s False) ranges) todo st)"
  by (induction todo arbitrary: st) (simp_all add: plan_step_ok)

section \<open>The replacements do not overlap\<close>

abbreviation apart :: "rename_replacement list \<Rightarrow> bool" where
  "apart rs \<equiv> sorted_wrt (\<lambda>a b. nr_finish a \<le> nr_start b) rs"

lemma drop_overlapping_apart:
  assumes "apart filtered" and "\<forall>r \<in> set (filtered @ rs). nr_start r \<le> nr_finish r"
    and "\<forall>r \<in> set filtered. nr_finish r \<le> last_end"
  shows "apart (fst (drop_overlapping rs filtered last_end diag))
    \<and> set (fst (drop_overlapping rs filtered last_end diag)) \<subseteq> set (filtered @ rs)"
  using assms
proof (induction rs filtered last_end diag rule: drop_overlapping.induct)
  case (2 r rs filtered last_end diag)
  show ?case
  proof (cases "filtered \<noteq> [] \<and> nr_start r < last_end")
    case True
    then show ?thesis using 2 by (auto simp: Let_def)
  next
    case False
    have ends: "\<forall>a \<in> set filtered. nr_finish a \<le> nr_start r"
      using False 2(5) by (cases filtered) (auto intro: order_trans)
    then have "apart (filtered @ [r])" using 2(3) by (simp add: sorted_wrt_append)
    moreover have "\<forall>a \<in> set (filtered @ [r]). nr_finish a \<le> nr_finish r"
      using ends 2(4) by (auto intro: order_trans)
    ultimately show ?thesis using False 2(2,4) by (auto simp: Let_def)
  qed
qed simp

lemma drop_overlapping_subseq: "subseq (fst (drop_overlapping rs filtered last_end diag)) (filtered @ rs)"
proof (induction rs filtered last_end diag rule: drop_overlapping.induct)
  case (2 r rs filtered last_end diag)
  then show ?case
    by (auto simp: Let_def intro: subseq_order.trans [OF _ subseq_append_iff [THEN iffD2]])
qed simp

lemma sorted_wrt_subseq: "subseq xs ys \<Longrightarrow> sorted_wrt P ys \<Longrightarrow> sorted_wrt P xs"
  by (induction rule: list_emb.induct) (auto dest: list_emb_set)

lemma strict_starts:
  assumes "distinct (map fst by_start)" and "\<forall>(start, r) \<in> set by_start. start = nr_start r"
  shows "sorted_wrt (\<lambda>a b. nr_start a < nr_start b) (sort_key nr_start (map snd by_start))"
proof -
  have "map nr_start (map snd by_start) = map fst by_start" using assms(2) by auto
  then have "distinct (map nr_start (sort_key nr_start (map snd by_start)))"
    using assms(1) by (metis distinct_map distinct_sort set_sort)
  moreover have "sorted (map nr_start (sort_key nr_start (map snd by_start)))" by simp
  ultimately have "sorted_wrt (<) (map nr_start (sort_key nr_start (map snd by_start)))"
    by (rule strict_sorted_iff [THEN iffD2, OF conjI, rotated])
  then show ?thesis by (simp add: sorted_wrt_map)
qed

lemma build_replacements_ok:
  assumes "build_replacements g q semantic s plans ranges diag = (rs, diag')"
  shows "apart rs" and "r \<in> set rs \<Longrightarrow> guarded g q s ranges r \<and> planned plans r"
    and "sorted_wrt (\<lambda>a b. nr_start a < nr_start b) rs"
proof -
  define st where "st = fold (plan_step g q semantic s (line_starts s False) ranges) plans
      \<lparr>rs_by_start = [], rs_conflicts = [], rs_diag = diag\<rparr>"
  define kept where "kept = filter (\<lambda>(start, r). start \<notin> set (rs_conflicts st)) (rs_by_start st)"
  have rs: "rs = fst (drop_overlapping (sort_key nr_start (map snd kept)) [] 0 (rs_diag st))"
    using assms by (simp add: build_replacements_def st_def kept_def Let_def)
  have "state_ok g q s ranges plans \<lparr>rs_by_start = [], rs_conflicts = [], rs_diag = diag\<rparr>"
    by (simp add: state_ok_def)
  then have "state_ok g q s ranges plans st" unfolding st_def by (rule fold_plan_step_ok) simp
  then have kept: "distinct (map fst kept)"
    "\<forall>(start, r) \<in> set kept. start = nr_start r \<and> guarded g q s ranges r \<and> planned plans r"
    by (auto simp: state_ok_def kept_def distinct_map_filter)
  then have ordered: "\<forall>r \<in> set (sort_key nr_start (map snd kept)). nr_start r \<le> nr_finish r"
    by (auto simp: guarded_def)
  note apart = drop_overlapping_apart [of "[]" "sort_key nr_start (map snd kept)" 0 "rs_diag st"]
  show "apart rs" using apart ordered unfolding rs by simp
  show "guarded g q s ranges r \<and> planned plans r" if "r \<in> set rs"
  proof -
    have "r \<in> snd ` set kept" using apart ordered that unfolding rs by auto
    with kept(2) show ?thesis by auto
  qed
  have "subseq rs (sort_key nr_start (map snd kept))"
    using drop_overlapping_subseq [of "sort_key nr_start (map snd kept)" "[]"] unfolding rs by simp
  then show "sorted_wrt (\<lambda>a b. nr_start a < nr_start b) rs"
    using strict_starts [OF kept(1)] kept(2) by (auto intro: sorted_wrt_subseq)
qed

section \<open>Writing from the end is writing everywhere at once\<close>

text \<open>The text with every span exchanged for its new name, read from the left.\<close>

fun exchange :: "rstr \<Rightarrow> nat \<Rightarrow> rename_replacement list \<Rightarrow> rstr" where
  "exchange s pos [] = drop pos s"
| "exchange s pos (r # rs) = slice pos (nr_start r) s @ nr_new_name r @ exchange s (nr_finish r) rs"

text \<open>A non-empty string starts a character.\<close>

definition valid_name :: "rstr \<Rightarrow> bool" where
  "valid_name name \<longleftrightarrow> name \<noteq> [] \<and> is_char_boundary name 0"

definition valid_spans :: "rstr \<Rightarrow> rename_replacement list \<Rightarrow> bool" where
  "valid_spans s rs \<longleftrightarrow>
     apart rs \<and> list_all (\<lambda>r. nr_start r < nr_finish r \<and> nr_finish r \<le> length s \<and> valid_name (nr_new_name r)
       \<and> is_char_boundary s (nr_start r) \<and> is_char_boundary s (nr_finish r)) rs"

lemma is_char_boundary_append:
  "i < length a \<Longrightarrow> is_char_boundary (a @ b) i = is_char_boundary a i"
  "is_char_boundary (a @ b) (length a) \<longleftrightarrow> b = [] \<or> is_char_boundary b 0"
  by (auto simp: is_char_boundary_def nth_append)

lemma exchange_boundary:
  assumes "valid_spans s rs" and "is_char_boundary s pos" and "pos \<le> length s"
    and "\<forall>r \<in> set rs. pos \<le> nr_start r"
  shows "exchange s pos rs = [] \<or> is_char_boundary (exchange s pos rs) 0"
  using assms
proof (cases rs)
  case Nil
  then show ?thesis using assms(2,3) by (auto simp: is_char_boundary_def)
next
  case (Cons r rs')
  have "valid_name (nr_new_name r)" "nr_finish r \<le> length s" "nr_start r < nr_finish r"
    using assms(1) Cons by (auto simp: valid_spans_def)
  then show ?thesis
    using assms(2,4) Cons
    by (cases "pos = nr_start r")
       (auto simp: valid_name_def is_char_boundary_def nth_append slice_def)
qed

lemma foldo_write:
  assumes "valid_spans s rs" and "pos \<le> length s" and "\<forall>r \<in> set rs. pos \<le> nr_start r"
  shows "foldo write_replacement (rev rs) (s, es) = Some (take pos s @ exchange s pos rs, es @ map edit_of (rev rs))"
  using assms
proof (induction rs arbitrary: pos)
  case (Cons r rs)
  have r: "nr_start r < nr_finish r" "nr_finish r \<le> length s" "is_char_boundary s (nr_start r)"
    "is_char_boundary s (nr_finish r)"
    and rs: "valid_spans s rs" and after: "\<forall>a \<in> set rs. nr_finish r \<le> nr_start a"
    using Cons.prems(1) by (auto simp: valid_spans_def)
  let ?out = "take (nr_finish r) s @ exchange s (nr_finish r) rs"
  have IH: "foldo write_replacement (rev rs) (s, es) = Some (?out, es @ map edit_of (rev rs))"
    by (rule Cons.IH [OF rs r(2) after])
  have len: "length (take (nr_finish r) s) = nr_finish r" using r(2) by simp
  have "is_char_boundary ?out (nr_start r)"
    using r by (subst is_char_boundary_append(1)) (auto simp: is_char_boundary_def)
  moreover have "is_char_boundary ?out (nr_finish r)"
    using is_char_boundary_append(2) [of "take (nr_finish r) s"] exchange_boundary [OF rs r(4,2) after]
    unfolding len by blast
  moreover have "take (nr_start r) ?out = take pos s @ slice pos (nr_start r) s"
    using r Cons.prems(2,3) by (simp add: slice_def min_def) (metis le_add_diff_inverse list.set_intros(1) take_add)
  ultimately have "replace_range (nr_start r) (nr_finish r) (nr_new_name r) ?out
      = Some (take pos s @ exchange s pos (r # rs))"
    using r by (simp add: replace_range_def)
  then have "write_replacement r (?out, es @ map edit_of (rev rs))
      = Some (take pos s @ exchange s pos (r # rs), es @ map edit_of (rev (r # rs)))"
    by (simp add: write_replacement_def)
  then show ?case
    by (simp only: rev.simps foldo_append IH option.case foldo.simps)
qed simp

lemma sort_by_descending:
  "sorted_wrt (\<lambda>a b. nr_start a < nr_start b) rs \<Longrightarrow>
     sort_by (\<lambda>left right. nr_start right \<le> nr_start left) rs = rev rs"
proof (induction rs)
  case (Cons r rs)
  have "insert_by (\<lambda>left right. nr_start right \<le> nr_start left) r ys = ys @ [r]"
    if "\<forall>y \<in> set ys. nr_start r < nr_start y" for ys
    using that by (induction ys) auto
  with Cons show ?case by simp
qed simp

section \<open>Comments and strings\<close>

text \<open>
  The query captures a concatenated string and the literals in it, so ranges nest.  A range is
  innermost when no other one starts inside it, or starts with it and is shorter.
\<close>

definition innermost :: "(nat \<times> nat) list \<Rightarrow> nat \<times> nat \<Rightarrow> bool" where
  "innermost ranges rg \<longleftrightarrow>
     \<not> list_ex (\<lambda>(start, finish). fst rg < start \<and> start < snd rg
                              \<or> start = fst rg \<and> finish < snd rg) ranges"

lemma in_non_code_innermost:
  assumes sorted: "sorted (map fst ranges)" and rg: "rg \<in> set ranges" "innermost ranges rg"
    and inside: "fst rg \<le> offset" "offset < snd rg"
  shows "in_non_code ranges offset"
proof -
  let ?gt = "\<lambda>(start, finish). offset < (start :: nat)"
  define b where "b = bs_loop ?gt ranges (length ranges) 0"
  have ne: "ranges \<noteq> []" using rg(1) by auto
  have "sorted_wrt (\<lambda>x y. ?gt x \<longrightarrow> ?gt y) ranges"
    using sorted unfolding sorted_map by (rule sorted_wrt_mono_rel [rotated]) auto
  then have b: "b < length ranges" "b = 0 \<or> \<not> ?gt (ranges ! b)" "\<And>i. i < length ranges \<Longrightarrow> b < i \<Longrightarrow> ?gt (ranges ! i)"
    using bs_loop_spec [of "length ranges" 0 ranges ?gt] ne by (simp_all add: b_def Let_def)
  obtain i where i: "i < length ranges" "ranges ! i = rg" using rg(1) by (auto simp: in_set_conv_nth)
  have "i \<le> b" using b(3) [of i] i inside(1) by (auto simp: not_le [symmetric] case_prod_unfold)
  then have le: "fst rg \<le> fst (ranges ! b)"
    using sorted b(1) i sorted_nth_mono [of "map fst ranges" i b] by simp
  have start: "fst (ranges ! b) \<le> offset"
    using b(2) \<open>i \<le> b\<close> i inside(1) by (auto simp: case_prod_unfold)
  have "ranges ! b \<in> set ranges" using b(1) by simp
  then have "\<not> (fst rg < fst (ranges ! b) \<and> fst (ranges ! b) < snd rg
      \<or> fst (ranges ! b) = fst rg \<and> snd (ranges ! b) < snd rg)"
    using rg(2) by (auto simp: innermost_def list_ex_iff case_prod_unfold)
  then have "offset < snd (ranges ! b)" using le start inside(2) by linarith
  with start ne show ?thesis
    by (simp add: in_non_code_def binary_search_by_def Let_def flip: b_def) (simp add: case_prod_unfold)
qed

section \<open>Properties\<close>

text \<open>
  \<^bold>\<open>C9\<close>: Whatever plans there are, the replacements made of them do not overlap, and each
  exchanges a whole identifier of the text that reads as the old name of a plan for the new name
  of the same plan, outside every innermost comment or string, at a place the semantic guard
  calls safe.
\<close>

theorem replacements_guarded:
  assumes "sorted (map fst ranges)"
  shows "let rs = fst (build_replacements g q semantic s plans ranges diag) in
     sorted_wrt (\<lambda>a b. nr_finish a \<le> nr_start b) rs
     \<and> list_all (\<lambda>r. guarded g q s ranges r \<and> planned plans r
           \<and> list_all (\<lambda>rg. \<not> (fst rg \<le> nr_start r \<and> nr_start r < snd rg))
               (filter (innermost ranges) ranges)) rs"
proof -
  obtain rs diag' where build: "build_replacements g q semantic s plans ranges diag = (rs, diag')"
    by (meson surj_pair)
  note ok = build_replacements_ok [OF build]
  have "\<not> (fst rg \<le> nr_start r \<and> nr_start r < snd rg)"
    if "r \<in> set rs" "rg \<in> set ranges" "innermost ranges rg" for r rg
    using ok(2) [OF that(1)] in_non_code_innermost [OF assms that(2,3)] by (auto simp: guarded_def)
  with ok show ?thesis by (auto simp: build list_all_iff)
qed

text \<open>
  \<^bold>\<open>C10\<close>: When the old names are not empty, writing the replacements one after another from the
  end of the text never panics and gives the text in which all of them are exchanged at once;
  the edits list them from the start of the text.
\<close>

theorem renames_happen_at_once:
  assumes "list_all (\<lambda>p. np_old_name p \<noteq> [] \<and> valid_name (np_new_name p)) plans"
  shows "let rs = fst (build_replacements g q semantic s plans ranges diag) in
     map_option fst (apply_semantic_renames g q semantic s plans ranges diag)
       = Some (exchange s 0 rs, map edit_of rs)"
proof -
  obtain rs diag' where build: "build_replacements g q semantic s plans ranges diag = (rs, diag')"
    by (meson surj_pair)
  note ok = build_replacements_ok [OF build]
  have "nr_start r < nr_finish r \<and> nr_finish r \<le> length s \<and> valid_name (nr_new_name r)
      \<and> is_char_boundary s (nr_start r) \<and> is_char_boundary s (nr_finish r)" if mem: "r \<in> set rs" for r
  proof -
    obtain p where "p \<in> set plans" "np_old_name p = nr_old_name r" "np_new_name p = nr_new_name r"
      using ok(2) [OF mem] by (auto simp: planned_def list_ex_iff)
    then have "nr_old_name r \<noteq> []" "valid_name (nr_new_name r)" using assms by (auto simp: list_all_iff)
    with ok(2) [OF mem] show ?thesis by (auto simp: guarded_def)
  qed
  then have "valid_spans s rs" using ok(1) by (simp add: valid_spans_def list_all_iff)
  then have "foldo write_replacement (rev rs) (s, []) = Some (exchange s 0 rs, map edit_of (rev rs))"
    using foldo_write [of s rs 0 "[]"] by simp
  then show ?thesis
    by (simp add: apply_semantic_renames_def build sort_by_descending [OF ok(3)] rev_map)
qed

section \<open>Concrete renames\<close>

abbreviation no_query :: semantic_context_query where
  "no_query \<equiv> from_semantic sample_grammar None"

definition quiet :: rename_diagnostics where
  "quiet = \<lparr>rd_warnings = [], rd_strict_issues = strict_issues_new False\<rparr>"

definition plan_of :: "rstr \<Rightarrow> rstr \<Rightarrow> nat \<Rightarrow> rename_plan" where
  "plan_of old_name new_name line =
     \<lparr>np_old_name = old_name, np_new_name = new_name, np_line = line, np_column = 1, np_kind = 9,
      np_minimum_required_occurrences = 0, np_expected_occurrences = 0, np_stable_id = None\<rparr>"

lemma replacements_guarded_witness:
  "let rs = fst (build_replacements sample_grammar no_query (empty_context []) ''aB = aB; // aB''
                   [plan_of ''aB'' ''a_b'' 1] [(9, 14)] quiet) in
     sorted_wrt (\<lambda>a b. nr_finish a \<le> nr_start b) rs
     \<and> list_all (\<lambda>r. guarded sample_grammar no_query ''aB = aB; // aB'' [(9, 14)] r
           \<and> planned [plan_of ''aB'' ''a_b'' 1] r
           \<and> list_all (\<lambda>rg. \<not> (fst rg \<le> nr_start r \<and> nr_start r < snd rg))
               (filter (innermost [(9, 14)]) [(9, 14)])) rs"
  by (rule replacements_guarded) simp

lemma renames_happen_at_once_witness:
  "let rs = fst (build_replacements sample_grammar no_query (empty_context []) ''aB = aB; // aB''
                   [plan_of ''aB'' ''a_b'' 1] [(9, 14)] quiet) in
     map_option fst (apply_semantic_renames sample_grammar no_query (empty_context []) ''aB = aB; // aB''
                   [plan_of ''aB'' ''a_b'' 1] [(9, 14)] quiet)
       = Some (exchange ''aB = aB; // aB'' 0 rs, map edit_of rs)"
  by (rule renames_happen_at_once) (simp add: plan_of_def valid_name_def is_char_boundary_def)

text \<open>
  Two plans that disagree on one occurrence lose that occurrence only: what else they rename is
  renamed, and the text is left with the old and the new name of one identifier.
\<close>

definition disputed :: semantic_file_context where
  "disputed = (empty_context [])
     \<lparr>fcx_declarations :=
        [\<lparr>sd_stable_id = [], sd_provenance = Usr, sd_name = ''aB'', sd_kind = 9, sd_line = 1, sd_column = 1,
          sd_usr = None, sd_scope_usr = None, sd_canonical_type_kind = 0, sd_is_definition = True,
          sd_is_anonymous = False, sd_lexical_parent_usr = None, sd_pointee_type_kind = None,
          sd_storage_class = 0, sd_is_const_qualified = False, sd_is_volatile_qualified = False,
          sd_template_base_name = None, sd_num_template_args = 0, sd_type_spelling = None,
          sd_semantic_parent_kind = 0\<rparr>],
      fcx_declarations_by_line := [1 \<mapsto> [0]],
      fcx_rename_offsets := [\<lparr>sk_name = ''aB'', sk_kind = 9, sk_line = 1\<rparr> \<mapsto> [0]]\<rparr>"

lemma plan_step_plain:
  "plan_step g q semantic s starts ranges (plan_of old_name new_name line) st =
     (let clang = rename_offsets semantic old_name line [9];
          offsets = (if clang = []
                     then filter (\<lambda>offset. has_identifier_boundaries s offset (offset + length old_name))
                            (subslice_match_indices s old_name)
                     else clang)
      in if offsets = []
         then st\<lparr>rs_diag := note_issue
                (''no semantic references found for '' @ quoted old_name @ '' on line '' @ nat_to_string line)
                (''missing semantic references for '' @ quoted old_name @ '' on line '' @ nat_to_string line)
                (rs_diag st)\<rparr>
         else realize_plan g q s starts ranges (plan_of old_name new_name line) offsets st)"
  by (simp add: plan_step_def plan_offsets_def base_offsets_def plan_of_def cx_cursor_field_decl_def Let_def)

lemma conflict_renames_partially:
  "map_option (fst \<circ> fst)
     (apply_semantic_renames sample_grammar no_query disputed ''aB; aB;''
        [plan_of ''aB'' ''x_b'' 1, plan_of ''aB'' ''y_b'' 2] [] quiet) = Some ''aB; y_b;''"
  unfolding apply_semantic_renames_def build_replacements_def Let_def fold_simps plan_step_plain
  by code_simp

end
