(* ===== verification/Naming_Case.thy ===== *)
theory Naming_Case
  imports Text_Scan
begin

text \<open>
  The names the naming policy accepts and suggests: the vectorised byte classes of
  \<^verbatim>\<open>src/src/parser/simd_classify.rs\<close>, snake case in \<^verbatim>\<open>policy/naming_conventions/case_utils.rs\<close>,
  the stacked prefixes of \<^verbatim>\<open>policy/naming_conventions/prefix.rs\<close> and the name suggested from
  both in \<^verbatim>\<open>policy/naming_conventions/mod.rs\<close>.
\<close>

section \<open>Byte classes on vectors\<close>

text \<open>\<open>_mm_sub_epi8\<close>, \<open>_mm_min_epu8\<close>, and the NEON comparison \<open>vcleq_u8\<close>.\<close>

definition vsub :: "byte list \<Rightarrow> byte list \<Rightarrow> byte list" where
  "vsub a b = map2 (-) a b"

definition vmin :: "byte list \<Rightarrow> byte list \<Rightarrow> byte list" where
  "vmin a b = map2 min a b"

definition cmple :: "byte list \<Rightarrow> byte list \<Rightarrow> byte list" where
  "cmple a b = map2 (\<lambda>x y. if x \<le> y then 0xFF else 0) a b"

definition byte_in :: "byte \<Rightarrow> byte \<Rightarrow> byte \<Rightarrow> bool" where
  "byte_in low high b \<longleftrightarrow> low \<le> b \<and> b \<le> high"

abbreviation upper_byte :: "byte \<Rightarrow> bool" where
  "upper_byte \<equiv> byte_in 0x41 0x5A"

text \<open>A letter from \<open>first\<close> on, a digit or an underscore: the scalar test of the remainders.\<close>

definition case_byte :: "byte \<Rightarrow> byte \<Rightarrow> bool" where
  "case_byte first b \<longleftrightarrow> byte_in first (first + 25) b \<or> byte_in 0x30 0x39 b \<or> b = 0x5F"

definition in_range_x86 :: "byte \<Rightarrow> byte \<Rightarrow> byte list \<Rightarrow> byte list" where
  "in_range_x86 low width v =
     (let shifted = vsub v (set1 low) in cmpeq (vmin shifted (set1 width)) shifted)"

definition in_range_neon :: "byte \<Rightarrow> byte \<Rightarrow> byte list \<Rightarrow> byte list" where
  "in_range_neon low width v = cmple (vsub v (set1 low)) (set1 width)"

definition case_chunk_x86 :: "byte \<Rightarrow> byte list \<Rightarrow> nat \<Rightarrow> bool" where
  "case_chunk_x86 first bytes offset \<longleftrightarrow>
     (let v = load bytes offset;
          is_letter = in_range_x86 first 25 v;
          is_digit = in_range_x86 0x30 9 v;
          is_under = cmpeq v (set1 0x5F);
          valid = vor (vor is_letter is_digit) is_under
      in movemask valid = 0xFFFF)"

text \<open>Eight lanes as one word, lane 0 in the low byte: \<open>vreinterpretq_u64_u8\<close>.\<close>

definition u64_of_lanes :: "byte list \<Rightarrow> u64" where
  "u64_of_lanes bs = foldr (\<lambda>b acc. ucast b OR push_bit 8 acc) bs 0"

definition case_chunk_neon :: "byte \<Rightarrow> byte list \<Rightarrow> nat \<Rightarrow> bool" where
  "case_chunk_neon first bytes offset \<longleftrightarrow>
     (let v = load bytes offset;
          is_letter = in_range_neon first 25 v;
          is_digit = in_range_neon 0x30 9 v;
          is_under = cmpeq v (set1 0x5F);
          valid = vor (vor is_letter is_digit) is_under
      in \<not> (u64_of_lanes (take 8 valid) \<noteq> - 1 \<or> u64_of_lanes (drop 8 valid) \<noteq> - 1))"

text \<open>Whole chunks of 16 bytes, then the remainder byte by byte.\<close>

definition case_bytes :: "(nat \<Rightarrow> bool) \<Rightarrow> byte \<Rightarrow> byte list \<Rightarrow> bool" where
  "case_bytes chunk_ok first bytes =
     (let chunks = length bytes div 16
      in case chunk_loop 16 chunk_ok (chunks * 16) 0 of
           None \<Rightarrow> False
         | Some offset \<Rightarrow> list_all (case_byte first) (drop (chunks * 16) bytes))"

definition is_snake_case_bytes :: "arch \<Rightarrow> byte list \<Rightarrow> bool" where
  "is_snake_case_bytes arch bytes =
     (case arch of
        Aarch64 \<Rightarrow> case_bytes (case_chunk_neon 0x61 bytes) 0x61 bytes
      | X86_64 \<Rightarrow> case_bytes (case_chunk_x86 0x61 bytes) 0x61 bytes
      | Other_arch \<Rightarrow> list_all (case_byte 0x61) bytes)"

definition is_upper_snake_case_bytes :: "arch \<Rightarrow> byte list \<Rightarrow> bool" where
  "is_upper_snake_case_bytes arch bytes =
     (case arch of
        Aarch64 \<Rightarrow> case_bytes (case_chunk_neon 0x41 bytes) 0x41 bytes
      | X86_64 \<Rightarrow> case_bytes (case_chunk_x86 0x41 bytes) 0x41 bytes
      | Other_arch \<Rightarrow> list_all (case_byte 0x41) bytes)"

section \<open>Positions of the upper case letters\<close>

text \<open>\<open>while mask != 0\<close>: the lowest set bit is taken and cleared.\<close>

function mask_bits :: "u32 \<Rightarrow> nat list" where
  "mask_bits w = (if w = 0 then [] else trailing_zeros w # mask_bits (w AND (w - 1)))"
  by pat_completeness auto
termination
proof (relation "measure unat")
  fix w :: u32
  assume "w \<noteq> 0"
  then have "unat (w - 1) < unat w" by (simp add: unat_minus_one word_gt_0 unat_gt_0)
  moreover have "unat (w AND (w - 1)) \<le> unat (w - 1)" by (simp add: word_le_nat_alt [symmetric] word_and_le1)
  ultimately show "(w AND (w - 1), w) \<in> measure unat" by simp
qed simp

declare mask_bits.simps [simp del]

definition upper_chunk_x86 :: "byte list \<Rightarrow> nat \<Rightarrow> nat list" where
  "upper_chunk_x86 bytes offset =
     map (\<lambda>b. offset + b) (mask_bits (movemask (in_range_x86 0x41 25 (load bytes offset))))"

text \<open>\<open>(mask >> (bit * 8)) & 0xFF != 0\<close> for each of the eight bits.\<close>

definition set_lanes :: "u64 \<Rightarrow> nat list" where
  "set_lanes w = (if w \<noteq> 0 then filter (\<lambda>b. drop_bit (b * 8) w AND 0xFF \<noteq> 0) [0 ..< 8] else [])"

definition upper_chunk_neon :: "byte list \<Rightarrow> nat \<Rightarrow> nat list" where
  "upper_chunk_neon bytes offset =
     (let is_upper = in_range_neon 0x41 25 (load bytes offset)
      in map (\<lambda>b. offset + b) (set_lanes (u64_of_lanes (take 8 is_upper)))
         @ map (\<lambda>b. offset + 8 + b) (set_lanes (u64_of_lanes (drop 8 is_upper))))"

definition upper_from :: "byte list \<Rightarrow> nat \<Rightarrow> nat list" where
  "upper_from bytes start = filter (\<lambda>i. upper_byte (bytes ! i)) [start ..< length bytes]"

definition upper_by_chunks :: "(nat \<Rightarrow> nat list) \<Rightarrow> byte list \<Rightarrow> nat list" where
  "upper_by_chunks chunk bytes =
     (let chunks = length bytes div 16
      in concat (map (\<lambda>c. chunk (c * 16)) [0 ..< chunks]) @ upper_from bytes (chunks * 16))"

definition find_uppercase_positions :: "arch \<Rightarrow> byte list \<Rightarrow> nat list" where
  "find_uppercase_positions arch bytes =
     (case arch of
        Aarch64 \<Rightarrow> upper_by_chunks (upper_chunk_neon bytes) bytes
      | X86_64 \<Rightarrow> upper_by_chunks (upper_chunk_x86 bytes) bytes
      | Other_arch \<Rightarrow> upper_from bytes 0)"

section \<open>The vector code is the byte loop\<close>

lemma upt_split: "i \<le> k \<Longrightarrow> k \<le> j \<Longrightarrow> [i ..< j] = [i ..< k] @ [k ..< j]"
  by (metis le_add_diff_inverse upt_add_eq_append)

lemma filter_upt_cong:
  "(\<And>k. i \<le> k \<Longrightarrow> k < j \<Longrightarrow> P k = Q k) \<Longrightarrow> filter P [i ..< j] = filter Q [i ..< j]"
  by (rule filter_cong) simp_all

lemma sub_le_range:
  fixes x low width :: byte
  assumes "unat low + unat width < 256"
  shows "x - low \<le> width \<longleftrightarrow> byte_in low (low + width) x"
proof (cases "low \<le> x")
  case True
  then have "unat (x - low) = unat x - unat low" by (rule unat_sub)
  moreover have "unat (low + width) = unat low + unat width" using assms by (simp add: unat_add_lem [THEN iffD1])
  ultimately show ?thesis using True by (auto simp: byte_in_def word_le_nat_alt)
next
  case False
  then have "unat x < unat low" by (simp add: word_le_nat_alt)
  then have "unat (x - low) = 256 + unat x - unat low"
    using unsigned_less [of low, where ?'a = nat] by (simp add: unat_sub_if_size word_size)
  then have "\<not> x - low \<le> width" using assms \<open>unat x < unat low\<close> by (simp add: word_le_nat_alt)
  with False show ?thesis by (simp add: byte_in_def)
qed

lemma in_range_lanes:
  assumes "unat low + unat width < 256" and "length v = 16"
  shows "in_range_x86 low width v = map lane (map (byte_in low (low + width)) v)"
    and "in_range_neon low width v = map lane (map (byte_in low (low + width)) v)"
proof -
  have "min (x - low) width = x - low \<longleftrightarrow> byte_in low (low + width) x" for x :: byte
    using sub_le_range [OF assms(1), of x] by (auto simp: min_def)
  then show "in_range_x86 low width v = map lane (map (byte_in low (low + width)) v)"
    using assms(2)
    by (auto simp: in_range_x86_def vsub_def vmin_def cmpeq_def set1_def lane_def Let_def list_eq_iff_nth_eq)
  show "in_range_neon low width v = map lane (map (byte_in low (low + width)) v)"
    using assms(2) sub_le_range [OF assms(1)]
    by (auto simp: in_range_neon_def vsub_def cmple_def set1_def lane_def list_eq_iff_nth_eq)
qed

lemma bit_u64_of_lanes:
  "bit (u64_of_lanes bs) n \<longleftrightarrow> n < 64 \<and> n div 8 < length bs \<and> bit (bs ! (n div 8)) (n mod 8)"
proof (induction bs arbitrary: n)
  case Nil
  then show ?case by (simp add: u64_of_lanes_def)
next
  case (Cons b bs)
  have step: "u64_of_lanes (b # bs) = ucast b OR push_bit 8 (u64_of_lanes bs)"
    by (simp add: u64_of_lanes_def)
  show ?case
  proof (cases "n < 8")
    case True
    then show ?thesis by (simp add: step bit_simps)
  next
    case False
    then have "n div 8 = Suc ((n - 8) div 8)" "n mod 8 = (n - 8) mod 8"
      by (simp_all add: le_div_geq le_mod_geq)
    moreover have "\<not> bit b n" using False by (auto dest: bit_imp_le_length)
    ultimately show ?thesis using False by (auto simp: step bit_simps Cons.IH)
  qed
qed

lemma lanes_full:
  assumes "length p = 8"
  shows "u64_of_lanes (map lane p) = - 1 \<longleftrightarrow> list_all id p"
proof
  assume full: "u64_of_lanes (map lane p) = - 1"
  have "p ! i" if "i < 8" for i
  proof -
    have "bit (u64_of_lanes (map lane p)) (i * 8)" using that by (simp add: full)
    with that assms show ?thesis by (auto simp: bit_u64_of_lanes lane_def split: if_splits)
  qed
  with assms show "list_all id p" by (simp add: list_all_length)
next
  assume "list_all id p"
  then have p: "\<And>i. i < 8 \<Longrightarrow> p ! i" using assms by (simp add: list_all_length)
  have ff: "bit (0xFF :: byte) k" if "k < 8" for k
  proof -
    have "(0xFF :: byte) = - 1" by simp
    with that show ?thesis by (simp only: bit_minus_1_iff) simp
  qed
  show "u64_of_lanes (map lane p) = - 1"
    using assms p ff by (intro bit_word_eqI) (auto simp: bit_u64_of_lanes lane_def)
qed

lemma word_some_bit:
  fixes w :: "'a :: len word"
  assumes "w \<noteq> 0"
  obtains n where "bit w n"
proof -
  have "\<exists>n. bit w n"
  proof (rule ccontr)
    assume "\<nexists>n. bit w n"
    then have "w = 0" by (intro bit_word_eqI) simp
    with assms show False by simp
  qed
  with that show ?thesis by blast
qed

lemma set_lanes_eq:
  assumes "length p = 8"
  shows "set_lanes (u64_of_lanes (map lane p)) = filter (\<lambda>i. p ! i) [0 ..< 8]"
proof -
  let ?w = "u64_of_lanes (map lane p)"
  have lane_bits: "drop_bit (i * 8) ?w AND 0xFF \<noteq> 0 \<longleftrightarrow> p ! i" if "i < 8" for i
  proof
    assume "p ! i"
    then have "bit ?w (i * 8)" using that assms by (simp add: bit_u64_of_lanes lane_def)
    then have "bit (drop_bit (i * 8) ?w AND 0xFF) 0" by (simp add: bit_simps)
    then show "drop_bit (i * 8) ?w AND 0xFF \<noteq> 0" by auto
  next
    assume "drop_bit (i * 8) ?w AND 0xFF \<noteq> 0"
    then obtain k where k: "bit (drop_bit (i * 8) ?w AND 0xFF) k" by (rule word_some_bit)
    have "(0xFF :: u64) = mask 8" by (simp add: mask_eq_exp_minus_1)
    with k have "k < 8" "bit ?w (i * 8 + k)" by (auto simp: bit_simps)
    then show "p ! i" using assms by (auto simp: bit_u64_of_lanes lane_def split: if_splits)
  qed
  have "?w = 0 \<Longrightarrow> filter (\<lambda>i. p ! i) [0 ..< 8] = []"
    using lane_bits by (auto simp: filter_empty_conv)
  moreover have "filter (\<lambda>b. drop_bit (b * 8) ?w AND 0xFF \<noteq> 0) [0 ..< 8] = filter (\<lambda>i. p ! i) [0 ..< 8]"
    by (rule filter_upt_cong) (rule lane_bits)
  ultimately show ?thesis by (simp add: set_lanes_def)
qed

text \<open>Clearing the lowest set bit.\<close>

lemma trailing_zeros_spec:
  assumes "w \<noteq> 0"
  shows "bit w (trailing_zeros w)" and "k < trailing_zeros w \<Longrightarrow> \<not> bit w k"
proof -
  obtain n where "bit w n" using assms by (rule word_some_bit)
  then have "n < 32" using bit_imp_le_length [of w n] by simp
  let ?p = "map (\<lambda>i. \<not> bit w i) [0 ..< 32]"
  have "\<not> list_all id ?p" using \<open>bit w n\<close> \<open>n < 32\<close> by (auto simp: list_all_length)
  from first_false [OF _ this, of 32] have
    f: "length (takeWhile id ?p) < 32" "\<not> ?p ! length (takeWhile id ?p)"
    "\<And>k. k < length (takeWhile id ?p) \<Longrightarrow> ?p ! k" by auto
  have t: "trailing_zeros w = length (takeWhile id ?p)"
    by (simp add: trailing_zeros_def takeWhile_map comp_def)
  show "bit w (trailing_zeros w)" using f(1,2) by (simp add: t)
  show "\<not> bit w k" if "k < trailing_zeros w"
    using f(3) [of k] f(1) that by (simp add: t)
qed

lemma clear_lowest_bit:
  fixes w :: u32
  assumes "w \<noteq> 0"
  shows "bit (w AND (w - 1)) k \<longleftrightarrow> bit w k \<and> k \<noteq> trailing_zeros w"
proof -
  define t where "t = trailing_zeros w"
  define h where "h = w AND NOT (mask (Suc t))"
  note low = trailing_zeros_spec [OF assms, folded t_def]
  have t: "t < 32" using bit_imp_le_length [OF low(1)] by simp
  have h: "bit h i \<longleftrightarrow> bit w i \<and> t < i" for i
    using bit_imp_le_length [of w i] by (auto simp: h_def bit_simps)
  have "w = h OR push_bit t 1"
    using low t by (intro bit_word_eqI) (auto simp: h bit_simps, metis linorder_neqE_nat)
  also have "\<dots> = h + push_bit t 1"
    by (rule disjunctive_add_eq_or [symmetric], intro bit_word_eqI) (auto simp: h bit_simps)
  finally have "w - 1 = h + mask t"
    by (simp add: mask_eq_exp_minus_1 push_bit_eq_mult)
  also have "\<dots> = h OR mask t"
    by (rule disjunctive_add_eq_or, intro bit_word_eqI) (auto simp: h bit_simps)
  finally have "w - 1 = h OR mask t" .
  then show ?thesis
    using low(2) bit_imp_le_length [of w k] by (auto simp: h bit_simps t_def [symmetric])
qed

lemma mask_bits_eq: "mask_bits w = filter (bit w) [0 ..< 32]"
proof (induction w rule: mask_bits.induct)
  case (1 w)
  show ?case
  proof (cases "w = 0")
    case True
    then show ?thesis by (simp add: mask_bits.simps)
  next
    case False
    let ?t = "trailing_zeros w"
    have t: "bit w ?t" "?t < 32" "\<And>k. k < ?t \<Longrightarrow> \<not> bit w k"
      using trailing_zeros_spec [OF False] bit_imp_le_length [of w ?t] by auto
    have split: "[0 ..< 32] = [0 ..< ?t] @ ?t # [Suc ?t ..< 32]"
      using t(2) upt_split [of 0 ?t 32] upt_conv_Cons [of ?t 32] by simp
    have "filter (bit w) [0 ..< 32] = ?t # filter (bit w) [Suc ?t ..< 32]"
      unfolding split using t by (auto simp: filter_empty_conv)
    moreover have "filter (bit (w AND (w - 1))) [Suc ?t ..< 32] = filter (bit w) [Suc ?t ..< 32]"
      by (rule filter_upt_cong) (simp add: clear_lowest_bit [OF False])
    then have "filter (bit (w AND (w - 1))) [0 ..< 32] = filter (bit w) [Suc ?t ..< 32]"
      unfolding split using t by (auto simp: clear_lowest_bit [OF False] filter_empty_conv)
    ultimately show ?thesis using "1.IH" False by (simp add: mask_bits.simps [of w])
  qed
qed

section \<open>Chunks and remainder\<close>

lemma load_lanes:
  assumes "offset + 16 \<le> length bytes"
  shows "length (map P (load bytes offset)) = 16"
    and "k < 16 \<Longrightarrow> map P (load bytes offset) ! k = P (bytes ! (offset + k))"
  using assms by (simp_all add: length_load load_nth)

lemma case_lanes:
  assumes "offset + 16 \<le> length bytes" and "unat first + 25 < 256"
  shows "vor (vor (map lane (map (byte_in first (first + 25)) (load bytes offset)))
                  (map lane (map (byte_in 0x30 0x39) (load bytes offset))))
             (cmpeq (load bytes offset) (set1 0x5F))
       = map lane (map (case_byte first) (load bytes offset))"
  using assms(1)
  by (auto simp: cmpeq_lane vor_lane list_eq_iff_nth_eq length_load length_set1 set1_nth case_byte_def
      simp del: map_map)

lemma case_chunks:
  assumes "offset + 16 \<le> length bytes" and "first \<in> {0x41, 0x61}"
  shows "case_chunk_x86 first bytes offset \<longleftrightarrow> (\<forall>k < 16. case_byte first (bytes ! (offset + k)))"
    and "case_chunk_neon first bytes offset \<longleftrightarrow> (\<forall>k < 16. case_byte first (bytes ! (offset + k)))"
proof -
  let ?v = "load bytes offset"
  have len: "length ?v = 16" using assms(1) by (rule length_load)
  have first: "unat first + unat (25 :: byte) < 256" "unat first + 25 < 256" using assms(2) by auto
  have digit: "unat (0x30 :: byte) + unat (9 :: byte) < 256" "(0x30 :: byte) + 9 = 0x39" by simp_all
  note lanes = case_lanes [OF assms(1) first(2)]
  have all: "list_all id (map (case_byte first) ?v) \<longleftrightarrow> (\<forall>k < 16. case_byte first (bytes ! (offset + k)))"
    using assms(1) len by (simp add: list_all_length load_nth)
  show "case_chunk_x86 first bytes offset \<longleftrightarrow> (\<forall>k < 16. case_byte first (bytes ! (offset + k)))"
    unfolding case_chunk_x86_def Let_def in_range_lanes(1) [OF first(1) len] in_range_lanes(1) [OF digit(1) len]
      digit(2) lanes using len all by (simp only: movemask_lane length_map)
  have split: "list_all id (map (case_byte first) ?v)
      \<longleftrightarrow> list_all id (take 8 (map (case_byte first) ?v)) \<and> list_all id (drop 8 (map (case_byte first) ?v))"
    by (metis append_take_drop_id list_all_append)
  show "case_chunk_neon first bytes offset \<longleftrightarrow> (\<forall>k < 16. case_byte first (bytes ! (offset + k)))"
    unfolding case_chunk_neon_def Let_def in_range_lanes(2) [OF first(1) len] in_range_lanes(2) [OF digit(1) len]
      digit(2) lanes take_map [of 8 lane] drop_map [of 8 lane]
    using len all split by (simp add: lanes_full del: map_map)
qed

lemma case_bytes_eq:
  assumes "\<And>offset. offset + 16 \<le> length bytes \<Longrightarrow>
      chunk_ok offset \<longleftrightarrow> (\<forall>k < 16. case_byte first (bytes ! (offset + k)))"
  shows "case_bytes chunk_ok first bytes \<longleftrightarrow> list_all (case_byte first) bytes"
proof -
  let ?n = "length bytes div 16 * 16"
  have n: "?n \<le> length bytes" by simp
  have "chunk_loop 16 chunk_ok ?n 0 = (if \<forall>j \<in> {0 ..< ?n}. case_byte first (bytes ! j) then Some ?n else None)"
    by (rule chunk_loop_spec) (use assms n in \<open>auto simp: ball_one_chunk\<close>)
  moreover have "list_all (case_byte first) bytes \<longleftrightarrow>
      (\<forall>j \<in> {0 ..< ?n}. case_byte first (bytes ! j)) \<and> (\<forall>j \<in> {?n ..< length bytes}. case_byte first (bytes ! j))"
    using n by (auto simp: list_all_length)
  ultimately show ?thesis by (auto simp: case_bytes_def Let_def all_nth_tail [OF n])
qed

lemma upper_chunks:
  assumes "offset + 16 \<le> length bytes"
  shows "upper_chunk_x86 bytes offset = filter (\<lambda>i. upper_byte (bytes ! i)) [offset ..< offset + 16]"
    and "upper_chunk_neon bytes offset = filter (\<lambda>i. upper_byte (bytes ! i)) [offset ..< offset + 16]"
proof -
  let ?p = "map upper_byte (load bytes offset)"
  have len: "length (load bytes offset) = 16" "length ?p = 16" using assms by (simp_all add: length_load)
  have p: "?p ! k = upper_byte (bytes ! (offset + k))" if "k < 16" for k
    using that assms by (simp add: load_nth length_load)
  have upper: "unat (0x41 :: byte) + unat (25 :: byte) < 256" "(0x41 :: byte) + 25 = 0x5A" by simp_all
  have shift: "map (\<lambda>b. offset + a + b) (filter (\<lambda>k. upper_byte (bytes ! (offset + a + k))) [0 ..< n])
      = filter (\<lambda>i. upper_byte (bytes ! i)) [offset + a ..< offset + a + n]" for a n
    by (simp add: filter_map comp_def map_add_upt [symmetric] add.commute)
  have low: "filter (bit (movemask (map lane ?p))) [0 ..< 32] = filter (\<lambda>k. upper_byte (bytes ! (offset + k))) [0 ..< 16]"
  proof -
    have split: "[0 ..< 32] = [0 ..< 16] @ [16 ..< 32 :: nat]" by (rule upt_split) simp_all
    have "filter (bit (movemask (map lane ?p))) [0 ..< 16] = filter (\<lambda>k. upper_byte (bytes ! (offset + k))) [0 ..< 16]"
      by (rule filter_upt_cong) (use len(2) p in \<open>simp add: bit_movemask_lane del: map_map\<close>)
    moreover have "filter (bit (movemask (map lane ?p))) [16 ..< 32] = []"
      using len(2) by (simp add: bit_movemask_lane filter_empty_conv del: map_map)
    ultimately show ?thesis unfolding split by (simp del: map_map)
  qed
  show "upper_chunk_x86 bytes offset = filter (\<lambda>i. upper_byte (bytes ! i)) [offset ..< offset + 16]"
    unfolding upper_chunk_x86_def in_range_lanes(1) [OF upper(1) len(1)] upper(2) mask_bits_eq low
    using shift [of 0 16] by simp
  have halves: "filter (\<lambda>i. take 8 ?p ! i) [0 ..< 8] = filter (\<lambda>k. upper_byte (bytes ! (offset + 0 + k))) [0 ..< 8]"
    "filter (\<lambda>i. drop 8 ?p ! i) [0 ..< 8] = filter (\<lambda>k. upper_byte (bytes ! (offset + 8 + k))) [0 ..< 8]"
    using len p by (auto simp: add.assoc intro!: filter_upt_cong)
  have low_half: "set_lanes (u64_of_lanes (map lane (take 8 ?p))) = filter (\<lambda>k. upper_byte (bytes ! (offset + 0 + k))) [0 ..< 8]"
    by (subst set_lanes_eq) (use len in simp, rule halves(1))
  have high_half: "set_lanes (u64_of_lanes (map lane (drop 8 ?p))) = filter (\<lambda>k. upper_byte (bytes ! (offset + 8 + k))) [0 ..< 8]"
    by (subst set_lanes_eq) (use len in simp, rule halves(2))
  have whole: "[offset ..< offset + 16] = [offset + 0 ..< offset + 0 + 8] @ [offset + 8 ..< offset + 8 + 8]"
    using upt_split [of offset "offset + 8" "offset + 16"] by (simp add: add.commute)
  show "upper_chunk_neon bytes offset = filter (\<lambda>i. upper_byte (bytes ! i)) [offset ..< offset + 16]"
    unfolding upper_chunk_neon_def Let_def in_range_lanes(2) [OF upper(1) len(1)] upper(2)
      take_map [of 8 lane] drop_map [of 8 lane] low_half high_half whole filter_append
    using shift [of 0 8] shift [of 8 8] by simp
qed

lemma upper_by_chunks_eq:
  assumes "\<And>offset. offset + 16 \<le> length bytes \<Longrightarrow>
      chunk offset = filter (\<lambda>i. upper_byte (bytes ! i)) [offset ..< offset + 16]"
  shows "upper_by_chunks chunk bytes = upper_from bytes 0"
proof -
  have "concat (map (\<lambda>c. chunk (c * 16)) [0 ..< n]) = filter (\<lambda>i. upper_byte (bytes ! i)) [0 ..< n * 16]"
    if "n * 16 \<le> length bytes" for n
    using that
  proof (induction n)
    case (Suc n)
    have "[0 ..< Suc n * 16] = [0 ..< n * 16] @ [n * 16 ..< n * 16 + 16]"
      using upt_split [of 0 "n * 16" "Suc n * 16"] by (simp add: add.commute)
    with Suc assms [of "n * 16"] show ?case by simp
  qed simp
  then have "concat (map (\<lambda>c. chunk (c * 16)) [0 ..< length bytes div 16])
      = filter (\<lambda>i. upper_byte (bytes ! i)) [0 ..< length bytes div 16 * 16]" by simp
  moreover have "[0 ..< length bytes] = [0 ..< length bytes div 16 * 16] @ [length bytes div 16 * 16 ..< length bytes]"
    by (metis div_times_less_eq_dividend le_add_diff_inverse upt_add_eq_append zero_le)
  ultimately show ?thesis by (simp add: upper_by_chunks_def upper_from_def Let_def)
qed

lemma case_paths_agree:
  "is_snake_case_bytes arch bytes \<longleftrightarrow> list_all (case_byte 0x61) bytes"
  "is_upper_snake_case_bytes arch bytes \<longleftrightarrow> list_all (case_byte 0x41) bytes"
  "find_uppercase_positions arch bytes = upper_from bytes 0"
  by (simp_all add: is_snake_case_bytes_def is_upper_snake_case_bytes_def find_uppercase_positions_def
      case_bytes_eq case_chunks upper_by_chunks_eq upper_chunks split: arch.split)

section \<open>Snake case\<close>

definition is_ascii_lowercase :: "char \<Rightarrow> bool" where
  "is_ascii_lowercase c \<longleftrightarrow> CHR ''a'' \<le> c \<and> c \<le> CHR ''z''"

definition is_snake_case :: "rstr \<Rightarrow> bool" where
  "is_snake_case name =
     (case name of
        [] \<Rightarrow> True
      | c # rest \<Rightarrow>
          if \<not> (is_ascii_lowercase c \<or> c = CHR ''_'') then False
          else is_snake_case_bytes target_arch (as_bytes rest))"

definition is_upper_snake_case :: "rstr \<Rightarrow> bool" where
  "is_upper_snake_case name =
     (if name = [] then False
      else if \<not> is_upper_snake_case_bytes target_arch (as_bytes name) then False
      else list_ex is_ascii_alphabetic name)"

definition is_cpp_keyword :: "rstr \<Rightarrow> bool" where
  "is_cpp_keyword name \<longleftrightarrow>
     name \<in> set [''alignas'', ''alignof'', ''and'', ''and_eq'', ''asm'', ''auto'', ''bitand'', ''bitor'', ''bool'',
       ''break'', ''case'', ''catch'', ''char'', ''char8_t'', ''char16_t'', ''char32_t'', ''class'', ''co_await'',
       ''co_return'', ''co_yield'', ''compl'', ''concept'', ''const'', ''const_cast'', ''consteval'', ''constexpr'',
       ''constinit'', ''continue'', ''decltype'', ''default'', ''delete'', ''do'', ''double'', ''dynamic_cast'',
       ''else'', ''enum'', ''explicit'', ''export'', ''extern'', ''false'', ''final'', ''float'', ''for'', ''friend'',
       ''goto'', ''if'', ''inline'', ''int'', ''long'', ''mutable'', ''namespace'', ''new'', ''noexcept'', ''not'',
       ''not_eq'', ''nullptr'', ''operator'', ''or'', ''or_eq'', ''override'', ''private'', ''protected'', ''public'',
       ''register'', ''reinterpret_cast'', ''requires'', ''return'', ''short'', ''signed'', ''sizeof'', ''static'',
       ''static_assert'', ''static_cast'', ''struct'', ''switch'', ''template'', ''this'', ''thread_local'',
       ''throw'', ''true'', ''try'', ''typedef'', ''typeid'', ''typename'', ''union'', ''unsigned'', ''using'',
       ''virtual'', ''void'', ''volatile'', ''wchar_t'', ''while'', ''xor'', ''xor_eq'']"

definition is_constant_like_identifier :: "rstr \<Rightarrow> bool" where
  "is_constant_like_identifier name =
     (if is_upper_snake_case name then True
      else case strip_prefix name ''C_'' of
        Some rest \<Rightarrow> rest \<noteq> [] \<and> is_upper_snake_case rest
      | None \<Rightarrow> (case strip_prefix name ''S_'' of
        Some rest \<Rightarrow> rest \<noteq> [] \<and> is_upper_snake_case rest
      | None \<Rightarrow> (case strip_prefix name ''c_'' of
        Some rest \<Rightarrow> rest \<noteq> [] \<and> is_snake_case rest
      | None \<Rightarrow> (case strip_prefix name ''s_'' of
        Some rest \<Rightarrow> rest \<noteq> [] \<and> is_snake_case rest
      | None \<Rightarrow> False))))"

definition last_is :: "char \<Rightarrow> rstr \<Rightarrow> bool" where
  "last_is c s \<longleftrightarrow> s \<noteq> [] \<and> List.last s = c"

definition is_boundary :: "rstr \<Rightarrow> nat \<Rightarrow> bool" where
  "is_boundary ident i =
     (let prev = (if i > 0 then Some (ident ! (i - 1)) else None);
          follow = nth_opt ident (i + 1);
          holds = (\<lambda>p x. case x of None \<Rightarrow> False | Some c \<Rightarrow> p c)
      in holds (\<lambda>c. is_ascii_lowercase c \<or> is_ascii_digit c) prev
         \<or> (holds is_ascii_uppercase prev \<and> holds is_ascii_lowercase follow))"

definition snake_step :: "rstr \<Rightarrow> nat list \<Rightarrow> nat \<Rightarrow> nat \<times> rstr \<Rightarrow> nat \<times> rstr" where
  "snake_step ident positions i st =
     (case st of (pos_idx, result) \<Rightarrow>
        if pos_idx < length positions \<and> positions ! pos_idx = i
        then
          let result = (if is_boundary ident i \<and> \<not> last_is CHR ''_'' result then result @ ''_'' else result)
          in (pos_idx + 1, result @ [to_ascii_lowercase_char (ident ! i)])
        else (pos_idx, result @ [ident ! i]))"

definition to_snake_case :: "rstr \<Rightarrow> rstr" where
  "to_snake_case ident =
     (let positions = find_uppercase_positions target_arch (as_bytes ident)
      in if positions = [] then ident
         else snd (fold (snake_step ident positions) [0 ..< length ident] (0, [])))"

section \<open>Prefixes\<close>

record prefix_config =
  px_local :: rstr
  px_member :: rstr
  px_global :: rstr
  px_static_lower :: rstr
  px_static_upper :: rstr
  px_const_lower :: rstr
  px_constexpr_upper :: rstr
  px_volatile :: rstr
  px_pointer :: rstr
  px_shared_ptr :: rstr
  px_unique_ptr :: rstr
  px_weak_ptr :: rstr
  px_function :: rstr
  px_reference :: rstr
  px_atomic :: rstr
  px_enum_var :: rstr
  px_struct_var :: rstr
  px_thread :: rstr
  px_singleton :: rstr

definition prefix_config_default :: prefix_config where
  "prefix_config_default =
     \<lparr>px_local = ''_'', px_member = ''m_'', px_global = ''g_'', px_static_lower = ''s_'', px_static_upper = ''S_'',
      px_const_lower = ''c_'', px_constexpr_upper = ''C_'', px_volatile = ''v_'', px_pointer = ''p_'',
      px_shared_ptr = ''sp_'', px_unique_ptr = ''up_'', px_weak_ptr = ''wp_'', px_function = ''f_'',
      px_reference = ''r_'', px_atomic = ''a_'', px_enum_var = ''e_'', px_struct_var = ''t_'', px_thread = ''th_'',
      px_singleton = ''sg_''\<rparr>"

definition prefix_candidates :: "prefix_config \<Rightarrow> rstr list" where
  "prefix_candidates self =
     [px_local self, px_member self, px_global self, px_static_lower self, px_static_upper self,
      px_const_lower self, px_constexpr_upper self, px_volatile self, px_pointer self, px_shared_ptr self,
      px_unique_ptr self, px_weak_ptr self, px_function self, px_reference self, px_atomic self,
      px_enum_var self, px_struct_var self, px_thread self, px_singleton self]"

definition has_known_prefix :: "prefix_config \<Rightarrow> rstr \<Rightarrow> bool" where
  "has_known_prefix self name \<longleftrightarrow>
     list_ex (\<lambda>pfx. pfx \<noteq> [] \<and> starts_with name pfx) (prefix_candidates self)"

record identifier_context =
  ic_is_field :: bool
  ic_is_global :: bool
  ic_is_method_local :: bool
  ic_static :: bool
  ic_const :: bool
  ic_volatile :: bool
  ic_pointer :: bool
  ic_reference :: bool
  ic_canonical_type_kind :: int
  ic_num_template_args :: int
  ic_template_base_name :: "rstr option"
  ic_type_spelling :: "rstr option"

text \<open>The type kinds of libclang the prefixes depend on.\<close>

definition cx_type_pointer :: int where "cx_type_pointer = 101"
definition cx_type_lvalue_reference :: int where "cx_type_lvalue_reference = 103"
definition cx_type_rvalue_reference :: int where "cx_type_rvalue_reference = 104"

text \<open>\<open>trim_start_matches\<close>: the pattern is removed as often as it comes first.\<close>

function trim_start_matches :: "rstr \<Rightarrow> rstr \<Rightarrow> rstr" where
  "trim_start_matches p s =
     (if p \<noteq> [] \<and> starts_with s p then trim_start_matches p (drop (length p) s) else s)"
  by pat_completeness auto
termination
  by (relation "measure (\<lambda>(p, s). length s)") (auto simp: starts_with_iff)

declare trim_start_matches.simps [simp del]

text \<open>The part after the last separator: \<open>rsplit(\"::\").next()\<close>.\<close>

definition after_last :: "rstr \<Rightarrow> rstr \<Rightarrow> rstr" where
  "after_last separator s =
     (case find_sub (rev s) (rev separator) of None \<Rightarrow> s | Some i \<Rightarrow> rev (take i (rev s)))"

definition base_type_name :: "rstr \<Rightarrow> rstr" where
  "base_type_name spelling =
     (let s = trim_start_matches ''const '' spelling;
          s = trim_start_matches ''volatile '' s;
          s = trim_start_matches ''class '' s;
          s = trim_start_matches ''struct '' s
      in trim (after_last ''::'' s))"

definition pointer_prefix :: "prefix_config \<Rightarrow> rstr option \<Rightarrow> rstr" where
  "pointer_prefix candidates tmpl =
     (if tmpl = Some ''shared_ptr'' then px_shared_ptr candidates
      else if tmpl = Some ''unique_ptr'' then px_unique_ptr candidates
      else if tmpl = Some ''weak_ptr'' then px_weak_ptr candidates
      else px_pointer candidates)"

definition template_prefix :: "prefix_config \<Rightarrow> rstr option \<Rightarrow> rstr" where
  "template_prefix candidates tmpl =
     (if tmpl = Some ''shared_ptr'' then px_shared_ptr candidates
      else if tmpl = Some ''unique_ptr'' then px_unique_ptr candidates
      else if tmpl = Some ''weak_ptr'' then px_weak_ptr candidates
      else if tmpl = Some ''function'' \<or> tmpl = Some ''Function'' then px_function candidates
      else if tmpl = Some ''atomic'' \<or> tmpl = Some ''Atomic'' then px_atomic candidates
      else [])"

definition type_prefix :: "prefix_config \<Rightarrow> identifier_context \<Rightarrow> rstr" where
  "type_prefix candidates ctx =
     (let kind = ic_canonical_type_kind ctx;
          type_pfx =
            (if ic_pointer ctx \<or> kind = cx_type_pointer then pointer_prefix candidates (ic_template_base_name ctx)
             else if ic_reference ctx \<or> kind = cx_type_lvalue_reference \<or> kind = cx_type_rvalue_reference
             then px_reference candidates
             else if ic_num_template_args ctx > 0 then template_prefix candidates (ic_template_base_name ctx)
             else [])
      in if type_pfx = []
         then (case ic_type_spelling ctx of
                 None \<Rightarrow> type_pfx
               | Some spelling \<Rightarrow>
                   if base_type_name spelling = ''thread'' \<or> base_type_name spelling = ''jthread''
                   then px_thread candidates else [])
         else type_pfx)"

definition build_stacked_prefix :: "prefix_config \<Rightarrow> identifier_context \<Rightarrow> rstr" where
  "build_stacked_prefix candidates ctx =
     (if ic_is_field ctx then px_member candidates
      else if ic_is_global ctx then px_global candidates
      else px_local candidates)
     @ (if ic_static ctx
        then if ic_is_method_local ctx then px_singleton candidates else px_static_lower candidates
        else [])
     @ (if ic_const ctx then px_const_lower candidates else [])
     @ (if ic_volatile ctx then px_volatile candidates else [])
     @ type_prefix candidates ctx"

section \<open>The name suggested for a variable\<close>

definition to_ascii_uppercase_char :: "char \<Rightarrow> char" where
  "to_ascii_uppercase_char c =
     (if is_ascii_lowercase c
      then (case c of Char b0 b1 b2 b3 b4 b5 b6 b7 \<Rightarrow> Char b0 b1 b2 b3 b4 False b6 b7)
      else c)"

definition needs_rename :: "prefix_config \<Rightarrow> rstr \<Rightarrow> bool" where
  "needs_rename pfxs name \<longleftrightarrow> \<not> (has_known_prefix pfxs name \<or> is_constant_like_identifier name)"

definition suggested_name :: "prefix_config \<Rightarrow> identifier_context \<Rightarrow> rstr \<Rightarrow> rstr" where
  "suggested_name pfxs ctx name =
     (let snake = build_stacked_prefix pfxs ctx @ to_snake_case name
      in if ic_is_global ctx then map to_ascii_uppercase_char snake else snake)"

end
