(* ===== verification/Naming_Facts.thy ===== *)
theory Naming_Facts
  imports Naming_Case
begin

text \<open>
  What holds of the names: the vectorised classes are the byte classes, snake case only lowers
  letters and inserts underscores, and a suggested name needs no further renaming.
\<close>

section \<open>Bytes and characters\<close>

lemma byte_le_char: "(of_char c :: byte) \<le> of_char d \<longleftrightarrow> c \<le> d"
  by (simp add: word_le_nat_alt unat_of_char less_eq_char_def)

lemma byte_in_char: "byte_in (of_char a) (of_char b) (of_char c) \<longleftrightarrow> a \<le> c \<and> c \<le> b"
  by (simp add: byte_in_def byte_le_char)

definition snake_char :: "char \<Rightarrow> bool" where
  "snake_char c \<longleftrightarrow> is_ascii_lowercase c \<or> is_ascii_digit c \<or> c = CHR ''_''"

definition upper_snake_char :: "char \<Rightarrow> bool" where
  "upper_snake_char c \<longleftrightarrow> is_ascii_uppercase c \<or> is_ascii_digit c \<or> c = CHR ''_''"

lemma byte_chars:
  "upper_byte (of_char c) \<longleftrightarrow> is_ascii_uppercase c"
  "case_byte 0x61 (of_char c) \<longleftrightarrow> snake_char c"
  "case_byte 0x41 (of_char c) \<longleftrightarrow> upper_snake_char c"
proof -
  have vals: "(0x41 :: byte) = of_char CHR ''A''" "(0x5A :: byte) = of_char CHR ''Z''"
    "(0x61 :: byte) = of_char CHR ''a''" "(0x61 :: byte) + 25 = of_char CHR ''z''"
    "(0x41 :: byte) + 25 = of_char CHR ''Z''"
    "(0x30 :: byte) = of_char CHR ''0''" "(0x39 :: byte) = of_char CHR ''9''" "(0x5F :: byte) = of_char CHR ''_''"
    by simp_all
  show "upper_byte (of_char c) \<longleftrightarrow> is_ascii_uppercase c"
    unfolding vals(1,2) byte_in_char by (simp add: is_ascii_uppercase_def)
  show "case_byte 0x61 (of_char c) \<longleftrightarrow> snake_char c"
    unfolding case_byte_def vals(4) unfolding vals byte_in_char of_char_byte_inject
    by (simp add: snake_char_def is_ascii_lowercase_def is_ascii_digit_def)
  show "case_byte 0x41 (of_char c) \<longleftrightarrow> upper_snake_char c"
    unfolding case_byte_def vals(5) unfolding vals byte_in_char of_char_byte_inject
    by (simp add: upper_snake_char_def is_ascii_uppercase_def is_ascii_digit_def)
qed

lemma is_snake_case_eq:
  "is_snake_case name \<longleftrightarrow>
     (case name of [] \<Rightarrow> True
      | c # rest \<Rightarrow> (is_ascii_lowercase c \<or> c = CHR ''_'') \<and> list_all snake_char rest)"
  by (auto simp: is_snake_case_def case_paths_agree as_bytes_def list_all_iff byte_chars split: list.split)

lemma is_upper_snake_case_eq:
  "is_upper_snake_case name \<longleftrightarrow> list_all upper_snake_char name \<and> list_ex is_ascii_alphabetic name"
  by (auto simp: is_upper_snake_case_def case_paths_agree as_bytes_def list_all_iff byte_chars)

lemma positions_eq:
  "find_uppercase_positions arch (as_bytes ident) = filter (\<lambda>i. is_ascii_uppercase (ident ! i)) [0 ..< length ident]"
  by (auto simp: case_paths_agree upper_from_def as_bytes_def byte_chars intro: filter_upt_cong)

section \<open>Snake case, letter by letter\<close>

definition snake_letter :: "rstr \<Rightarrow> nat \<Rightarrow> rstr \<Rightarrow> rstr" where
  "snake_letter ident i result =
     (if is_ascii_uppercase (ident ! i)
      then (if is_boundary ident i \<and> \<not> last_is CHR ''_'' result then result @ ''_'' else result)
           @ [to_ascii_lowercase_char (ident ! i)]
      else result @ [ident ! i])"

lemma filter_upt_nth:
  assumes "i < n"
  shows "(length (filter P [0 ..< i]) < length (filter P [0 ..< n])
          \<and> filter P [0 ..< n] ! length (filter P [0 ..< i]) = i) \<longleftrightarrow> P i"
proof -
  have split: "[0 ..< n] = [0 ..< i] @ i # [Suc i ..< n]"
    using assms upt_split [of 0 i n] upt_conv_Cons [of i n] by simp
  show ?thesis
  proof (cases "P i")
    case True
    then show ?thesis by (simp add: split)
  next
    case False
    have "filter P [Suc i ..< n] ! 0 \<noteq> i" if "filter P [Suc i ..< n] \<noteq> []"
    proof -
      have "filter P [Suc i ..< n] ! 0 \<in> set (filter P [Suc i ..< n])"
        using that by (metis length_greater_0_conv nth_mem)
      then show ?thesis by auto
    qed
    with False show ?thesis by (auto simp: split nth_append)
  qed
qed

lemma snake_fold:
  assumes "n \<le> length ident"
  defines "up \<equiv> \<lambda>i. is_ascii_uppercase (ident ! i)"
  shows "fold (snake_step ident (filter up [0 ..< length ident])) [0 ..< n] (0, [])
     = (length (filter up [0 ..< n]), fold (snake_letter ident) [0 ..< n] [])"
  using assms(1)
proof (induction n)
  case (Suc n)
  then have "fold (snake_step ident (filter up [0 ..< length ident])) [0 ..< n] (0, [])
     = (length (filter up [0 ..< n]), fold (snake_letter ident) [0 ..< n] [])" and "n < length ident"
    by simp_all
  note IH = this(1)
  have "snake_step ident (filter up [0 ..< length ident]) n (length (filter up [0 ..< n]), r)
      = (length (filter up [0 ..< Suc n]), snake_letter ident n r)" for r
    using filter_upt_nth [OF \<open>n < length ident\<close>, of up]
    by (cases "up n") (simp_all add: snake_step_def snake_letter_def up_def [symmetric] Let_def,
        simp_all add: up_def)
  with IH show ?case by simp
qed simp

lemma no_upper_letter:
  "\<forall>c \<in> set ident. \<not> is_ascii_uppercase c \<Longrightarrow> n \<le> length ident \<Longrightarrow>
     fold (snake_letter ident) [0 ..< n] [] = take n ident"
  by (induction n) (simp_all add: snake_letter_def take_Suc_conv_app_nth)

lemma to_snake_case_eq: "to_snake_case ident = fold (snake_letter ident) [0 ..< length ident] []"
proof (cases "find_uppercase_positions target_arch (as_bytes ident) = []")
  case True
  then have "\<forall>c \<in> set ident. \<not> is_ascii_uppercase c"
    by (auto simp: positions_eq filter_empty_conv in_set_conv_nth)
  then show ?thesis using True no_upper_letter [of ident "length ident"] by (simp add: to_snake_case_def)
next
  case False
  then show ?thesis
    using snake_fold [of "length ident" ident] by (simp add: to_snake_case_def positions_eq Let_def)
qed

lemma snake_letters:
  assumes "n \<le> length ident"
  defines "snake \<equiv> fold (snake_letter ident) [0 ..< n] []"
  shows "filter (\<lambda>c. c \<noteq> CHR ''_'') snake = filter (\<lambda>c. c \<noteq> CHR ''_'') (to_ascii_lowercase (take n ident))
    \<and> (\<forall>c \<in> set snake. c = CHR ''_'' \<or> c \<in> set (to_ascii_lowercase (take n ident)))
    \<and> (0 < n \<longrightarrow> snake \<noteq> [] \<and> hd snake = to_ascii_lowercase_char (ident ! 0))"
  unfolding snake_def using assms(1)
proof (induction n)
  case (Suc n)
  have split: "take (Suc n) ident = take n ident @ [ident ! n]"
    using Suc.prems by (simp add: take_Suc_conv_app_nth)
  have lower: "\<not> is_ascii_uppercase c \<Longrightarrow> to_ascii_lowercase_char c = c" for c
    by (simp add: to_ascii_lowercase_char_def)
  define r where "r = fold (snake_letter ident) [0 ..< n] []"
  have IH: "filter (\<lambda>c. c \<noteq> CHR ''_'') r = filter (\<lambda>c. c \<noteq> CHR ''_'') (to_ascii_lowercase (take n ident))"
    "\<forall>c \<in> set r. c = CHR ''_'' \<or> c \<in> set (to_ascii_lowercase (take n ident))"
    "0 < n \<Longrightarrow> r \<noteq> [] \<and> hd r = to_ascii_lowercase_char (ident ! 0)"
    using Suc by (simp_all add: r_def)
  have run: "fold (snake_letter ident) [0 ..< Suc n] [] = snake_letter ident n r" by (simp add: r_def)
  define u where "u = (if is_ascii_uppercase (ident ! n) \<and> is_boundary ident n \<and> \<not> last_is CHR ''_'' r
      then ''_'' else [])"
  have u: "snake_letter ident n r = r @ u @ [to_ascii_lowercase_char (ident ! n)]"
    "u = [] \<or> u = ''_'' \<and> 0 < n"
    by (simp_all add: snake_letter_def lower u_def) (simp add: is_boundary_def)
  have none: "n = 0 \<Longrightarrow> r = []" by (simp add: r_def)
  have marks: "filter (\<lambda>c. c \<noteq> CHR ''_'') u = []" "\<forall>c \<in> set u. c = CHR ''_''" using u(2) by auto
  have lower_append: "to_ascii_lowercase (take n ident @ [ident ! n])
      = to_ascii_lowercase (take n ident) @ [to_ascii_lowercase_char (ident ! n)]"
    by (simp add: to_ascii_lowercase_def)
  have first: "hd (r @ u @ [to_ascii_lowercase_char (ident ! n)]) = to_ascii_lowercase_char (ident ! 0)"
    using IH(3) none u(2) by (cases "n = 0") auto
  show ?case
    unfolding run u(1) split lower_append using IH(1,2) marks first
    by (intro conjI) (simp_all only: filter_append append_Nil set_append ball_Un, auto)
qed simp

lemmas to_snake_case_letters = snake_letters [of "length ident" ident for ident, simplified, folded to_snake_case_eq]

lemma to_snake_case_set:
  "c \<in> set (to_snake_case ident) \<Longrightarrow> c = CHR ''_'' \<or> c \<in> to_ascii_lowercase_char ` set ident"
  using to_snake_case_letters [of ident] by (auto simp: to_ascii_lowercase_def)

lemma to_snake_case_no_upper:
  assumes "c \<in> set (to_snake_case ident)"
  shows "\<not> is_ascii_uppercase c"
  using to_snake_case_set [OF assms]
proof
  assume "c = CHR ''_''"
  then show ?thesis by (simp add: is_ascii_uppercase_def)
next
  assume "c \<in> to_ascii_lowercase_char ` set ident"
  then show ?thesis using lower_not_upper by blast
qed

lemma to_snake_case_id: "\<forall>c \<in> set ident. \<not> is_ascii_uppercase c \<Longrightarrow> to_snake_case ident = ident"
  using no_upper_letter [of ident "length ident"] by (simp add: to_snake_case_eq)

lemma upper_to_lower: "is_ascii_uppercase c \<Longrightarrow> is_ascii_lowercase (to_ascii_lowercase_char c)"
  by (cases c) (auto simp: to_ascii_lowercase_char_def is_ascii_uppercase_def is_ascii_lowercase_def)

lemma lower_snake_char:
  assumes "is_identifier_byte c"
  shows "snake_char (to_ascii_lowercase_char c)"
proof (cases "is_ascii_uppercase c")
  case True
  then show ?thesis by (simp add: snake_char_def upper_to_lower)
next
  case False
  with assms show ?thesis
    by (simp add: to_ascii_lowercase_char_def is_identifier_byte_def snake_char_def is_ascii_alphabetic_def
        is_ascii_lowercase_def)
qed

lemma to_snake_case_chars:
  assumes "list_all is_identifier_byte ident"
  shows "list_all snake_char (to_snake_case ident)"
proof -
  have "snake_char c" if "c \<in> set (to_snake_case ident)" for c
    using to_snake_case_set [OF that] assms lower_snake_char by (auto simp: list_all_iff snake_char_def)
  then show ?thesis by (simp add: list_all_iff)
qed

section \<open>Suggested names\<close>

lemma default_candidates: "p \<in> set (prefix_candidates prefix_config_default) \<Longrightarrow>
    p \<noteq> [] \<and> list_all is_identifier_byte p"
  by (auto simp: prefix_candidates_def prefix_config_default_def is_identifier_byte_def is_ascii_alphabetic_def
      is_ascii_uppercase_def)

lemma type_prefix_cases:
  "type_prefix c ctx = [] \<or> type_prefix c ctx \<in> set (prefix_candidates c)"
proof -
  have pointer: "pointer_prefix c tmpl \<in> set (prefix_candidates c)" for tmpl
    by (simp add: pointer_prefix_def prefix_candidates_def)
  have template: "template_prefix c tmpl = [] \<or> template_prefix c tmpl \<in> set (prefix_candidates c)" for tmpl
    by (simp add: template_prefix_def prefix_candidates_def)
  have others: "px_reference c \<in> set (prefix_candidates c)" "px_thread c \<in> set (prefix_candidates c)"
    by (simp_all add: prefix_candidates_def)
  show ?thesis
    unfolding type_prefix_def Let_def
    using pointer [of "ic_template_base_name ctx"] template [of "ic_template_base_name ctx"] others
    by (simp split: option.split) blast
qed

lemma stacked_prefix_shape:
  "\<exists>rest. build_stacked_prefix prefix_config_default ctx =
       (if ic_is_field ctx then ''m_'' else if ic_is_global ctx then ''g_'' else ''_'') @ rest
     \<and> list_all is_identifier_byte rest"
proof -
  define p where "p = (if ic_is_field ctx then ''m_'' else if ic_is_global ctx then ''g_'' else ''_'')"
  obtain rest where rest: "build_stacked_prefix prefix_config_default ctx = p @ rest"
    by (auto simp: build_stacked_prefix_def p_def prefix_config_default_def)
  have "\<forall>x \<in> set [if ic_static ctx then if ic_is_method_local ctx then px_singleton prefix_config_default
          else px_static_lower prefix_config_default else [],
       if ic_const ctx then px_const_lower prefix_config_default else [],
       if ic_volatile ctx then px_volatile prefix_config_default else [],
       type_prefix prefix_config_default ctx].
      x = [] \<or> x \<in> set (prefix_candidates prefix_config_default)"
    using type_prefix_cases [of prefix_config_default ctx] by (auto simp: prefix_candidates_def)
  then have parts: "\<forall>x \<in> set [if ic_static ctx then if ic_is_method_local ctx then px_singleton prefix_config_default
          else px_static_lower prefix_config_default else [],
       if ic_const ctx then px_const_lower prefix_config_default else [],
       if ic_volatile ctx then px_volatile prefix_config_default else [],
       type_prefix prefix_config_default ctx]. list_all is_identifier_byte x"
    using default_candidates by fastforce
  have "p @ rest = p @ concat [if ic_static ctx then if ic_is_method_local ctx then px_singleton prefix_config_default
          else px_static_lower prefix_config_default else [],
       if ic_const ctx then px_const_lower prefix_config_default else [],
       if ic_volatile ctx then px_volatile prefix_config_default else [],
       type_prefix prefix_config_default ctx]"
    unfolding rest [symmetric] by (simp add: build_stacked_prefix_def p_def) (simp add: prefix_config_default_def)
  then have "list_all is_identifier_byte rest" using parts by (auto simp: list_all_iff)
  with rest show ?thesis unfolding p_def by blast
qed

lemma lower_to_upper: "is_ascii_lowercase c \<Longrightarrow> is_ascii_uppercase (to_ascii_uppercase_char c)"
  by (cases c) (auto simp: to_ascii_uppercase_char_def is_ascii_uppercase_def is_ascii_lowercase_def)

lemma upper_snake_upper:
  assumes "is_identifier_byte c"
  shows "upper_snake_char (to_ascii_uppercase_char c)"
proof (cases "is_ascii_lowercase c")
  case True
  then show ?thesis by (simp add: upper_snake_char_def lower_to_upper)
next
  case False
  with assms show ?thesis
    by (auto simp: to_ascii_uppercase_char_def is_identifier_byte_def upper_snake_char_def is_ascii_alphabetic_def
        is_ascii_lowercase_def)
qed

lemma snake_identifier: "snake_char c \<Longrightarrow> is_identifier_byte c"
  by (auto simp: snake_char_def is_identifier_byte_def is_ascii_alphabetic_def is_ascii_lowercase_def)

lemma known_prefix_append: "p \<in> set (prefix_candidates c) \<Longrightarrow> p \<noteq> [] \<Longrightarrow> has_known_prefix c (p @ s)"
  by (auto simp: has_known_prefix_def list_ex_iff)

section \<open>Properties\<close>

text \<open>
  \<^bold>\<open>C21\<close>: The snake case of an identifier is accepted as snake case and is its own snake case; it
  is the identifier in lower case with underscores inserted, nothing else.
\<close>

theorem snake_case_names:
  assumes "list_all is_identifier_byte ident" and "ident = [] \<or> \<not> is_ascii_digit (hd ident)"
  shows "is_snake_case (to_snake_case ident)
    \<and> to_snake_case (to_snake_case ident) = to_snake_case ident
    \<and> filter (\<lambda>c. c \<noteq> CHR ''_'') (to_snake_case ident) = filter (\<lambda>c. c \<noteq> CHR ''_'') (to_ascii_lowercase ident)"
proof (intro conjI)
  show "to_snake_case (to_snake_case ident) = to_snake_case ident"
    by (rule to_snake_case_id) (use to_snake_case_no_upper in blast)
  show "filter (\<lambda>c. c \<noteq> CHR ''_'') (to_snake_case ident) = filter (\<lambda>c. c \<noteq> CHR ''_'') (to_ascii_lowercase ident)"
    using to_snake_case_letters [of ident] by simp
  show "is_snake_case (to_snake_case ident)"
  proof (cases "to_snake_case ident")
    case (Cons c rest)
    then have ne: "ident \<noteq> []" by (auto simp: to_snake_case_eq)
    then have c: "c = to_ascii_lowercase_char (hd ident)"
      using to_snake_case_letters [of ident] Cons by (simp add: hd_conv_nth)
    have "is_identifier_byte (hd ident)" "\<not> is_ascii_digit (hd ident)"
      using assms ne by (auto simp: list_all_iff)
    then have "is_ascii_lowercase c \<or> c = CHR ''_''"
      unfolding c
      by (cases "is_ascii_uppercase (hd ident)")
         (simp_all add: upper_to_lower,
          simp add: to_ascii_lowercase_char_def is_identifier_byte_def is_ascii_alphabetic_def is_ascii_lowercase_def)
    then show ?thesis
      using to_snake_case_chars [OF assms(1)] Cons by (simp add: is_snake_case_eq)
  qed (simp add: is_snake_case_eq)
qed

lemma snake_case_names_witness:
  "is_snake_case (to_snake_case ''parseHTTPRequest2'') \<and> to_snake_case ''parseHTTPRequest2'' = ''parse_http_request2''"
proof -
  have "list_all is_identifier_byte ''parseHTTPRequest2'' \<and> \<not> is_ascii_digit (hd ''parseHTTPRequest2'')"
    by code_simp
  then have "is_snake_case (to_snake_case ''parseHTTPRequest2'')"
    using snake_case_names [of "''parseHTTPRequest2''"] by blast
  moreover have "to_snake_case ''parseHTTPRequest2'' = ''parse_http_request2''" by code_simp
  ultimately show ?thesis ..
qed

text \<open>
  \<^bold>\<open>C11\<close>: With the default prefixes the name suggested for a variable is final: whatever the kind
  of the variable, the policy does not ask to rename it again.
\<close>

theorem suggestion_accepted:
  assumes "list_all is_identifier_byte ident"
  shows "\<not> needs_rename prefix_config_default (suggested_name prefix_config_default ctx ident)"
proof -
  obtain rest where shape: "build_stacked_prefix prefix_config_default ctx =
       (if ic_is_field ctx then ''m_'' else if ic_is_global ctx then ''g_'' else ''_'') @ rest"
    and rest: "list_all is_identifier_byte rest"
    using stacked_prefix_shape by blast
  show ?thesis
  proof (cases "ic_is_global ctx")
    case False
    let ?p = "if ic_is_field ctx then ''m_'' else if ic_is_global ctx then ''g_'' else ''_''"
    have "?p \<in> set (prefix_candidates prefix_config_default)"
      by (simp add: prefix_candidates_def prefix_config_default_def)
    then have "has_known_prefix prefix_config_default (?p @ rest @ to_snake_case ident)"
      by (auto simp: known_prefix_append simp del: append.simps)
    with False show ?thesis by (simp add: needs_rename_def suggested_name_def shape)
  next
    case True
    define snake where "snake = build_stacked_prefix prefix_config_default ctx @ to_snake_case ident"
    have "list_all is_identifier_byte (to_snake_case ident)"
      using to_snake_case_chars [OF assms] snake_identifier by (auto simp: list_all_iff)
    with rest True have "list_all is_identifier_byte snake"
      by (simp add: snake_def shape is_identifier_byte_def is_ascii_alphabetic_def)
    then have all: "list_all upper_snake_char (map to_ascii_uppercase_char snake)"
      by (auto simp: list_all_iff upper_snake_upper)
    have "snake \<noteq> []" and first: "is_ascii_lowercase (hd snake)"
      using True by (simp_all add: snake_def shape is_ascii_lowercase_def)
    then have "is_ascii_alphabetic (to_ascii_uppercase_char (hd snake))"
      by (simp add: lower_to_upper is_ascii_alphabetic_def)
    with \<open>snake \<noteq> []\<close> have "list_ex is_ascii_alphabetic (map to_ascii_uppercase_char snake)"
      by (cases snake) simp_all
    with all True show ?thesis
      by (simp add: needs_rename_def suggested_name_def is_constant_like_identifier_def is_upper_snake_case_eq
          flip: snake_def)
  qed
qed

definition plain_variable :: "bool \<Rightarrow> identifier_context" where
  "plain_variable is_global =
     \<lparr>ic_is_field = False, ic_is_global = is_global, ic_is_method_local = False, ic_static = False, ic_const = True,
      ic_volatile = False, ic_pointer = True, ic_reference = False, ic_canonical_type_kind = 0,
      ic_num_template_args = 0, ic_template_base_name = Some ''shared_ptr'', ic_type_spelling = None\<rparr>"

lemma suggestion_accepted_witness:
  "\<not> needs_rename prefix_config_default (suggested_name prefix_config_default (plain_variable True) ''CamelVar'')
   \<and> suggested_name prefix_config_default (plain_variable True) ''CamelVar'' = ''G_C_SP_CAMEL_VAR''"
proof -
  have "list_all is_identifier_byte ''CamelVar''" by code_simp
  then have "\<not> needs_rename prefix_config_default (suggested_name prefix_config_default (plain_variable True) ''CamelVar'')"
    by (rule suggestion_accepted)
  moreover have "suggested_name prefix_config_default (plain_variable True) ''CamelVar'' = ''G_C_SP_CAMEL_VAR''"
    by code_simp
  ultimately show ?thesis ..
qed

end
