(* ===== verification/Spec2Isabelle.thy ===== *)
theory Spec2Isabelle
  imports Directives Convergence Conflict_Solver Conflict_Detector Rollout Reporter Scheduler Ts_Tree Context_Query Post_Check Cluster_Telemetry Semantic_Impact Proposer Policy_Learning Pipeline_Safety Engine_Facts Line_Policy_Facts Semantic_Rename Naming_Facts
begin

text \<open>
  A verification library for the formatter of C++ sources in \<^verbatim>\<open>src/\<close>.

  \<^bold>\<open>The program.\<close>  A run pairs the files of a project into units (\<open>File_Unit\<close>), plans batches of
  them by their cost (\<open>Scheduler\<close>) and hands each file to the engine (\<open>Coordinator\<close>).  The engine
  takes a baseline of the text (\<open>Post_Check\<close>), asks the accuracy gate (\<open>Gates\<close>), runs one pass of
  the pipeline and lets the check after the edits comment on the result.  In a pass (\<open>Pipeline\<close>)
  every policy in turn rewrites the text: the pipeline parses what is missing, executes the policy
  under its guards, coordinates its edits with those of the others, checks the new text against the
  errors of the old syntax tree, and commits it, recovers a part of it or rolls it back.  What the
  engine learns (filters, telemetry, rollout state, costs) is kept in state files that survive damage
  (\<open>State_Codec\<close>); worker processes and the reporter talk over framed pipes (\<open>Ecc_Frame\<close>,
  \<open>Reporter\<close>).

  \<^bold>\<open>Theories and sources\<close> (paths below \<^verbatim>\<open>src/src/\<close>).  \<open>Prelude\<close> and \<open>Rust_Str\<close> model what the source
  uses of Rust's standard library: bytes, strings as byte lists, slices, sorts, searches, numbers as
  text.
  \<^item> \<open>Text_Scan\<close>: \<^verbatim>\<open>parser/text_scan.rs\<close>, lines and vectorised scans.  \<open>Identifiers\<close>, \<open>Catalog\<close>:
    \<^verbatim>\<open>policy/id.rs\<close>, \<^verbatim>\<open>policy/zone.rs\<close>, \<^verbatim>\<open>engine/catalog.rs\<close>.  \<open>Model\<close>: \<^verbatim>\<open>model/\<close>.
  \<^item> \<open>Directives\<close>, \<open>Line_Suppression\<close>: \<^verbatim>\<open>engine/suppression.rs\<close>, \<^verbatim>\<open>engine/pipeline/suppression.rs\<close>;
    \<open>Edit_Utils\<close>: \<^verbatim>\<open>engine/pipeline/edit_utils.rs\<close>; \<open>Convergence\<close>: \<^verbatim>\<open>engine/convergence.rs\<close>;
    \<open>Conflict_Model\<close>, \<open>Conflict_Search\<close>, \<open>Conflict_Optimal\<close>, \<open>Conflict_Solver\<close>:
    \<^verbatim>\<open>engine/conflict_solver.rs\<close>, \<^verbatim>\<open>engine/edit_candidate.rs\<close>; \<open>Conflict_Detector\<close>:
    \<^verbatim>\<open>engine/conflict_detector.rs\<close>.
  \<^item> \<open>Ts_Tree\<close>: \<^verbatim>\<open>parser/ts_traversal.rs\<close>; \<open>File_Context\<close>: \<^verbatim>\<open>parser/file_context.rs\<close> and its data;
    \<open>Context_Query\<close>: \<^verbatim>\<open>model/context_query.rs\<close>; \<open>Semantic_Contract\<close>, \<open>Contract_Facts\<close>:
    \<^verbatim>\<open>engine/semantic_contract.rs\<close> and its directory; \<open>Post_Check\<close>: \<^verbatim>\<open>engine/post_check.rs\<close> and its
    directory.
  \<^item> \<open>Mat5\<close>, \<open>Certainty_Filter\<close>: \<^verbatim>\<open>engine/mat5.rs\<close>, \<^verbatim>\<open>engine/certainty_filter.rs\<close>;
    \<open>Policy_Learning\<close>: \<^verbatim>\<open>engine/policy_interference.rs\<close>, \<^verbatim>\<open>engine/context_tracker.rs\<close>;
    \<open>Cluster_Telemetry\<close>: \<^verbatim>\<open>runtime/cluster_telemetry.rs\<close>, \<^verbatim>\<open>app/graph_refresh.rs\<close>; \<open>Gates\<close>:
    \<^verbatim>\<open>engine/accuracy_gate.rs\<close>, \<^verbatim>\<open>engine/gate_decision.rs\<close>, \<^verbatim>\<open>engine/pipeline/confidence.rs\<close>.
  \<^item> \<open>Semantic_Impact\<close>: \<^verbatim>\<open>engine/pipeline/semantic_impact.rs\<close> and \<^verbatim>\<open>config/policy_config.rs\<close>;
    \<open>Proposer\<close>: \<^verbatim>\<open>engine/proposer.rs\<close>; \<open>Pipeline_Model\<close>, \<open>Pipeline_Stage\<close>, \<open>Pipeline\<close>:
    \<^verbatim>\<open>engine/pipeline/mod.rs\<close>, \<^verbatim>\<open>checkpoint.rs\<close>, \<^verbatim>\<open>context.rs\<close>, \<^verbatim>\<open>engine/run_options.rs\<close>; \<open>Coordinator\<close>:
    \<^verbatim>\<open>engine/coordinator.rs\<close>.
  \<^item> \<open>Ecc_Model\<close>, \<open>State_Codec\<close>, \<open>Ecc_Frame\<close>: \<^verbatim>\<open>files/codec.rs\<close>, \<^verbatim>\<open>files/ecc_frame.rs\<close>; \<open>Reporter\<close>:
    \<^verbatim>\<open>runtime/reporter.rs\<close>; \<open>Rollout\<close>: \<^verbatim>\<open>runtime/rollout_state.rs\<close>; \<open>File_Unit\<close>, \<open>Scheduler\<close>:
    \<^verbatim>\<open>files/file_unit.rs\<close>, \<^verbatim>\<open>runtime/scheduler.rs\<close>.

  \<^item> \<open>Text_Lines\<close>, \<open>Line_Policies\<close>, \<open>Line_Policy_Facts\<close>: \<^verbatim>\<open>policy/text_utils.rs\<close>,
    \<^verbatim>\<open>policy/shared_data.rs\<close> and the policies \<^verbatim>\<open>dash_comment.rs\<close>, \<^verbatim>\<open>section_title.rs\<close>,
    \<^verbatim>\<open>macro_spacing.rs\<close>, \<^verbatim>\<open>pragma_once.rs\<close>; \<open>Naming_Case\<close>, \<open>Naming_Facts\<close>, \<open>Semantic_Rename\<close>:
    \<^verbatim>\<open>policy/naming_conventions/\<close> and \<^verbatim>\<open>parser/simd_classify.rs\<close>.

  \<^bold>\<open>State and operations.\<close>  A struct is a record with the fields of the source under a short prefix
  (\<open>st_\<close> the state of a pass, \<open>pa_\<close> its parse cache, \<open>en_\<close> what the engine carries from file to file), an
  enum a datatype with its variants.  A method that changes its receiver returns the changed record; an
  error is \<open>Inl\<close>, a missing value \<open>None\<close>.  One function of the source is one definition, and a long one is
  cut at its blocks: \<open>run_policy_stage\<close> is \<open>ensure_policy_parse_stage\<close>, \<open>execute_policy_stage\<close>,
  \<open>coordinate_policy_stage\<close>, \<open>checkpoint_policy_stage\<close> and one of \<open>accept_stage\<close>, \<open>partial_stage\<close>,
  \<open>retry_stage\<close>.

  \<^bold>\<open>What is shown.\<close>
  \<^item> Conflicts: what the solver accepts never conflicts, exactly the lines with candidates are accounted
    for, and the exact search is optimal when totals differ by more than its tolerance; the convergence controller leaves each line to one policy of
    the highest priority.
  \<^item> The pipeline: no text gets past a stage unvetted (\<open>stage_text_vetted\<close>), the cache and the candidates
    stay consistent through every sequence of stages (\<open>pass_invariant\<close>, by induction over
    \<open>reachable_pass\<close>), a pass completes (\<open>pass_completes\<close>) and adds no syntax error
    (\<open>pass_adds_no_syntax_error\<close>); and what the code forgets after a partial rollback or a rename.
  \<^item> The engine: one pass decides, a changed text has edits, and the filters keep their bounds.
  \<^item> Lines and edits: disabled lines survive suppression, synthesised edits rebuild the text.
  \<^item> Policies: a rename exchanges whole identifiers of code only, all at once; suggested names need no
    further renaming; the edits of the comment policies account for every line they change (and, when
    all lines end the same way, for every byte), separators settle after a run or two unless their
    lengths are crossed; and where a policy does not do what it is for.
  \<^item> Trees and contexts: error statistics are exact, index lookups are searches, the post-edit check and
    the semantic contract report what they promise, and cases they miss.
  \<^item> Learning: the Kalman filter keeps its estimates and covariances valid, the counts of
    all workers add up in the parent, and telemetry survives a reload up to rounding.  The portable and
    the SIMD arithmetic on floats agree over the reals only.
  \<^item> Storage and processes: state files survive two damaged shards, the reporter refines a fold over what
    was sent and always returns, rollout states keep their invariant, every file is dispatched once.

  The interfaces between components are locales, interpreted on the model's own definitions: the
  component solvers (exact, greedy and the selected one), the arbiter of the controller, line
  suppression in the pipeline and in the controller, the framing of a stream, the enums written as
  strings, and the policies that rewrite a text line by line.

  \<^bold>\<open>Bounds and fuel.\<close>  A usize is a natural number, with the saturation written out where the source
  saturates; a u64 hash is a \<open>64 word\<close>.  An f64 or f32 is a real: rounding, infinities and NaN are not
  modelled, so an equation between reals holds of the code up to rounding.  Loops are structural or have
  a measure; only the receive loop of the reporter takes fuel, one more than the bytes left, and each
  round consumes a byte.

  \<^bold>\<open>Parameters.\<close>  Reed--Solomon, the checksum, the hasher, the serialiser, the file system, the
  compilation database, the numbers of the generated grammar, both parsers and the policies themselves are
  arguments.  Hypotheses state their documented behaviour where a property needs it, and every such
  property has a witness with a concrete instance.

  \<^bold>\<open>Conventions.\<close>  A hash map is a map where its order does not show, and an association list in the order
  of insertion where it does.  Recordings of concurrent threads are a sequence of operations.  The code
  loads the state of the certainty filter anew in each stage, and another file's thread may have
  replaced it; in the model a pass sees one state from its start to its end (\<open>pl_adaptive\<close>).  The lower
  case of a string is the one of its ASCII letters.  Elapsed
  times and log lines are left out; so is the rename signal of a pass, which nothing reads, and the
  telemetry that a pass records before it fails.

  \<^bold>\<open>Not modelled.\<close>  The policies that rewrite along the syntax tree or call clang-format, the walk over
  the tree in which the naming policy finds its declarations, the parser front ends with libclang and
  tree-sitter, the project graph, file access, the command line and the worker processes: they are calls
  into libraries and the operating system, or need the parsers' output to say anything.
\<close>

end
